(* ===== verification/Prelude.thy ===== *)
theory Prelude imports Main "HOL-Library.Word" begin

text \<open>
  Shared vocabulary of the development: the result type of code that throws, generic lemmas on
  lists that several components use, and the locale of state machines whose runs keep an
  invariant.  The components of the bridge are classes with private fields and methods; every
  one of them is modelled as a state type and a step function, and its safety theorem is an
  instance of the locale below.
\<close>

named_theorems inv_simps \<open>definitions of the components' invariants\<close>
named_theorems step_simps \<open>definitions of the components' operations\<close>

subsection \<open>Results of code that throws\<close>

type_synonym ('e, 'a) result = "'e + 'a"

fun bind_result :: "('e, 'a) result \<Rightarrow> ('a \<Rightarrow> ('e, 'b) result) \<Rightarrow> ('e, 'b) result" where
  "bind_result (Inl e) f = Inl e"
| "bind_result (Inr a) f = f a"

lemma bind_result_Inr_iff [simp]:
  "bind_result r f = Inr b \<longleftrightarrow> (\<exists>a. r = Inr a \<and> f a = Inr b)"
  by (cases r) auto

subsection \<open>Lists\<close>

lemma length_filter_neq_less:
  "x \<in> set xs \<Longrightarrow> \<not> P x \<Longrightarrow> length (filter P xs) < length xs"
  by (rule length_filter_less)

lemma sum_list_filter_le:
  fixes f :: "'a \<Rightarrow> nat"
  shows "sum_list (map f (filter P xs)) \<le> sum_list (map f xs)"
  by (induction xs) auto

lemma distinct_map_filter_fst:
  "distinct (map fst xs) \<Longrightarrow> distinct (map fst (filter P xs))"
  by (rule distinct_map_filter)

lemma find_Some_in: "List.find P xs = Some x \<Longrightarrow> x \<in> set xs \<and> P x"
  by (auto simp: find_Some_iff)

lemma find_None_iff': "List.find P xs = None \<longleftrightarrow> (\<forall>x\<in>set xs. \<not> P x)"
  by (auto simp: find_None_iff)

subsection \<open>State machines\<close>

text \<open>
  A component's state, the events that drive it and its step function; \<open>inv\<close> holds at the start
  and every step keeps it.
\<close>

primrec run_steps :: "('s \<Rightarrow> 'e \<Rightarrow> 's) \<Rightarrow> 's \<Rightarrow> 'e list \<Rightarrow> 's" where
  "run_steps step s [] = s"
| "run_steps step s (e # es) = run_steps step (step s e) es"

lemma run_steps_append: "run_steps step s (es @ fs) = run_steps step (run_steps step s es) fs"
  by (induction es arbitrary: s) simp_all

locale state_machine =
  fixes start :: "'s"
    and step :: "'s \<Rightarrow> 'e \<Rightarrow> 's"
    and inv :: "'s \<Rightarrow> bool"
  assumes start_inv: "inv start"
    and step_inv: "inv s \<Longrightarrow> inv (step s e)"
begin

lemma run_from_inv: "inv s \<Longrightarrow> inv (run_steps step s es)"
  by (induction es arbitrary: s) (simp_all add: step_inv)

lemma run_inv: "inv (run_steps step start es)"
  by (rule run_from_inv) (rule start_inv)

end

text \<open>A machine with a fact that, once true, stays true (tombstones, disposal).\<close>

locale latching_machine = state_machine +
  fixes latch :: "'s \<Rightarrow> bool"
  assumes latch_step: "inv s \<Longrightarrow> latch s \<Longrightarrow> latch (step s e)"
begin

lemma run_latch: "inv s \<Longrightarrow> latch s \<Longrightarrow> latch (run_steps step s es)"
  by (induction es arbitrary: s) (simp_all add: step_inv latch_step)

end

end
