(* ===== verification/JsString.thy ===== *)
theory JsString imports Prelude begin

text \<open>
  JavaScript strings: sequences of 16-bit code units, with the operations of \<open>String.prototype\<close>
  the sources use (\<open>trim\<close>, \<open>indexOf\<close>, \<open>split\<close>, \<open>slice\<close>, decimal printing) and the character
  classes of their regular expressions.  A literal of the source is written \<open>js ''...''\<close>.
\<close>

type_synonym code_unit = "16 word"
type_synonym jstr = "code_unit list"

definition cu :: "char \<Rightarrow> code_unit" where
  "cu c = of_nat (of_char c)"

definition js :: "string \<Rightarrow> jstr" where
  "js s = map cu s"

lemma unat_cu [simp]: "unat (cu c) = of_char c"
proof -
  have "(of_char c :: nat) < 256" by simp
  hence "(of_char c :: nat) < 65536" by linarith
  thus ?thesis unfolding cu_def by (simp add: unat_of_nat)
qed

lemma cu_eq_iff [simp]: "cu c = cu d \<longleftrightarrow> c = d"
  by (metis of_char_eq_iff unat_cu)

lemma inj_cu: "inj cu"
  by (simp add: inj_def)

lemma js_eq_iff [simp]: "js s = js t \<longleftrightarrow> s = t"
  by (simp add: js_def inj_map_eq_map inj_cu)

lemma js_Nil [simp]: "js [] = []"
  by (simp add: js_def)

lemma js_eq_Nil_iff [simp]: "js s = [] \<longleftrightarrow> s = []" "[] = js s \<longleftrightarrow> s = []"
  by (auto simp: js_def)

lemma length_js [simp]: "length (js s) = length s"
  by (simp add: js_def)

lemma js_Cons: "js (c # s) = cu c # js s"
  by (simp add: js_def)

lemma js_append: "js (s @ t) = js s @ js t"
  by (simp add: js_def)

subsection \<open>White space and trim\<close>

definition is_ws :: "code_unit \<Rightarrow> bool" where
  "is_ws u \<longleftrightarrow> (let n = unat u in
     (9 \<le> n \<and> n \<le> 13) \<or> n = 32 \<or> n = 160 \<or> n = 5760 \<or> (8192 \<le> n \<and> n \<le> 8202)
     \<or> n = 8232 \<or> n = 8233 \<or> n = 8239 \<or> n = 8287 \<or> n = 12288 \<or> n = 65279)"

definition trim :: "jstr \<Rightarrow> jstr" where
  "trim s = rev (dropWhile is_ws (rev (dropWhile is_ws s)))"

definition trimmed :: "jstr \<Rightarrow> bool" where
  "trimmed s \<longleftrightarrow> trim s = s"

lemma trimmed_iff: "trimmed s \<longleftrightarrow> s = [] \<or> (\<not> is_ws (hd s) \<and> \<not> is_ws (last s))"
proof (cases "s = []")
  case True
  thus ?thesis by (simp add: trimmed_def trim_def)
next
  case False
  show ?thesis
  proof
    assume "trimmed s"
    hence eq: "rev (dropWhile is_ws (rev (dropWhile is_ws s))) = s"
      by (simp add: trimmed_def trim_def)
    have "length (dropWhile is_ws (rev (dropWhile is_ws s))) \<le> length (dropWhile is_ws s)"
      using length_dropWhile_le [of is_ws "rev (dropWhile is_ws s)"] by simp
    moreover have "length (dropWhile is_ws (rev (dropWhile is_ws s))) = length s"
      using arg_cong [OF eq, of length] by simp
    moreover have "length (dropWhile is_ws s) \<le> length s" by (rule length_dropWhile_le)
    ultimately have "length (dropWhile is_ws s) = length s" by simp
    hence dw: "dropWhile is_ws s = s"
      by (metis append_eq_append_conv self_append_conv2 takeWhile_dropWhile_id)
    have h: "\<not> is_ws (hd s)" using False dw by (metis hd_dropWhile)
    from eq dw have "dropWhile is_ws (rev s) = rev s" by (metis rev_rev_ident)
    hence "\<not> is_ws (hd (rev s))" using False by (metis hd_dropWhile rev_is_Nil_conv)
    with h show "s = [] \<or> (\<not> is_ws (hd s) \<and> \<not> is_ws (last s))"
      by (simp add: hd_rev)
  next
    assume "s = [] \<or> (\<not> is_ws (hd s) \<and> \<not> is_ws (last s))"
    with False have h: "\<not> is_ws (hd s)" and l: "\<not> is_ws (hd (rev s))"
      by (simp_all add: hd_rev)
    from h False have "dropWhile is_ws s = s" by (cases s) simp_all
    moreover from l False have "dropWhile is_ws (rev s) = rev s" by (cases "rev s") simp_all
    ultimately show "trimmed s" by (simp add: trimmed_def trim_def)
  qed
qed

subsection \<open>Code points and control characters\<close>

definition is_high :: "code_unit \<Rightarrow> bool" where
  "is_high u \<longleftrightarrow> 55296 \<le> unat u \<and> unat u \<le> 56319"

definition is_low :: "code_unit \<Rightarrow> bool" where
  "is_low u \<longleftrightarrow> 56320 \<le> unat u \<and> unat u \<le> 57343"

definition pair_point :: "code_unit \<Rightarrow> code_unit \<Rightarrow> nat" where
  "pair_point u v = 65536 + (unat u - 55296) * 1024 + (unat v - 56320)"

text \<open>A string read as code points: surrogate pairs are combined, a lone surrogate stands for itself.\<close>

fun code_points :: "jstr \<Rightarrow> nat list" where
  "code_points [] = []"
| "code_points [u] = [unat u]"
| "code_points (u # v # r) =
     (if is_high u \<and> is_low v then pair_point u v # code_points r
      else unat u # code_points (v # r))"

text \<open>The Unicode general categories \<open>Cc\<close> and \<open>Cf\<close> (the class \<open>[\p{Cc}\p{Cf}]\<close> of the sources).\<close>

definition is_Cc :: "nat \<Rightarrow> bool" where
  "is_Cc n \<longleftrightarrow> n \<le> 31 \<or> (127 \<le> n \<and> n \<le> 159)"

definition Cf_ranges :: "(nat \<times> nat) list" where
  "Cf_ranges = [(0xAD, 0xAD), (0x600, 0x605), (0x61C, 0x61C), (0x6DD, 0x6DD), (0x70F, 0x70F),
     (0x890, 0x891), (0x8E2, 0x8E2), (0x180E, 0x180E), (0x200B, 0x200F), (0x202A, 0x202E),
     (0x2060, 0x2064), (0x2066, 0x206F), (0xFEFF, 0xFEFF), (0xFFF9, 0xFFFB), (0x110BD, 0x110BD),
     (0x110CD, 0x110CD), (0x13430, 0x1343F), (0x1BCA0, 0x1BCA3), (0x1D173, 0x1D17A),
     (0xE0001, 0xE0001), (0xE0020, 0xE007F)]"

definition is_Cf :: "nat \<Rightarrow> bool" where
  "is_Cf n \<longleftrightarrow> list_ex (\<lambda>(lo, hi). lo \<le> n \<and> n \<le> hi) Cf_ranges"

definition has_control :: "jstr \<Rightarrow> bool" where
  "has_control s \<longleftrightarrow> list_ex (\<lambda>p. is_Cc p \<or> is_Cf p) (code_points s)"

lemma code_points_bound: "p \<in> set (code_points s) \<Longrightarrow> p < 1114112"
proof (induction s rule: code_points.induct)
  case (2 u)
  have "unat u < 2 ^ 16" using unsigned_less [of u] by simp
  with "2" show ?case by simp
next
  case (3 u v r)
  have "unat u < 2 ^ 16" using unsigned_less [of u] by simp
  moreover have "is_high u \<Longrightarrow> is_low v \<Longrightarrow> pair_point u v < 1114112"
    unfolding is_high_def is_low_def pair_point_def by arith
  ultimately show ?case using "3" by (auto split: if_splits)
qed simp

text \<open>A string of code units outside the surrogate range is its own sequence of code points.\<close>

lemma code_points_plain: "\<forall>u \<in> set s. \<not> is_high u \<Longrightarrow> code_points s = map unat s"
  by (induction s rule: code_points.induct) auto

lemma code_points_js [simp]: "code_points (js s) = map of_char s"
proof -
  have "\<not> is_high (cu c)" for c
  proof -
    have "(of_char c :: nat) < 256" by simp
    hence "\<not> 55296 \<le> (of_char c :: nat)" by linarith
    thus ?thesis by (simp add: is_high_def)
  qed
  hence "code_points (js s) = map unat (js s)"
    by (intro code_points_plain) (auto simp: js_def)
  thus ?thesis by (simp add: js_def)
qed

subsection \<open>Searching and slicing\<close>

fun index_of :: "code_unit \<Rightarrow> jstr \<Rightarrow> nat option" where
  "index_of c [] = None"
| "index_of c (u # r) = (if u = c then Some 0 else map_option Suc (index_of c r))"

lemma index_of_None_iff: "index_of c s = None \<longleftrightarrow> c \<notin> set s"
  by (induction s) auto

lemma index_of_Some: "index_of c s = Some i \<Longrightarrow> i < length s \<and> s ! i = c \<and> c \<notin> set (take i s)"
  by (induction s arbitrary: i) (auto split: if_splits)

text \<open>\<open>split\<close> on one character.\<close>

fun split_on :: "code_unit \<Rightarrow> jstr \<Rightarrow> jstr list" where
  "split_on c [] = [[]]"
| "split_on c (u # r) =
     (if u = c then [] # split_on c r
      else (case split_on c r of [] \<Rightarrow> [[u]] | p # ps \<Rightarrow> (u # p) # ps))"

lemma split_on_nonempty: "split_on c s \<noteq> []"
  by (induction s) (auto split: list.splits)

lemma split_on_no_sep: "p \<in> set (split_on c s) \<Longrightarrow> c \<notin> set p"
  by (induction s arbitrary: p) (auto split: list.splits if_splits)

definition starts_with :: "jstr \<Rightarrow> jstr \<Rightarrow> bool" where
  "starts_with p s \<longleftrightarrow> take (length p) s = p"

fun has_substring :: "jstr \<Rightarrow> jstr \<Rightarrow> bool" where
  "has_substring p [] = (p = [])"
| "has_substring p (u # r) = (starts_with p (u # r) \<or> has_substring p r)"

subsection \<open>Character classes of the sources' patterns\<close>

definition is_digit :: "code_unit \<Rightarrow> bool" where
  "is_digit u \<longleftrightarrow> 48 \<le> unat u \<and> unat u \<le> 57"

definition is_lower :: "code_unit \<Rightarrow> bool" where
  "is_lower u \<longleftrightarrow> 97 \<le> unat u \<and> unat u \<le> 122"

definition is_upper :: "code_unit \<Rightarrow> bool" where
  "is_upper u \<longleftrightarrow> 65 \<le> unat u \<and> unat u \<le> 90"

definition is_hex :: "code_unit \<Rightarrow> bool" where
  "is_hex u \<longleftrightarrow> is_digit u \<or> (97 \<le> unat u \<and> unat u \<le> 102)"

text \<open>\<open>/^[0-9a-f]{n}$/\<close>\<close>

definition hex_exact :: "nat \<Rightarrow> jstr \<Rightarrow> bool" where
  "hex_exact n s \<longleftrightarrow> length s = n \<and> list_all is_hex s"

text \<open>\<open>/^<prefix>[0-9a-f]{n}$/\<close>\<close>

definition prefixed_hex :: "string \<Rightarrow> nat \<Rightarrow> jstr \<Rightarrow> bool" where
  "prefixed_hex p n s \<longleftrightarrow> starts_with (js p) s \<and> hex_exact n (drop (length p) s)"

subsection \<open>Decimal printing of integers\<close>

fun nat_digits :: "nat \<Rightarrow> jstr" where
  "nat_digits n = (if n < 10 then [of_nat (48 + n)] else nat_digits (n div 10) @ [of_nat (48 + n mod 10)])"

declare nat_digits.simps [simp del]

definition int_text :: "int \<Rightarrow> jstr" where
  "int_text i = (if i < 0 then 45 # nat_digits (nat (- i)) else nat_digits (nat i))"

end
