(* ===== verification/Utf8.thy ===== *)
theory Utf8 imports JsString begin

text \<open>
  UTF-8 as the sources use it: \<open>Buffer.from(s, 'utf8')\<close>, \<open>Buffer.byteLength(s, 'utf8')\<close>,
  \<open>buffer.toString('utf8')\<close> (malformed sequences become U+FFFD) and the fatal \<open>TextDecoder\<close>.
  The main fact is that encoding and decoding a string gives it back exactly when the string has
  no lone surrogate, which is what the sources' \<open>validUtf8\<close> tests.
\<close>

type_synonym byte = "8 word"
type_synonym bytes = "byte list"

subsection \<open>Encoding\<close>

definition is_surrogate :: "nat \<Rightarrow> bool" where
  "is_surrogate p \<longleftrightarrow> 55296 \<le> p \<and> p \<le> 57343"

definition encode_point :: "nat \<Rightarrow> bytes" where
  "encode_point p =
     (if p < 128 then [of_nat p]
      else if p < 2048 then [of_nat (192 + p div 64), of_nat (128 + p mod 64)]
      else if is_surrogate p then [239, 191, 189]
      else if p < 65536 then
        [of_nat (224 + p div 4096), of_nat (128 + p div 64 mod 64), of_nat (128 + p mod 64)]
      else [of_nat (240 + p div 262144), of_nat (128 + p div 4096 mod 64),
            of_nat (128 + p div 64 mod 64), of_nat (128 + p mod 64)])"

definition utf8_encode :: "jstr \<Rightarrow> bytes" where
  "utf8_encode s = concat (map encode_point (code_points s))"

definition byte_length :: "jstr \<Rightarrow> nat" where
  "byte_length s = length (utf8_encode s)"

subsection \<open>Decoding\<close>

text \<open>
  The decoder of the Encoding Standard: a malformed sequence yields one error (here \<open>None\<close>) for its
  maximal prefix, and the byte that broke it is read again.
\<close>

definition is_cont :: "byte \<Rightarrow> bool" where
  "is_cont b \<longleftrightarrow> 128 \<le> unat b \<and> unat b \<le> 191"

text \<open>The bounds of the second byte, which exclude overlong forms, surrogates and values past 10FFFF.\<close>

definition second_ok :: "byte \<Rightarrow> byte \<Rightarrow> bool" where
  "second_ok b c \<longleftrightarrow>
     (if unat b = 224 then 160 else if unat b = 240 then 144 else 128) \<le> unat c \<and>
     unat c \<le> (if unat b = 237 then 159 else if unat b = 244 then 143 else 191)"

fun decode_points :: "bytes \<Rightarrow> nat option list" where
  "decode_points [] = []"
| "decode_points (b # r) =
     (if unat b < 128 then Some (unat b) # decode_points r
      else if 194 \<le> unat b \<and> unat b \<le> 223 then
        (case r of
           [] \<Rightarrow> [None]
         | c # r1 \<Rightarrow>
             if is_cont c then Some ((unat b - 192) * 64 + (unat c - 128)) # decode_points r1
             else None # decode_points r)
      else if 224 \<le> unat b \<and> unat b \<le> 239 then
        (case r of
           [] \<Rightarrow> [None]
         | c # r1 \<Rightarrow>
             if \<not> second_ok b c then None # decode_points r
             else (case r1 of
                [] \<Rightarrow> [None]
              | d # r2 \<Rightarrow>
                  if is_cont d
                  then Some ((unat b - 224) * 4096 + (unat c - 128) * 64 + (unat d - 128)) # decode_points r2
                  else None # decode_points r1))
      else if 240 \<le> unat b \<and> unat b \<le> 244 then
        (case r of
           [] \<Rightarrow> [None]
         | c # r1 \<Rightarrow>
             if \<not> second_ok b c then None # decode_points r
             else (case r1 of
                [] \<Rightarrow> [None]
              | d # r2 \<Rightarrow>
                  if \<not> is_cont d then None # decode_points r1
                  else (case r2 of
                     [] \<Rightarrow> [None]
                   | e # r3 \<Rightarrow>
                       if is_cont e
                       then Some ((unat b - 240) * 262144 + (unat c - 128) * 4096
                                  + (unat d - 128) * 64 + (unat e - 128)) # decode_points r3
                       else None # decode_points r2)))
      else None # decode_points r)"

definition point_units :: "nat \<Rightarrow> jstr" where
  "point_units p =
     (if p < 65536 then [of_nat p]
      else [of_nat (55296 + (p - 65536) div 1024), of_nat (56320 + (p - 65536) mod 1024)])"

definition utf8_decode :: "bytes \<Rightarrow> jstr" where
  "utf8_decode b = concat (map (\<lambda>p. point_units (case p of None \<Rightarrow> 65533 | Some n \<Rightarrow> n)) (decode_points b))"

text \<open>A fatal decoder drops a leading byte order mark and fails on any malformed sequence.\<close>

definition utf8_decode_fatal :: "bytes \<Rightarrow> jstr option" where
  "utf8_decode_fatal b =
     (let ps = decode_points b in
      if None \<in> set ps then None
      else Some (let s = utf8_decode b in
                 (case s of [] \<Rightarrow> [] | u # r \<Rightarrow> if unat u = 65279 then r else s)))"

definition validUtf8 :: "jstr \<Rightarrow> bool" where
  "validUtf8 s \<longleftrightarrow> utf8_decode (utf8_encode s) = s"

subsection \<open>Round trip\<close>

definition well_formed :: "jstr \<Rightarrow> bool" where
  "well_formed s \<longleftrightarrow> (\<forall>p \<in> set (code_points s). \<not> is_surrogate p)"

lemma unat_byte [simp]: "n < 256 \<Longrightarrow> unat (of_nat n :: byte) = n"
  by (simp add: unat_of_nat)

lemma decode_ascii: "p < 128 \<Longrightarrow> decode_points (encode_point p @ r) = Some p # decode_points r"
  by (simp add: encode_point_def)

text \<open>A code point as digits to the base 64.\<close>

lemma base64_digits2: "p div 64 * 64 + p mod 64 = (p::nat)"
  by (rule div_mult_mod_eq)

lemma base64_digits3: "p div 4096 * 4096 + p div 64 mod 64 * 64 + p mod 64 = (p::nat)"
proof -
  have "p div 64 = p div 64 div 64 * 64 + p div 64 mod 64" by (rule div_mult_mod_eq [symmetric])
  moreover have "p div 64 div 64 = p div 4096" by (simp flip: div_mult2_eq)
  ultimately show ?thesis using base64_digits2 [of p] by linarith
qed

lemma base64_digits4:
  "p div 262144 * 262144 + p div 4096 mod 64 * 4096 + p div 64 mod 64 * 64 + p mod 64 = (p::nat)"
proof -
  have "p div 4096 = p div 4096 div 64 * 64 + p div 4096 mod 64" by (rule div_mult_mod_eq [symmetric])
  moreover have "p div 4096 div 64 = p div 262144" by (simp flip: div_mult2_eq)
  ultimately show ?thesis using base64_digits3 [of p] by linarith
qed

lemma mod64_less: "(n::nat) mod 64 < 64"
  by simp

lemma decode_two:
  assumes "128 \<le> p" "p < 2048"
  shows "decode_points (encode_point p @ r) = Some p # decode_points r"
proof -
  note dg = base64_digits2 [of p] mod64_less [of p]
  have lo: "2 \<le> p div 64" and hi: "p div 64 \<le> 31" using assms dg by linarith+
  have b: "unat (of_nat (192 + p div 64) :: byte) = 192 + p div 64"
    using hi by (intro unat_byte) linarith
  have c: "unat (of_nat (128 + p mod 64) :: byte) = 128 + p mod 64"
    using dg by (intro unat_byte) linarith
  have cont: "is_cont (of_nat (128 + p mod 64))"
    unfolding is_cont_def c using dg by linarith
  have enc: "encode_point p = [of_nat (192 + p div 64), of_nat (128 + p mod 64)]"
    using assms by (simp add: encode_point_def)
  have "\<not> 192 + p div 64 < 128" "194 \<le> 192 + p div 64 \<and> 192 + p div 64 \<le> 223"
    using lo hi by linarith+
  thus ?thesis
    unfolding enc using cont dg(1)
    by (simp only: append_Cons append_Nil decode_points.simps b c list.case if_False if_True
        add_diff_cancel_left' simp_thms)
qed

lemma decode_three:
  assumes "2048 \<le> p" "p < 65536" "\<not> is_surrogate p"
  shows "decode_points (encode_point p @ r) = Some p # decode_points r"
proof -
  note dg = base64_digits3 [of p] mod64_less [of p] mod64_less [of "p div 64"]
  have hi: "p div 4096 \<le> 15" using assms dg by linarith
  have b: "unat (of_nat (224 + p div 4096) :: byte) = 224 + p div 4096"
    using hi by (intro unat_byte) linarith
  have c: "unat (of_nat (128 + p div 64 mod 64) :: byte) = 128 + p div 64 mod 64"
    using dg by (intro unat_byte) linarith
  have d: "unat (of_nat (128 + p mod 64) :: byte) = 128 + p mod 64"
    using dg by (intro unat_byte) linarith
  have cont: "is_cont (of_nat (128 + p mod 64))"
    unfolding is_cont_def d using dg by linarith
  have low: "p div 4096 = 0 \<Longrightarrow> 32 \<le> p div 64 mod 64" using assms(1) dg by linarith
  have high: "p div 4096 = 13 \<Longrightarrow> p div 64 mod 64 \<le> 31"
    using assms(3) dg unfolding is_surrogate_def by linarith
  have ok: "second_ok (of_nat (224 + p div 4096)) (of_nat (128 + p div 64 mod 64))"
    unfolding second_ok_def b c using low high hi dg by (auto simp: not_le)
  have enc: "encode_point p =
      [of_nat (224 + p div 4096), of_nat (128 + p div 64 mod 64), of_nat (128 + p mod 64)]"
    using assms by (simp add: encode_point_def)
  have "\<not> 224 + p div 4096 < 128" "\<not> (194 \<le> 224 + p div 4096 \<and> 224 + p div 4096 \<le> 223)"
    "224 \<le> 224 + p div 4096 \<and> 224 + p div 4096 \<le> 239"
    using hi by linarith+
  thus ?thesis
    unfolding enc using cont ok dg(1)
    by (simp only: append_Cons append_Nil decode_points.simps b c d list.case if_False if_True
        add_diff_cancel_left' simp_thms)
qed

lemma decode_four:
  assumes "65536 \<le> p" "p < 1114112"
  shows "decode_points (encode_point p @ r) = Some p # decode_points r"
proof -
  note dg = base64_digits4 [of p] mod64_less [of p] mod64_less [of "p div 64"]
    mod64_less [of "p div 4096"]
  have hi: "p div 262144 \<le> 4" using assms dg by linarith
  have b: "unat (of_nat (240 + p div 262144) :: byte) = 240 + p div 262144"
    using hi by (intro unat_byte) linarith
  have c: "unat (of_nat (128 + p div 4096 mod 64) :: byte) = 128 + p div 4096 mod 64"
    using dg by (intro unat_byte) linarith
  have d: "unat (of_nat (128 + p div 64 mod 64) :: byte) = 128 + p div 64 mod 64"
    using dg by (intro unat_byte) linarith
  have e: "unat (of_nat (128 + p mod 64) :: byte) = 128 + p mod 64"
    using dg by (intro unat_byte) linarith
  have cont: "is_cont (of_nat (128 + p div 64 mod 64))" "is_cont (of_nat (128 + p mod 64))"
    unfolding is_cont_def d e using dg by linarith+
  have le: "p div 4096 mod 64 \<le> 63" using dg by linarith
  have low: "p div 262144 = 0 \<Longrightarrow> 16 \<le> p div 4096 mod 64" using assms(1) dg by linarith
  have high: "p div 262144 = 4 \<Longrightarrow> p div 4096 mod 64 \<le> 15" using assms(2) dg by linarith
  have ok: "second_ok (of_nat (240 + p div 262144)) (of_nat (128 + p div 4096 mod 64))"
    unfolding second_ok_def b c using low high hi le by auto
  have enc: "encode_point p =
      [of_nat (240 + p div 262144), of_nat (128 + p div 4096 mod 64),
       of_nat (128 + p div 64 mod 64), of_nat (128 + p mod 64)]"
    using assms by (simp add: encode_point_def is_surrogate_def)
  have "\<not> 240 + p div 262144 < 128" "\<not> (194 \<le> 240 + p div 262144 \<and> 240 + p div 262144 \<le> 223)"
    "\<not> (224 \<le> 240 + p div 262144 \<and> 240 + p div 262144 \<le> 239)"
    "240 \<le> 240 + p div 262144 \<and> 240 + p div 262144 \<le> 244"
    using hi by linarith+
  thus ?thesis
    unfolding enc using cont ok dg(1)
    by (simp only: append_Cons append_Nil decode_points.simps b c d e list.case if_False if_True
        add_diff_cancel_left' simp_thms)
qed

lemma decode_surrogate:
  assumes "is_surrogate p"
  shows "decode_points (encode_point p @ r) = Some 65533 # decode_points r"
  using assms by (simp add: encode_point_def is_surrogate_def second_ok_def is_cont_def)

text \<open>What a code point becomes after encoding and decoding.\<close>

definition replaced :: "nat \<Rightarrow> nat" where
  "replaced p = (if is_surrogate p then 65533 else p)"

lemma decode_encode_point:
  "p < 1114112 \<Longrightarrow> decode_points (encode_point p @ r) = Some (replaced p) # decode_points r"
proof -
  assume p: "p < 1114112"
  consider "p < 128" | "128 \<le> p" "p < 2048" | "is_surrogate p" | "2048 \<le> p" "p < 65536" "\<not> is_surrogate p"
    | "65536 \<le> p" by linarith
  thus ?thesis
  proof cases
    case 1
    thus ?thesis using decode_ascii [of p r] by (simp add: replaced_def is_surrogate_def)
  next
    case 2
    thus ?thesis using decode_two [of p r] by (simp add: replaced_def is_surrogate_def)
  next
    case 3
    thus ?thesis using decode_surrogate [of p r] by (simp add: replaced_def)
  next
    case 4
    thus ?thesis using decode_three [of p r] by (simp add: replaced_def)
  next
    case 5
    thus ?thesis using decode_four [of p r] p by (simp add: replaced_def is_surrogate_def)
  qed
qed

lemma decode_encode_points:
  assumes "\<forall>p \<in> set ps. p < 1114112"
  shows "decode_points (concat (map encode_point ps)) = map (Some \<circ> replaced) ps"
  using assms by (induction ps) (simp_all add: decode_encode_point)

lemma decode_utf8_encode: "decode_points (utf8_encode s) = map (Some \<circ> replaced) (code_points s)"
  unfolding utf8_encode_def by (rule decode_encode_points) (blast intro: code_points_bound)

lemma of_nat_unat_unit [simp]: "of_nat (unat u) = (u :: code_unit)"
  by simp

lemma add_mult_div: "(m::nat) < 1024 \<Longrightarrow> (m + 1024 * k) div 1024 = k"
  by simp

lemma add_mult_mod: "(m::nat) < 1024 \<Longrightarrow> (m + 1024 * k) mod 1024 = m"
  by simp

lemma point_units_pair:
  assumes "is_high u" "is_low v"
  shows "point_units (pair_point u v) = [u, v]"
proof -
  have h: "55296 \<le> unat u" and l: "56320 \<le> unat v" "unat v - 56320 < 1024"
    using assms unfolding is_high_def is_low_def by linarith+
  have e: "pair_point u v - 65536 = (unat v - 56320) + 1024 * (unat u - 55296)"
    unfolding pair_point_def by simp
  have d: "(pair_point u v - 65536) div 1024 = unat u - 55296"
    unfolding e using add_mult_div [OF l(2)] .
  have m: "(pair_point u v - 65536) mod 1024 = unat v - 56320"
    unfolding e using add_mult_mod [OF l(2)] .
  show ?thesis
    unfolding point_units_def d m using h l by (simp add: pair_point_def)
qed

lemma point_units_unat [simp]: "point_units (unat (u :: code_unit)) = [u]"
  using unsigned_less [of u] by (simp add: point_units_def)

lemma concat_point_units [simp]: "concat (map point_units (code_points s)) = s"
  by (induction s rule: code_points.induct) (simp_all add: point_units_pair)

lemma length_point_units_replaced: "length (point_units (replaced p)) = length (point_units p)"
  by (simp add: replaced_def is_surrogate_def point_units_def)

lemma point_units_replaced_neq: "is_surrogate p \<Longrightarrow> point_units (replaced p) \<noteq> point_units p"
proof
  assume s: "is_surrogate p" and e: "point_units (replaced p) = point_units p"
  hence "(of_nat p :: code_unit) = 65533"
    by (simp add: replaced_def is_surrogate_def point_units_def)
  hence "unat (of_nat p :: code_unit) = unat (65533 :: code_unit)" by simp
  moreover have "unat (of_nat p :: code_unit) = p"
    using s by (simp add: is_surrogate_def unat_of_nat)
  ultimately show False using s by (simp add: is_surrogate_def)
qed

lemma concat_replaced_iff:
  "concat (map (point_units \<circ> replaced) ps) = concat (map point_units ps)
     \<longleftrightarrow> (\<forall>p \<in> set ps. \<not> is_surrogate p)"
proof (induction ps)
  case (Cons p ps)
  have "point_units (replaced p) = point_units p \<longleftrightarrow> \<not> is_surrogate p"
    using point_units_replaced_neq by (auto simp: replaced_def)
  with Cons show ?case by (simp add: append_eq_append_conv length_point_units_replaced)
qed simp

lemma utf8_decode_encode: "utf8_decode (utf8_encode s) = concat (map (point_units \<circ> replaced) (code_points s))"
  by (simp add: utf8_decode_def decode_utf8_encode comp_def)

lemma utf8_roundtrip: "well_formed s \<Longrightarrow> utf8_decode (utf8_encode s) = s"
  unfolding utf8_decode_encode well_formed_def
  using concat_replaced_iff [of "code_points s"] by simp

lemma validUtf8_iff: "validUtf8 s \<longleftrightarrow> well_formed s"
  unfolding validUtf8_def well_formed_def utf8_decode_encode
  using concat_replaced_iff [of "code_points s"] by simp

lemma well_formed_js [simp]: "well_formed (js s)"
proof -
  have "(of_char c :: nat) < 55296" for c
    using nat_of_char_less_256 [of c] by linarith
  thus ?thesis unfolding well_formed_def is_surrogate_def by (auto simp: not_le)
qed

end
