(* ===== verification/Json.thy ===== *)
theory Json imports Utf8 begin

text \<open>
  JSON values as JavaScript has them, \<open>JSON.stringify\<close> and \<open>JSON.parse\<close>.  A property list is kept
  in property order; a number is either an integer or a double that is no safe integer, given by
  the text \<open>String(n)\<close> prints for it.  The reading of such a text is a parameter (\<open>cv\<close>) of the
  parser; nothing else of the grammar is left open.
\<close>

datatype jnum = NInt int | NDbl jstr

datatype json =
    JNull
  | JBool bool
  | JNum jnum
  | JStr jstr
  | JArr "json list"
  | JObj "(jstr \<times> json) list"

type_synonym jobj = "(jstr \<times> json) list"

abbreviation JLit :: "string \<Rightarrow> json" where
  "JLit s \<equiv> JStr (js s)"

abbreviation JInt :: "int \<Rightarrow> json" where
  "JInt i \<equiv> JNum (NInt i)"

text \<open>\<open>undefined\<close> is \<open>None\<close>: reading an absent property.\<close>

definition field :: "jobj \<Rightarrow> string \<Rightarrow> json option" where
  "field ob k = map_of ob (js k)"

definition own_key :: "jobj \<Rightarrow> string \<Rightarrow> bool" where
  "own_key ob k \<longleftrightarrow> map_of ob (js k) \<noteq> None"

lemma own_key_field: "own_key ob k \<longleftrightarrow> field ob k \<noteq> None"
  by (simp add: own_key_def field_def)

lemma field_Nil [simp]: "field [] k = None"
  by (simp add: field_def)

lemma field_Cons_js [simp]: "field ((js k', v) # ob) k = (if k = k' then Some v else field ob k)"
  by (simp add: field_def)

definition max_safe :: int where
  "max_safe = 9007199254740991"

text \<open>\<open>Number.isSafeInteger\<close>\<close>

fun is_safe_integer :: "jnum \<Rightarrow> bool" where
  "is_safe_integer (NInt i) = (\<bar>i\<bar> \<le> max_safe)"
| "is_safe_integer (NDbl t) = False"

subsection \<open>JSON.stringify\<close>

definition hex_digit :: "nat \<Rightarrow> code_unit" where
  "hex_digit n = of_nat (if n < 10 then 48 + n else 87 + n)"

definition escape_u :: "code_unit \<Rightarrow> jstr" where
  "escape_u u = (let n = unat u in
     [92, 117, hex_digit (n div 4096), hex_digit (n div 256 mod 16),
      hex_digit (n div 16 mod 16), hex_digit (n mod 16)])"

definition quote_unit :: "code_unit \<Rightarrow> jstr" where
  "quote_unit u =
     (if u = 34 then [92, 34] else if u = 92 then [92, 92]
      else if u = 8 then [92, 98] else if u = 12 then [92, 102]
      else if u = 10 then [92, 110] else if u = 13 then [92, 114] else if u = 9 then [92, 116]
      else if unat u < 32 then escape_u u
      else if is_high u \<or> is_low u then escape_u u
      else [u])"

text \<open>Surrogate pairs are copied, lone surrogates are escaped.\<close>

fun quote_units :: "jstr \<Rightarrow> jstr" where
  "quote_units [] = []"
| "quote_units [u] = quote_unit u"
| "quote_units (u # v # r) =
     (if is_high u \<and> is_low v then u # v # quote_units r else quote_unit u @ quote_units (v # r))"

definition quote :: "jstr \<Rightarrow> jstr" where
  "quote s = 34 # quote_units s @ [34]"

fun join_comma :: "jstr list \<Rightarrow> jstr" where
  "join_comma [] = []"
| "join_comma [x] = x"
| "join_comma (x # y # r) = x @ 44 # join_comma (y # r)"

fun num_text :: "jnum \<Rightarrow> jstr" where
  "num_text (NInt i) = int_text i"
| "num_text (NDbl t) = (if t \<in> {js ''NaN'', js ''Infinity'', js ''-Infinity''} then js ''null'' else t)"

primrec stringify :: "json \<Rightarrow> jstr"
  and stringify_all :: "json list \<Rightarrow> jstr list"
  and stringify_props :: "(jstr \<times> json) list \<Rightarrow> jstr list"
  and stringify_prop :: "jstr \<times> json \<Rightarrow> jstr" where
  "stringify JNull = js ''null''"
| "stringify (JBool b) = (if b then js ''true'' else js ''false'')"
| "stringify (JNum n) = num_text n"
| "stringify (JStr s) = quote s"
| "stringify (JArr xs) = 91 # join_comma (stringify_all xs) @ [93]"
| "stringify (JObj kvs) = 123 # join_comma (stringify_props kvs) @ [125]"
| "stringify_all [] = []"
| "stringify_all (x # xs) = stringify x # stringify_all xs"
| "stringify_props [] = []"
| "stringify_props (p # ps) = stringify_prop p # stringify_props ps"
| "stringify_prop (k, v) = quote k @ 58 # stringify v"

lemma stringify_all_map [simp]: "stringify_all xs = map stringify xs"
  by (induction xs) simp_all

lemma stringify_props_map [simp]:
  "stringify_props kvs = map (\<lambda>(k, v). quote k @ 58 # stringify v) kvs"
  by (induction kvs) auto

subsection \<open>Property order of objects\<close>

text \<open>Array indices come first, in ascending order; the other keys in order of creation.\<close>

fun digits_value :: "jstr \<Rightarrow> nat \<Rightarrow> nat" where
  "digits_value [] acc = acc"
| "digits_value (u # r) acc = digits_value r (acc * 10 + (unat u - 48))"

definition is_index :: "jstr \<Rightarrow> bool" where
  "is_index k \<longleftrightarrow> k \<noteq> [] \<and> list_all is_digit k \<and> (length k = 1 \<or> hd k \<noteq> 48)
     \<and> digits_value k 0 < 4294967295"

fun insert_index :: "jstr \<Rightarrow> json \<Rightarrow> jobj \<Rightarrow> jobj" where
  "insert_index k v [] = [(k, v)]"
| "insert_index k v ((k', v') # r) =
     (if is_index k' \<and> digits_value k' 0 < digits_value k 0 then (k', v') # insert_index k v r
      else (k, v) # (k', v') # r)"

definition obj_set :: "jobj \<Rightarrow> jstr \<Rightarrow> json \<Rightarrow> jobj" where
  "obj_set ob k v =
     (if map_of ob k \<noteq> None then map (\<lambda>(k', v'). if k' = k then (k', v) else (k', v')) ob
      else if is_index k then insert_index k v ob else ob @ [(k, v)])"

definition build_obj :: "(jstr \<times> json) list \<Rightarrow> jobj" where
  "build_obj kvs = fold (\<lambda>(k, v) ob. obj_set ob k v) kvs []"

lemma fold_obj_set_append:
  assumes "distinct (map fst (ob @ kvs))" "\<forall>k \<in> fst ` set kvs. \<not> is_index k"
  shows "fold (\<lambda>(k, v) ob. obj_set ob k v) kvs ob = ob @ kvs"
  using assms
proof (induction kvs arbitrary: ob)
  case (Cons p kvs)
  obtain k v where p: "p = (k, v)" by force
  have "map_of ob k = None" using Cons.prems(1) p by (auto simp: map_of_eq_None_iff)
  hence "obj_set ob k v = ob @ [(k, v)]" using Cons.prems(2) p by (simp add: obj_set_def)
  with Cons.IH [of "ob @ [(k, v)]"] Cons.prems p show ?case by simp
qed simp

lemma not_index_js: "s \<noteq> [] \<Longrightarrow> 57 < (of_char (hd s) :: nat) \<Longrightarrow> \<not> is_index (js s)"
  by (cases s) (simp_all add: is_index_def js_Cons is_digit_def)

text \<open>The objects the protocols use have no index keys; then property order is textual order.\<close>

lemma build_obj_plain:
  "distinct (map fst kvs) \<Longrightarrow> \<forall>k \<in> fst ` set kvs. \<not> is_index k \<Longrightarrow> build_obj kvs = kvs"
  unfolding build_obj_def using fold_obj_set_append [of "[]" kvs] by simp

end
