(* ===== verification/JsonParse.thy ===== *)
theory JsonParse imports Json begin

text \<open>
  \<open>JSON.parse\<close>: a recursive descent parser with fuel.  Fuel twice the length of the text always
  suffices, and parsing what \<open>stringify\<close> printed gives the value back.  The locale of the
  pair of functions is the interface the wire format and the routing keys rely on.
\<close>

subsection \<open>Tokens\<close>

definition is_json_ws :: "code_unit \<Rightarrow> bool" where
  "is_json_ws u \<longleftrightarrow> u = 9 \<or> u = 10 \<or> u = 13 \<or> u = 32"

definition skip_ws :: "jstr \<Rightarrow> jstr" where
  "skip_ws s = dropWhile is_json_ws s"

definition hex_value :: "code_unit \<Rightarrow> nat option" where
  "hex_value u =
     (if is_digit u then Some (unat u - 48)
      else if 97 \<le> unat u \<and> unat u \<le> 102 then Some (unat u - 87)
      else if 65 \<le> unat u \<and> unat u \<le> 70 then Some (unat u - 55)
      else None)"

definition hex4 :: "code_unit \<Rightarrow> code_unit \<Rightarrow> code_unit \<Rightarrow> code_unit \<Rightarrow> code_unit option" where
  "hex4 a b c d =
     (case (hex_value a, hex_value b, hex_value c, hex_value d) of
        (Some w, Some x, Some y, Some z) \<Rightarrow> Some (of_nat (w * 4096 + x * 256 + y * 16 + z))
      | _ \<Rightarrow> None)"

definition simple_escape :: "code_unit \<Rightarrow> code_unit option" where
  "simple_escape u =
     (if u = 34 \<or> u = 92 \<or> u = 47 then Some u
      else if u = 98 then Some 8 else if u = 102 then Some 12
      else if u = 110 then Some 10 else if u = 114 then Some 13 else if u = 116 then Some 9
      else None)"

text \<open>The rest of a string literal, after the opening quote.\<close>

fun parse_chars :: "jstr \<Rightarrow> (jstr \<times> jstr) option" where
  "parse_chars [] = None"
| "parse_chars (u # r) =
     (if u = 34 then Some ([], r)
      else if u = 92 then
        (case r of
           [] \<Rightarrow> None
         | e # r1 \<Rightarrow>
             if e = 117 then
               (case r1 of
                  a # b # c # d # r2 \<Rightarrow>
                    (case hex4 a b c d of
                       None \<Rightarrow> None
                     | Some w \<Rightarrow> (case parse_chars r2 of None \<Rightarrow> None | Some (s, t) \<Rightarrow> Some (w # s, t)))
                | _ \<Rightarrow> None)
             else (case simple_escape e of
                None \<Rightarrow> None
              | Some w \<Rightarrow> (case parse_chars r1 of None \<Rightarrow> None | Some (s, t) \<Rightarrow> Some (w # s, t))))
      else if unat u < 32 then None
      else (case parse_chars r of None \<Rightarrow> None | Some (s, t) \<Rightarrow> Some (u # s, t)))"

text \<open>A number: sign, integer part, optional fraction and exponent.\<close>

definition split_digits :: "jstr \<Rightarrow> jstr \<times> jstr" where
  "split_digits s = (takeWhile is_digit s, dropWhile is_digit s)"

definition parse_sign :: "jstr \<Rightarrow> jstr \<times> jstr" where
  "parse_sign s = (case s of u # r \<Rightarrow> (if u = 45 then ([45], r) else ([], s)) | [] \<Rightarrow> ([], s))"

definition parse_frac :: "jstr \<Rightarrow> (jstr \<times> jstr) option" where
  "parse_frac s = (case s of
     u # r \<Rightarrow> (if u = 46 then let (ds, t) = split_digits r in if ds = [] then None else Some (46 # ds, t)
               else Some ([], s))
   | [] \<Rightarrow> Some ([], s))"

definition parse_exp :: "jstr \<Rightarrow> (jstr \<times> jstr) option" where
  "parse_exp s = (case s of
     u # r \<Rightarrow> (if u = 101 \<or> u = 69 then
                let (sg, r1) = (case r of v # r' \<Rightarrow> (if v = 43 \<or> v = 45 then ([v], r') else ([], r)) | [] \<Rightarrow> ([], r));
                    (ds, t) = split_digits r1
                in if ds = [] then None else Some (u # sg @ ds, t)
               else Some ([], s))
   | [] \<Rightarrow> Some ([], s))"

definition make_number :: "(jstr \<Rightarrow> jnum) \<Rightarrow> jstr \<Rightarrow> jstr \<Rightarrow> jstr \<Rightarrow> jnum" where
  "make_number cv sg ds tail =
     (let i = (if sg = [] then int (digits_value ds 0) else - int (digits_value ds 0))
      in if tail = [] \<and> \<bar>i\<bar> \<le> max_safe then NInt i else cv (sg @ ds @ tail))"

definition parse_number :: "(jstr \<Rightarrow> jnum) \<Rightarrow> jstr \<Rightarrow> (jnum \<times> jstr) option" where
  "parse_number cv s =
     (let (sg, s1) = parse_sign s; (ds, s2) = split_digits s1 in
      if ds = [] \<or> (hd ds = 48 \<and> 1 < length ds) then None
      else (case parse_frac s2 of
         None \<Rightarrow> None
       | Some (fr, s3) \<Rightarrow>
           (case parse_exp s3 of
              None \<Rightarrow> None
            | Some (ex, s4) \<Rightarrow> Some (make_number cv sg ds (fr @ ex), s4))))"

definition parse_lit :: "string \<Rightarrow> json \<Rightarrow> jstr \<Rightarrow> (json \<times> jstr) option" where
  "parse_lit w v s = (if starts_with (js w) s then Some (v, drop (length w) s) else None)"

subsection \<open>Values\<close>

fun parse_value :: "(jstr \<Rightarrow> jnum) \<Rightarrow> nat \<Rightarrow> jstr \<Rightarrow> (json \<times> jstr) option"
  and parse_items :: "(jstr \<Rightarrow> jnum) \<Rightarrow> nat \<Rightarrow> jstr \<Rightarrow> (json list \<times> jstr) option"
  and parse_props :: "(jstr \<Rightarrow> jnum) \<Rightarrow> nat \<Rightarrow> jstr \<Rightarrow> ((jstr \<times> json) list \<times> jstr) option" where
  "parse_value cv 0 s = None"
| "parse_value cv (Suc n) s =
     (case skip_ws s of
        [] \<Rightarrow> None
      | u # r \<Rightarrow>
          if u = 34 then map_option (\<lambda>(t, r'). (JStr t, r')) (parse_chars r)
          else if u = 91 then
            (case skip_ws r of
               v # r' \<Rightarrow> if v = 93 then Some (JArr [], r')
                         else map_option (\<lambda>(xs, r''). (JArr xs, r'')) (parse_items cv n r)
             | [] \<Rightarrow> None)
          else if u = 123 then
            (case skip_ws r of
               v # r' \<Rightarrow> if v = 125 then Some (JObj [], r')
                         else map_option (\<lambda>(kvs, r''). (JObj (build_obj kvs), r'')) (parse_props cv n r)
             | [] \<Rightarrow> None)
          else if u = 116 then parse_lit ''true'' (JBool True) (u # r)
          else if u = 102 then parse_lit ''false'' (JBool False) (u # r)
          else if u = 110 then parse_lit ''null'' JNull (u # r)
          else map_option (\<lambda>(x, r'). (JNum x, r')) (parse_number cv (u # r)))"
| "parse_items cv 0 s = None"
| "parse_items cv (Suc n) s =
     (case parse_value cv n s of
        None \<Rightarrow> None
      | Some (v, r) \<Rightarrow>
          (case skip_ws r of
             [] \<Rightarrow> None
           | u # r' \<Rightarrow>
               if u = 44 then map_option (\<lambda>(vs, t). (v # vs, t)) (parse_items cv n r')
               else if u = 93 then Some ([v], r') else None))"
| "parse_props cv 0 s = None"
| "parse_props cv (Suc n) s =
     (case skip_ws s of
        [] \<Rightarrow> None
      | q # r0 \<Rightarrow>
        if q \<noteq> 34 then None
        else (case parse_chars r0 of
           None \<Rightarrow> None
         | Some (k, r1) \<Rightarrow>
             (case skip_ws r1 of
                [] \<Rightarrow> None
              | c # r2 \<Rightarrow>
                if c \<noteq> 58 then None
                else (case parse_value cv n r2 of
                   None \<Rightarrow> None
                 | Some (v, r) \<Rightarrow>
                     (case skip_ws r of
                        [] \<Rightarrow> None
                      | u # r' \<Rightarrow>
                          if u = 44 then map_option (\<lambda>(kvs, t). ((k, v) # kvs, t)) (parse_props cv n r')
                          else if u = 125 then Some ([(k, v)], r') else None)))))"

definition json_parse :: "(jstr \<Rightarrow> jnum) \<Rightarrow> jstr \<Rightarrow> json option" where
  "json_parse cv s =
     (case parse_value cv (2 * length s + 2) s of
        Some (v, r) \<Rightarrow> if skip_ws r = [] then Some v else None
      | None \<Rightarrow> None)"

subsection \<open>Fuel\<close>

lemma skip_ws_le: "length (skip_ws s) \<le> length s"
  by (simp add: skip_ws_def length_dropWhile_le)

lemma skip_ws_less: "skip_ws s = u # r \<Longrightarrow> length r < length s"
  using skip_ws_le [of s] by simp

lemma parse_chars_less: "parse_chars s = Some (t, r) \<Longrightarrow> length r < length s"
  by (induction s arbitrary: t rule: parse_chars.induct)
    (fastforce split: if_splits list.splits option.splits)+

lemma split_digits_le: "split_digits s = (ds, r) \<Longrightarrow> length r + length ds = length s"
  by (auto simp: split_digits_def) (metis add.commute length_append takeWhile_dropWhile_id)

lemma parse_sign_le: "parse_sign s = (sg, r) \<Longrightarrow> length r \<le> length s"
  by (auto simp: parse_sign_def split: list.splits if_splits)

lemma parse_frac_le: "parse_frac s = Some (fr, r) \<Longrightarrow> length r \<le> length s"
  by (auto simp: parse_frac_def split: list.splits if_splits prod.splits dest!: split_digits_le)

lemma parse_exp_le: "parse_exp s = Some (ex, r) \<Longrightarrow> length r \<le> length s"
  by (auto simp: parse_exp_def Let_def split: list.splits if_splits prod.splits dest!: split_digits_le)

lemma parse_number_less:
  assumes "parse_number cv s = Some (x, r)"
  shows "length r < length s"
proof -
  obtain sg s1 ds s2 where 1: "parse_sign s = (sg, s1)" "split_digits s1 = (ds, s2)" by fastforce
  with assms obtain fr s3 ex where 2: "ds \<noteq> []" "parse_frac s2 = Some (fr, s3)" "parse_exp s3 = Some (ex, r)"
    by (auto simp: parse_number_def split: if_splits option.splits)
  show ?thesis
    using parse_sign_le [OF 1(1)] split_digits_le [OF 1(2)] parse_frac_le [OF 2(2)] parse_exp_le [OF 2(3)] 2(1)
    by (cases ds) auto
qed

lemma parse_lit_less: "parse_lit w v s = Some (x, r) \<Longrightarrow> w \<noteq> [] \<Longrightarrow> length r < length s"
  by (auto simp: parse_lit_def starts_with_def split: if_splits)
    (metis diff_less length_greater_0_conv length_js take_eq_Nil2 take_Nil js_eq_Nil_iff(1) list.size(3) length_take)

lemma parse_less:
  "parse_value cv n s = Some (v, r) \<Longrightarrow> length r < length s"
  "parse_items cv n s = Some (vs, r) \<Longrightarrow> length r < length s"
  "parse_props cv n s = Some (kvs, r) \<Longrightarrow> length r < length s"
proof (induction cv n s and cv n s and cv n s arbitrary: v r and vs r and kvs r
    rule: parse_value_parse_items_parse_props.induct)
  case (2 cv n s)
  from "2.prems" obtain u t where s: "skip_ws s = u # t" by (auto split: list.splits)
  have "length r < length (u # t)"
    using "2.prems" "2.IH" s
    by (auto split: if_splits list.splits dest!: parse_chars_less parse_number_less
        dest: parse_lit_less skip_ws_less less_trans intro: less_SucI)
  thus ?case using skip_ws_le [of s] s by simp
next
  case (4 cv n s)
  then show ?case by (fastforce split: option.splits list.splits if_splits dest: skip_ws_less)
next
  case (6 cv n s)
  then show ?case
    by (fastforce split: option.splits list.splits if_splits dest: skip_ws_less parse_chars_less)
qed simp_all

text \<open>Enough fuel: more of it changes nothing.\<close>

lemma parse_fuel:
  "2 * length s + 1 \<le> n \<Longrightarrow> parse_value cv (Suc n) s = parse_value cv n s"
  "2 * length s + 2 \<le> n \<Longrightarrow> parse_items cv (Suc n) s = parse_items cv n s"
  "2 * length s + 2 \<le> n \<Longrightarrow> parse_props cv (Suc n) s = parse_props cv n s"
proof (induction n arbitrary: s)
  case (Suc n)
  {
    case 1
    have i: "skip_ws s = u # r \<Longrightarrow> parse_items cv (Suc n) r = parse_items cv n r" for u r
      using Suc.IH(2) [of r] skip_ws_less [of s u r] 1 by simp
    have p: "skip_ws s = u # r \<Longrightarrow> parse_props cv (Suc n) r = parse_props cv n r" for u r
      using Suc.IH(3) [of r] skip_ws_less [of s u r] 1 by simp
    show ?case
    proof (cases "skip_ws s")
      case (Cons u r)
      show ?thesis
        unfolding parse_value.simps(2) [of cv "Suc n"] parse_value.simps(2) [of cv n] Cons
        using i [OF Cons] p [OF Cons]
        by (simp del: parse_items.simps parse_props.simps split: list.split)
    qed simp
  next
    case 2
    have v: "parse_value cv (Suc n) s = parse_value cv n s" using Suc.IH(1) [of s] 2 by simp
    show ?case
    proof (cases "parse_value cv n s")
      case (Some a)
      obtain w r where a: "a = (w, r)" by force
      have i: "skip_ws r = u # r' \<Longrightarrow> parse_items cv (Suc n) r' = parse_items cv n r'" for u r'
        using Suc.IH(2) [of r'] skip_ws_less [of r u r'] parse_less(1) [of cv n s w r] Some a 2 by simp
      show ?thesis
        unfolding parse_items.simps(2) [of cv "Suc n"] parse_items.simps(2) [of cv n] v Some a
        using i by (simp split: list.split)
    qed (simp only: parse_items.simps v, simp)
  next
    case 3
    show ?case
    proof (cases "skip_ws s")
      case (Cons q r0)
      show ?thesis
      proof (cases "parse_chars r0")
        case pc: (Some a)
        obtain k r1 where a: "a = (k, r1)" by force
        show ?thesis
        proof (cases "skip_ws r1")
          case r2: (Cons c r2)
          have l2: "length r2 + 2 \<le> length s"
            using skip_ws_less [OF Cons] parse_chars_less [OF pc [unfolded a]] skip_ws_less [OF r2] by simp
          have v: "parse_value cv (Suc n) r2 = parse_value cv n r2"
            using Suc.IH(1) [of r2] 3 l2 by simp
          have i: "parse_value cv n r2 = Some (w, r) \<Longrightarrow> skip_ws r = u # r' \<Longrightarrow>
              parse_props cv (Suc n) r' = parse_props cv n r'" for w r u r'
            using Suc.IH(3) [of r'] skip_ws_less [of r u r'] parse_less(1) [of cv n r2 w r] 3 l2 by simp
          show ?thesis
            unfolding parse_props.simps(2) [of cv "Suc n"] parse_props.simps(2) [of cv n]
            using v i by (simp add: Cons pc a r2 split: option.split list.split)
        qed (simp add: Cons pc a)
      qed (simp add: Cons)
    qed simp
  }
qed simp_all

lemma parse_value_enough:
  assumes "2 * length s + 1 \<le> n" "n \<le> m"
  shows "parse_value cv m s = parse_value cv n s"
  using assms(2,1)
proof (induction rule: dec_induct)
  case (step k)
  thus ?case using parse_fuel(1) [of s k cv] by simp
qed simp

subsection \<open>Parsing what stringify printed\<close>

definition delimited :: "jstr \<Rightarrow> bool" where
  "delimited r \<longleftrightarrow> r = [] \<or> hd r = 44 \<or> hd r = 93 \<or> hd r = 125"

lemma hex_value_digit: "n < 16 \<Longrightarrow> hex_value (hex_digit n) = Some n"
proof -
  assume n: "n < 16"
  have "unat (of_nat m :: code_unit) = m" if "m < 200" for m
    using that by (simp add: unat_of_nat)
  with n show ?thesis by (simp add: hex_value_def hex_digit_def is_digit_def)
qed

lemma hex4_escape:
  "hex4 (hex_digit (unat u div 4096)) (hex_digit (unat u div 256 mod 16))
     (hex_digit (unat u div 16 mod 16)) (hex_digit (unat u mod 16)) = Some u"
proof -
  have b: "unat u < 65536" using unsigned_less [of u] by simp
  have "unat u div 256 = unat u div 256 div 16 * 16 + unat u div 256 mod 16"
    "unat u div 16 = unat u div 16 div 16 * 16 + unat u div 16 mod 16"
    "unat u = unat u div 16 * 16 + unat u mod 16"
    by (rule div_mult_mod_eq [symmetric])+
  moreover have "unat u div 256 div 16 = unat u div 4096" "unat u div 16 div 16 = unat u div 256"
    by (simp_all flip: div_mult2_eq)
  ultimately have e: "unat u div 4096 * 4096 + unat u div 256 mod 16 * 256 + unat u div 16 mod 16 * 16
      + unat u mod 16 = unat u"
    by linarith
  have "unat u div 4096 < 16" using b by (simp add: less_mult_imp_div_less)
  thus ?thesis by (simp only: hex4_def hex_value_digit mod_less_divisor zero_less_numeral e) (simp add: e)
qed

lemma parse_chars_escape:
  assumes "parse_chars r = Some (s, t)"
  shows "parse_chars (escape_u u @ r) = Some (u # s, t)"
  unfolding escape_u_def Let_def append_Cons append_Nil
  by (subst parse_chars.simps(2)) (simp add: hex4_escape assms del: One_nat_def)

lemma parse_chars_quote_unit:
  assumes "parse_chars r = Some (s, t)"
  shows "parse_chars (quote_unit u @ r) = Some (u # s, t)"
  using assms
  by (simp add: quote_unit_def parse_chars_escape simple_escape_def)

lemma parse_chars_quote_units:
  "parse_chars (quote_units s @ 34 # r) = Some (s, r)"
proof (induction s rule: quote_units.induct)
  case (3 u v t)
  show ?case
  proof (cases "is_high u \<and> is_low v")
    case True
    hence "\<not> unat u < 32" "\<not> unat v < 32" "u \<noteq> 34" "u \<noteq> 92" "v \<noteq> 34" "v \<noteq> 92"
      by (auto simp: is_high_def is_low_def)
    with True 3 show ?thesis by simp
  next
    case False
    with 3 show ?thesis using parse_chars_quote_unit by auto
  qed
qed (simp_all add: parse_chars_quote_unit)

lemma parse_chars_quote: "parse_chars (tl (quote s) @ r) = Some (s, r)"
  by (simp add: quote_def parse_chars_quote_units)

text \<open>Numbers.\<close>

lemma unat_digit: "n < 10 \<Longrightarrow> unat (of_nat (48 + n) :: code_unit) = 48 + n"
  by (simp only: unat_of_nat) simp

lemma is_digit_of_nat: "n < 10 \<Longrightarrow> is_digit (of_nat (48 + n))"
  unfolding is_digit_def by (subst (1 2) unat_digit) simp_all

lemma digits_value_append: "digits_value (xs @ ys) acc = digits_value ys (digits_value xs acc)"
  by (induction xs arbitrary: acc) simp_all

lemma nat_digits_correct:
  "list_all is_digit (nat_digits n) \<and> nat_digits n \<noteq> [] \<and> digits_value (nat_digits n) 0 = n
     \<and> (hd (nat_digits n) = 48 \<longrightarrow> n = 0 \<and> length (nat_digits n) = 1)"
proof (induction n rule: nat_digits.induct)
  case (1 n)
  show ?case
  proof (cases "n < 10")
    case True
    hence "nat_digits n = [of_nat (48 + n)]" by (subst nat_digits.simps) simp
    moreover have "(of_nat (48 + n) :: code_unit) = 48 \<Longrightarrow> n = 0"
      proof -
      assume "(of_nat (48 + n) :: code_unit) = 48"
      hence "unat (of_nat (48 + n) :: code_unit) = unat (48 :: code_unit)" by simp
      thus "n = 0" using unat_digit [OF True] by simp
    qed
    ultimately show ?thesis
      using True is_digit_of_nat [OF True] unat_digit [OF True] by simp
  next
    case False
    hence e: "nat_digits n = nat_digits (n div 10) @ [of_nat (48 + n mod 10)]"
      by (subst nat_digits.simps) simp
    have m: "n mod 10 < 10" by simp
    note ih = "1.IH" [OF False]
    have "n div 10 \<noteq> 0" using False by simp
    hence "hd (nat_digits (n div 10)) \<noteq> 48" using ih by auto
    thus ?thesis
      unfolding e using ih is_digit_of_nat [OF m] unat_digit [OF m]
      by (simp add: digits_value_append hd_append)
  qed
qed

lemma delimited_not:
  "delimited (u # r) \<Longrightarrow> \<not> is_digit u \<and> u \<noteq> 46 \<and> u \<noteq> 101 \<and> u \<noteq> 69 \<and> \<not> is_json_ws u"
  by (auto simp: delimited_def is_digit_def is_json_ws_def)

lemma split_digits_append:
  assumes "split_digits s = (ds, t)" "delimited r"
  shows "split_digits (s @ r) = (ds, t @ r)"
proof -
  have r: "takeWhile is_digit r = []" "dropWhile is_digit r = r"
    using delimited_not assms(2) by (cases r; auto)+
  show ?thesis
  proof (cases "\<exists>x \<in> set s. \<not> is_digit x")
    case True
    thus ?thesis using assms(1) by (auto simp: split_digits_def)
  next
    case False
    hence "takeWhile is_digit s = s" "dropWhile is_digit s = []"
      by (auto simp: takeWhile_eq_all_conv)
    with assms(1) have "ds = s" "t = []" by (simp_all add: split_digits_def)
    thus ?thesis using False r by (auto simp: split_digits_def)
  qed
qed

lemma parse_frac_append:
  assumes "parse_frac s = Some (fr, t)" "delimited r"
  shows "parse_frac (s @ r) = Some (fr, t @ r)"
proof (cases s)
  case Nil
  thus ?thesis using assms delimited_not by (cases r) (auto simp: parse_frac_def)
next
  case (Cons u s')
  obtain ds t' where sd: "split_digits s' = (ds, t')" by force
  show ?thesis using assms(1) split_digits_append [OF sd assms(2)] sd
    by (auto simp: Cons parse_frac_def split: if_splits)
qed

lemma parse_exp_append:
  assumes "parse_exp s = Some (ex, t)" "delimited r"
  shows "parse_exp (s @ r) = Some (ex, t @ r)"
proof (cases s)
  case Nil
  thus ?thesis using assms delimited_not by (cases r) (auto simp: parse_exp_def)
next
  case (Cons u s')
  define sg where "sg = (case s' of v # r' \<Rightarrow> (if v = 43 \<or> v = 45 then ([v], r') else ([], s')) | [] \<Rightarrow> ([], s'))"
  obtain ds t' where sd: "split_digits (snd sg) = (ds, t')" by force
  show ?thesis
  proof (cases "u = 101 \<or> u = 69")
    case False
    thus ?thesis using assms(1) by (auto simp: Cons parse_exp_def)
  next
    case True
    have ne: "ds \<noteq> []" and res: "ex = u # fst sg @ ds" "t = t'"
      using assms(1) True sd by (auto simp: Cons parse_exp_def sg_def [symmetric] Let_def split: if_splits prod.splits)
    have "s' \<noteq> []" using sd ne by (auto simp: sg_def split_digits_def)
    hence sg': "(case s' @ r of v # r' \<Rightarrow> (if v = 43 \<or> v = 45 then ([v], r') else ([], s' @ r)) | [] \<Rightarrow> ([], s' @ r))
        = (fst sg, snd sg @ r)"
      by (cases s') (auto simp: sg_def)
    show ?thesis
      using True ne res split_digits_append [OF sd assms(2)]
      by (auto simp: Cons parse_exp_def sg' Let_def)
  qed
qed

lemma parse_number_append:
  assumes "parse_number cv s = Some (x, [])" "delimited r"
  shows "parse_number cv (s @ r) = Some (x, r)"
proof -
  obtain sg s1 ds s2 where 1: "parse_sign s = (sg, s1)" "split_digits s1 = (ds, s2)" by fastforce
  with assms(1) obtain fr s3 ex where
    2: "ds \<noteq> []" "\<not> (hd ds = 48 \<and> 1 < length ds)" "parse_frac s2 = Some (fr, s3)" "parse_exp s3 = Some (ex, [])"
       "x = make_number cv sg ds (fr @ ex)"
    by (auto simp: parse_number_def split: if_splits option.splits)
  have "s \<noteq> []" using 1 2(1) by (auto simp: parse_sign_def split_digits_def)
  hence sg: "parse_sign (s @ r) = (sg, s1 @ r)"
    using 1(1) by (cases s) (auto simp: parse_sign_def)
  show ?thesis
    using sg split_digits_append [OF 1(2) assms(2)] parse_frac_append [OF 2(3) assms(2)]
      parse_exp_append [OF 2(4) assms(2)] 2
    by (auto simp: parse_number_def)
qed

lemma parse_int_text:
  assumes "\<bar>i\<bar> \<le> max_safe"
  shows "parse_number cv (int_text i) = Some (NInt i, [])"
proof -
  have sd: "split_digits (nat_digits n) = (nat_digits n, [])" for n
    using nat_digits_correct [of n] by (auto simp: split_digits_def list_all_iff)
  have sg: "parse_sign (nat_digits n) = ([], nat_digits n)" for n
    using nat_digits_correct [of n] by (cases "nat_digits n") (auto simp: parse_sign_def is_digit_def)
  have ok: "nat_digits n \<noteq> []" "\<not> (hd (nat_digits n) = 48 \<and> 1 < length (nat_digits n))" for n
    using nat_digits_correct [of n] by auto
  have val: "digits_value (nat_digits n) 0 = n" for n
    using nat_digits_correct [of n] by auto
  show ?thesis
  proof (cases "i < 0")
    case True
    thus ?thesis using assms sd ok val
      by (simp add: int_text_def parse_number_def parse_sign_def parse_frac_def parse_exp_def make_number_def)
  next
    case False
    thus ?thesis using assms sd ok val sg
      by (simp add: int_text_def parse_number_def parse_frac_def parse_exp_def make_number_def)
  qed
qed

subsection \<open>Round trip\<close>

text \<open>
  The values \<open>JSON.parse\<close> can produce: integers are safe, another number is printed as a numeral
  that reads back as itself (ECMAScript's \<open>Number(String(x)) = x\<close>), keys are distinct and in
  property order.
\<close>

fun num_ok :: "(jstr \<Rightarrow> jnum) \<Rightarrow> jnum \<Rightarrow> bool" where
  "num_ok cv (NInt i) = (\<bar>i\<bar> \<le> max_safe)"
| "num_ok cv (NDbl t) = (num_text (NDbl t) = t \<and> parse_number cv t = Some (NDbl t, []))"

primrec wf_json :: "(jstr \<Rightarrow> jnum) \<Rightarrow> json \<Rightarrow> bool"
  and wf_items :: "(jstr \<Rightarrow> jnum) \<Rightarrow> json list \<Rightarrow> bool"
  and wf_props :: "(jstr \<Rightarrow> jnum) \<Rightarrow> (jstr \<times> json) list \<Rightarrow> bool"
  and wf_prop :: "(jstr \<Rightarrow> jnum) \<Rightarrow> jstr \<times> json \<Rightarrow> bool" where
  "wf_json cv JNull = True"
| "wf_json cv (JBool b) = True"
| "wf_json cv (JNum n) = num_ok cv n"
| "wf_json cv (JStr s) = True"
| "wf_json cv (JArr xs) = wf_items cv xs"
| "wf_json cv (JObj kvs) = (build_obj kvs = kvs \<and> wf_props cv kvs)"
| "wf_items cv [] = True"
| "wf_items cv (x # xs) = (wf_json cv x \<and> wf_items cv xs)"
| "wf_props cv [] = True"
| "wf_props cv (p # ps) = (wf_prop cv p \<and> wf_props cv ps)"
| "wf_prop cv (k, v) = wf_json cv v"

lemma wf_items_iff [simp]: "wf_items cv xs \<longleftrightarrow> (\<forall>x \<in> set xs. wf_json cv x)"
  by (induction xs) auto

lemma wf_props_iff [simp]: "wf_props cv kvs \<longleftrightarrow> (\<forall>(k, v) \<in> set kvs. wf_json cv v)"
  by (induction kvs) auto

lemma num_ok_parse: "num_ok cv n \<Longrightarrow> parse_number cv (num_text n) = Some (n, [])"
  by (cases n) (simp_all add: parse_int_text)

lemma parse_number_head:
  assumes "parse_number cv s = Some (x, r)"
  shows "\<exists>u t. s = u # t \<and> (u = 45 \<or> is_digit u)"
proof (cases s)
  case Nil
  with assms show ?thesis by (simp add: parse_number_def parse_sign_def split_digits_def)
next
  case (Cons u t)
  show ?thesis
  proof (rule ccontr)
    assume "\<not> ?thesis"
    hence "u \<noteq> 45" "\<not> is_digit u" using Cons by auto
    with assms Cons show False by (simp add: parse_number_def parse_sign_def split_digits_def)
  qed
qed

lemma number_head_facts:
  "u = 45 \<or> is_digit u \<Longrightarrow> \<not> is_json_ws u \<and> u \<notin> {34, 91, 93, 123, 125, 116, 102, 110}"
  by (auto simp: is_digit_def is_json_ws_def)

lemma stringify_head:
  assumes "wf_json cv v"
  shows "\<exists>u t. stringify v = u # t \<and> \<not> is_json_ws u \<and> u \<noteq> 93 \<and> u \<noteq> 125"
proof (cases v)
  case (JNum n)
  with assms have "num_ok cv n" by simp
  from parse_number_head [OF num_ok_parse [OF this]]
  obtain u t where ut: "num_text n = u # t" "u = 45 \<or> is_digit u" by blast
  show ?thesis using JNum ut(1) number_head_facts [OF ut(2)] by simp
next
  case (JBool b)
  thus ?thesis by (cases b) (simp_all add: js_def cu_def is_json_ws_def)
qed (simp_all add: quote_def js_def cu_def is_json_ws_def)

lemma skip_ws_head: "\<not> is_json_ws u \<Longrightarrow> skip_ws (u # r) = u # r"
  by (simp add: skip_ws_def)

lemma parse_lit_append: "parse_lit w v (js w @ r) = Some (v, r)"
  by (simp add: parse_lit_def starts_with_def)

definition reads_back :: "(jstr \<Rightarrow> jnum) \<Rightarrow> json \<Rightarrow> bool" where
  "reads_back cv v \<longleftrightarrow>
     (\<forall>r. delimited r \<longrightarrow> (\<exists>N. \<forall>n \<ge> N. parse_value cv n (stringify v @ r) = Some (v, r)))"

lemma reads_backD:
  "reads_back cv v \<Longrightarrow> delimited r \<Longrightarrow> \<exists>N. \<forall>n \<ge> N. parse_value cv n (stringify v @ r) = Some (v, r)"
  by (simp add: reads_back_def)

lemma reads_backI:
  assumes "\<And>r n. delimited r \<Longrightarrow> parse_value cv (Suc n) (stringify v @ r) = Some (v, r)"
  shows "reads_back cv v"
  unfolding reads_back_def
proof (intro allI impI exI)
  fix r :: jstr and n :: nat
  assume "delimited r" "1 \<le> n"
  thus "parse_value cv n (stringify v @ r) = Some (v, r)" using assms by (cases n) auto
qed

lemma reads_back_num:
  assumes "num_ok cv n"
  shows "reads_back cv (JNum n)"
proof (rule reads_backI)
  fix r :: jstr and k :: nat
  assume d: "delimited r"
  from parse_number_head [OF num_ok_parse [OF assms]]
  obtain u t where ut: "num_text n = u # t" "u = 45 \<or> is_digit u" by auto
  note h = number_head_facts [OF ut(2)]
  have "parse_number cv (u # t @ r) = Some (n, r)"
    using parse_number_append [OF num_ok_parse [OF assms] d] ut(1) by simp
  thus "parse_value cv (Suc k) (stringify (JNum n) @ r) = Some (JNum n, r)"
    using h ut(1) by (simp add: skip_ws_head)
qed

lemma reads_back_string: "reads_back cv (JStr s)"
proof (rule reads_backI)
  fix r :: jstr and n :: nat
  show "parse_value cv (Suc n) (stringify (JStr s) @ r) = Some (JStr s, r)"
    using parse_chars_quote_units [of s r]
    by (simp add: quote_def skip_ws_head is_json_ws_def)
qed

lemma reads_back_lit: "reads_back cv JNull" "reads_back cv (JBool b)"
proof -
  note u = skip_ws_head is_json_ws_def parse_lit_def starts_with_def js_def cu_def
  show "reads_back cv JNull" by (rule reads_backI) (simp add: u)
  show "reads_back cv (JBool b)" by (rule reads_backI) (cases b; simp add: u)
qed

lemma delimited_simps [simp]:
  "delimited (44 # r)" "delimited (93 # r)" "delimited (125 # r)" "delimited []"
  by (simp_all add: delimited_def)

lemma skip_ws_punct [simp]:
  "skip_ws (44 # r) = 44 # r" "skip_ws (93 # r) = 93 # r" "skip_ws (125 # r) = 125 # r"
  "skip_ws (58 # r) = 58 # r" "skip_ws (34 # r) = 34 # r" "skip_ws (91 # r) = 91 # r"
  "skip_ws (123 # r) = 123 # r"
  by (simp_all add: skip_ws_head is_json_ws_def)

lemma items_read_back:
  assumes "xs \<noteq> []" "\<forall>x \<in> set xs. reads_back cv x"
  shows "\<exists>N. \<forall>n \<ge> N. parse_items cv n (join_comma (map stringify xs) @ 93 # r) = Some (xs, r)"
  using assms
proof (induction xs rule: list_nonempty_induct)
  case (single x)
  then obtain N where N: "\<And>n. N \<le> n \<Longrightarrow> parse_value cv n (stringify x @ 93 # r) = Some (x, 93 # r)"
    using reads_backD [of cv x "93 # r"] by auto
  have "parse_items cv n (stringify x @ 93 # r) = Some ([x], r)" if "Suc N \<le> n" for n
    using N that by (cases n) simp_all
  thus ?case by auto
next
  case (cons x xs)
  then obtain M where M: "\<And>n. M \<le> n \<Longrightarrow>
      parse_items cv n (join_comma (map stringify xs) @ 93 # r) = Some (xs, r)" by auto
  define t where "t = join_comma (map stringify xs) @ 93 # r"
  obtain N where N: "\<And>n. N \<le> n \<Longrightarrow> parse_value cv n (stringify x @ 44 # t) = Some (x, 44 # t)"
    using cons.prems reads_backD [of cv x "44 # t"] by auto
  have j: "join_comma (map stringify (x # xs)) @ 93 # r = stringify x @ 44 # t"
    using cons.hyps by (cases xs) (simp_all add: t_def)
  have "parse_items cv n (stringify x @ 44 # t) = Some (x # xs, r)" if "Suc (max M N) \<le> n" for n
    using N M that by (cases n) (simp_all add: t_def)
  thus ?case unfolding j by blast
qed

lemma parse_prop_step:
  assumes "parse_value cv n (t @ r) = Some (v, r)"
  shows "parse_props cv (Suc n) (quote k @ 58 # t @ r) =
    (case skip_ws r of
       [] \<Rightarrow> None
     | u # r' \<Rightarrow>
         if u = 44 then map_option (\<lambda>(kvs, t). ((k, v) # kvs, t)) (parse_props cv n r')
         else if u = 125 then Some ([(k, v)], r') else None)"
  using assms parse_chars_quote_units [of k "58 # t @ r"]
  by (simp add: quote_def)

definition prop_text :: "jstr \<times> json \<Rightarrow> jstr" where
  "prop_text = (\<lambda>(k, v). quote k @ 58 # stringify v)"

lemma props_read_back:
  assumes "kvs \<noteq> []" "\<forall>(k, v) \<in> set kvs. reads_back cv v"
  shows "\<exists>N. \<forall>n \<ge> N. parse_props cv n (join_comma (map prop_text kvs) @ 125 # r) = Some (kvs, r)"
  using assms
proof (induction kvs rule: list_nonempty_induct)
  case (single p)
  obtain k x where p: "p = (k, x)" by force
  with single obtain N where N: "\<And>n. N \<le> n \<Longrightarrow> parse_value cv n (stringify x @ 125 # r) = Some (x, 125 # r)"
    using reads_backD [of cv x "125 # r"] by auto
  have "parse_props cv n (prop_text p @ 125 # r) = Some ([p], r)" if "Suc N \<le> n" for n
  proof (cases n)
    case (Suc m)
    thus ?thesis using parse_prop_step [OF N [of m]] that by (simp add: prop_text_def p)
  qed (use that in simp)
  thus ?case by auto
next
  case (cons p kvs)
  obtain k x where p: "p = (k, x)" by force
  from cons obtain M where M: "\<And>n. M \<le> n \<Longrightarrow>
      parse_props cv n (join_comma (map prop_text kvs) @ 125 # r) = Some (kvs, r)" by auto
  define t where "t = join_comma (map prop_text kvs) @ 125 # r"
  obtain N where N: "\<And>n. N \<le> n \<Longrightarrow> parse_value cv n (stringify x @ 44 # t) = Some (x, 44 # t)"
    using cons.prems p reads_backD [of cv x "44 # t"] by auto
  have j: "join_comma (map prop_text (p # kvs)) @ 125 # r = quote k @ 58 # stringify x @ 44 # t"
    using cons.hyps by (cases kvs) (simp_all add: t_def prop_text_def p)
  have "parse_props cv n (quote k @ 58 # stringify x @ 44 # t) = Some (p # kvs, r)"
    if "Suc (max M N) \<le> n" for n
  proof (cases n)
    case (Suc m)
    thus ?thesis using parse_prop_step [OF N [of m]] M that by (simp add: t_def p)
  qed (use that in simp)
  thus ?case unfolding j by blast
qed

lemma reads_back_arr:
  assumes "\<forall>x \<in> set xs. wf_json cv x" "\<forall>x \<in> set xs. reads_back cv x"
  shows "reads_back cv (JArr xs)"
proof (cases "xs = []")
  case True
  thus ?thesis by (auto intro!: reads_backI)
next
  case False
  then obtain u t where ut: "join_comma (map stringify xs) = u # t" "\<not> is_json_ws u" "u \<noteq> 93"
    using stringify_head [of cv "hd xs"] assms(1)
    by (cases xs rule: remdups_adj.cases) auto
  show ?thesis unfolding reads_back_def
  proof (intro allI impI)
    fix r :: jstr
    assume d: "delimited r"
    obtain N where N: "\<And>n. N \<le> n \<Longrightarrow>
        parse_items cv n (join_comma (map stringify xs) @ 93 # r) = Some (xs, r)"
      using items_read_back [OF False assms(2)] by blast
    have "parse_value cv n (stringify (JArr xs) @ r) = Some (JArr xs, r)" if "Suc N \<le> n" for n
      using N that by (cases n) (simp_all add: ut skip_ws_head)
    thus "\<exists>N. \<forall>n\<ge>N. parse_value cv n (stringify (JArr xs) @ r) = Some (JArr xs, r)" by blast
  qed
qed

lemma reads_back_obj:
  assumes "build_obj kvs = kvs" "\<forall>(k, v) \<in> set kvs. reads_back cv v"
  shows "reads_back cv (JObj kvs)"
proof (cases "kvs = []")
  case True
  thus ?thesis by (auto intro!: reads_backI)
next
  case False
  then obtain t where t: "join_comma (map prop_text kvs) = 34 # t"
    by (cases kvs rule: remdups_adj.cases) (auto simp: prop_text_def quote_def split: prod.splits)
  show ?thesis unfolding reads_back_def
  proof (intro allI impI)
    fix r :: jstr
    assume d: "delimited r"
    obtain N where N: "\<And>n. N \<le> n \<Longrightarrow>
        parse_props cv n (join_comma (map prop_text kvs) @ 125 # r) = Some (kvs, r)"
      using props_read_back [OF False assms(2)] by blast
    have "stringify (JObj kvs) @ r = 123 # join_comma (map prop_text kvs) @ 125 # r"
      by (simp add: prop_text_def)
    hence "parse_value cv n (stringify (JObj kvs) @ r) = Some (JObj kvs, r)" if "Suc N \<le> n" for n
      using N that assms(1) by (cases n) (simp_all add: t skip_ws_head is_json_ws_def)
    thus "\<exists>N. \<forall>n\<ge>N. parse_value cv n (stringify (JObj kvs) @ r) = Some (JObj kvs, r)" by blast
  qed
qed

lemma wf_reads_back: "wf_json cv v \<Longrightarrow> reads_back cv v"
proof (induction v)
  case (JArr xs)
  thus ?case by (intro reads_back_arr) auto
next
  case (JObj kvs)
  thus ?case by (intro reads_back_obj) (simp, force)
qed (auto simp: reads_back_lit reads_back_num reads_back_string)

lemma parse_stringify:
  assumes "wf_json cv v"
  shows "json_parse cv (stringify v) = Some v"
proof -
  obtain N where N: "\<And>n. N \<le> n \<Longrightarrow> parse_value cv n (stringify v) = Some (v, [])"
    using reads_backD [OF wf_reads_back [OF assms], of "[]"] by auto
  define k where "k = 2 * length (stringify v) + 2"
  have "parse_value cv (max N k) (stringify v) = parse_value cv k (stringify v)"
    by (rule parse_value_enough) (simp_all add: k_def)
  hence "parse_value cv k (stringify v) = Some (v, [])" using N [of "max N k"] by simp
  thus ?thesis by (simp add: json_parse_def skip_ws_def k_def del: parse_value.simps)
qed

lemma stringify_inj:
  assumes "wf_json cv v" "wf_json cv w" "stringify v = stringify w"
  shows "v = w"
  using parse_stringify [OF assms(1)] parse_stringify [OF assms(2)] assms(3)
  by (metis option.inject)

subsection \<open>The interface of the codec\<close>

locale text_codec =
  fixes print :: "'a \<Rightarrow> jstr"
    and read :: "jstr \<Rightarrow> 'a option"
    and printable :: "'a \<Rightarrow> bool"
  assumes read_print: "printable a \<Longrightarrow> read (print a) = Some a"
begin

lemma tc_print_inj: "printable a \<Longrightarrow> printable b \<Longrightarrow> print a = print b \<longleftrightarrow> a = b"
  by (metis read_print option.inject)

end

interpretation jc: text_codec stringify "json_parse cv" "wf_json cv" for cv
  by unfold_locales (rule parse_stringify)

text \<open>
  Keys made by printing an array of strings and integers (the sources' routing and deduplication
  keys) determine the array.
\<close>

definition scalar :: "json \<Rightarrow> bool" where
  "scalar v \<longleftrightarrow> (case v of JNull \<Rightarrow> True | JStr s \<Rightarrow> True | JNum (NInt i) \<Rightarrow> \<bar>i\<bar> \<le> max_safe | _ \<Rightarrow> False)"

lemma stringify_scalars_inj:
  assumes "list_all scalar xs" "list_all scalar ys"
  shows "stringify (JArr xs) = stringify (JArr ys) \<longleftrightarrow> xs = ys"
proof -
  have "wf_json (\<lambda>_. NInt 0) v" if "scalar v" for v
    using that by (auto simp: scalar_def split: json.splits jnum.splits)
  hence "wf_json (\<lambda>_. NInt 0) (JArr xs)" "wf_json (\<lambda>_. NInt 0) (JArr ys)"
    using assms by (auto simp: list_all_iff)
  from jc.tc_print_inj [OF this] show ?thesis by simp
qed

end
