(* ===== verification/Dedup.thy ===== *)
theory Dedup imports JsonParse begin

text \<open>
  Message deduplication, \<^verbatim>\<open>router/dedup.ts\<close>: a bounded list of claims.  A message is claimed
  before it is handled, admitted once its task is running, released when it was not.  Times are
  milliseconds; an absent \<open>admittedAt\<close> is \<open>None\<close> and compares false, as \<open>undefined + n\<close> is NaN.
\<close>

definition DEDUP_TTL_MS :: int where
  "DEDUP_TTL_MS = 24 * 60 * 60 * 1000"

definition MAX_DEDUP_PER_RUNTIME :: nat where
  "MAX_DEDUP_PER_RUNTIME = 2048"

definition MAX_DEDUP_ENTRIES :: nat where
  "MAX_DEDUP_ENTRIES = 8192"

definition identifier_ok :: "nat \<Rightarrow> jstr \<Rightarrow> bool" where
  "identifier_ok maximum value \<longleftrightarrow>
     1 \<le> length value \<and> length value \<le> maximum \<and> trim value = value \<and> \<not> has_control value"

definition runtime_id_ok :: "jstr \<Rightarrow> bool" where
  "runtime_id_ok s \<longleftrightarrow> prefixed_hex ''rt_'' 32 s"

definition timestamp_ok :: "int \<Rightarrow> bool" where
  "timestamp_ok t \<longleftrightarrow> 0 \<le> t \<and> t \<le> max_safe"

datatype dedup_state = Claimed | Admitted

record dedup_entry =
  d_key :: jstr
  d_runtimeId :: jstr
  d_messageUid :: jstr
  d_claimId :: jstr
  d_state :: dedup_state
  d_claimedAt :: int
  d_admittedAt :: "int option"

definition DedupEntrySchema :: "dedup_entry \<Rightarrow> bool" where
  "DedupEntrySchema e \<longleftrightarrow>
     identifier_ok 8192 (d_key e) \<and> runtime_id_ok (d_runtimeId e) \<and> identifier_ok 256 (d_messageUid e)
     \<and> hex_exact 32 (d_claimId e) \<and> timestamp_ok (d_claimedAt e)
     \<and> (case d_admittedAt e of None \<Rightarrow> True | Some t \<Rightarrow> timestamp_ok t)"

datatype claim_transition =
    TClaimed jstr jstr "dedup_entry list"
  | TDuplicate jstr "dedup_entry list"
  | TCapacity jstr "dedup_entry list"

record cas_transition =
  accepted :: bool
  changed :: bool
  cas_entries :: "dedup_entry list"

definition dedupKey :: "jstr \<Rightarrow> jstr \<Rightarrow> jstr" where
  "dedupKey runtimeId messageUid = stringify (JArr [JStr runtimeId, JStr messageUid])"

definition stateTime :: "dedup_entry \<Rightarrow> int option" where
  "stateTime e = (if d_state e = Admitted then d_admittedAt e else Some (d_claimedAt e))"

definition dedup_live :: "int \<Rightarrow> dedup_entry \<Rightarrow> bool" where
  "dedup_live now e \<longleftrightarrow> (case stateTime e of None \<Rightarrow> False | Some t \<Rightarrow> now < t + DEDUP_TTL_MS)"

definition pruneDedup :: "dedup_entry list \<Rightarrow> int \<Rightarrow> dedup_entry list" where
  "pruneDedup entries now = filter (dedup_live now) entries"

datatype dedup_error = InvalidDedupClaim

definition claimDedup ::
  "dedup_entry list \<Rightarrow> jstr \<Rightarrow> jstr \<Rightarrow> jstr \<Rightarrow> int \<Rightarrow> (dedup_error, claim_transition) result" where
  "claimDedup entries runtimeId messageUid claimId now =
     (let parsed = \<lparr>d_key = dedupKey runtimeId messageUid, d_runtimeId = runtimeId,
                    d_messageUid = messageUid, d_claimId = claimId, d_state = Claimed,
                    d_claimedAt = now, d_admittedAt = None\<rparr>
      in if \<not> DedupEntrySchema parsed then Inl InvalidDedupClaim
         else let current = pruneDedup entries now;
                  runtimeCount = length (filter (\<lambda>e. d_runtimeId e = runtimeId) current)
              in if list_ex (\<lambda>e. d_key e = d_key parsed) current
                 then Inr (TDuplicate (d_key parsed) current)
                 else if runtimeCount \<ge> MAX_DEDUP_PER_RUNTIME \<or> length current \<ge> MAX_DEDUP_ENTRIES
                 then Inr (TCapacity (d_key parsed) current)
                 else Inr (TClaimed (d_key parsed) claimId (current @ [parsed])))"

text \<open>The first entry that passes a test, replaced.\<close>

fun update_first :: "('a \<Rightarrow> bool) \<Rightarrow> ('a \<Rightarrow> 'a) \<Rightarrow> 'a list \<Rightarrow> 'a list" where
  "update_first P f [] = []"
| "update_first P f (x # xs) = (if P x then f x # xs else x # update_first P f xs)"

fun remove_first :: "('a \<Rightarrow> bool) \<Rightarrow> 'a list \<Rightarrow> 'a list" where
  "remove_first P [] = []"
| "remove_first P (x # xs) = (if P x then xs else x # remove_first P xs)"

definition admitDedup :: "dedup_entry list \<Rightarrow> jstr \<Rightarrow> jstr \<Rightarrow> int \<Rightarrow> cas_transition" where
  "admitDedup entries key claimId now =
     (case List.find (\<lambda>e. d_key e = key) entries of
        None \<Rightarrow> \<lparr>accepted = False, changed = False, cas_entries = entries\<rparr>
      | Some e \<Rightarrow>
          if d_claimId e \<noteq> claimId then \<lparr>accepted = False, changed = False, cas_entries = entries\<rparr>
          else if d_state e = Admitted then \<lparr>accepted = True, changed = False, cas_entries = entries\<rparr>
          else \<lparr>accepted = True, changed = True,
                cas_entries = update_first (\<lambda>e. d_key e = key)
                  (\<lambda>e. e\<lparr>d_state := Admitted, d_admittedAt := Some now\<rparr>) entries\<rparr>)"

definition releaseDedup :: "dedup_entry list \<Rightarrow> jstr \<Rightarrow> jstr \<Rightarrow> cas_transition" where
  "releaseDedup entries key claimId =
     (case List.find (\<lambda>e. d_key e = key \<and> d_claimId e = claimId) entries of
        None \<Rightarrow> \<lparr>accepted = False, changed = False, cas_entries = entries\<rparr>
      | Some e \<Rightarrow>
          if d_state e \<noteq> Claimed then \<lparr>accepted = False, changed = False, cas_entries = entries\<rparr>
          else \<lparr>accepted = True, changed = True,
                cas_entries = remove_first (\<lambda>e. d_key e = key \<and> d_claimId e = claimId) entries\<rparr>)"

subsection \<open>Keys\<close>

lemma dedupKey_inj: "dedupKey r m = dedupKey r' m' \<longleftrightarrow> r = r' \<and> m = m'"
  unfolding dedupKey_def by (subst stringify_scalars_inj) (simp_all add: scalar_def)

subsection \<open>Lists\<close>

lemma set_update_first: "set (update_first P f xs) \<subseteq> set xs \<union> f ` {x \<in> set xs. P x}"
  by (induction xs) auto

lemma map_update_first: "(\<And>x. g (f x) = g x) \<Longrightarrow> map g (update_first P f xs) = map g xs"
  by (induction xs) auto

lemma length_update_first [simp]: "length (update_first P f xs) = length xs"
  by (induction xs) auto

lemma set_remove_first: "set (remove_first P xs) \<subseteq> set xs"
  by (induction xs) auto

lemma remove_first_filter_le: "length (filter Q (remove_first P xs)) \<le> length (filter Q xs)"
  by (induction xs) auto

lemma length_remove_first_le: "length (remove_first P xs) \<le> length xs"
  by (induction xs) auto

lemma distinct_map_remove_first: "distinct (map g xs) \<Longrightarrow> distinct (map g (remove_first P xs))"
  by (induction xs) (auto dest: subsetD [OF set_remove_first])

lemma remove_first_append_new:
  "\<forall>x \<in> set xs. \<not> P x \<Longrightarrow> P y \<Longrightarrow> remove_first P (xs @ [y]) = xs"
  by (induction xs) auto

subsection \<open>Invariant\<close>

definition runtime_count :: "jstr \<Rightarrow> dedup_entry list \<Rightarrow> nat" where
  "runtime_count r es = length (filter (\<lambda>e. d_runtimeId e = r) es)"

definition entry_ok :: "dedup_entry \<Rightarrow> bool" where
  "entry_ok e \<longleftrightarrow> d_key e = dedupKey (d_runtimeId e) (d_messageUid e)
     \<and> (d_state e = Claimed \<longleftrightarrow> d_admittedAt e = None)"

definition dedup_inv :: "dedup_entry list \<Rightarrow> bool" where
  "dedup_inv es \<longleftrightarrow> distinct (map d_key es) \<and> length es \<le> MAX_DEDUP_ENTRIES
     \<and> (\<forall>r. runtime_count r es \<le> MAX_DEDUP_PER_RUNTIME) \<and> (\<forall>e \<in> set es. entry_ok e)"

lemma dedup_inv_Nil: "dedup_inv []"
  by (simp add: dedup_inv_def runtime_count_def)

lemma dedup_inv_sub:
  assumes "dedup_inv es" "distinct (map d_key es')" "length es' \<le> length es"
    "\<And>r. runtime_count r es' \<le> runtime_count r es" "set es' \<subseteq> set es"
  shows "dedup_inv es'"
proof -
  have "runtime_count r es' \<le> MAX_DEDUP_PER_RUNTIME" for r
    using assms(1,4) unfolding dedup_inv_def by (meson le_trans)
  thus ?thesis using assms(1-3,5) unfolding dedup_inv_def by (meson le_trans subsetD)
qed

lemma dedup_inv_filter:
  assumes "dedup_inv es"
  shows "dedup_inv (filter P es)"
proof (rule dedup_inv_sub [OF assms])
  show "runtime_count r (filter P es) \<le> runtime_count r es" for r
    unfolding runtime_count_def by (induction es) auto
qed (use assms in \<open>auto simp: dedup_inv_def distinct_map_filter\<close>)

lemma prune_inv: "dedup_inv es \<Longrightarrow> dedup_inv (pruneDedup es now)"
  unfolding pruneDedup_def by (rule dedup_inv_filter)

lemma set_pruneDedup: "set (pruneDedup es now) = {e \<in> set es. dedup_live now e}"
  by (auto simp: pruneDedup_def)

lemma claim_inv_new:
  assumes "dedup_inv cur" "\<not> list_ex (\<lambda>x. d_key x = d_key e) cur" "entry_ok e"
    "runtime_count (d_runtimeId e) cur < MAX_DEDUP_PER_RUNTIME" "length cur < MAX_DEDUP_ENTRIES"
  shows "dedup_inv (cur @ [e])"
proof -
  have "runtime_count r (cur @ [e]) \<le> MAX_DEDUP_PER_RUNTIME" for r
  proof (cases "r = d_runtimeId e")
    case False
    hence "runtime_count r (cur @ [e]) = runtime_count r cur" by (simp add: runtime_count_def)
    thus ?thesis using assms(1) by (simp add: dedup_inv_def)
  qed (use assms(4) in \<open>simp add: runtime_count_def\<close>)
  moreover have "d_key e \<notin> d_key ` set cur" using assms(2) by (auto simp: list_ex_iff)
  ultimately show ?thesis using assms by (auto simp: dedup_inv_def)
qed

text \<open>The entries a transition leaves.\<close>

fun claim_entries :: "claim_transition \<Rightarrow> dedup_entry list" where
  "claim_entries (TClaimed k c es) = es"
| "claim_entries (TDuplicate k es) = es"
| "claim_entries (TCapacity k es) = es"

lemma claim_inv:
  assumes "dedup_inv es" "claimDedup es r m c now = Inr t"
  shows "dedup_inv (claim_entries t)"
proof -
  note cur = prune_inv [OF assms(1), of now]
  show ?thesis
    using assms(2) cur claim_inv_new [OF cur]
    by (auto simp: claimDedup_def Let_def runtime_count_def entry_ok_def not_le split: if_splits)
qed

lemma admit_inv:
  assumes "dedup_inv es"
  shows "dedup_inv (cas_entries (admitDedup es k c now))"
proof -
  let ?f = "\<lambda>e. e\<lparr>d_state := Admitted, d_admittedAt := Some now\<rparr>"
  let ?es = "update_first (\<lambda>e. d_key e = k) ?f es"
  have "runtime_count r ?es = runtime_count r es" for r
    unfolding runtime_count_def by (induction es) auto
  moreover have "map d_key ?es = map d_key es" by (rule map_update_first) simp
  moreover have "\<forall>e \<in> set ?es. entry_ok e"
    using assms set_update_first [of "\<lambda>e. d_key e = k" ?f es] by (auto simp: dedup_inv_def entry_ok_def)
  ultimately have "dedup_inv ?es" using assms by (simp add: dedup_inv_def)
  thus ?thesis using assms by (simp add: admitDedup_def split: option.split)
qed

lemma release_inv:
  assumes "dedup_inv es"
  shows "dedup_inv (cas_entries (releaseDedup es k c))"
proof -
  let ?es = "remove_first (\<lambda>e. d_key e = k \<and> d_claimId e = c) es"
  have "dedup_inv ?es"
  proof (rule dedup_inv_sub [OF assms])
    show "runtime_count r ?es \<le> runtime_count r es" for r
      unfolding runtime_count_def by (rule remove_first_filter_le)
  qed (use assms in \<open>auto simp: dedup_inv_def distinct_map_remove_first length_remove_first_le
      dest: subsetD [OF set_remove_first]\<close>)
  thus ?thesis using assms by (simp add: releaseDedup_def split: option.split)
qed

subsection \<open>Runs\<close>

datatype dedup_event =
    DClaim jstr jstr jstr int
  | DAdmit jstr jstr int
  | DRelease jstr jstr

fun dedup_step :: "dedup_entry list \<Rightarrow> dedup_event \<Rightarrow> dedup_entry list" where
  "dedup_step es (DClaim r m c now) =
     (case claimDedup es r m c now of Inl _ \<Rightarrow> es | Inr t \<Rightarrow> claim_entries t)"
| "dedup_step es (DAdmit k c now) = cas_entries (admitDedup es k c now)"
| "dedup_step es (DRelease k c) = cas_entries (releaseDedup es k c)"

interpretation dm: state_machine "[]" dedup_step dedup_inv
proof
  show "dedup_inv []" by (rule dedup_inv_Nil)
next
  fix es e
  assume "dedup_inv es"
  thus "dedup_inv (dedup_step es e)"
    by (cases e) (auto simp: admit_inv release_inv dest: claim_inv split: sum.split)
qed

text \<open>An event happens while an entry admitted at \<open>t\<close> is still remembered.\<close>

fun happens_before :: "int \<Rightarrow> dedup_event \<Rightarrow> bool" where
  "happens_before t (DClaim r m c now) = (now < t)"
| "happens_before t _ = True"

lemma update_first_keeps:
  assumes "x \<in> set xs" "\<And>y. List.find P xs = Some y \<Longrightarrow> y \<noteq> x"
  shows "x \<in> set (update_first P f xs)"
  using assms by (induction xs) (auto split: if_splits)

lemma remove_first_keeps:
  assumes "x \<in> set xs" "\<And>y. List.find P xs = Some y \<Longrightarrow> y \<noteq> x"
  shows "x \<in> set (remove_first P xs)"
  using assms by (induction xs) (auto split: if_splits)

lemma admitted_kept_step:
  assumes "e \<in> set es" "d_state e = Admitted" "d_admittedAt e = Some t"
    "happens_before (t + DEDUP_TTL_MS) ev"
  shows "e \<in> set (dedup_step es ev)"
proof (cases ev)
  case (DClaim r m c now)
  hence "e \<in> set (pruneDedup es now)"
    using assms by (simp add: set_pruneDedup dedup_live_def stateTime_def)
  thus ?thesis using assms(1) DClaim
    by (auto simp: claimDedup_def Let_def split: sum.split)
next
  case (DAdmit k c now)
  thus ?thesis using assms(1,2)
    by (auto simp: admitDedup_def split: option.split intro!: update_first_keeps)
next
  case (DRelease k c)
  thus ?thesis using assms(1,2)
    by (auto simp: releaseDedup_def split: option.split intro!: remove_first_keeps)
qed

lemma admitted_kept:
  assumes "e \<in> set es" "d_state e = Admitted" "d_admittedAt e = Some t"
    "list_all (happens_before (t + DEDUP_TTL_MS)) evs"
  shows "e \<in> set (run_steps dedup_step es evs)"
  using assms
proof (induction evs arbitrary: es)
  case (Cons ev evs)
  thus ?case using admitted_kept_step by simp
qed simp

lemma live_entry_blocks_claim:
  assumes "e \<in> set es" "entry_ok e" "dedup_live now e"
  shows "claimDedup es (d_runtimeId e) (d_messageUid e) c now \<noteq> Inr (TClaimed k c' es')"
proof -
  have "list_ex (\<lambda>x. d_key x = dedupKey (d_runtimeId e) (d_messageUid e)) (pruneDedup es now)"
    using assms by (auto simp: list_ex_iff set_pruneDedup entry_ok_def)
  thus ?thesis by (simp add: claimDedup_def Let_def)
qed

end
