(* ===== verification/Conversation.thy ===== *)
theory Conversation imports Dedup begin

text \<open>
  Routing keys, \<^verbatim>\<open>router/conversation.ts\<close>.  A conversation is keyed by the printed array of its
  parts; group scope shares one key among all senders of a room.
\<close>

datatype conversation_type = Private | Group | Chatroom

fun conv_code :: "conversation_type \<Rightarrow> int" where
  "conv_code Private = 1"
| "conv_code Group = 3"
| "conv_code Chatroom = 4"

record conversation =
  c_runtimeId :: jstr
  c_nodeId :: jstr
  c_groupScope :: bool
  c_type :: conversation_type
  c_targetId :: jstr
  c_senderId :: jstr

definition bindingKey :: "jstr \<Rightarrow> jstr \<Rightarrow> jstr" where
  "bindingKey runtimeId nodeId = stringify (JArr [JStr runtimeId, JStr nodeId])"

definition interactiveSessionKey :: "jstr \<Rightarrow> jstr \<Rightarrow> jstr \<Rightarrow> jstr \<Rightarrow> jstr" where
  "interactiveSessionKey runtimeId nodeId conversationType targetId =
     stringify (JArr [JStr runtimeId, JStr nodeId, JStr conversationType, JStr targetId])"

definition conversationKey :: "conversation \<Rightarrow> jstr" where
  "conversationKey c =
     (if c_groupScope c \<and> c_type c \<noteq> Private
      then interactiveSessionKey (c_runtimeId c) (c_nodeId c)
             (if c_type c = Group then js ''group'' else js ''chatroom'') (c_targetId c)
      else stringify (JArr [JStr (c_runtimeId c), JStr (c_nodeId c), JInt (conv_code (c_type c)),
                            JStr (c_targetId c), JStr (c_senderId c)]))"

definition replyTargetId :: "conversation \<Rightarrow> jstr" where
  "replyTargetId c = (if c_type c = Private then c_senderId c else c_targetId c)"

lemma scalar_simps [simp]: "scalar (JStr s)" "scalar JNull" "scalar (JInt i) \<longleftrightarrow> \<bar>i\<bar> \<le> max_safe"
  by (simp_all add: scalar_def)

lemma conv_code_safe [simp]: "\<bar>conv_code t\<bar> \<le> max_safe"
  by (cases t) (simp_all add: max_safe_def)

lemma conv_code_inj [simp]: "conv_code t = conv_code u \<longleftrightarrow> t = u"
  by (cases t; cases u) simp_all

lemma bindingKey_inj: "bindingKey r n = bindingKey r' n' \<longleftrightarrow> r = r' \<and> n = n'"
  unfolding bindingKey_def by (subst stringify_scalars_inj) simp_all

lemma interactiveSessionKey_inj:
  "interactiveSessionKey r n t g = interactiveSessionKey r' n' t' g' \<longleftrightarrow> r = r' \<and> n = n' \<and> t = t' \<and> g = g'"
  unfolding interactiveSessionKey_def by (subst stringify_scalars_inj) simp_all

text \<open>Group scope applies.\<close>

definition shared_scope :: "conversation \<Rightarrow> bool" where
  "shared_scope c \<longleftrightarrow> c_groupScope c \<and> c_type c \<noteq> Private"

text \<open>Two conversations have the same key exactly when they are the same conversation: same scope,
  runtime, node, type and target, and the same sender unless the room is shared.\<close>

lemma conversationKey_eq_iff:
  "conversationKey a = conversationKey b \<longleftrightarrow>
     shared_scope a = shared_scope b \<and> c_runtimeId a = c_runtimeId b \<and> c_nodeId a = c_nodeId b
     \<and> c_type a = c_type b \<and> c_targetId a = c_targetId b
     \<and> (shared_scope a \<or> c_senderId a = c_senderId b)"
proof -
  have len: "stringify (JArr [JStr p, JStr q, JInt (conv_code t), JStr r, JStr s]) \<noteq>
      interactiveSessionKey r' n' t' g'" for p q t r s r' n' t' g'
    unfolding interactiveSessionKey_def by (subst stringify_scalars_inj) simp_all
  have five: "stringify (JArr [JStr p, JStr q, JInt (conv_code t), JStr r, JStr s]) =
      stringify (JArr [JStr p', JStr q', JInt (conv_code t'), JStr r', JStr s'])
      \<longleftrightarrow> p = p' \<and> q = q' \<and> t = t' \<and> r = r' \<and> s = s'" for p q t r s p' q' t' r' s'
    by (subst stringify_scalars_inj) simp_all
  have lab: "t \<noteq> Private \<Longrightarrow> u \<noteq> Private \<Longrightarrow>
      (if t = Group then js ''group'' else js ''chatroom'') = (if u = Group then js ''group'' else js ''chatroom'')
      \<longleftrightarrow> t = u" for t u
    by (cases t; cases u) simp_all
  show ?thesis
  proof (cases "shared_scope a"; cases "shared_scope b")
    assume "shared_scope a" "shared_scope b"
    thus ?thesis using lab unfolding conversationKey_def shared_scope_def
      by (simp add: interactiveSessionKey_inj)
  next
    assume "shared_scope a" "\<not> shared_scope b"
    thus ?thesis using len [symmetric] unfolding conversationKey_def shared_scope_def by auto
  next
    assume "\<not> shared_scope a" "shared_scope b"
    thus ?thesis using len unfolding conversationKey_def shared_scope_def by auto
  next
    assume "\<not> shared_scope a" "\<not> shared_scope b"
    thus ?thesis unfolding conversationKey_def shared_scope_def by (auto simp only: five if_False)
  qed
qed

end
