(* ===== verification/JsMap.thy ===== *)
theory JsMap imports Prelude "HOL-Library.AList" begin

text \<open>
  JavaScript's \<open>Map\<close>: keys in insertion order, \<open>set\<close> of a present key keeps its position.  The
  association lists of \<^verbatim>\<open>HOL-Library.AList\<close> behave in exactly this way.  The locale below is
  the interface the components that keep bounded, keyed tables rely on; it is interpreted on
  these maps.
\<close>

type_synonym ('k, 'v) jsmap = "('k \<times> 'v) list"

definition mget :: "('k, 'v) jsmap \<Rightarrow> 'k \<Rightarrow> 'v option" where
  "mget m k = map_of m k"

definition mhas :: "('k, 'v) jsmap \<Rightarrow> 'k \<Rightarrow> bool" where
  "mhas m k \<longleftrightarrow> map_of m k \<noteq> None"

definition mset_at :: "('k, 'v) jsmap \<Rightarrow> 'k \<Rightarrow> 'v \<Rightarrow> ('k, 'v) jsmap" where
  "mset_at m k v = AList.update k v m"

definition mdelete :: "('k, 'v) jsmap \<Rightarrow> 'k \<Rightarrow> ('k, 'v) jsmap" where
  "mdelete m k = AList.delete k m"

definition msize :: "('k, 'v) jsmap \<Rightarrow> nat" where
  "msize m = length m"

definition mwf :: "('k, 'v) jsmap \<Rightarrow> bool" where
  "mwf m \<longleftrightarrow> distinct (map fst m)"

text \<open>A loop that deletes the entries for which a test holds.\<close>

definition mdelete_where :: "('k \<Rightarrow> 'v \<Rightarrow> bool) \<Rightarrow> ('k, 'v) jsmap \<Rightarrow> ('k, 'v) jsmap" where
  "mdelete_where P m = filter (\<lambda>(k, v). \<not> P k v) m"

lemma mhas_iff: "mhas m k \<longleftrightarrow> mget m k \<noteq> None"
  by (simp add: mhas_def mget_def)

lemma mhas_fst: "mhas m k \<longleftrightarrow> k \<in> fst ` set m"
  by (auto simp: mhas_def map_of_eq_None_iff)

lemma mget_Nil [simp]: "mget [] k = None"
  by (simp add: mget_def)

lemma mwf_Nil [simp]: "mwf []"
  by (simp add: mwf_def)

lemma msize_Nil [simp]: "msize [] = 0"
  by (simp add: msize_def)

lemma mget_set_at: "mget (mset_at m k v) k' = (if k' = k then Some v else mget m k')"
  by (simp add: mget_def mset_at_def update_conv')

lemma mget_delete: "mget (mdelete m k) k' = (if k' = k then None else mget m k')"
  by (simp add: mget_def mdelete_def delete_conv')

lemma mwf_set_at: "mwf m \<Longrightarrow> mwf (mset_at m k v)"
  by (simp add: mwf_def mset_at_def distinct_update)

lemma mwf_delete: "mwf m \<Longrightarrow> mwf (mdelete m k)"
  by (simp add: mwf_def mdelete_def distinct_delete)

lemma mwf_delete_where: "mwf m \<Longrightarrow> mwf (mdelete_where P m)"
  by (simp add: mwf_def mdelete_where_def distinct_map_filter)

lemma mset_at_absent: "mget m k = None \<Longrightarrow> mset_at m k v = m @ [(k, v)]"
  by (induction m) (auto simp: mget_def mset_at_def split: if_splits)

lemma msize_set_at: "msize (mset_at m k v) = (if mget m k = None then Suc (msize m) else msize m)"
  by (induction m) (auto simp: mget_def mset_at_def msize_def split: if_splits)

lemma mdelete_absent: "mget m k = None \<Longrightarrow> mdelete m k = m"
  by (induction m) (auto simp: mget_def mdelete_def AList.delete_eq split: if_splits)

lemma msize_delete:
  assumes "mwf m" "mget m k \<noteq> None"
  shows "Suc (msize (mdelete m k)) = msize m"
  using assms
proof (induction m)
  case (Cons p m)
  show ?case
  proof (cases "fst p = k")
    case True
    hence "mget m k = None" using Cons.prems(1) by (auto simp: mwf_def mget_def map_of_eq_None_iff)
    hence "mdelete (p # m) k = m" using True mdelete_absent [of m k]
      by (cases p) (simp add: mdelete_def AList.delete_eq)
    thus ?thesis by (simp add: msize_def)
  next
    case False
    hence "mget m k \<noteq> None" "mwf m" using Cons.prems by (auto simp: mget_def mwf_def)
    with Cons.IH False show ?thesis by (cases p) (simp add: mdelete_def msize_def AList.delete_eq)
  qed
qed simp

lemma msize_delete_le: "msize (mdelete m k) \<le> msize m"
  by (simp add: msize_def mdelete_def length_delete_le)

lemma msize_delete_where: "msize (mdelete_where P m) \<le> msize m"
  by (simp add: msize_def mdelete_where_def)

lemma mget_in: "mwf m \<Longrightarrow> (k, v) \<in> set m \<longleftrightarrow> mget m k = Some v"
  by (simp add: mget_def mwf_def)

lemma mget_delete_where:
  assumes "mwf m"
  shows "mget (mdelete_where P m) k
    = (case mget m k of None \<Rightarrow> None | Some v \<Rightarrow> if P k v then None else Some v)"
proof -
  have w: "mwf (mdelete_where P m)" using assms by (rule mwf_delete_where)
  have "(k, v) \<in> set (mdelete_where P m) \<longleftrightarrow> mget m k = Some v \<and> \<not> P k v" for v
    using mget_in [OF assms] by (auto simp: mdelete_where_def)
  hence iff: "mget (mdelete_where P m) k = Some v \<longleftrightarrow> mget m k = Some v \<and> \<not> P k v" for v
    using mget_in [OF w] by simp
  show ?thesis
  proof (cases "mget m k")
    case None
    hence "mget (mdelete_where P m) k = None" using iff by (metis not_None_eq option.distinct(1))
    thus ?thesis using None by simp
  next
    case (Some v)
    show ?thesis
    proof (cases "P k v")
      case True
      hence "mget (mdelete_where P m) k = None" using iff Some by (metis not_None_eq option.inject)
      thus ?thesis using Some True by simp
    next
      case False
      hence "mget (mdelete_where P m) k = Some v" using iff Some by simp
      thus ?thesis using Some False by simp
    qed
  qed
qed

lemma set_mset_at: "p \<in> set (mset_at m k v) \<Longrightarrow> p = (k, v) \<or> p \<in> set m"
  unfolding mset_at_def by (induction m) (auto split: if_splits)

lemma set_mdelete: "p \<in> set (mdelete m k) \<longleftrightarrow> p \<in> set m \<and> fst p \<noteq> k"
  by (auto simp: mdelete_def AList.delete_eq)

subsection \<open>The interface of a keyed table\<close>

locale keyed_table =
  fixes lookup :: "'m \<Rightarrow> 'k \<Rightarrow> 'v option"
    and store :: "'m \<Rightarrow> 'k \<Rightarrow> 'v \<Rightarrow> 'm"
    and remove :: "'m \<Rightarrow> 'k \<Rightarrow> 'm"
    and count :: "'m \<Rightarrow> nat"
    and good :: "'m \<Rightarrow> bool"
  assumes lookup_store: "good m \<Longrightarrow> lookup (store m k v) k' = (if k' = k then Some v else lookup m k')"
    and lookup_remove: "good m \<Longrightarrow> lookup (remove m k) k' = (if k' = k then None else lookup m k')"
    and good_store: "good m \<Longrightarrow> good (store m k v)"
    and good_remove: "good m \<Longrightarrow> good (remove m k)"
    and count_store: "good m \<Longrightarrow> count (store m k v) = (if lookup m k = None then Suc (count m) else count m)"
    and count_remove: "good m \<Longrightarrow> lookup m k \<noteq> None \<Longrightarrow> Suc (count (remove m k)) = count m"
    and remove_absent: "good m \<Longrightarrow> lookup m k = None \<Longrightarrow> remove m k = m"
begin

text \<open>The two ways the components keep a table within its capacity: refuse, or evict first.\<close>

lemma kt_insert_bounded: "good m \<Longrightarrow> count m < n \<Longrightarrow> count (store m k v) \<le> n"
  by (simp add: count_store)

lemma kt_overwrite_bounded: "good m \<Longrightarrow> count m \<le> n \<Longrightarrow> lookup m k \<noteq> None \<Longrightarrow> count (store m k v) \<le> n"
  by (auto simp: count_store)

lemma kt_evict_bounded:
  assumes "good m" "count m \<le> n" "lookup m old \<noteq> None" "lookup m k = None"
  shows "count (store (remove m old) k v) \<le> n"
proof -
  have "good (remove m old)" using assms(1) by (rule good_remove)
  moreover have "lookup (remove m old) k = None" using assms by (simp add: lookup_remove)
  ultimately have "count (store (remove m old) k v) = Suc (count (remove m old))"
    by (simp add: count_store)
  also have "\<dots> = count m" using assms(1,3) by (rule count_remove)
  finally show ?thesis using assms(2) by simp
qed

lemma kt_remove_bounded: "good m \<Longrightarrow> count m \<le> n \<Longrightarrow> count (remove m k) \<le> n"
  by (cases "lookup m k = None") (use count_remove [of m k] in \<open>simp_all add: remove_absent\<close>)

text \<open>One-time use: what is removed is gone until it is stored again.\<close>

lemma kt_take_once: "good m \<Longrightarrow> lookup (remove m k) k = None"
  by (simp add: lookup_remove)

lemma kt_store_remove:
  assumes "good m" "lookup m k = None"
  shows "lookup (remove (store m k v) k) k' = lookup m k'"
  using assms by (simp add: lookup_remove lookup_store good_store)

end

interpretation jm: keyed_table mget mset_at mdelete msize mwf
  by unfold_locales (simp_all add: mget_set_at mget_delete mwf_set_at mwf_delete msize_set_at
      msize_delete mdelete_absent)

end
