(* ===== verification/SessionStore.thy ===== *)
theory SessionStore imports Conversation JsMap begin

text \<open>
  The persistent routing state of one installation, \<^verbatim>\<open>router/session-store.ts\<close>: which agent
  sessions each conversation knows, the deduplication claims, and the interactive (discussion)
  requests.  Every mutation works on a copy, revalidates the whole copy, writes it to disk and only
  then replaces the state in memory; the promise chain runs the operations one after another, so
  each is a single step here.  The clock and the outcome of the file write are inputs of a step.
\<close>

definition MAX_STATE_BYTES :: nat where
  "MAX_STATE_BYTES = 8 * 1024 * 1024"

definition MAX_SESSIONS_PER_RUNTIME :: nat where
  "MAX_SESSIONS_PER_RUNTIME = 512"

definition MAX_SESSIONS :: nat where
  "MAX_SESSIONS = 2048"

definition MAX_KNOWN_SESSIONS :: nat where
  "MAX_KNOWN_SESSIONS = 32"

definition MAX_INTERACTIVE :: nat where
  "MAX_INTERACTIVE = 2048"

record known_session =
  k_sessionId :: jstr
  k_updatedAt :: int

record session_entry =
  s_groupScope :: bool
  s_conversationKey :: jstr
  s_bindingKey :: jstr
  s_runtimeId :: jstr
  s_nodeId :: jstr
  s_type :: conversation_type
  s_targetId :: jstr
  s_senderId :: jstr
  s_current :: "jstr option"
  s_known :: "known_session list"
  s_updatedAt :: int

datatype request_status = Reserved | Running | CancelPending | Terminal | Unconfirmed

datatype cancel_result = CrCancelled | CrAlreadyTerminal | CrNotStarted | CrFailed

record interactive_request =
  r_key :: jstr
  r_sessionKey :: jstr
  r_runtimeId :: jstr
  r_nodeId :: jstr
  r_senderId :: jstr
  r_memberId :: jstr
  r_discussionId :: jstr
  r_chatroomId :: jstr
  r_requestId :: jstr
  r_taskId :: jstr
  r_instanceId :: jstr
  r_stateVersion :: int
  r_round :: int
  r_roundRevision :: int
  r_expiresAt :: int
  r_fingerprint :: jstr
  r_status :: request_status
  r_cancelResult :: "cancel_result option"
  r_response :: "jobj option"

record interactive_head =
  h_key :: jstr
  h_stateVersion :: int
  h_round :: int
  h_roundRevision :: int

record router_state =
  sessions :: "session_entry list"
  dedup :: "dedup_entry list"
  interactiveRequests :: "interactive_request list"
  interactiveSessions :: "(jstr, jstr) jsmap"
  interactiveHeads :: "(jstr, interactive_head) jsmap"
  interactiveRooms :: "(jstr, jstr) jsmap"

datatype router_error = RouterStateInvalid | SessionConflict | DedupCapacity | SchemaError

definition emptyState :: router_state where
  "emptyState = \<lparr>sessions = [], dedup = [], interactiveRequests = [], interactiveSessions = [],
     interactiveHeads = [], interactiveRooms = []\<rparr>"

subsection \<open>Schemas\<close>

definition knownSessionSchema :: "known_session \<Rightarrow> bool" where
  "knownSessionSchema k \<longleftrightarrow> identifier_ok 4096 (k_sessionId k) \<and> timestamp_ok (k_updatedAt k)"

definition sessionSchema :: "session_entry \<Rightarrow> bool" where
  "sessionSchema e \<longleftrightarrow> identifier_ok 16384 (s_conversationKey e) \<and> identifier_ok 8192 (s_bindingKey e)
     \<and> runtime_id_ok (s_runtimeId e) \<and> identifier_ok 137 (s_nodeId e)
     \<and> identifier_ok 256 (s_targetId e) \<and> identifier_ok 256 (s_senderId e)
     \<and> (case s_current e of None \<Rightarrow> True | Some c \<Rightarrow> identifier_ok 4096 c)
     \<and> list_all knownSessionSchema (s_known e) \<and> length (s_known e) \<le> MAX_KNOWN_SESSIONS
     \<and> timestamp_ok (s_updatedAt e)"

definition interactiveRequestSchema :: "interactive_request \<Rightarrow> bool" where
  "interactiveRequestSchema r \<longleftrightarrow> identifier_ok 16384 (r_key r) \<and> identifier_ok 16384 (r_sessionKey r)
     \<and> runtime_id_ok (r_runtimeId r) \<and> identifier_ok 137 (r_nodeId r)
     \<and> identifier_ok 256 (r_senderId r) \<and> identifier_ok 256 (r_memberId r)
     \<and> identifier_ok 256 (r_discussionId r) \<and> identifier_ok 256 (r_chatroomId r)
     \<and> identifier_ok 256 (r_requestId r) \<and> identifier_ok 128 (r_taskId r)
     \<and> identifier_ok 128 (r_instanceId r)
     \<and> timestamp_ok (r_stateVersion r) \<and> timestamp_ok (r_round r)
     \<and> timestamp_ok (r_roundRevision r) \<and> timestamp_ok (r_expiresAt r)
     \<and> length (r_fingerprint r) \<le> 64"

definition headSchema :: "interactive_head \<Rightarrow> bool" where
  "headSchema h \<longleftrightarrow> identifier_ok 16384 (h_key h) \<and> timestamp_ok (h_stateVersion h)
     \<and> timestamp_ok (h_round h) \<and> timestamp_ok (h_roundRevision h)"

definition routerStateSchema :: "router_state \<Rightarrow> bool" where
  "routerStateSchema st \<longleftrightarrow>
     list_all sessionSchema (sessions st) \<and> length (sessions st) \<le> MAX_SESSIONS
     \<and> list_all DedupEntrySchema (dedup st) \<and> length (dedup st) \<le> MAX_DEDUP_ENTRIES
     \<and> list_all interactiveRequestSchema (interactiveRequests st)
     \<and> length (interactiveRequests st) \<le> MAX_INTERACTIVE
     \<and> list_all (\<lambda>(k, v). identifier_ok 4096 v) (interactiveSessions st)
     \<and> length (interactiveSessions st) \<le> MAX_INTERACTIVE
     \<and> list_all (\<lambda>(k, v). headSchema v) (interactiveHeads st)
     \<and> length (interactiveHeads st) \<le> MAX_INTERACTIVE
     \<and> list_all (\<lambda>(k, v). identifier_ok 256 v) (interactiveRooms st)
     \<and> length (interactiveRooms st) \<le> MAX_INTERACTIVE"

subsection \<open>Validation\<close>

definition entry_identity :: "session_entry \<Rightarrow> conversation" where
  "entry_identity e = \<lparr>c_runtimeId = s_runtimeId e, c_nodeId = s_nodeId e, c_groupScope = s_groupScope e,
     c_type = s_type e, c_targetId = s_targetId e, c_senderId = s_senderId e\<rparr>"

definition validIdentity :: "conversation \<Rightarrow> bool" where
  "validIdentity c \<longleftrightarrow> runtime_id_ok (c_runtimeId c) \<and> identifier_ok 137 (c_nodeId c)
     \<and> identifier_ok 256 (c_targetId c) \<and> identifier_ok 256 (c_senderId c)"

definition is_hex_run :: "jstr \<Rightarrow> bool" where
  "is_hex_run s \<longleftrightarrow> s \<noteq> [] \<and> list_all is_hex s"

text \<open>\<open>/^task_[0-9a-f]+_[0-9a-f]+$/\<close>\<close>

definition task_id_ok :: "jstr \<Rightarrow> bool" where
  "task_id_ok s \<longleftrightarrow> starts_with (js ''task_'') s \<and>
     (case split_on 95 (drop 5 s) of [a, b] \<Rightarrow> is_hex_run a \<and> is_hex_run b | _ \<Rightarrow> False)"

definition request_ok :: "interactive_request \<Rightarrow> bool" where
  "request_ok r \<longleftrightarrow>
     r_key r = stringify (JArr [JStr (r_runtimeId r), JStr (r_nodeId r), JStr (r_senderId r),
                               JStr (r_discussionId r), JStr (r_requestId r)])
     \<and> r_sessionKey r = interactiveSessionKey (r_runtimeId r) (r_nodeId r) (js ''discussion'') (r_discussionId r)
     \<and> task_id_ok (r_taskId r) \<and> prefixed_hex ''br_'' 32 (r_instanceId r)
     \<and> (r_fingerprint r = [] \<or> hex_exact 64 (r_fingerprint r))"

text \<open>
  The owner of an interactive session, read back from its key: an array of four strings.  A numeral
  in the text makes the array invalid whatever number it denotes, so its reading is immaterial here.
\<close>

definition parseInteractiveSessionOwner :: "jstr \<Rightarrow> (jstr \<times> jstr \<times> jstr) option" where
  "parseInteractiveSessionOwner key =
     (case json_parse (\<lambda>_. NInt 0) key of
        Some (JArr [JStr r, JStr n, JStr d, JStr g]) \<Rightarrow>
          (if runtime_id_ok r \<and> identifier_ok 137 n \<and> d = js ''discussion'' \<and> identifier_ok 256 g
              \<and> stringify (JArr [JStr r, JStr n, JStr d, JStr g]) = key
           then Some (r, n, g) else None)
      | _ \<Rightarrow> None)"

definition known_ids :: "session_entry \<Rightarrow> jstr list" where
  "known_ids e = map k_sessionId (s_known e)"

definition session_ok :: "session_entry \<Rightarrow> bool" where
  "session_ok e \<longleftrightarrow> validIdentity (entry_identity e)
     \<and> s_conversationKey e = conversationKey (entry_identity e)
     \<and> s_bindingKey e = bindingKey (s_runtimeId e) (s_nodeId e)
     \<and> distinct (known_ids e) \<and> sorted (map k_updatedAt (s_known e))
     \<and> (case s_current e of None \<Rightarrow> True | Some c \<Rightarrow> c \<in> set (known_ids e))"

text \<open>The (runtime, session) pairs that are owned, in the order they are visited.\<close>

definition session_owners :: "router_state \<Rightarrow> (jstr \<times> jstr) list" where
  "session_owners st = concat (map (\<lambda>e. map (Pair (s_runtimeId e)) (known_ids e)) (sessions st))"

definition interactive_owners :: "router_state \<Rightarrow> (jstr \<times> jstr) option list" where
  "interactive_owners st =
     map (\<lambda>(k, sid). map_option (\<lambda>(r, n, g). (r, sid)) (parseInteractiveSessionOwner k))
       (interactiveSessions st)"

definition dedup_entry_valid :: "dedup_entry \<Rightarrow> bool" where
  "dedup_entry_valid e \<longleftrightarrow> d_key e = dedupKey (d_runtimeId e) (d_messageUid e)
     \<and> (case d_state e of
          Claimed \<Rightarrow> d_admittedAt e = None
        | Admitted \<Rightarrow> (case d_admittedAt e of None \<Rightarrow> False | Some t \<Rightarrow> d_claimedAt e \<le> t))"

definition count_by :: "('a \<Rightarrow> jstr) \<Rightarrow> jstr \<Rightarrow> 'a list \<Rightarrow> nat" where
  "count_by f r xs = length (filter (\<lambda>x. f x = r) xs)"

definition validState :: "router_state \<Rightarrow> bool" where
  "validState st \<longleftrightarrow> routerStateSchema st
     \<and> list_all request_ok (interactiveRequests st)
     \<and> distinct (map r_key (interactiveRequests st)) \<and> distinct (map r_taskId (interactiveRequests st))
     \<and> list_all (\<lambda>e. count_by s_runtimeId (s_runtimeId e) (sessions st) \<le> MAX_SESSIONS_PER_RUNTIME) (sessions st)
     \<and> list_all (\<lambda>e. count_by d_runtimeId (d_runtimeId e) (dedup st) \<le> MAX_DEDUP_PER_RUNTIME) (dedup st)
     \<and> list_all session_ok (sessions st) \<and> distinct (map s_conversationKey (sessions st))
     \<and> None \<notin> set (interactive_owners st)
     \<and> distinct (map Some (session_owners st) @ interactive_owners st)
     \<and> list_all dedup_entry_valid (dedup st) \<and> distinct (map d_key (dedup st))"

definition validateState :: "router_state \<Rightarrow> (router_error, router_state) result" where
  "validateState st = (if validState st then Inr st else Inl RouterStateInvalid)"

end
