(* ===== verification/AtomicJson.thy ===== *)
theory AtomicJson imports JsonParse JsMap begin

text \<open>
  Reading and replacing state files, \<^verbatim>\<open>config/atomic-json.ts\<close>.  A directory is a map from names
  to contents; every call of the file system may fail, and what each call does is an input
  (\<open>write_env\<close>).  A failed call reports an error code, a failed write may have left any prefix.
\<close>

type_synonym dir = "(jstr, bytes) jsmap"

datatype fs_error = EACCES | EPERM | EINVAL | ENOTSUP | EISDIR | ENOENT | EOther

datatype platform = Win32 | Posix

datatype atomic_json_error =
    FileMissing
  | FileEmpty
  | FileTooLarge
  | InvalidJson
  | SchemaInvalid
  | AtomicWriteFailed
  | QuarantineFailed

subsection \<open>Printing with two spaces of indentation\<close>

definition newline_indent :: "nat \<Rightarrow> jstr" where
  "newline_indent n = 10 # replicate (2 * n) 32"

fun join_with :: "jstr \<Rightarrow> jstr list \<Rightarrow> jstr" where
  "join_with sep [] = []"
| "join_with sep [x] = x"
| "join_with sep (x # y # r) = x @ sep @ join_with sep (y # r)"

definition pretty_block :: "nat \<Rightarrow> code_unit \<Rightarrow> code_unit \<Rightarrow> jstr list \<Rightarrow> jstr" where
  "pretty_block n lo hi items =
     (if items = [] then [lo, hi]
      else lo # newline_indent (Suc n) @ join_with (44 # newline_indent (Suc n)) items
           @ newline_indent n @ [hi])"

primrec pretty :: "json \<Rightarrow> nat \<Rightarrow> jstr"
  and pretty_all :: "json list \<Rightarrow> nat \<Rightarrow> jstr list"
  and pretty_props :: "(jstr \<times> json) list \<Rightarrow> nat \<Rightarrow> jstr list"
  and pretty_prop :: "jstr \<times> json \<Rightarrow> nat \<Rightarrow> jstr" where
  "pretty JNull n = js ''null''"
| "pretty (JBool b) n = (if b then js ''true'' else js ''false'')"
| "pretty (JNum x) n = num_text x"
| "pretty (JStr s) n = quote s"
| "pretty (JArr xs) n = pretty_block n 91 93 (pretty_all xs (Suc n))"
| "pretty (JObj kvs) n = pretty_block n 123 125 (pretty_props kvs (Suc n))"
| "pretty_all [] n = []"
| "pretty_all (x # xs) n = pretty x n # pretty_all xs n"
| "pretty_props [] n = []"
| "pretty_props (p # ps) n = pretty_prop p n # pretty_props ps n"
| "pretty_prop (k, v) n = quote k @ [58, 32] @ pretty v n"

definition serialized :: "json \<Rightarrow> jstr" where
  "serialized v = pretty v 0 @ [10]"

subsection \<open>Reading\<close>

datatype read_event = ReadBytes bytes | ReadError

text \<open>The loop that fills the buffer: it stops at the first empty read or when the buffer is full.\<close>

fun read_loop :: "nat \<Rightarrow> bytes \<Rightarrow> read_event list \<Rightarrow> bytes option" where
  "read_loop cap acc [] = Some acc"
| "read_loop cap acc (ev # evs) =
     (if length acc \<ge> cap then Some acc
      else case ev of
        ReadError \<Rightarrow> None
      | ReadBytes [] \<Rightarrow> Some acc
      | ReadBytes bs \<Rightarrow> read_loop cap (acc @ take (cap - length acc) bs) evs)"

text \<open>What opening the file gives: an error, or its size as \<open>stat\<close> reports it and the reads.\<close>

datatype open_result = OpenError fs_error | StatError | Opened nat "read_event list"

definition readJsonFile ::
  "(jstr \<Rightarrow> jnum) \<Rightarrow> (json \<Rightarrow> 'a option) \<Rightarrow> nat \<Rightarrow> open_result \<Rightarrow> (atomic_json_error, 'a) result" where
  "readJsonFile cv schema maximumBytes opened =
     (case opened of
        OpenError e \<Rightarrow> Inl (if e = ENOENT then FileMissing else InvalidJson)
      | StatError \<Rightarrow> Inl InvalidJson
      | Opened sz reads \<Rightarrow>
          if sz > maximumBytes then Inl FileTooLarge
          else case read_loop (maximumBytes + 1) [] reads of
            None \<Rightarrow> Inl InvalidJson
          | Some bytes \<Rightarrow>
              if length bytes > maximumBytes then Inl FileTooLarge
              else if bytes = [] then Inl FileEmpty
              else case json_parse cv (utf8_decode bytes) of
                None \<Rightarrow> Inl InvalidJson
              | Some value \<Rightarrow>
                  (case schema value of None \<Rightarrow> Inl SchemaInvalid | Some a \<Rightarrow> Inr a))"

definition readJsonFileIfExists ::
  "(jstr \<Rightarrow> jnum) \<Rightarrow> (json \<Rightarrow> 'a option) \<Rightarrow> nat \<Rightarrow> open_result \<Rightarrow> (atomic_json_error, 'a option) result" where
  "readJsonFileIfExists cv schema maximumBytes opened =
     (case readJsonFile cv schema maximumBytes opened of
        Inr a \<Rightarrow> Inr (Some a)
      | Inl FileMissing \<Rightarrow> Inr None
      | Inl e \<Rightarrow> Inl e)"

subsection \<open>Replacing a file\<close>

record write_env =
  e_platform :: platform
  e_randomHex :: jstr
  e_mkdir :: "fs_error option"
  e_chmod :: "fs_error option"
  e_open :: "fs_error option"
  e_write :: "nat option"
  e_sync :: "fs_error option"
  e_close :: "fs_error option"
  e_rename :: "fs_error option list"
  e_syncDirectory :: "fs_error option"
  e_unlink :: "fs_error option"

definition temp_name :: "jstr \<Rightarrow> jstr \<Rightarrow> jstr" where
  "temp_name base hex = base @ js ''.tmp.'' @ hex"

definition retryable :: "fs_error \<Rightarrow> bool" where
  "retryable e \<longleftrightarrow> e = EACCES \<or> e = EPERM"

text \<open>\<open>atomicRename\<close>: what the attempts give, in order; an attempt not listed succeeds.\<close>

fun rename_attempts :: "nat \<Rightarrow> fs_error option list \<Rightarrow> bool" where
  "rename_attempts 0 outs = False"
| "rename_attempts (Suc n) [] = True"
| "rename_attempts (Suc n) (None # outs) = True"
| "rename_attempts (Suc n) (Some e # outs) = (retryable e \<and> rename_attempts n outs)"

definition atomicRename :: "platform \<Rightarrow> fs_error option list \<Rightarrow> bool" where
  "atomicRename p outs = rename_attempts (if p = Win32 then 3 else 1) outs"

definition unsupportedDirectorySync :: "fs_error \<Rightarrow> platform \<Rightarrow> bool" where
  "unsupportedDirectorySync e p \<longleftrightarrow> e = EINVAL \<or> e = ENOTSUP \<or> e = EISDIR \<or> (p = Win32 \<and> e = EPERM)"

definition syncDirectory :: "platform \<Rightarrow> fs_error option \<Rightarrow> bool" where
  "syncDirectory p out = (case out of None \<Rightarrow> True | Some e \<Rightarrow> unsupportedDirectorySync e p)"

definition drop_temp :: "write_env \<Rightarrow> jstr \<Rightarrow> dir \<Rightarrow> dir" where
  "drop_temp env tmp d = (if e_unlink env = None then mdelete d tmp else d)"

text \<open>
  \<open>open(temporary, 'wx')\<close> fails when the name exists.  The result tells whether the call returned
  and gives the directory afterwards; the first failure jumps to the clean-up.
\<close>

definition atomicWriteJson :: "write_env \<Rightarrow> dir \<Rightarrow> jstr \<Rightarrow> json \<Rightarrow> (atomic_json_error, unit) result \<times> dir" where
  "atomicWriteJson env d base value =
     (let tmp = temp_name base (e_randomHex env);
          content = utf8_encode (serialized value)
      in if e_mkdir env \<noteq> None then (Inl AtomicWriteFailed, d)
         else if e_platform env \<noteq> Win32 \<and> e_chmod env \<noteq> None then (Inl AtomicWriteFailed, d)
         else if e_open env \<noteq> None \<or> mhas d tmp then (Inl AtomicWriteFailed, d)
         else case e_write env of
           Some n \<Rightarrow> (Inl AtomicWriteFailed, drop_temp env tmp (mset_at d tmp (take n content)))
         | None \<Rightarrow>
             let d1 = mset_at d tmp content
             in if e_sync env \<noteq> None \<or> e_close env \<noteq> None then (Inl AtomicWriteFailed, drop_temp env tmp d1)
                else if \<not> atomicRename (e_platform env) (e_rename env)
                  then (Inl AtomicWriteFailed, drop_temp env tmp d1)
                else let d2 = mset_at (mdelete d1 tmp) base content
                     in if syncDirectory (e_platform env) (e_syncDirectory env) then (Inr (), d2)
                        else (Inl AtomicWriteFailed, d2))"

subsection \<open>Recovery artifacts\<close>

definition corrupt_prefix :: "jstr \<Rightarrow> jstr" where
  "corrupt_prefix base = base @ js ''.corrupt.''"

definition recovered_prefix :: "jstr \<Rightarrow> jstr" where
  "recovered_prefix base = base @ js ''.recovered.''"

text \<open>\<open>rename\<close> replaces the target.\<close>

definition fs_rename :: "dir \<Rightarrow> jstr \<Rightarrow> jstr \<Rightarrow> dir" where
  "fs_rename d from to =
     (case mget d from of None \<Rightarrow> d | Some c \<Rightarrow> mset_at (mdelete d from) to c)"

definition quarantineJsonFile ::
  "platform \<Rightarrow> fs_error option \<Rightarrow> fs_error option \<Rightarrow> fs_error option \<Rightarrow> jstr \<Rightarrow> jstr \<Rightarrow> dir \<Rightarrow> jstr
    \<Rightarrow> (atomic_json_error, jstr) result \<times> dir" where
  "quarantineJsonFile p ren chm syn stamp hex d base =
     (let quarantined = corrupt_prefix base @ stamp @ js ''.'' @ hex
      in if ren \<noteq> None \<or> \<not> mhas d base then (Inl QuarantineFailed, d)
         else let d1 = fs_rename d base quarantined
              in if p \<noteq> Win32 \<and> chm \<noteq> None then (Inl QuarantineFailed, d1)
                 else if \<not> syncDirectory p syn then (Inl QuarantineFailed, d1)
                 else (Inr quarantined, d1))"

definition recoveryArtifacts :: "dir \<Rightarrow> jstr \<Rightarrow> jstr list" where
  "recoveryArtifacts d base =
     filter (\<lambda>entry. starts_with (corrupt_prefix base) entry
       \<and> length entry > length (corrupt_prefix base)) (map fst d)"

definition hasRecoveryArtifact :: "dir \<Rightarrow> jstr \<Rightarrow> bool" where
  "hasRecoveryArtifact d base \<longleftrightarrow> length (recoveryArtifacts d base) > 0"

definition recovered_name :: "jstr \<Rightarrow> jstr \<Rightarrow> jstr" where
  "recovered_name base artifact = recovered_prefix base @ drop (length (corrupt_prefix base)) artifact"

text \<open>The renames may fail at any point (\<open>outs\<close>, one per artifact); those done stay done.\<close>

fun recover_loop :: "jstr \<Rightarrow> fs_error option list \<Rightarrow> jstr list \<Rightarrow> dir \<Rightarrow> bool \<times> dir" where
  "recover_loop base outs [] d = (True, d)"
| "recover_loop base (Some e # outs) (a # as) d = (False, d)"
| "recover_loop base (None # outs) (a # as) d = recover_loop base outs as (fs_rename d a (recovered_name base a))"
| "recover_loop base [] (a # as) d = recover_loop base [] as (fs_rename d a (recovered_name base a))"

definition clearRecoveryArtifacts ::
  "platform \<Rightarrow> fs_error option list \<Rightarrow> fs_error option \<Rightarrow> dir \<Rightarrow> jstr \<Rightarrow> (atomic_json_error, unit) result \<times> dir" where
  "clearRecoveryArtifacts p outs syn d base =
     (let artifacts = recoveryArtifacts d base;
          (ok, d1) = recover_loop base outs artifacts d
      in if \<not> ok then (Inl QuarantineFailed, d1)
         else if artifacts \<noteq> [] \<and> \<not> syncDirectory p syn then (Inl QuarantineFailed, d1)
         else (Inr (), d1))"

subsection \<open>Lemmas\<close>

lemma temp_name_neq [simp]: "temp_name base hex \<noteq> base" "base \<noteq> temp_name base hex"
  by (auto simp: temp_name_def js_def)

lemma mget_drop_temp: "k \<noteq> tmp \<Longrightarrow> mget (drop_temp env tmp d) k = mget d k"
  by (simp add: drop_temp_def mget_delete)

lemmas write_simps = atomicWriteJson_def Let_def mget_drop_temp mget_set_at mget_delete

lemma write_ok_target:
  "atomicWriteJson env d base v = (Inr (), d') \<Longrightarrow> mget d' base = Some (utf8_encode (serialized v))"
  by (auto simp: write_simps split: if_splits option.splits)

lemma write_target_cases:
  "mget (snd (atomicWriteJson env d base v)) base \<in> {mget d base, Some (utf8_encode (serialized v))}"
  by (auto simp: write_simps split: option.split)

lemma write_others:
  "k \<noteq> base \<Longrightarrow> k \<noteq> temp_name base (e_randomHex env) \<Longrightarrow>
   mget (snd (atomicWriteJson env d base v)) k = mget d k"
  by (auto simp: write_simps split: option.split)

lemma write_temp_gone:
  assumes "mget d (temp_name base (e_randomHex env)) = None" "e_unlink env = None"
  shows "mget (snd (atomicWriteJson env d base v)) (temp_name base (e_randomHex env)) = None"
  using assms by (auto simp: write_simps drop_temp_def split: option.split)

lemma rename_attempts_mono: "rename_attempts n outs \<Longrightarrow> rename_attempts (Suc n) outs"
  by (induction n outs rule: rename_attempts.induct) auto

text \<open>What a write leaves to its caller: it succeeded, or it failed with or without the new content in place.\<close>

datatype write_outcome = Written | NotReplaced | ReplacedUnsynced

definition outcome_of :: "write_env \<Rightarrow> dir \<Rightarrow> jstr \<Rightarrow> json \<Rightarrow> write_outcome" where
  "outcome_of env d base v =
     (case atomicWriteJson env d base v of
        (Inr _, _) \<Rightarrow> Written
      | (Inl _, d') \<Rightarrow> if mget d' base = Some (utf8_encode (serialized v)) then ReplacedUnsynced else NotReplaced)"

lemma outcome_target:
  "mget (snd (atomicWriteJson env d base v)) base =
     (if outcome_of env d base v = NotReplaced then mget d base else Some (utf8_encode (serialized v)))"
  using write_target_cases [of env d base v] write_ok_target [of env d base v]
  by (cases "atomicWriteJson env d base v") (auto simp: outcome_of_def split: sum.splits if_splits)

end
