(* ===== verification/RouterStore.thy ===== *)
theory RouterStore imports SessionStore AtomicJson begin

text \<open>
  The operations of the routing store, \<^verbatim>\<open>router/session-store.ts\<close> (the schemas and the
  validation are in \<open>SessionStore\<close>).  An operation is a transition on a copy of the state;
  \<open>mutate\<close> prunes, applies it, validates the copy, writes it and only then installs it.
\<close>

subsection \<open>The state as JSON\<close>

definition opt_prop :: "string \<Rightarrow> ('a \<Rightarrow> json) \<Rightarrow> 'a option \<Rightarrow> jobj" where
  "opt_prop k f x = (case x of None \<Rightarrow> [] | Some a \<Rightarrow> [(js k, f a)])"

definition known_json :: "known_session \<Rightarrow> json" where
  "known_json k = JObj [(js ''sessionId'', JStr (k_sessionId k)), (js ''updatedAt'', JInt (k_updatedAt k))]"

definition session_json :: "session_entry \<Rightarrow> json" where
  "session_json e = JObj ((if s_groupScope e then [(js ''sessionScope'', JLit ''group'')] else []) @
     [(js ''conversationKey'', JStr (s_conversationKey e)), (js ''bindingKey'', JStr (s_bindingKey e)),
      (js ''runtimeId'', JStr (s_runtimeId e)), (js ''nodeId'', JStr (s_nodeId e)),
      (js ''conversationType'', JInt (conv_code (s_type e))), (js ''targetId'', JStr (s_targetId e)),
      (js ''senderId'', JStr (s_senderId e))] @
     opt_prop ''currentSessionId'' JStr (s_current e) @
     [(js ''knownSessions'', JArr (map known_json (s_known e))), (js ''updatedAt'', JInt (s_updatedAt e))])"

definition dedup_json :: "dedup_entry \<Rightarrow> json" where
  "dedup_json e = JObj ([(js ''key'', JStr (d_key e)), (js ''runtimeId'', JStr (d_runtimeId e)),
      (js ''messageUid'', JStr (d_messageUid e)), (js ''claimId'', JStr (d_claimId e)),
      (js ''state'', (case d_state e of Claimed \<Rightarrow> JLit ''claimed'' | Admitted \<Rightarrow> JLit ''admitted'')),
      (js ''claimedAt'', JInt (d_claimedAt e))] @ opt_prop ''admittedAt'' JInt (d_admittedAt e))"

fun status_text :: "request_status \<Rightarrow> string" where
  "status_text Reserved = ''reserved''"
| "status_text Running = ''running''"
| "status_text CancelPending = ''cancel_pending''"
| "status_text Terminal = ''terminal''"
| "status_text Unconfirmed = ''unconfirmed''"

fun cancel_text :: "cancel_result \<Rightarrow> string" where
  "cancel_text CrCancelled = ''cancelled''"
| "cancel_text CrAlreadyTerminal = ''already_terminal''"
| "cancel_text CrNotStarted = ''not_started''"
| "cancel_text CrFailed = ''failed''"

definition request_json :: "interactive_request \<Rightarrow> json" where
  "request_json r = JObj ([(js ''key'', JStr (r_key r)), (js ''sessionKey'', JStr (r_sessionKey r)),
      (js ''runtimeId'', JStr (r_runtimeId r)), (js ''nodeId'', JStr (r_nodeId r)),
      (js ''senderId'', JStr (r_senderId r)), (js ''memberId'', JStr (r_memberId r)),
      (js ''discussionId'', JStr (r_discussionId r)), (js ''chatroomId'', JStr (r_chatroomId r)),
      (js ''requestId'', JStr (r_requestId r)), (js ''taskId'', JStr (r_taskId r)),
      (js ''instanceId'', JStr (r_instanceId r)), (js ''stateVersion'', JInt (r_stateVersion r)),
      (js ''round'', JInt (r_round r)), (js ''roundRevision'', JInt (r_roundRevision r)),
      (js ''expiresAt'', JInt (r_expiresAt r)), (js ''fingerprint'', JStr (r_fingerprint r)),
      (js ''status'', JLit (status_text (r_status r)))] @
     opt_prop ''cancelResult'' (\<lambda>c. JLit (cancel_text c)) (r_cancelResult r) @
     opt_prop ''response'' JObj (r_response r))"

definition head_json :: "interactive_head \<Rightarrow> json" where
  "head_json h = JObj [(js ''key'', JStr (h_key h)), (js ''stateVersion'', JInt (h_stateVersion h)),
     (js ''round'', JInt (h_round h)), (js ''roundRevision'', JInt (h_roundRevision h))]"

definition state_json :: "router_state \<Rightarrow> json" where
  "state_json st = JObj [(js ''schemaVersion'', JInt 2),
     (js ''sessions'', JArr (map session_json (sessions st))),
     (js ''dedup'', JArr (map dedup_json (dedup st))),
     (js ''interactiveRequests'', JArr (map request_json (interactiveRequests st))),
     (js ''interactiveSessions'', JObj (map (\<lambda>(k, v). (k, JStr v)) (interactiveSessions st))),
     (js ''interactiveHeads'', JObj (map (\<lambda>(k, v). (k, head_json v)) (interactiveHeads st))),
     (js ''interactiveRooms'', JObj (map (\<lambda>(k, v). (k, JStr v)) (interactiveRooms st)))]"

definition serializedBytes :: "router_state \<Rightarrow> nat" where
  "serializedBytes st = byte_length (serialized (state_json st))"

subsection \<open>Helpers on entries\<close>

definition stateEntry :: "router_state \<Rightarrow> conversation \<Rightarrow> session_entry option" where
  "stateEntry st c = List.find (\<lambda>e. s_conversationKey e = conversationKey c) (sessions st)"

definition update_entry :: "conversation \<Rightarrow> (session_entry \<Rightarrow> session_entry) \<Rightarrow> router_state \<Rightarrow> router_state" where
  "update_entry c f st =
     st\<lparr>sessions := update_first (\<lambda>e. s_conversationKey e = conversationKey c) f (sessions st)\<rparr>"

definition createEntry :: "conversation \<Rightarrow> int \<Rightarrow> session_entry" where
  "createEntry c now = \<lparr>s_groupScope = c_groupScope c, s_conversationKey = conversationKey c,
     s_bindingKey = bindingKey (c_runtimeId c) (c_nodeId c), s_runtimeId = c_runtimeId c,
     s_nodeId = c_nodeId c, s_type = c_type c, s_targetId = c_targetId c, s_senderId = c_senderId c,
     s_current = None, s_known = [], s_updatedAt = now\<rparr>"

text \<open>
  \<open>some\<close> over the interactive sessions: the first entry for which the test holds ends the search, an
  entry whose owner must be read but cannot be throws.
\<close>

fun interactive_owned ::
  "jstr \<Rightarrow> jstr \<Rightarrow> (jstr \<Rightarrow> bool) \<Rightarrow> (jstr, jstr) jsmap \<Rightarrow> (router_error, bool) result" where
  "interactive_owned rt sid skip [] = Inr False"
| "interactive_owned rt sid skip ((key, owned) # m) =
     (if owned = sid \<and> \<not> skip key then
        (case parseInteractiveSessionOwner key of
           None \<Rightarrow> Inl RouterStateInvalid
         | Some (r, n, g) \<Rightarrow> if r = rt then Inr True else interactive_owned rt sid skip m)
      else interactive_owned rt sid skip m)"

definition assertSessionAvailable :: "router_state \<Rightarrow> conversation \<Rightarrow> jstr \<Rightarrow> (router_error, unit) result" where
  "assertSessionAvailable st c sid =
     bind_result (interactive_owned (c_runtimeId c) sid (\<lambda>_. False) (interactiveSessions st)) (\<lambda>owned.
       if owned then Inl SessionConflict
       else if list_ex (\<lambda>e. s_runtimeId e = c_runtimeId c \<and> s_conversationKey e \<noteq> conversationKey c
                 \<and> sid \<in> set (known_ids e)) (sessions st)
       then Inl SessionConflict else Inr ())"

lemma length_remove_first_less: "list_ex P xs \<Longrightarrow> length (remove_first P xs) < length xs"
  by (induction xs) auto

text \<open>The eviction loop: while too long, drop the oldest session that is not the current one.\<close>

function (sequential) evict :: "jstr option \<Rightarrow> known_session list \<Rightarrow> (router_error, known_session list) result" where
  "evict cur known =
     (if length known > MAX_KNOWN_SESSIONS then
        (if list_ex (\<lambda>k. Some (k_sessionId k) \<noteq> cur) known
         then evict cur (remove_first (\<lambda>k. Some (k_sessionId k) \<noteq> cur) known)
         else Inl RouterStateInvalid)
      else Inr known)"
  by pat_completeness auto

termination
  by (relation "measure (\<lambda>(c, k). length k)") (auto simp: length_remove_first_less)

declare evict.simps [simp del]

definition acceptAuthoritative :: "session_entry \<Rightarrow> jstr \<Rightarrow> int \<Rightarrow> (router_error, session_entry) result" where
  "acceptAuthoritative e sid now =
     (let known = remove_first (\<lambda>k. k_sessionId k = sid) (s_known e)
                  @ [\<lparr>k_sessionId = sid, k_updatedAt = now\<rparr>]
      in bind_result (evict (Some sid) known) (\<lambda>kept.
           Inr (e\<lparr>s_known := kept, s_current := Some sid, s_updatedAt := now\<rparr>)))"

definition sessionId_ok :: "jstr \<Rightarrow> (router_error, jstr) result" where
  "sessionId_ok s = (if identifier_ok 4096 s then Inr s else Inl RouterStateInvalid)"

definition identity_of :: "conversation \<Rightarrow> (router_error, conversation) result" where
  "identity_of c = (if validIdentity c then Inr c else Inl RouterStateInvalid)"

subsection \<open>Transitions\<close>

type_synonym 'a transition = "router_state \<Rightarrow> int \<Rightarrow> (router_error, router_state \<times> bool \<times> 'a) result"

definition room_key :: "jstr \<Rightarrow> jstr \<Rightarrow> jstr \<Rightarrow> jstr" where
  "room_key rt node room = interactiveSessionKey rt node (js ''chatroom'') room"

definition rememberInteractiveRoom :: "jstr \<Rightarrow> jstr \<Rightarrow> jstr \<Rightarrow> jstr \<Rightarrow> unit transition" where
  "rememberInteractiveRoom rt node room disc st now =
     (case mget (interactiveRooms st) (room_key rt node room) of
        Some previous \<Rightarrow> if previous = disc then Inr (st, False, ()) else Inl RouterStateInvalid
      | None \<Rightarrow>
          if identifier_ok 256 disc
          then Inr (st\<lparr>interactiveRooms := mset_at (interactiveRooms st) (room_key rt node room) disc\<rparr>, True, ())
          else Inl SchemaError)"

definition head_of :: "interactive_request \<Rightarrow> interactive_head" where
  "head_of r = \<lparr>h_key = r_key r, h_stateVersion = r_stateVersion r, h_round = r_round r,
     h_roundRevision = r_roundRevision r\<rparr>"

definition stale :: "interactive_request \<Rightarrow> interactive_head \<Rightarrow> bool" where
  "stale r h \<longleftrightarrow> r_stateVersion r < h_stateVersion h \<or> r_round r < h_round h
     \<or> (r_round r = h_round h \<and> r_roundRevision r < h_roundRevision h)"

definition reserveInteractive :: "interactive_request \<Rightarrow> interactive_request option transition" where
  "reserveInteractive r st0 now =
     (if \<not> interactiveRequestSchema r then Inl SchemaError
      else let st = st0\<lparr>interactiveRequests :=
                filter (\<lambda>e. r_expiresAt e > now \<or> r_status e \<noteq> Terminal) (interactiveRequests st0)\<rparr>;
               head = mget (interactiveHeads st) (r_sessionKey r)
           in case List.find (\<lambda>e. r_key e = r_key r) (interactiveRequests st) of
             Some existing \<Rightarrow> Inr (st, False, Some existing)
           | None \<Rightarrow>
               if map_option h_key head = Some (r_key r) then Inr (st, False, None)
               else if r_status r = Reserved \<and> (case head of None \<Rightarrow> False | Some h \<Rightarrow> stale r h)
                 then Inr (st, False, None)
               else if r_expiresAt r \<le> now \<or> length (interactiveRequests st) \<ge> 2048
                 \<or> (r_status r = Reserved \<and> list_ex (\<lambda>e. r_sessionKey e = r_sessionKey r \<and> r_status e \<noteq> Terminal)
                      (interactiveRequests st))
                 then Inr (st, False, None)
               else Inr (st\<lparr>interactiveRequests := interactiveRequests st @ [r],
                           interactiveHeads := (if r_status r = Reserved
                             then mset_at (interactiveHeads st) (r_sessionKey r) (head_of r)
                             else interactiveHeads st)\<rparr>, True, Some r))"

record request_changes =
  ch_status :: "request_status option"
  ch_cancelResult :: "cancel_result option"
  ch_response :: "jobj option"

definition apply_changes :: "request_changes \<Rightarrow> interactive_request \<Rightarrow> interactive_request" where
  "apply_changes ch r = r\<lparr>
     r_status := (case ch_status ch of None \<Rightarrow> r_status r | Some s \<Rightarrow> s),
     r_cancelResult := (case ch_cancelResult ch of None \<Rightarrow> r_cancelResult r | Some c \<Rightarrow> Some c),
     r_response := (case ch_response ch of None \<Rightarrow> r_response r | Some v \<Rightarrow> Some v)\<rparr>"

definition updateInteractive ::
  "jstr \<Rightarrow> request_changes \<Rightarrow> jstr option \<Rightarrow> interactive_request transition" where
  "updateInteractive key ch sessionId st now =
     (case List.find (\<lambda>e. r_key e = key) (interactiveRequests st) of
        None \<Rightarrow> Inl RouterStateInvalid
      | Some r0 \<Rightarrow>
          let entry = apply_changes ch r0;
              st1 = st\<lparr>interactiveRequests :=
                        update_first (\<lambda>e. r_key e = key) (apply_changes ch) (interactiveRequests st)\<rparr>
          in case sessionId of
               None \<Rightarrow> Inr (st1, True, entry)
             | Some sid \<Rightarrow>
                 if map_option h_key (mget (interactiveHeads st1) (r_sessionKey entry)) \<noteq> Some key
                 then Inr (st1, True, entry)
                 else bind_result
                   (interactive_owned (r_runtimeId entry) sid (\<lambda>owner. owner = r_sessionKey entry)
                     (interactiveSessions st1)) (\<lambda>owned.
                     if owned \<or> list_ex (\<lambda>e. s_runtimeId e = r_runtimeId entry \<and> sid \<in> set (known_ids e))
                                  (sessions st1)
                     then Inl SessionConflict
                     else bind_result (sessionId_ok sid) (\<lambda>v.
                       Inr (st1\<lparr>interactiveSessions := mset_at (interactiveSessions st1) (r_sessionKey entry) v\<rparr>,
                            True, entry))))"

definition clearCurrent :: "conversation \<Rightarrow> unit transition" where
  "clearCurrent c st now = bind_result (identity_of c) (\<lambda>c.
     case stateEntry st c of
       None \<Rightarrow> Inr (st, False, ())
     | Some e \<Rightarrow>
         if s_current e = None then Inr (st, False, ())
         else Inr (update_entry c (\<lambda>e. e\<lparr>s_current := None, s_updatedAt := now\<rparr>) st, True, ()))"

definition switchKnown :: "conversation \<Rightarrow> jstr \<Rightarrow> bool transition" where
  "switchKnown c sid st now = bind_result (identity_of c) (\<lambda>c.
     case stateEntry st c of
       None \<Rightarrow> Inr (st, False, False)
     | Some e \<Rightarrow>
         if sid \<notin> set (known_ids e) then Inr (st, False, False)
         else if s_current e = Some sid then Inr (st, False, True)
         else Inr (update_entry c (\<lambda>e. e\<lparr>s_current := Some sid, s_updatedAt := now\<rparr>) st, True, True))"

definition forget_known :: "jstr \<Rightarrow> int \<Rightarrow> session_entry \<Rightarrow> session_entry" where
  "forget_known sid now e = e\<lparr>s_known := remove_first (\<lambda>k. k_sessionId k = sid) (s_known e),
     s_current := (if s_current e = Some sid then None else s_current e), s_updatedAt := now\<rparr>"

definition deleteKnown :: "conversation \<Rightarrow> jstr \<Rightarrow> bool transition" where
  "deleteKnown c sid st now = bind_result (identity_of c) (\<lambda>c.
     case stateEntry st c of
       None \<Rightarrow> Inr (st, False, False)
     | Some e \<Rightarrow>
         if sid \<notin> set (known_ids e) then Inr (st, False, False)
         else Inr (update_entry c (forget_known sid now) st, True, True))"

definition optional_session :: "jstr option \<Rightarrow> (router_error, jstr option) result" where
  "optional_session s = (case s of None \<Rightarrow> Inr None | Some v \<Rightarrow> bind_result (sessionId_ok v) (\<lambda>w. Inr (Some w)))"

definition clear_resumed :: "jstr option \<Rightarrow> int \<Rightarrow> session_entry \<Rightarrow> session_entry" where
  "clear_resumed submitted now e = e\<lparr>s_current := None,
     s_known := filter (\<lambda>k. Some (k_sessionId k) \<noteq> submitted) (s_known e), s_updatedAt := now\<rparr>"

definition applyEventSession ::
  "conversation \<Rightarrow> jstr option \<Rightarrow> jstr option \<Rightarrow> jstr option \<Rightarrow> unit transition" where
  "applyEventSession conv submittedId status authoritativeId st now =
     bind_result (identity_of conv) (\<lambda>c.
     bind_result (optional_session submittedId) (\<lambda>submitted.
     bind_result (optional_session authoritativeId) (\<lambda>authoritative.
       let entry = stateEntry st c;
           canClear = (status = Some (js ''resume_invalidated'') \<and> submitted \<noteq> None
             \<and> (case entry of None \<Rightarrow> False | Some e \<Rightarrow> s_current e = submitted))
       in if \<not> canClear \<and> authoritative = None then Inr (st, False, ())
          else bind_result (case authoritative of None \<Rightarrow> Inr () | Some sid \<Rightarrow> assertSessionAvailable st c sid) (\<lambda>_.
            let st1 = (if entry = None then st\<lparr>sessions := sessions st @ [createEntry c now]\<rparr> else st);
                e1 = (case entry of None \<Rightarrow> createEntry c now | Some e \<Rightarrow> e);
                e2 = (if canClear then clear_resumed submitted now e1 else e1)
            in bind_result (case authoritative of None \<Rightarrow> Inr e2 | Some sid \<Rightarrow> acceptAuthoritative e2 sid now) (\<lambda>e3.
                 Inr (update_entry c (\<lambda>_. e3) st1, True, ()))))))"

datatype claim_result = CClaimed jstr jstr | CDuplicate jstr

definition claimMessage :: "jstr \<Rightarrow> jstr \<Rightarrow> jstr \<Rightarrow> claim_result transition" where
  "claimMessage runtime uid claim st now =
     (case claimDedup (dedup st) runtime uid claim now of
        Inl _ \<Rightarrow> Inl RouterStateInvalid
      | Inr (TCapacity k es) \<Rightarrow> Inl DedupCapacity
      | Inr (TClaimed k c es) \<Rightarrow> Inr (st\<lparr>dedup := es\<rparr>, True, CClaimed k c)
      | Inr (TDuplicate k es) \<Rightarrow> Inr (st\<lparr>dedup := es\<rparr>, False, CDuplicate k))"

definition admitMessage :: "jstr \<Rightarrow> jstr \<Rightarrow> bool transition" where
  "admitMessage key claim st now =
     (let t = admitDedup (dedup st) key claim now
      in Inr (st\<lparr>dedup := cas_entries t\<rparr>, changed t, accepted t))"

definition releaseMessage :: "jstr \<Rightarrow> jstr \<Rightarrow> bool transition" where
  "releaseMessage key claim st now =
     (let t = releaseDedup (dedup st) key claim
      in Inr (st\<lparr>dedup := cas_entries t\<rparr>, changed t, accepted t))"

subsection \<open>The store\<close>

record store =
  memory :: router_state
  ready :: bool
  disk :: "router_state option"

definition new_store :: "router_state option \<Rightarrow> store" where
  "new_store d = \<lparr>memory = emptyState, ready = False, disk = d\<rparr>"

definition write_disk :: "write_outcome \<Rightarrow> router_state \<Rightarrow> router_state option \<Rightarrow> router_state option" where
  "write_disk w new old = (if w = NotReplaced then old else Some new)"

definition mutate :: "store \<Rightarrow> int \<Rightarrow> write_outcome \<Rightarrow> 'a transition \<Rightarrow> (router_error, 'a) result \<times> store" where
  "mutate s now w tr =
     (if \<not> ready s then (Inl RouterStateInvalid, s)
      else if \<not> timestamp_ok now then (Inl RouterStateInvalid, s)
      else let candidate = (memory s)\<lparr>dedup := pruneDedup (dedup (memory s)) now\<rparr>
           in case tr candidate now of
             Inl e \<Rightarrow> (Inl e, s)
           | Inr (st, chg, v) \<Rightarrow>
               if \<not> (chg \<or> length (dedup st) \<noteq> length (dedup (memory s))) then (Inr v, s)
               else case validateState st of
                 Inl e \<Rightarrow> (Inl e, s)
               | Inr valid \<Rightarrow>
                   if serializedBytes valid > MAX_STATE_BYTES then (Inl RouterStateInvalid, s)
                   else if w = Written then (Inr v, s\<lparr>memory := valid, disk := Some valid\<rparr>)
                   else (Inl RouterStateInvalid, s\<lparr>disk := write_disk w valid (disk s)\<rparr>))"

definition read_state :: "store \<Rightarrow> (router_state \<Rightarrow> (router_error, 'a) result) \<Rightarrow> (router_error, 'a) result" where
  "read_state s f = (if ready s then f (memory s) else Inl RouterStateInvalid)"

definition currentSession :: "store \<Rightarrow> conversation \<Rightarrow> (router_error, jstr option) result" where
  "currentSession s c = read_state s (\<lambda>st. bind_result (identity_of c) (\<lambda>c.
     Inr (case stateEntry st c of None \<Rightarrow> None | Some e \<Rightarrow> s_current e)))"

definition knownSessions :: "store \<Rightarrow> conversation \<Rightarrow> (router_error, jstr list) result" where
  "knownSessions s c = read_state s (\<lambda>st. bind_result (identity_of c) (\<lambda>c.
     Inr (case stateEntry st c of None \<Rightarrow> [] | Some e \<Rightarrow> known_ids e)))"

definition interactiveRequest :: "store \<Rightarrow> jstr \<Rightarrow> (router_error, interactive_request option) result" where
  "interactiveRequest s key = read_state s (\<lambda>st. Inr (List.find (\<lambda>e. r_key e = key) (interactiveRequests st)))"

definition interactiveRequestsOf :: "store \<Rightarrow> jstr \<Rightarrow> jstr \<Rightarrow> (router_error, interactive_request list) result" where
  "interactiveRequestsOf s rt node = read_state s (\<lambda>st.
     Inr (filter (\<lambda>e. r_runtimeId e = rt \<and> r_nodeId e = node) (interactiveRequests st)))"

definition interactiveSession :: "store \<Rightarrow> jstr \<Rightarrow> (router_error, jstr option) result" where
  "interactiveSession s key = read_state s (\<lambda>st. Inr (mget (interactiveSessions st) key))"

definition isInteractiveRoom :: "store \<Rightarrow> jstr \<Rightarrow> jstr \<Rightarrow> jstr \<Rightarrow> (router_error, bool) result" where
  "isInteractiveRoom s rt node room = read_state s (\<lambda>st. Inr (mhas (interactiveRooms st) (room_key rt node room)))"

text \<open>
  Whether one of the rooms, or the discussion, belongs to an interactive discussion.  The keys of the
  rooms are read back one by one until one matches: the parsed value is taken apart by its iterator
  (an array gives its elements, a string its characters), and a text that is no JSON, or a value
  without an iterator, makes the query fail.
\<close>

fun iterated :: "json \<Rightarrow> json list option" where
  "iterated (JArr vs) = Some vs"
| "iterated (JStr s) = Some (map (\<lambda>p. JStr (point_units p)) (code_points s))"
| "iterated _ = None"

fun owns_discussion :: "jstr \<Rightarrow> jstr \<Rightarrow> jstr \<Rightarrow> (jstr \<times> jstr) list \<Rightarrow> (router_error, bool) result" where
  "owns_discussion rt node disc [] = Inr False"
| "owns_discussion rt node disc ((key, owner) # rest) =
     (case Option.bind (json_parse (\<lambda>_. NInt 0) key) iterated of
        None \<Rightarrow> Inl SchemaError
      | Some vs \<Rightarrow>
          if owner = disc \<and> take 2 vs = [JStr rt, JStr node] then Inr True
          else owns_discussion rt node disc rest)"

definition isInteractiveOwnership ::
  "store \<Rightarrow> jstr \<Rightarrow> jstr \<Rightarrow> jstr list \<Rightarrow> jstr option \<Rightarrow> (router_error, bool) result" where
  "isInteractiveOwnership s rt node rooms disc = read_state s (\<lambda>st.
     if list_ex (\<lambda>room. mhas (interactiveRooms st) (room_key rt node room)) rooms then Inr True
     else case disc of
       None \<Rightarrow> Inr False
     | Some d \<Rightarrow> owns_discussion rt node d (interactiveRooms st))"

text \<open>The start of the store: nothing on disk, a file of version 1 or 2, or one that cannot be read.\<close>

datatype loaded =
    NoFile
  | LegacyFile "session_entry list" "dedup_entry list"
  | CurrentFile router_state
  | Unreadable

definition loaded_state :: "loaded \<Rightarrow> (router_error, router_state) result" where
  "loaded_state l = (case l of
     NoFile \<Rightarrow> validateState emptyState
   | LegacyFile ss ds \<Rightarrow> validateState (emptyState\<lparr>sessions := ss, dedup := ds\<rparr>)
   | CurrentFile st \<Rightarrow> validateState st
   | Unreadable \<Rightarrow> Inl RouterStateInvalid)"

definition initialize :: "store \<Rightarrow> loaded \<Rightarrow> int \<Rightarrow> write_outcome \<Rightarrow> (router_error, unit) result \<times> store" where
  "initialize s l now w =
     (if ready s then (Inr (), s)
      else case loaded_state l of
        Inl e \<Rightarrow> (Inl e, s)
      | Inr current \<Rightarrow>
          if \<not> timestamp_ok now then (Inl RouterStateInvalid, s)
          else let pruned = pruneDedup (dedup current) now
               in case validateState (current\<lparr>dedup := pruned\<rparr>) of
                 Inl e \<Rightarrow> (Inl e, s)
               | Inr nxt \<Rightarrow>
                   if l \<noteq> NoFile \<and> length pruned \<noteq> length (dedup current) then
                     (if w = Written then (Inr (), s\<lparr>memory := nxt, ready := True, disk := Some nxt\<rparr>)
                      else (Inl RouterStateInvalid, s\<lparr>disk := write_disk w nxt (disk s)\<rparr>))
                   else (Inr (), s\<lparr>memory := nxt, ready := True\<rparr>))"

end
