(* ===== verification/StoreProofs.thy ===== *)
theory StoreProofs imports RouterStore begin

text \<open>
  What the routing store guarantees: the installed state is always valid, a failed operation
  changes nothing in memory, sessions have one owner, an admitted message is never handed out
  again, and the discussion heads never go back.
\<close>

subsection \<open>The operations as one step function\<close>

datatype store_op =
    OpRoom jstr jstr jstr jstr
  | OpReserve interactive_request
  | OpUpdate jstr request_changes "jstr option"
  | OpClear conversation
  | OpSwitch conversation jstr
  | OpDelete conversation jstr
  | OpEvent conversation "jstr option" "jstr option" "jstr option"
  | OpClaim jstr jstr jstr
  | OpAdmit jstr jstr
  | OpRelease jstr jstr

datatype store_event =
    Init loaded int write_outcome
  | Run store_op int write_outcome

fun store_step :: "store \<Rightarrow> store_event \<Rightarrow> store" where
  "store_step s (Init l now w) = snd (initialize s l now w)"
| "store_step s (Run (OpRoom r n m d) now w) = snd (mutate s now w (rememberInteractiveRoom r n m d))"
| "store_step s (Run (OpReserve r) now w) = snd (mutate s now w (reserveInteractive r))"
| "store_step s (Run (OpUpdate k ch sid) now w) = snd (mutate s now w (updateInteractive k ch sid))"
| "store_step s (Run (OpClear c) now w) = snd (mutate s now w (clearCurrent c))"
| "store_step s (Run (OpSwitch c sid) now w) = snd (mutate s now w (switchKnown c sid))"
| "store_step s (Run (OpDelete c sid) now w) = snd (mutate s now w (deleteKnown c sid))"
| "store_step s (Run (OpEvent c a b d) now w) = snd (mutate s now w (applyEventSession c a b d))"
| "store_step s (Run (OpClaim r u c) now w) = snd (mutate s now w (claimMessage r u c))"
| "store_step s (Run (OpAdmit k c) now w) = snd (mutate s now w (admitMessage k c))"
| "store_step s (Run (OpRelease k c) now w) = snd (mutate s now w (releaseMessage k c))"

definition store_inv :: "store \<Rightarrow> bool" where
  "store_inv s \<longleftrightarrow> (ready s \<longrightarrow> validState (memory s))"

lemma validateState_Inr [simp]: "validateState st = Inr v \<longleftrightarrow> v = st \<and> validState st"
  by (auto simp: validateState_def)

text \<open>Everything \<open>mutate\<close> can do.\<close>

lemma mutate_cases:
  assumes "mutate s now w tr = (r, s')"
  obtains (failed) e where "r = Inl e" "memory s' = memory s" "ready s' = ready s"
      "disk s' = disk s \<or> (w = ReplacedUnsynced \<and> (\<exists>v. validState v \<and> disk s' = Some v))"
  | (same) v st where "r = Inr v" "s' = s" "ready s" "timestamp_ok now"
      "tr ((memory s)\<lparr>dedup := pruneDedup (dedup (memory s)) now\<rparr>) now = Inr (st, False, v)"
      "length (dedup st) = length (dedup (memory s))"
  | (stored) v st c where "r = Inr v" "ready s" "timestamp_ok now" "w = Written"
      "tr ((memory s)\<lparr>dedup := pruneDedup (dedup (memory s)) now\<rparr>) now = Inr (st, c, v)"
      "validState st" "s' = s\<lparr>memory := st, disk := Some st\<rparr>" "serializedBytes st \<le> MAX_STATE_BYTES"
proof -
  let ?st = "(memory s)\<lparr>dedup := pruneDedup (dedup (memory s)) now\<rparr>"
  show thesis
  proof (cases "ready s \<and> timestamp_ok now")
    case False
    thus thesis using assms by (intro failed [of RouterStateInvalid]) (auto simp: mutate_def split: if_splits)
  next
    case True
    show thesis
    proof (cases "tr ?st now")
      case (Inl e)
      thus thesis using assms True by (intro failed [of e]) (auto simp: mutate_def)
    next
      case (Inr a)
      obtain st c v where a: "a = (st, c, v)" by (cases a) auto
      show thesis
      proof (cases "c \<or> length (dedup st) \<noteq> length (dedup (memory s))")
        case False
        thus thesis using assms True Inr a by (intro same [of v st]) (auto simp: mutate_def)
      next
        case changed: True
        show thesis
        proof (cases "validState st \<and> serializedBytes st \<le> MAX_STATE_BYTES \<and> w = Written")
          case ok: True
          thus thesis using assms True Inr a changed
            by (intro stored [of v st c]) (auto simp: mutate_def validateState_def)
        next
          case False
          thus thesis using assms True Inr a changed
            by (intro failed [of RouterStateInvalid])
               (cases w; auto simp: mutate_def validateState_def write_disk_def split: if_splits)+
        qed
      qed
    qed
  qed
qed

lemma mutate_inv: "store_inv s \<Longrightarrow> store_inv (snd (mutate s now w tr))"
  by (rule mutate_cases [of s now w tr "fst (mutate s now w tr)" "snd (mutate s now w tr)"])
     (auto simp: store_inv_def)

lemma initialize_inv: "store_inv s \<Longrightarrow> store_inv (snd (initialize s l now w))"
  by (auto simp: initialize_def store_inv_def Let_def split: sum.split if_splits)

interpretation rs: state_machine "new_store d" store_step store_inv
proof
  show "store_inv (new_store d)" by (simp add: store_inv_def new_store_def)
next
  fix s e
  assume "store_inv s"
  thus "store_inv (store_step s e)"
    by (cases "(s, e)" rule: store_step.cases) (simp_all add: mutate_inv initialize_inv)
qed

subsection \<open>Ownership\<close>

lemma distinct_concat_map_unique:
  assumes "distinct (concat (map f xs))" "a \<in> set xs" "b \<in> set xs" "p \<in> set (f a)" "p \<in> set (f b)"
    "distinct (map g xs)"
  shows "a = b"
  using assms
proof (induction xs)
  case (Cons x xs)
  thus ?case by auto
qed simp

lemma valid_owner_unique:
  assumes "validState st" "a \<in> set (sessions st)" "b \<in> set (sessions st)"
    "s_runtimeId a = s_runtimeId b" "sid \<in> set (known_ids a)" "sid \<in> set (known_ids b)"
  shows "a = b"
proof (rule distinct_concat_map_unique [of "\<lambda>e. map (Pair (s_runtimeId e)) (known_ids e)" "sessions st"])
  have "distinct (map Some (session_owners st))" using assms(1) by (simp add: validState_def)
  thus "distinct (concat (map (\<lambda>e. map (Pair (s_runtimeId e)) (known_ids e)) (sessions st)))"
    by (simp add: distinct_map session_owners_def)
  show "distinct (map s_conversationKey (sessions st))" using assms(1) by (simp add: validState_def)
qed (use assms in auto)

lemma valid_interactive_exclusive:
  assumes "validState st" "(key, sid) \<in> set (interactiveSessions st)" "e \<in> set (sessions st)"
    "sid \<in> set (known_ids e)"
  shows "\<exists>r n g. parseInteractiveSessionOwner key = Some (r, n, g) \<and> r \<noteq> s_runtimeId e"
proof -
  have mem: "map_option (\<lambda>(r, n, g). (r, sid)) (parseInteractiveSessionOwner key) \<in> set (interactive_owners st)"
    using assms(2) by (force simp: interactive_owners_def)
  have "None \<notin> set (interactive_owners st)" using assms(1) by (simp add: validState_def)
  with mem have "parseInteractiveSessionOwner key \<noteq> None"
    by (cases "parseInteractiveSessionOwner key") simp_all
  then obtain r n g where p: "parseInteractiveSessionOwner key = Some (r, n, g)" by auto
  have "(s_runtimeId e, sid) \<in> set (session_owners st)" using assms(3,4) by (auto simp: session_owners_def)
  hence "Some (s_runtimeId e, sid) \<notin> set (interactive_owners st)" using assms(1)
    by (auto simp: validState_def)
  with mem p show ?thesis by auto
qed

subsection \<open>Entries after an update\<close>

lemma find_update_first:
  "(\<And>x. P x \<Longrightarrow> P (f x)) \<Longrightarrow> List.find P (update_first P f xs) = map_option f (List.find P xs)"
  by (induction xs) auto

lemma find_append: "List.find P (xs @ ys) = (case List.find P xs of None \<Rightarrow> List.find P ys | Some x \<Rightarrow> Some x)"
  by (induction xs) auto

lemma stateEntry_update:
  assumes "\<And>e. s_conversationKey (f e) = s_conversationKey e"
  shows "stateEntry (update_entry c f st) c = map_option f (stateEntry st c)"
  using find_update_first [of "\<lambda>e. s_conversationKey e = conversationKey c" f "sessions st"] assms
  by (simp add: stateEntry_def update_entry_def)

lemma stateEntry_update_const:
  assumes "s_conversationKey e' = conversationKey c" "stateEntry st c \<noteq> None"
  shows "stateEntry (update_entry c (\<lambda>_. e') st) c = Some e'"
  using find_update_first [of "\<lambda>e. s_conversationKey e = conversationKey c" "\<lambda>_. e'" "sessions st"] assms
  by (auto simp: stateEntry_def update_entry_def)

lemma stateEntry_dedup [simp]: "stateEntry (st\<lparr>dedup := d\<rparr>) c = stateEntry st c"
  by (simp add: stateEntry_def)

lemma stateEntry_create:
  "stateEntry st c = None \<Longrightarrow>
   stateEntry (st\<lparr>sessions := sessions st @ [createEntry c now]\<rparr>) c = Some (createEntry c now)"
  by (simp add: stateEntry_def find_append createEntry_def)

lemma identity_of_Inr [simp]: "identity_of c = Inr d \<longleftrightarrow> d = c \<and> validIdentity c"
  by (auto simp: identity_of_def)

lemma currentSession_ready: "ready s \<Longrightarrow> validIdentity c \<Longrightarrow>
   currentSession s c = Inr (case stateEntry (memory s) c of None \<Rightarrow> None | Some e \<Rightarrow> s_current e)"
  by (simp add: currentSession_def read_state_def identity_of_def)

lemma knownSessions_ready: "ready s \<Longrightarrow> validIdentity c \<Longrightarrow>
   knownSessions s c = Inr (case stateEntry (memory s) c of None \<Rightarrow> [] | Some e \<Rightarrow> known_ids e)"
  by (simp add: knownSessions_def read_state_def identity_of_def)

subsection \<open>Eviction\<close>

lemma remove_first_other: "x \<in> set xs \<Longrightarrow> \<not> P x \<Longrightarrow> x \<in> set (remove_first P xs)"
  by (induction xs) auto

lemma evict_facts:
  assumes "evict cur known = Inr kept"
  shows "length kept \<le> MAX_KNOWN_SESSIONS \<and> set kept \<subseteq> set known
     \<and> (\<forall>k \<in> set known. Some (k_sessionId k) = cur \<longrightarrow> k \<in> set kept)"
  using assms
proof (induction cur known arbitrary: kept rule: evict.induct)
  case (1 cur known)
  let ?rest = "remove_first (\<lambda>k. Some (k_sessionId k) \<noteq> cur) known"
  show ?case
  proof (cases "length known > MAX_KNOWN_SESSIONS")
    case True
    with "1.prems" have ex: "list_ex (\<lambda>k. Some (k_sessionId k) \<noteq> cur) known"
      by (subst (asm) evict.simps) (auto split: if_splits)
    with True "1.prems" have "evict cur ?rest = Inr kept"
      by (subst (asm) evict.simps) simp
    note ih = "1.IH" [OF True ex this]
    have "set ?rest \<subseteq> set known" by (rule set_remove_first)
    with ih show ?thesis by (auto dest: remove_first_other [of _ known "\<lambda>k. Some (k_sessionId k) \<noteq> cur"])
  next
    case False
    with "1.prems" show ?thesis by (subst (asm) evict.simps) auto
  qed
qed

lemma remove_first_sorted:
  "sorted (map f xs) \<Longrightarrow> sorted (map f (remove_first P xs))"
  by (induction xs) (auto dest: subsetD [OF set_remove_first])

text \<open>The throw of the loop is unreachable: with distinct ids there is always one to drop.\<close>

lemma distinct_same_id:
  assumes "distinct (map k_sessionId known)" "\<not> list_ex (\<lambda>k. Some (k_sessionId k) \<noteq> cur) known"
  shows "length known \<le> 1"
proof (rule ccontr)
  assume "\<not> length known \<le> 1"
  then obtain a b r where "known = a # b # r" by (cases known rule: remdups_adj.cases) auto
  with assms show False by (auto split: option.splits)
qed

lemma evict_total:
  assumes "distinct (map k_sessionId known)"
  shows "\<exists>kept. evict cur known = Inr kept"
  using assms
proof (induction cur known rule: evict.induct)
  case (1 cur known)
  show ?case
  proof (cases "length known > MAX_KNOWN_SESSIONS")
    case True
    hence ex: "list_ex (\<lambda>k. Some (k_sessionId k) \<noteq> cur) known"
      using distinct_same_id [OF "1.prems"] by (fastforce simp: MAX_KNOWN_SESSIONS_def)
    from "1.IH" [OF True ex distinct_map_remove_first [OF "1.prems"]] True ex
    show ?thesis by (subst evict.simps) simp
  next
    case False
    thus ?thesis by (subst evict.simps) simp
  qed
qed

lemma acceptAuthoritative_Inr:
  assumes "acceptAuthoritative e sid now = Inr e'"
  shows "s_current e' = Some sid \<and> sid \<in> set (known_ids e') \<and> length (s_known e') \<le> MAX_KNOWN_SESSIONS
     \<and> s_conversationKey e' = s_conversationKey e \<and> s_updatedAt e' = now"
proof -
  let ?k = "\<lparr>k_sessionId = sid, k_updatedAt = now\<rparr>"
  let ?known = "remove_first (\<lambda>k. k_sessionId k = sid) (s_known e) @ [?k]"
  obtain kept where k: "evict (Some sid) ?known = Inr kept"
    and e': "e' = e\<lparr>s_known := kept, s_current := Some sid, s_updatedAt := now\<rparr>"
    using assms by (auto simp: acceptAuthoritative_def Let_def)
  from evict_facts [OF k] have "?k \<in> set kept" "length kept \<le> MAX_KNOWN_SESSIONS" by auto
  moreover hence "sid \<in> k_sessionId ` set kept" by (metis image_eqI known_session.select_convs(1))
  ultimately show ?thesis using e' by (simp add: known_ids_def)
qed

subsection \<open>Claims across operations\<close>

lemma mutate_keeps_entry:
  assumes "e \<in> set (dedup (memory s))" "dedup_live now e"
    "\<And>st st' c v. e \<in> set (dedup st) \<Longrightarrow> tr st now = Inr (st', c, v) \<Longrightarrow> e \<in> set (dedup st')"
  shows "e \<in> set (dedup (memory (snd (mutate s now w tr))))"
proof (rule mutate_cases [of s now w tr "fst (mutate s now w tr)" "snd (mutate s now w tr)"])
  fix v st c
  assume tr: "tr ((memory s)\<lparr>dedup := pruneDedup (dedup (memory s)) now\<rparr>) now = Inr (st, c, v)"
    and s': "snd (mutate s now w tr) = s\<lparr>memory := st, disk := Some st\<rparr>"
  have "e \<in> set (dedup ((memory s)\<lparr>dedup := pruneDedup (dedup (memory s)) now\<rparr>))"
    using assms(1,2) by (simp add: set_pruneDedup)
  from assms(3) [OF this tr] s' show ?thesis by simp
qed (use assms(1) in simp_all)

lemma room_dedup: "rememberInteractiveRoom r n m d st now = Inr (st', c, v) \<Longrightarrow> dedup st' = dedup st"
  by (auto simp: rememberInteractiveRoom_def split: option.splits if_splits)

lemma reserve_dedup: "reserveInteractive r st now = Inr (st', c, v) \<Longrightarrow> dedup st' = dedup st"
  by (auto simp: reserveInteractive_def Let_def split: option.splits if_splits)

lemma update_dedup: "updateInteractive k ch sid st now = Inr (st', c, v) \<Longrightarrow> dedup st' = dedup st"
  by (auto simp: updateInteractive_def Let_def split: option.splits if_splits)

lemma clear_dedup: "clearCurrent cv st now = Inr (st', c, v) \<Longrightarrow> dedup st' = dedup st"
  by (auto simp: clearCurrent_def update_entry_def split: option.splits if_splits)

lemma switch_dedup: "switchKnown cv sid st now = Inr (st', c, v) \<Longrightarrow> dedup st' = dedup st"
  by (auto simp: switchKnown_def update_entry_def split: option.splits if_splits)

lemma delete_dedup: "deleteKnown cv sid st now = Inr (st', c, v) \<Longrightarrow> dedup st' = dedup st"
  by (auto simp: deleteKnown_def update_entry_def split: option.splits if_splits)

lemma event_dedup: "applyEventSession cv a b d st now = Inr (st', c, v) \<Longrightarrow> dedup st' = dedup st"
  by (auto simp: applyEventSession_def update_entry_def Let_def split: if_splits)

lemma claim_step_dedup:
  "claimMessage r u cl st now = Inr (st', c, v) \<Longrightarrow> dedup st' = dedup_step (dedup st) (DClaim r u cl now)"
  by (auto simp: claimMessage_def split: sum.splits claim_transition.splits)

lemma admit_step_dedup:
  "admitMessage k cl st now = Inr (st', c, v) \<Longrightarrow> dedup st' = dedup_step (dedup st) (DAdmit k cl now)"
  by (auto simp: admitMessage_def Let_def)

lemma release_step_dedup:
  "releaseMessage k cl st now = Inr (st', c, v) \<Longrightarrow> dedup st' = dedup_step (dedup st) (DRelease k cl)"
  by (auto simp: releaseMessage_def Let_def)

lemmas keeps_dedup = room_dedup reserve_dedup update_dedup clear_dedup switch_dedup delete_dedup event_dedup

fun event_clock :: "store_event \<Rightarrow> int" where
  "event_clock (Init l now w) = now"
| "event_clock (Run x now w) = now"

definition admitted_at :: "dedup_entry \<Rightarrow> int \<Rightarrow> bool" where
  "admitted_at e t \<longleftrightarrow> d_state e = Admitted \<and> d_admittedAt e = Some t"

lemma admitted_live: "admitted_at e t \<Longrightarrow> now < t + DEDUP_TTL_MS \<Longrightarrow> dedup_live now e"
  by (simp add: admitted_at_def dedup_live_def stateTime_def)

lemma dedup_step_keeps:
  assumes "admitted_at e t" "now < t + DEDUP_TTL_MS" "e \<in> set (dedup st)"
  shows "claimMessage r u cl st now = Inr (st', c, v) \<Longrightarrow> e \<in> set (dedup st')"
    and "admitMessage k cl st now = Inr (st', c, v') \<Longrightarrow> e \<in> set (dedup st')"
    and "releaseMessage k cl st now = Inr (st', c, v') \<Longrightarrow> e \<in> set (dedup st')"
  using admitted_kept_step [of e "dedup st" t] assms
  by (auto simp: admitted_at_def simp del: dedup_step.simps
      dest!: claim_step_dedup admit_step_dedup release_step_dedup)

lemma store_step_keeps_admitted:
  assumes "ready s" "e \<in> set (dedup (memory s))" "admitted_at e t" "event_clock ev < t + DEDUP_TTL_MS"
  shows "ready (store_step s ev) \<and> e \<in> set (dedup (memory (store_step s ev)))"
proof
  have r: "ready (snd (mutate s now w tr))" for now w and tr :: "'a transition"
    by (rule mutate_cases [of s now w tr "fst (mutate s now w tr)" "snd (mutate s now w tr)"])
       (use assms(1) in auto)
  show "ready (store_step s ev)"
    by (cases "(s, ev)" rule: store_step.cases) (use assms(1) in \<open>simp_all add: r initialize_def\<close>)
  note live = admitted_live [OF assms(3,4)]
  note keep = mutate_keeps_entry [OF assms(2)]
  show "e \<in> set (dedup (memory (store_step s ev)))"
    by (cases "(s, ev)" rule: store_step.cases)
       (use assms live in \<open>auto simp: initialize_def intro!: keep dest: keeps_dedup
          intro: dedup_step_keeps [OF assms(3)]\<close>)
qed

lemma run_keeps_admitted:
  assumes "ready s" "e \<in> set (dedup (memory s))" "admitted_at e t"
    "list_all (\<lambda>ev. event_clock ev < t + DEDUP_TTL_MS) evs"
  shows "ready (run_steps store_step s evs) \<and> e \<in> set (dedup (memory (run_steps store_step s evs)))"
  using assms
proof (induction evs arbitrary: s)
  case (Cons ev evs)
  thus ?case using store_step_keeps_admitted [of s e t ev] by simp
qed simp

subsection \<open>Transitions\<close>

lemma stateEntry_key: "stateEntry st c = Some e \<Longrightarrow> s_conversationKey e = conversationKey c"
  unfolding stateEntry_def by (drule find_Some_in) simp

lemma optional_session_Inr: "optional_session (Some sid) = Inr x \<longleftrightarrow> identifier_ok 4096 sid \<and> x = Some sid"
  by (auto simp: optional_session_def sessionId_ok_def)

lemma event_transition:
  assumes "applyEventSession c submitted status (Some sid) st now = Inr (st', ch, v)"
  obtains st1 e2 e3 where "validIdentity c" "acceptAuthoritative e2 sid now = Inr e3"
    "st' = update_entry c (\<lambda>_. e3) st1" "s_conversationKey e2 = conversationKey c" "stateEntry st1 c \<noteq> None"
proof -
  from assms obtain sub where sub: "optional_session submitted = Inr sub" and id: "validIdentity c"
    by (auto simp: applyEventSession_def)
  let ?clear = "status = Some (js ''resume_invalidated'') \<and> sub \<noteq> None
    \<and> (case stateEntry st c of None \<Rightarrow> False | Some e \<Rightarrow> s_current e = sub)"
  let ?st1 = "if stateEntry st c = None then st\<lparr>sessions := sessions st @ [createEntry c now]\<rparr> else st"
  let ?e1 = "case stateEntry st c of None \<Rightarrow> createEntry c now | Some e \<Rightarrow> e"
  let ?e2 = "if ?clear then clear_resumed sub now ?e1 else ?e1"
  obtain e3 where e3: "acceptAuthoritative ?e2 sid now = Inr e3" "st' = update_entry c (\<lambda>_. e3) ?st1"
    using assms sub by (auto simp: applyEventSession_def optional_session_Inr Let_def)
  have "s_conversationKey ?e1 = conversationKey c"
    by (auto simp: createEntry_def split: option.split dest: stateEntry_key)
  hence "s_conversationKey ?e2 = conversationKey c" by (simp add: clear_resumed_def)
  moreover have "stateEntry ?st1 c \<noteq> None" by (simp add: stateEntry_create)
  ultimately show thesis using that [OF id e3(1,2)] by blast
qed

lemma event_no_change:
  "applyEventSession c submitted status (Some sid) st now = Inr (st', ch, v) \<Longrightarrow> ch"
  by (auto simp: applyEventSession_def optional_session_Inr Let_def)

lemma invalidated_transition:
  assumes "stateEntry st c = Some e" "s_current e = Some sid"
    "applyEventSession c (Some sid) (Some (js ''resume_invalidated'')) None st now = Inr (st', ch, v)"
  shows "ch \<and> validIdentity c \<and> stateEntry st' c = Some (clear_resumed (Some sid) now e)"
proof -
  have "validIdentity c" "ch" "st' = update_entry c (\<lambda>_. clear_resumed (Some sid) now e) st"
    using assms by (auto simp: applyEventSession_def optional_session_Inr Let_def) (simp_all add: optional_session_def)
  moreover have "s_conversationKey (clear_resumed (Some sid) now e) = conversationKey c"
    using stateEntry_key [OF assms(1)] by (simp add: clear_resumed_def)
  ultimately show ?thesis using assms(1) by (auto intro: stateEntry_update_const)
qed

lemma switch_transition:
  assumes "switchKnown c sid st now = Inr (st', ch, b)"
  shows "validIdentity c \<and> b = (\<exists>e. stateEntry st c = Some e \<and> sid \<in> set (known_ids e))
    \<and> (\<not> b \<longrightarrow> st' = st)
    \<and> (b \<longrightarrow> (\<exists>e. stateEntry st' c = Some e \<and> s_current e = Some sid))
    \<and> (\<not> ch \<longrightarrow> st' = st)"
proof (cases "stateEntry st c")
  case None
  thus ?thesis using assms by (auto simp: switchKnown_def)
next
  case (Some e)
  thus ?thesis using assms
    stateEntry_update [of "\<lambda>e. e\<lparr>s_current := Some sid, s_updatedAt := now\<rparr>" c st]
    by (auto simp: switchKnown_def split: if_splits)
qed

text \<open>A discussion head that does not go back.\<close>

definition head_le :: "interactive_head \<Rightarrow> interactive_head \<Rightarrow> bool" where
  "head_le h h' \<longleftrightarrow> h_stateVersion h \<le> h_stateVersion h' \<and> h_round h \<le> h_round h'
     \<and> (h_round h = h_round h' \<longrightarrow> h_roundRevision h \<le> h_roundRevision h')"

definition heads_le :: "router_state \<Rightarrow> router_state \<Rightarrow> bool" where
  "heads_le st st' \<longleftrightarrow> (\<forall>k h. mget (interactiveHeads st) k = Some h \<longrightarrow>
     (\<exists>h'. mget (interactiveHeads st') k = Some h' \<and> head_le h h'))"

lemma head_le_refl [simp]: "head_le h h"
  by (simp add: head_le_def)

lemma head_le_trans: "head_le a b \<Longrightarrow> head_le b c \<Longrightarrow> head_le a c"
  unfolding head_le_def by auto

lemma heads_le_refl [simp]: "heads_le st st"
  by (simp add: heads_le_def)

lemma heads_le_trans: "heads_le a b \<Longrightarrow> heads_le b c \<Longrightarrow> heads_le a c"
  unfolding heads_le_def by (meson head_le_trans)

lemma heads_le_same: "interactiveHeads st' = interactiveHeads st \<Longrightarrow> heads_le st st'"
  by (simp add: heads_le_def)

lemma not_stale_le: "\<not> stale r h \<Longrightarrow> head_le h (head_of r)"
  by (auto simp: stale_def head_le_def head_of_def)

lemma reserve_heads: "reserveInteractive r st now = Inr (st', c, v) \<Longrightarrow> heads_le st st'"
proof -
  assume a: "reserveInteractive r st now = Inr (st', c, v)"
  show ?thesis
  proof (cases "interactiveHeads st' = interactiveHeads st")
    case False
    have n: "interactiveHeads st' = mset_at (interactiveHeads st) (r_sessionKey r) (head_of r)"
      using a False by (auto simp: reserveInteractive_def Let_def split: option.splits if_splits)
    have "\<forall>h. mget (interactiveHeads st) (r_sessionKey r) = Some h \<longrightarrow> \<not> stale r h"
      using a False by (auto simp: reserveInteractive_def Let_def split: option.splits if_splits)
    with n show ?thesis by (auto simp: heads_le_def mget_set_at intro: not_stale_le)
  qed (rule heads_le_same)
qed

lemma other_heads:
  "rememberInteractiveRoom r n m d st now = Inr (st', c, v) \<Longrightarrow> interactiveHeads st' = interactiveHeads st"
  "updateInteractive k chs sid st now = Inr (st', c, v2) \<Longrightarrow> interactiveHeads st' = interactiveHeads st"
  "clearCurrent cv st now = Inr (st', c, v) \<Longrightarrow> interactiveHeads st' = interactiveHeads st"
  "switchKnown cv sd st now = Inr (st', c, v3) \<Longrightarrow> interactiveHeads st' = interactiveHeads st"
  "deleteKnown cv sd st now = Inr (st', c, v3) \<Longrightarrow> interactiveHeads st' = interactiveHeads st"
  "applyEventSession cv a b au st now = Inr (st', c, v) \<Longrightarrow> interactiveHeads st' = interactiveHeads st"
  "claimMessage r u cl st now = Inr (st', c, v4) \<Longrightarrow> interactiveHeads st' = interactiveHeads st"
  "admitMessage kk cl st now = Inr (st', c, v3) \<Longrightarrow> interactiveHeads st' = interactiveHeads st"
  "releaseMessage kk cl st now = Inr (st', c, v3) \<Longrightarrow> interactiveHeads st' = interactiveHeads st"
  by (auto simp: rememberInteractiveRoom_def updateInteractive_def clearCurrent_def switchKnown_def
      deleteKnown_def applyEventSession_def claimMessage_def admitMessage_def releaseMessage_def
      update_entry_def Let_def split: option.splits if_splits sum.splits claim_transition.splits)

lemmas other_heads_le = other_heads [THEN heads_le_same]

lemma mutate_heads:
  assumes "\<And>st' c v. tr ((memory s)\<lparr>dedup := pruneDedup (dedup (memory s)) now\<rparr>) now = Inr (st', c, v) \<Longrightarrow>
    heads_le ((memory s)\<lparr>dedup := pruneDedup (dedup (memory s)) now\<rparr>) st'"
  shows "heads_le (memory s) (memory (snd (mutate s now w tr)))"
proof (rule mutate_cases [of s now w tr "fst (mutate s now w tr)" "snd (mutate s now w tr)"])
  fix v st c
  assume tr: "tr ((memory s)\<lparr>dedup := pruneDedup (dedup (memory s)) now\<rparr>) now = Inr (st, c, v)"
    and s': "snd (mutate s now w tr) = s\<lparr>memory := st, disk := Some st\<rparr>"
  from assms [OF tr] s' show ?thesis by (simp add: heads_le_def)
qed simp_all

lemma store_step_heads:
  assumes "ready s"
  shows "ready (store_step s ev) \<and> heads_le (memory s) (memory (store_step s ev))"
proof
  have r: "ready (snd (mutate s now w tr))" for now w and tr :: "'a transition"
    by (rule mutate_cases [of s now w tr "fst (mutate s now w tr)" "snd (mutate s now w tr)"])
       (use assms(1) in auto)
  show "ready (store_step s ev)"
    by (cases "(s, ev)" rule: store_step.cases) (use assms(1) in \<open>simp_all add: r initialize_def\<close>)
  show "heads_le (memory s) (memory (store_step s ev))"
    by (cases "(s, ev)" rule: store_step.cases)
       (use assms in \<open>auto simp: initialize_def intro!: mutate_heads intro: reserve_heads other_heads_le\<close>)
qed

lemma run_heads:
  "ready s \<Longrightarrow> ready (run_steps store_step s evs) \<and> heads_le (memory s) (memory (run_steps store_step s evs))"
proof (induction evs arbitrary: s)
  case (Cons ev evs)
  note st = store_step_heads [OF Cons.prems, of ev]
  from Cons.IH [of "store_step s ev"] st show ?case by (auto intro: heads_le_trans)
qed simp

lemma reserve_new:
  assumes "reserveInteractive r st now = Inr (st', True, v)" "r_status r = Reserved"
  shows "v = Some r \<and> r \<in> set (interactiveRequests st')
    \<and> (\<forall>q \<in> set (interactiveRequests st'). r_sessionKey q = r_sessionKey r \<and> r_status q \<noteq> Terminal \<longrightarrow> q = r)
    \<and> mget (interactiveHeads st') (r_sessionKey r) = Some (head_of r) \<and> now < r_expiresAt r"
  using assms by (auto simp: reserveInteractive_def Let_def mget_set_at list_ex_iff split: option.splits if_splits)

subsection \<open>Restart\<close>

lemma count_by_filter: "count_by f r (filter P xs) \<le> count_by f r xs"
  unfolding count_by_def by (induction xs) auto

lemma validState_prune:
  assumes "validState st"
  shows "validState (st\<lparr>dedup := pruneDedup (dedup st) now\<rparr>)"
proof -
  have l: "length (pruneDedup (dedup st) now) \<le> length (dedup st)" by (simp add: pruneDedup_def)
  have c: "count_by d_runtimeId r (pruneDedup (dedup st) now) \<le> count_by d_runtimeId r (dedup st)" for r
    unfolding pruneDedup_def by (rule count_by_filter)
  have "\<forall>e \<in> set (pruneDedup (dedup st) now).
      count_by d_runtimeId (d_runtimeId e) (pruneDedup (dedup st) now) \<le> MAX_DEDUP_PER_RUNTIME"
  proof
    fix e assume "e \<in> set (pruneDedup (dedup st) now)"
    hence "e \<in> set (dedup st)" by (simp add: set_pruneDedup)
    hence "count_by d_runtimeId (d_runtimeId e) (dedup st) \<le> MAX_DEDUP_PER_RUNTIME"
      using assms by (simp add: validState_def list_all_iff)
    with c show "count_by d_runtimeId (d_runtimeId e) (pruneDedup (dedup st) now) \<le> MAX_DEDUP_PER_RUNTIME"
      by (meson le_trans)
  qed
  moreover have "distinct (map d_key (pruneDedup (dedup st) now))"
    using assms by (simp add: validState_def pruneDedup_def distinct_map_filter)
  ultimately show ?thesis using assms l
    by (auto simp: validState_def routerStateSchema_def list_all_iff set_pruneDedup session_owners_def
        interactive_owners_def)
qed

subsection \<open>Admission\<close>

lemma in_update_first: "List.find P xs = Some x \<Longrightarrow> f x \<in> set (update_first P f xs)"
  by (induction xs) (auto split: if_splits)

lemma admit_records:
  assumes "admitMessage key claim st now = Inr (st', ch, True)"
    "\<forall>e \<in> set (dedup st). d_key e = key \<longrightarrow> d_state e = Claimed"
  shows "ch \<and> (\<exists>e \<in> set (dedup st'). d_key e = key \<and> admitted_at e now)"
proof -
  obtain e where e: "List.find (\<lambda>e. d_key e = key) (dedup st) = Some e"
    using assms(1) by (auto simp: admitMessage_def admitDedup_def Let_def split: option.splits)
  hence "e \<in> set (dedup st)" "d_key e = key" by (auto dest: find_Some_in)
  with assms(2) have "d_state e = Claimed" by blast
  with e assms(1) have *: "ch" "dedup st' = update_first (\<lambda>e. d_key e = key)
      (\<lambda>e. e\<lparr>d_state := Admitted, d_admittedAt := Some now\<rparr>) (dedup st)"
    by (auto simp: admitMessage_def admitDedup_def Let_def split: if_splits)
  have "e\<lparr>d_state := Admitted, d_admittedAt := Some now\<rparr> \<in> set (dedup st')"
    unfolding *(2) by (rule in_update_first [OF e])
  with *(1) \<open>d_key e = key\<close> show ?thesis by (intro conjI bexI) (auto simp: admitted_at_def)
qed

lemma live_claim_refused:
  assumes "ready s" "e \<in> set (dedup (memory s))" "dedup_live now e" "entry_ok e"
  shows "fst (mutate s now w (claimMessage (d_runtimeId e) (d_messageUid e) c)) \<noteq> Inr (CClaimed k c')"
proof
  assume a: "fst (mutate s now w (claimMessage (d_runtimeId e) (d_messageUid e) c)) = Inr (CClaimed k c')"
  let ?st = "(memory s)\<lparr>dedup := pruneDedup (dedup (memory s)) now\<rparr>"
  have "e \<in> set (dedup ?st)" using assms(2,3) by (simp add: set_pruneDedup)
  note block = live_entry_blocks_claim [OF this assms(4,3)]
  have "claimMessage (d_runtimeId e) (d_messageUid e) c ?st now \<noteq> Inr (st', b, CClaimed k c')" for st' b
    using block by (auto simp: claimMessage_def split: sum.splits claim_transition.splits)
  hence no: "claimMessage (d_runtimeId e) (d_messageUid e) c ?st now = Inr (st', b, v) \<Longrightarrow> v \<noteq> CClaimed k c'"
    for st' b v by auto
  obtain s' where "mutate s now w (claimMessage (d_runtimeId e) (d_messageUid e) c) = (Inr (CClaimed k c'), s')"
    using a by (metis prod.collapse)
  thus False by (cases rule: mutate_cases) (auto dest: no)
qed

lemma valid_entry_ok:
  assumes "validState st" "e \<in> set (dedup st)"
  shows "entry_ok e"
proof -
  have "dedup_entry_valid e" using assms by (auto simp: validState_def list_all_iff)
  thus ?thesis by (cases "d_state e") (auto simp: dedup_entry_valid_def entry_ok_def split: option.splits)
qed

end
