(* ===== verification/Ascii.thy ===== *)
theory Ascii imports Conversation begin

text \<open>
  Strings of printable ASCII characters: the predicates of the schemas and the JSON printer on
  such strings, in a form the simplifier computes.  The concrete runs of the development use them.
\<close>

definition plain_char :: "char \<Rightarrow> bool" where
  "plain_char c \<longleftrightarrow> 33 \<le> (of_char c :: nat) \<and> (of_char c :: nat) < 127"

definition quotable :: "char \<Rightarrow> bool" where
  "quotable c \<longleftrightarrow> 32 \<le> (of_char c :: nat) \<and> (of_char c :: nat) < 127 \<and> c \<noteq> CHR 0x22 \<and> c \<noteq> CHR 0x5C"

definition hex_char :: "char \<Rightarrow> bool" where
  "hex_char c \<longleftrightarrow> (48 \<le> (of_char c :: nat) \<and> (of_char c :: nat) \<le> 57)
     \<or> (97 \<le> (of_char c :: nat) \<and> (of_char c :: nat) \<le> 102)"

lemma plain_not_ws: "plain_char c \<Longrightarrow> \<not> is_ws (cu c)"
  by (auto simp: plain_char_def is_ws_def)

lemma plain_not_control: "plain_char c \<Longrightarrow> \<not> is_Cc (of_char c) \<and> \<not> is_Cf (of_char c)"
  by (auto simp: plain_char_def is_Cc_def is_Cf_def Cf_ranges_def)

lemma has_control_plain: "list_all plain_char s \<Longrightarrow> \<not> has_control (js s)"
  by (induction s) (auto simp: has_control_def plain_not_control)

lemma trim_plain: "list_all plain_char s \<Longrightarrow> trim (js s) = js s"
proof -
  assume p: "list_all plain_char s"
  show ?thesis
  proof (cases "s = []")
    case False
    with p have "plain_char (hd s)" "plain_char (last s)" by (simp_all add: list_all_iff)
    hence "\<not> is_ws (hd (js s))" "\<not> is_ws (last (js s))" using False
      by (simp_all add: js_def hd_map last_map plain_not_ws)
    hence "trimmed (js s)" by (simp add: trimmed_iff)
    thus ?thesis by (simp add: trimmed_def)
  qed (simp add: trim_def)
qed

lemma identifier_plain:
  "s \<noteq> [] \<Longrightarrow> length s \<le> n \<Longrightarrow> list_all plain_char s \<Longrightarrow> identifier_ok n (js s)"
  by (cases s) (simp_all add: identifier_ok_def trim_plain has_control_plain)

lemma is_hex_cu [simp]: "is_hex (cu c) \<longleftrightarrow> hex_char c"
  by (auto simp: is_hex_def hex_char_def is_digit_def)

lemma hex_exact_js: "hex_exact n (js s) \<longleftrightarrow> length s = n \<and> list_all hex_char s"
  by (simp add: hex_exact_def js_def list_all_iff)

lemma starts_with_js: "starts_with (js p) (js s) \<longleftrightarrow> take (length p) s = p"
  by (simp add: starts_with_def js_def take_map inj_map_eq_map [OF inj_cu])

lemma drop_js: "drop n (js s) = js (drop n s)"
  by (simp add: js_def drop_map)

lemma prefixed_hex_js:
  "prefixed_hex p n (js s) \<longleftrightarrow> take (length p) s = p \<and> length (drop (length p) s) = n
     \<and> list_all hex_char (drop (length p) s)"
  by (simp add: prefixed_hex_def starts_with_js drop_js hex_exact_js)

lemma quote_units_js: "list_all quotable s \<Longrightarrow> quote_units (js s) = js s"
proof (induction s rule: remdups_adj.induct)
  case (2 c)
  hence "unat (cu c) = of_char c" "32 \<le> (of_char c :: nat)" "(of_char c :: nat) < 127"
    "cu c \<noteq> cu (CHR 0x22)" "cu c \<noteq> cu (CHR 0x5C)" by (simp_all add: quotable_def)
  thus ?case by (auto simp: js_Cons quote_unit_def is_high_def is_low_def cu_def [of "CHR 0x22"] cu_def [of "CHR 0x5C"]
      dest!: arg_cong [of _ _ unat])
next
  case (3 c d r)
  hence "unat (cu c) = of_char c" "32 \<le> (of_char c :: nat)" "(of_char c :: nat) < 127"
    "cu c \<noteq> cu (CHR 0x22)" "cu c \<noteq> cu (CHR 0x5C)" by (simp_all add: quotable_def)
  hence "quote_unit (cu c) = [cu c]" "\<not> is_high (cu c)"
    by (auto simp: quote_unit_def is_high_def is_low_def cu_def [of "CHR 0x22"] cu_def [of "CHR 0x5C"]
      dest!: arg_cong [of _ _ unat])
  moreover have "quote_units (js (d # r)) = js (d # r)" using "3" by (cases "c = d") simp_all
  ultimately show ?case by (simp add: js_Cons)
qed simp

lemma quote_js: "list_all quotable s \<Longrightarrow> quote (js s) = js (CHR 0x22 # s @ [CHR 0x22])"
  by (simp add: quote_def quote_units_js js_Cons js_append cu_def)

lemma cu_consts: "(34 :: code_unit) = cu (CHR 0x22)" "(44 :: code_unit) = cu (CHR 0x2C)"
  "(91 :: code_unit) = cu (CHR 0x5B)" "(93 :: code_unit) = cu (CHR 0x5D)" "(58 :: code_unit) = cu (CHR 0x3A)"
  "(123 :: code_unit) = cu (CHR 0x7B)" "(125 :: code_unit) = cu (CHR 0x7D)"
  by (simp_all add: cu_def)

lemma js_fold: "cu c # js s = js (c # s)" "js s @ js t = js (s @ t)" "[cu c] = js [c]"
  by (simp_all add: js_def)

lemma num_text_digit: "int_text 0 = js ''0''" "int_text 1 = js ''1''" "int_text 2 = js ''2''"
  "int_text 3 = js ''3''" "int_text 4 = js ''4''" "int_text 5 = js ''5''" "int_text 7 = js ''7''"
  by (simp_all add: int_text_def nat_digits.simps js_def cu_def)

lemmas ascii_eval = plain_char_def quotable_def hex_char_def identifier_plain hex_exact_js prefixed_hex_js
  quote_js starts_with_js drop_js

lemmas print_eval = quote_js quotable_def cu_consts js_fold num_text_digit

text \<open>The size of ASCII text in bytes.\<close>

definition ascii_text :: "jstr \<Rightarrow> bool" where
  "ascii_text s \<longleftrightarrow> (\<forall>u \<in> set s. unat u < 128)"

lemma ascii_text_simps [simp]: "ascii_text []" "ascii_text (u # s) \<longleftrightarrow> unat u < 128 \<and> ascii_text s"
  "ascii_text (s @ t) \<longleftrightarrow> ascii_text s \<and> ascii_text t" "ascii_text (replicate n 32)"
  "ascii_text (js cs) \<longleftrightarrow> list_all (\<lambda>c. (of_char c :: nat) < 128) cs"
  by (auto simp: ascii_text_def js_def list_all_iff)

lemma byte_length_ascii: "ascii_text s \<Longrightarrow> byte_length s = length s"
proof -
  assume a: "ascii_text s"
  hence "\<forall>u \<in> set s. \<not> is_high u" by (auto simp: ascii_text_def is_high_def)
  hence c: "code_points s = map unat s" by (rule code_points_plain)
  have "ascii_text s \<Longrightarrow> length (concat (map (encode_point \<circ> unat) s)) = length s"
    by (induction s) (simp_all add: encode_point_def)
  with a c show ?thesis by (simp add: byte_length_def utf8_encode_def)
qed

end
