(* ===== verification/RouterTheorems.thy ===== *)
theory RouterTheorems imports StoreProofs Ascii begin

text \<open>
  The properties of the message deduplication, the conversation keys and the routing store,
  each with a run at concrete inputs.
\<close>

subsection \<open>A concrete store\<close>

definition rt_sample :: string where
  "rt_sample = ''rt_0123456789abcdef0123456789abcdef''"

definition conv_sample :: conversation where
  "conv_sample = \<lparr>c_runtimeId = js rt_sample, c_nodeId = js ''n1'', c_groupScope = False,
     c_type = Private, c_targetId = js ''t'', c_senderId = js ''u''\<rparr>"

definition entry_sample :: session_entry where
  "entry_sample = (createEntry conv_sample 7)\<lparr>s_current := Some (js ''s1''),
     s_known := [\<lparr>k_sessionId = js ''s1'', k_updatedAt = 7\<rparr>]\<rparr>"

definition claim_sample :: string where
  "claim_sample = ''0123456789abcdef0123456789abcdef''"

definition dedup_sample :: dedup_entry where
  "dedup_sample = \<lparr>d_key = dedupKey (js rt_sample) (js ''m1''), d_runtimeId = js rt_sample,
     d_messageUid = js ''m1'', d_claimId = js claim_sample, d_state = Claimed, d_claimedAt = 5,
     d_admittedAt = None\<rparr>"

definition state_sample :: "session_entry list \<Rightarrow> dedup_entry list \<Rightarrow> router_state" where
  "state_sample ss ds = emptyState\<lparr>sessions := ss, dedup := ds\<rparr>"

definition store_sample :: "session_entry list \<Rightarrow> dedup_entry list \<Rightarrow> store" where
  "store_sample ss ds = \<lparr>memory = state_sample ss ds, ready = True, disk = Some (state_sample ss ds)\<rparr>"

lemma rt_sample_ok [simp]: "runtime_id_ok (js rt_sample)"
  by (simp add: runtime_id_ok_def rt_sample_def ascii_eval)

lemma conv_sample_ok [simp]: "validIdentity conv_sample"
  by (simp add: validIdentity_def conv_sample_def ascii_eval)

lemma conv_sample_keys:
  "conversationKey conv_sample = js ([CHR 0x5B, CHR 0x22] @ rt_sample @ [CHR 0x22, CHR 0x2C, CHR 0x22] @ ''n1''
     @ [CHR 0x22] @ '',1,'' @ [CHR 0x22] @ ''t'' @ [CHR 0x22, CHR 0x2C, CHR 0x22] @ ''u'' @ [CHR 0x22] @ '']'')"
  "bindingKey (js rt_sample) (js ''n1'') = js ([CHR 0x5B, CHR 0x22] @ rt_sample @ [CHR 0x22, CHR 0x2C, CHR 0x22] @ ''n1''
     @ [CHR 0x22, CHR 0x5D])"
  "dedupKey (js rt_sample) (js ''m1'') = js ([CHR 0x5B, CHR 0x22] @ rt_sample @ [CHR 0x22, CHR 0x2C, CHR 0x22] @ ''m1''
     @ [CHR 0x22, CHR 0x5D])"
  by (simp_all add: conversationKey_def conv_sample_def bindingKey_def dedupKey_def rt_sample_def print_eval
      del: js_eq_iff)

lemma entry_sample_ok: "session_ok entry_sample" "sessionSchema entry_sample"
proof -
  show "session_ok entry_sample"
    using conv_sample_ok
    by (simp add: session_ok_def entry_sample_def createEntry_def entry_identity_def conv_sample_def known_ids_def)
  have "identifier_ok 16384 (conversationKey conv_sample)" "identifier_ok 8192 (bindingKey (js rt_sample) (js ''n1''))"
    unfolding conv_sample_keys by (simp_all add: rt_sample_def ascii_eval)
  thus "sessionSchema entry_sample"
    by (simp add: sessionSchema_def entry_sample_def createEntry_def, simp add: conv_sample_def
        knownSessionSchema_def timestamp_ok_def max_safe_def MAX_KNOWN_SESSIONS_def ascii_eval)
qed

lemma dedup_sample_ok: "DedupEntrySchema dedup_sample" "dedup_entry_valid dedup_sample"
proof -
  have "identifier_ok 8192 (dedupKey (js rt_sample) (js ''m1''))"
    unfolding conv_sample_keys by (simp add: rt_sample_def ascii_eval)
  thus "DedupEntrySchema dedup_sample"
    by (simp add: DedupEntrySchema_def dedup_sample_def timestamp_ok_def max_safe_def ascii_eval claim_sample_def)
qed (simp add: dedup_entry_valid_def dedup_sample_def)

lemmas state_sizes = MAX_SESSIONS_def MAX_SESSIONS_PER_RUNTIME_def MAX_INTERACTIVE_def MAX_DEDUP_ENTRIES_def
  MAX_DEDUP_PER_RUNTIME_def MAX_KNOWN_SESSIONS_def

lemma state_sample_valid:
  assumes "ss = [] \<or> ss = [e]" "session_ok e" "sessionSchema e" "ds = [] \<or> ds = [d]"
    "DedupEntrySchema d" "dedup_entry_valid d"
  shows "validState (state_sample ss ds)"
proof -
  have "distinct (known_ids e)" using assms(2) by (simp add: session_ok_def)
  thus ?thesis using assms
    by (auto simp: validState_def routerStateSchema_def state_sample_def emptyState_def count_by_def
        session_owners_def interactive_owners_def state_sizes distinct_map inj_on_def)
qed

lemma sample_chars [simp]:
  "list_all quotable rt_sample" "list_all (\<lambda>c. (of_char c :: nat) < 128) rt_sample" "length rt_sample = 35"
  "list_all quotable claim_sample" "list_all (\<lambda>c. (of_char c :: nat) < 128) claim_sample"
  "length claim_sample = 32"
  by (simp_all add: rt_sample_def claim_sample_def quotable_def)

lemma conv_sample_fields: "c_runtimeId conv_sample = js rt_sample" "c_nodeId conv_sample = js ''n1''"
  "\<not> c_groupScope conv_sample" "c_type conv_sample = Private" "c_targetId conv_sample = js ''t''"
  "c_senderId conv_sample = js ''u''"
  by (simp_all add: conv_sample_def)

lemmas sample_print = state_json_def state_sample_def emptyState_def session_json_def dedup_json_def
  entry_sample_def dedup_sample_def createEntry_def opt_prop_def known_json_def
  newline_indent_def pretty_block_def serialized_def conv_sample_fields num_text_digit quote_def

lemma quote_unit_cu:
  assumes "32 \<le> (of_char c :: nat)" "(of_char c :: nat) < 127"
  shows "quote_unit (cu c) = (if c = CHR 0x22 \<or> c = CHR 0x5C then [92, cu c] else [cu c])"
proof -
  have "cu c = 34 \<longleftrightarrow> c = CHR 0x22" "cu c = 92 \<longleftrightarrow> c = CHR 0x5C"
    using cu_eq_iff [of c "CHR 0x22"] cu_eq_iff [of c "CHR 0x5C"]
    by (simp_all add: cu_def [of "CHR 0x22"] cu_def [of "CHR 0x5C"])
  moreover have "cu c \<noteq> v" if "unat v < 32" for v using that assms(1) by (metis unat_cu not_le)
  from this [of 8] this [of 9] this [of 10] this [of 12] this [of 13]
  have "cu c \<notin> {8, 9, 10, 12, 13}" by simp
  ultimately show ?thesis using assms
    by (auto simp: quote_unit_def is_high_def is_low_def cu_def [of "CHR 0x22"] cu_def [of "CHR 0x5C"])
qed

lemma quote_units_step: "\<not> is_high u \<Longrightarrow> quote_units (u # s) = quote_unit u @ quote_units s"
  by (cases s) simp_all

text \<open>Printable text prints with at most one escape per character.\<close>

lemma quote_units_printable:
  "list_all (\<lambda>c. 32 \<le> (of_char c :: nat) \<and> (of_char c :: nat) < 127) s \<Longrightarrow>
   ascii_text (quote_units (js s)) \<and> length (quote_units (js s)) \<le> 2 * length s"
proof (induction s)
  case (Cons c s)
  hence "\<not> is_high (cu c)" by (auto simp: is_high_def)
  with Cons quote_unit_cu [of c] show ?case by (auto simp: js_Cons quote_units_step)
qed simp

lemma key_sample_printed:
  "ascii_text (quote_units (conversationKey conv_sample)) \<and> length (quote_units (conversationKey conv_sample)) \<le> 200"
  "ascii_text (quote_units (bindingKey (js rt_sample) (js ''n1''))) \<and>
   length (quote_units (bindingKey (js rt_sample) (js ''n1''))) \<le> 200"
  "ascii_text (quote_units (dedupKey (js rt_sample) (js ''m1''))) \<and>
   length (quote_units (dedupKey (js rt_sample) (js ''m1''))) \<le> 200"
proof -
  have q: "length s \<le> 100 \<Longrightarrow> list_all (\<lambda>c. 32 \<le> (of_char c :: nat) \<and> (of_char c :: nat) < 127) s \<Longrightarrow>
      ascii_text (quote_units (js s)) \<and> length (quote_units (js s)) \<le> 200" for s
    using quote_units_printable [of s] by simp
  show "ascii_text (quote_units (conversationKey conv_sample)) \<and> length (quote_units (conversationKey conv_sample)) \<le> 200"
    unfolding conv_sample_keys by (rule q) (simp_all add: rt_sample_def)
  show "ascii_text (quote_units (bindingKey (js rt_sample) (js ''n1''))) \<and>
   length (quote_units (bindingKey (js rt_sample) (js ''n1''))) \<le> 200"
    unfolding conv_sample_keys by (rule q) (simp_all add: rt_sample_def)
  show "ascii_text (quote_units (dedupKey (js rt_sample) (js ''m1''))) \<and>
   length (quote_units (dedupKey (js rt_sample) (js ''m1''))) \<le> 200"
    unfolding conv_sample_keys by (rule q) (simp_all add: rt_sample_def)
qed

lemma sample_bytes:
  assumes "ds = [] \<or> ds = [dedup_sample] \<or> ds = [dedup_sample\<lparr>d_state := Admitted, d_admittedAt := Some 7\<rparr>]"
  shows "serializedBytes (state_sample [entry_sample] ds) \<le> MAX_STATE_BYTES"
proof -
  let ?v = "serialized (state_json (state_sample [entry_sample] ds))"
  note k = key_sample_printed
  have "ascii_text ?v"
    using assms k by (auto simp: sample_print quote_units_js quotable_def)
  moreover have "length ?v \<le> 8000"
    using assms k by (auto simp: sample_print quote_units_js quotable_def)
  ultimately show ?thesis by (simp add: serializedBytes_def byte_length_ascii MAX_STATE_BYTES_def)
qed

lemma state_sample_simps [simp]: "sessions (state_sample ss ds) = ss" "dedup (state_sample ss ds) = ds"
  "interactiveSessions (state_sample ss ds) = []" "interactiveRequests (state_sample ss ds) = []"
  "interactiveHeads (state_sample ss ds) = []" "interactiveRooms (state_sample ss ds) = []"
  "(state_sample ss ds)\<lparr>sessions := ss'\<rparr> = state_sample ss' ds"
  "(state_sample ss ds)\<lparr>dedup := ds'\<rparr> = state_sample ss ds'"
  by (simp_all add: state_sample_def emptyState_def)

lemma store_sample_simps [simp]: "memory (store_sample ss ds) = state_sample ss ds" "ready (store_sample ss ds)"
  "disk (store_sample ss ds) = Some (state_sample ss ds)"
  by (simp_all add: store_sample_def)

definition admitted_sample :: dedup_entry where
  "admitted_sample = dedup_sample\<lparr>d_state := Admitted, d_admittedAt := Some 7\<rparr>"

lemma admitted_sample_ok: "DedupEntrySchema admitted_sample" "dedup_entry_valid admitted_sample"
  using dedup_sample_ok
  by (simp_all add: admitted_sample_def DedupEntrySchema_def dedup_entry_valid_def dedup_sample_def
      timestamp_ok_def max_safe_def)

lemma sample_states_valid [simp]:
  "validState (state_sample [entry_sample] [])" "validState (state_sample [entry_sample] [dedup_sample])"
  "validState (state_sample [entry_sample] [admitted_sample])"
  using state_sample_valid [OF _ entry_sample_ok] dedup_sample_ok admitted_sample_ok by auto

lemma sample_states_small [simp]:
  "\<not> MAX_STATE_BYTES < serializedBytes (state_sample [entry_sample] [])"
  "\<not> MAX_STATE_BYTES < serializedBytes (state_sample [entry_sample] [dedup_sample])"
  "\<not> MAX_STATE_BYTES < serializedBytes (state_sample [entry_sample] [admitted_sample])"
  using sample_bytes by (auto simp: admitted_sample_def not_less)

lemma validState_store: "validState (state_sample ss ds) \<Longrightarrow> store_inv (store_sample ss ds)"
  by (simp add: store_inv_def)

text \<open>C1 Whatever happens to the store - starts, operations, failing writes - the state it holds
  after its start is valid: every schema bound, key and ownership rule of \<open>validateState\<close> holds.\<close>

theorem store_always_valid: "store_inv (run_steps store_step (new_store d) events)"
  by (rule rs.run_inv)

text \<open>In a reachable store an agent session belongs to at most one conversation of its runtime.\<close>

theorem session_has_one_owner:
  assumes "s = run_steps store_step (new_store d) events" "ready s"
    "a \<in> set (sessions (memory s))" "b \<in> set (sessions (memory s))"
    "s_runtimeId a = s_runtimeId b" "sid \<in> set (known_ids a)" "sid \<in> set (known_ids b)"
  shows "a = b"
proof -
  have "validState (memory s)" using rs.run_inv [of d events] assms(1,2) by (simp add: store_inv_def)
  thus ?thesis using assms(3-7) by (rule valid_owner_unique)
qed

lemma session_has_one_owner_witness: "entry_sample = entry_sample"
proof (rule session_has_one_owner)
  show "store_sample [entry_sample] [] =
      run_steps store_step (new_store (Some (state_sample [entry_sample] [])))
        [Init (CurrentFile (state_sample [entry_sample] [])) 7 Written]"
    by (simp add: initialize_def loaded_state_def new_store_def store_sample_def timestamp_ok_def max_safe_def
        pruneDedup_def validateState_def)
qed (simp_all add: known_ids_def entry_sample_def)


text \<open>When a task event names its session, that session is afterwards the current and a known
  session of its conversation, and at most 32 are known.\<close>

theorem event_session_is_current:
  assumes "mutate s now w (applyEventSession c submitted status (Some sid)) = (Inr (), s')"
  shows "currentSession s' c = Inr (Some sid)
    \<and> (\<exists>ids. knownSessions s' c = Inr ids \<and> sid \<in> set ids \<and> length ids \<le> MAX_KNOWN_SESSIONS)"
  using assms
proof (cases rule: mutate_cases)
  case (same v st)
  thus ?thesis by (auto dest: event_no_change)
next
  case (stored v st ch)
  from event_transition [OF stored(5)] obtain st1 e2 e3 where v: "validIdentity c"
    and e3: "acceptAuthoritative e2 sid now = Inr e3" and st: "st = update_entry c (\<lambda>_. e3) st1"
    and k: "s_conversationKey e2 = conversationKey c" and ex: "stateEntry st1 c \<noteq> None"
    by metis
  note f = acceptAuthoritative_Inr [OF e3]
  have "stateEntry st c = Some e3" unfolding st
    by (rule stateEntry_update_const) (use f k ex in simp_all)
  thus ?thesis using f v stored by (simp add: currentSession_ready knownSessions_ready known_ids_def)
qed simp

lemma event_sample:
  "mutate (store_sample [] []) 7 Written (applyEventSession conv_sample None None (Some (js ''s1'')))
     = (Inr (), store_sample [entry_sample] [])"
proof -
  have "applyEventSession conv_sample None None (Some (js ''s1'')) (state_sample [] []) 7
      = Inr (state_sample [entry_sample] [], True, ())"
    by (simp add: applyEventSession_def identity_of_def optional_session_def sessionId_ok_def ascii_eval
        stateEntry_def assertSessionAvailable_def acceptAuthoritative_def evict.simps MAX_KNOWN_SESSIONS_def
        update_entry_def entry_sample_def createEntry_def)
  thus ?thesis
    by (simp add: mutate_def timestamp_ok_def max_safe_def pruneDedup_def validateState_def store_sample_def)
qed

lemma event_session_is_current_witness:
  "currentSession (store_sample [entry_sample] []) conv_sample = Inr (Some (js ''s1''))"
  using event_session_is_current [OF event_sample] by blast

text \<open>A task that reports its resumed session as invalid, and names no other, leaves the conversation
  without a current session and the invalid one forgotten.\<close>

theorem invalidated_session_is_dropped:
  assumes "currentSession s c = Inr (Some sid)"
    "mutate s now w (applyEventSession c (Some sid) (Some (js ''resume_invalidated'')) None) = (Inr (), s')"
  shows "currentSession s' c = Inr None \<and> (\<exists>ids. knownSessions s' c = Inr ids \<and> sid \<notin> set ids)"
proof -
  have r: "ready s" using assms(1) by (auto simp: currentSession_def read_state_def split: if_splits)
  obtain e where e: "stateEntry (memory s) c = Some e" "s_current e = Some sid"
    using assms(1) r by (auto simp: currentSession_def read_state_def split: option.splits)
  let ?st = "(memory s)\<lparr>dedup := pruneDedup (dedup (memory s)) now\<rparr>"
  have e': "stateEntry ?st c = Some e" using e by simp
  note f = invalidated_transition [OF e' e(2)]
  show ?thesis using assms(2)
  proof (cases rule: mutate_cases)
    case (stored v st ch)
    with f [OF stored(5)] show ?thesis
      by (auto simp: currentSession_ready knownSessions_ready clear_resumed_def known_ids_def)
  qed (auto dest: f)
qed

definition dropped_sample :: session_entry where
  "dropped_sample = entry_sample\<lparr>s_current := None, s_known := []\<rparr>"

lemma dropped_sample_valid [simp]: "validState (state_sample [dropped_sample] [])"
proof (rule state_sample_valid [of _ dropped_sample _ dedup_sample])
  show "session_ok dropped_sample" "sessionSchema dropped_sample"
    using entry_sample_ok
    by (simp_all add: session_ok_def sessionSchema_def dropped_sample_def known_ids_def entry_identity_def)
qed (simp_all add: dedup_sample_ok)

lemma dropped_sample_small [simp]: "\<not> MAX_STATE_BYTES < serializedBytes (state_sample [dropped_sample] [])"
proof -
  let ?v = "serialized (state_json (state_sample [dropped_sample] []))"
  note k = key_sample_printed
  have "ascii_text ?v" using k by (auto simp: sample_print dropped_sample_def quote_units_js quotable_def)
  moreover have "length ?v \<le> 8000"
    using k by (auto simp: sample_print dropped_sample_def quote_units_js quotable_def)
  ultimately show ?thesis by (simp add: serializedBytes_def byte_length_ascii MAX_STATE_BYTES_def)
qed

lemma invalidated_session_is_dropped_witness:
  "currentSession (store_sample [dropped_sample] []) conv_sample = Inr None"
proof -
  have c: "currentSession (store_sample [entry_sample] []) conv_sample = Inr (Some (js ''s1''))"
    by (simp add: currentSession_def read_state_def identity_of_def stateEntry_def entry_sample_def createEntry_def)
  have "applyEventSession conv_sample (Some (js ''s1'')) (Some (js ''resume_invalidated'')) None
      (state_sample [entry_sample] []) 7 = Inr (state_sample [dropped_sample] [], True, ())"
    by (simp add: applyEventSession_def identity_of_def optional_session_def sessionId_ok_def ascii_eval
        stateEntry_def clear_resumed_def update_entry_def dropped_sample_def entry_sample_def createEntry_def)
  hence "mutate (store_sample [entry_sample] []) 7 Written
      (applyEventSession conv_sample (Some (js ''s1'')) (Some (js ''resume_invalidated'')) None)
    = (Inr (), store_sample [dropped_sample] [])"
    by (simp add: mutate_def timestamp_ok_def max_safe_def pruneDedup_def validateState_def store_sample_def)
  from invalidated_session_is_dropped [OF c this] show ?thesis by simp
qed

text \<open>Switching succeeds exactly for the sessions the conversation knows; then that session is the
  current one, otherwise nothing changes.\<close>

theorem switch_only_to_known:
  assumes "mutate s now w (switchKnown c sid) = (Inr b, s')"
  shows "b = (\<exists>ids. knownSessions s c = Inr ids \<and> sid \<in> set ids)
    \<and> (b \<longrightarrow> currentSession s' c = Inr (Some sid))
    \<and> (\<not> b \<longrightarrow> currentSession s' c = currentSession s c)"
  using assms
proof (cases rule: mutate_cases)
  case (same v st)
  with switch_transition [OF same(5)] show ?thesis
    by (auto simp: currentSession_ready knownSessions_ready split: option.splits)
next
  case (stored v st ch)
  with switch_transition [OF stored(5)] show ?thesis
    by (auto simp: currentSession_ready knownSessions_ready split: option.splits)
qed simp

lemma switch_only_to_known_witness:
  "currentSession (store_sample [entry_sample] []) conv_sample = Inr (Some (js ''s1''))"
proof -
  have "mutate (store_sample [entry_sample] []) 9 Written (switchKnown conv_sample (js ''s1''))
      = (Inr True, store_sample [entry_sample] [])"
    by (simp add: mutate_def timestamp_ok_def max_safe_def pruneDedup_def switchKnown_def identity_of_def
        stateEntry_def entry_sample_def createEntry_def known_ids_def)
  from switch_only_to_known [OF this] show ?thesis by simp
qed

text \<open>C2 Exactly-once handling: once the claim of a message is admitted at time \<open>t\<close>, no sequence of
  operations, failures and restarts of handlers within the retention time hands the message out again.\<close>

theorem admitted_message_not_claimed_again:
  assumes "store_inv s" "mutate s t w (admitMessage (dedupKey r uid) claim) = (Inr True, s1)"
    "\<forall>e \<in> set (dedup (memory s)). d_key e = dedupKey r uid \<longrightarrow> d_state e = Claimed"
    "list_all (\<lambda>ev. event_clock ev < t + DEDUP_TTL_MS) events" "now < t + DEDUP_TTL_MS"
  shows "fst (mutate (run_steps store_step s1 events) now w' (claimMessage r uid c)) \<noteq> Inr (CClaimed k c')"
proof -
  let ?st = "(memory s)\<lparr>dedup := pruneDedup (dedup (memory s)) t\<rparr>"
  have cl: "\<forall>e \<in> set (dedup ?st). d_key e = dedupKey r uid \<longrightarrow> d_state e = Claimed"
    using assms(3) by (simp add: set_pruneDedup)
  from assms(2) obtain e where e: "e \<in> set (dedup (memory s1))" "d_key e = dedupKey r uid"
      "admitted_at e t" "ready s1" "validState (memory s1)"
  proof (cases rule: mutate_cases)
    case (same v st)
    thus thesis using admit_records [OF _ cl] by blast
  next
    case (stored v st ch)
    thus thesis using admit_records [of "dedupKey r uid" claim ?st t st ch] cl that by auto
  qed simp
  have ok: "entry_ok e" using e by (auto intro: valid_entry_ok)
  hence "r = d_runtimeId e" "uid = d_messageUid e" using e(2) by (simp_all add: entry_ok_def dedupKey_inj)
  with run_keeps_admitted [OF e(4,1,3) assms(4)] ok admitted_live [OF e(3) assms(5)]
  show ?thesis using live_claim_refused by blast
qed

lemma admit_sample:
  "mutate (store_sample [entry_sample] [dedup_sample]) 7 Written
     (admitMessage (dedupKey (js rt_sample) (js ''m1'')) (js claim_sample))
   = (Inr True, store_sample [entry_sample] [admitted_sample])"
  by (simp add: mutate_def timestamp_ok_def max_safe_def pruneDedup_def dedup_live_def stateTime_def
      DEDUP_TTL_MS_def admitMessage_def admitDedup_def dedup_sample_def validateState_def
      admitted_sample_def [unfolded dedup_sample_def, simplified, symmetric] store_sample_def)

lemma admitted_message_not_claimed_again_witness:
  "\<forall>k c. fst (mutate (run_steps store_step (store_sample [entry_sample] [admitted_sample]) []) 10 Written
     (claimMessage (js rt_sample) (js ''m1'') (js claim_sample))) \<noteq> Inr (CClaimed k c)"
proof (intro allI)
  fix k c
  show "fst (mutate (run_steps store_step (store_sample [entry_sample] [admitted_sample]) []) 10 Written
     (claimMessage (js rt_sample) (js ''m1'') (js claim_sample))) \<noteq> Inr (CClaimed k c)"
  proof (rule admitted_message_not_claimed_again [OF _ admit_sample])
    show "store_inv (store_sample [entry_sample] [dedup_sample])" by (simp add: validState_store)
  qed (simp_all add: dedup_sample_def DEDUP_TTL_MS_def)
qed

text \<open>The recorded position of a discussion (state version, round, revision) never goes back, whatever
  operations run and fail.\<close>

theorem discussion_head_is_monotone:
  assumes "ready s" "mget (interactiveHeads (memory s)) key = Some h"
  shows "\<exists>h'. mget (interactiveHeads (memory (run_steps store_step s events))) key = Some h' \<and> head_le h h'"
  using run_heads [OF assms(1), of events] assms(2) by (simp add: heads_le_def)

definition head_sample :: interactive_head where
  "head_sample = \<lparr>h_key = js ''k'', h_stateVersion = 1, h_round = 0, h_roundRevision = 0\<rparr>"

lemma discussion_head_is_monotone_witness:
  "\<exists>h'. mget (interactiveHeads (memory (run_steps store_step
      ((store_sample [] [])\<lparr>memory := emptyState\<lparr>interactiveHeads := [(js ''d'', head_sample)]\<rparr>\<rparr>)
      [Run (OpClear conv_sample) 5 Written]))) (js ''d'') = Some h' \<and> head_le head_sample h'"
  by (rule discussion_head_is_monotone) (simp_all add: store_sample_def mget_def)

text \<open>C4 A new reservation fences its discussion session: it is unexpired, it becomes the head, and no
  other request of that session is unresolved.\<close>

theorem reservation_is_exclusive:
  assumes "reserveInteractive r st now = Inr (st', True, v)" "r_status r = Reserved"
  shows "v = Some r \<and> now < r_expiresAt r
    \<and> filter (\<lambda>q. r_sessionKey q = r_sessionKey r \<and> r_status q \<noteq> Terminal) (interactiveRequests st') = [r]
    \<and> mget (interactiveHeads st') (r_sessionKey r) = Some (head_of r)"
proof -
  note n = reserve_new [OF assms]
  obtain qs where qs: "interactiveRequests st' = qs @ [r]"
      "\<not> list_ex (\<lambda>e. r_sessionKey e = r_sessionKey r \<and> r_status e \<noteq> Terminal) qs"
    using assms by (auto simp: reserveInteractive_def Let_def split: option.splits if_splits)
  hence "filter (\<lambda>q. r_sessionKey q = r_sessionKey r \<and> r_status q \<noteq> Terminal) qs = []"
    by (auto simp: list_ex_iff filter_empty_conv)
  thus ?thesis using n qs assms(2) by simp
qed

definition request_sample :: interactive_request where
  "request_sample = \<lparr>r_key = js ''k'', r_sessionKey = js ''d'', r_runtimeId = js rt_sample, r_nodeId = js ''n'',
     r_senderId = js ''u'', r_memberId = js ''m'', r_discussionId = js ''g'', r_chatroomId = js ''c'',
     r_requestId = js ''r'', r_taskId = js ''t'', r_instanceId = js ''i'', r_stateVersion = 3, r_round = 1,
     r_roundRevision = 0, r_expiresAt = 90, r_fingerprint = [], r_status = Reserved, r_cancelResult = None,
     r_response = None\<rparr>"

lemma reservation_is_exclusive_witness:
  "\<exists>st'. reserveInteractive request_sample emptyState 7 = Inr (st', True, Some request_sample)
    \<and> mget (interactiveHeads st') (js ''d'') = Some (head_of request_sample)"
proof -
  have "interactiveRequestSchema request_sample"
    by (simp add: interactiveRequestSchema_def request_sample_def timestamp_ok_def max_safe_def ascii_eval)
  then obtain st' where "reserveInteractive request_sample emptyState 7 = Inr (st', True, Some request_sample)"
    by (simp add: reserveInteractive_def emptyState_def mget_def MAX_INTERACTIVE_def, simp add: request_sample_def)
  from this reservation_is_exclusive [OF this] show ?thesis by (auto simp: request_sample_def)
qed

text \<open>A restart loses nothing: a store started on the file a store left holds the same state,
  except for the claims that have expired in the meantime.\<close>

theorem restart_keeps_state:
  assumes "validState (memory s)" "timestamp_ok now"
  shows "\<exists>s'. initialize (new_store (Some (memory s))) (CurrentFile (memory s)) now Written = (Inr (), s')
    \<and> ready s' \<and> memory s' = (memory s)\<lparr>dedup := pruneDedup (dedup (memory s)) now\<rparr>"
  using assms validState_prune [OF assms(1), of now]
  by (simp add: initialize_def loaded_state_def new_store_def validateState_def Let_def)

lemma restart_keeps_state_witness:
  "\<exists>s'. initialize (new_store (Some (memory (store_sample [entry_sample] []))))
      (CurrentFile (memory (store_sample [entry_sample] []))) 9 Written = (Inr (), s')
    \<and> ready s' \<and> memory s' = (memory (store_sample [entry_sample] []))\<lparr>dedup := pruneDedup [] 9\<rparr>"
  using restart_keeps_state [of "store_sample [entry_sample] []" 9] by (simp add: timestamp_ok_def max_safe_def)

end
