(* ===== verification/Base64.thy ===== *)
theory Base64 imports Ascii begin

text \<open>
  Node's base64 and base64url codecs (\<open>Buffer.toString\<close>, \<open>Buffer.from\<close>), which the launch tickets,
  the browser sessions and the discussion wire use.  The decoder reads both alphabets and skips
  every other character.
\<close>

definition alphanumeric :: string where
  "alphanumeric = ''ABCDEFGHIJKLMNOPQRSTUVWXYZabcdefghijklmnopqrstuvwxyz0123456789''"

definition alphabet :: "bool \<Rightarrow> jstr" where
  "alphabet url = js (alphanumeric @ (if url then ''-_'' else ''+/''))"

definition digit_char :: "bool \<Rightarrow> nat \<Rightarrow> code_unit" where
  "digit_char url n = alphabet url ! n"

definition char_digit :: "code_unit \<Rightarrow> nat option" where
  "char_digit u = (case index_of u (alphabet False) of Some n \<Rightarrow> Some n | None \<Rightarrow> index_of u (alphabet True))"

definition six :: "byte \<Rightarrow> byte \<Rightarrow> byte \<Rightarrow> nat list" where
  "six a b c = [unat a div 4, unat a mod 4 * 16 + unat b div 16,
     unat b mod 16 * 4 + unat c div 64, unat c mod 64]"

fun encode_digits :: "bytes \<Rightarrow> nat list" where
  "encode_digits [] = []"
| "encode_digits [a] = take 2 (six a 0 0)"
| "encode_digits [a, b] = take 3 (six a b 0)"
| "encode_digits (a # b # c # r) = six a b c @ encode_digits r"

fun decode_digits :: "nat list \<Rightarrow> bytes" where
  "decode_digits (p # q # r # s # t) =
     of_nat (p * 4 + q div 16) # of_nat (q mod 16 * 16 + r div 4) # of_nat (r mod 4 * 64 + s) # decode_digits t"
| "decode_digits [p, q, r] = [of_nat (p * 4 + q div 16), of_nat (q mod 16 * 16 + r div 4)]"
| "decode_digits [p, q] = [of_nat (p * 4 + q div 16)]"
| "decode_digits ds = []"

definition padding :: "nat \<Rightarrow> jstr" where
  "padding n = replicate ((3 - n mod 3) mod 3) 61"

definition base64 :: "bytes \<Rightarrow> jstr" where
  "base64 bs = map (digit_char False) (encode_digits bs) @ padding (length bs)"

definition base64url :: "bytes \<Rightarrow> jstr" where
  "base64url bs = map (digit_char True) (encode_digits bs)"

definition from_base64 :: "jstr \<Rightarrow> bytes" where
  "from_base64 s = decode_digits (List.map_filter char_digit s)"

subsection \<open>Round trip\<close>

lemma byte_less: "unat (b :: byte) < 256"
  using unsigned_less [of b] by simp

lemma digits_bound: "x \<in> set (encode_digits bs) \<Longrightarrow> x < 64"
proof (induction bs rule: encode_digits.induct)
  case (2 a)
  thus ?case using byte_less [of a] by (auto simp: six_def)
next
  case (3 a b)
  thus ?case using byte_less [of a] byte_less [of b] by (auto simp: six_def)
next
  case (4 a b c r)
  thus ?case using byte_less [of a] byte_less [of b] byte_less [of c] by (auto simp: six_def)
qed simp

lemma join_high: "a div 4 * 4 + (a mod 4 * 16 + b div 16) div 16 = (a::nat)" if "b < 256"
proof -
  have "(a mod 4 * 16 + b div 16) div 16 = a mod 4" using that by simp
  thus ?thesis by simp
qed

lemma join_mid: "(a mod 4 * 16 + b div 16) mod 16 * 16 + (b mod 16 * 4 + c div 64) div 4 = (b::nat)"
  if "b < 256" "c < 256"
proof -
  have "(a mod 4 * 16 + b div 16) mod 16 = b div 16" using that by simp
  moreover have "(b mod 16 * 4 + c div 64) div 4 = b mod 16" using that by simp
  ultimately show ?thesis by simp
qed

lemma join_low: "(b mod 16 * 4 + c div 64) mod 4 * 64 + c mod 64 = (c::nat)" if "c < 256"
proof -
  have "(b mod 16 * 4 + c div 64) mod 4 = c div 64" using that by simp
  thus ?thesis by simp
qed

lemma decode_encode_digits: "decode_digits (encode_digits bs) = bs"
proof (induction bs rule: encode_digits.induct)
  case (2 a)
  have "unat a div 4 * 4 + (unat a mod 4 * 16 + 0 div 16) div 16 = unat a" by (rule join_high) simp
  thus ?case by (simp add: six_def)
next
  case (3 a b)
  note j = join_high [OF byte_less, of "unat a" b] join_mid [OF byte_less, of 0 "unat a" b]
  thus ?case by (simp add: six_def del: of_nat_add of_nat_mult)
next
  case (4 a b c r)
  note j = join_high [OF byte_less, of "unat a" b] join_mid [OF byte_less byte_less, of "unat a" b c]
    join_low [OF byte_less, of "unat b" c]
  from 4 j show ?case by (simp add: six_def del: of_nat_add of_nat_mult)
qed simp

lemma index_of_nth: "distinct xs \<Longrightarrow> n < length xs \<Longrightarrow> index_of (xs ! n) xs = Some n"
  by (induction xs arbitrary: n) (auto simp: nth_Cons split: nat.splits)

lemma length_alphabet [simp]: "length (alphabet url) = 64"
  by (simp add: alphabet_def alphanumeric_def)

lemma distinct_alphabet: "distinct (alphabet url)"
  unfolding alphabet_def js_def by (cases url) (simp_all add: distinct_map inj_on_subset [OF inj_cu] alphanumeric_def)

lemma alphabet_same: "n < 62 \<Longrightarrow> alphabet True ! n = alphabet False ! n"
  by (simp add: alphabet_def js_append nth_append) (simp add: alphanumeric_def)

lemma char_digit_char: "n < 64 \<Longrightarrow> char_digit (digit_char url n) = Some n"
proof -
  assume n: "n < 64"
  have std: "char_digit (alphabet False ! n) = Some n"
    using index_of_nth [OF distinct_alphabet, of n False] n by (simp add: char_digit_def)
  show ?thesis
  proof (cases "url \<and> 62 \<le> n")
    case True
    hence "alphabet True ! n \<notin> set (alphabet False)" using n
      by (cases "n = 62"; cases "n = 63") (simp_all add: alphabet_def alphanumeric_def js_def)
    hence "index_of (alphabet True ! n) (alphabet False) = None" by (simp add: index_of_None_iff)
    thus ?thesis using True n index_of_nth [OF distinct_alphabet, of n True]
      by (simp add: digit_char_def char_digit_def)
  next
    case False
    hence "digit_char url n = alphabet False ! n" using alphabet_same [of n]
      by (cases url) (simp_all add: digit_char_def)
    with std show ?thesis by simp
  qed
qed

lemma map_filter_digits:
  "\<forall>x \<in> set ds. x < 64 \<Longrightarrow> List.map_filter char_digit (map (digit_char url) ds) = ds"
  by (induction ds) (simp_all add: List.map_filter_simps char_digit_char)

lemma char_digit_pad: "char_digit 61 = None"
  by (simp add: char_digit_def alphabet_def alphanumeric_def js_def cu_def)

lemma map_filter_append: "List.map_filter f (xs @ ys) = List.map_filter f xs @ List.map_filter f ys"
  by (simp add: List.map_filter_def)

lemma map_filter_padding: "List.map_filter char_digit (padding n) = []"
  by (simp add: padding_def List.map_filter_def char_digit_pad)

lemma from_base64_base64url: "from_base64 (base64url bs) = bs"
  by (simp add: from_base64_def base64url_def map_filter_digits digits_bound decode_encode_digits)

lemma from_base64_base64: "from_base64 (base64 bs) = bs"
  by (simp add: from_base64_def base64_def map_filter_append map_filter_padding map_filter_digits
      digits_bound decode_encode_digits)

lemma base64url_inj: "base64url a = base64url b \<longleftrightarrow> a = b"
  by (metis from_base64_base64url)

lemma base64_inj: "base64 a = base64 b \<longleftrightarrow> a = b"
  by (metis from_base64_base64)

subsection \<open>Length and alphabet\<close>

lemma length_encode_digits: "length (encode_digits bs) = (4 * length bs + 2) div 3"
  by (induction bs rule: encode_digits.induct) (simp_all add: six_def)

lemma length_base64: "length (base64 bs) = 4 * ((length bs + 2) div 3)"
proof (induction bs rule: encode_digits.induct)
  case (4 a b c r)
  have "(5 + length r) div 3 = Suc ((2 + length r) div 3)" by presburger
  with 4 show ?case by (simp add: base64_def six_def padding_def)
qed (simp_all add: base64_def six_def padding_def)

definition is_url_char :: "code_unit \<Rightarrow> bool" where
  "is_url_char u \<longleftrightarrow> is_upper u \<or> is_lower u \<or> is_digit u \<or> u = 95 \<or> u = 45"

definition is_std_char :: "code_unit \<Rightarrow> bool" where
  "is_std_char u \<longleftrightarrow> is_upper u \<or> is_lower u \<or> is_digit u \<or> u = 43 \<or> u = 47"

lemma alphabet_chars: "list_all is_url_char (alphabet True)" "list_all is_std_char (alphabet False)"
  by (simp_all add: alphabet_def alphanumeric_def js_def is_url_char_def is_std_char_def is_upper_def is_lower_def is_digit_def cu_def)

lemma digit_char_class: "n < 64 \<Longrightarrow> is_url_char (digit_char True n)" "n < 64 \<Longrightarrow> is_std_char (digit_char False n)"
  using alphabet_chars by (simp_all add: digit_char_def list_all_length)

subsection \<open>Canonical tokens\<close>

text \<open>\<open>canonicalToken\<close> of \<^verbatim>\<open>http/tickets.ts\<close> and \<^verbatim>\<open>http/security.ts\<close>: 43 characters that are the
  encoding of 32 bytes.\<close>

definition canonicalToken :: "jstr \<Rightarrow> bool" where
  "canonicalToken s \<longleftrightarrow> length s = 43 \<and> list_all is_url_char s
     \<and> length (from_base64 s) = 32 \<and> base64url (from_base64 s) = s"

lemma canonicalToken_iff: "canonicalToken s \<longleftrightarrow> (\<exists>bs. length bs = 32 \<and> s = base64url bs)"
proof
  assume "canonicalToken s"
  thus "\<exists>bs. length bs = 32 \<and> s = base64url bs" unfolding canonicalToken_def by metis
next
  assume "\<exists>bs. length bs = 32 \<and> s = base64url bs"
  then obtain bs where bs: "length bs = 32" "s = base64url bs" by blast
  have "length s = 43" using bs by (simp add: base64url_def length_encode_digits)
  moreover have "list_all is_url_char s"
    using bs digits_bound by (auto simp: base64url_def list_all_iff digit_char_class)
  ultimately show "canonicalToken s" using bs by (simp add: canonicalToken_def from_base64_base64url)
qed

end
