(* ===== verification/Digest.thy ===== *)
theory Digest imports Base64 begin

text \<open>
  Digests.  SHA-256 and HMAC are \<open>node:crypto\<close>'s: a parameter of the definitions that use them, of
  which only documented facts are assumed where needed (the result has 32 bytes).  Here: the
  hexadecimal text of a digest and the bytes of an ASCII string.
\<close>

definition hex_text :: "bytes \<Rightarrow> jstr" where
  "hex_text bs = concat (map (\<lambda>b. [hex_digit (unat b div 16), hex_digit (unat b mod 16)]) bs)"

definition ascii_bytes :: "jstr \<Rightarrow> bytes" where
  "ascii_bytes s = map ucast s"

lemma is_hex_digit: "n < 16 \<Longrightarrow> is_hex (hex_digit n)"
  by (auto simp: is_hex_def is_digit_def hex_digit_def unat_of_nat)

lemma hex_digit_inj: "m < 16 \<Longrightarrow> n < 16 \<Longrightarrow> hex_digit m = hex_digit n \<longleftrightarrow> m = n"
  by (metis hex_value_digit option.inject)

lemma length_hex_text [simp]: "length (hex_text bs) = 2 * length bs"
  by (induction bs) (simp_all add: hex_text_def)

lemma nibbles: "unat (b :: byte) div 16 < 16" "unat b mod 16 < 16"
  using byte_less [of b] by simp_all

lemma nibbles_inj: "unat (x :: byte) div 16 = unat y div 16 \<Longrightarrow> unat x mod 16 = unat y mod 16 \<Longrightarrow> x = y"
  by (metis div_mult_mod_eq unsigned_word_eqI)

lemma hex_exact_hex_text: "hex_exact n (hex_text bs) \<longleftrightarrow> n = 2 * length bs"
proof -
  have "list_all is_hex (hex_text bs)"
    by (induction bs) (auto simp: hex_text_def intro: is_hex_digit nibbles)
  thus ?thesis by (auto simp: hex_exact_def)
qed

lemma hex_text_inj: "hex_text a = hex_text b \<longleftrightarrow> a = b"
proof (induction a arbitrary: b)
  case Nil
  thus ?case by (cases b) (simp_all add: hex_text_def)
next
  case (Cons x a)
  show ?case
  proof (cases b)
    case (Cons y c)
    have "hex_digit (unat x div 16) = hex_digit (unat y div 16) \<and> hex_digit (unat x mod 16) = hex_digit (unat y mod 16)
        \<longleftrightarrow> x = y"
      unfolding hex_digit_inj [OF nibbles(1) nibbles(1)] hex_digit_inj [OF nibbles(2) nibbles(2)]
      using nibbles_inj by blast
    thus ?thesis using Cons.IH [of c] Cons by (auto simp: hex_text_def)
  qed (simp add: hex_text_def)
qed

end
