(* ===== verification/Tickets.thy ===== *)
theory Tickets imports Digest JsMap Dedup begin

text \<open>
  One-time launch tickets, \<^verbatim>\<open>http/tickets.ts\<close>.  The store keeps only a digest of each ticket; the
  SHA-256 of \<open>node:crypto\<close> is the parameter \<open>sha\<close>, the drawn random buffers and the clock are
  inputs of an event.
\<close>

definition DEFAULT_TTL_MS :: int where
  "DEFAULT_TTL_MS = 30000"

definition DEFAULT_MAXIMUM_OUTSTANDING :: int where
  "DEFAULT_MAXIMUM_OUTSTANDING = 16"

record ticket_record =
  t_issuedAt :: int
  t_expiresAt :: int

record ticket_config =
  tc_instanceId :: jstr
  tc_ttlMs :: int
  tc_maximum :: int

datatype ticket_error = InvalidOptions | TicketCapacity | TicketGenerationFailed | InvalidClock

type_synonym ticket_store = "(jstr, ticket_record) jsmap"

definition boundedPositive :: "int \<Rightarrow> int \<Rightarrow> (ticket_error, int) result" where
  "boundedPositive v maximum =
     (if \<bar>v\<bar> > max_safe \<or> v \<le> 0 \<or> v > maximum then Inl InvalidOptions else Inr v)"

definition new_ticket_store :: "jstr \<Rightarrow> int option \<Rightarrow> int option \<Rightarrow> (ticket_error, ticket_config \<times> ticket_store) result" where
  "new_ticket_store instanceId ttlMs maximumOutstanding =
     (if \<not> prefixed_hex ''svc_'' 32 instanceId then Inl InvalidOptions
      else bind_result (boundedPositive (case ttlMs of None \<Rightarrow> DEFAULT_TTL_MS | Some t \<Rightarrow> t) DEFAULT_TTL_MS) (\<lambda>ttl.
           bind_result (boundedPositive (case maximumOutstanding of None \<Rightarrow> DEFAULT_MAXIMUM_OUTSTANDING | Some m \<Rightarrow> m)
               DEFAULT_MAXIMUM_OUTSTANDING) (\<lambda>mx.
             Inr (\<lparr>tc_instanceId = instanceId, tc_ttlMs = ttl, tc_maximum = mx\<rparr>, []))))"

definition ticket_key :: "(bytes \<Rightarrow> bytes) \<Rightarrow> jstr \<Rightarrow> jstr \<Rightarrow> jstr" where
  "ticket_key sha instanceId ticket =
     hex_text (sha (utf8_encode (js ''quukk-launch-ticket-v1'') @ [0] @ utf8_encode instanceId @ [0]
       @ ascii_bytes ticket))"

definition prune_tickets :: "int \<Rightarrow> ticket_store \<Rightarrow> ticket_store" where
  "prune_tickets now m = mdelete_where (\<lambda>_ r. now \<ge> t_expiresAt r) m"

text \<open>At most eight attempts to draw a ticket whose key is not in use; \<open>rnd\<close> gives the buffers.\<close>

fun draw_ticket ::
  "(bytes \<Rightarrow> bytes) \<Rightarrow> ticket_config \<Rightarrow> int \<Rightarrow> ticket_store \<Rightarrow> nat \<Rightarrow> bytes list
    \<Rightarrow> (ticket_error, jstr \<times> int) result \<times> ticket_store" where
  "draw_ticket sha cfg now m 0 rnd = (Inl TicketGenerationFailed, m)"
| "draw_ticket sha cfg now m (Suc n) [] = (Inl TicketGenerationFailed, m)"
| "draw_ticket sha cfg now m (Suc n) (bs # rnd) =
     (if length bs \<noteq> 32 then (Inl TicketGenerationFailed, m)
      else let ticket = base64url bs; key = ticket_key sha (tc_instanceId cfg) ticket
           in if mhas m key then draw_ticket sha cfg now m n rnd
              else let expiresAt = now + tc_ttlMs cfg
                   in if \<bar>expiresAt\<bar> > max_safe then (Inl TicketGenerationFailed, m)
                      else (Inr (ticket, expiresAt), mset_at m key \<lparr>t_issuedAt = now, t_expiresAt = expiresAt\<rparr>))"

definition issue ::
  "(bytes \<Rightarrow> bytes) \<Rightarrow> ticket_config \<Rightarrow> int \<Rightarrow> bytes list \<Rightarrow> ticket_store
    \<Rightarrow> (ticket_error, jstr \<times> int) result \<times> ticket_store" where
  "issue sha cfg now rnd m =
     (if \<not> timestamp_ok now then (Inl InvalidClock, m)
      else let m1 = prune_tickets now m
           in if int (msize m1) \<ge> tc_maximum cfg then (Inl TicketCapacity, m1)
              else draw_ticket sha cfg now m1 8 rnd)"

text \<open>The ticket is deleted before the clock is read: a clock that throws uses it up.\<close>

definition consume ::
  "(bytes \<Rightarrow> bytes) \<Rightarrow> ticket_config \<Rightarrow> jstr \<Rightarrow> int \<Rightarrow> ticket_store \<Rightarrow> (ticket_error, bool) result \<times> ticket_store" where
  "consume sha cfg ticket now m =
     (if \<not> canonicalToken ticket then (Inr False, m)
      else let key = ticket_key sha (tc_instanceId cfg) ticket
           in case mget m key of
             None \<Rightarrow> (Inr False, m)
           | Some r \<Rightarrow> (if timestamp_ok now then Inr (now < t_expiresAt r) else Inl InvalidClock, mdelete m key))"

definition clear_tickets :: "ticket_store \<Rightarrow> ticket_store" where
  "clear_tickets m = []"

subsection \<open>Runs\<close>

datatype ticket_event = TIssue int "bytes list" | TConsume jstr int | TClear

fun ticket_step :: "(bytes \<Rightarrow> bytes) \<Rightarrow> ticket_config \<Rightarrow> ticket_store \<Rightarrow> ticket_event \<Rightarrow> ticket_store" where
  "ticket_step sha cfg m (TIssue now rnd) = snd (issue sha cfg now rnd m)"
| "ticket_step sha cfg m (TConsume t now) = snd (consume sha cfg t now m)"
| "ticket_step sha cfg m TClear = clear_tickets m"

text \<open>How often an event issued a ticket with a given key, and how often it accepted one.\<close>

fun issued_now :: "(bytes \<Rightarrow> bytes) \<Rightarrow> ticket_config \<Rightarrow> jstr \<Rightarrow> ticket_store \<Rightarrow> ticket_event \<Rightarrow> nat" where
  "issued_now sha cfg key m (TIssue now rnd) =
     (case fst (issue sha cfg now rnd m) of
        Inr (t, _) \<Rightarrow> if ticket_key sha (tc_instanceId cfg) t = key then 1 else 0
      | Inl _ \<Rightarrow> 0)"
| "issued_now sha cfg key m _ = 0"

fun accepted_now :: "(bytes \<Rightarrow> bytes) \<Rightarrow> ticket_config \<Rightarrow> jstr \<Rightarrow> ticket_store \<Rightarrow> ticket_event \<Rightarrow> nat" where
  "accepted_now sha cfg key m (TConsume t now) =
     (if fst (consume sha cfg t now m) = Inr True \<and> ticket_key sha (tc_instanceId cfg) t = key then 1 else 0)"
| "accepted_now sha cfg key m _ = 0"

fun total :: "('s \<Rightarrow> 'e \<Rightarrow> nat) \<Rightarrow> ('s \<Rightarrow> 'e \<Rightarrow> 's) \<Rightarrow> 's \<Rightarrow> 'e list \<Rightarrow> nat" where
  "total f step s [] = 0"
| "total f step s (e # es) = f s e + total f step (step s e) es"

subsection \<open>Invariant\<close>

definition ticket_inv :: "ticket_config \<Rightarrow> ticket_store \<Rightarrow> bool" where
  "ticket_inv cfg m \<longleftrightarrow> mwf m \<and> int (msize m) \<le> max 0 (tc_maximum cfg)"

lemma prune_tickets_facts:
  "mwf m \<Longrightarrow> mwf (prune_tickets now m)" "msize (prune_tickets now m) \<le> msize m"
  by (simp_all add: prune_tickets_def mwf_delete_where msize_delete_where)

lemma draw_inv:
  assumes "mwf m" "int (msize m) < tc_maximum cfg"
  shows "ticket_inv cfg (snd (draw_ticket sha cfg now m n rnd))"
  using assms
proof (induction sha cfg now m n rnd rule: draw_ticket.induct)
  case (3 sha cfg now m n bs rnd)
  show ?case
  proof (cases "length bs \<noteq> 32 \<or> mhas m (ticket_key sha (tc_instanceId cfg) (base64url bs))")
    case True
    thus ?thesis using 3 by (auto simp: ticket_inv_def Let_def)
  next
    case False
    thus ?thesis using "3.prems"
      by (auto simp: ticket_inv_def Let_def mhas_iff mwf_set_at msize_set_at)
  qed
qed (auto simp: ticket_inv_def)

lemma issue_inv: "ticket_inv cfg m \<Longrightarrow> ticket_inv cfg (snd (issue sha cfg now rnd m))"
proof -
  assume i: "ticket_inv cfg m"
  have "mwf (prune_tickets now m)" "int (msize (prune_tickets now m)) \<le> max 0 (tc_maximum cfg)"
    using i prune_tickets_facts(1) [of m now] prune_tickets_facts(2) [of now m] by (auto simp: ticket_inv_def)
  thus ?thesis using i draw_inv [of "prune_tickets now m" cfg sha now 8 rnd]
    by (auto simp: issue_def Let_def ticket_inv_def)
qed

lemma consume_inv: "ticket_inv cfg m \<Longrightarrow> ticket_inv cfg (snd (consume sha cfg t now m))"
proof -
  assume i: "ticket_inv cfg m"
  have "ticket_inv cfg (mdelete m key)" for key
    using i jm.kt_remove_bounded [of m "msize m" key] jm.good_remove [of m key] by (simp add: ticket_inv_def)
  thus ?thesis using i by (auto simp: consume_def Let_def split: option.split)
qed

interpretation tk: state_machine "[]" "ticket_step sha cfg" "ticket_inv cfg"
proof
  show "ticket_inv cfg []" by (simp add: ticket_inv_def)
next
  fix m e
  assume "ticket_inv cfg m"
  thus "ticket_inv cfg (ticket_step sha cfg m e)"
    by (cases e) (simp_all add: issue_inv consume_inv, simp add: ticket_inv_def clear_tickets_def)
qed

subsection \<open>One use per issue\<close>

definition present :: "ticket_store \<Rightarrow> jstr \<Rightarrow> nat" where
  "present m key = (if mhas m key then 1 else 0)"

lemma present_prune: "mwf m \<Longrightarrow> present (prune_tickets now m) key \<le> present m key"
  by (auto simp: present_def prune_tickets_def mhas_iff mget_delete_where split: option.splits)

lemma present_draw:
  "mwf m \<Longrightarrow> present (snd (draw_ticket sha cfg now m n rnd)) key
     \<le> present m key + (case fst (draw_ticket sha cfg now m n rnd) of
          Inr (t, _) \<Rightarrow> if ticket_key sha (tc_instanceId cfg) t = key then 1 else 0 | Inl _ \<Rightarrow> 0)"
proof (induction sha cfg now m n rnd rule: draw_ticket.induct)
  case (3 sha cfg now m n bs rnd)
  show ?case
  proof (cases "length bs \<noteq> 32 \<or> mhas m (ticket_key sha (tc_instanceId cfg) (base64url bs))")
    case True
    thus ?thesis using 3 by (auto simp: Let_def)
  next
    case False
    thus ?thesis by (auto simp: Let_def present_def mhas_iff mget_set_at)
  qed
qed simp_all

lemma present_step:
  assumes "mwf m"
  shows "present (ticket_step sha cfg m e) key + accepted_now sha cfg key m e
    \<le> present m key + issued_now sha cfg key m e"
proof (cases e)
  case (TIssue now rnd)
  have "present (snd (issue sha cfg now rnd m)) key \<le> present m key + (case fst (issue sha cfg now rnd m) of
          Inr (t, _) \<Rightarrow> if ticket_key sha (tc_instanceId cfg) t = key then 1 else 0 | Inl _ \<Rightarrow> 0)"
    using present_draw [OF prune_tickets_facts(1) [OF assms], of sha cfg now now 8 rnd key]
      present_prune [OF assms, of now key]
    by (auto simp: issue_def Let_def)
  thus ?thesis using TIssue by simp
next
  case (TConsume t now)
  thus ?thesis
    by (auto simp: consume_def Let_def present_def mhas_iff mget_delete split: option.splits)
qed (simp add: present_def mhas_def clear_tickets_def)

lemma accepted_bounded:
  assumes "ticket_inv cfg m"
  shows "present (run_steps (ticket_step sha cfg) m es) key + total (accepted_now sha cfg key) (ticket_step sha cfg) m es
    \<le> present m key + total (issued_now sha cfg key) (ticket_step sha cfg) m es"
  using assms
proof (induction es arbitrary: m)
  case (Cons e es)
  have "mwf m" using Cons.prems by (simp add: ticket_inv_def)
  note s = present_step [OF this, of sha cfg e key]
  have "ticket_inv cfg (ticket_step sha cfg m e)" using Cons.prems by (rule tk.step_inv)
  from Cons.IH [OF this] s show ?case by simp
qed simp

subsection \<open>A fresh ticket\<close>

lemma draw_ok:
  assumes "draw_ticket sha cfg now m n rnd = (Inr (t, ex), m')"
  shows "canonicalToken t \<and> ex = now + tc_ttlMs cfg
    \<and> mget m' (ticket_key sha (tc_instanceId cfg) t) = Some \<lparr>t_issuedAt = now, t_expiresAt = ex\<rparr>"
  using assms
proof (induction sha cfg now m n rnd rule: draw_ticket.induct)
  case (3 sha cfg now m n bs rnd)
  show ?case
  proof (cases "length bs \<noteq> 32 \<or> mhas m (ticket_key sha (tc_instanceId cfg) (base64url bs))")
    case True
    thus ?thesis using 3 by (auto simp: Let_def split: if_splits)
  next
    case False
    thus ?thesis using "3.prems"
      by (auto simp: Let_def mget_set_at canonicalToken_iff split: if_splits)
  qed
qed simp_all

lemma issue_ok:
  assumes "issue sha cfg now rnd m = (Inr (t, ex), m')"
  shows "timestamp_ok now \<and> canonicalToken t \<and> ex = now + tc_ttlMs cfg
    \<and> mget m' (ticket_key sha (tc_instanceId cfg) t) = Some \<lparr>t_issuedAt = now, t_expiresAt = ex\<rparr>"
  using assms draw_ok [of sha cfg now "prune_tickets now m" 8 rnd t ex m']
  by (auto simp: issue_def Let_def split: if_splits)

lemma draw_fresh:
  assumes "length bs = 32" "mget m (ticket_key sha (tc_instanceId cfg) (base64url bs)) = None"
    "\<bar>now + tc_ttlMs cfg\<bar> \<le> max_safe"
  shows "\<exists>m'. draw_ticket sha cfg now m (Suc n) (bs # rnd) = (Inr (base64url bs, now + tc_ttlMs cfg), m')"
  using assms by (simp add: Let_def mhas_iff)

subsection \<open>Properties\<close>

text \<open>C7 A launch ticket is good for one use: in any history of the store, the tickets with a given
  digest are accepted at most as often as such a ticket was issued.\<close>

theorem ticket_used_at_most_once:
  "total (accepted_now sha cfg key) (ticket_step sha cfg) [] events
     \<le> total (issued_now sha cfg key) (ticket_step sha cfg) [] events"
  using accepted_bounded [of cfg "[]" sha events key] by (simp add: ticket_inv_def present_def mhas_def)

text \<open>A ticket that was just issued is accepted by the next \<open>consume\<close> exactly until it expires, and
  is gone afterwards; the store never holds more than its maximum of outstanding tickets.\<close>

theorem fresh_ticket_accepted_until_expiry:
  assumes "issue sha cfg now rnd m = (Inr (ticket, expiresAt), m')" "timestamp_ok later"
  shows "expiresAt = now + tc_ttlMs cfg
    \<and> fst (consume sha cfg ticket later m') = Inr (later < expiresAt)
    \<and> fst (consume sha cfg ticket again (snd (consume sha cfg ticket later m'))) = Inr False
    \<and> (ticket_inv cfg m \<longrightarrow> int (msize m') \<le> max 0 (tc_maximum cfg))"
proof -
  have c: "fst (consume sha cfg ticket later m') = Inr (later < expiresAt)"
      "mget (snd (consume sha cfg ticket later m')) (ticket_key sha (tc_instanceId cfg) ticket) = None"
    using issue_ok [OF assms(1)] assms(2) by (simp_all add: consume_def mget_delete)
  have "fst (consume sha cfg ticket again (snd (consume sha cfg ticket later m'))) = Inr False"
    using c(2) unfolding consume_def [of sha cfg ticket again] by (simp add: Let_def)
  with c(1) issue_ok [OF assms(1)] issue_inv [of cfg m sha now rnd] assms(1)
  show ?thesis by (simp add: ticket_inv_def)
qed

definition ticket_config_sample :: ticket_config where
  "ticket_config_sample = \<lparr>tc_instanceId = js ''svc_0123456789abcdef0123456789abcdef'',
     tc_ttlMs = DEFAULT_TTL_MS, tc_maximum = DEFAULT_MAXIMUM_OUTSTANDING\<rparr>"

lemma fresh_ticket_accepted_until_expiry_witness:
  "\<exists>ticket m'. issue (\<lambda>bs. take 32 bs) ticket_config_sample 1000 [replicate 32 7] [] = (Inr (ticket, 31000), m')
     \<and> fst (consume (\<lambda>bs. take 32 bs) ticket_config_sample ticket 30999 m') = Inr True"
proof -
  have "\<exists>m'. issue (\<lambda>bs. take 32 bs) ticket_config_sample 1000 [replicate 32 7] [] =
      (Inr (base64url (replicate 32 7), 31000), m')"
    using draw_fresh [of "replicate 32 7" "[]" "\<lambda>bs. take 32 bs" ticket_config_sample 1000 7 "[]"]
    by (simp add: issue_def prune_tickets_def mdelete_where_def timestamp_ok_def max_safe_def
        ticket_config_sample_def DEFAULT_TTL_MS_def DEFAULT_MAXIMUM_OUTSTANDING_def del: draw_ticket.simps)
  then obtain m' where i: "issue (\<lambda>bs. take 32 bs) ticket_config_sample 1000 [replicate 32 7] [] =
      (Inr (base64url (replicate 32 7), 31000), m')" by blast
  from fresh_ticket_accepted_until_expiry [OF i, of 30999]
  have "fst (consume (\<lambda>bs. take 32 bs) ticket_config_sample (base64url (replicate 32 7)) 30999 m') = Inr True"
    by (simp add: timestamp_ok_def max_safe_def)
  with i show ?thesis by blast
qed

text \<open>\<open>canonicalToken\<close> accepts exactly the base64url texts of 32 bytes, so two different accepted
  texts always stand for different secrets.\<close>

theorem canonical_token_is_encoding:
  "canonicalToken s \<longleftrightarrow> (\<exists>bs. length bs = 32 \<and> s = base64url bs \<and> from_base64 s = bs)"
  unfolding canonicalToken_iff by (metis from_base64_base64url)

end
