(* ===== verification/BrowserSessions.thy ===== *)
theory BrowserSessions imports Tickets begin

text \<open>
  Browser sessions of the local console, \<^verbatim>\<open>http/security.ts\<close>: a cookie token and a CSRF token, both
  stored as digests only, with idle and absolute expiry and a bounded table.  The SHA-256 of
  \<open>node:crypto\<close> is the parameter \<open>sha\<close>, random buffers and the clock are inputs.
\<close>

definition DEFAULT_IDLE_TTL_MS :: int where
  "DEFAULT_IDLE_TTL_MS = 30 * 60000"

definition DEFAULT_ABSOLUTE_TTL_MS :: int where
  "DEFAULT_ABSOLUTE_TTL_MS = 8 * 60 * 60000"

definition DEFAULT_MAXIMUM_SESSIONS :: int where
  "DEFAULT_MAXIMUM_SESSIONS = 16"

definition COOKIE_LIMIT :: nat where
  "COOKIE_LIMIT = 4096"

record session_record =
  b_csrfDigest :: bytes
  b_createdAt :: int
  b_lastSeen :: int
  b_authVersion :: nat
  b_previousLastSeen :: "int option"

record session_config =
  sc_idleTtlMs :: int
  sc_absoluteTtlMs :: int
  sc_maximum :: int

datatype session_error = InvalidSessionOptions | CredentialGenerationFailed | InvalidSessionClock

type_synonym session_table = "(jstr, session_record) jsmap"

definition bounded_option :: "int option \<Rightarrow> int \<Rightarrow> (session_error, int) result" where
  "bounded_option v maximum = (let x = (case v of None \<Rightarrow> maximum | Some x \<Rightarrow> x)
     in if \<bar>x\<bar> > max_safe \<or> x \<le> 0 \<or> x > maximum then Inl InvalidSessionOptions else Inr x)"

definition new_session_store ::
  "int option \<Rightarrow> int option \<Rightarrow> int option \<Rightarrow> (session_error, session_config \<times> session_table) result" where
  "new_session_store idle absolute maximum =
     bind_result (bounded_option idle DEFAULT_IDLE_TTL_MS) (\<lambda>i.
     bind_result (bounded_option absolute DEFAULT_ABSOLUTE_TTL_MS) (\<lambda>a.
       if a < i then Inl InvalidSessionOptions
       else bind_result (bounded_option maximum DEFAULT_MAXIMUM_SESSIONS) (\<lambda>m.
         Inr (\<lparr>sc_idleTtlMs = i, sc_absoluteTtlMs = a, sc_maximum = m\<rparr>, []))))"

definition digest_key :: "(bytes \<Rightarrow> bytes) \<Rightarrow> jstr \<Rightarrow> jstr" where
  "digest_key sha v = hex_text (sha (ascii_bytes v))"

subsection \<open>The cookie header\<close>

definition SESSION_COOKIE :: jstr where
  "SESSION_COOKIE = js ''quukk_session''"

definition cookie_values :: "jstr \<Rightarrow> jstr list" where
  "cookie_values header = concat (map (\<lambda>part. let v = trim part in
     case index_of 61 v of
       None \<Rightarrow> []
     | Some i \<Rightarrow> if i < 1 \<or> take i v \<noteq> SESSION_COOKIE then [] else [drop (Suc i) v])
     (split_on 59 header))"

definition cookieToken :: "jstr option \<Rightarrow> jstr option" where
  "cookieToken header = (case header of None \<Rightarrow> None | Some h \<Rightarrow>
     if byte_length h > COOKIE_LIMIT \<or> list_ex (\<lambda>u. unat u < 32 \<or> unat u > 126) h then None
     else (case cookie_values h of [v] \<Rightarrow> if canonicalToken v then Some v else None | _ \<Rightarrow> None))"

subsection \<open>Expiry and eviction\<close>

definition expired :: "session_config \<Rightarrow> session_record \<Rightarrow> int \<Rightarrow> bool" where
  "expired cfg r now \<longleftrightarrow> now - b_lastSeen r \<ge> sc_idleTtlMs cfg \<or> now - b_createdAt r \<ge> sc_absoluteTtlMs cfg"

definition prune_sessions :: "session_config \<Rightarrow> int \<Rightarrow> session_table \<Rightarrow> session_table" where
  "prune_sessions cfg now m = mdelete_where (\<lambda>_ r. expired cfg r now) m"

definition older :: "session_record \<Rightarrow> session_record \<Rightarrow> bool" where
  "older r s \<longleftrightarrow> b_lastSeen r < b_lastSeen s \<or> (b_lastSeen r = b_lastSeen s \<and> b_createdAt r < b_createdAt s)"

fun oldest_from :: "jstr \<times> session_record \<Rightarrow> session_table \<Rightarrow> jstr \<times> session_record" where
  "oldest_from best [] = best"
| "oldest_from best ((k, r) # m) = oldest_from (if older r (snd best) then (k, r) else best) m"

definition evictLeastRecentlyUsed :: "session_table \<Rightarrow> session_table" where
  "evictLeastRecentlyUsed m = (case m of [] \<Rightarrow> [] | p # r \<Rightarrow> mdelete m (fst (oldest_from p r)))"

subsection \<open>Operations\<close>

text \<open>The loop of \<open>create\<close> draws a cookie and, if its digest is new, a CSRF token.\<close>

fun draw_session ::
  "(bytes \<Rightarrow> bytes) \<Rightarrow> session_config \<Rightarrow> int \<Rightarrow> session_table \<Rightarrow> nat \<Rightarrow> bytes list
    \<Rightarrow> (session_error, jstr \<times> jstr \<times> int) result \<times> session_table" where
  "draw_session sha cfg now m 0 rnd = (Inl CredentialGenerationFailed, m)"
| "draw_session sha cfg now m (Suc n) [] = (Inl CredentialGenerationFailed, m)"
| "draw_session sha cfg now m (Suc n) (bs # rnd) =
     (if length bs \<noteq> 32 then (Inl CredentialGenerationFailed, m)
      else let key = digest_key sha (base64url bs)
           in if mhas m key then draw_session sha cfg now m n rnd
              else case rnd of
                [] \<Rightarrow> (Inl CredentialGenerationFailed, m)
              | cs # _ \<Rightarrow>
                  if length cs \<noteq> 32 then (Inl CredentialGenerationFailed, m)
                  else (Inr (base64url bs, base64url cs, sc_absoluteTtlMs cfg),
                        mset_at m key \<lparr>b_csrfDigest = sha (ascii_bytes (base64url cs)), b_createdAt = now,
                          b_lastSeen = now, b_authVersion = 0, b_previousLastSeen = None\<rparr>))"

definition create ::
  "(bytes \<Rightarrow> bytes) \<Rightarrow> session_config \<Rightarrow> int \<Rightarrow> bytes list \<Rightarrow> session_table
    \<Rightarrow> (session_error, jstr \<times> jstr \<times> int) result \<times> session_table" where
  "create sha cfg now rnd m =
     (if \<not> timestamp_ok now then (Inl InvalidSessionClock, m)
      else let m1 = prune_sessions cfg now m;
               m2 = (if int (msize m1) \<ge> sc_maximum cfg then evictLeastRecentlyUsed m1 else m1)
           in draw_session sha cfg now m2 8 rnd)"

definition session_key :: "jstr \<Rightarrow> nat \<Rightarrow> jstr" where
  "session_key key version = key @ [46] @ nat_digits version"

definition authenticate ::
  "(bytes \<Rightarrow> bytes) \<Rightarrow> session_config \<Rightarrow> jstr option \<Rightarrow> int \<Rightarrow> session_table
    \<Rightarrow> (session_error, jstr option) result \<times> session_table" where
  "authenticate sha cfg header now m =
     (case cookieToken header of
        None \<Rightarrow> (Inr None, m)
      | Some token \<Rightarrow>
          let key = digest_key sha token
          in case mget m key of
               None \<Rightarrow> (Inr None, m)
             | Some r \<Rightarrow>
                 if \<not> timestamp_ok now then (Inl InvalidSessionClock, m)
                 else if expired cfg r now then (Inr None, mdelete m key)
                 else (Inr (Some (session_key key (b_authVersion r + 1))),
                       mset_at m key (r\<lparr>b_previousLastSeen := Some (b_lastSeen r), b_lastSeen := now,
                         b_authVersion := b_authVersion r + 1\<rparr>)))"

text \<open>\<open>/^([0-9a-f]{64})\.([1-9]\d*)$/\<close>\<close>

definition parse_session_key :: "jstr \<Rightarrow> (jstr \<times> nat) option" where
  "parse_session_key s =
     (if length s < 66 \<or> \<not> hex_exact 64 (take 64 s) \<or> s ! 64 \<noteq> 46 then None
      else let d = drop 65 s
           in if list_all is_digit d \<and> hd d \<noteq> 48 then Some (take 64 s, digits_value d 0) else None)"

definition verifyCsrf :: "(bytes \<Rightarrow> bytes) \<Rightarrow> jstr \<Rightarrow> jstr option \<Rightarrow> session_table \<Rightarrow> bool \<times> session_table" where
  "verifyCsrf sha sessionKey v m =
     (case parse_session_key sessionKey of
        None \<Rightarrow> (False, m)
      | Some (key, version) \<Rightarrow>
          (case mget m key of
             None \<Rightarrow> (False, m)
           | Some r \<Rightarrow>
               if b_authVersion r \<noteq> version then (False, m)
               else let ok = (case v of None \<Rightarrow> False
                               | Some t \<Rightarrow> canonicalToken t \<and> b_csrfDigest r = sha (ascii_bytes t));
                        r1 = (case b_previousLastSeen r of
                                Some p \<Rightarrow> if ok then r else r\<lparr>b_lastSeen := p\<rparr> | None \<Rightarrow> r)
                    in (ok, mset_at m key (r1\<lparr>b_previousLastSeen := None\<rparr>))))"

subsection \<open>Control credentials\<close>

text \<open>\<open>hmac\<close> is HMAC-SHA-256 of \<open>node:crypto\<close>, with its key first.\<close>

definition deriveControlCredential ::
  "(bytes \<Rightarrow> bytes \<Rightarrow> bytes) \<Rightarrow> jstr \<Rightarrow> jstr \<Rightarrow> (session_error, jstr) result" where
  "deriveControlCredential hmac bridgeSecret instanceId =
     (if \<not> canonicalToken bridgeSecret \<or> \<not> prefixed_hex ''svc_'' 32 instanceId
      then Inl InvalidSessionOptions
      else Inr (base64url (hmac (from_base64 bridgeSecret)
             (utf8_encode (js ''quukk-local-control-v1'' @ [0] @ instanceId)))))"

definition constantTimeCredentialEqual :: "(bytes \<Rightarrow> bytes) \<Rightarrow> jstr \<Rightarrow> jstr \<Rightarrow> bool" where
  "constantTimeCredentialEqual sha expected presented \<longleftrightarrow>
     canonicalToken expected \<and> canonicalToken presented
     \<and> sha (ascii_bytes expected) = sha (ascii_bytes presented)"

subsection \<open>Lemmas\<close>

lemma hd_append_nonempty: "xs \<noteq> [] \<Longrightarrow> hd (xs @ ys) = hd xs"
  by simp

lemma parse_session_key_print:
  assumes "hex_exact 64 key" "0 < version"
  shows "parse_session_key (session_key key version) = Some (key, version)"
proof -
  note d = nat_digits_correct [of version]
  have l: "length key = 64" using assms(1) by (simp add: hex_exact_def)
  hence t: "take 64 (session_key key version) = key" "drop 65 (session_key key version) = nat_digits version"
    "session_key key version ! 64 = 46"
    by (simp_all add: session_key_def nth_append)
  have "1 \<le> length (nat_digits version)" using d by (cases "nat_digits version") simp_all
  hence "66 \<le> length (session_key key version)" using l by (simp add: session_key_def)
  moreover have "hd (nat_digits version) \<noteq> 48" using d assms(2) by auto
  ultimately show ?thesis using t d assms(1) by (simp add: parse_session_key_def Let_def)
qed

definition session_inv :: "session_config \<Rightarrow> session_table \<Rightarrow> bool" where
  "session_inv cfg m \<longleftrightarrow> mwf m \<and> int (msize m) \<le> max 1 (sc_maximum cfg)"

lemma oldest_from_in: "oldest_from best m \<in> insert best (set m)"
  by (induction best m rule: oldest_from.induct) auto

lemma oldest_from_least:
  "p \<in> insert best (set m) \<Longrightarrow> \<not> older (snd p) (snd (oldest_from best m))"
proof (induction best m arbitrary: p rule: oldest_from.induct)
  case (1 best)
  thus ?case by (auto simp: older_def)
next
  case (2 best k r m)
  let ?b = "if older r (snd best) then (k, r) else best"
  have b: "\<not> older (snd ?b) (snd (oldest_from ?b m))" by (rule "2.IH") simp
  show ?case
  proof (cases "p \<in> insert ?b (set m)")
    case False
    hence "\<not> older (snd p) (snd ?b)" using "2.prems" by (auto simp: older_def split: if_splits)
    with b show ?thesis by (auto simp: older_def)
  qed (use "2.IH" in simp)
qed

lemma evict_inv:
  assumes "mwf m" "int (msize m) \<le> max 1 (sc_maximum cfg)" "sc_maximum cfg \<le> int (msize m)"
  shows "mwf (evictLeastRecentlyUsed m) \<and> int (msize (evictLeastRecentlyUsed m)) < max 1 (sc_maximum cfg)"
proof (cases m)
  case Nil
  thus ?thesis by (simp add: evictLeastRecentlyUsed_def)
next
  case (Cons p r)
  have "oldest_from p r \<in> set m" using oldest_from_in [of p r] Cons by simp
  hence "mget m (fst (oldest_from p r)) \<noteq> None"
    using mget_in [OF assms(1), of "fst (oldest_from p r)" "snd (oldest_from p r)"] by simp
  from jm.count_remove [OF assms(1) this] assms Cons show ?thesis
    by (simp add: evictLeastRecentlyUsed_def mwf_delete)
qed

lemma draw_session_inv:
  assumes "mwf m" "int (msize m) < max 1 (sc_maximum cfg)"
  shows "session_inv cfg (snd (draw_session sha cfg now m n rnd))"
  using assms
proof (induction sha cfg now m n rnd rule: draw_session.induct)
  case (3 sha cfg now m n bs rnd)
  show ?case
  proof (cases "length bs \<noteq> 32 \<or> mhas m (digest_key sha (base64url bs))")
    case True
    thus ?thesis using 3 by (auto simp: session_inv_def Let_def)
  next
    case False
    thus ?thesis using "3.prems"
      by (auto simp: session_inv_def Let_def mhas_iff mwf_set_at msize_set_at split: list.split)
  qed
qed (auto simp: session_inv_def)

lemma create_inv:
  assumes "session_inv cfg m"
  shows "session_inv cfg (snd (create sha cfg now rnd m))"
proof -
  let ?m1 = "prune_sessions cfg now m"
  have p: "mwf ?m1" "int (msize ?m1) \<le> max 1 (sc_maximum cfg)"
    using assms msize_delete_where [of "\<lambda>_ r. expired cfg r now" m]
    by (auto simp: session_inv_def prune_sessions_def mwf_delete_where)
  let ?m2 = "if int (msize ?m1) \<ge> sc_maximum cfg then evictLeastRecentlyUsed ?m1 else ?m1"
  have "mwf ?m2 \<and> int (msize ?m2) < max 1 (sc_maximum cfg)" using p evict_inv [OF p] by auto
  thus ?thesis using draw_session_inv [of ?m2 cfg sha now 8 rnd] assms by (simp add: create_def Let_def)
qed

lemma authenticate_inv: "session_inv cfg m \<Longrightarrow> session_inv cfg (snd (authenticate sha cfg h now m))"
  using msize_delete_le [of m]
  by (auto simp: authenticate_def Let_def session_inv_def mwf_delete mwf_set_at msize_set_at
      split: option.split intro: order_trans [OF of_nat_mono])

lemma verify_inv: "session_inv cfg m \<Longrightarrow> session_inv cfg (snd (verifyCsrf sha k v m))"
  by (auto simp: verifyCsrf_def Let_def session_inv_def mwf_set_at msize_set_at split: option.split)

definition clear_sessions :: "session_table \<Rightarrow> session_table" where
  "clear_sessions m = []"

datatype session_event =
    SCreate int "bytes list"
  | SAuthenticate "jstr option" int
  | SVerify jstr "jstr option"
  | SClear

fun session_step :: "(bytes \<Rightarrow> bytes) \<Rightarrow> session_config \<Rightarrow> session_table \<Rightarrow> session_event \<Rightarrow> session_table" where
  "session_step sha cfg m (SCreate now rnd) = snd (create sha cfg now rnd m)"
| "session_step sha cfg m (SAuthenticate h now) = snd (authenticate sha cfg h now m)"
| "session_step sha cfg m (SVerify k v) = snd (verifyCsrf sha k v m)"
| "session_step sha cfg m SClear = clear_sessions m"

interpretation bs: state_machine "[]" "session_step sha cfg" "session_inv cfg"
proof
  show "session_inv cfg []" by (simp add: session_inv_def clear_sessions_def)
next
  fix m e
  assume "session_inv cfg m"
  thus "session_inv cfg (session_step sha cfg m e)"
    by (cases e) (simp_all add: create_inv authenticate_inv verify_inv, simp add: session_inv_def clear_sessions_def)
qed

subsection \<open>The cookie of a session\<close>

lemma url_char_facts: "is_url_char u \<Longrightarrow> u \<noteq> 59 \<and> \<not> is_ws u \<and> 32 \<le> unat u \<and> unat u \<le> 126"
  by (auto simp: is_url_char_def is_upper_def is_lower_def is_digit_def is_ws_def)

lemma split_on_absent: "c \<notin> set s \<Longrightarrow> split_on c s = [s]"
  by (induction s) auto

lemma trim_id: "s \<noteq> [] \<Longrightarrow> \<not> is_ws (hd s) \<Longrightarrow> \<not> is_ws (last s) \<Longrightarrow> trim s = s"
  using trimmed_iff [of s] by (simp add: trimmed_def)

definition session_cookie :: "jstr \<Rightarrow> jstr" where
  "session_cookie token = js ''quukk_session='' @ token"

lemma index_of_prefix: "c \<notin> set p \<Longrightarrow> index_of c (p @ c # r) = Some (length p)"
  by (induction p) auto

lemma cookieToken_cookie:
  assumes "canonicalToken token"
  shows "cookieToken (Some (session_cookie token)) = Some token"
proof -
  have len: "length token = 43" and ch: "list_all is_url_char token"
    using assms by (simp_all add: canonicalToken_def)
  let ?c = "session_cookie token"
  have pre: "\<forall>u \<in> set (js ''quukk_session=''). u \<noteq> 59 \<and> 32 \<le> unat u \<and> unat u \<le> 126"
    by (simp add: js_def cu_def)
  have all: "u \<noteq> 59 \<and> 32 \<le> unat u \<and> unat u \<le> 126" if "u \<in> set ?c" for u
    using that pre ch url_char_facts [of u] by (auto simp: session_cookie_def list_all_iff)
  have "token \<noteq> []" using len by auto
  moreover hence "last ?c = last token" by (simp add: session_cookie_def)
  moreover have "\<not> is_ws (last token)" using ch \<open>token \<noteq> []\<close> url_char_facts by (simp add: list_all_iff)
  moreover have "\<not> is_ws (hd ?c)" by (simp add: session_cookie_def js_def is_ws_def)
  ultimately have tr: "trim ?c = ?c" by (intro trim_id) (auto simp: session_cookie_def)
  have sp: "split_on 59 ?c = [?c]" by (rule split_on_absent) (use all in blast)
  have eq: "?c = SESSION_COOKIE @ 61 # token" "61 \<notin> set SESSION_COOKIE" "length SESSION_COOKIE = 13"
    by (simp_all add: session_cookie_def SESSION_COOKIE_def js_def cu_def)
  have "index_of 61 ?c = Some 13" using index_of_prefix [OF eq(2), of token] eq(1,3) by simp
  moreover have "take 13 ?c = SESSION_COOKIE" "drop 14 ?c = token" using eq(1,3) by simp_all
  ultimately have "cookie_values ?c = [token]" using tr sp by (simp add: cookie_values_def)
  moreover have "byte_length ?c \<le> COOKIE_LIMIT"
  proof -
    have "\<forall>u \<in> set ?c. \<not> is_high u" using all by (force simp: is_high_def)
    hence cp: "code_points ?c = map unat ?c" by (rule code_points_plain)
    have "(\<forall>u \<in> set s. unat u \<le> 126) \<Longrightarrow> length (concat (map (encode_point \<circ> unat) s)) = length s" for s :: jstr
      by (induction s) (simp_all add: encode_point_def)
    with all cp have "byte_length ?c = length ?c" by (simp add: byte_length_def utf8_encode_def)
    thus ?thesis using len by (simp add: session_cookie_def COOKIE_LIMIT_def)
  qed
  moreover have "\<not> list_ex (\<lambda>u. unat u < 32 \<or> unat u > 126) ?c" using all by (force simp: list_ex_iff)
  ultimately show ?thesis using assms by (simp add: cookieToken_def)
qed

subsection \<open>Authentication\<close>

lemma hex_digest_key: "(\<And>x. length (sha x) = 32) \<Longrightarrow> hex_exact 64 (digest_key sha t)"
  by (simp add: digest_key_def hex_exact_hex_text)

definition touched :: "session_record \<Rightarrow> int \<Rightarrow> session_record" where
  "touched r now = r\<lparr>b_previousLastSeen := Some (b_lastSeen r), b_lastSeen := now,
     b_authVersion := b_authVersion r + 1\<rparr>"

lemma authenticate_live:
  assumes "cookieToken h = Some token" "mget m (digest_key sha token) = Some r" "timestamp_ok now"
    "\<not> expired cfg r now"
  shows "authenticate sha cfg h now m =
    (Inr (Some (session_key (digest_key sha token) (b_authVersion r + 1))),
     mset_at m (digest_key sha token) (touched r now))"
  using assms by (simp add: authenticate_def touched_def Let_def)

lemma verify_current:
  assumes "hex_exact 64 key" "mget m key = Some r" "0 < version"
  shows "verifyCsrf sha (session_key key version) v m =
    (if b_authVersion r \<noteq> version then (False, m)
     else let ok = (case v of None \<Rightarrow> False | Some t \<Rightarrow> canonicalToken t \<and> b_csrfDigest r = sha (ascii_bytes t));
              r1 = (case b_previousLastSeen r of Some p \<Rightarrow> if ok then r else r\<lparr>b_lastSeen := p\<rparr> | None \<Rightarrow> r)
          in (ok, mset_at m key (r1\<lparr>b_previousLastSeen := None\<rparr>)))"
  using assms by (simp add: verifyCsrf_def parse_session_key_print)

lemma draw_session_ok:
  assumes "draw_session sha cfg now m n rnd = (Inr (cookie, csrf, ttl), m')"
  shows "canonicalToken cookie \<and> canonicalToken csrf \<and> ttl = sc_absoluteTtlMs cfg
    \<and> mget m' (digest_key sha cookie) = Some \<lparr>b_csrfDigest = sha (ascii_bytes csrf), b_createdAt = now,
        b_lastSeen = now, b_authVersion = 0, b_previousLastSeen = None\<rparr>"
  using assms
proof (induction sha cfg now m n rnd rule: draw_session.induct)
  case (3 sha cfg now m n bs rnd)
  show ?case
  proof (cases "length bs \<noteq> 32 \<or> mhas m (digest_key sha (base64url bs))")
    case True
    thus ?thesis using 3 by (auto simp: Let_def split: if_splits)
  next
    case False
    thus ?thesis using "3.prems"
      by (auto simp: Let_def mget_set_at canonicalToken_iff split: if_splits list.splits)
  qed
qed simp_all

lemma create_ok:
  assumes "create sha cfg now rnd m = (Inr (cookie, csrf, ttl), m')"
  shows "canonicalToken cookie \<and> canonicalToken csrf \<and> ttl = sc_absoluteTtlMs cfg
    \<and> mget m' (digest_key sha cookie) = Some \<lparr>b_csrfDigest = sha (ascii_bytes csrf), b_createdAt = now,
        b_lastSeen = now, b_authVersion = 0, b_previousLastSeen = None\<rparr>"
  using assms draw_session_ok by (fastforce simp: create_def Let_def split: if_splits)

subsection \<open>Properties\<close>

text \<open>The session table stays within its maximum with unique keys, whatever requests arrive.\<close>

theorem session_table_bounded:
  "msize (run_steps (session_step sha cfg) [] events) \<le> nat (max 1 (sc_maximum cfg))
    \<and> mwf (run_steps (session_step sha cfg) [] events)"
proof -
  have "session_inv cfg (run_steps (session_step sha cfg) [] events)" by (rule bs.run_inv)
  thus ?thesis unfolding session_inv_def by linarith
qed

text \<open>The session that is evicted when the table is full is the least recently used one, and only it.\<close>

theorem eviction_is_least_recent:
  assumes "mwf m" "m \<noteq> []"
  shows "\<exists>k r. mget m k = Some r \<and> evictLeastRecentlyUsed m = mdelete m k
    \<and> (\<forall>k' r'. mget m k' = Some r' \<longrightarrow> \<not> older r' r)"
proof -
  obtain p rest where m: "m = p # rest" using assms(2) by (cases m) auto
  let ?o = "oldest_from p rest"
  have "?o \<in> set m" using oldest_from_in [of p rest] m by simp
  hence "mget m (fst ?o) = Some (snd ?o)" using mget_in [OF assms(1), of "fst ?o" "snd ?o"] by simp
  moreover have "\<not> older r' (snd ?o)" if "mget m k' = Some r'" for k' r'
    using oldest_from_least [of "(k', r')" p rest] that mget_in [OF assms(1), of k' r'] m by auto
  moreover have "evictLeastRecentlyUsed m = mdelete m (fst ?o)" using m by (simp add: evictLeastRecentlyUsed_def)
  ultimately show ?thesis by blast
qed

definition record_sample :: "int \<Rightarrow> session_record" where
  "record_sample t = \<lparr>b_csrfDigest = [], b_createdAt = 0, b_lastSeen = t, b_authVersion = 0, b_previousLastSeen = None\<rparr>"

lemma eviction_is_least_recent_witness:
  "\<exists>k r. mget [(js ''a'', record_sample 5), (js ''b'', record_sample 3)] k = Some r
    \<and> evictLeastRecentlyUsed [(js ''a'', record_sample 5), (js ''b'', record_sample 3)]
      = mdelete [(js ''a'', record_sample 5), (js ''b'', record_sample 3)] k
    \<and> (\<forall>k' r'. mget [(js ''a'', record_sample 5), (js ''b'', record_sample 3)] k' = Some r' \<longrightarrow> \<not> older r' r)"
  by (rule eviction_is_least_recent) (simp_all add: mwf_def)

text \<open>A new session works: its cookie authenticates until it expires, and with the session key
  of that request exactly the issued CSRF token (or one with the same digest) is accepted.\<close>

theorem created_session_authenticates:
  assumes "create sha cfg now rnd m = (Inr (cookie, csrf, ttl), m')" "\<forall>x. length (sha x) = 32"
    "timestamp_ok later" "later - now < sc_idleTtlMs cfg" "later - now < sc_absoluteTtlMs cfg"
  shows "\<exists>key m''. authenticate sha cfg (Some (session_cookie cookie)) later m' = (Inr (Some key), m'')
    \<and> (\<forall>v. fst (verifyCsrf sha key v m'') \<longleftrightarrow>
         (\<exists>t. v = Some t \<and> canonicalToken t \<and> sha (ascii_bytes t) = sha (ascii_bytes csrf)))"
proof -
  note c = create_ok [OF assms(1)]
  let ?key = "digest_key sha cookie"
  let ?r = "\<lparr>b_csrfDigest = sha (ascii_bytes csrf), b_createdAt = now, b_lastSeen = now, b_authVersion = 0,
    b_previousLastSeen = None\<rparr>"
  have h: "hex_exact 64 ?key" using assms(2) by (intro hex_digest_key) simp
  have live: "\<not> expired cfg ?r later" using assms(4,5) by (simp add: expired_def)
  have cur: "mget (mset_at m' ?key (touched ?r later)) ?key = Some (touched ?r later)" by (simp add: mget_set_at)
  have a: "authenticate sha cfg (Some (session_cookie cookie)) later m'
      = (Inr (Some (session_key ?key 1)), mset_at m' ?key (touched ?r later))"
    using authenticate_live [of "Some (session_cookie cookie)" cookie m' sha ?r later cfg] cookieToken_cookie
      c assms(3) live by simp
  have "fst (verifyCsrf sha (session_key ?key 1) v (mset_at m' ?key (touched ?r later))) \<longleftrightarrow>
      (\<exists>t. v = Some t \<and> canonicalToken t \<and> sha (ascii_bytes t) = sha (ascii_bytes csrf))" for v
    unfolding verify_current [OF h cur zero_less_one]
    by (auto simp: touched_def Let_def split: option.splits)
  with a show ?thesis by blast
qed

text \<open>A stand-in for the digest, to run the sessions: the first 32 bytes.\<close>

definition sha_sample :: "bytes \<Rightarrow> bytes" where
  "sha_sample bs = take 32 (bs @ replicate 32 0)"

definition session_config_sample :: session_config where
  "session_config_sample = \<lparr>sc_idleTtlMs = DEFAULT_IDLE_TTL_MS, sc_absoluteTtlMs = DEFAULT_ABSOLUTE_TTL_MS,
     sc_maximum = DEFAULT_MAXIMUM_SESSIONS\<rparr>"

lemma length_sha_sample [simp]: "length (sha_sample x) = 32"
  by (simp add: sha_sample_def)

lemma draw_session_fresh:
  assumes "length bs = 32" "length cs = 32" "mget m (digest_key sha (base64url bs)) = None"
  shows "\<exists>m'. draw_session sha cfg now m (Suc n) (bs # cs # rnd)
    = (Inr (base64url bs, base64url cs, sc_absoluteTtlMs cfg), m')"
  using assms by (simp add: Let_def mhas_iff)

lemma create_sample:
  "\<exists>m'. create sha_sample session_config_sample 1000 [replicate 32 7, replicate 32 9] []
     = (Inr (base64url (replicate 32 7), base64url (replicate 32 9), DEFAULT_ABSOLUTE_TTL_MS), m')"
  using draw_session_fresh [of "replicate 32 7" "replicate 32 9" "[]" sha_sample session_config_sample 1000 7 "[]"]
  by (simp add: create_def prune_sessions_def mdelete_where_def timestamp_ok_def max_safe_def
      session_config_sample_def DEFAULT_MAXIMUM_SESSIONS_def del: draw_session.simps)

lemma created_session_authenticates_witness:
  "\<exists>m' key m''. authenticate sha_sample session_config_sample
       (Some (session_cookie (base64url (replicate 32 7)))) 2000 m' = (Inr (Some key), m'')
     \<and> fst (verifyCsrf sha_sample key (Some (base64url (replicate 32 9))) m'')"
proof -
  obtain m' where "create sha_sample session_config_sample 1000 [replicate 32 7, replicate 32 9] []
     = (Inr (base64url (replicate 32 7), base64url (replicate 32 9), DEFAULT_ABSOLUTE_TTL_MS), m')"
    using create_sample by blast
  from created_session_authenticates [OF this, of 2000]
  obtain key m'' where k: "authenticate sha_sample session_config_sample
       (Some (session_cookie (base64url (replicate 32 7)))) 2000 m' = (Inr (Some key), m'')"
    "\<forall>v. fst (verifyCsrf sha_sample key v m'') \<longleftrightarrow> (\<exists>t. v = Some t \<and> canonicalToken t
       \<and> sha_sample (ascii_bytes t) = sha_sample (ascii_bytes (base64url (replicate 32 9))))"
    by (auto simp: timestamp_ok_def max_safe_def session_config_sample_def DEFAULT_IDLE_TTL_MS_def
        DEFAULT_ABSOLUTE_TTL_MS_def)
  have "canonicalToken (base64url (replicate 32 9))" unfolding canonicalToken_iff by (rule exI [of _ "replicate 32 9"]) simp
  with k show ?thesis by blast
qed

text \<open>A request whose CSRF token is missing or wrong does not prolong its session: the time of last
  use is again what it was before the request, and the same session key is good for a later attempt
  only as long as no other request authenticates.\<close>

theorem rejected_request_does_not_prolong:
  assumes "authenticate sha cfg h now m = (Inr (Some key), m1)" "\<forall>x. length (sha x) = 32"
    "verifyCsrf sha key v m1 = (False, m2)"
  shows "\<exists>k r r2. mget m k = Some r \<and> mget m2 k = Some r2 \<and> b_lastSeen r2 = b_lastSeen r
    \<and> (\<forall>k'. k' \<noteq> k \<longrightarrow> mget m2 k' = mget m k')
    \<and> (\<forall>h' now' key' m3 v'. cookieToken h' = cookieToken h \<longrightarrow>
         authenticate sha cfg h' now' m2 = (Inr (Some key'), m3) \<longrightarrow> verifyCsrf sha key v' m3 = (False, m3))"
proof -
  obtain token r where t: "cookieToken h = Some token" and r: "mget m (digest_key sha token) = Some r"
      and now: "timestamp_ok now" "\<not> expired cfg r now"
    using assms(1) by (auto simp: authenticate_def Let_def split: option.splits if_splits)
  let ?k = "digest_key sha token"
  have h: "hex_exact 64 ?k" using assms(2) by (intro hex_digest_key) simp
  have a: "key = session_key ?k (Suc (b_authVersion r))" "m1 = mset_at m ?k (touched r now)"
    using assms(1) authenticate_live [OF t r now] by simp_all
  have cur: "mget m1 ?k = Some (touched r now)" by (simp add: a mget_set_at)
  let ?r2 = "(touched r now)\<lparr>b_lastSeen := b_lastSeen r, b_previousLastSeen := None\<rparr>"
  have m2: "m2 = mset_at m1 ?k ?r2"
    using assms(3) unfolding a(1) verify_current [OF h cur zero_less_Suc]
    by (auto simp: touched_def Let_def split: if_splits)
  have later: "verifyCsrf sha key v' m3 = (False, m3)"
    if "cookieToken h' = cookieToken h" "authenticate sha cfg h' now' m2 = (Inr (Some key'), m3)" for h' now' key' m3 v'
  proof -
    have g: "mget m2 ?k = Some ?r2" by (simp add: m2 mget_set_at)
    have "m3 = mset_at m2 ?k (touched ?r2 now')"
      using that t g by (auto simp: authenticate_def Let_def touched_def split: if_splits)
    hence g3: "mget m3 ?k = Some (touched ?r2 now')" by (simp add: mget_set_at)
    have "b_authVersion (touched ?r2 now') \<noteq> Suc (b_authVersion r)" by (simp add: touched_def)
    with verify_current [OF h g3, of "Suc (b_authVersion r)" sha v'] show ?thesis unfolding a(1) by simp
  qed
  show ?thesis
  proof (intro exI conjI allI impI)
    show "mget m ?k = Some r" by (rule r)
    show "mget m2 ?k = Some ?r2" by (simp add: m2 mget_set_at)
    show "mget m2 k' = mget m k'" if "k' \<noteq> ?k" for k' using that by (simp add: m2 a mget_set_at)
  qed (auto intro: later)
qed

lemma rejected_request_does_not_prolong_witness:
  "\<exists>m1 m2 k r2. authenticate sha_sample session_config_sample (Some (session_cookie (base64url (replicate 32 7))))
       2000 [(digest_key sha_sample (base64url (replicate 32 7)), record_sample 1000)] = (Inr (Some k), m1)
     \<and> verifyCsrf sha_sample k None m1 = (False, m2) \<and> b_lastSeen r2 = 1000 \<and> (\<exists>key. mget m2 key = Some r2)"
proof -
  let ?t = "base64url (replicate 32 (7::byte))"
  let ?k = "digest_key sha_sample ?t"
  let ?m = "[(?k, record_sample 1000)]"
  have "canonicalToken ?t" unfolding canonicalToken_iff by (rule exI [of _ "replicate 32 7"]) simp
  hence c: "cookieToken (Some (session_cookie ?t)) = Some ?t" by (rule cookieToken_cookie)
  have g: "mget ?m ?k = Some (record_sample 1000)" by (simp add: mget_def)
  have a: "authenticate sha_sample session_config_sample (Some (session_cookie ?t)) 2000 ?m
      = (Inr (Some (session_key ?k 1)), mset_at ?m ?k (touched (record_sample 1000) 2000))"
    using authenticate_live [OF c g, of 2000 session_config_sample]
    by (simp add: timestamp_ok_def max_safe_def expired_def session_config_sample_def DEFAULT_IDLE_TTL_MS_def
        DEFAULT_ABSOLUTE_TTL_MS_def record_sample_def)
  have h: "hex_exact 64 ?k" by (intro hex_digest_key) simp
  have g1: "mget (mset_at ?m ?k (touched (record_sample 1000) 2000)) ?k = Some (touched (record_sample 1000) 2000)"
    by (simp add: mget_set_at)
  obtain m2 where v: "verifyCsrf sha_sample (session_key ?k 1) None
      (mset_at ?m ?k (touched (record_sample 1000) 2000)) = (False, m2)"
    using verify_current [OF h g1 zero_less_one, of sha_sample None]
    by (auto simp: touched_def record_sample_def Let_def)
  from rejected_request_does_not_prolong [OF a _ v] obtain k r r2 where
    "mget ?m k = Some r" "mget m2 k = Some r2" "b_lastSeen r2 = b_lastSeen r" by auto
  moreover hence "b_lastSeen r = 1000" by (auto simp: mget_def record_sample_def split: if_splits)
  ultimately show ?thesis using a v by auto
qed

end
