(* ===== verification/Sse.thy ===== *)
theory Sse imports Ascii begin

text \<open>
  The event stream of the Go bridge, \<^verbatim>\<open>go/sse.ts\<close>: a strict parser of server-sent events that
  reads byte by byte, bounds each frame and stops at the first violation.  Chunks and processing
  slices only group the bytes; the yielded messages precede the error, if any.
\<close>

definition DEFAULT_SSE_LIMIT :: nat where
  "DEFAULT_SSE_LIMIT = 1048576"

datatype sse_message = Heartbeat | SEvent jstr jstr jstr

datatype sse_error = SseProtocolError | SseFrameTooLarge

record sse_frame =
  f_id :: "jstr option"
  f_event :: "jstr option"
  f_data :: "jstr option"
  f_dataBytes :: nat
  f_fields :: nat

record sse_state =
  frame :: sse_frame
  frameBytes :: nat
  sse_line :: bytes
  pendingCR :: bool

definition emptyFrame :: sse_frame where
  "emptyFrame = \<lparr>f_id = None, f_event = None, f_data = None, f_dataBytes = 0, f_fields = 0\<rparr>"

definition sse_start :: sse_state where
  "sse_start = \<lparr>frame = emptyFrame, frameBytes = 0, sse_line = [], pendingCR = False\<rparr>"

definition decodeLine :: "bytes \<Rightarrow> (sse_error, jstr) result" where
  "decodeLine bs = (case utf8_decode_fatal bs of None \<Rightarrow> Inl SseProtocolError | Some s \<Rightarrow> Inr s)"

definition parseID :: "jstr \<Rightarrow> (sse_error, unit) result" where
  "parseID v =
     (if v = [] \<or> \<not> list_all is_digit v \<or> hd v = 48 then Inl SseProtocolError
      else if digits_value v 0 > nat max_safe \<or> digits_value v 0 = 0 then Inl SseProtocolError else Inr ())"

definition addLine :: "sse_frame \<Rightarrow> bytes \<Rightarrow> nat \<Rightarrow> (sse_error, sse_frame) result" where
  "addLine f bs maximumBytes = bind_result (decodeLine bs) (\<lambda>line.
     let separator = index_of 58 line;
         field = (case separator of None \<Rightarrow> line | Some i \<Rightarrow> take i line);
         raw = (case separator of None \<Rightarrow> [] | Some i \<Rightarrow> drop (Suc i) line);
         v = (if raw \<noteq> [] \<and> hd raw = 32 then tl raw else raw)
     in if field = js ''id'' then
          (if f_id f \<noteq> None then Inl SseProtocolError
           else bind_result (parseID v) (\<lambda>_. Inr (f\<lparr>f_id := Some v, f_fields := f_fields f + 1\<rparr>)))
        else if field = js ''event'' then
          (if f_event f \<noteq> None \<or> length v = 0 \<or> length v > 64 then Inl SseProtocolError
           else Inr (f\<lparr>f_event := Some v, f_fields := f_fields f + 1\<rparr>))
        else if field = js ''data'' then
          (if f_data f \<noteq> None then Inl SseProtocolError
           else let prefixBytes = byte_length line - byte_length v;
                    n = length bs - min (length bs) prefixBytes
                in if n > maximumBytes then Inl SseFrameTooLarge
                   else Inr (f\<lparr>f_data := Some v, f_dataBytes := n, f_fields := f_fields f + 1\<rparr>))
        else Inl SseProtocolError)"

definition dispatch :: "sse_frame \<Rightarrow> (sse_error, sse_message option) result" where
  "dispatch f =
     (if f_fields f = 0 then Inr None
      else case (f_id f, f_event f, f_data f) of
        (Some i, Some e, Some d) \<Rightarrow> Inr (Some (SEvent i e d))
      | _ \<Rightarrow> Inl SseProtocolError)"

definition finishLine :: "nat \<Rightarrow> sse_state \<Rightarrow> (sse_error, sse_state \<times> sse_message option) result" where
  "finishLine maximumBytes s =
     (if sse_line s = [] then
        bind_result (dispatch (frame s)) (\<lambda>m. Inr (s\<lparr>frame := emptyFrame, frameBytes := 0\<rparr>, m))
      else if hd (sse_line s) = 58 then
        (if f_fields (frame s) \<noteq> 0 then Inl SseProtocolError
         else bind_result (decodeLine (sse_line s)) (\<lambda>_. Inr (s\<lparr>sse_line := [], frameBytes := 0\<rparr>, Some Heartbeat)))
      else bind_result (addLine (frame s) (sse_line s) maximumBytes) (\<lambda>f. Inr (s\<lparr>frame := f, sse_line := []\<rparr>, None)))"

definition sse_step :: "nat \<Rightarrow> sse_state \<Rightarrow> byte \<Rightarrow> (sse_error, sse_state \<times> sse_message option) result" where
  "sse_step maximumBytes s b =
     (if pendingCR s then
        (if b \<noteq> 10 then Inl SseProtocolError
         else if frameBytes s + 1 > maximumBytes then Inl SseFrameTooLarge
         else bind_result (finishLine maximumBytes (s\<lparr>frameBytes := frameBytes s + 1\<rparr>)) (\<lambda>(s', m).
           Inr (s'\<lparr>pendingCR := False\<rparr>, m)))
      else if frameBytes s + 1 > maximumBytes then Inl SseFrameTooLarge
      else let s1 = s\<lparr>frameBytes := frameBytes s + 1\<rparr>
           in if b = 13 then Inr (s1\<lparr>pendingCR := True\<rparr>, None)
              else if b = 10 then finishLine maximumBytes s1
              else Inr (s1\<lparr>sse_line := sse_line s1 @ [b]\<rparr>, None))"

definition cons_opt :: "'a option \<Rightarrow> 'a list \<Rightarrow> 'a list" where
  "cons_opt m ms = (case m of None \<Rightarrow> ms | Some x \<Rightarrow> x # ms)"

text \<open>The messages yielded over some bytes, and the state or the error they lead to.\<close>

fun sse_run :: "nat \<Rightarrow> sse_state \<Rightarrow> bytes \<Rightarrow> sse_message list \<times> (sse_error, sse_state) result" where
  "sse_run mx s [] = ([], Inr s)"
| "sse_run mx s (b # bs) =
     (case sse_step mx s b of
        Inl e \<Rightarrow> ([], Inl e)
      | Inr (s', m) \<Rightarrow> (let (ms, r) = sse_run mx s' bs in (cons_opt m ms, r)))"

fun sse_chunks :: "nat \<Rightarrow> sse_state \<Rightarrow> bytes list \<Rightarrow> sse_message list \<times> (sse_error, sse_state) result" where
  "sse_chunks mx s [] = ([], Inr s)"
| "sse_chunks mx s (c # cs) =
     (case sse_run mx s c of
        (ms, Inl e) \<Rightarrow> (ms, Inl e)
      | (ms, Inr s') \<Rightarrow> (let (ns, r) = sse_chunks mx s' cs in (ms @ ns, r)))"

definition sse_end :: "sse_state \<Rightarrow> sse_error option" where
  "sse_end s = (if pendingCR s \<or> sse_line s \<noteq> [] \<or> f_fields (frame s) \<noteq> 0 then Some SseProtocolError else None)"

definition parseSSE :: "bytes list \<Rightarrow> int \<Rightarrow> sse_message list \<times> sse_error option" where
  "parseSSE source maximumBytes =
     (if \<bar>maximumBytes\<bar> > max_safe \<or> maximumBytes \<le> 0 \<or> maximumBytes > int DEFAULT_SSE_LIMIT
      then ([], Some SseProtocolError)
      else case sse_chunks (nat maximumBytes) sse_start source of
        (ms, Inl e) \<Rightarrow> (ms, Some e)
      | (ms, Inr s) \<Rightarrow> (ms, sse_end s))"

subsection \<open>Chunking\<close>

lemma cons_opt_append: "cons_opt m (xs @ ys) = cons_opt m xs @ ys"
  by (cases m) (simp_all add: cons_opt_def)

lemma sse_run_append:
  "sse_run mx s (xs @ ys) =
     (case sse_run mx s xs of
        (ms, Inl e) \<Rightarrow> (ms, Inl e)
      | (ms, Inr s') \<Rightarrow> (let (ns, r) = sse_run mx s' ys in (ms @ ns, r)))"
  by (induction xs arbitrary: s) (auto simp: cons_opt_append split: sum.splits prod.splits)

lemma sse_chunks_concat: "sse_chunks mx s cs = sse_run mx s (concat cs)"
  by (induction cs arbitrary: s) (auto simp: sse_run_append split: sum.splits prod.splits)

subsection \<open>The bound of a frame\<close>

definition has_field :: "jstr option \<Rightarrow> nat" where
  "has_field x = (case x of None \<Rightarrow> 0 | Some _ \<Rightarrow> 1)"

definition filled :: "sse_frame \<Rightarrow> nat" where
  "filled f = has_field (f_id f) + has_field (f_event f) + has_field (f_data f)"

definition sse_inv :: "nat \<Rightarrow> sse_state \<Rightarrow> bool" where
  "sse_inv mx s \<longleftrightarrow> frameBytes s \<le> mx \<and> length (sse_line s) \<le> frameBytes s
     \<and> f_fields (frame s) = filled (frame s)"

lemma has_field_simps [simp]: "has_field None = 0" "has_field (Some x) = 1"
  by (simp_all add: has_field_def)

lemma addLine_cases:
  assumes "addLine f bs mx = Inr f'"
  obtains v where "f_id f = None" "f' = f\<lparr>f_id := Some v, f_fields := f_fields f + 1\<rparr>"
  | v where "f_event f = None" "f' = f\<lparr>f_event := Some v, f_fields := f_fields f + 1\<rparr>"
  | v n where "f_data f = None" "f' = f\<lparr>f_data := Some v, f_dataBytes := n, f_fields := f_fields f + 1\<rparr>"
proof -
  from assms obtain line where "decodeLine bs = Inr line" by (auto simp: addLine_def)
  with assms that show thesis unfolding addLine_def Let_def by (auto split: if_splits)
qed

lemma addLine_fields:
  assumes "addLine f bs mx = Inr f'" "f_fields f = filled f"
  shows "f_fields f' = filled f' \<and> f_fields f' \<noteq> 0"
  using assms(1) by (cases rule: addLine_cases) (use assms(2) in \<open>simp_all add: filled_def\<close>)

lemma finishLine_inv:
  assumes "finishLine mx s = Inr (s', m)" "sse_inv mx s"
  shows "sse_inv mx s' \<and> sse_line s' = []"
proof -
  consider (blank) "sse_line s = []" | (comment) "sse_line s \<noteq> []" "hd (sse_line s) = 58"
    | (field) "sse_line s \<noteq> []" "hd (sse_line s) \<noteq> 58" by blast
  thus ?thesis
  proof cases
    case blank
    thus ?thesis using assms by (auto simp: finishLine_def sse_inv_def emptyFrame_def filled_def)
  next
    case comment
    thus ?thesis using assms by (auto simp: finishLine_def sse_inv_def split: if_splits)
  next
    case field
    then obtain f where f: "addLine (frame s) (sse_line s) mx = Inr f" "s' = s\<lparr>frame := f, sse_line := []\<rparr>"
      using assms(1) by (auto simp: finishLine_def)
    have "f_fields (frame s) = filled (frame s)" using assms(2) by (simp add: sse_inv_def)
    from addLine_fields [OF f(1) this] f(2) assms(2) show ?thesis by (simp add: sse_inv_def)
  qed
qed

lemma sse_step_inv:
  assumes "sse_step mx s b = Inr (s', m)" "sse_inv mx s"
  shows "sse_inv mx s'"
proof (cases "pendingCR s \<or> b = 10")
  case True
  have i: "frameBytes s + 1 \<le> mx \<Longrightarrow> sse_inv mx (s\<lparr>frameBytes := frameBytes s + 1\<rparr>)"
    using assms(2) by (simp add: sse_inv_def)
  have "frameBytes s + 1 \<le> mx" using assms(1) True by (auto simp: sse_step_def Let_def split: if_splits)
  note i = i [OF this]
  from assms(1) True obtain s1 where "finishLine mx (s\<lparr>frameBytes := frameBytes s + 1\<rparr>) = Inr (s1, m)"
      "s' = s1\<lparr>pendingCR := False\<rparr> \<or> s' = s1"
    by (auto simp: sse_step_def Let_def split: if_splits)
  with finishLine_inv [OF _ i] show ?thesis by (auto simp: sse_inv_def)
next
  case False
  thus ?thesis using assms by (auto simp: sse_step_def sse_inv_def Let_def split: if_splits)
qed

lemma sse_run_inv: "sse_inv mx s \<Longrightarrow> snd (sse_run mx s bs) = Inr s' \<Longrightarrow> sse_inv mx s'"
  by (induction bs arbitrary: s)
     (auto split: sum.splits prod.splits dest: sse_step_inv)

subsection \<open>Reading back a printed event\<close>

definition no_break :: "jstr \<Rightarrow> bool" where
  "no_break s \<longleftrightarrow> (\<forall>u \<in> set s. u \<noteq> 10 \<and> u \<noteq> 13)"

definition print_event :: "nat \<Rightarrow> jstr \<Rightarrow> jstr \<Rightarrow> bytes" where
  "print_event n e d = utf8_encode (js ''id: '' @ nat_digits n) @ [10]
     @ utf8_encode (js ''event: '' @ e) @ [10] @ utf8_encode (js ''data: '' @ d) @ [10, 10]"

lemma encode_point_ascii: "b \<in> set (encode_point p) \<Longrightarrow> p < 1114112 \<Longrightarrow> unat b < 128 \<Longrightarrow> unat b = p"
  by (auto simp: encode_point_def simp del: of_nat_add split: if_splits)

lemma code_points_unit: "p \<in> set (code_points s) \<Longrightarrow> p < 65536 \<Longrightarrow> \<exists>u \<in> set s. unat u = p"
  by (induction s rule: code_points.induct) (auto simp: pair_point_def split: if_splits)

lemma utf8_no_break:
  assumes "no_break s" "b \<in> set (utf8_encode s)"
  shows "b \<noteq> 10 \<and> b \<noteq> 13"
proof -
  obtain p where p: "p \<in> set (code_points s)" "b \<in> set (encode_point p)"
    using assms(2) by (auto simp: utf8_encode_def)
  have "unat b = n \<Longrightarrow> n < 128 \<Longrightarrow> \<exists>u \<in> set s. unat u = n" for n
    using encode_point_ascii [OF p(2) code_points_bound [OF p(1)]] code_points_unit [OF p(1)] by auto
  from this [of 10] this [of 13] assms(1) show ?thesis
    by (auto simp: no_break_def word_unat_eq_iff)
qed

lemma code_points_js_append: "code_points (js p @ s) = map of_char p @ code_points s"
proof (induction p)
  case (Cons c p)
  have "\<not> is_high (cu c)" using nat_of_char_less_256 [of c] unfolding is_high_def unat_cu by linarith
  hence "code_points (cu c # r) = of_char c # code_points r" for r by (cases r) simp_all
  with Cons show ?case by (simp add: js_Cons)
qed simp

lemma well_formed_js_append: "well_formed s \<Longrightarrow> well_formed (js p @ s)"
  using well_formed_js [of p] by (auto simp: well_formed_def code_points_js_append)

lemma decodeLine_encode:
  assumes "well_formed s" "s \<noteq> []" "unat (hd s) \<noteq> 65279"
  shows "decodeLine (utf8_encode s) = Inr s"
proof -
  have "None \<notin> set (decode_points (utf8_encode s))" by (auto simp: decode_utf8_encode)
  thus ?thesis using assms utf8_roundtrip [OF assms(1)]
    by (cases s) (simp_all add: decodeLine_def utf8_decode_fatal_def Let_def)
qed

lemma run_bytes:
  assumes "\<forall>b \<in> set bs. b \<noteq> 10 \<and> b \<noteq> 13" "\<not> pendingCR s" "frameBytes s + length bs \<le> mx"
  shows "sse_run mx s (bs @ rest)
    = sse_run mx (s\<lparr>frameBytes := frameBytes s + length bs, sse_line := sse_line s @ bs\<rparr>) rest"
  using assms
proof (induction bs arbitrary: s)
  case (Cons b bs)
  let ?s = "s\<lparr>frameBytes := frameBytes s + 1, sse_line := sse_line s @ [b]\<rparr>"
  have "sse_step mx s b = Inr (?s, None)" using Cons.prems by (simp add: sse_step_def Let_def)
  moreover have "sse_run mx ?s (bs @ rest) = sse_run mx
      (?s\<lparr>frameBytes := frameBytes ?s + length bs, sse_line := sse_line ?s @ bs\<rparr>) rest"
    by (rule Cons.IH) (use Cons.prems in auto)
  ultimately show ?case by (simp add: cons_opt_def)
qed simp

lemma run_newline:
  assumes "\<not> pendingCR s" "frameBytes s + 1 \<le> mx"
    "finishLine mx (s\<lparr>frameBytes := frameBytes s + 1\<rparr>) = Inr (s', m)"
  shows "sse_run mx s (10 # rest) = (let (ms, r) = sse_run mx s' rest in (cons_opt m ms, r))"
  using assms by (simp add: sse_step_def Let_def)

lemma run_field:
  assumes "well_formed l" "no_break l" "l \<noteq> []" "unat (hd l) \<noteq> 65279" "hd (utf8_encode l) \<noteq> 58" "utf8_encode l \<noteq> []"
    "sse_line s = []" "\<not> pendingCR s" "frameBytes s + byte_length l + 1 \<le> mx"
    "addLine (frame s) (utf8_encode l) mx = Inr f"
  shows "sse_run mx s (utf8_encode l @ 10 # rest)
    = sse_run mx (s\<lparr>frame := f, frameBytes := frameBytes s + byte_length l + 1\<rparr>) rest"
proof -
  let ?s = "s\<lparr>frameBytes := frameBytes s + length (utf8_encode l), sse_line := utf8_encode l\<rparr>"
  have "sse_run mx s (utf8_encode l @ 10 # rest) = sse_run mx ?s (10 # rest)"
    using run_bytes [of "utf8_encode l" s mx "10 # rest"] assms(2,7-9) utf8_no_break
    by (simp add: byte_length_def)
  also have "finishLine mx (?s\<lparr>frameBytes := frameBytes ?s + 1\<rparr>)
      = Inr (s\<lparr>frame := f, frameBytes := frameBytes s + byte_length l + 1\<rparr>, None)"
    using assms(5-7,10) by (simp add: finishLine_def byte_length_def)
  from run_newline [OF _ _ this] assms(8,9)
  have "sse_run mx ?s (10 # rest) = sse_run mx (s\<lparr>frame := f, frameBytes := frameBytes s + byte_length l + 1\<rparr>) rest"
    by (simp add: byte_length_def cons_opt_def split: prod.split)
  finally show ?thesis .
qed

lemma field_split:
  assumes "58 \<notin> set (js k)"
  shows "index_of 58 (js k @ 58 # 32 # v) = Some (length k)"
    "take (length k) (js k @ 58 # 32 # v) = js k" "drop (Suc (length k)) (js k @ 58 # 32 # v) = 32 # v"
proof -
  show "index_of 58 (js k @ 58 # 32 # v) = Some (length k)"
    using assms by (induction k) (auto simp: js_Cons)
  show "take (length k) (js k @ 58 # 32 # v) = js k" "drop (Suc (length k)) (js k @ 58 # 32 # v) = 32 # v"
    using length_js [of k] by (simp_all del: length_js)
qed

lemma addLine_field:
  assumes "58 \<notin> set (js k)" "well_formed v" "k \<noteq> []" "l = js (k @ '': '') @ v"
  shows "addLine f (utf8_encode l) mx = (
     if k = ''id'' then
       (if f_id f \<noteq> None then Inl SseProtocolError
        else bind_result (parseID v) (\<lambda>_. Inr (f\<lparr>f_id := Some v, f_fields := f_fields f + 1\<rparr>)))
     else if k = ''event'' then
       (if f_event f \<noteq> None \<or> length v = 0 \<or> length v > 64 then Inl SseProtocolError
        else Inr (f\<lparr>f_event := Some v, f_fields := f_fields f + 1\<rparr>))
     else if k = ''data'' then
       (if f_data f \<noteq> None then Inl SseProtocolError
        else let n = byte_length l - min (byte_length l) (byte_length l - byte_length v)
             in if n > mx then Inl SseFrameTooLarge
                else Inr (f\<lparr>f_data := Some v, f_dataBytes := n, f_fields := f_fields f + 1\<rparr>))
     else Inl SseProtocolError)"
proof -
  have l: "l = js k @ 58 # 32 # v" using assms(4) by (simp add: js_append js_def cu_def)
  have "unat (hd l) \<noteq> 65279"
  proof -
    have "unat (hd l) = of_char (hd k)" using assms(3) l by (cases k) (simp_all add: js_Cons)
    moreover have "(of_char (hd k) :: nat) < 256" by (rule nat_of_char_less_256)
    ultimately show ?thesis by linarith
  qed
  moreover have "well_formed l" using assms(2,4) by (simp add: well_formed_js_append)
  ultimately have "decodeLine (utf8_encode l) = Inr l"
    using assms(3,4) by (intro decodeLine_encode) auto
  moreover have "index_of 58 l = Some (length k)" "take (length k) l = js k" "drop (Suc (length k)) l = 32 # v"
    unfolding l by (rule field_split [OF assms(1)])+
  ultimately show ?thesis
    unfolding addLine_def Let_def
    by (simp only: bind_result.simps option.case list.sel list.simps js_eq_iff simp_thms if_True if_False
        byte_length_def [symmetric])
qed

lemma utf8_encode_js_append: "utf8_encode (js p @ s) = map (\<lambda>c. of_nat (of_char c)) p @ utf8_encode s"
  if "list_all (\<lambda>c. (of_char c :: nat) < 128) p"
  using that by (induction p) (simp_all add: utf8_encode_def code_points_js_append encode_point_def)

lemma parseID_digits:
  assumes "1 \<le> n" "n \<le> nat max_safe"
  shows "parseID (nat_digits n) = Inr ()"
proof -
  note d = nat_digits_correct [of n]
  hence "hd (nat_digits n) \<noteq> 48" using assms(1) by linarith
  thus ?thesis using d assms unfolding parseID_def by simp
qed

lemma digits_plain: "list_all is_digit s \<Longrightarrow> well_formed s \<and> no_break s"
proof -
  assume a: "list_all is_digit s"
  hence "code_points s = map unat s"
    by (intro code_points_plain) (auto simp: list_all_iff is_digit_def is_high_def)
  with a show ?thesis by (auto simp: well_formed_def is_surrogate_def no_break_def list_all_iff is_digit_def)
qed

lemma no_break_append: "no_break (s @ t) \<longleftrightarrow> no_break s \<and> no_break t"
  by (auto simp: no_break_def)

lemma no_break_js: "list_all (\<lambda>c. 32 \<le> (of_char c :: nat)) s \<Longrightarrow> no_break (js s)"
proof -
  assume "list_all (\<lambda>c. 32 \<le> (of_char c :: nat)) s"
  hence "\<forall>u \<in> set (js s). 32 \<le> unat u" by (auto simp: js_def list_all_iff)
  thus ?thesis by (auto simp: no_break_def)
qed

definition key_text :: "string \<Rightarrow> bool" where
  "key_text k \<longleftrightarrow> k \<noteq> [] \<and> list_all (\<lambda>c. 97 \<le> (of_char c :: nat) \<and> (of_char c :: nat) < 128) k"

lemma key_text_58: "key_text k \<Longrightarrow> 58 \<notin> set (js k)"
  by (auto simp: key_text_def js_def list_all_iff dest!: arg_cong [of 58 _ unat])

lemma run_key_value:
  assumes k: "key_text k" and v: "well_formed v" "no_break v"
    and s: "sse_line s = []" "\<not> pendingCR s" "frameBytes s + byte_length (js (k @ '': '') @ v) + 1 \<le> mx"
    and f: "addLine (frame s) (utf8_encode (js (k @ '': '') @ v)) mx = Inr f"
  shows "sse_run mx s (utf8_encode (js (k @ '': '') @ v) @ 10 # rest)
    = sse_run mx (s\<lparr>frame := f, frameBytes := frameBytes s + byte_length (js (k @ '': '') @ v) + 1\<rparr>) rest"
proof (rule run_field [OF _ _ _ _ _ _ s f])
  obtain c r where c: "k = c # r" "97 \<le> (of_char c :: nat)" "(of_char c :: nat) < 128"
    using k by (cases k) (auto simp: key_text_def)
  have a: "list_all (\<lambda>c. (of_char c :: nat) < 128) (k @ '': '')" "list_all (\<lambda>c. 32 \<le> (of_char c :: nat)) (k @ '': '')"
    using k by (auto simp: key_text_def list_all_iff)
  show "well_formed (js (k @ '': '') @ v)" using v(1) by (rule well_formed_js_append)
  show "no_break (js (k @ '': '') @ v)" using v(2) no_break_js [OF a(2)] by (simp add: no_break_append)
  show "js (k @ '': '') @ v \<noteq> []" using c by simp
  show "unat (hd (js (k @ '': '') @ v)) \<noteq> 65279" using c by (simp add: js_Cons)
  have h: "utf8_encode (js (k @ '': '') @ v) = of_nat (of_char c) # map (\<lambda>c. of_nat (of_char c)) (r @ '': '') @ utf8_encode v"
    unfolding utf8_encode_js_append [OF a(1)] using c(1) by simp
  show "utf8_encode (js (k @ '': '') @ v) \<noteq> []" unfolding h by simp
  have "(of_nat (of_char c) :: byte) \<noteq> 58"
    using c(2,3) by (auto dest!: arg_cong [of _ _ unat])
  thus "hd (utf8_encode (js (k @ '': '') @ v)) \<noteq> 58" unfolding h by simp
qed

lemma print_event_lines:
  "print_event n e d = utf8_encode (js (''id'' @ '': '') @ nat_digits n) @ 10 #
     utf8_encode (js (''event'' @ '': '') @ e) @ 10 # utf8_encode (js (''data'' @ '': '') @ d) @ 10 # [10]"
  by (simp add: print_event_def)

lemma print_event_run:
  assumes "1 \<le> n" "n \<le> nat max_safe" "e \<noteq> []" "length e \<le> 64" "well_formed e" "no_break e"
    "well_formed d" "no_break d" "length (print_event n e d) \<le> mx"
  shows "sse_run mx sse_start (print_event n e d) = ([SEvent (nat_digits n) e d], Inr sse_start)"
proof -
  let ?i = "nat_digits n"
  define l1 l2 l3 where "l1 = js (''id'' @ '': '') @ ?i" and "l2 = js (''event'' @ '': '') @ e"
    and "l3 = js (''data'' @ '': '') @ d"
  note ls = l1_def l2_def l3_def
  have wi: "well_formed ?i" "no_break ?i" using digits_plain nat_digits_correct [of n] by blast+
  have len: "byte_length l1 + byte_length l2 + byte_length l3 + 4 \<le> mx"
    using assms(9) unfolding print_event_lines ls byte_length_def by simp
  have kt: "key_text ''id''" "key_text ''event''" "key_text ''data''" by (simp_all add: key_text_def)
  let ?f1 = "emptyFrame\<lparr>f_id := Some ?i, f_fields := 1\<rparr>"
  let ?f2 = "?f1\<lparr>f_event := Some e, f_fields := 2\<rparr>"
  let ?db = "byte_length l3 - min (byte_length l3) (byte_length l3 - byte_length d)"
  let ?f3 = "?f2\<lparr>f_data := Some d, f_dataBytes := ?db, f_fields := 3\<rparr>"
  let ?s1 = "sse_start\<lparr>frame := ?f1, frameBytes := byte_length l1 + 1\<rparr>"
  let ?s2 = "sse_start\<lparr>frame := ?f2, frameBytes := byte_length l1 + 1 + byte_length l2 + 1\<rparr>"
  let ?s3 = "sse_start\<lparr>frame := ?f3, frameBytes := byte_length l1 + 1 + byte_length l2 + 1 + byte_length l3 + 1\<rparr>"
  have a1: "addLine emptyFrame (utf8_encode l1) mx = Inr ?f1"
    using addLine_field [OF key_text_58 [OF kt(1)] wi(1) _ l1_def, of emptyFrame mx] parseID_digits [OF assms(1,2)]
    by (simp add: emptyFrame_def)
  have a2: "addLine ?f1 (utf8_encode l2) mx = Inr ?f2"
    using addLine_field [OF key_text_58 [OF kt(2)] assms(5) _ l2_def, of ?f1 mx] assms(3,4)
    by (simp add: emptyFrame_def)
  have "?db \<le> mx" using len by linarith
  hence a3: "addLine ?f2 (utf8_encode l3) mx = Inr ?f3"
    using addLine_field [OF key_text_58 [OF kt(3)] assms(7) _ l3_def, of ?f2 mx]
    by (simp add: emptyFrame_def Let_def)
  have r1: "sse_run mx sse_start (utf8_encode l1 @ 10 # r) = sse_run mx ?s1 r" for r
    using run_key_value [OF kt(1) wi, of sse_start mx ?f1 r, folded l1_def] a1 len by (simp add: sse_start_def)
  have r2: "sse_run mx ?s1 (utf8_encode l2 @ 10 # r) = sse_run mx ?s2 r" for r
    using run_key_value [OF kt(2) assms(5,6), of ?s1 mx ?f2 r, folded l2_def] a2 len by (simp add: sse_start_def)
  have r3: "sse_run mx ?s2 (utf8_encode l3 @ 10 # r) = sse_run mx ?s3 r" for r
    using run_key_value [OF kt(3) assms(7,8), of ?s2 mx ?f3 r, folded l3_def] a3 len by (simp add: sse_start_def)
  have "finishLine mx (?s3\<lparr>frameBytes := frameBytes ?s3 + 1\<rparr>) = Inr (sse_start, Some (SEvent ?i e d))"
    by (simp add: finishLine_def dispatch_def sse_start_def emptyFrame_def)
  from run_newline [OF _ _ this, of "[]"] len
  have r4: "sse_run mx ?s3 [10] = ([SEvent ?i e d], Inr sse_start)"
    by (simp add: sse_start_def cons_opt_def)
  show ?thesis unfolding print_event_lines ls [symmetric] r1 r2 r3 r4 ..
qed

subsection \<open>Properties\<close>


text \<open>An event the bridge prints is read back exactly, however its bytes are chunked, as long as it
  fits the frame limit.\<close>

theorem sse_event_roundtrip:
  assumes "1 \<le> n" "int n \<le> max_safe" "e \<noteq> []" "length e \<le> 64" "well_formed e" "no_break e"
    "well_formed d" "no_break d" "concat chunks = print_event n e d"
    "int (length (print_event n e d)) \<le> limit" "limit \<le> int DEFAULT_SSE_LIMIT"
  shows "parseSSE chunks limit = ([SEvent (nat_digits n) e d], None)"
proof -
  have "0 < limit" using assms(10) by (simp add: print_event_def)
  moreover have "\<bar>limit\<bar> \<le> max_safe" using calculation assms(11) by (simp add: DEFAULT_SSE_LIMIT_def max_safe_def)
  moreover have "sse_run (nat limit) sse_start (print_event n e d) = ([SEvent (nat_digits n) e d], Inr sse_start)"
    by (rule print_event_run) (use assms in \<open>simp_all add: max_safe_def\<close>)
  ultimately show ?thesis using assms(9,11)
    by (simp add: parseSSE_def sse_chunks_concat sse_end_def) (simp add: sse_start_def emptyFrame_def)
qed

lemma sse_event_roundtrip_witness:
  "parseSSE [print_event 5 (js ''text_delta'') (js ''x'')] 1048576
     = ([SEvent (nat_digits 5) (js ''text_delta'') (js ''x'')], None)"
proof (rule sse_event_roundtrip)
  have "utf8_encode (js ''x'') = [120]" "utf8_encode (nat_digits 5) = [53]"
    by (simp_all add: utf8_encode_def encode_point_def nat_digits.simps)
  moreover have "utf8_encode (js ''text_delta'') = map (\<lambda>c. of_nat (of_char c)) ''text_delta'' @ utf8_encode []"
    using utf8_encode_js_append [of "''text_delta''" "[]"] by simp
  ultimately have "length (print_event 5 (js ''text_delta'') (js ''x'')) \<le> 100"
    using utf8_encode_js_append [of "''id: ''" "nat_digits 5"] utf8_encode_js_append [of "''event: ''" "js ''text_delta''"]
      utf8_encode_js_append [of "''data: ''" "js ''x''"]
    by (simp add: print_event_def utf8_encode_def)
  thus "int (length (print_event 5 (js ''text_delta'') (js ''x''))) \<le> 1048576" by simp
qed (simp_all add: max_safe_def no_break_js DEFAULT_SSE_LIMIT_def)

text \<open>The parser never buffers more than the limit: the bytes of the frame in progress and of its
  unfinished line stay within it, and a frame holds each of its three fields at most once.\<close>

theorem sse_buffer_bounded:
  assumes "sse_run limit sse_start bytes = (messages, Inr s)"
  shows "frameBytes s \<le> limit \<and> length (sse_line s) \<le> limit \<and> f_fields (frame s) \<le> 3"
proof -
  have "sse_inv limit sse_start" by (simp add: sse_inv_def sse_start_def emptyFrame_def filled_def)
  hence "sse_inv limit s" using sse_run_inv [of limit sse_start bytes s] assms by simp
  moreover have one: "has_field x \<le> 1" for x by (cases x) simp_all
  have "filled (frame s) \<le> 3"
    using one [of "f_id (frame s)"] one [of "f_event (frame s)"] one [of "f_data (frame s)"]
    unfolding filled_def by linarith
  ultimately show ?thesis by (simp add: sse_inv_def)
qed

lemma sse_buffer_bounded_witness:
  "frameBytes (sse_start\<lparr>frameBytes := 2, sse_line := [65, 66]\<rparr>) \<le> 10"
proof -
  have "sse_run 10 sse_start [65, 66] = ([], Inr (sse_start\<lparr>frameBytes := 2, sse_line := [65, 66]\<rparr>))"
    by (simp add: sse_step_def sse_start_def cons_opt_def)
  from sse_buffer_bounded [OF this] show ?thesis by simp
qed

end
