(* ===== verification/RecoveringTask.thy ===== *)
theory RecoveringTask imports Prelude begin

text \<open>
  Starting a task over a bridge that may have gone away, \<^verbatim>\<open>go/recovering-task.ts\<close>.  The bridge, its
  restart and the runtime refresh are other components: what each call gives is an input, and the
  calls made are returned as a trace.
\<close>

datatype client_code = TransportError | RequestTimeout | RemoteError nat | OtherClientError

datatype start_error = ClientError client_code | OtherError

datatype recovery_call = CallStart | CallEnsureBridge | CallRefreshRuntime | CallEvents | CallCancel | CallHealth | CallFence

record 'a recovery_env =
  first_start :: "(start_error, 'a) result"
  ensure_ok :: bool
  refresh :: "bool option"
  second_start :: "(start_error, 'a) result"

text \<open>\<open>#recover\<close> replaces an error of the recovery by the original one.\<close>

definition startTask :: "'a recovery_env \<Rightarrow> (start_error, 'a) result \<times> recovery_call list" where
  "startTask env =
     (case first_start env of
        Inr task \<Rightarrow> (Inr task, [CallStart])
      | Inl OtherError \<Rightarrow> (Inl OtherError, [CallStart])
      | Inl (ClientError TransportError) \<Rightarrow>
          if ensure_ok env then (second_start env, [CallStart, CallEnsureBridge, CallStart])
          else (Inl (ClientError TransportError), [CallStart, CallEnsureBridge])
      | Inl (ClientError RequestTimeout) \<Rightarrow>
          (Inl (ClientError RequestTimeout), [CallStart, CallEnsureBridge])
      | Inl (ClientError (RemoteError status)) \<Rightarrow>
          if status = 409 \<or> status = 404 then
            (case refresh env of
               Some True \<Rightarrow> (second_start env, [CallStart, CallRefreshRuntime, CallStart])
             | _ \<Rightarrow> (Inl (ClientError (RemoteError status)), [CallStart, CallRefreshRuntime]))
          else (Inl (ClientError (RemoteError status)), [CallStart])
      | Inl (ClientError OtherClientError) \<Rightarrow> (Inl (ClientError OtherClientError), [CallStart]))"

text \<open>The other operations forward to the client that is resolved at the call, once and unchanged.\<close>

definition events :: "(start_error, 'a) result \<Rightarrow> (start_error, 'a) result \<times> recovery_call list" where
  "events answer = (answer, [CallEvents])"

definition cancelTask :: "(start_error, unit) result \<Rightarrow> (start_error, unit) result \<times> recovery_call list" where
  "cancelTask answer = (answer, [CallCancel])"

definition health :: "(start_error, 'a) result \<Rightarrow> (start_error, 'a) result \<times> recovery_call list" where
  "health answer = (answer, [CallHealth])"

definition fenceTask :: "(start_error, 'a) result \<Rightarrow> (start_error, 'a) result \<times> recovery_call list" where
  "fenceTask answer = (answer, [CallFence])"

text \<open>A task is started at most twice, a second time only when the first attempt certainly did not
  reach a running runtime (transport error, or a 404/409 answer followed by a successful refresh);
  after a timeout, when the first attempt may have started it, it is never started again.\<close>

theorem task_start_retry_policy:
  "length (filter (\<lambda>c. c = CallStart) (snd (startTask env))) \<le> 2
   \<and> (length (filter (\<lambda>c. c = CallStart) (snd (startTask env))) = 2 \<longleftrightarrow>
        (first_start env = Inl (ClientError TransportError) \<and> ensure_ok env)
        \<or> (first_start env \<in> {Inl (ClientError (RemoteError 409)), Inl (ClientError (RemoteError 404))}
           \<and> refresh env = Some True))"
  by (auto simp: startTask_def split: sum.splits start_error.splits client_code.splits option.splits bool.splits if_splits)

text \<open>When recovery does not lead to a second attempt, the caller sees the original error.\<close>

theorem recovery_reports_original_error:
  assumes "first_start env = Inl e" "length (filter (\<lambda>c. c = CallStart) (snd (startTask env))) = 1"
  shows "fst (startTask env) = Inl e"
  using assms by (auto simp: startTask_def split: start_error.splits client_code.splits option.splits bool.splits if_splits)

lemma recovery_reports_original_error_witness:
  "fst (startTask \<lparr>first_start = Inl (ClientError RequestTimeout), ensure_ok = True, refresh = None,
     second_start = Inr ()\<rparr>) = Inl (ClientError RequestTimeout)"
  by (rule recovery_reports_original_error) (simp_all add: startTask_def)

end
