(* ===== verification/DiscussionWire.thy ===== *)
theory DiscussionWire imports Digest JsMap Dedup begin

text \<open>
  The discussion wire, \<^verbatim>\<open>protocol/discussion-wire.ts\<close>: a large message travels as frames of at most
  9000 bytes, and the receiver puts them together in any order.  SHA-256 is the parameter \<open>sha\<close>, the
  reading of non-integer numerals is \<open>cv\<close>, the clock is an input.
\<close>

definition WIRE_FRAME_BYTE_LIMIT :: nat where
  "WIRE_FRAME_BYTE_LIMIT = 9000"

definition RAW_DISCUSSION_CHUNK_BYTES :: nat where
  "RAW_DISCUSSION_CHUNK_BYTES = 5700"

definition MAX_DISCUSSION_MESSAGE_BYTES :: nat where
  "MAX_DISCUSSION_MESSAGE_BYTES = 8 * 1024 * 1024"

definition MAX_DISCUSSION_CHUNKS :: nat where
  "MAX_DISCUSSION_CHUNKS = 2048"

definition DEFAULT_WIRE_TTL_MS :: int where
  "DEFAULT_WIRE_TTL_MS = 10 * 60 * 1000"

definition MAX_INFLIGHT_MESSAGES :: nat where
  "MAX_INFLIGHT_MESSAGES = 64"

definition MAX_INFLIGHT_BYTES :: nat where
  "MAX_INFLIGHT_BYTES = 16 * 1024 * 1024"

definition MAX_COMPLETED :: nat where
  "MAX_COMPLETED = 1024"

datatype wire_error = PayloadTooLarge | TooManyChunks | FrameTooLarge | InvalidWireLimit

definition bounded_string :: "nat \<Rightarrow> jstr \<Rightarrow> bool" where
  "bounded_string mx s \<longleftrightarrow> 1 \<le> length s \<and> length s \<le> mx \<and> trim s = s \<and> \<not> has_control s"

fun boundedId :: "json option \<Rightarrow> bool" where
  "boundedId (Some (JStr s)) = bounded_string 128 s"
| "boundedId _ = False"

definition positiveInteger :: "int option \<Rightarrow> int \<Rightarrow> int \<Rightarrow> (wire_error, int) result" where
  "positiveInteger v fallback hardMax = (case v of None \<Rightarrow> Inr fallback | Some x \<Rightarrow>
     if \<bar>x\<bar> > max_safe \<or> x \<le> 0 then Inl InvalidWireLimit else Inr (min x hardMax))"

definition wire_capacity :: "int option \<Rightarrow> int \<Rightarrow> int \<Rightarrow> (wire_error, int) result" where
  "wire_capacity v fallback hardMax = (case v of None \<Rightarrow> Inr fallback | Some x \<Rightarrow>
     if \<bar>x\<bar> > max_safe \<or> x < 0 then Inl InvalidWireLimit else Inr (min x hardMax))"

text \<open>Groups of four characters; the last may end in one or two \<open>=\<close>.\<close>

definition base64_tail :: "jstr \<Rightarrow> bool" where
  "base64_tail l \<longleftrightarrow> list_all is_std_char l
     \<or> (list_all is_std_char (take 2 l) \<and> drop 2 l = [61, 61])
     \<or> (list_all is_std_char (take 3 l) \<and> drop 3 l = [61])"

definition base64_shape :: "jstr \<Rightarrow> bool" where
  "base64_shape s \<longleftrightarrow> 4 \<le> length s \<and> length s mod 4 = 0
     \<and> list_all is_std_char (take (length s - 4) s) \<and> base64_tail (drop (length s - 4) s)"

definition canonicalBase64 :: "jstr \<Rightarrow> bytes option" where
  "canonicalBase64 s =
     (if \<not> base64_shape s then None
      else let decoded = from_base64 s in if base64 decoded = s then Some decoded else None)"

subsection \<open>Encoding\<close>

definition chunk :: "bytes \<Rightarrow> nat \<Rightarrow> bytes" where
  "chunk whole i = take RAW_DISCUSSION_CHUNK_BYTES (drop (i * RAW_DISCUSSION_CHUNK_BYTES) whole)"

definition chunk_count :: "bytes \<Rightarrow> nat" where
  "chunk_count whole = (length whole + RAW_DISCUSSION_CHUNK_BYTES - 1) div RAW_DISCUSSION_CHUNK_BYTES"

definition payload_version :: "jobj \<Rightarrow> json" where
  "payload_version payload = (case field payload ''protocolVersion'' of Some v \<Rightarrow> v | None \<Rightarrow> JInt 2)"

definition payload_discussion :: "jobj \<Rightarrow> jstr option" where
  "payload_discussion payload = (case field payload ''discussionId'' of
     Some (JStr s) \<Rightarrow> if bounded_string 128 s then Some s else None | _ \<Rightarrow> None)"

definition wire_frame :: "json \<Rightarrow> jstr \<Rightarrow> nat \<Rightarrow> nat \<Rightarrow> jstr option \<Rightarrow> jstr \<Rightarrow> jobj" where
  "wire_frame version sha256 index count discussionId data =
     [(js ''msg_type'', JLit ''discussion_wire_chunk''), (js ''protocolVersion'', version),
      (js ''messageId'', JStr (js ''wire_'' @ sha256)), (js ''sha256'', JStr sha256),
      (js ''chunkIndex'', JInt (int index)), (js ''chunkCount'', JInt (int count))]
     @ (case discussionId of None \<Rightarrow> [] | Some d \<Rightarrow> [(js ''discussionId'', JStr d)])
     @ [(js ''data'', JStr data)]"

definition message_frame :: "(bytes \<Rightarrow> bytes) \<Rightarrow> jobj \<Rightarrow> bytes \<Rightarrow> nat \<Rightarrow> jobj" where
  "message_frame sha payload whole i =
     wire_frame (payload_version payload) (hex_text (sha whole)) i (chunk_count whole)
       (payload_discussion payload) (base64 (chunk whole i))"

definition encodeDiscussionWire :: "(bytes \<Rightarrow> bytes) \<Rightarrow> jobj \<Rightarrow> (wire_error, jstr list) result" where
  "encodeDiscussionWire sha payload =
     (let serialized = stringify (JObj payload); whole = utf8_encode serialized
      in if length whole \<le> WIRE_FRAME_BYTE_LIMIT then Inr [serialized]
         else if length whole > MAX_DISCUSSION_MESSAGE_BYTES then Inl PayloadTooLarge
         else if chunk_count whole > MAX_DISCUSSION_CHUNKS then Inl TooManyChunks
         else let frames = map (\<lambda>i. stringify (JObj (message_frame sha payload whole i))) [0..<chunk_count whole]
              in if list_ex (\<lambda>f. byte_length f > WIRE_FRAME_BYTE_LIMIT) frames then Inl FrameTooLarge
                 else Inr frames)"

subsection \<open>The reassembler\<close>

record wire_config =
  wc_ttlMs :: int
  wc_maxMessageBytes :: int
  wc_maxChunks :: int
  wc_maxInflightMessages :: int
  wc_maxInflightBytes :: int
  wc_maxCompleted :: int

record partial =
  p_version :: json
  p_senderId :: jstr
  p_sha256 :: jstr
  p_chunkCount :: nat
  p_discussionId :: "json option"
  p_expiresAt :: int
  p_chunks :: "(nat, bytes) jsmap"
  p_receivedBytes :: int

record completed_mark =
  m_expiresAt :: int
  m_version :: json

record wire_state =
  partials :: "(jstr, partial) jsmap"
  completed :: "(jstr, completed_mark) jsmap"
  storedBytes :: int
  w_disposed :: bool

datatype wire_result =
    Passthrough json
  | Incomplete
  | Invalid
  | Replay
  | Complete jobj jstr

definition wire_start :: wire_state where
  "wire_start = \<lparr>partials = [], completed = [], storedBytes = 0, w_disposed = False\<rparr>"

definition new_wire_config ::
  "int option \<Rightarrow> int option \<Rightarrow> int option \<Rightarrow> int option \<Rightarrow> int option \<Rightarrow> int option \<Rightarrow> (wire_error, wire_config) result" where
  "new_wire_config ttl msgBytes chunks inflight inflightBytes done =
     bind_result (positiveInteger ttl DEFAULT_WIRE_TTL_MS DEFAULT_WIRE_TTL_MS) (\<lambda>t.
     bind_result (positiveInteger msgBytes (int MAX_DISCUSSION_MESSAGE_BYTES) (int MAX_DISCUSSION_MESSAGE_BYTES)) (\<lambda>b.
     bind_result (positiveInteger chunks (int MAX_DISCUSSION_CHUNKS) (int MAX_DISCUSSION_CHUNKS)) (\<lambda>c.
     bind_result (wire_capacity inflight (int MAX_INFLIGHT_MESSAGES) (int MAX_INFLIGHT_MESSAGES)) (\<lambda>i.
     bind_result (wire_capacity inflightBytes (int MAX_INFLIGHT_BYTES) (int MAX_INFLIGHT_BYTES)) (\<lambda>ib.
     bind_result (wire_capacity done (int MAX_COMPLETED) (int MAX_COMPLETED)) (\<lambda>mc.
       Inr \<lparr>wc_ttlMs = t, wc_maxMessageBytes = b, wc_maxChunks = c, wc_maxInflightMessages = i,
            wc_maxInflightBytes = ib, wc_maxCompleted = mc\<rparr>))))))"

text \<open>\<open>#remove\<close>\<close>

definition wire_remove :: "wire_state \<Rightarrow> jstr \<Rightarrow> wire_state" where
  "wire_remove s key = (case mget (partials s) key of None \<Rightarrow> s
     | Some p \<Rightarrow> s\<lparr>storedBytes := storedBytes s - p_receivedBytes p, partials := mdelete (partials s) key\<rparr>)"

text \<open>A loop that removes the entries for which a test holds.\<close>

definition remove_where :: "(jstr \<Rightarrow> partial \<Rightarrow> bool) \<Rightarrow> wire_state \<Rightarrow> wire_state" where
  "remove_where P s = fold (\<lambda>(k, p) t. if P k p then wire_remove t k else t) (partials s) s"

definition cleanup :: "int \<Rightarrow> wire_state \<Rightarrow> wire_state" where
  "cleanup now s = (let s1 = remove_where (\<lambda>_ p. p_expiresAt p \<le> now) s
     in s1\<lparr>completed := mdelete_where (\<lambda>_ m. m_expiresAt m \<le> now) (completed s1)\<rparr>)"

definition clearDiscussion :: "jstr \<Rightarrow> jstr \<Rightarrow> wire_state \<Rightarrow> wire_state" where
  "clearDiscussion sender discussionId s =
     remove_where (\<lambda>_ p. p_senderId p = sender \<and> p_discussionId p = Some (JStr discussionId)) s"

definition clearPartials :: "wire_state \<Rightarrow> wire_state" where
  "clearPartials s = s\<lparr>partials := [], storedBytes := 0\<rparr>"

definition wire_dispose :: "wire_state \<Rightarrow> wire_state" where
  "wire_dispose s = (if w_disposed s then s else (clearPartials (s\<lparr>w_disposed := True\<rparr>))\<lparr>completed := []\<rparr>)"

fun safe_int :: "json option \<Rightarrow> int option" where
  "safe_int (Some (JNum (NInt i))) = (if \<bar>i\<bar> \<le> max_safe then Some i else None)"
| "safe_int _ = None"

fun str_of :: "json option \<Rightarrow> jstr option" where
  "str_of (Some (JStr s)) = Some s"
| "str_of _ = None"

definition frame_required :: "string list" where
  "frame_required = [''msg_type'', ''protocolVersion'', ''messageId'', ''sha256'', ''chunkIndex'', ''chunkCount'', ''data'']"

definition validFrame :: "wire_config \<Rightarrow> jstr \<Rightarrow> jobj \<Rightarrow> nat \<Rightarrow> bool" where
  "validFrame cfg sender ob frameBytes \<longleftrightarrow>
     bounded_string 128 sender
     \<and> list_all (own_key ob) frame_required
     \<and> list_all (\<lambda>(k, v). k \<in> js ` set (frame_required @ [''discussionId''])) ob
     \<and> field ob ''protocolVersion'' \<in> {Some (JInt 2), Some (JInt 3)}
     \<and> (case str_of (field ob ''sha256'') of None \<Rightarrow> False | Some h \<Rightarrow>
          hex_exact 64 h \<and> field ob ''messageId'' = Some (JStr (js ''wire_'' @ h)))
     \<and> (case (safe_int (field ob ''chunkIndex''), safe_int (field ob ''chunkCount'')) of
          (Some i, Some n) \<Rightarrow> 1 \<le> n \<and> n \<le> wc_maxChunks cfg \<and> 0 \<le> i \<and> i < n
        | _ \<Rightarrow> False)
     \<and> str_of (field ob ''data'') \<noteq> None
     \<and> (field ob ''discussionId'' = None \<or> boundedId (field ob ''discussionId''))
     \<and> 1 \<le> frameBytes \<and> frameBytes \<le> WIRE_FRAME_BYTE_LIMIT"

text \<open>All chunks in order, or nothing when one is missing.\<close>

fun ordered_chunks :: "(nat, bytes) jsmap \<Rightarrow> nat list \<Rightarrow> bytes option" where
  "ordered_chunks m [] = Some []"
| "ordered_chunks m (i # is) =
     (case mget m i of None \<Rightarrow> None
      | Some c \<Rightarrow> (case ordered_chunks m is of None \<Rightarrow> None | Some r \<Rightarrow> Some (c @ r)))"

text \<open>What is done with the complete bytes of a message, after its partial entry was removed.\<close>

definition finish_message ::
  "(bytes \<Rightarrow> bytes) \<Rightarrow> (jstr \<Rightarrow> jnum) \<Rightarrow> wire_config \<Rightarrow> int \<Rightarrow> jstr \<Rightarrow> partial \<Rightarrow> bytes \<Rightarrow> wire_state
    \<Rightarrow> wire_result \<times> wire_state" where
  "finish_message sha cv cfg now key p whole s =
     (if int (length whole) > wc_maxMessageBytes cfg \<or> hex_text (sha whole) \<noteq> p_sha256 p then (Invalid, s)
      else let serialized = utf8_decode whole
           in if utf8_encode serialized \<noteq> whole then (Invalid, s)
              else case json_parse cv serialized of
                Some (JObj payload) \<Rightarrow>
                  if int (msize (completed s)) \<ge> wc_maxCompleted cfg then (Invalid, s)
                  else if payload_version payload \<noteq> p_version p then (Invalid, s)
                  else (Complete payload serialized,
                        s\<lparr>completed := mset_at (completed s) key
                            \<lparr>m_expiresAt = now + wc_ttlMs cfg, m_version = p_version p\<rparr>\<rparr>)
              | _ \<Rightarrow> (Invalid, s))"

definition same_message :: "partial \<Rightarrow> jstr \<Rightarrow> json \<Rightarrow> nat \<Rightarrow> json option \<Rightarrow> bool" where
  "same_message p h version count disc \<longleftrightarrow>
     p_sha256 p = h \<and> p_version p = version \<and> p_chunkCount p = count \<and> p_discussionId p = disc"

text \<open>Adding one chunk to the partial message at a key.\<close>

definition store_chunk ::
  "(bytes \<Rightarrow> bytes) \<Rightarrow> (jstr \<Rightarrow> jnum) \<Rightarrow> wire_config \<Rightarrow> int \<Rightarrow> jstr \<Rightarrow> partial \<Rightarrow> nat \<Rightarrow> bytes \<Rightarrow> wire_state
    \<Rightarrow> wire_result \<times> wire_state" where
  "store_chunk sha cv cfg now key p index raw s =
     (case mget (p_chunks p) index of
        Some previous \<Rightarrow> if previous = raw then (Incomplete, s) else (Invalid, wire_remove s key)
      | None \<Rightarrow>
          if p_receivedBytes p + int (length raw) > wc_maxMessageBytes cfg
             \<or> storedBytes s + int (length raw) > wc_maxInflightBytes cfg
          then (Invalid, wire_remove s key)
          else let p1 = p\<lparr>p_chunks := mset_at (p_chunks p) index raw,
                          p_receivedBytes := p_receivedBytes p + int (length raw),
                          p_expiresAt := now + wc_ttlMs cfg\<rparr>;
                   s1 = s\<lparr>partials := mset_at (partials s) key p1, storedBytes := storedBytes s + int (length raw)\<rparr>
               in if msize (p_chunks p1) < p_chunkCount p1 then (Incomplete, s1)
                  else case ordered_chunks (p_chunks p1) [0..<p_chunkCount p1] of
                    None \<Rightarrow> (Incomplete, s1)
                  | Some whole \<Rightarrow> finish_message sha cv cfg now key p1 whole (wire_remove s1 key))"

definition wire_key :: "jstr \<Rightarrow> jstr \<Rightarrow> jstr" where
  "wire_key sender messageId = stringify (JArr [JStr sender, JStr messageId])"

text \<open>\<open>#acceptFrame\<close>; the fields are read as the validated frame has them.\<close>

definition acceptFrame ::
  "(bytes \<Rightarrow> bytes) \<Rightarrow> (jstr \<Rightarrow> jnum) \<Rightarrow> wire_config \<Rightarrow> int \<Rightarrow> jstr \<Rightarrow> jobj \<Rightarrow> nat \<Rightarrow> wire_state
    \<Rightarrow> wire_result \<times> wire_state" where
  "acceptFrame sha cv cfg now sender ob frameBytes s0 =
     (let s = cleanup now s0
      in if \<not> validFrame cfg sender ob frameBytes then (Invalid, s)
         else case canonicalBase64 (the (str_of (field ob ''data''))) of
           None \<Rightarrow> (Invalid, s)
         | Some raw \<Rightarrow>
             if length raw < 1 \<or> length raw > RAW_DISCUSSION_CHUNK_BYTES then (Invalid, s)
             else let h = the (str_of (field ob ''sha256''));
                      version = the (field ob ''protocolVersion'');
                      count = nat (the (safe_int (field ob ''chunkCount'')));
                      index = nat (the (safe_int (field ob ''chunkIndex'')));
                      disc = field ob ''discussionId'';
                      key = wire_key sender (js ''wire_'' @ h)
                  in case mget (completed s) key of
                       Some m \<Rightarrow> (if m_version m = version then Replay else Invalid, s)
                     | None \<Rightarrow>
                         (case mget (partials s) key of
                            None \<Rightarrow>
                              if int (msize (partials s)) \<ge> wc_maxInflightMessages cfg
                                 \<or> storedBytes s + int (length raw) > wc_maxInflightBytes cfg
                              then (Invalid, s)
                              else let p = \<lparr>p_version = version, p_senderId = sender, p_sha256 = h,
                                     p_chunkCount = count, p_discussionId = disc,
                                     p_expiresAt = now + wc_ttlMs cfg, p_chunks = [], p_receivedBytes = 0\<rparr>
                                   in store_chunk sha cv cfg now key p index raw
                                        (s\<lparr>partials := mset_at (partials s) key p\<rparr>)
                          | Some p \<Rightarrow>
                              if \<not> same_message p h version count disc then (Invalid, wire_remove s key)
                              else store_chunk sha cv cfg now key p index raw s))"

definition is_wire_frame :: "json \<Rightarrow> jobj option" where
  "is_wire_frame v = (case v of JObj ob \<Rightarrow>
     if field ob ''msg_type'' = Some (JLit ''discussion_wire_chunk'') then Some ob else None | _ \<Rightarrow> None)"

definition wire_accept ::
  "(bytes \<Rightarrow> bytes) \<Rightarrow> (jstr \<Rightarrow> jnum) \<Rightarrow> wire_config \<Rightarrow> int \<Rightarrow> jstr \<Rightarrow> json \<Rightarrow> wire_state
    \<Rightarrow> wire_result \<times> wire_state" where
  "wire_accept sha cv cfg now sender v s =
     (case is_wire_frame v of
        None \<Rightarrow> (Passthrough v, s)
      | Some _ \<Rightarrow>
          if w_disposed s then (Invalid, s)
          else let serialized = stringify v
               in case json_parse cv serialized of
                    Some (JObj ob) \<Rightarrow> acceptFrame sha cv cfg now sender ob (byte_length serialized) s
                  | _ \<Rightarrow> (Invalid, s))"

definition acceptSerialized ::
  "(bytes \<Rightarrow> bytes) \<Rightarrow> (jstr \<Rightarrow> jnum) \<Rightarrow> wire_config \<Rightarrow> int \<Rightarrow> jstr \<Rightarrow> jstr \<Rightarrow> wire_state
    \<Rightarrow> wire_result \<times> wire_state" where
  "acceptSerialized sha cv cfg now sender text s =
     (if byte_length text > WIRE_FRAME_BYTE_LIMIT then (Invalid, s)
      else case json_parse cv text of
        None \<Rightarrow> (Invalid, s)
      | Some v \<Rightarrow>
          (case is_wire_frame v of
             None \<Rightarrow> (Passthrough v, s)
           | Some ob \<Rightarrow>
               if w_disposed s then (Invalid, s)
               else acceptFrame sha cv cfg now sender ob (byte_length text) s))"

end
