(* ===== verification/Printed.thy ===== *)
theory Printed imports JsonParse begin

text \<open>
  The text \<open>JSON.stringify\<close> prints is well formed UTF-16 whatever strings the value holds, so its
  UTF-8 encoding is faithful and lengths in bytes add up.
\<close>

lemma well_formed_Nil [simp]: "well_formed []"
  by (simp add: well_formed_def)

lemma pair_not_surrogate: "is_high u \<Longrightarrow> is_low v \<Longrightarrow> \<not> is_surrogate (pair_point u v)"
  unfolding pair_point_def is_surrogate_def by simp

lemma high_surrogate: "is_high u \<Longrightarrow> is_surrogate (unat u)"
  by (simp add: is_high_def is_surrogate_def)

lemma code_points_append:
  "well_formed a \<Longrightarrow> code_points (a @ b) = code_points a @ code_points b"
proof (induction a rule: code_points.induct)
  case (2 u)
  hence "\<not> is_high u" using high_surrogate by (auto simp: well_formed_def)
  thus ?case by (cases b) simp_all
next
  case (3 u v r)
  thus ?case by (auto simp: well_formed_def)
qed simp

lemma well_formed_append: "well_formed a \<Longrightarrow> well_formed b \<Longrightarrow> well_formed (a @ b)"
  using code_points_append [of a b] by (auto simp: well_formed_def)

lemma byte_length_append: "well_formed a \<Longrightarrow> byte_length (a @ b) = byte_length a + byte_length b"
  by (simp add: byte_length_def utf8_encode_def code_points_append)

lemma utf8_encode_append: "well_formed a \<Longrightarrow> utf8_encode (a @ b) = utf8_encode a @ utf8_encode b"
  by (simp add: utf8_encode_def code_points_append)

lemma well_formed_ascii: "\<forall>u \<in> set s. unat u < 128 \<Longrightarrow> well_formed s \<and> byte_length s = length s"
proof -
  assume a: "\<forall>u \<in> set s. unat u < 128"
  have "\<forall>u \<in> set s. \<not> is_high u"
  proof
    fix u assume "u \<in> set s"
    with a have "unat u < 128" by blast
    thus "\<not> is_high u" unfolding is_high_def by linarith
  qed
  hence c: "code_points s = map unat s" by (rule code_points_plain)
  have "(\<forall>u \<in> set s. unat u < 128) \<Longrightarrow> length (concat (map (encode_point \<circ> unat) s)) = length s" for s :: jstr
    by (induction s) (simp_all add: encode_point_def)
  with a c show ?thesis by (force simp: well_formed_def is_surrogate_def byte_length_def utf8_encode_def)
qed

subsection \<open>Numbers\<close>

definition number_char :: "code_unit \<Rightarrow> bool" where
  "number_char u \<longleftrightarrow> is_digit u \<or> u = 45 \<or> u = 43 \<or> u = 46 \<or> u = 101 \<or> u = 69"

lemma number_char_ascii: "number_char u \<Longrightarrow> unat u < 128"
  by (auto simp: number_char_def is_digit_def)

lemma split_digits_text: "split_digits s = (ds, t) \<Longrightarrow> s = ds @ t \<and> list_all number_char ds"
  by (auto simp: split_digits_def list_all_iff number_char_def dest: set_takeWhileD)

lemma parse_frac_text: "parse_frac s = Some (fr, t) \<Longrightarrow> s = fr @ t \<and> list_all number_char fr"
  using split_digits_text by (auto simp: parse_frac_def number_char_def Let_def split: list.splits if_splits prod.splits)

lemma parse_exp_text:
  assumes "parse_exp s = Some (ex, t)"
  shows "s = ex @ t \<and> list_all number_char ex"
proof (cases s)
  case Nil
  thus ?thesis using assms by (auto simp: parse_exp_def)
next
  case (Cons u r)
  define sg where "sg = (case r of v # r' \<Rightarrow> (if v = 43 \<or> v = 45 then ([v], r') else ([], r)) | [] \<Rightarrow> ([], r))"
  have sgt: "r = fst sg @ snd sg" "list_all number_char (fst sg)"
    by (auto simp: sg_def number_char_def split: list.splits)
  show ?thesis
  proof (cases "u = 101 \<or> u = 69")
    case True
    obtain ds t' where sd: "split_digits (snd sg) = (ds, t')" by force
    have "ex = u # fst sg @ ds" "t = t'"
      using assms True sd by (auto simp: Cons parse_exp_def sg_def [symmetric] Let_def split: if_splits prod.splits)
    thus ?thesis using split_digits_text [OF sd] sgt Cons True by (auto simp: number_char_def)
  next
    case False
    thus ?thesis using assms Cons by (auto simp: parse_exp_def)
  qed
qed

lemma parse_number_text:
  assumes "parse_number cv s = Some (x, [])"
  shows "list_all number_char s"
proof -
  obtain sg s1 ds s2 where 1: "parse_sign s = (sg, s1)" "split_digits s1 = (ds, s2)" by fastforce
  with assms obtain fr s3 ex where 2: "parse_frac s2 = Some (fr, s3)" "parse_exp s3 = Some (ex, [])"
    by (auto simp: parse_number_def split: if_splits option.splits)
  have "s = sg @ s1 \<and> list_all number_char sg"
    using 1(1) by (auto simp: parse_sign_def number_char_def split: list.splits if_splits)
  thus ?thesis using split_digits_text [OF 1(2)] parse_frac_text [OF 2(1)] parse_exp_text [OF 2(2)] by auto
qed

subsection \<open>Strings and values\<close>

lemma quote_unit_ascii:
  assumes "\<not> (\<not> is_high u \<and> \<not> is_low u \<and> quote_unit u = [u])"
  shows "\<forall>x \<in> set (quote_unit u). unat x < 128"
proof -
  have h: "unat (hex_digit n) < 128" if "n < 16" for n
    using that by (auto simp: hex_digit_def unat_of_nat)
  have "unat u < 65536" using unsigned_less [of u] by simp
  hence "unat u div 4096 < 16" by (simp add: less_mult_imp_div_less)
  with h have "\<forall>x \<in> set (escape_u u). unat x < 128" by (auto simp: escape_u_def Let_def)
  thus ?thesis using assms by (auto simp: quote_unit_def split: if_splits)
qed

lemma quote_unit_form: "well_formed (quote_unit u) \<and> byte_length (quote_unit u) \<le> 6"
proof (cases "\<not> is_high u \<and> \<not> is_low u \<and> quote_unit u = [u]")
  case True
  have "\<not> is_surrogate (unat u)" using True by (auto simp: is_surrogate_def is_high_def is_low_def)
  thus ?thesis using True by (simp add: well_formed_def byte_length_def utf8_encode_def encode_point_def)
next
  case False
  have "length (quote_unit u) \<le> 6" by (simp add: quote_unit_def escape_u_def Let_def)
  with well_formed_ascii [OF quote_unit_ascii [OF False]] show ?thesis by simp
qed

lemma quote_units_form: "well_formed (quote_units s) \<and> byte_length (quote_units s) \<le> 6 * length s"
proof (induction s rule: quote_units.induct)
  case (2 u)
  thus ?case using quote_unit_form by simp
next
  case (3 u v r)
  show ?case
  proof (cases "is_high u \<and> is_low v")
    case True
    have "well_formed [u, v]" using True pair_not_surrogate by (simp add: well_formed_def)
    moreover have "byte_length [u, v] \<le> 4" using True by (simp add: byte_length_def utf8_encode_def encode_point_def)
    ultimately show ?thesis using 3 True well_formed_append [of "[u, v]"] byte_length_append [of "[u, v]" "quote_units r"]
      by simp
  next
    case False
    hence "quote_units (u # v # r) = quote_unit u @ quote_units (v # r)" by auto
    thus ?thesis using 3 False quote_unit_form [of u] well_formed_append [of "quote_unit u" "quote_units (v # r)"]
        byte_length_append [of "quote_unit u" "quote_units (v # r)"]
      by auto
  qed
qed (simp add: byte_length_def utf8_encode_def)

lemma well_formed_unit: "unat u < 128 \<Longrightarrow> well_formed [u] \<and> byte_length [u] = 1"
  using well_formed_ascii [of "[u]"] by simp

lemma well_formed_Cons: "unat u < 128 \<Longrightarrow> well_formed s \<Longrightarrow> well_formed (u # s) \<and> byte_length (u # s) = 1 + byte_length s"
  using well_formed_unit [of u] well_formed_append [of "[u]" s] byte_length_append [of "[u]" s] by simp

lemma quote_form: "well_formed (quote s) \<and> byte_length (quote s) \<le> 6 * length s + 2"
proof -
  have "well_formed (quote_units s @ [34])" "byte_length (quote_units s @ [34]) \<le> 6 * length s + 1"
    using quote_units_form [of s] well_formed_append byte_length_append [of "quote_units s" "[34]"]
      well_formed_unit [of 34] by simp_all
  thus ?thesis using well_formed_Cons [of 34 "quote_units s @ [34]"] by (simp add: quote_def)
qed

lemma join_comma_form: "\<forall>x \<in> set xs. well_formed x \<Longrightarrow> well_formed (join_comma xs)"
  by (induction xs rule: join_comma.induct) (auto intro!: well_formed_append simp: well_formed_Cons)

lemma well_formed_stringify: "wf_json cv v \<Longrightarrow> well_formed (stringify v)"
proof (induction v)
  case (JNum n)
  hence "list_all number_char (num_text n)" using num_ok_parse [of cv n] parse_number_text by simp
  thus ?case using well_formed_ascii [of "num_text n"] number_char_ascii by (auto simp: list_all_iff)
next
  case (JArr xs)
  have "well_formed (join_comma (map stringify xs))" using JArr by (intro join_comma_form) auto
  thus ?case using well_formed_append [of _ "[93]"] well_formed_unit [of 93] by (simp add: well_formed_Cons)
next
  case (JObj kvs)
  have "well_formed (quote k @ 58 # stringify x)" if "(k, x) \<in> set kvs" for k x
    using that JObj quote_form by (force intro!: well_formed_append simp: well_formed_Cons)
  hence "well_formed (join_comma (map (\<lambda>(k, v). quote k @ 58 # stringify v) kvs))"
    by (intro join_comma_form) auto
  thus ?case using well_formed_append [of _ "[125]"] well_formed_unit [of 125] by (simp add: well_formed_Cons)
qed (simp_all add: quote_form)

end
