(* ===== verification/WireRoundtrip.thy ===== *)
theory WireRoundtrip imports WireProofs Printed begin

text \<open>
  A message cut into frames by \<open>encodeDiscussionWire\<close> always fits the frame limit, and the reassembler
  returns exactly that message once all its frames have arrived, in any order and with repetitions.
\<close>

subsection \<open>Text that needs no escape\<close>

definition unescaped :: "code_unit \<Rightarrow> bool" where
  "unescaped u \<longleftrightarrow> 32 \<le> unat u \<and> unat u < 127 \<and> u \<noteq> 34 \<and> u \<noteq> 92"

lemma unescaped_ascii: "unescaped u \<Longrightarrow> unat u < 128"
  unfolding unescaped_def by linarith

lemma digit_ascii: "is_digit u \<Longrightarrow> unat u < 128"
  unfolding is_digit_def by linarith

lemma quote_unit_unescaped: "unescaped u \<Longrightarrow> quote_unit u = [u] \<and> \<not> is_high u"
  by (auto simp: unescaped_def quote_unit_def is_high_def is_low_def)

lemma quote_units_unescaped: "\<forall>u \<in> set s. unescaped u \<Longrightarrow> quote_units s = s"
proof (induction s rule: quote_units.induct)
  case (3 u v r)
  thus ?case using quote_unit_unescaped [of u] by simp
qed (simp_all add: quote_unit_unescaped)

lemma std_unescaped: "is_std_char u \<Longrightarrow> unescaped u"
  by (auto simp: is_std_char_def unescaped_def is_upper_def is_lower_def is_digit_def)

lemma hex_unescaped: "is_hex u \<Longrightarrow> unescaped u"
  by (auto simp: is_hex_def unescaped_def is_digit_def)

lemma base64_chars: "u \<in> set (base64 bs) \<Longrightarrow> is_std_char u \<or> u = 61"
  using digits_bound by (auto simp: base64_def padding_def digit_char_class)

lemma quote_base64: "byte_length (quote (base64 bs)) = 4 * ((length bs + 2) div 3) + 2"
proof -
  have "\<forall>u \<in> set (base64 bs). unescaped u"
    using base64_chars std_unescaped by (fastforce simp: unescaped_def)
  hence "quote_units (base64 bs) = base64 bs" "\<forall>u \<in> set (quote (base64 bs)). unat u < 128"
    by (auto simp: quote_units_unescaped quote_def dest: unescaped_ascii)
  thus ?thesis using well_formed_ascii [of "quote (base64 bs)"] by (simp add: quote_def length_base64)
qed

lemma quote_hex:
  assumes "hex_exact n h" "list_all quotable p"
  shows "byte_length (quote (js p @ h)) = length p + n + 2"
proof -
  have "\<forall>u \<in> set (js p @ h). unescaped u"
  proof
    fix u assume "u \<in> set (js p @ h)"
    thus "unescaped u"
    proof (cases "u \<in> set h")
      case True
      thus ?thesis using assms(1) hex_unescaped by (auto simp: hex_exact_def list_all_iff)
    next
      case False
      with \<open>u \<in> set (js p @ h)\<close> obtain c where "c \<in> set p" "u = cu c" by (auto simp: js_def)
      moreover hence "quotable c" using assms(2) by (simp add: list_all_iff)
      moreover have "cu c \<noteq> cu (CHR 0x22)" "cu c \<noteq> cu (CHR 0x5C)" using calculation by (simp_all add: quotable_def)
      ultimately show ?thesis by (simp add: unescaped_def quotable_def cu_def [of "CHR 0x22"] cu_def [of "CHR 0x5C"])
    qed
  qed
  hence "quote_units (js p @ h) = js p @ h" "\<forall>u \<in> set (quote (js p @ h)). unat u < 128"
    by (auto simp: quote_units_unescaped quote_def dest: unescaped_ascii)
  thus ?thesis using well_formed_ascii [of "quote (js p @ h)"] assms by (simp add: quote_def hex_exact_def)
qed

lemma length_nat_digits: "n < 10 ^ k \<Longrightarrow> 0 < k \<Longrightarrow> length (nat_digits n) \<le> k"
proof (induction n arbitrary: k rule: nat_digits.induct)
  case (1 n)
  show ?case
  proof (cases "n < 10")
    case True
    thus ?thesis using "1.prems" by (subst nat_digits.simps) simp
  next
    case False
    then obtain j where k: "k = Suc j" "0 < j" using "1.prems" by (cases k; cases "k = 1") auto
    hence "n div 10 < 10 ^ j" using "1.prems" by (simp add: less_mult_imp_div_less)
    from "1.IH" [OF False this k(2)] show ?thesis using False k by (subst nat_digits.simps) simp
  qed
qed

lemma byte_length_int: "0 \<le> i \<Longrightarrow> i < 10 ^ k \<Longrightarrow> 0 < k \<Longrightarrow> byte_length (int_text i) \<le> k"
proof -
  assume i: "0 \<le> i" "i < 10 ^ k" "0 < k"
  have "nat i < 10 ^ k" using i by (simp add: nat_less_iff)
  hence "length (nat_digits (nat i)) \<le> k" using i(3) by (rule length_nat_digits)
  moreover have "\<forall>u \<in> set (nat_digits (nat i)). unat u < 128"
    using nat_digits_correct [of "nat i"] digit_ascii by (auto simp: list_all_iff)
  ultimately show ?thesis using well_formed_ascii [of "nat_digits (nat i)"] i(1) by (simp add: int_text_def)
qed

subsection \<open>The size of a frame\<close>

definition prop_line :: "jstr \<times> json \<Rightarrow> jstr" where
  "prop_line p = quote (fst p) @ 58 # stringify (snd p)"

lemma stringify_obj: "stringify (JObj kvs) = 123 # join_comma (map prop_line kvs) @ [125]"
proof -
  have "(\<lambda>(k, v). quote k @ 58 # stringify v) = prop_line" by (rule ext) (auto simp: prop_line_def)
  thus ?thesis by (simp only: stringify.simps stringify_props_map)
qed

lemma prop_line_size:
  "well_formed (stringify v) \<Longrightarrow> list_all quotable k \<Longrightarrow> byte_length (stringify v) \<le> n \<Longrightarrow>
   well_formed (prop_line (js k, v)) \<and> byte_length (prop_line (js k, v)) \<le> length k + 3 + n"
proof -
  assume a: "well_formed (stringify v)" "list_all quotable k" "byte_length (stringify v) \<le> n"
  have "byte_length (quote (js k)) = length k + 2" using quote_hex [of 0 "[]" k] a(2) by (simp add: hex_exact_def)
  thus ?thesis using a quote_form [of "js k"] well_formed_Cons [of 58 "stringify v"]
      well_formed_append [of "quote (js k)" "58 # stringify v"] byte_length_append [of "quote (js k)" "58 # stringify v"]
    by (simp add: prop_line_def)
qed

lemma join_comma_size:
  "\<forall>x \<in> set xs. well_formed x \<Longrightarrow> byte_length (join_comma xs) \<le> sum_list (map byte_length xs) + length xs"
proof (induction xs rule: join_comma.induct)
  case (3 x y r)
  have "well_formed (join_comma (y # r))" using 3 by (intro join_comma_form) auto
  thus ?case using 3 byte_length_append [of x "44 # join_comma (y # r)"] well_formed_Cons [of 44 "join_comma (y # r)"]
    by simp
qed (simp_all add: byte_length_def utf8_encode_def)

lemma object_size:
  assumes "\<forall>p \<in> set kvs. well_formed (prop_line p) \<and> byte_length (prop_line p) \<le> f p"
  shows "byte_length (stringify (JObj kvs)) \<le> sum_list (map f kvs) + length kvs + 2"
proof -
  let ?j = "join_comma (map prop_line kvs)"
  have w: "well_formed ?j" using assms by (intro join_comma_form) auto
  have "byte_length ?j \<le> sum_list (map byte_length (map prop_line kvs)) + length (map prop_line kvs)"
    using assms by (intro join_comma_size) auto
  also have "sum_list (map byte_length (map prop_line kvs)) \<le> sum_list (map f kvs)"
    unfolding map_map comp_def using assms by (intro sum_list_mono) auto
  finally have "byte_length ?j \<le> sum_list (map f kvs) + length kvs" by simp
  moreover have "byte_length (123 # ?j @ [125]) = byte_length ?j + 2"
    using w well_formed_unit [of 125] byte_length_append [OF w, of "[125]"] well_formed_append [OF w, of "[125]"]
      well_formed_Cons [of 123 "?j @ [125]"] by simp
  ultimately show ?thesis by (simp only: stringify_obj)
qed

lemma frame_size:
  assumes "version \<in> {JInt 2, JInt 3}" "hex_exact 64 h" "i < 10000" "n < 10000"
    "case disc of None \<Rightarrow> True | Some d \<Rightarrow> length d \<le> 128" "length bs \<le> 5700"
  shows "byte_length (stringify (JObj (wire_frame version h i n disc (base64 bs)))) \<le> WIRE_FRAME_BYTE_LIMIT"
proof -
  define f :: "jstr \<times> json \<Rightarrow> nat" where "f p = length (fst p) + 3 + byte_length (stringify (snd p))" for p
  let ?fr = "wire_frame version h i n disc (base64 bs)"
  have wf: "well_formed (stringify (JNum (NInt x)))" for x
  proof -
    have "\<forall>u \<in> set (int_text x). unat u < 128"
      using nat_digits_correct [of "nat x"] nat_digits_correct [of "nat (- x)"]
      by (auto simp: int_text_def list_all_iff dest: digit_ascii)
    thus ?thesis using well_formed_ascii by simp
  qed
  have wv: "well_formed (stringify version)" using assms(1) wf by auto
  have "\<forall>p \<in> set ?fr. \<exists>k. fst p = js k \<and> list_all quotable k \<and> well_formed (stringify (snd p))"
    using wf wv quote_form by (auto simp: wire_frame_def quotable_def split: option.splits)
  hence "\<forall>p \<in> set ?fr. well_formed (prop_line p) \<and> byte_length (prop_line p) \<le> f p"
    using prop_line_size by (fastforce simp: f_def)
  from object_size [OF this]
  have "byte_length (stringify (JObj ?fr)) \<le> sum_list (map f ?fr) + length ?fr + 2" .
  moreover have "byte_length (stringify version) \<le> 1"
    using assms(1) byte_length_int [of 2 1] byte_length_int [of 3 1] by auto
  moreover have "byte_length (stringify (JInt (int i))) \<le> 4" "byte_length (stringify (JInt (int n))) \<le> 4"
    using assms(3,4) byte_length_int [of "int i" 4] byte_length_int [of "int n" 4] by simp_all
  moreover have "byte_length (quote (js ''wire_'' @ h)) = 71" "byte_length (quote h) = 66"
    using quote_hex [OF assms(2), of "''wire_''"] quote_hex [OF assms(2), of "[]"] by (simp_all add: quotable_def)
  moreover have "byte_length (quote (base64 bs)) \<le> 7602"
  proof -
    have "(length bs + 2) div 3 \<le> (5700 + 2) div 3" using assms(6) by (intro div_le_mono) simp
    thus ?thesis by (simp add: quote_base64)
  qed
  moreover have "byte_length (quote (js ''discussion_wire_chunk'')) = 23"
    using quote_hex [of 0 "[]" "''discussion_wire_chunk''"] by (simp add: quotable_def hex_exact_def)
  moreover have "byte_length (quote d) \<le> 770" if "disc = Some d" for d
    using quote_form [of d] assms(5) that by simp
  ultimately show ?thesis
    by (cases disc) (simp_all add: wire_frame_def f_def WIRE_FRAME_BYTE_LIMIT_def)
qed

subsection \<open>Encoding succeeds\<close>

definition whole_of :: "jobj \<Rightarrow> bytes" where
  "whole_of payload = utf8_encode (stringify (JObj payload))"

definition sendable :: "(jstr \<Rightarrow> jnum) \<Rightarrow> jobj \<Rightarrow> bool" where
  "sendable cv payload \<longleftrightarrow> wf_json cv (JObj payload) \<and> payload_version payload \<in> {JInt 2, JInt 3}
     \<and> length (whole_of payload) \<le> MAX_DISCUSSION_MESSAGE_BYTES"

lemma chunk_count_bounds:
  assumes "length whole \<le> MAX_DISCUSSION_MESSAGE_BYTES"
  shows "chunk_count whole \<le> MAX_DISCUSSION_CHUNKS" "chunk_count whole < 10000"
proof -
  have "chunk_count whole \<le> (MAX_DISCUSSION_MESSAGE_BYTES + RAW_DISCUSSION_CHUNK_BYTES - 1) div RAW_DISCUSSION_CHUNK_BYTES"
    unfolding chunk_count_def using assms by (intro div_le_mono) simp
  thus "chunk_count whole \<le> MAX_DISCUSSION_CHUNKS" "chunk_count whole < 10000"
    by (simp_all add: MAX_DISCUSSION_MESSAGE_BYTES_def RAW_DISCUSSION_CHUNK_BYTES_def MAX_DISCUSSION_CHUNKS_def)
qed

lemma length_chunk: "length (chunk whole i) \<le> RAW_DISCUSSION_CHUNK_BYTES"
  by (simp add: chunk_def)

lemma discussion_length: "case payload_discussion payload of None \<Rightarrow> True | Some d \<Rightarrow> bounded_string 128 d"
  by (auto simp: payload_discussion_def split: option.splits json.splits)

lemma message_frame_size:
  assumes "payload_version payload \<in> {JInt 2, JInt 3}" "length (sha whole) = 32"
    "length whole \<le> MAX_DISCUSSION_MESSAGE_BYTES" "i < chunk_count whole"
  shows "byte_length (stringify (JObj (message_frame sha payload whole i))) \<le> WIRE_FRAME_BYTE_LIMIT"
proof -
  note n = chunk_count_bounds(2) [OF assms(3)]
  have d: "case payload_discussion payload of None \<Rightarrow> True | Some d \<Rightarrow> length d \<le> 128"
    using discussion_length [of payload] by (auto simp: bounded_string_def split: option.splits)
  have "length (chunk whole i) \<le> 5700" using length_chunk by (simp add: RAW_DISCUSSION_CHUNK_BYTES_def)
  moreover have "hex_exact 64 (hex_text (sha whole))" using assms(2) by (simp add: hex_exact_hex_text)
  moreover have "i < 10000" using n assms(4) by (rule order.strict_trans [rotated])
  ultimately show ?thesis unfolding message_frame_def using frame_size [OF assms(1) _ _ n d] by blast
qed

lemma encode_frames:
  assumes "sendable cv payload" "\<forall>x. length (sha x) = 32" "WIRE_FRAME_BYTE_LIMIT < length (whole_of payload)"
  shows "encodeDiscussionWire sha payload = Inr (map (\<lambda>i. stringify (JObj (message_frame sha payload (whole_of payload) i)))
    [0..<chunk_count (whole_of payload)])"
proof -
  have v: "payload_version payload \<in> {JInt 2, JInt 3}" and l: "length (whole_of payload) \<le> MAX_DISCUSSION_MESSAGE_BYTES"
    using assms(1) by (simp_all add: sendable_def)
  have "\<not> list_ex (\<lambda>f. byte_length f > WIRE_FRAME_BYTE_LIMIT)
      (map (\<lambda>i. stringify (JObj (message_frame sha payload (whole_of payload) i))) [0..<chunk_count (whole_of payload)])"
    using message_frame_size [OF v _ l, of sha] assms(2) by (auto simp: list_ex_iff not_less)
  thus ?thesis using chunk_count_bounds(1) [OF l] l assms(3)
    unfolding encodeDiscussionWire_def Let_def whole_of_def [symmetric] by (simp del: stringify.simps)
qed

subsection \<open>A frame is read back\<close>

lemma base64_groups:
  shows "\<exists>x y. base64 [a] = [digit_char False x, digit_char False y, 61, 61] \<and> x < 64 \<and> y < 64"
    and "\<exists>x y z. base64 [a, b] = [digit_char False x, digit_char False y, digit_char False z, 61] \<and> x < 64 \<and> y < 64 \<and> z < 64"
    and "\<exists>x y z w. base64 (a # b # c # r) = [digit_char False x, digit_char False y, digit_char False z, digit_char False w] @ base64 r
      \<and> x < 64 \<and> y < 64 \<and> z < 64 \<and> w < 64"
proof -
  have "\<exists>x y. encode_digits [a] = [x, y]" by (simp add: six_def)
  then obtain x y where 1: "encode_digits [a] = [x, y]" by blast
  moreover have "x < 64" "y < 64" using digits_bound [of _ "[a]"] 1 by auto
  ultimately show "\<exists>x y. base64 [a] = [digit_char False x, digit_char False y, 61, 61] \<and> x < 64 \<and> y < 64"
    by - (rule exI [of _ x], rule exI [of _ y], simp only: base64_def padding_def, simp add: numeral_2_eq_2)
  have "\<exists>x y z. encode_digits [a, b] = [x, y, z]" by (simp add: six_def)
  then obtain x y z where 2: "encode_digits [a, b] = [x, y, z]" by blast
  moreover have "x < 64" "y < 64" "z < 64" using digits_bound [of _ "[a, b]"] 2 by auto
  ultimately show "\<exists>x y z. base64 [a, b] = [digit_char False x, digit_char False y, digit_char False z, 61] \<and> x < 64 \<and> y < 64 \<and> z < 64"
    by - (rule exI [of _ x], rule exI [of _ y], rule exI [of _ z], simp only: base64_def padding_def, simp)
  have "\<exists>x y z w. encode_digits (a # b # c # r) = [x, y, z, w] @ encode_digits r" by (simp add: six_def)
  then obtain x y z w where 3: "encode_digits (a # b # c # r) = [x, y, z, w] @ encode_digits r" by blast
  moreover have "x < 64" "y < 64" "z < 64" "w < 64" using digits_bound [of _ "a # b # c # r"] 3 by auto
  ultimately show "\<exists>x y z w. base64 (a # b # c # r) = [digit_char False x, digit_char False y, digit_char False z, digit_char False w] @ base64 r
      \<and> x < 64 \<and> y < 64 \<and> z < 64 \<and> w < 64"
    by - (rule exI [of _ x], rule exI [of _ y], rule exI [of _ z], rule exI [of _ w], simp only: base64_def padding_def, simp)
qed

lemma base64_shape_prefix:
  assumes "base64_shape s" "length p = 4" "list_all is_std_char p"
  shows "base64_shape (p @ s)"
proof -
  have "4 \<le> length s" using assms(1) by (simp add: base64_shape_def)
  hence "drop (length (p @ s) - 4) (p @ s) = drop (length s - 4) s"
    "take (length (p @ s) - 4) (p @ s) = p @ take (length s - 4) s" using assms(2) by simp_all
  thus ?thesis using assms unfolding base64_shape_def by simp
qed

lemma base64_Nil [simp]: "base64 [] = []"
  by (simp add: base64_def padding_def)

lemma base64_shape_base64: "bs \<noteq> [] \<Longrightarrow> base64_shape (base64 bs)"
proof (induction bs rule: encode_digits.induct)
  case (2 a)
  obtain x y where g: "base64 [a] = [digit_char False x, digit_char False y, 61, 61]" "x < 64" "y < 64"
    using base64_groups(1) by blast
  show ?case unfolding g(1) by (simp add: base64_shape_def base64_tail_def digit_char_class g(2,3))
next
  case (3 a b)
  obtain x y z where g: "base64 [a, b] = [digit_char False x, digit_char False y, digit_char False z, 61]"
      "x < 64" "y < 64" "z < 64" using base64_groups(2) by blast
  show ?case unfolding g(1) by (simp add: base64_shape_def base64_tail_def digit_char_class g(2-4))
next
  case (4 a b c r)
  obtain x y z w where g: "base64 (a # b # c # r) =
      [digit_char False x, digit_char False y, digit_char False z, digit_char False w] @ base64 r"
      "x < 64" "y < 64" "z < 64" "w < 64" using base64_groups(3) by blast
  let ?p = "[digit_char False x, digit_char False y, digit_char False z, digit_char False w]"
  have p: "list_all is_std_char ?p" by (simp add: digit_char_class g(2-5))
  show ?case
  proof (cases "r = []")
    case True
    thus ?thesis using p unfolding g(1) by (simp add: base64_shape_def base64_tail_def)
  next
    case False
    from base64_shape_prefix [OF "4.IH" [OF False] _ p] show ?thesis unfolding g(1) by simp
  qed
qed simp

lemma canonicalBase64_base64: "bs \<noteq> [] \<Longrightarrow> canonicalBase64 (base64 bs) = Some bs"
  by (simp add: canonicalBase64_def base64_shape_base64 from_base64_base64)

lemma frame_keys:
  "map fst (wire_frame version h i n disc data) =
     map js ([''msg_type'', ''protocolVersion'', ''messageId'', ''sha256'', ''chunkIndex'', ''chunkCount'']
       @ (case disc of None \<Rightarrow> [] | Some d \<Rightarrow> [''discussionId'']) @ [''data''])"
  by (simp add: wire_frame_def split: option.split)

lemma frame_wf:
  assumes "version \<in> {JInt 2, JInt 3}" "i < 10000" "n < 10000"
  shows "wf_json cv (JObj (wire_frame version h i n disc data))"
proof -
  have "build_obj (wire_frame version h i n disc data) = wire_frame version h i n disc data"
  proof (rule build_obj_plain)
    show "distinct (map fst (wire_frame version h i n disc data))"
      unfolding frame_keys by (cases disc) simp_all
    have "\<forall>k \<in> set (map fst (wire_frame version h i n disc data)). \<not> is_index k"
      unfolding frame_keys by (cases disc) (simp_all add: not_index_js)
    thus "\<forall>k \<in> fst ` set (wire_frame version h i n disc data). \<not> is_index k" by simp
  qed
  moreover have "\<forall>(k, v) \<in> set (wire_frame version h i n disc data). wf_json cv v"
    using assms by (auto simp: wire_frame_def max_safe_def split: option.splits)
  ultimately show ?thesis by simp
qed

lemma frame_fields:
  "field (wire_frame version h i n disc data) ''msg_type'' = Some (JLit ''discussion_wire_chunk'')"
  "field (wire_frame version h i n disc data) ''protocolVersion'' = Some version"
  "field (wire_frame version h i n disc data) ''messageId'' = Some (JStr (js ''wire_'' @ h))"
  "field (wire_frame version h i n disc data) ''sha256'' = Some (JStr h)"
  "field (wire_frame version h i n disc data) ''chunkIndex'' = Some (JInt (int i))"
  "field (wire_frame version h i n disc data) ''chunkCount'' = Some (JInt (int n))"
  "field (wire_frame version h i n disc data) ''discussionId'' = map_option JStr disc"
  "field (wire_frame version h i n disc data) ''data'' = Some (JStr data)"
  by (simp_all add: wire_frame_def split: option.split)

lemma frame_valid:
  assumes "version \<in> {JInt 2, JInt 3}" "hex_exact 64 h" "i < n" "n < 10000" "int n \<le> wc_maxChunks cfg"
    "case disc of None \<Rightarrow> True | Some d \<Rightarrow> bounded_string 128 d" "bounded_string 128 sender"
    "1 \<le> b" "b \<le> WIRE_FRAME_BYTE_LIMIT"
  shows "validFrame cfg sender (wire_frame version h i n disc data) b"
proof -
  have "list_all (\<lambda>(k, v). k \<in> js ` set (frame_required @ [''discussionId''])) (wire_frame version h i n disc data)"
    by (auto simp: wire_frame_def frame_required_def split: option.split)
  moreover have "list_all (own_key (wire_frame version h i n disc data)) frame_required"
    by (simp add: frame_required_def own_key_field frame_fields)
  ultimately show ?thesis using assms
    by (cases disc) (auto simp: validFrame_def frame_fields max_safe_def)
qed

subsection \<open>Chunks of a message\<close>

lemma concat_chunks: "concat (map (chunk whole) [0..<n]) = take (n * RAW_DISCUSSION_CHUNK_BYTES) whole"
proof (induction n)
  case (Suc n)
  have "Suc n * RAW_DISCUSSION_CHUNK_BYTES = n * RAW_DISCUSSION_CHUNK_BYTES + RAW_DISCUSSION_CHUNK_BYTES" by simp
  hence "take (Suc n * RAW_DISCUSSION_CHUNK_BYTES) whole
      = take (n * RAW_DISCUSSION_CHUNK_BYTES) whole @ chunk whole n"
    unfolding chunk_def by (simp only: take_add)
  with Suc show ?case by simp
qed simp

lemma chunk_count_covers: "length whole \<le> chunk_count whole * RAW_DISCUSSION_CHUNK_BYTES"
proof -
  have "length whole < (length whole div 5700 + 1) * 5700" using dividend_less_div_times [of 5700 "length whole"] by simp
  have "(length whole + 5699) div 5700 * 5700 + (length whole + 5699) mod 5700 = length whole + 5699" by simp
  moreover have "(length whole + 5699) mod 5700 \<le> 5699" using mod_less_divisor [of 5700 "length whole + 5699"] by linarith
  ultimately have "length whole \<le> (length whole + 5699) div 5700 * 5700" by linarith
  thus ?thesis by (simp add: chunk_count_def RAW_DISCUSSION_CHUNK_BYTES_def)
qed

lemma whole_chunks: "concat (map (chunk whole) [0..<chunk_count whole]) = whole"
  using concat_chunks [of whole "chunk_count whole"] chunk_count_covers [of whole] by simp

lemma chunk_nonempty: "i < chunk_count whole \<Longrightarrow> chunk whole i \<noteq> []"
proof -
  assume "i < chunk_count whole"
  hence "(i + 1) * 5700 \<le> (length whole + 5699) div 5700 * 5700"
    by (intro mult_le_mono1) (simp add: chunk_count_def RAW_DISCUSSION_CHUNK_BYTES_def)
  also have "\<dots> \<le> length whole + 5699" by (rule div_times_less_eq_dividend)
  finally have "i * 5700 < length whole" by simp
  thus ?thesis by (simp add: chunk_def RAW_DISCUSSION_CHUNK_BYTES_def)
qed

definition received :: "bytes \<Rightarrow> nat set \<Rightarrow> int" where
  "received whole G = (\<Sum>i\<in>G. int (length (chunk whole i)))"

lemma received_all: "received whole {..<chunk_count whole} = int (length whole)"
proof -
  have "int (length (concat (map (chunk whole) [0..<n]))) = received whole {..<n}" for n
    by (induction n) (simp_all add: received_def)
  from this [of "chunk_count whole"] show ?thesis by (simp add: whole_chunks)
qed

lemma received_le: "G \<subseteq> {..<chunk_count whole} \<Longrightarrow> received whole G \<le> int (length whole)"
  using sum_mono2 [of "{..<chunk_count whole}" G "\<lambda>i. int (length (chunk whole i))"] received_all
  by (simp add: received_def)

lemma received_insert: "finite G \<Longrightarrow> i \<notin> G \<Longrightarrow> received whole (insert i G) = received whole G + int (length (chunk whole i))"
  by (simp add: received_def)

subsection \<open>Receiving the frames\<close>

definition wire_ready :: "wire_config \<Rightarrow> jobj \<Rightarrow> bool" where
  "wire_ready cfg payload \<longleftrightarrow> 0 < wc_ttlMs cfg
     \<and> int (length (whole_of payload)) \<le> wc_maxMessageBytes cfg
     \<and> int (chunk_count (whole_of payload)) \<le> wc_maxChunks cfg
     \<and> 1 \<le> wc_maxInflightMessages cfg
     \<and> int (length (whole_of payload)) \<le> wc_maxInflightBytes cfg
     \<and> 1 \<le> wc_maxCompleted cfg"

definition message_key :: "(bytes \<Rightarrow> bytes) \<Rightarrow> jstr \<Rightarrow> jobj \<Rightarrow> jstr" where
  "message_key sha sender payload = wire_key sender (js ''wire_'' @ hex_text (sha (whole_of payload)))"

text \<open>The partial message that holds the chunks with indices in \<open>G\<close>.\<close>

definition holds_chunks :: "(bytes \<Rightarrow> bytes) \<Rightarrow> jobj \<Rightarrow> int \<Rightarrow> nat set \<Rightarrow> partial \<Rightarrow> bool" where
  "holds_chunks sha payload deadline G p \<longleftrightarrow> (let whole = whole_of payload in
     p_version p = payload_version payload \<and> p_sha256 p = hex_text (sha whole)
     \<and> p_chunkCount p = chunk_count whole \<and> p_discussionId p = map_option JStr (payload_discussion payload)
     \<and> deadline \<le> p_expiresAt p \<and> mwf (p_chunks p)
     \<and> (\<forall>i. mget (p_chunks p) i = (if i \<in> G then Some (chunk whole i) else None))
     \<and> msize (p_chunks p) = card G \<and> p_receivedBytes p = received whole G)"

definition receiving :: "(bytes \<Rightarrow> bytes) \<Rightarrow> jstr \<Rightarrow> jobj \<Rightarrow> int \<Rightarrow> nat set \<Rightarrow> wire_state \<Rightarrow> bool" where
  "receiving sha sender payload deadline G s \<longleftrightarrow> \<not> w_disposed s \<and> completed s = []
     \<and> storedBytes s = received (whole_of payload) G
     \<and> (if G = {} then partials s = []
        else \<exists>p. partials s = [(message_key sha sender payload, p)] \<and> holds_chunks sha payload deadline G p)"

lemma cleanup_receiving:
  assumes "receiving sha sender payload deadline G s" "now < deadline"
  shows "cleanup now s = s"
  using assms
  by (auto simp: receiving_def cleanup_def remove_where_def mdelete_where_def Let_def holds_chunks_def split: if_splits)

definition with_chunk :: "wire_config \<Rightarrow> int \<Rightarrow> nat \<Rightarrow> bytes \<Rightarrow> partial \<Rightarrow> partial" where
  "with_chunk cfg now i raw p = p\<lparr>p_chunks := mset_at (p_chunks p) i raw,
     p_receivedBytes := p_receivedBytes p + int (length raw), p_expiresAt := now + wc_ttlMs cfg\<rparr>"

definition with_partial :: "jstr \<Rightarrow> partial \<Rightarrow> bytes \<Rightarrow> wire_state \<Rightarrow> wire_state" where
  "with_partial key p raw s = s\<lparr>partials := mset_at (partials s) key p,
     storedBytes := storedBytes s + int (length raw)\<rparr>"

lemma store_chunk_new:
  assumes "mget (p_chunks p) i = None" "p_receivedBytes p + int (length raw) \<le> wc_maxMessageBytes cfg"
    "storedBytes s + int (length raw) \<le> wc_maxInflightBytes cfg"
  shows "store_chunk sha cv cfg now key p i raw s =
    (if msize (p_chunks (with_chunk cfg now i raw p)) < p_chunkCount p
     then (Incomplete, with_partial key (with_chunk cfg now i raw p) raw s)
     else case ordered_chunks (p_chunks (with_chunk cfg now i raw p)) [0..<p_chunkCount p] of
       None \<Rightarrow> (Incomplete, with_partial key (with_chunk cfg now i raw p) raw s)
     | Some whole \<Rightarrow> finish_message sha cv cfg now key (with_chunk cfg now i raw p) whole
         (wire_remove (with_partial key (with_chunk cfg now i raw p) raw s) key))"
proof -
  have "\<not> (p_receivedBytes p + int (length raw) > wc_maxMessageBytes cfg
       \<or> storedBytes s + int (length raw) > wc_maxInflightBytes cfg)" using assms(2,3) by linarith
  thus ?thesis unfolding store_chunk_def assms(1) with_chunk_def with_partial_def Let_def
    by (simp only: option.case if_False) simp
qed

lemma finish_message_ok:
  assumes "p_sha256 p = hex_text (sha (whole_of payload))" "p_version p = payload_version payload"
    "completed s = []" "wire_ready cfg payload" "sendable cv payload"
  shows "fst (finish_message sha cv cfg now key p (whole_of payload) s) = Complete payload (stringify (JObj payload))"
proof -
  have wf: "wf_json cv (JObj payload)" using assms(5) by (simp only: sendable_def)
  have dec: "utf8_decode (whole_of payload) = stringify (JObj payload)"
    unfolding whole_of_def by (rule utf8_roundtrip) (rule well_formed_stringify [OF wf])
  have enc: "utf8_encode (utf8_decode (whole_of payload)) = whole_of payload" unfolding dec by (simp only: whole_of_def)
  have par: "json_parse cv (utf8_decode (whole_of payload)) = Some (JObj payload)"
    unfolding dec by (rule parse_stringify [OF wf])
  have b: "\<not> int (length (whole_of payload)) > wc_maxMessageBytes cfg" "\<not> int (msize (completed s)) \<ge> wc_maxCompleted cfg"
    using assms(3,4) by (simp_all add: wire_ready_def)
  show ?thesis
    unfolding finish_message_def Let_def enc par
    by (simp only: b assms(1,2) dec simp_thms if_False option.case json.case fst_conv)
qed

lemma holds_with_chunk:
  assumes "holds_chunks sha payload deadline G p" "finite G" "i \<notin> G" "deadline \<le> now + wc_ttlMs cfg"
  shows "holds_chunks sha payload deadline (insert i G) (with_chunk cfg now i (chunk (whole_of payload) i) p)"
proof -
  have "mget (p_chunks p) i = None" using assms(1,3) by (simp add: holds_chunks_def Let_def)
  moreover note received_insert [OF assms(2,3), of "whole_of payload"]
  ultimately show ?thesis using assms
    by (simp add: holds_chunks_def with_chunk_def Let_def mwf_set_at mget_set_at msize_set_at)
qed

lemma all_chunks_ordered:
  assumes "holds_chunks sha payload deadline {..<chunk_count (whole_of payload)} p"
  shows "ordered_chunks (p_chunks p) [0..<chunk_count (whole_of payload)] = Some (whole_of payload)"
proof -
  have "\<forall>j < chunk_count (whole_of payload). mget (p_chunks p) j = Some (chunk (whole_of payload) j)"
    using assms by (simp add: holds_chunks_def Let_def)
  hence "set js \<subseteq> {..<chunk_count (whole_of payload)} \<Longrightarrow>
      ordered_chunks (p_chunks p) js = Some (concat (map (chunk (whole_of payload)) js))" for js
    by (induction js) auto
  from this [of "[0..<chunk_count (whole_of payload)]"] show ?thesis
    by (simp add: whole_chunks lessThan_atLeast0)
qed

definition chunk_outcome ::
  "(bytes \<Rightarrow> bytes) \<Rightarrow> jstr \<Rightarrow> jobj \<Rightarrow> int \<Rightarrow> nat set \<Rightarrow> nat \<Rightarrow> wire_result \<times> wire_state \<Rightarrow> bool" where
  "chunk_outcome sha sender payload deadline G i rs \<longleftrightarrow>
     (if insert i G = {..<chunk_count (whole_of payload)} \<and> i \<notin> G
      then fst rs = Complete payload (stringify (JObj payload))
      else fst rs = Incomplete \<and> receiving sha sender payload deadline (insert i G) (snd rs))"

lemma store_chunk_step:
  assumes p: "holds_chunks sha payload deadline G p" and G: "G \<subseteq> {..<chunk_count (whole_of payload)}"
    and s: "partials s = [(message_key sha sender payload, p)]" "\<not> w_disposed s" "completed s = []"
      "storedBytes s = received (whole_of payload) G"
    and cfg: "wire_ready cfg payload" and pl: "sendable cv payload"
    and now: "deadline \<le> now + wc_ttlMs cfg" and i: "i < chunk_count (whole_of payload)"
  shows "chunk_outcome sha sender payload deadline G i
    (store_chunk sha cv cfg now (message_key sha sender payload) p i (chunk (whole_of payload) i) s)"
proof (cases "i \<in> G")
  case True
  hence G': "insert i G = G" "G \<noteq> {}" by auto
  have "mget (p_chunks p) i = Some (chunk (whole_of payload) i)" using p True by (simp add: holds_chunks_def Let_def)
  hence st: "store_chunk sha cv cfg now (message_key sha sender payload) p i (chunk (whole_of payload) i) s = (Incomplete, s)"
    by (simp add: store_chunk_def)
  have "receiving sha sender payload deadline G s" unfolding receiving_def using p s G'(2) by simp
  thus ?thesis unfolding chunk_outcome_def st G'(1) using True by simp
next
  case False
  let ?w = "whole_of payload" and ?k = "message_key sha sender payload"
  let ?raw = "chunk ?w i"
  let ?p = "with_chunk cfg now i ?raw p" and ?s = "with_partial ?k (with_chunk cfg now i ?raw p) ?raw s"
  have fin: "finite G" using G finite_subset by blast
  have sub: "insert i G \<subseteq> {..<chunk_count ?w}" using G i by auto
  note rc = received_insert [OF fin False, of ?w]
  note small = received_le [OF sub]
  have none: "mget (p_chunks p) i = None" and rp: "p_receivedBytes p = received ?w G" "p_chunkCount p = chunk_count ?w"
    using p False by (simp_all add: holds_chunks_def Let_def)
  note hp = holds_with_chunk [OF p fin False now]
  have size: "msize (p_chunks ?p) = card (insert i G)" "p_sha256 ?p = hex_text (sha ?w)" "p_version ?p = payload_version payload"
    using hp by (simp_all add: holds_chunks_def Let_def)
  have w1: "int (length ?w) \<le> wc_maxMessageBytes cfg" "int (length ?w) \<le> wc_maxInflightBytes cfg"
    using cfg by (simp_all add: wire_ready_def)
  have st: "store_chunk sha cv cfg now ?k p i ?raw s =
      (if card (insert i G) < chunk_count ?w then (Incomplete, ?s)
       else case ordered_chunks (p_chunks ?p) [0..<chunk_count ?w] of
         None \<Rightarrow> (Incomplete, ?s)
       | Some whole \<Rightarrow> finish_message sha cv cfg now ?k ?p whole (wire_remove ?s ?k))"
    unfolding size(1) [symmetric] rp(2) [symmetric]
    by (rule store_chunk_new [OF none]) (use rp(1) s(4) rc small w1 in linarith)+
  show ?thesis
  proof (cases "insert i G = {..<chunk_count ?w}")
    case nf: False
    have "card (insert i G) < card {..<chunk_count ?w}" using sub nf by (intro psubset_card_mono) auto
    hence lt: "card (insert i G) < chunk_count ?w" by simp
    have "partials ?s = [(?k, ?p)]" using s(1) by (simp add: mset_at_def with_partial_def)
    moreover have "storedBytes ?s = received ?w (insert i G)" using s(4) rc by (simp add: with_partial_def)
    moreover have "\<not> w_disposed ?s" "completed ?s = []" using s by (simp_all add: with_partial_def)
    ultimately have "receiving sha sender payload deadline (insert i G) ?s"
      unfolding receiving_def using hp by simp
    thus ?thesis unfolding chunk_outcome_def st using lt nf by simp
  next
    case True
    have nlt: "\<not> card (insert i G) < chunk_count ?w" unfolding True by simp
    note oc = all_chunks_ordered [OF hp [unfolded True]]
    have "completed (wire_remove ?s ?k) = []"
      using s(3) by (simp add: wire_remove_def with_partial_def split: option.split)
    from finish_message_ok [where sha = sha and payload = payload, OF size(2,3) this cfg pl]
    show ?thesis unfolding chunk_outcome_def st oc if_not_P [OF nlt] option.case using True False by metis
  qed
qed

lemma frame_step:
  assumes r: "receiving sha sender payload deadline G s" and G: "G \<subset> {..<chunk_count (whole_of payload)}"
    and cfg: "wire_ready cfg payload" and pl: "sendable cv payload" and sh: "\<forall>x. length (sha x) = 32"
    and snd: "bounded_string 128 sender"
    and now: "now < deadline" "deadline \<le> now + wc_ttlMs cfg" and i: "i < chunk_count (whole_of payload)"
  shows "chunk_outcome sha sender payload deadline G i (acceptSerialized sha cv cfg now sender
      (stringify (JObj (message_frame sha payload (whole_of payload) i))) s)"
proof -
  let ?w = "whole_of payload" and ?k = "message_key sha sender payload"
  let ?fr = "message_frame sha payload ?w i"
  let ?txt = "stringify (JObj ?fr)"
  let ?h = "hex_text (sha ?w)"
  have v: "payload_version payload \<in> {JInt 2, JInt 3}" and l: "length ?w \<le> MAX_DISCUSSION_MESSAGE_BYTES"
    using pl by (simp_all add: sendable_def)
  note n = chunk_count_bounds(2) [OF l]
  have i': "i < 10000" using i n by (rule order.strict_trans)
  have size: "byte_length ?txt \<le> WIRE_FRAME_BYTE_LIMIT" using message_frame_size [OF v _ l i] sh by blast
  have wf: "wf_json cv (JObj ?fr)" unfolding message_frame_def by (rule frame_wf [OF v i' n])
  have "1 \<le> byte_length ?txt"
  proof -
    have w: "well_formed ?txt" by (rule well_formed_stringify [OF wf])
    obtain u t where "?txt = u # t" using stringify_head [OF wf] by blast
    hence "code_points ?txt \<noteq> []" by (cases t) auto
    then obtain q qs where "code_points ?txt = q # qs" by (cases "code_points ?txt") auto
    thus ?thesis by (simp add: byte_length_def utf8_encode_def encode_point_def)
  qed
  moreover have hx: "hex_exact 64 ?h" using sh by (simp add: hex_exact_hex_text)
  ultimately have vf: "validFrame cfg sender ?fr (byte_length ?txt)"
    unfolding message_frame_def
    using frame_valid [OF v hx i n _ discussion_length snd] size cfg
    by (simp add: wire_ready_def message_frame_def)
  have raw: "canonicalBase64 (the (str_of (field ?fr ''data''))) = Some (chunk ?w i)"
    using canonicalBase64_base64 [OF chunk_nonempty [OF i]] by (simp add: message_frame_def frame_fields)
  have len: "\<not> (length (chunk ?w i) < 1 \<or> length (chunk ?w i) > RAW_DISCUSSION_CHUNK_BYTES)"
    using chunk_nonempty [OF i] length_chunk [of ?w i] by (auto simp: not_less)
  have nums: "nat (the (safe_int (field ?fr ''chunkCount''))) = chunk_count ?w"
    "nat (the (safe_int (field ?fr ''chunkIndex''))) = i"
    using n i' by (simp_all add: message_frame_def frame_fields max_safe_def)
  have fl: "the (str_of (field ?fr ''sha256'')) = ?h" "the (field ?fr ''protocolVersion'') = payload_version payload"
    "field ?fr ''discussionId'' = map_option JStr (payload_discussion payload)"
    by (simp_all add: message_frame_def frame_fields)
  have "is_wire_frame (JObj ?fr) = Some ?fr" by (simp add: is_wire_frame_def message_frame_def frame_fields)
  moreover have "\<not> w_disposed s" using r unfolding receiving_def by blast
  ultimately have acc: "acceptSerialized sha cv cfg now sender ?txt s = acceptFrame sha cv cfg now sender ?fr (byte_length ?txt) s"
    unfolding acceptSerialized_def parse_stringify [OF wf] option.case using size by simp
  have cl: "cleanup now s = s" by (rule cleanup_receiving [OF r now(1)])
  have comp: "completed s = []" using r unfolding receiving_def by blast
  have go: "acceptFrame sha cv cfg now sender ?fr (byte_length ?txt) s =
      (case mget (partials s) ?k of
         None \<Rightarrow>
           if int (msize (partials s)) \<ge> wc_maxInflightMessages cfg
              \<or> storedBytes s + int (length (chunk ?w i)) > wc_maxInflightBytes cfg
           then (Invalid, s)
           else let p = \<lparr>p_version = payload_version payload, p_senderId = sender, p_sha256 = ?h,
                  p_chunkCount = chunk_count ?w, p_discussionId = map_option JStr (payload_discussion payload),
                  p_expiresAt = now + wc_ttlMs cfg, p_chunks = [], p_receivedBytes = 0\<rparr>
                in store_chunk sha cv cfg now ?k p i (chunk ?w i) (s\<lparr>partials := mset_at (partials s) ?k p\<rparr>)
       | Some p \<Rightarrow>
           if \<not> same_message p ?h (payload_version payload) (chunk_count ?w) (map_option JStr (payload_discussion payload))
           then (Invalid, wire_remove s ?k)
           else store_chunk sha cv cfg now ?k p i (chunk ?w i) s)"
    unfolding acceptFrame_def Let_def cl raw option.case nums fl comp message_key_def [symmetric] mget_Nil
    using vf len by (simp only: simp_thms if_False)
  show ?thesis
  proof (cases "G = {}")
    case True
    let ?p = "\<lparr>p_version = payload_version payload, p_senderId = sender, p_sha256 = ?h, p_chunkCount = chunk_count ?w,
      p_discussionId = map_option JStr (payload_discussion payload), p_expiresAt = now + wc_ttlMs cfg,
      p_chunks = [], p_receivedBytes = 0\<rparr>"
    let ?s = "s\<lparr>partials := mset_at (partials s) ?k ?p\<rparr>"
    have ps: "partials s = []" "storedBytes s = 0" using r True by (simp_all add: receiving_def received_def)
    have "received ?w {i} \<le> int (length ?w)" using i by (intro received_le) simp
    hence fits: "\<not> (int (msize (partials s)) \<ge> wc_maxInflightMessages cfg
        \<or> storedBytes s + int (length (chunk ?w i)) > wc_maxInflightBytes cfg)"
      using ps cfg by (simp add: wire_ready_def received_def)
    have eq: "acceptFrame sha cv cfg now sender ?fr (byte_length ?txt) s = store_chunk sha cv cfg now ?k ?p i (chunk ?w i) ?s"
      unfolding go using fits ps(1) by (simp only: mget_Nil option.case if_False Let_def)
    have hp: "holds_chunks sha payload deadline G ?p" using True now by (simp add: holds_chunks_def received_def)
    show ?thesis unfolding acc eq
    proof (rule store_chunk_step [OF hp _ _ _ _ _ cfg pl now(2) i])
      show "partials ?s = [(?k, ?p)]" using ps(1) by (simp add: mset_at_def)
      show "storedBytes ?s = received ?w G" using ps(2) True by (simp add: received_def)
    qed (use r G in \<open>auto simp: receiving_def\<close>)
  next
    case False
    then obtain p where p: "partials s = [(?k, p)]" "holds_chunks sha payload deadline G p"
      using r by (auto simp: receiving_def)
    have "same_message p ?h (payload_version payload) (chunk_count ?w) (map_option JStr (payload_discussion payload))"
      using p(2) by (simp add: same_message_def holds_chunks_def Let_def)
    moreover have "mget (partials s) ?k = Some p" using p(1) by (simp add: mget_def)
    ultimately have eq: "acceptFrame sha cv cfg now sender ?fr (byte_length ?txt) s = store_chunk sha cv cfg now ?k p i (chunk ?w i) s"
      unfolding go by (simp only: option.case simp_thms if_False)
    show ?thesis unfolding acc eq
      by (rule store_chunk_step [OF p(2) _ p(1) _ _ _ cfg pl now(2) i]) (use r G in \<open>auto simp: receiving_def\<close>)
  qed
qed

fun wire_feed ::
  "(bytes \<Rightarrow> bytes) \<Rightarrow> (jstr \<Rightarrow> jnum) \<Rightarrow> wire_config \<Rightarrow> jstr \<Rightarrow> wire_state \<Rightarrow> (int \<times> jstr) list
    \<Rightarrow> wire_result list \<times> wire_state" where
  "wire_feed sha cv cfg sender s [] = ([], s)"
| "wire_feed sha cv cfg sender s ((now, text) # r) =
     (let (out, s1) = acceptSerialized sha cv cfg now sender text s;
          (outs, s2) = wire_feed sha cv cfg sender s1 r
      in (out # outs, s2))"

lemma wire_feed_append:
  "wire_feed sha cv cfg sender s (xs @ ys) =
     (let (o1, s1) = wire_feed sha cv cfg sender s xs; (o2, s2) = wire_feed sha cv cfg sender s1 ys in (o1 @ o2, s2))"
  by (induction xs arbitrary: s) (auto split: prod.splits)

definition frame_text :: "(bytes \<Rightarrow> bytes) \<Rightarrow> jobj \<Rightarrow> nat \<Rightarrow> jstr" where
  "frame_text sha payload i = stringify (JObj (message_frame sha payload (whole_of payload) i))"

lemma feed_incomplete:
  assumes "receiving sha sender payload deadline G s" "wire_ready cfg payload" "sendable cv payload"
    "\<forall>x. length (sha x) = 32" "bounded_string 128 sender"
    "\<forall>(now, i) \<in> set xs. now < deadline \<and> deadline \<le> now + wc_ttlMs cfg \<and> i < chunk_count (whole_of payload)"
    "G \<union> snd ` set xs \<subset> {..<chunk_count (whole_of payload)}"
  shows "\<exists>s'. wire_feed sha cv cfg sender s (map (\<lambda>(now, i). (now, frame_text sha payload i)) xs)
      = (replicate (length xs) Incomplete, s') \<and> receiving sha sender payload deadline (G \<union> snd ` set xs) s'"
  using assms(1,6,7)
proof (induction xs arbitrary: s G)
  case (Cons x xs)
  obtain now i where x: "x = (now, i)" by force
  let ?out = "acceptSerialized sha cv cfg now sender (frame_text sha payload i) s"
  have sub: "G \<subset> {..<chunk_count (whole_of payload)}" "insert i G \<noteq> {..<chunk_count (whole_of payload)}"
    using Cons.prems(3) x by auto
  have "chunk_outcome sha sender payload deadline G i ?out"
    unfolding frame_text_def
    by (rule frame_step [OF Cons.prems(1) sub(1) assms(2-5)]) (use Cons.prems(2) x in auto)
  hence o: "fst ?out = Incomplete" "receiving sha sender payload deadline (insert i G) (snd ?out)"
    using sub(2) by (simp_all add: chunk_outcome_def)
  from Cons.IH [OF o(2)] Cons.prems(2,3) x
  obtain s' where s': "wire_feed sha cv cfg sender (snd ?out) (map (\<lambda>(now, i). (now, frame_text sha payload i)) xs)
      = (replicate (length xs) Incomplete, s')" "receiving sha sender payload deadline (insert i G \<union> snd ` set xs) s'"
    by auto
  have "wire_feed sha cv cfg sender s (map (\<lambda>(now, i). (now, frame_text sha payload i)) (x # xs))
      = (replicate (length (x # xs)) Incomplete, s')"
    using o(1) s'(1) x by (simp add: case_prod_unfold)
  thus ?case using s'(2) x by auto
qed simp

lemma receiving_start: "receiving sha sender payload deadline {} wire_start"
  by (simp add: receiving_def wire_start_def received_def)

end
