(* ===== verification/WireTheorems.thy ===== *)
theory WireTheorems imports WireRoundtrip begin

text \<open>
  The properties of the discussion wire, each with a run at concrete inputs.
\<close>

text \<open>Every message of at most 8 MiB can be sent: the encoder returns frames, and each of them fits
  the provider's limit of 9000 bytes.\<close>

theorem wire_frames_fit:
  assumes "wf_json cv (JObj payload)" "payload_version payload \<in> {JInt 2, JInt 3}"
    "byte_length (stringify (JObj payload)) \<le> MAX_DISCUSSION_MESSAGE_BYTES" "\<forall>x. length (sha x) = 32"
  shows "\<exists>frames. encodeDiscussionWire sha payload = Inr frames \<and> frames \<noteq> []
    \<and> (\<forall>f \<in> set frames. byte_length f \<le> WIRE_FRAME_BYTE_LIMIT)"
proof -
  have s: "sendable cv payload" using assms(1-3) by (simp add: sendable_def whole_of_def byte_length_def)
  show ?thesis
  proof (cases "WIRE_FRAME_BYTE_LIMIT < length (whole_of payload)")
    case False
    thus ?thesis
      by (simp add: encodeDiscussionWire_def whole_of_def byte_length_def Let_def del: stringify.simps)
  next
    case True
    have l: "length (whole_of payload) \<le> MAX_DISCUSSION_MESSAGE_BYTES" using s by (simp add: sendable_def)
    have "chunk_count (whole_of payload) \<noteq> 0"
      using chunk_count_covers [of "whole_of payload"] True by (cases "chunk_count (whole_of payload)") auto
    moreover have "\<forall>i < chunk_count (whole_of payload).
        byte_length (stringify (JObj (message_frame sha payload (whole_of payload) i))) \<le> WIRE_FRAME_BYTE_LIMIT"
      using message_frame_size [OF assms(2) _ l] assms(4) by blast
    ultimately show ?thesis using encode_frames [OF s assms(4) True]
      by (intro exI [of _ "map (\<lambda>i. stringify (JObj (message_frame sha payload (whole_of payload) i)))
          [0..<chunk_count (whole_of payload)]"]) (simp del: stringify.simps)
  qed
qed

text \<open>C5 A message that was cut into frames arrives: whatever the order of its frames, with repetitions
  and any clock readings within the time to live, the reassembler answers \<open>incomplete\<close> until the last
  missing frame and then returns exactly the payload and the text that were sent.\<close>

theorem wire_roundtrip:
  assumes "encodeDiscussionWire sha payload = Inr frames" "WIRE_FRAME_BYTE_LIMIT < byte_length (stringify (JObj payload))"
    "sendable cv payload" "\<forall>x. length (sha x) = 32" "bounded_string 128 sender" "wire_ready cfg payload"
    "\<forall>(now, i) \<in> set (arrivals @ [(t, l)]). t0 \<le> now \<and> now < t0 + wc_ttlMs cfg"
    "snd ` set arrivals = {..<length frames} - {l}" "l < length frames"
  shows "fst (wire_feed sha cv cfg sender wire_start (map (\<lambda>(now, i). (now, frames ! i)) (arrivals @ [(t, l)])))
    = replicate (length arrivals) Incomplete @ [Complete payload (stringify (JObj payload))]"
proof -
  let ?n = "chunk_count (whole_of payload)"
  have big: "WIRE_FRAME_BYTE_LIMIT < length (whole_of payload)" using assms(2) by (simp add: whole_of_def byte_length_def)
  have "frame_text sha payload = (\<lambda>i. stringify (JObj (message_frame sha payload (whole_of payload) i)))"
    by (rule ext) (rule frame_text_def)
  hence fr: "frames = map (frame_text sha payload) [0..<?n]"
    using encode_frames [OF assms(3,4) big] assms(1) by (simp only: sum.inject)
  have n: "length frames = ?n" unfolding fr by simp
  have times: "t0 \<le> now \<and> now < t0 + wc_ttlMs cfg" if "(now, i) \<in> set arrivals \<or> (now, i) = (t, l)" for now i
    using assms(7) that by auto
  have idx: "i < ?n" if "(now, i) \<in> set arrivals" for now i
  proof -
    have "snd (now, i) \<in> snd ` set arrivals" using that by (rule imageI)
    hence "i \<in> {..<length frames} - {l}" unfolding assms(8) by (simp only: snd_conv)
    thus ?thesis unfolding n by (simp only: Diff_iff lessThan_iff)
  qed
  have "frames ! i = frame_text sha payload i" if "i < ?n" for i using that unfolding fr by simp
  hence m: "map (\<lambda>(now, i). (now, frames ! i)) arrivals = map (\<lambda>(now, i). (now, frame_text sha payload i)) arrivals"
    using idx by (intro map_cong refl) (auto simp only: split_paired_all prod.case)
  have sub: "{} \<union> snd ` set arrivals \<subset> {..<?n}" using assms(8,9) n by auto
  have tm: "\<forall>(now, i) \<in> set arrivals. now < t0 + wc_ttlMs cfg \<and> t0 + wc_ttlMs cfg \<le> now + wc_ttlMs cfg \<and> i < ?n"
  proof (intro ballI, unfold split_paired_all, unfold prod.case)
    fix now i assume a: "(now, i) \<in> set arrivals"
    have "t0 \<le> now \<and> now < t0 + wc_ttlMs cfg" by (rule times) (rule disjI1 [OF a])
    moreover have "i < ?n" by (rule idx [OF a])
    ultimately show "now < t0 + wc_ttlMs cfg \<and> t0 + wc_ttlMs cfg \<le> now + wc_ttlMs cfg \<and> i < ?n"
      by (intro conjI) linarith+
  qed
  obtain s' where s': "wire_feed sha cv cfg sender wire_start (map (\<lambda>(now, i). (now, frames ! i)) arrivals)
      = (replicate (length arrivals) Incomplete, s')"
      "receiving sha sender payload (t0 + wc_ttlMs cfg) ({} \<union> snd ` set arrivals) s'"
    unfolding m by (rule exE [OF feed_incomplete [OF receiving_start assms(6,3,4,5) tm sub]], erule conjE)
  let ?G = "snd ` set arrivals"
  have "chunk_outcome sha sender payload (t0 + wc_ttlMs cfg) ?G l (acceptSerialized sha cv cfg t sender (frame_text sha payload l) s')"
    unfolding frame_text_def
  proof (rule frame_step [OF _ _ assms(6,3,4,5)])
    show "receiving sha sender payload (t0 + wc_ttlMs cfg) ?G s'" using s'(2) by simp
    show "?G \<subset> {..<?n}" using assms(8,9) n by auto
    show "t < t0 + wc_ttlMs cfg" "t0 + wc_ttlMs cfg \<le> t + wc_ttlMs cfg" using times [of t l] by simp_all
    show "l < ?n" using assms(9) n by simp
  qed
  moreover have "insert l ?G = {..<?n} \<and> l \<notin> ?G" using assms(8,9) n by auto
  ultimately have "fst (acceptSerialized sha cv cfg t sender (frame_text sha payload l) s') = Complete payload (stringify (JObj payload))"
    by (simp only: chunk_outcome_def simp_thms if_True)
  moreover have "frames ! l = frame_text sha payload l" using assms(9) n unfolding fr by simp
  ultimately have "fst (wire_feed sha cv cfg sender s' [(t, frames ! l)]) = [Complete payload (stringify (JObj payload))]"
    by (simp only: wire_feed.simps case_prod_unfold Let_def fst_conv)
  thus ?thesis
    unfolding map_append list.map prod.case wire_feed_append s'(1) Let_def
    by (simp only: case_prod_unfold fst_conv snd_conv)
qed

text \<open>C6 The reassembler stays within its limits whatever frames arrive: the number of partial and of
  remembered messages, and the bytes held, which are exactly the bytes counted.\<close>

theorem wire_memory_bounded:
  assumes "s = run_steps (wire_step sha cv cfg) wire_start events"
  shows "int (msize (partials s)) \<le> max 0 (wc_maxInflightMessages cfg)
    \<and> int (msize (completed s)) \<le> max 0 (wc_maxCompleted cfg)
    \<and> storedBytes s = msum p_receivedBytes (partials s)
    \<and> (\<forall>k p. mget (partials s) k = Some p \<longrightarrow> p_receivedBytes p = msum (\<lambda>c. int (length c)) (p_chunks p))
    \<and> storedBytes s \<le> max 0 (wc_maxInflightBytes cfg)"
  using wr.run_inv [of cfg sha cv events] assms by (auto simp: wire_inv_def partial_ok_def)

text \<open>Disposal is final: nothing is stored any more and every frame is refused.\<close>

theorem wire_disposal_is_final:
  assumes "wire_inv cfg s" "s' = run_steps (wire_step sha cv cfg) (wire_dispose s) events" "\<not> w_disposed s"
  shows "partials s' = [] \<and> completed s' = [] \<and> storedBytes s' = 0
    \<and> (is_wire_frame v \<noteq> None \<longrightarrow> fst (wire_accept sha cv cfg now sender v s') = Invalid)"
proof -
  have "wire_closed (wire_dispose s)" using assms(3) by (simp add: wire_closed_def wire_dispose_def clearPartials_def)
  hence "wire_closed s'" using wr.run_latch [OF wire_dispose_inv [OF assms(1)]] assms(2) by blast
  thus ?thesis by (auto simp: wire_closed_def wire_accept_def split: option.split)
qed

definition wire_config_sample :: wire_config where
  "wire_config_sample = \<lparr>wc_ttlMs = DEFAULT_WIRE_TTL_MS, wc_maxMessageBytes = int MAX_DISCUSSION_MESSAGE_BYTES,
     wc_maxChunks = int MAX_DISCUSSION_CHUNKS, wc_maxInflightMessages = int MAX_INFLIGHT_MESSAGES,
     wc_maxInflightBytes = int MAX_INFLIGHT_BYTES, wc_maxCompleted = int MAX_COMPLETED\<rparr>"

definition sha_demo :: "bytes \<Rightarrow> bytes" where
  "sha_demo bs = take 32 (bs @ replicate 32 0)"

definition payload_sample :: jobj where
  "payload_sample = [(js ''content'', JStr (replicate 9000 97))]"

lemma payload_sample_text: "stringify (JObj payload_sample) = js (''{'' @ [CHR 0x22] @ ''content'' @ [CHR 0x22] @ '':'' @ [CHR 0x22])
    @ replicate 9000 97 @ [34, 125]"
proof -
  have "quote_units (replicate 9000 97) = replicate 9000 97" by (rule quote_units_unescaped) (simp add: unescaped_def)
  hence "quote (replicate 9000 97) = 34 # replicate 9000 97 @ [34]" unfolding quote_def by (simp only:)
  moreover have "quote (js ''content'') = js ([CHR 0x22] @ ''content'' @ [CHR 0x22])"
    by (simp add: quote_js quotable_def del: js_eq_iff)
  moreover have "stringify (JObj payload_sample) = 123 # quote (js ''content'') @ 58 # quote (replicate 9000 97) @ [125]"
    by (simp add: payload_sample_def)
  ultimately show ?thesis by (simp add: js_def cu_def)
qed

lemma payload_sample_bytes: "byte_length (stringify (JObj payload_sample)) = 9014"
  unfolding payload_sample_text
  using well_formed_ascii [of "js (''{'' @ [CHR 0x22] @ ''content'' @ [CHR 0x22] @ '':'' @ [CHR 0x22]) @ replicate 9000 97 @ [34, 125]"]
  by (simp add: js_def)

lemma payload_sample_wf: "wf_json cv (JObj payload_sample)" "payload_version payload_sample = JInt 2"
proof -
  have "build_obj payload_sample = payload_sample"
    by (rule build_obj_plain) (simp_all add: payload_sample_def not_index_js)
  thus "wf_json cv (JObj payload_sample)" by (simp add: payload_sample_def)
  show "payload_version payload_sample = JInt 2" by (simp add: payload_version_def payload_sample_def)
qed

lemma payload_sample_sendable: "sendable cv payload_sample" "wire_ready wire_config_sample payload_sample"
  "chunk_count (whole_of payload_sample) = 2"
proof -
  have l: "length (whole_of payload_sample) = 9014" using payload_sample_bytes by (simp add: whole_of_def byte_length_def)
  show c: "chunk_count (whole_of payload_sample) = 2" using l by (simp add: chunk_count_def RAW_DISCUSSION_CHUNK_BYTES_def)
  show "sendable cv payload_sample"
    unfolding sendable_def using payload_sample_wf l by (simp add: MAX_DISCUSSION_MESSAGE_BYTES_def del: wf_json.simps)
  show "wire_ready wire_config_sample payload_sample"
    using l c by (simp add: wire_ready_def wire_config_sample_def DEFAULT_WIRE_TTL_MS_def MAX_DISCUSSION_MESSAGE_BYTES_def
        MAX_DISCUSSION_CHUNKS_def MAX_INFLIGHT_MESSAGES_def MAX_INFLIGHT_BYTES_def MAX_COMPLETED_def)
qed

lemma length_sha_demo [simp]: "length (sha_demo x) = 32"
  by (simp add: sha_demo_def)

lemma wire_frames_fit_witness:
  "\<exists>frames. encodeDiscussionWire sha_demo payload_sample = Inr frames \<and> frames \<noteq> []
    \<and> (\<forall>f \<in> set frames. byte_length f \<le> WIRE_FRAME_BYTE_LIMIT)"
  by (rule wire_frames_fit [of "\<lambda>_. NInt 0"])
     (use payload_sample_wf payload_sample_bytes in \<open>simp_all add: MAX_DISCUSSION_MESSAGE_BYTES_def del: wf_json.simps stringify.simps\<close>)

lemma wire_roundtrip_witness:
  "\<exists>frames. encodeDiscussionWire sha_demo payload_sample = Inr frames \<and>
     fst (wire_feed sha_demo (\<lambda>_. NInt 0) wire_config_sample (js ''u1'') wire_start
       (map (\<lambda>(now, i). (now, frames ! i)) ([(1000, 1)] @ [(1001, 0)])))
     = replicate 1 Incomplete @ [Complete payload_sample (stringify (JObj payload_sample))]"
proof -
  have big: "WIRE_FRAME_BYTE_LIMIT < byte_length (stringify (JObj payload_sample))"
    unfolding payload_sample_bytes by (simp add: WIRE_FRAME_BYTE_LIMIT_def)
  hence "WIRE_FRAME_BYTE_LIMIT < length (whole_of payload_sample)" by (simp add: whole_of_def byte_length_def)
  from encode_frames [OF payload_sample_sendable(1) _ this]
  obtain frames where f: "encodeDiscussionWire sha_demo payload_sample = Inr frames" "length frames = 2"
    using payload_sample_sendable(3) by fastforce
  have "fst (wire_feed sha_demo (\<lambda>_. NInt 0) wire_config_sample (js ''u1'') wire_start
       (map (\<lambda>(now, i). (now, frames ! i)) ([(1000, 1)] @ [(1001, 0)])))
     = replicate (length [(1000 :: int, 1 :: nat)]) Incomplete @ [Complete payload_sample (stringify (JObj payload_sample))]"
  proof (rule wire_roundtrip [OF f(1) big payload_sample_sendable(1) _ _ payload_sample_sendable(2)])
    show "bounded_string 128 (js ''u1'')"
      using identifier_plain [of "''u1''" 128] by (simp add: bounded_string_def identifier_ok_def plain_char_def)
  qed (use f(2) in \<open>auto simp: wire_config_sample_def DEFAULT_WIRE_TTL_MS_def\<close>)
  with f(1) show ?thesis by auto
qed

lemma wire_memory_bounded_witness:
  "storedBytes (run_steps (wire_step sha_demo (\<lambda>_. NInt 0) wire_config_sample) wire_start [WDispose]) \<le> 16777216"
  using wire_memory_bounded [OF refl, where cfg = wire_config_sample and sha = sha_demo and cv = "\<lambda>_. NInt 0" and events = "[WDispose]"]
  by (simp add: wire_config_sample_def MAX_INFLIGHT_BYTES_def)

lemma wire_disposal_is_final_witness:
  "partials (run_steps (wire_step sha_demo (\<lambda>_. NInt 0) wire_config_sample) (wire_dispose wire_start)
     [WSerialized 5 (js ''u1'') (js ''x'')]) = []"
  using wire_disposal_is_final [OF wire_start_inv refl, where cfg = wire_config_sample and sha = sha_demo
      and cv = "\<lambda>_. NInt 0" and events = "[WSerialized 5 (js ''u1'') (js ''x'')]"] by (simp add: wire_start_def)

end
