(* ===== verification/Checks.thy ===== *)
theory Checks imports DiscussionWire Ascii begin

text \<open>
  The checks on JSON values the discussion protocols share (\<open>protocol/discussion-v2.ts\<close>): a property
  that is read is a \<open>json option\<close>, with \<open>None\<close> for \<open>undefined\<close>.
\<close>

subsection \<open>Reading properties\<close>

text \<open>\<open>Object.keys\<close> within the listed keys, the required ones present.\<close>

definition exactKeys :: "jobj \<Rightarrow> string list \<Rightarrow> string list \<Rightarrow> bool" where
  "exactKeys ob required opt \<longleftrightarrow> list_all (own_key ob) required
     \<and> list_all (\<lambda>(k, v). k \<in> js ` set (required @ opt)) ob"

fun bounded :: "json option \<Rightarrow> nat \<Rightarrow> bool \<Rightarrow> bool" where
  "bounded (Some (JStr s)) mx allowEmpty = (length s \<le> mx \<and> (allowEmpty \<or> 0 < length s))"
| "bounded _ mx allowEmpty = False"

fun integer_from :: "json option \<Rightarrow> int \<Rightarrow> bool" where
  "integer_from (Some (JNum (NInt i))) mn = (\<bar>i\<bar> \<le> max_safe \<and> mn \<le> i)"
| "integer_from _ mn = False"

definition is_lit :: "json option \<Rightarrow> string \<Rightarrow> bool" where
  "is_lit v s \<longleftrightarrow> v = Some (JLit s)"

definition str_test :: "(jstr \<Rightarrow> bool) \<Rightarrow> json option \<Rightarrow> bool" where
  "str_test P v = (case v of Some (JStr s) \<Rightarrow> P s | _ \<Rightarrow> False)"

text \<open>\<open>record(value)\<close> with a condition on the object, \<open>Array.isArray(value)\<close> with one on the items.\<close>

definition obj_test :: "(jobj \<Rightarrow> bool) \<Rightarrow> json option \<Rightarrow> bool" where
  "obj_test P v = (case v of Some (JObj ob) \<Rightarrow> P ob | _ \<Rightarrow> False)"

definition arr_test :: "(json list \<Rightarrow> bool) \<Rightarrow> json option \<Rightarrow> bool" where
  "arr_test P v = (case v of Some (JArr xs) \<Rightarrow> P xs | _ \<Rightarrow> False)"

text \<open>A check of a property that may be absent.\<close>

definition absent_or :: "(json option \<Rightarrow> bool) \<Rightarrow> json option \<Rightarrow> bool" where
  "absent_or P v \<longleftrightarrow> v = None \<or> P v"

text \<open>Reading typed properties, where the type of the object promises them.\<close>

definition str_field :: "jobj \<Rightarrow> string \<Rightarrow> jstr" where
  "str_field ob k = (case field ob k of Some (JStr s) \<Rightarrow> s | _ \<Rightarrow> [])"

definition int_field :: "jobj \<Rightarrow> string \<Rightarrow> int" where
  "int_field ob k = (case field ob k of Some (JNum (NInt i)) \<Rightarrow> i | _ \<Rightarrow> 0)"

definition arr_field :: "jobj \<Rightarrow> string \<Rightarrow> json list" where
  "arr_field ob k = (case field ob k of Some (JArr xs) \<Rightarrow> xs | _ \<Rightarrow> [])"

definition obj_field :: "jobj \<Rightarrow> string \<Rightarrow> jobj" where
  "obj_field ob k = (case field ob k of Some (JObj xs) \<Rightarrow> xs | _ \<Rightarrow> [])"

text \<open>Copying a property under a name; an undefined one is not printed.\<close>

definition copied :: "string \<Rightarrow> json option \<Rightarrow> jobj" where
  "copied k v = (case v of None \<Rightarrow> [] | Some w \<Rightarrow> [(js k, w)])"

lemma str_test_simps [simp]: "str_test P (Some (JStr s)) = P s" "str_test P None = False"
  by (simp_all add: str_test_def)

lemma obj_test_simps [simp]: "obj_test P (Some (JObj ob)) = P ob" "obj_test P None = False"
  by (simp_all add: obj_test_def)

lemma arr_test_simps [simp]: "arr_test P (Some (JArr xs)) = P xs" "arr_test P None = False"
  by (simp_all add: arr_test_def)

lemma bounded_cases: "bounded v mx e \<longleftrightarrow> (\<exists>s. v = Some (JStr s) \<and> length s \<le> mx \<and> (e \<or> s \<noteq> []))"
  by (cases "(v, mx, e)" rule: bounded.cases) auto

lemma integer_cases: "integer_from v mn \<longleftrightarrow> (\<exists>i. v = Some (JInt i) \<and> \<bar>i\<bar> \<le> max_safe \<and> mn \<le> i)"
  by (cases "(v, mn)" rule: integer_from.cases) auto

lemma str_test_iff: "str_test P v \<longleftrightarrow> (\<exists>s. v = Some (JStr s) \<and> P s)"
  by (auto simp: str_test_def split: option.splits json.splits)

lemma obj_test_iff: "obj_test P v \<longleftrightarrow> (\<exists>ob. v = Some (JObj ob) \<and> P ob)"
  by (auto simp: obj_test_def split: option.splits json.splits)

lemma arr_test_iff: "arr_test P v \<longleftrightarrow> (\<exists>xs. v = Some (JArr xs) \<and> P xs)"
  by (auto simp: arr_test_def split: option.splits json.splits)

lemma boundedId_cases: "boundedId v \<longleftrightarrow> (\<exists>s. v = Some (JStr s) \<and> bounded_string 128 s)"
  by (cases v rule: boundedId.cases) auto



text \<open>\<open>{...a, ...b}\<close>\<close>

definition spread :: "jobj \<Rightarrow> jobj \<Rightarrow> jobj" where
  "spread a b = fold (\<lambda>(k, v) ob. obj_set ob k v) b a"

lemma map_of_obj_set: "map_of (obj_set ob a v) b = (if b = a then Some v else map_of ob b)"
proof -
  have upd: "map_of (map (\<lambda>(x, w). if x = a then (x, v) else (x, w)) m) b
      = (if b = a then map_option (\<lambda>_. v) (map_of m a) else map_of m b)" for m :: jobj and b
    by (induction m) auto
  have ins: "map_of (insert_index a v m) b = (if b = a then Some v else map_of m b)" if "map_of m a = None" for m b
    using that by (induction a v m rule: insert_index.induct) (auto split: if_splits)
  show ?thesis
    by (auto simp: obj_set_def upd ins map_add_def split: option.split)
qed

lemma map_of_spread:
  "distinct (map fst b) \<Longrightarrow> map_of (spread ob b) x = (case map_of b x of None \<Rightarrow> map_of ob x | Some v \<Rightarrow> Some v)"
proof (induction b arbitrary: ob)
  case (Cons p b)
  obtain k v where p: "p = (k, v)" by force
  have "map_of b k = None" using Cons.prems p by (simp add: map_of_eq_None_iff)
  moreover have "spread ob (p # b) = spread (obj_set ob k v) b" by (simp add: spread_def p)
  ultimately show ?case using Cons.IH [of "obj_set ob k v"] Cons.prems p
    by (simp add: map_of_obj_set split: option.split)
qed (simp add: spread_def)

lemma field_spread:
  "distinct (map fst b) \<Longrightarrow> field (spread ob b) k = (case field b k of None \<Rightarrow> field ob k | Some v \<Rightarrow> Some v)"
  by (simp add: field_def map_of_spread split: option.split)

text \<open>Concrete runs: identifiers and keys of plain text.\<close>

lemma bounded_plain: "s \<noteq> [] \<Longrightarrow> length s \<le> n \<Longrightarrow> list_all plain_char s \<Longrightarrow> bounded_string n (js s)"
  using identifier_plain [of s n] by (simp add: bounded_string_def identifier_ok_def)

lemmas check_eval = bounded_plain plain_char_def exactKeys_def own_key_field is_lit_def absent_or_def
  str_field_def int_field_def arr_field_def obj_field_def max_safe_def

subsection \<open>The checks of the second protocol\<close>

definition jsonWithin :: "json \<Rightarrow> nat \<Rightarrow> bool" where
  "jsonWithin v maxBytes \<longleftrightarrow> byte_length (stringify v) \<le> maxBytes"

text \<open>\<open>provider/model\<close>, without white space.\<close>

definition route_ok :: "jstr \<Rightarrow> bool" where
  "route_ok s \<longleftrightarrow> s \<noteq> [] \<and> length s \<le> 256 \<and> trim s = s \<and> \<not> list_ex is_ws s
     \<and> length (split_on 47 s) = 2 \<and> [] \<notin> set (split_on 47 s)"

definition modelRoute :: "json option \<Rightarrow> bool" where
  "modelRoute v = str_test route_ok v"

definition boundedArray :: "json option \<Rightarrow> nat \<Rightarrow> bool" where
  "boundedArray v maxItems = arr_test (\<lambda>xs. length xs \<le> maxItems \<and> jsonWithin (JArr xs) 100000) v"

definition validNativeModel :: "json option \<Rightarrow> bool" where
  "validNativeModel v = str_test (\<lambda>s. s \<noteq> [] \<and> length s \<le> 256 \<and> trim s = s \<and> 47 \<notin> set s \<and> \<not> has_control s) v"

end
