(* ===== verification/DiscussionV2.thy ===== *)
theory DiscussionV2 imports Checks begin

text \<open>
  The second discussion protocol (\<open>protocol/discussion-v2.ts\<close>): the validators of its commands, the
  decisions of a host, role recommendations, the model catalogue and the messages a node sends.
  A parser of the source returns its argument unchanged under a type; here it returns the object.
\<close>

datatype host_action = AAssign | ASynthesize | AFinish | AFail | ACheckpoint

fun action_text :: "host_action \<Rightarrow> string" where
  "action_text AAssign = ''assign''"
| "action_text ASynthesize = ''synthesize''"
| "action_text AFinish = ''finish''"
| "action_text AFail = ''fail''"
| "action_text ACheckpoint = ''checkpoint''"

definition host_actions :: "string list" where
  "host_actions = [''assign'', ''synthesize'', ''finish'', ''fail'', ''checkpoint'']"

datatype v2_command = CHostTurn jobj | CAssignment jobj | CCancel jobj | CArtifactAck jobj

datatype v2_error =
    DecisionNotJson | DecisionDisallowed | InvalidCheckpoint | InvalidAssignment | TargetOutside
  | InvalidSynthesis | InvalidFinish | InvalidBaseVersion | InvalidFailure | UnknownDecision
  | InvalidCatalogInput | InvalidEnvelope | InvalidSequence | InvalidContribution
  | FinishNeedsReference | UnexpectedReference | InvalidArtifactUpdate | ArtifactFrameTooLarge
  | InvalidErrorCategory

subsection \<open>Commands\<close>

definition commandBaseKeys :: "string list" where
  "commandBaseKeys = [''msg_type'', ''protocolVersion'', ''discussionId'', ''chatroomId'', ''requestId'',
     ''stateVersion'', ''round'', ''timestamp'']"

definition baseValid :: "jobj \<Rightarrow> string \<Rightarrow> bool" where
  "baseValid value kind \<longleftrightarrow> is_lit (field value ''msg_type'') kind
     \<and> field value ''protocolVersion'' = Some (JInt 2)
     \<and> boundedId (field value ''discussionId'') \<and> boundedId (field value ''chatroomId'')
     \<and> boundedId (field value ''requestId'')
     \<and> integer_from (field value ''stateVersion'') 1 \<and> integer_from (field value ''round'') 0
     \<and> integer_from (field value ''timestamp'') 1"

definition artifact_type_ok :: "json option \<Rightarrow> bool" where
  "artifact_type_ok v \<longleftrightarrow> is_lit v ''markdown'' \<or> is_lit v ''html''"

definition validCurrentArtifact :: "json option \<Rightarrow> bool" where
  "validCurrentArtifact v \<longleftrightarrow> v = Some JNull \<or> obj_test (\<lambda>a.
     exactKeys a [''artifactId'', ''artifactType'', ''title'', ''version''] []
     \<and> boundedId (field a ''artifactId'') \<and> artifact_type_ok (field a ''artifactType'')
     \<and> bounded (field a ''title'') 500 False \<and> integer_from (field a ''version'') 1) v"

definition role_snapshot_ok :: "jstr \<Rightarrow> json \<Rightarrow> bool" where
  "role_snapshot_ok targetId r \<longleftrightarrow> boundedId (Some (JStr targetId)) \<and> obj_test (\<lambda>role.
     exactKeys role [''memberId'', ''nodeId'', ''nickname'', ''roleName'', ''roleInstructions'', ''capabilities'']
       [''portraitUri'', ''isHost'', ''model'', ''speakingOrder'']
     \<and> boundedId (field role ''memberId'') \<and> field role ''memberId'' = Some (JStr targetId)
     \<and> boundedId (field role ''nodeId'') \<and> bounded (field role ''nickname'') 500 True
     \<and> bounded (field role ''roleName'') 500 True \<and> bounded (field role ''roleInstructions'') 16000 True
     \<and> arr_test (\<lambda>cs. length cs \<le> 64 \<and> list_all (\<lambda>c. boundedId (Some c)) cs) (field role ''capabilities'')
     \<and> absent_or (\<lambda>v. bounded v 16000 True) (field role ''portraitUri'')
     \<and> absent_or (\<lambda>v. v = Some (JBool True) \<or> v = Some (JBool False)) (field role ''isHost'')
     \<and> absent_or modelRoute (field role ''model'')
     \<and> absent_or (\<lambda>v. integer_from v 0) (field role ''speakingOrder'')) (Some r)"

definition validRoleSnapshots :: "json option \<Rightarrow> bool" where
  "validRoleSnapshots v = obj_test (\<lambda>roles. length roles \<le> 256
     \<and> list_all (\<lambda>(targetId, role). role_snapshot_ok targetId role) roles) v"

definition prior_contribution_ok :: "json \<Rightarrow> bool" where
  "prior_contribution_ok v = obj_test (\<lambda>item.
     exactKeys item [''memberId'', ''content'', ''round''] []
     \<and> boundedId (field item ''memberId'') \<and> bounded (field item ''content'') 100000 False
     \<and> str_test validUtf8 (field item ''content'') \<and> integer_from (field item ''round'') 0) (Some v)"

definition allowed_ok :: "json option \<Rightarrow> bool" where
  "allowed_ok v = arr_test (\<lambda>allowed. 1 \<le> length allowed \<and> length allowed \<le> 4
     \<and> list_all (\<lambda>item. item \<in> JLit ` set host_actions) allowed \<and> distinct allowed) v"

definition phase_ok :: "json option \<Rightarrow> json list \<Rightarrow> bool" where
  "phase_ok phase allowed \<longleftrightarrow>
     (if is_lit phase ''round_summary'' then allowed = [JLit ''checkpoint'']
      else if is_lit phase ''final_synthesis''
      then list_all (\<lambda>item. item = JLit ''finish'' \<or> item = JLit ''fail'') allowed
      else False)"

definition parseHostTurn :: "jobj \<Rightarrow> jobj option" where
  "parseHostTurn value =
     (let roundtable = is_lit (field value ''mode'') ''roundtable''
      in if exactKeys value (commandBaseKeys
              @ [''topic'', ''goal'', ''roles'', ''allowedDecisions'', ''remainingRounds'', ''eventSummary'',
                 ''currentArtifact'']
              @ (if roundtable then [''mode'', ''phase'', ''roundSummaries'', ''userInterjections''] else []))
              [''hostPrompt'', ''configVersion'', ''priorContributions'']
            \<and> baseValid value ''discussion_host_turn''
            \<and> bounded (field value ''topic'') 4000 False \<and> bounded (field value ''goal'') 8000 True
            \<and> validRoleSnapshots (field value ''roles'') \<and> allowed_ok (field value ''allowedDecisions'')
            \<and> integer_from (field value ''remainingRounds'') 0
            \<and> bounded (field value ''eventSummary'') 100000 True
            \<and> validCurrentArtifact (field value ''currentArtifact'')
            \<and> (own_key value ''hostPrompt'' \<or> own_key value ''configVersion'' \<longrightarrow>
                 bounded (field value ''hostPrompt'') 32000 False
                 \<and> str_test (\<lambda>s. trim s \<noteq> [] \<and> validUtf8 s) (field value ''hostPrompt'')
                 \<and> integer_from (field value ''configVersion'') 1)
            \<and> (own_key value ''priorContributions'' \<longrightarrow>
                 boundedArray (field value ''priorContributions'') 100
                 \<and> arr_test (list_all prior_contribution_ok) (field value ''priorContributions''))
            \<and> (roundtable \<longrightarrow>
                 boundedArray (field value ''roundSummaries'') 100
                 \<and> boundedArray (field value ''userInterjections'') 100
                 \<and> phase_ok (field value ''phase'') (arr_field value ''allowedDecisions''))
         then Some value else None)"

definition assignment_role_ok :: "json option \<Rightarrow> bool" where
  "assignment_role_ok v = obj_test (\<lambda>role. exactKeys role [''roleName'', ''roleInstructions''] []
     \<and> bounded (field role ''roleName'') 500 False \<and> bounded (field role ''roleInstructions'') 16000 True) v"

definition parseAssignment :: "jobj \<Rightarrow> jobj option" where
  "parseAssignment value =
     (let roundtable = is_lit (field value ''mode'') ''roundtable''
      in if exactKeys value (commandBaseKeys @ [''assignmentId'', ''targetId'', ''task'', ''topic'', ''goal'']
              @ (if roundtable then [''mode'', ''model'', ''role'', ''speakingOrder'', ''roundFocus'',
                    ''priorContributions'', ''roundSummaries'', ''userInterjections'', ''attempt''] else [])) []
            \<and> baseValid value ''discussion_assignment''
            \<and> boundedId (field value ''assignmentId'') \<and> boundedId (field value ''targetId'')
            \<and> bounded (field value ''task'') 16000 False \<and> bounded (field value ''topic'') 4000 False
            \<and> bounded (field value ''goal'') 8000 True
            \<and> (roundtable \<longrightarrow>
                 (field value ''model'' = Some JNull \<or> field value ''model'' = None \<or> modelRoute (field value ''model''))
                 \<and> assignment_role_ok (field value ''role'') \<and> integer_from (field value ''speakingOrder'') 0
                 \<and> bounded (field value ''roundFocus'') 8000 True
                 \<and> boundedArray (field value ''priorContributions'') 100
                 \<and> boundedArray (field value ''roundSummaries'') 100
                 \<and> boundedArray (field value ''userInterjections'') 100
                 \<and> integer_from (field value ''attempt'') 1 \<and> int_field value ''attempt'' \<le> 2)
         then Some value else None)"

definition parseCancel :: "jobj \<Rightarrow> jobj option" where
  "parseCancel value =
     (if exactKeys value (commandBaseKeys @ [''reason'']) [] \<and> baseValid value ''discussion_cancel''
         \<and> bounded (field value ''reason'') 2000 True
      then Some value else None)"

definition parseArtifactAck :: "jobj \<Rightarrow> jobj option" where
  "parseArtifactAck value =
     (if exactKeys value (commandBaseKeys @ [''updateId'', ''idempotencyKey'', ''artifactId'', ''artifactVersion'']) []
         \<and> baseValid value ''discussion_artifact_ack''
         \<and> boundedId (field value ''updateId'') \<and> field value ''idempotencyKey'' = field value ''updateId''
         \<and> boundedId (field value ''artifactId'') \<and> integer_from (field value ''artifactVersion'') 1
      then Some value else None)"

definition parseDiscussionV2Command :: "json \<Rightarrow> v2_command option" where
  "parseDiscussionV2Command v = (case v of
     JObj value \<Rightarrow>
       (let kind = field value ''msg_type''
        in if is_lit kind ''discussion_host_turn'' then map_option CHostTurn (parseHostTurn value)
           else if is_lit kind ''discussion_assignment'' then map_option CAssignment (parseAssignment value)
           else if is_lit kind ''discussion_cancel'' then map_option CCancel (parseCancel value)
           else if is_lit kind ''discussion_artifact_ack'' then map_option CArtifactAck (parseArtifactAck value)
           else None)
   | _ \<Rightarrow> None)"

subsection \<open>Decisions of the host\<close>

definition validArtifact :: "json option \<Rightarrow> bool" where
  "validArtifact v = obj_test (\<lambda>a.
     exactKeys a [''artifactType'', ''title'', ''content'', ''baseVersion'', ''final''] []
     \<and> artifact_type_ok (field a ''artifactType'') \<and> bounded (field a ''title'') 500 False
     \<and> bounded (field a ''content'') 2000000 False
     \<and> str_test (\<lambda>s. byte_length s \<le> 2000000 \<and> validUtf8 s) (field a ''content'')
     \<and> integer_from (field a ''baseVersion'') 0 \<and> field a ''final'' = Some (JBool True)) v"

definition validPublicPlan :: "jobj \<Rightarrow> bool" where
  "validPublicPlan value = absent_or (\<lambda>v. bounded v 1000 False) (field value ''planSummary'')"

definition role_of :: "jobj \<Rightarrow> jstr \<Rightarrow> jobj option" where
  "role_of turn member = (case map_of (obj_field turn ''roles'') member of Some (JObj r) \<Rightarrow> Some r | _ \<Rightarrow> None)"

definition position_ok :: "jobj \<Rightarrow> json \<Rightarrow> bool" where
  "position_ok turn v = obj_test (\<lambda>p. exactKeys p [''memberId'', ''position''] []
     \<and> boundedId (field p ''memberId'') \<and> bounded (field p ''position'') 2000 False
     \<and> (case role_of turn (str_field p ''memberId'') of
          None \<Rightarrow> False | Some r \<Rightarrow> field r ''isHost'' \<noteq> Some (JBool True))) (Some v)"

definition position_member :: "json \<Rightarrow> json option" where
  "position_member v = (case v of JObj p \<Rightarrow> field p ''memberId'' | _ \<Rightarrow> None)"

definition checkpoint_ok :: "jobj \<Rightarrow> jobj \<Rightarrow> bool" where
  "checkpoint_ok turn value \<longleftrightarrow> is_lit (field turn ''phase'') ''round_summary''
     \<and> exactKeys value [''action'', ''memberPositions'', ''agreements'', ''disagreements'', ''openQuestions'',
          ''nextFocus'', ''recommendation''] []
     \<and> arr_test (\<lambda>ps. length ps \<le> 32 \<and> list_all (position_ok turn) ps \<and> distinct (map position_member ps))
          (field value ''memberPositions'')
     \<and> list_all (\<lambda>key. arr_test (\<lambda>items. length items \<le> 32 \<and> list_all (\<lambda>i. bounded (Some i) 2000 False) items)
          (field value key)) [''agreements'', ''disagreements'', ''openQuestions'']
     \<and> bounded (field value ''nextFocus'') 2000 True
     \<and> (is_lit (field value ''recommendation'') ''continue'' \<or> is_lit (field value ''recommendation'') ''finish'')"

definition expected_base :: "jobj \<Rightarrow> json option \<Rightarrow> json option" where
  "expected_base turn kind = (case field turn ''currentArtifact'' of
     Some (JObj a) \<Rightarrow> if field a ''artifactType'' = kind then field a ''version'' else Some (JInt 0)
   | _ \<Rightarrow> Some (JInt 0))"

definition decision_step :: "jobj \<Rightarrow> jobj \<Rightarrow> (v2_error, jobj) result" where
  "decision_step turn value =
     (let act = field value ''action'' in
      if is_lit act ''checkpoint'' then
        (if checkpoint_ok turn value then Inr value else Inl InvalidCheckpoint)
      else if is_lit act ''assign'' then
        (if \<not> (exactKeys value [''action'', ''targetNodeId'', ''task''] [''planSummary'']
               \<and> boundedId (field value ''targetNodeId'') \<and> bounded (field value ''task'') 16000 False)
         then Inl InvalidAssignment
         else case role_of turn (str_field value ''targetNodeId'') of
           None \<Rightarrow> Inl TargetOutside
         | Some role \<Rightarrow>
             if JLit ''discussion_participant'' \<in> set (arr_field role ''capabilities'') then Inr value
             else Inl TargetOutside)
      else if is_lit act ''synthesize'' then
        (if exactKeys value [''action'', ''artifactType'', ''instructions''] [''planSummary'']
            \<and> artifact_type_ok (field value ''artifactType'') \<and> bounded (field value ''instructions'') 16000 False
         then Inr value else Inl InvalidSynthesis)
      else if is_lit act ''finish'' then
        (let artifact = obj_field value ''artifact'' in
         if \<not> (exactKeys value [''action'', ''summary'', ''artifact''] [''planSummary'']
               \<and> bounded (field value ''summary'') 100000 False \<and> validArtifact (field value ''artifact'')
               \<and> (is_lit (field turn ''phase'') ''final_synthesis'' \<longrightarrow> is_lit (field artifact ''artifactType'') ''markdown''))
         then Inl InvalidFinish
         else if field artifact ''baseVersion'' \<noteq> expected_base turn (field artifact ''artifactType'')
         then Inl InvalidBaseVersion
         else Inr value)
      else if is_lit act ''fail'' then
        (if exactKeys value [''action'', ''reason''] [''planSummary''] \<and> bounded (field value ''reason'') 2000 False
         then Inr value else Inl InvalidFailure)
      else Inl UnknownDecision)"

definition parseHostDecision :: "(jstr \<Rightarrow> jnum) \<Rightarrow> jstr \<Rightarrow> jobj \<Rightarrow> (v2_error, jobj) result" where
  "parseHostDecision cv txt turn =
     (case json_parse cv (trim txt) of
        None \<Rightarrow> Inl DecisionNotJson
      | Some (JObj value) \<Rightarrow>
          if \<not> validPublicPlan value
             \<or> \<not> (case field value ''action'' of
                   Some (JStr a) \<Rightarrow> JStr a \<in> set (arr_field turn ''allowedDecisions'') | _ \<Rightarrow> False)
          then Inl DecisionDisallowed
          else decision_step turn value
      | Some _ \<Rightarrow> Inl DecisionDisallowed)"

end
