(* ===== verification/V2Messages.thy ===== *)
theory V2Messages imports DiscussionV2 begin

text \<open>
  The rest of \<open>protocol/discussion-v2.ts\<close> but its guard: role recommendations, the model catalogue
  and the messages a node sends.  The folding of role names (\<open>normalize('NFKC')\<close> and lower case, tables
  of the Unicode standard) is the parameter \<open>fold_name\<close>.
\<close>

subsection \<open>Role recommendations\<close>

record role_candidate =
  rc_nodeId :: jstr
  rc_displayName :: jstr
  rc_runtimeType :: jstr
  rc_capabilities :: "json list"
  rc_defaultModel :: json
  rc_models :: "json list"
  rc_status :: jstr

record role_request =
  rq_requestId :: jstr
  rq_topic :: jstr
  rq_goal :: jstr
  rq_maxRoles :: int
  rq_candidates :: "role_candidate list"
  rq_prompt :: jstr
  rq_configVersion :: int

record recommended =
  rr_roleName :: jstr
  rr_rolePrompt :: jstr
  rr_device :: "(jstr \<times> json) option"
  rr_speakingOrder :: int

definition candidate_ok :: "jobj \<Rightarrow> bool" where
  "candidate_ok c \<longleftrightarrow>
     exactKeys c [''node_id'', ''display_name'', ''runtime_type'', ''capabilities'', ''default_model'', ''models'',
       ''status''] []
     \<and> boundedId (field c ''node_id'') \<and> bounded (field c ''display_name'') 500 False
     \<and> boundedId (field c ''runtime_type'')
     \<and> (is_lit (field c ''status'') ''online'' \<or> is_lit (field c ''status'') ''offline'')
     \<and> arr_test (\<lambda>cs. length cs \<le> 64 \<and> list_all (\<lambda>x. boundedId (Some x)) cs \<and> distinct cs) (field c ''capabilities'')
     \<and> arr_test (\<lambda>ms. length ms \<le> 500 \<and> list_all (\<lambda>x. modelRoute (Some x)) ms \<and> distinct ms
          \<and> (field c ''default_model'' = Some JNull
             \<or> (modelRoute (field c ''default_model'') \<and> the (field c ''default_model'') \<in> set ms))) (field c ''models'')"

definition candidate_of :: "jobj \<Rightarrow> role_candidate" where
  "candidate_of c = \<lparr>rc_nodeId = str_field c ''node_id'', rc_displayName = str_field c ''display_name'',
     rc_runtimeType = str_field c ''runtime_type'', rc_capabilities = arr_field c ''capabilities'',
     rc_defaultModel = the (field c ''default_model''), rc_models = arr_field c ''models'',
     rc_status = str_field c ''status''\<rparr>"

text \<open>The loop over the candidates: \<open>seen\<close> is the set of node ids.\<close>

fun parse_candidates :: "jstr list \<Rightarrow> json list \<Rightarrow> role_candidate list option" where
  "parse_candidates seen [] = Some []"
| "parse_candidates seen (JObj c # rest) =
     (if candidate_ok c \<and> str_field c ''node_id'' \<notin> set seen
      then map_option ((#) (candidate_of c)) (parse_candidates (str_field c ''node_id'' # seen) rest)
      else None)"
| "parse_candidates seen (_ # rest) = None"

definition parseRoleRecommendationRequest :: "json \<Rightarrow> role_request option" where
  "parseRoleRecommendationRequest v = (case v of
     JObj value \<Rightarrow>
       (if exactKeys value [''msg_type'', ''request_id'', ''topic'', ''goal'', ''max_roles'',
              ''recommendation_prompt'', ''config_version''] [''candidates'']
           \<and> is_lit (field value ''msg_type'') ''discussion_role_recommendation_request''
           \<and> boundedId (field value ''request_id'') \<and> bounded (field value ''topic'') 4000 False
           \<and> bounded (field value ''goal'') 8000 True \<and> integer_from (field value ''max_roles'') 1
           \<and> int_field value ''max_roles'' \<le> 8 \<and> bounded (field value ''recommendation_prompt'') 32000 True
           \<and> integer_from (field value ''config_version'') 0
           \<and> (own_key value ''candidates'' \<longrightarrow> arr_test (\<lambda>cs. int_field value ''max_roles'' \<le> int (length cs)
                \<and> length cs \<le> 8) (field value ''candidates''))
        then map_option (\<lambda>cs. \<lparr>rq_requestId = str_field value ''request_id'', rq_topic = str_field value ''topic'',
               rq_goal = str_field value ''goal'', rq_maxRoles = int_field value ''max_roles'', rq_candidates = cs,
               rq_prompt = str_field value ''recommendation_prompt'',
               rq_configVersion = int_field value ''config_version''\<rparr>)
             (parse_candidates [] (arr_field value ''candidates''))
        else None)
   | _ \<Rightarrow> None)"

definition role_fields_ok :: "bool \<Rightarrow> jobj \<Rightarrow> bool" where
  "role_fields_ok assignDevices role \<longleftrightarrow>
     exactKeys role (if assignDevices then [''role_name'', ''role_prompt'', ''node_id'', ''model'', ''speaking_order'']
       else [''role_name'', ''role_prompt'', ''speaking_order'']) []
     \<and> bounded (field role ''role_name'') 80 False \<and> bounded (field role ''role_prompt'') 8000 False
     \<and> trim (str_field role ''role_name'') \<noteq> [] \<and> trim (str_field role ''role_prompt'') \<noteq> []
     \<and> integer_from (field role ''speaking_order'') 0"

definition candidate_map :: "role_candidate list \<Rightarrow> (jstr, role_candidate) jsmap" where
  "candidate_map cs = fold (\<lambda>c m. mset_at m (rc_nodeId c) c) cs []"

definition device_ok :: "(jstr, role_candidate) jsmap \<Rightarrow> jobj \<Rightarrow> bool" where
  "device_ok candidates role \<longleftrightarrow> boundedId (field role ''node_id'')
     \<and> (case mget candidates (str_field role ''node_id'') of
          None \<Rightarrow> False
        | Some c \<Rightarrow> field role ''model'' = Some JNull
            \<or> (modelRoute (field role ''model'') \<and> the (field role ''model'') \<in> set (rc_models c)))"

text \<open>The loop over the roles: \<open>names\<close> is the set of folded names.\<close>

fun parse_roles :: "(jstr \<Rightarrow> jstr) \<Rightarrow> (jstr, role_candidate) jsmap \<Rightarrow> jstr list \<Rightarrow> json list \<Rightarrow> recommended list option" where
  "parse_roles fold_name candidates names [] = Some []"
| "parse_roles fold_name candidates names (JObj role # rest) =
     (let assignDevices = 0 < msize candidates; name = fold_name (trim (str_field role ''role_name''))
      in if role_fields_ok assignDevices role \<and> name \<notin> set names \<and> (assignDevices \<longrightarrow> device_ok candidates role)
         then map_option ((#) \<lparr>rr_roleName = trim (str_field role ''role_name''),
                rr_rolePrompt = trim (str_field role ''role_prompt''),
                rr_device = (if assignDevices then Some (str_field role ''node_id'', the (field role ''model'')) else None),
                rr_speakingOrder = int_field role ''speaking_order''\<rparr>)
              (parse_roles fold_name candidates (name # names) rest)
         else None)"
| "parse_roles fold_name candidates names (_ # rest) = None"

definition parseRoleRecommendationResponse ::
  "(jstr \<Rightarrow> jstr) \<Rightarrow> json \<Rightarrow> role_request \<Rightarrow> recommended list option" where
  "parseRoleRecommendationResponse fold_name v request = (case v of
     JObj value \<Rightarrow>
       (if exactKeys value [''roles''] []
           \<and> arr_test (\<lambda>rs. 1 \<le> length rs \<and> int (length rs) \<le> rq_maxRoles request) (field value ''roles'')
        then (case parse_roles fold_name (candidate_map (rq_candidates request)) [] (arr_field value ''roles'') of
                None \<Rightarrow> None
              | Some rs \<Rightarrow>
                  (let orders = sort (map rr_speakingOrder rs)
                   in if orders \<noteq> map int [0..<length orders] then None
                      else Some (sort_key rr_speakingOrder rs)))
        else None)
   | _ \<Rightarrow> None)"

subsection \<open>The model catalogue\<close>

definition catalog_model_ok :: "json \<Rightarrow> bool" where
  "catalog_model_ok v = obj_test (\<lambda>m. exactKeys m [''id'', ''name''] [] \<and> validNativeModel (field m ''id'')
     \<and> bounded (field m ''name'') 500 False) (Some v)"

fun providers_ok :: "nat \<Rightarrow> json list \<Rightarrow> bool" where
  "providers_ok modelCount [] = True"
| "providers_ok modelCount (JObj p # rest) =
     (exactKeys p [''id'', ''name'', ''models''] [] \<and> boundedId (field p ''id'') \<and> bounded (field p ''name'') 500 False
      \<and> arr_test (\<lambda>ms. length ms \<le> 500) (field p ''models'')
      \<and> modelCount + length (arr_field p ''models'') \<le> 500
      \<and> list_all catalog_model_ok (arr_field p ''models'')
      \<and> providers_ok (modelCount + length (arr_field p ''models'')) rest)"
| "providers_ok modelCount (_ # rest) = False"

definition offers :: "jstr \<Rightarrow> jstr \<Rightarrow> json \<Rightarrow> bool" where
  "offers providerId modelId v = obj_test (\<lambda>p. field p ''id'' = Some (JStr providerId)
     \<and> list_ex (\<lambda>m. obj_test (\<lambda>mo. field mo ''id'' = Some (JStr modelId)) (Some m)) (arr_field p ''models'')) (Some v)"

definition default_offered :: "json option \<Rightarrow> json list \<Rightarrow> bool" where
  "default_offered d providers = (case d of
     Some (JStr s) \<Rightarrow> (case split_on 47 s of
        providerId # modelId # _ \<Rightarrow> list_ex (offers providerId modelId) providers | _ \<Rightarrow> False)
   | _ \<Rightarrow> True)"

definition validCatalog :: "json \<Rightarrow> bool" where
  "validCatalog v = obj_test (\<lambda>value. exactKeys value [''defaultModel'', ''providers''] []
     \<and> (field value ''defaultModel'' = Some JNull \<or> modelRoute (field value ''defaultModel''))
     \<and> arr_test (\<lambda>ps. length ps \<le> 64 \<and> providers_ok 0 ps \<and> default_offered (field value ''defaultModel'') ps)
          (field value ''providers'')) (Some v)"

definition parseDiscussionModelCatalogRequest :: "json \<Rightarrow> jobj option" where
  "parseDiscussionModelCatalogRequest v = (case v of
     JObj value \<Rightarrow>
       (if exactKeys value [''msg_type'', ''protocolVersion'', ''requestId'', ''timestamp''] []
           \<and> is_lit (field value ''msg_type'') ''discussion_model_catalog_request''
           \<and> field value ''protocolVersion'' = Some (JInt 2) \<and> boundedId (field value ''requestId'')
           \<and> integer_from (field value ''timestamp'') 1
        then Some value else None)
   | _ \<Rightarrow> None)"

definition parseDiscussionModelCatalogResponse :: "json \<Rightarrow> jobj option" where
  "parseDiscussionModelCatalogResponse v = (case v of
     JObj value \<Rightarrow>
       (if exactKeys value [''msg_type'', ''protocolVersion'', ''requestId'', ''defaultModel'', ''providers'', ''timestamp''] []
           \<and> is_lit (field value ''msg_type'') ''discussion_model_catalog_response''
           \<and> field value ''protocolVersion'' = Some (JInt 2) \<and> boundedId (field value ''requestId'')
           \<and> integer_from (field value ''timestamp'') 1
           \<and> validCatalog (JObj [(js ''defaultModel'', the (field value ''defaultModel'')),
                (js ''providers'', the (field value ''providers''))])
        then Some value else None)
   | _ \<Rightarrow> None)"

definition public_model :: "json \<Rightarrow> json" where
  "public_model v = (case v of
     JObj m \<Rightarrow> JObj (copied ''id'' (field m ''id'') @ copied ''name'' (field m ''name'')) | _ \<Rightarrow> JObj [])"

definition public_provider :: "json \<Rightarrow> json" where
  "public_provider v = (case v of
     JObj p \<Rightarrow> JObj (copied ''id'' (field p ''id'') @ copied ''name'' (field p ''name'')
        @ [(js ''models'', JArr (map public_model (arr_field p ''models'')))])
   | _ \<Rightarrow> JObj [])"

definition buildModelCatalogResponse :: "json \<Rightarrow> jobj \<Rightarrow> int \<Rightarrow> (v2_error, jobj) result" where
  "buildModelCatalogResponse rawRequest catalog timestamp =
     (case parseDiscussionModelCatalogRequest rawRequest of
        None \<Rightarrow> Inl InvalidCatalogInput
      | Some request \<Rightarrow>
          if \<not> validCatalog (JObj catalog) \<or> \<not> integer_from (Some (JInt timestamp)) 1 then Inl InvalidCatalogInput
          else Inr ([(js ''msg_type'', JLit ''discussion_model_catalog_response''), (js ''protocolVersion'', JInt 2),
             (js ''requestId'', JStr (str_field request ''requestId''))]
             @ copied ''defaultModel'' (field catalog ''defaultModel'')
             @ [(js ''providers'', JArr (map public_provider (arr_field catalog ''providers''))),
                (js ''timestamp'', JInt timestamp)]))"

subsection \<open>Messages of a node\<close>

definition idempotency_source :: "jobj \<Rightarrow> jstr \<Rightarrow> string \<Rightarrow> jstr \<Rightarrow> json" where
  "idempotency_source command senderId msgType suffix =
     JObj [(js ''kind'', JLit msgType), (js ''senderId'', JStr senderId),
       (js ''discussionId'', JStr (str_field command ''discussionId'')),
       (js ''requestId'', JStr (str_field command ''requestId'')),
       (js ''stateVersion'', JInt (int_field command ''stateVersion'')),
       (js ''round'', JInt (int_field command ''round'')), (js ''suffix'', JStr suffix)]"

definition outputEnvelope ::
  "(bytes \<Rightarrow> bytes) \<Rightarrow> jobj \<Rightarrow> jstr \<Rightarrow> string \<Rightarrow> int \<Rightarrow> jstr \<Rightarrow> (v2_error, jobj) result" where
  "outputEnvelope sha command senderId msgType timestamp suffix =
     (if \<not> boundedId (Some (JStr senderId)) \<or> \<not> integer_from (Some (JInt timestamp)) 1 then Inl InvalidEnvelope
      else Inr [(js ''msg_type'', JLit msgType), (js ''protocolVersion'', JInt 2),
        (js ''discussionId'', JStr (str_field command ''discussionId'')),
        (js ''chatroomId'', JStr (str_field command ''chatroomId'')),
        (js ''requestId'', JStr (str_field command ''requestId'')),
        (js ''stateVersion'', JInt (int_field command ''stateVersion'')),
        (js ''round'', JInt (int_field command ''round'')), (js ''timestamp'', JInt timestamp),
        (js ''idempotencyKey'',
         JStr (hex_text (sha (utf8_encode (stringify (idempotency_source command senderId msgType suffix))))))])"

definition publicContribution :: "jstr \<Rightarrow> (v2_error, jstr) result" where
  "publicContribution content =
     (if \<not> bounded (Some (JStr content)) 100000 False \<or> trim content = [] \<or> \<not> validUtf8 content
      then Inl InvalidContribution else Inr content)"

definition buildContributionDelta ::
  "(bytes \<Rightarrow> bytes) \<Rightarrow> jobj \<Rightarrow> jstr \<Rightarrow> jstr \<Rightarrow> int \<Rightarrow> int \<Rightarrow> (v2_error, jobj) result" where
  "buildContributionDelta sha assignment senderId content sq timestamp =
     (if \<not> integer_from (Some (JInt sq)) 0 then Inl InvalidSequence
      else bind_result (outputEnvelope sha assignment senderId ''discussion_contribution_delta'' timestamp (int_text sq)) (\<lambda>env.
           bind_result (publicContribution content) (\<lambda>c.
             Inr (env @ [(js ''assignmentId'', JStr (str_field assignment ''assignmentId'')), (js ''content'', JStr c),
               (js ''seq'', JInt sq)]))))"

definition buildContributionCompleted ::
  "(bytes \<Rightarrow> bytes) \<Rightarrow> jobj \<Rightarrow> jstr \<Rightarrow> jstr \<Rightarrow> int \<Rightarrow> (v2_error, jobj) result" where
  "buildContributionCompleted sha assignment senderId content timestamp =
     bind_result (outputEnvelope sha assignment senderId ''discussion_contribution_completed'' timestamp []) (\<lambda>env.
     bind_result (publicContribution content) (\<lambda>c.
       Inr (env @ [(js ''assignmentId'', JStr (str_field assignment ''assignmentId'')), (js ''content'', JStr c)])))"

text \<open>The properties of a decision that are published, by its action.\<close>

definition decision_output :: "jobj \<Rightarrow> jobj" where
  "decision_output d =
     (if is_lit (field d ''action'') ''assign'' then
        copied ''targetId'' (field d ''targetNodeId'') @ copied ''task'' (field d ''task'')
      else if is_lit (field d ''action'') ''synthesize'' then
        copied ''artifactType'' (field d ''artifactType'') @ copied ''instructions'' (field d ''instructions'')
      else if is_lit (field d ''action'') ''fail'' then copied ''reason'' (field d ''reason'')
      else copied ''memberPositions'' (field d ''memberPositions'') @ copied ''agreements'' (field d ''agreements'')
        @ copied ''disagreements'' (field d ''disagreements'') @ copied ''openQuestions'' (field d ''openQuestions'')
        @ copied ''nextFocus'' (field d ''nextFocus'') @ copied ''recommendation'' (field d ''recommendation''))"

definition buildHostDecisionOutput ::
  "(bytes \<Rightarrow> bytes) \<Rightarrow> (jstr \<Rightarrow> jnum) \<Rightarrow> jobj \<Rightarrow> jstr \<Rightarrow> jobj \<Rightarrow> int \<Rightarrow> (jstr \<times> int) option \<Rightarrow> (v2_error, jobj) result" where
  "buildHostDecisionOutput sha cv turn senderId rawDecision timestamp reference =
     bind_result (parseHostDecision cv (stringify (JObj rawDecision)) turn) (\<lambda>decision.
     bind_result (outputEnvelope sha turn senderId ''discussion_host_decision'' timestamp []) (\<lambda>env.
       let output = env @ copied ''decision'' (field decision ''action'')
       in if is_lit (field decision ''action'') ''finish'' then
            (case reference of
               None \<Rightarrow> Inl FinishNeedsReference
             | Some (artifactId, artifactVersion) \<Rightarrow>
                 if \<not> boundedId (Some (JStr artifactId)) \<or> \<not> integer_from (Some (JInt artifactVersion)) 1
                 then Inl FinishNeedsReference
                 else Inr (output @ [(js ''artifactId'', JStr artifactId), (js ''artifactVersion'', JInt artifactVersion)]))
          else if reference \<noteq> None then Inl UnexpectedReference
          else Inr (output @ copied ''planSummary'' (field decision ''planSummary'') @ decision_output decision)))"

definition validArtifactUpdate :: "json \<Rightarrow> bool" where
  "validArtifactUpdate v = obj_test (\<lambda>a.
     exactKeys a [''artifactType'', ''title'', ''operation'', ''content'', ''baseVersion'', ''isFinal''] []
     \<and> artifact_type_ok (field a ''artifactType'') \<and> bounded (field a ''title'') 500 False
     \<and> (is_lit (field a ''operation'') ''replace'' \<or> is_lit (field a ''operation'') ''append'')
     \<and> bounded (field a ''content'') 2000000 False \<and> str_test validUtf8 (field a ''content'')
     \<and> integer_from (field a ''baseVersion'') 0
     \<and> (field a ''isFinal'' = Some (JBool True) \<or> field a ''isFinal'' = Some (JBool False))) (Some v)"

definition buildArtifactUpdate ::
  "(bytes \<Rightarrow> bytes) \<Rightarrow> jobj \<Rightarrow> jstr \<Rightarrow> jobj \<Rightarrow> int \<Rightarrow> jstr \<Rightarrow> (v2_error, jobj) result" where
  "buildArtifactUpdate sha turn senderId input timestamp suffix =
     (if \<not> validArtifactUpdate (JObj input) then Inl InvalidArtifactUpdate
      else bind_result (outputEnvelope sha turn senderId ''discussion_artifact_update'' timestamp suffix) (\<lambda>env.
        let output = env @ copied ''artifactType'' (field input ''artifactType'') @ copied ''title'' (field input ''title'')
              @ copied ''operation'' (field input ''operation'') @ copied ''content'' (field input ''content'')
              @ copied ''baseVersion'' (field input ''baseVersion'') @ copied ''isFinal'' (field input ''isFinal'')
        in if byte_length (stringify (JObj output)) > 9000 then Inl ArtifactFrameTooLarge else Inr output))"

definition publicErrors :: "(string \<times> string) list" where
  "publicErrors = [(''invalid_response'', ''Model returned an invalid public response''),
     (''model_error'', ''Model execution failed''), (''timeout'', ''Artifact acknowledgement timed out'')]"

definition buildNodeError ::
  "(bytes \<Rightarrow> bytes) \<Rightarrow> jobj \<Rightarrow> jstr \<Rightarrow> string \<Rightarrow> int \<Rightarrow> (v2_error, jobj) result" where
  "buildNodeError sha command senderId category timestamp =
     (case map_of publicErrors category of
        None \<Rightarrow> Inl InvalidErrorCategory
      | Some message \<Rightarrow>
          bind_result (outputEnvelope sha command senderId ''discussion_node_error'' timestamp (js category)) (\<lambda>env.
            Inr (env
              @ (if is_lit (field command ''msg_type'') ''discussion_assignment''
                 then copied ''assignmentId'' (field command ''assignmentId'') else [])
              @ [(js ''category'', JLit category), (js ''message'', JLit message)])))"

end
