(* ===== verification/DiscussionGuard.thy ===== *)
theory DiscussionGuard imports V2Messages begin

text \<open>
  The guard of the second discussion protocol (\<open>DiscussionV2Guard\<close>): which work a node runs, which
  cancellations it has seen and which artifact acknowledgements it waits for.
\<close>

subsection \<open>State\<close>

definition maxPendingAcks :: nat where "maxPendingAcks = 128"
definition maxCancelTombstones :: nat where "maxCancelTombstones = 256"
definition maxLogicalTombstones :: nat where "maxLogicalTombstones = 1024"
definition logicalTombstoneTtlMs :: int where "logicalTombstoneTtlMs = 10 * 60 * 1000"
definition ackTimeoutMs :: int where "ackTimeoutMs = 15000"

text \<open>An active entry never expires: its time is \<open>Infinity\<close>, here \<open>None\<close>.\<close>

record logical_entry =
  le_active :: bool
  le_expiresAt :: "int option"

record active_entry =
  ae_key :: jstr
  ae_senderId :: jstr
  ae_discussionId :: jstr
  ae_stateVersion :: int
  ae_round :: int

record cancellation =
  ca_senderId :: jstr
  ca_discussionId :: jstr
  ca_stateVersion :: int
  ca_round :: int

record ack_expectation =
  ax_senderId :: jstr
  ax_discussionId :: jstr
  ax_requestId :: jstr
  ax_stateVersion :: int
  ax_round :: int
  ax_updateId :: jstr
  ax_artifactId :: "jstr option"
  ax_artifactVersion :: int

record guard =
  g_logical :: "(jstr, logical_entry) jsmap"
  g_active :: "(jstr, active_entry) jsmap"
  g_cancellations :: "(jstr, cancellation) jsmap"
  g_acks :: "(jstr, ack_expectation \<times> int) jsmap"
  g_final :: bool

definition new_guard :: guard where
  "new_guard = \<lparr>g_logical = [], g_active = [], g_cancellations = [], g_acks = [], g_final = False\<rparr>"

datatype guard_claim = ClAccepted jstr | ClWrongTarget | ClReplay | ClCancelled | ClCapacity | ClDisposed | ClInvalid
datatype guard_cancel = CaAccepted "jstr list" jstr jstr | CaReplay | CaDisposed | CaInvalid
datatype guard_register = RgAccepted | RgDuplicate | RgCapacity | RgDisposed | RgInvalid
datatype guard_ack = AkAccepted | AkUnknown | AkExpired | AkDisposed | AkInvalid

subsection \<open>Keys\<close>

definition discussionV2LogicalKey :: "jstr \<Rightarrow> jobj \<Rightarrow> jstr" where
  "discussionV2LogicalKey senderId command = stringify (JArr [JStr senderId,
     JStr (str_field command ''discussionId''), JStr (str_field command ''requestId''),
     JInt (int_field command ''stateVersion''), JStr (str_field command ''msg_type''),
     JInt (int_field command ''round'')])"

definition cancels :: "cancellation \<Rightarrow> int \<Rightarrow> int \<Rightarrow> bool" where
  "cancels c stateVersion rnd \<longleftrightarrow> stateVersion < ca_stateVersion c
     \<or> (ca_stateVersion c = stateVersion \<and> ca_round c = rnd)"

definition cancelKey :: "cancellation \<Rightarrow> jstr" where
  "cancelKey c = stringify (JArr [JStr (ca_senderId c), JStr (ca_discussionId c), JInt (ca_stateVersion c),
     JInt (ca_round c)])"

definition ackKey :: "jstr \<Rightarrow> jstr \<Rightarrow> jstr \<Rightarrow> int \<Rightarrow> int \<Rightarrow> jstr \<Rightarrow> jstr" where
  "ackKey senderId discussionId requestId stateVersion rnd updateId = stringify (JArr [JStr senderId,
     JStr discussionId, JStr requestId, JInt stateVersion, JInt rnd, JStr updateId])"

definition validAckExpectation :: "ack_expectation \<Rightarrow> bool" where
  "validAckExpectation a \<longleftrightarrow> bounded_string 128 (ax_senderId a) \<and> bounded_string 128 (ax_discussionId a)
     \<and> bounded_string 128 (ax_requestId a) \<and> integer_from (Some (JInt (ax_stateVersion a))) 1
     \<and> integer_from (Some (JInt (ax_round a))) 0 \<and> bounded_string 128 (ax_updateId a)
     \<and> (case ax_artifactId a of None \<Rightarrow> True | Some i \<Rightarrow> bounded_string 128 i)
     \<and> integer_from (Some (JInt (ax_artifactVersion a))) 1"

subsection \<open>Operations\<close>

definition pruneLogical :: "int \<Rightarrow> (jstr, logical_entry) jsmap \<Rightarrow> (jstr, logical_entry) jsmap" where
  "pruneLogical now m = mdelete_where (\<lambda>k e. \<not> le_active e
     \<and> (case le_expiresAt e of None \<Rightarrow> False | Some t \<Rightarrow> t \<le> now)) m"

definition pruneAcks :: "int \<Rightarrow> (jstr, ack_expectation \<times> int) jsmap \<Rightarrow> (jstr, ack_expectation \<times> int) jsmap" where
  "pruneAcks now m = mdelete_where (\<lambda>k (a, t). t \<le> now) m"

definition isCancelled :: "guard \<Rightarrow> jstr \<Rightarrow> jobj \<Rightarrow> bool" where
  "isCancelled g senderId command = list_ex (\<lambda>(k, c). ca_senderId c = senderId
     \<and> ca_discussionId c = str_field command ''discussionId''
     \<and> cancels c (int_field command ''stateVersion'') (int_field command ''round'')) (g_cancellations g)"

definition pendingAckCount :: "guard \<Rightarrow> int \<Rightarrow> nat \<times> guard" where
  "pendingAckCount g now = (let m = pruneAcks now (g_acks g) in (msize m, g\<lparr>g_acks := m\<rparr>))"

definition claim_work :: "guard \<Rightarrow> jstr \<Rightarrow> jobj \<Rightarrow> jstr \<Rightarrow> int \<Rightarrow> guard_claim \<times> guard" where
  "claim_work g senderId command nodeId now =
     (if g_final g then (ClDisposed, g)
      else if \<not> bounded_string 128 senderId \<or> \<not> bounded_string 128 nodeId
        \<or> (\<not> is_lit (field command ''msg_type'') ''discussion_host_turn''
           \<and> \<not> is_lit (field command ''msg_type'') ''discussion_assignment'') then (ClInvalid, g)
      else if is_lit (field command ''msg_type'') ''discussion_assignment'' \<and> str_field command ''targetId'' \<noteq> nodeId
      then (ClWrongTarget, g)
      else if isCancelled g senderId command then (ClCancelled, g)
      else let logical = pruneLogical now (g_logical g);
               key = discussionV2LogicalKey senderId command;
               g1 = g\<lparr>g_logical := logical\<rparr>
           in if mhas logical key then (ClReplay, g1)
              else if msize logical \<ge> maxLogicalTombstones then (ClCapacity, g1)
              else (ClAccepted key, g1\<lparr>g_logical := mset_at logical key \<lparr>le_active = True, le_expiresAt = None\<rparr>,
                      g_active := mset_at (g_active g) key
                        \<lparr>ae_key = key, ae_senderId = senderId, ae_discussionId = str_field command ''discussionId'',
                          ae_stateVersion = int_field command ''stateVersion'', ae_round = int_field command ''round''\<rparr>\<rparr>))"

definition tombstone :: "int \<Rightarrow> logical_entry" where
  "tombstone now = \<lparr>le_active = False, le_expiresAt = Some (now + logicalTombstoneTtlMs)\<rparr>"

definition complete_work :: "guard \<Rightarrow> jstr \<Rightarrow> int \<Rightarrow> bool \<times> guard" where
  "complete_work g key now =
     (if g_final g \<or> \<not> mhas (g_active g) key then (False, g)
      else let g1 = g\<lparr>g_active := mdelete (g_active g) key\<rparr>
           in if \<not> mhas (g_logical g) key then (False, g1)
              else (True, g1\<lparr>g_logical := mset_at (g_logical g) key (tombstone now)\<rparr>))"

definition isCurrent :: "guard \<Rightarrow> jstr \<Rightarrow> bool" where
  "isCurrent g key \<longleftrightarrow> \<not> g_final g \<and> mhas (g_active g) key"

definition work_hit :: "cancellation \<Rightarrow> active_entry \<Rightarrow> bool" where
  "work_hit c a \<longleftrightarrow> ae_senderId a = ca_senderId c \<and> ae_discussionId a = ca_discussionId c
     \<and> cancels c (ae_stateVersion a) (ae_round a)"

definition ack_hit :: "cancellation \<Rightarrow> ack_expectation \<Rightarrow> bool" where
  "ack_hit c a \<longleftrightarrow> ax_senderId a = ca_senderId c \<and> ax_discussionId a = ca_discussionId c
     \<and> cancels c (ax_stateVersion a) (ax_round a)"

text \<open>The tombstones of the aborted work.\<close>

fun bury :: "int \<Rightarrow> jstr list \<Rightarrow> (jstr, logical_entry) jsmap \<Rightarrow> (jstr, logical_entry) jsmap" where
  "bury now [] m = m"
| "bury now (k # ks) m = bury now ks (if mhas m k then mset_at m k (tombstone now) else m)"

definition cancel_work :: "guard \<Rightarrow> jstr \<Rightarrow> json \<Rightarrow> int \<Rightarrow> guard_cancel \<times> guard" where
  "cancel_work g senderId v now =
     (if g_final g then (CaDisposed, g)
      else if \<not> bounded_string 128 senderId then (CaInvalid, g)
      else case parseDiscussionV2Command v of
        Some (CCancel parsed) \<Rightarrow>
          (let c = \<lparr>ca_senderId = senderId, ca_discussionId = str_field parsed ''discussionId'',
                    ca_stateVersion = int_field parsed ''stateVersion'', ca_round = int_field parsed ''round''\<rparr>;
               key = cancelKey c
           in if mhas (g_cancellations g) key then (CaReplay, g)
              else let kept = (if msize (g_cancellations g) \<ge> maxCancelTombstones then drop 1 (g_cancellations g)
                               else g_cancellations g);
                       aborted = map fst (filter (\<lambda>(k, a). work_hit c a) (g_active g))
                   in (CaAccepted aborted senderId (str_field parsed ''discussionId''),
                       g\<lparr>g_cancellations := mset_at kept key c,
                         g_active := mdelete_where (\<lambda>k a. work_hit c a) (g_active g),
                         g_logical := bury now aborted (g_logical g),
                         g_acks := mdelete_where (\<lambda>k (a, t). ack_hit c a) (g_acks g)\<rparr>))
      | _ \<Rightarrow> (CaInvalid, g))"

definition registerArtifactAck :: "guard \<Rightarrow> ack_expectation \<Rightarrow> int \<Rightarrow> guard_register \<times> guard" where
  "registerArtifactAck g a now =
     (if g_final g then (RgDisposed, g)
      else if \<not> validAckExpectation a then (RgInvalid, g)
      else let acks = pruneAcks now (g_acks g);
               key = ackKey (ax_senderId a) (ax_discussionId a) (ax_requestId a) (ax_stateVersion a) (ax_round a)
                       (ax_updateId a);
               g1 = g\<lparr>g_acks := acks\<rparr>
           in if mhas acks key then (RgDuplicate, g1)
              else if msize acks \<ge> maxPendingAcks then (RgCapacity, g1)
              else (RgAccepted, g1\<lparr>g_acks := mset_at acks key (a, now + ackTimeoutMs)\<rparr>))"

definition acceptArtifactAck :: "guard \<Rightarrow> jstr \<Rightarrow> json \<Rightarrow> int \<Rightarrow> guard_ack \<times> guard" where
  "acceptArtifactAck g senderId v now =
     (if g_final g then (AkDisposed, g)
      else if \<not> bounded_string 128 senderId then (AkInvalid, g)
      else case parseDiscussionV2Command v of
        Some (CArtifactAck parsed) \<Rightarrow>
          (let key = ackKey senderId (str_field parsed ''discussionId'') (str_field parsed ''requestId'')
                       (int_field parsed ''stateVersion'') (int_field parsed ''round'') (str_field parsed ''updateId'')
           in case mget (g_acks g) key of
                None \<Rightarrow> (AkUnknown, g)
              | Some (a, t) \<Rightarrow>
                  if t \<le> now then (AkExpired, g\<lparr>g_acks := mdelete (g_acks g) key\<rparr>)
                  else if ax_artifactVersion a \<noteq> int_field parsed ''artifactVersion''
                    \<or> (ax_artifactId a \<noteq> None \<and> ax_artifactId a \<noteq> Some (str_field parsed ''artifactId''))
                  then (AkUnknown, g)
                  else (AkAccepted, g\<lparr>g_acks := mdelete (g_acks g) key\<rparr>))
      | _ \<Rightarrow> (AkInvalid, g))"

definition dispose_guard :: "guard \<Rightarrow> guard" where
  "dispose_guard g = (if g_final g then g
     else \<lparr>g_logical = [], g_active = [], g_cancellations = [], g_acks = [], g_final = True\<rparr>)"

end
