(* ===== verification/GuardProofs.thy ===== *)
theory GuardProofs imports DiscussionGuard begin

text \<open>
  The invariant of the discussion guard under every operation, and the facts its properties rest on:
  what keeps a logical tombstone and a cancellation in place.
\<close>

subsection \<open>Events and invariant\<close>

datatype guard_event =
    GClaim jstr jobj jstr int
  | GComplete jstr int
  | GCancel jstr json int
  | GRegister ack_expectation int
  | GAck jstr json int
  | GCount int
  | GDispose

fun guard_step :: "guard \<Rightarrow> guard_event \<Rightarrow> guard" where
  "guard_step g (GClaim s c n now) = snd (claim_work g s c n now)"
| "guard_step g (GComplete k now) = snd (complete_work g k now)"
| "guard_step g (GCancel s v now) = snd (cancel_work g s v now)"
| "guard_step g (GRegister a now) = snd (registerArtifactAck g a now)"
| "guard_step g (GAck s v now) = snd (acceptArtifactAck g s v now)"
| "guard_step g (GCount now) = snd (pendingAckCount g now)"
| "guard_step g GDispose = dispose_guard g"

fun guard_clock :: "guard_event \<Rightarrow> int option" where
  "guard_clock (GClaim s c n now) = Some now"
| "guard_clock (GComplete k now) = Some now"
| "guard_clock (GCancel s v now) = Some now"
| "guard_clock (GRegister a now) = Some now"
| "guard_clock (GAck s v now) = Some now"
| "guard_clock (GCount now) = Some now"
| "guard_clock GDispose = None"

definition logical_ok :: "logical_entry \<Rightarrow> bool" where
  "logical_ok e \<longleftrightarrow> le_active e = (le_expiresAt e = None)"

definition running :: "guard \<Rightarrow> jstr \<Rightarrow> bool" where
  "running g k \<longleftrightarrow> (\<exists>e. mget (g_logical g) k = Some e \<and> le_active e)"

definition guard_inv :: "guard \<Rightarrow> bool" where
  "guard_inv g \<longleftrightarrow> mwf (g_logical g) \<and> mwf (g_active g) \<and> mwf (g_cancellations g) \<and> mwf (g_acks g)
     \<and> msize (g_logical g) \<le> maxLogicalTombstones \<and> msize (g_cancellations g) \<le> maxCancelTombstones
     \<and> msize (g_acks g) \<le> maxPendingAcks
     \<and> (\<forall>k e. mget (g_logical g) k = Some e \<longrightarrow> logical_ok e)
     \<and> (\<forall>k. mhas (g_active g) k \<longleftrightarrow> running g k)
     \<and> (\<forall>k c k' a. mget (g_cancellations g) k = Some c \<longrightarrow> mget (g_active g) k' = Some a \<longrightarrow> \<not> work_hit c a)"

lemma guard_invI:
  assumes "mwf (g_logical g)" "mwf (g_active g)" "mwf (g_cancellations g)" "mwf (g_acks g)"
    "msize (g_logical g) \<le> maxLogicalTombstones" "msize (g_cancellations g) \<le> maxCancelTombstones"
    "msize (g_acks g) \<le> maxPendingAcks" "\<And>k e. mget (g_logical g) k = Some e \<Longrightarrow> logical_ok e"
    "\<And>k. mhas (g_active g) k \<longleftrightarrow> running g k"
    "\<And>k c k' a. mget (g_cancellations g) k = Some c \<Longrightarrow> mget (g_active g) k' = Some a \<Longrightarrow> \<not> work_hit c a"
  shows "guard_inv g"
  using assms by (simp add: guard_inv_def)

lemma guard_invD:
  assumes "guard_inv g"
  shows "mwf (g_logical g)" "mwf (g_active g)" "mwf (g_cancellations g)" "mwf (g_acks g)"
    "msize (g_logical g) \<le> maxLogicalTombstones" "msize (g_cancellations g) \<le> maxCancelTombstones"
    "msize (g_acks g) \<le> maxPendingAcks" "\<And>k e. mget (g_logical g) k = Some e \<Longrightarrow> logical_ok e"
    "\<And>k. mhas (g_active g) k \<longleftrightarrow> running g k"
    "\<And>k c k' a. mget (g_cancellations g) k = Some c \<Longrightarrow> mget (g_active g) k' = Some a \<Longrightarrow> \<not> work_hit c a"
  using assms unfolding guard_inv_def by blast+

text \<open>Changing the acknowledgements or pruning dead tombstones.\<close>

lemma guard_inv_acks: "guard_inv g \<Longrightarrow> mwf m \<Longrightarrow> msize m \<le> maxPendingAcks \<Longrightarrow> guard_inv (g\<lparr>g_acks := m\<rparr>)"
  by (simp add: guard_inv_def running_def)

lemma mget_pruneLogical:
  "mwf m \<Longrightarrow> mget (pruneLogical now m) k = (case mget m k of None \<Rightarrow> None
     | Some e \<Rightarrow> if \<not> le_active e \<and> (case le_expiresAt e of None \<Rightarrow> False | Some t \<Rightarrow> t \<le> now) then None else Some e)"
  by (simp add: pruneLogical_def mget_delete_where)

lemma running_prune: "mwf (g_logical g) \<Longrightarrow> running (g\<lparr>g_logical := pruneLogical now (g_logical g)\<rparr>) k = running g k"
  by (auto simp: running_def mget_pruneLogical split: option.splits if_splits)

lemma prune_guard_inv:
  assumes "guard_inv g"
  shows "guard_inv (g\<lparr>g_logical := pruneLogical now (g_logical g)\<rparr>)"
proof -
  note f = guard_invD [OF assms]
  have "mget (pruneLogical now (g_logical g)) k = Some e \<Longrightarrow> logical_ok e" for k e
    using f(8) by (auto simp: mget_pruneLogical [OF f(1)] split: option.splits if_splits)
  moreover have "msize (pruneLogical now (g_logical g)) \<le> maxLogicalTombstones"
    using f(5) msize_delete_where le_trans unfolding pruneLogical_def by blast
  ultimately show ?thesis using f running_prune [OF f(1), of now]
    by (intro guard_invI) (auto simp: pruneLogical_def mwf_delete_where)
qed

lemma not_cancelled:
  assumes "\<not> isCancelled g s cmd" "mwf (g_cancellations g)" "mget (g_cancellations g) k = Some c"
  shows "\<not> work_hit c \<lparr>ae_key = key, ae_senderId = s, ae_discussionId = str_field cmd ''discussionId'',
    ae_stateVersion = int_field cmd ''stateVersion'', ae_round = int_field cmd ''round''\<rparr>"
  using assms mget_in [OF assms(2), of k c] by (auto simp: isCancelled_def list_ex_iff work_hit_def)

lemma claim_work_inv:
  assumes "guard_inv g"
  shows "guard_inv (snd (claim_work g s c n now))"
proof (cases "fst (claim_work g s c n now)")
  case (ClAccepted key)
  let ?l = "pruneLogical now (g_logical g)"
  let ?a = "\<lparr>ae_key = key, ae_senderId = s, ae_discussionId = str_field c ''discussionId'',
    ae_stateVersion = int_field c ''stateVersion'', ae_round = int_field c ''round''\<rparr>"
  have d: "\<not> isCancelled g s c" "mget ?l key = None" "msize ?l < maxLogicalTombstones"
    "snd (claim_work g s c n now) = g\<lparr>g_logical := mset_at ?l key \<lparr>le_active = True, le_expiresAt = None\<rparr>,
       g_active := mset_at (g_active g) key ?a\<rparr>"
    using ClAccepted by (auto simp: claim_work_def Let_def mhas_iff split: if_splits)
  note p = guard_invD [OF prune_guard_inv [OF assms, of now]]
  note f = guard_invD [OF assms]
  show ?thesis unfolding d(4)
  proof (rule guard_invI)
    fix k e assume "mget (g_logical (g\<lparr>g_logical := mset_at ?l key \<lparr>le_active = True, le_expiresAt = None\<rparr>,
       g_active := mset_at (g_active g) key ?a\<rparr>)) k = Some e"
    thus "logical_ok e" using p(8) [of k e] by (auto simp: mget_set_at logical_ok_def split: if_splits)
  next
    fix k
    show "mhas (g_active (g\<lparr>g_logical := mset_at ?l key \<lparr>le_active = True, le_expiresAt = None\<rparr>,
       g_active := mset_at (g_active g) key ?a\<rparr>)) k
     \<longleftrightarrow> running (g\<lparr>g_logical := mset_at ?l key \<lparr>le_active = True, le_expiresAt = None\<rparr>,
       g_active := mset_at (g_active g) key ?a\<rparr>) k"
      using p(9) [of k] by (auto simp: mhas_iff running_def mget_set_at)
  next
    fix k' c' k'' a'
    assume "mget (g_cancellations (g\<lparr>g_logical := mset_at ?l key \<lparr>le_active = True, le_expiresAt = None\<rparr>,
       g_active := mset_at (g_active g) key ?a\<rparr>)) k' = Some c'"
     "mget (g_active (g\<lparr>g_logical := mset_at ?l key \<lparr>le_active = True, le_expiresAt = None\<rparr>,
       g_active := mset_at (g_active g) key ?a\<rparr>)) k'' = Some a'"
    thus "\<not> work_hit c' a'" using f(10) not_cancelled [OF d(1) f(3)]
      by (auto simp: mget_set_at split: if_splits)
  qed (use p f d(2,3) in \<open>auto simp: mwf_set_at msize_set_at\<close>)
qed (use assms prune_guard_inv [OF assms, of now] in \<open>auto simp: claim_work_def Let_def split: if_splits\<close>)

lemma mhas_delete: "mhas (mdelete m k) k' \<longleftrightarrow> k' \<noteq> k \<and> mhas m k'"
  by (simp add: mhas_iff mget_delete)

lemma complete_work_inv:
  assumes "guard_inv g"
  shows "guard_inv (snd (complete_work g key now))"
proof (cases "g_final g \<or> \<not> mhas (g_active g) key")
  case True
  thus ?thesis using assms by (auto simp: complete_work_def)
next
  case False
  note f = guard_invD [OF assms]
  have r: "running g key" using False f(9) by simp
  hence h: "mget (g_logical g) key \<noteq> None" by (auto simp: running_def)
  have e: "snd (complete_work g key now) = g\<lparr>g_active := mdelete (g_active g) key,
      g_logical := mset_at (g_logical g) key (tombstone now)\<rparr>"
    using False h by (simp add: complete_work_def Let_def mhas_iff)
  show ?thesis unfolding e
  proof (rule guard_invI)
    show "mhas (g_active (g\<lparr>g_active := mdelete (g_active g) key,
        g_logical := mset_at (g_logical g) key (tombstone now)\<rparr>)) k
      \<longleftrightarrow> running (g\<lparr>g_active := mdelete (g_active g) key,
        g_logical := mset_at (g_logical g) key (tombstone now)\<rparr>) k" for k
      using f(9) [of k] by (auto simp: mhas_delete running_def mget_set_at tombstone_def)
  qed (use f h in \<open>auto simp: mwf_set_at mwf_delete msize_set_at mget_set_at mget_delete tombstone_def
        logical_ok_def split: if_splits\<close>)
qed

subsection \<open>Cancellation\<close>

lemma mget_bury:
  "mget (bury now ks m) k = (case mget m k of None \<Rightarrow> None | Some e \<Rightarrow> Some (if k \<in> set ks then tombstone now else e))"
  by (induction ks arbitrary: m) (auto simp: mhas_iff mget_set_at split: option.splits)

lemma bury_facts: "mwf m \<Longrightarrow> mwf (bury now ks m) \<and> msize (bury now ks m) = msize m"
  by (induction ks arbitrary: m) (auto simp: mhas_iff mwf_set_at msize_set_at)

lemma aborted_keys:
  assumes "mwf m"
  shows "k \<in> set (map fst (filter (\<lambda>(k, a). P a) m)) \<longleftrightarrow> (\<exists>a. mget m k = Some a \<and> P a)"
  using mget_in [OF assms] by force

lemma mwf_drop: "mwf m \<Longrightarrow> mwf (drop n m)"
  by (simp add: mwf_def flip: drop_map)

lemma mget_drop: "mwf m \<Longrightarrow> mget (drop n m) k = Some v \<Longrightarrow> mget m k = Some v"
  using mget_in [of m k v] mget_in [of "drop n m" k v] mwf_drop [of m n] set_drop_subset [of n m] by auto

lemma mget_drop_None: "mwf m \<Longrightarrow> mget m k = None \<Longrightarrow> mget (drop n m) k = None"
  using mget_drop [of m n k] by (cases "mget (drop n m) k") auto

lemma cancel_cases:
  "fst (cancel_work g s v now) = CaAccepted ks s' d \<longleftrightarrow>
   (\<exists>parsed. parseDiscussionV2Command v = Some (CCancel parsed) \<and> \<not> g_final g \<and> bounded_string 128 s \<and> s' = s
     \<and> d = str_field parsed ''discussionId''
     \<and> (let c = \<lparr>ca_senderId = s, ca_discussionId = d, ca_stateVersion = int_field parsed ''stateVersion'',
              ca_round = int_field parsed ''round''\<rparr>
        in mget (g_cancellations g) (cancelKey c) = None
          \<and> ks = map fst (filter (\<lambda>(k, a). work_hit c a) (g_active g))))"
  by (auto simp: cancel_work_def Let_def mhas_iff split: option.splits v2_command.splits if_splits)

lemma cancel_state:
  "snd (cancel_work g s v now) = g \<or>
   (\<exists>c. mget (g_cancellations g) (cancelKey c) = None \<and> ca_senderId c = s \<and> snd (cancel_work g s v now) =
      g\<lparr>g_cancellations := mset_at (if msize (g_cancellations g) \<ge> maxCancelTombstones
           then drop 1 (g_cancellations g) else g_cancellations g) (cancelKey c) c,
        g_active := mdelete_where (\<lambda>k a. work_hit c a) (g_active g),
        g_logical := bury now (map fst (filter (\<lambda>(k, a). work_hit c a) (g_active g))) (g_logical g),
        g_acks := mdelete_where (\<lambda>k (a, t). ack_hit c a) (g_acks g)\<rparr>)"
  by (force simp: cancel_work_def Let_def mhas_iff split: option.splits v2_command.splits)

lemma cancel_work_inv:
  assumes "guard_inv g"
  shows "guard_inv (snd (cancel_work g s v now))"
  using cancel_state [of g s v now]
proof (elim disjE exE conjE)
  assume "snd (cancel_work g s v now) = g"
  thus ?thesis using assms by simp
next
  fix c
  let ?cs = "g_cancellations g"
  let ?kept = "if msize ?cs \<ge> maxCancelTombstones then drop 1 ?cs else ?cs"
  let ?ab = "map fst (filter (\<lambda>(k, a). work_hit c a) (g_active g))"
  let ?g = "g\<lparr>g_cancellations := mset_at ?kept (cancelKey c) c,
        g_active := mdelete_where (\<lambda>k a. work_hit c a) (g_active g),
        g_logical := bury now ?ab (g_logical g),
        g_acks := mdelete_where (\<lambda>k (a, t). ack_hit c a) (g_acks g)\<rparr>"
  assume n: "mget ?cs (cancelKey c) = None" and e: "snd (cancel_work g s v now) = ?g"
  note f = guard_invD [OF assms]
  have kept: "mwf ?kept" "mget ?kept (cancelKey c) = None" "msize ?kept < maxCancelTombstones"
    using f(3,6) n mwf_drop mget_drop_None by (auto simp: msize_def maxCancelTombstones_def)
  have old: "mget ?kept k = Some x \<Longrightarrow> mget ?cs k = Some x" for k x
    using mget_drop [OF f(3)] by (auto split: if_splits)
  show ?thesis unfolding e
  proof (rule guard_invI)
    show "mhas (g_active ?g) k \<longleftrightarrow> running ?g k" for k
      using f(9) [of k] aborted_keys [OF f(2), of k "work_hit c"]
      by (auto simp: mhas_iff mget_delete_where [OF f(2)] running_def mget_bury tombstone_def
          split: option.splits if_splits)
    show "mget (g_logical ?g) k = Some en \<Longrightarrow> logical_ok en" for k en
      using f(8) [of k] by (auto simp: mget_bury logical_ok_def tombstone_def split: option.splits if_splits)
    show "mget (g_cancellations ?g) k = Some x \<Longrightarrow> mget (g_active ?g) k' = Some a \<Longrightarrow> \<not> work_hit x a" for k x k' a
      using f(10) [of k x k' a] old [of k x]
      by (auto simp: mget_set_at mget_delete_where [OF f(2)] split: option.splits if_splits)
    show "msize (g_acks ?g) \<le> maxPendingAcks"
      using f(7) by (simp add: le_trans [OF msize_delete_where])
  qed (use f kept bury_facts [OF f(1)] in \<open>simp_all add: mwf_set_at mwf_delete_where msize_set_at Suc_leI\<close>)
qed

subsection \<open>Acknowledgements\<close>

lemma pruneAcks_facts: "mwf m \<Longrightarrow> mwf (pruneAcks now m) \<and> msize (pruneAcks now m) \<le> msize m"
  unfolding pruneAcks_def by (simp add: mwf_delete_where msize_delete_where)

lemma register_inv:
  assumes "guard_inv g"
  shows "guard_inv (snd (registerArtifactAck g a now))"
proof -
  note f = guard_invD [OF assms] and p = pruneAcks_facts [OF guard_invD(4) [OF assms], of now]
  have "guard_inv (g\<lparr>g_acks := pruneAcks now (g_acks g)\<rparr>)"
    using f p by (intro guard_inv_acks assms) auto
  moreover have "msize (pruneAcks now (g_acks g)) < maxPendingAcks \<Longrightarrow>
      guard_inv (g\<lparr>g_acks := mset_at (pruneAcks now (g_acks g)) k x\<rparr>)" for k x
    using p by (intro guard_inv_acks assms) (auto simp: mwf_set_at msize_set_at)
  ultimately show ?thesis using assms by (simp add: registerArtifactAck_def Let_def not_le)
qed

lemma accept_ack_inv:
  assumes "guard_inv g"
  shows "guard_inv (snd (acceptArtifactAck g s v now))"
proof -
  note f = guard_invD [OF assms]
  have "guard_inv (g\<lparr>g_acks := mdelete (g_acks g) k\<rparr>)" for k
    by (rule guard_inv_acks [OF assms mwf_delete [OF f(4)] le_trans [OF msize_delete_le f(7)]])
  thus ?thesis using assms
    by (simp add: acceptArtifactAck_def Let_def split: option.split v2_command.split prod.split)
qed

lemma guard_step_inv: "guard_inv g \<Longrightarrow> guard_inv (guard_step g ev)"
proof (cases ev)
  case (GCount now)
  assume "guard_inv g"
  thus ?thesis using GCount pruneAcks_facts [OF guard_invD(4), of g now] guard_invD(7) [of g]
    by (auto simp: pendingAckCount_def Let_def intro!: guard_inv_acks)
next
  case GDispose
  assume "guard_inv g"
  thus ?thesis using GDispose
    by (auto simp: dispose_guard_def guard_inv_def running_def mhas_iff)
qed (simp_all add: claim_work_inv complete_work_inv cancel_work_inv register_inv accept_ack_inv)

lemma new_guard_inv: "guard_inv new_guard"
  by (simp add: guard_inv_def new_guard_def running_def mhas_iff)

lemma final_kept: "g_final g \<Longrightarrow> g_final (guard_step g ev)"
  by (cases ev) (simp_all add: claim_work_def complete_work_def cancel_work_def registerArtifactAck_def
      acceptArtifactAck_def pendingAckCount_def dispose_guard_def Let_def)

interpretation dg: latching_machine new_guard guard_step guard_inv g_final
  by unfold_locales (simp_all add: new_guard_inv guard_step_inv final_kept)

end
