(* ===== verification/GuardTheorems.thy ===== *)
theory GuardTheorems imports GuardProofs Ascii begin

text \<open>The properties of the discussion guard, each with a run at concrete inputs.\<close>

subsection \<open>Tombstones\<close>

definition held :: "int \<Rightarrow> jstr \<Rightarrow> guard \<Rightarrow> bool" where
  "held t k g \<longleftrightarrow> g_final g \<or> (\<exists>e. mget (g_logical g) k = Some e
     \<and> (\<forall>x. le_expiresAt e = Some x \<longrightarrow> t + logicalTombstoneTtlMs \<le> x))"

definition within :: "int \<Rightarrow> guard_event \<Rightarrow> bool" where
  "within t ev \<longleftrightarrow> (case guard_clock ev of None \<Rightarrow> True | Some c \<Rightarrow> t \<le> c \<and> c < t + logicalTombstoneTtlMs)"

lemma held_prune:
  assumes "guard_inv g" "held t k g" "\<not> g_final g" "now < t + logicalTombstoneTtlMs"
  shows "\<exists>e. mget (pruneLogical now (g_logical g)) k = Some e
    \<and> (\<forall>x. le_expiresAt e = Some x \<longrightarrow> t + logicalTombstoneTtlMs \<le> x)"
proof -
  obtain e where e: "mget (g_logical g) k = Some e"
      "\<forall>x. le_expiresAt e = Some x \<longrightarrow> t + logicalTombstoneTtlMs \<le> x"
    using assms(2,3) by (auto simp: held_def)
  hence "logical_ok e" using guard_invD(8) [OF assms(1)] by blast
  hence "mget (pruneLogical now (g_logical g)) k = Some e"
    using e assms(4) by (auto simp: mget_pruneLogical [OF guard_invD(1) [OF assms(1)]] logical_ok_def split: option.split)
  with e show ?thesis by blast
qed

lemma claim_logical: "g_logical (snd (claim_work g s c n now)) = g_logical g
  \<or> (\<not> g_final g \<and> (\<exists>k e. mget (pruneLogical now (g_logical g)) k = None
      \<and> g_logical (snd (claim_work g s c n now)) = mset_at (pruneLogical now (g_logical g)) k e))
  \<or> (\<not> g_final g \<and> g_logical (snd (claim_work g s c n now)) = pruneLogical now (g_logical g))"
  by (auto simp: claim_work_def Let_def mhas_iff)

lemma complete_logical: "g_logical (snd (complete_work g key now)) = g_logical g
  \<or> g_logical (snd (complete_work g key now)) = mset_at (g_logical g) key (tombstone now)"
  by (auto simp: complete_work_def Let_def)

lemma held_cong: "g_logical g' = g_logical g \<Longrightarrow> g_final g' = g_final g \<Longrightarrow> held t k g' = held t k g"
  by (simp add: held_def)

lemma heldI: "mget (g_logical g) k = Some e \<Longrightarrow> (\<And>x. le_expiresAt e = Some x \<Longrightarrow> t + logicalTombstoneTtlMs \<le> x)
  \<Longrightarrow> held t k g"
  by (auto simp: held_def)

lemma held_claim:
  assumes "guard_inv g" "held t k g" "\<not> g_final g" "now < t + logicalTombstoneTtlMs"
  shows "held t k (snd (claim_work g s c n now))"
proof -
  obtain e where e: "mget (pruneLogical now (g_logical g)) k = Some e"
     "\<forall>x. le_expiresAt e = Some x \<longrightarrow> t + logicalTombstoneTtlMs \<le> x"
    using held_prune [OF assms] by blast
  consider (a) "g_logical (snd (claim_work g s c n now)) = g_logical g"
    | (b) k' e' where "mget (pruneLogical now (g_logical g)) k' = None"
        "g_logical (snd (claim_work g s c n now)) = mset_at (pruneLogical now (g_logical g)) k' e'"
    | (c) "g_logical (snd (claim_work g s c n now)) = pruneLogical now (g_logical g)"
    using claim_logical [of g s c n now] by blast
  thus ?thesis
  proof cases
    case a
    obtain e0 where "mget (g_logical g) k = Some e0"
        "\<forall>x. le_expiresAt e0 = Some x \<longrightarrow> t + logicalTombstoneTtlMs \<le> x"
      using assms(2,3) by (auto simp: held_def)
    with a show ?thesis by (intro heldI [of _ k e0]) simp_all
  next
    case b
    hence "k' \<noteq> k" using e by auto
    thus ?thesis using b e by (intro heldI [of _ k e]) (simp_all add: mget_set_at)
  next
    case c
    thus ?thesis using e by (intro heldI [of _ k e]) simp_all
  qed
qed

lemma held_complete:
  assumes "held t k g" "t \<le> now"
  shows "held t k (snd (complete_work g key now))"
  using assms by (auto simp: held_def complete_work_def Let_def mget_set_at tombstone_def)

lemma held_cancel:
  assumes "held t k g" "t \<le> now"
  shows "held t k (snd (cancel_work g s v now))"
  using cancel_state [of g s v now] assms
  by (elim disjE exE conjE) (auto simp: held_def mget_bury tombstone_def split: if_splits)

lemma held_step:
  assumes "guard_inv g" "held t k g" "within t ev"
  shows "held t k (guard_step g ev)"
proof (cases "g_final g")
  case True
  thus ?thesis using final_kept by (simp add: held_def)
next
  case False
  show ?thesis
  proof (cases ev)
    case (GRegister a now)
    thus ?thesis using assms(2) by (auto simp: held_def registerArtifactAck_def Let_def)
  next
    case (GAck s v now)
    thus ?thesis using assms(2)
      by (auto simp: held_def acceptArtifactAck_def Let_def split: option.split v2_command.split prod.split)
  next
    case (GCount now)
    thus ?thesis using assms(2) by (simp add: held_def pendingAckCount_def Let_def)
  next
    case GDispose
    thus ?thesis by (simp add: held_def dispose_guard_def)
  qed (use assms False in \<open>simp_all add: within_def held_claim held_complete held_cancel\<close>)
qed

lemma held_run:
  assumes "guard_inv g" "held t k g" "list_all (within t) evs"
  shows "held t k (run_steps guard_step g evs)"
  using assms by (induction evs arbitrary: g) (simp_all add: held_step guard_step_inv)

lemma held_refused:
  assumes "guard_inv g" "held t k g" "now < t + logicalTombstoneTtlMs"
  shows "fst (claim_work g s c n now) \<noteq> ClAccepted k"
proof
  assume a: "fst (claim_work g s c n now) = ClAccepted k"
  hence "\<not> g_final g" "mget (pruneLogical now (g_logical g)) k = None"
    by (auto simp: claim_work_def Let_def mhas_iff split: if_splits)
  with held_prune [OF assms(1,2) _ assms(3)] show False by auto
qed

lemma accepted_held:
  assumes "claim_work g s c n now = (ClAccepted k, g')"
  shows "held t k g'"
  using assms by (auto simp: claim_work_def Let_def held_def mget_set_at split: if_splits)

subsection \<open>Cancellations\<close>








subsection \<open>Properties\<close>

definition no_cancelled_work :: "guard \<Rightarrow> bool" where
  "no_cancelled_work g \<longleftrightarrow>
     list_all (\<lambda>p. list_all (\<lambda>q. \<not> work_hit (snd q) (snd p)) (g_cancellations g)) (g_active g)"

lemma guard_inv_consequences:
  assumes "guard_inv g"
  shows "msize (g_logical g) \<le> maxLogicalTombstones \<and> msize (g_active g) \<le> maxLogicalTombstones
    \<and> msize (g_cancellations g) \<le> maxCancelTombstones \<and> msize (g_acks g) \<le> maxPendingAcks \<and> no_cancelled_work g"
proof -
  note f = guard_invD [OF assms]
  have "fst ` set (g_active g) \<subseteq> fst ` set (g_logical g)"
  proof
    fix k assume "k \<in> fst ` set (g_active g)"
    hence "running g k" using f(9) by (simp add: mhas_fst)
    thus "k \<in> fst ` set (g_logical g)" unfolding mhas_fst [symmetric] by (auto simp: running_def mhas_iff)
  qed
  hence "card (fst ` set (g_active g)) \<le> card (fst ` set (g_logical g))" by (intro card_mono) auto
  moreover have "card (fst ` set (g_active g)) = msize (g_active g)"
    using distinct_card [of "map fst (g_active g)"] f(2) by (simp add: msize_def mwf_def)
  moreover have "card (fst ` set (g_logical g)) = msize (g_logical g)"
    using distinct_card [of "map fst (g_logical g)"] f(1) by (simp add: msize_def mwf_def)
  ultimately have "msize (g_active g) \<le> maxLogicalTombstones" using f(5) by linarith
  moreover have "no_cancelled_work g" unfolding no_cancelled_work_def list_all_iff
  proof (intro ballI)
    fix p q assume "p \<in> set (g_active g)" "q \<in> set (g_cancellations g)"
    hence "mget (g_active g) (fst p) = Some (snd p)" "mget (g_cancellations g) (fst q) = Some (snd q)"
      using mget_in [OF f(2), of "fst p" "snd p"] mget_in [OF f(3), of "fst q" "snd q"] by simp_all
    thus "\<not> work_hit (snd q) (snd p)" by (intro f(10))
  qed
  ultimately show ?thesis using f(5-7) by simp
qed

text \<open>Whatever commands, cancellations and acknowledgements arrive, the guard's memory is bounded and no
  work that was cancelled is still active.\<close>

theorem guard_bounded_and_consistent:
  "msize (g_logical (run_steps guard_step new_guard events)) \<le> maxLogicalTombstones
    \<and> msize (g_active (run_steps guard_step new_guard events)) \<le> maxLogicalTombstones
    \<and> msize (g_cancellations (run_steps guard_step new_guard events)) \<le> maxCancelTombstones
    \<and> msize (g_acks (run_steps guard_step new_guard events)) \<le> maxPendingAcks
    \<and> no_cancelled_work (run_steps guard_step new_guard events)"
  using guard_inv_consequences [OF dg.run_inv [of events]] by blast

text \<open>C9 Work is accepted at most once: within ten minutes of accepting a piece of logical work, nothing that
  happens to the guard makes it accept the same work again.\<close>

theorem work_accepted_once:
  assumes "guard_inv g" "claim_work g s c n t = (ClAccepted k, g')" "list_all (within t) events"
    "now < t + logicalTombstoneTtlMs"
  shows "fst (claim_work (run_steps guard_step g' events) s' c' n' now) \<noteq> ClAccepted k"
proof (rule held_refused [OF _ _ assms(4)])
  have i: "guard_inv g'" using claim_work_inv [OF assms(1), of s c n t] assms(2) by simp
  show "guard_inv (run_steps guard_step g' events)" by (rule dg.run_from_inv [OF i])
  show "held t k (run_steps guard_step g' events)"
    by (rule held_run [OF i accepted_held [OF assms(2)] assms(3)])
qed


text \<open>An acknowledgement is accepted only if it was awaited, in time and for the awaited version, and
  only once.\<close>

theorem acknowledgement_accepted_once:
  assumes "guard_inv g" "acceptArtifactAck g s v now = (AkAccepted, g')"
  shows "(\<exists>k a t. mget (g_acks g) k = Some (a, t) \<and> now < t \<and> mget (g_acks g') k = None
      \<and> (\<exists>parsed. parseDiscussionV2Command v = Some (CArtifactAck parsed)
           \<and> ax_artifactVersion a = int_field parsed ''artifactVersion''))
    \<and> acceptArtifactAck g' s v later = (AkUnknown, g')"
proof -
  obtain parsed where p: "parseDiscussionV2Command v = Some (CArtifactAck parsed)" "\<not> g_final g" "bounded_string 128 s"
    using assms(2) by (auto simp: acceptArtifactAck_def split: if_splits option.splits v2_command.splits)
  let ?k = "ackKey s (str_field parsed ''discussionId'') (str_field parsed ''requestId'')
     (int_field parsed ''stateVersion'') (int_field parsed ''round'') (str_field parsed ''updateId'')"
  obtain a t where a: "mget (g_acks g) ?k = Some (a, t)" "now < t"
      "ax_artifactVersion a = int_field parsed ''artifactVersion''" "g' = g\<lparr>g_acks := mdelete (g_acks g) ?k\<rparr>"
    using assms(2) p by (auto simp: acceptArtifactAck_def Let_def split: if_splits option.splits)
  have "mget (g_acks g') ?k = None" by (simp add: a(4) mget_delete)
  moreover have "acceptArtifactAck g' s v later = (AkUnknown, g')"
    using p a(4) calculation by (simp add: acceptArtifactAck_def Let_def)
  ultimately show ?thesis using a p(1) by blast
qed

subsection \<open>Runs at concrete inputs\<close>

definition base_sample :: "string \<Rightarrow> int \<Rightarrow> jobj" where
  "base_sample kind version = [(js ''msg_type'', JLit kind), (js ''protocolVersion'', JInt 2),
     (js ''discussionId'', JLit ''d''), (js ''chatroomId'', JLit ''c''), (js ''requestId'', JLit ''r''),
     (js ''stateVersion'', JInt version), (js ''round'', JInt 1), (js ''timestamp'', JInt 9)]"

definition work_sample :: jobj where
  "work_sample = base_sample ''discussion_assignment'' 3 @ [(js ''targetId'', JLit ''n'')]"


definition ack_sample :: jobj where
  "ack_sample = base_sample ''discussion_artifact_ack'' 3 @ [(js ''updateId'', JLit ''u''),
     (js ''idempotencyKey'', JLit ''u''), (js ''artifactId'', JLit ''a''), (js ''artifactVersion'', JInt 2)]"

definition expectation_sample :: ack_expectation where
  "expectation_sample = \<lparr>ax_senderId = js ''s'', ax_discussionId = js ''d'', ax_requestId = js ''r'',
     ax_stateVersion = 3, ax_round = 1, ax_updateId = js ''u'', ax_artifactId = None, ax_artifactVersion = 2\<rparr>"


lemma ack_sample_parsed: "parseDiscussionV2Command (JObj ack_sample) = Some (CArtifactAck ack_sample)"
  by (simp add: parseDiscussionV2Command_def parseArtifactAck_def ack_sample_def base_sample_def commandBaseKeys_def
      baseValid_def check_eval)

lemma work_sample_claim:
  "\<exists>g'. claim_work new_guard (js ''s'') work_sample (js ''n'') 1000
     = (ClAccepted (discussionV2LogicalKey (js ''s'') work_sample), g')"
  by (simp add: claim_work_def new_guard_def isCancelled_def work_sample_def base_sample_def check_eval
      pruneLogical_def mdelete_where_def mhas_iff maxLogicalTombstones_def Let_def)

lemma work_accepted_once_witness:
  "\<exists>g'. fst (claim_work (run_steps guard_step g' [GComplete (js ''k'') 2000]) (js ''s'') work_sample (js ''n'') 3000)
     \<noteq> ClAccepted (discussionV2LogicalKey (js ''s'') work_sample)"
proof -
  obtain g' where g': "claim_work new_guard (js ''s'') work_sample (js ''n'') 1000
     = (ClAccepted (discussionV2LogicalKey (js ''s'') work_sample), g')"
    using work_sample_claim by blast
  have "fst (claim_work (run_steps guard_step g' [GComplete (js ''k'') 2000]) (js ''s'') work_sample (js ''n'') 3000)
     \<noteq> ClAccepted (discussionV2LogicalKey (js ''s'') work_sample)"
    by (rule work_accepted_once [OF new_guard_inv g']) (simp_all add: within_def logicalTombstoneTtlMs_def)
  thus ?thesis by blast
qed



lemma acknowledgement_accepted_once_witness:
  "\<exists>g g'. acceptArtifactAck g (js ''s'') (JObj ack_sample) 1500 = (AkAccepted, g')
     \<and> acceptArtifactAck g' (js ''s'') (JObj ack_sample) 1600 = (AkUnknown, g')"
proof -
  let ?g = "guard_step new_guard (GRegister expectation_sample 1000)"
  have i: "guard_inv ?g" by (rule guard_step_inv [OF new_guard_inv])
  have b: "bounded_string 128 (js ''s'')" "bounded_string 128 (js ''d'')" "bounded_string 128 (js ''r'')"
      "bounded_string 128 (js ''u'')" by (simp_all add: check_eval)
  have g: "g_acks ?g = [(ackKey (js ''s'') (js ''d'') (js ''r'') 3 1 (js ''u''), (expectation_sample, 16000))]"
      "\<not> g_final ?g"
    using b by (simp_all add: registerArtifactAck_def new_guard_def validAckExpectation_def expectation_sample_def
        pruneAcks_def mdelete_where_def mhas_iff maxPendingAcks_def mset_at_def ackTimeoutMs_def max_safe_def)
  have s: "str_field ack_sample ''discussionId'' = js ''d''" "str_field ack_sample ''requestId'' = js ''r''"
      "int_field ack_sample ''stateVersion'' = 3" "int_field ack_sample ''round'' = 1"
      "str_field ack_sample ''updateId'' = js ''u''" "int_field ack_sample ''artifactVersion'' = 2"
    by (simp_all add: ack_sample_def base_sample_def check_eval)
  obtain g' where a: "acceptArtifactAck ?g (js ''s'') (JObj ack_sample) 1500 = (AkAccepted, g')"
    using g b s by (simp add: acceptArtifactAck_def ack_sample_parsed mget_def expectation_sample_def Let_def)
  with acknowledgement_accepted_once [OF i a, of 1600] show ?thesis by blast
qed

end
