(* ===== verification/V2Theorems.thy ===== *)
theory V2Theorems imports V2Messages "HOL-Library.Multiset" begin

text \<open>
  The properties of the second discussion protocol: what a host may decide, which role plans are
  accepted and what the model catalogue answers.
\<close>

subsection \<open>Decisions\<close>

lemma decision_step_Inr:
  assumes "decision_step turn value = Inr d"
  shows "d = value \<and> (\<exists>a \<in> set host_actions. field value ''action'' = Some (JLit a))
    \<and> (is_lit (field value ''action'') ''checkpoint'' \<longrightarrow> checkpoint_ok turn value)
    \<and> (is_lit (field value ''action'') ''assign'' \<longrightarrow>
         (\<exists>role. role_of turn (str_field value ''targetNodeId'') = Some role
            \<and> JLit ''discussion_participant'' \<in> set (arr_field role ''capabilities'')))
    \<and> (is_lit (field value ''action'') ''finish'' \<longrightarrow> validArtifact (field value ''artifact'')
         \<and> field (obj_field value ''artifact'') ''baseVersion''
             = expected_base turn (field (obj_field value ''artifact'') ''artifactType''))"
  using assms unfolding decision_step_def Let_def
  by (auto simp: is_lit_def host_actions_def split: if_splits option.splits)

text \<open>A host decision that is accepted is one the turn allows: its action is among the allowed ones, work is
  only assigned to a participant of the role snapshot, a checkpoint comes only in a summary phase and
  reports only on members that are not the host, and an artifact continues the current version.\<close>

theorem host_decision_is_allowed:
  assumes "parseHostDecision cv txt turn = Inr d"
  shows "json_parse cv (trim txt) = Some (JObj d)
    \<and> (\<exists>a \<in> set host_actions. field d ''action'' = Some (JLit a) \<and> JLit a \<in> set (arr_field turn ''allowedDecisions''))
    \<and> (is_lit (field d ''action'') ''assign'' \<longrightarrow>
         (\<exists>role. role_of turn (str_field d ''targetNodeId'') = Some role
            \<and> JLit ''discussion_participant'' \<in> set (arr_field role ''capabilities'')))
    \<and> (is_lit (field d ''action'') ''checkpoint'' \<longrightarrow> is_lit (field turn ''phase'') ''round_summary''
         \<and> list_all (position_ok turn) (arr_field d ''memberPositions''))
    \<and> (is_lit (field d ''action'') ''finish'' \<longrightarrow>
         field (obj_field d ''artifact'') ''baseVersion''
           = expected_base turn (field (obj_field d ''artifact'') ''artifactType''))"
proof -
  obtain ob where p: "json_parse cv (trim txt) = Some (JObj ob)" "decision_step turn ob = Inr d"
      and a: "case field ob ''action'' of
                Some (JStr a) \<Rightarrow> JStr a \<in> set (arr_field turn ''allowedDecisions'') | _ \<Rightarrow> False"
    using assms by (auto simp: parseHostDecision_def split: option.splits json.splits if_splits)
  note s = decision_step_Inr [OF p(2)]
  have "\<exists>x \<in> set host_actions. field d ''action'' = Some (JLit x) \<and> JLit x \<in> set (arr_field turn ''allowedDecisions'')"
    using s a by auto
  moreover have "is_lit (field d ''action'') ''checkpoint'' \<Longrightarrow> is_lit (field turn ''phase'') ''round_summary''
      \<and> list_all (position_ok turn) (arr_field d ''memberPositions'')"
    using s by (auto simp: checkpoint_ok_def arr_test_iff arr_field_def)
  ultimately show ?thesis using p(1) s by auto
qed

definition turn_sample :: jobj where
  "turn_sample = [(js ''allowedDecisions'', JArr [JLit ''fail''])]"

definition fail_sample :: jobj where
  "fail_sample = [(js ''action'', JLit ''fail''), (js ''reason'', JLit ''no'')]"

lemma trim_printed_object: "trim (stringify (JObj ob)) = stringify (JObj ob)"
proof -
  have "\<not> is_ws 123" "\<not> is_ws 125" by (simp_all add: is_ws_def)
  hence "trimmed (stringify (JObj ob))" by (simp add: trimmed_iff)
  thus ?thesis by (simp add: trimmed_def)
qed

lemma fail_sample_wf: "wf_json cv (JObj fail_sample)"
proof -
  have "build_obj fail_sample = fail_sample"
    by (rule build_obj_plain) (simp_all add: fail_sample_def not_index_js)
  thus ?thesis by (simp add: fail_sample_def)
qed

lemma host_decision_is_allowed_witness:
  "parseHostDecision (\<lambda>_. NInt 0) (stringify (JObj fail_sample)) turn_sample = Inr fail_sample
    \<and> JLit ''fail'' \<in> set (arr_field turn_sample ''allowedDecisions'')"
proof -
  have p: "parseHostDecision (\<lambda>_. NInt 0) (stringify (JObj fail_sample)) turn_sample = Inr fail_sample"
    unfolding parseHostDecision_def trim_printed_object parse_stringify [OF fail_sample_wf]
    by (simp add: validPublicPlan_def decision_step_def fail_sample_def turn_sample_def check_eval)
  from host_decision_is_allowed [OF p] p show ?thesis by (auto simp: fail_sample_def)
qed

subsection \<open>Role plans\<close>

definition device_fits :: "(jstr, role_candidate) jsmap \<Rightarrow> recommended \<Rightarrow> bool" where
  "device_fits cs r \<longleftrightarrow>
     (if msize cs = 0 then rr_device r = None
      else case rr_device r of
        None \<Rightarrow> False
      | Some (node, model) \<Rightarrow> (case mget cs node of
          None \<Rightarrow> False | Some c \<Rightarrow> model = JNull \<or> model \<in> set (rc_models c)))"

lemma parse_roles_facts:
  "parse_roles fold_name cs names vs = Some rs \<Longrightarrow> length rs = length vs
     \<and> distinct (map (\<lambda>r. fold_name (rr_roleName r)) rs)
     \<and> set (map (\<lambda>r. fold_name (rr_roleName r)) rs) \<inter> set names = {}
     \<and> list_all (device_fits cs) rs \<and> list_all (\<lambda>r. rr_roleName r \<noteq> [] \<and> rr_rolePrompt r \<noteq> []) rs"
proof (induction fold_name cs names vs arbitrary: rs rule: parse_roles.induct)
  case (2 fold_name cs names role rest)
  let ?d = "0 < msize cs" and ?n = "fold_name (trim (str_field role ''role_name''))"
  let ?r = "\<lparr>rr_roleName = trim (str_field role ''role_name''), rr_rolePrompt = trim (str_field role ''role_prompt''),
     rr_device = (if ?d then Some (str_field role ''node_id'', the (field role ''model'')) else None),
     rr_speakingOrder = int_field role ''speaking_order''\<rparr>"
  from "2.prems" obtain qs where q: "role_fields_ok ?d role" "?n \<notin> set names" "?d \<Longrightarrow> device_ok cs role"
      "parse_roles fold_name cs (?n # names) rest = Some qs" "rs = ?r # qs"
    by (auto simp: Let_def split: if_splits)
  have c: "role_fields_ok ?d role \<and> ?n \<notin> set names \<and> (?d \<longrightarrow> device_ok cs role)" using q(1-3) by blast
  note ih = "2.IH" [OF refl refl c q(4)]
  have "device_fits cs ?r"
    using q(3) by (cases "msize cs = 0") (auto simp: device_fits_def device_ok_def split: option.splits)
  moreover have "rr_roleName ?r \<noteq> [] \<and> rr_rolePrompt ?r \<noteq> []" using q(1) by (simp add: role_fields_ok_def)
  ultimately show ?case unfolding q(5) using ih q(2) by auto
qed simp_all

lemma map_sort_key: "map f (sort_key f xs) = sort (map f xs)"
  by (rule properties_for_sort [symmetric]) simp_all

text \<open>A role plan that is accepted is usable as it is: its speaking orders are 0, 1, 2, and so on in list
  order, its names are non-empty and pairwise different even after folding, and every role runs on a
  candidate with a model that candidate offers (or names no device, when none was offered).\<close>

theorem role_plan_is_complete:
  assumes "parseRoleRecommendationResponse fold_name v request = Some plan"
  shows "1 \<le> length plan \<and> int (length plan) \<le> rq_maxRoles request
    \<and> map rr_speakingOrder plan = map int [0..<length plan]
    \<and> distinct (map (\<lambda>r. fold_name (rr_roleName r)) plan)
    \<and> list_all (\<lambda>r. rr_roleName r \<noteq> [] \<and> rr_rolePrompt r \<noteq> []) plan
    \<and> list_all (device_fits (candidate_map (rq_candidates request))) plan"
proof -
  obtain ob rs where v: "v = JObj ob"
      "arr_test (\<lambda>rs. 1 \<le> length rs \<and> int (length rs) \<le> rq_maxRoles request) (field ob ''roles'')"
      "parse_roles fold_name (candidate_map (rq_candidates request)) [] (arr_field ob ''roles'') = Some rs"
      "sort (map rr_speakingOrder rs) = map int [0..<length (sort (map rr_speakingOrder rs))]"
      "plan = sort_key rr_speakingOrder rs"
    using assms by (auto simp: parseRoleRecommendationResponse_def Let_def split: json.splits if_splits option.splits)
  note f = parse_roles_facts [OF v(3)]
  have l: "length plan = length rs" "set plan = set rs" by (simp_all add: v(5))
  have "1 \<le> length plan \<and> int (length plan) \<le> rq_maxRoles request"
    using v(2) f l(1) by (auto simp: arr_test_iff arr_field_def)
  moreover have "map rr_speakingOrder plan = map int [0..<length plan]"
    using v(4) l(1) by (simp add: v(5) map_sort_key)
  moreover have "distinct (map (\<lambda>r. fold_name (rr_roleName r)) plan)"
    using f by (simp add: v(5) distinct_map)
  ultimately show ?thesis using f l(2) by (simp add: list_all_iff)
qed

definition plan_sample :: json where
  "plan_sample = JObj [(js ''roles'', JArr [JObj [(js ''role_name'', JLit ''critic''), (js ''role_prompt'', JLit ''p''),
     (js ''speaking_order'', JInt 0)]])]"

definition request_sample_v2 :: role_request where
  "request_sample_v2 = \<lparr>rq_requestId = js ''r'', rq_topic = js ''t'', rq_goal = [], rq_maxRoles = 3, rq_candidates = [],
     rq_prompt = [], rq_configVersion = 0\<rparr>"

lemma role_plan_is_complete_witness:
  "\<exists>plan. parseRoleRecommendationResponse id plan_sample request_sample_v2 = Some plan
     \<and> map rr_speakingOrder plan = map int [0..<length plan]"
proof -
  have t: "trim (js ''critic'') = js ''critic''" "trim (js ''p'') = js ''p''" by (simp_all add: trim_plain plain_char_def)
  obtain plan where p: "parseRoleRecommendationResponse id plan_sample request_sample_v2 = Some plan"
    by (simp add: parseRoleRecommendationResponse_def plan_sample_def request_sample_v2_def candidate_map_def
        role_fields_ok_def check_eval t)
  from p role_plan_is_complete [OF p] show ?thesis by blast
qed

subsection \<open>The model catalogue\<close>

lemma field_copied [simp]: "field (copied k v @ ob) k' = (if k' = k \<and> v \<noteq> None then v else field ob k')"
  by (cases v) (auto simp: copied_def)

lemma public_model_ok: "catalog_model_ok m \<Longrightarrow> catalog_model_ok (public_model m)
  \<and> obj_test (\<lambda>mo. field mo ''id'' = Some (JStr i)) (Some (public_model m)) = obj_test (\<lambda>mo. field mo ''id'' = Some (JStr i)) (Some m)"
proof -
  assume a: "catalog_model_ok m"
  then obtain ob x y where m: "m = JObj ob" "field ob ''id'' = Some (JStr x)" "field ob ''name'' = Some (JStr y)"
    by (auto simp: catalog_model_ok_def obj_test_iff validNativeModel_def str_test_iff bounded_cases)
  hence p: "public_model m = JObj [(js ''id'', JStr x), (js ''name'', JStr y)]" by (simp add: public_model_def copied_def)
  from a m show ?thesis unfolding p catalog_model_ok_def by (simp add: exactKeys_def own_key_field)
qed

lemma providers_public:
  "providers_ok n ps \<Longrightarrow> providers_ok n (map public_provider ps)
     \<and> (\<forall>a b. list_ex (offers a b) (map public_provider ps) = list_ex (offers a b) ps)"
proof (induction n ps rule: providers_ok.induct)
  case (2 n p rest)
  then obtain x y ms where p: "field p ''id'' = Some (JStr x)" "field p ''name'' = Some (JStr y)"
      "field p ''models'' = Some (JArr ms)" "list_all catalog_model_ok ms" "length ms \<le> 500" "n + length ms \<le> 500"
      "boundedId (Some (JStr x))" "bounded (Some (JStr y)) 500 False" "providers_ok (n + length ms) rest"
    by (auto simp: boundedId_cases bounded_cases arr_test_iff arr_field_def)
  have pp: "public_provider (JObj p) = JObj [(js ''id'', JStr x), (js ''name'', JStr y),
      (js ''models'', JArr (map public_model ms))]"
    using p by (simp add: public_provider_def copied_def arr_field_def)
  have ok: "list_all catalog_model_ok (map public_model ms)" using p(4) public_model_ok by (auto simp: list_all_iff)
  have off: "list_ex (\<lambda>m. obj_test (\<lambda>mo. field mo ''id'' = Some (JStr b)) (Some m)) (map public_model ms)
      = list_ex (\<lambda>m. obj_test (\<lambda>mo. field mo ''id'' = Some (JStr b)) (Some m)) ms" for b
    using p(4) public_model_ok by (induction ms) auto
  have "offers a b (public_provider (JObj p)) = offers a b (JObj p)" for a b
    unfolding pp using p(1,3) off [of b] by (simp add: offers_def arr_field_def)
  moreover have "providers_ok (n + length ms) (map public_provider rest)
      \<and> (\<forall>a b. list_ex (offers a b) (map public_provider rest) = list_ex (offers a b) rest)"
    using "2.IH" "2.prems" p(3,9) by (simp add: arr_field_def)
  ultimately show ?case using p ok by (simp add: pp exactKeys_def own_key_field arr_field_def)
qed simp_all

text \<open>A catalogue answer that is built is one the other side accepts: it parses as an answer to the
  request, with the requested id.\<close>

theorem catalog_answer_is_accepted:
  assumes "buildModelCatalogResponse raw catalog timestamp = Inr out"
  shows "parseDiscussionModelCatalogResponse (JObj out) = Some out
    \<and> (\<exists>request. parseDiscussionModelCatalogRequest raw = Some request
         \<and> str_field out ''requestId'' = str_field request ''requestId'')"
proof -
  obtain request where r: "parseDiscussionModelCatalogRequest raw = Some request" "validCatalog (JObj catalog)"
      "integer_from (Some (JInt timestamp)) 1"
    and out: "out = [(js ''msg_type'', JLit ''discussion_model_catalog_response''), (js ''protocolVersion'', JInt 2),
             (js ''requestId'', JStr (str_field request ''requestId''))]
             @ copied ''defaultModel'' (field catalog ''defaultModel'')
             @ [(js ''providers'', JArr (map public_provider (arr_field catalog ''providers''))),
                (js ''timestamp'', JInt timestamp)]"
    using assms by (auto simp: buildModelCatalogResponse_def split: option.splits if_splits)
  obtain ps d where c: "field catalog ''providers'' = Some (JArr ps)" "length ps \<le> 64" "providers_ok 0 ps"
      "default_offered (Some d) ps" "d = JNull \<or> modelRoute (Some d)" "field catalog ''defaultModel'' = Some d"
    using r(2) by (auto simp: validCatalog_def arr_test_iff exactKeys_def own_key_field)
  have id: "boundedId (Some (JStr (str_field request ''requestId'')))"
    using r(1) by (auto simp: parseDiscussionModelCatalogRequest_def boundedId_cases str_field_def
        split: json.splits if_splits)
  note p = providers_public [OF c(3)]
  have off: "default_offered (Some d) (map public_provider ps)"
    using c(4) p by (auto simp: default_offered_def split: json.splits list.splits)
  have o: "out = [(js ''msg_type'', JLit ''discussion_model_catalog_response''), (js ''protocolVersion'', JInt 2),
      (js ''requestId'', JStr (str_field request ''requestId'')), (js ''defaultModel'', d),
      (js ''providers'', JArr (map public_provider ps)), (js ''timestamp'', JInt timestamp)]"
    unfolding out c(6) by (simp add: copied_def arr_field_def c(1))
  have "validCatalog (JObj [(js ''defaultModel'', d), (js ''providers'', JArr (map public_provider ps))])"
    using c(2,5) p off by (auto simp: validCatalog_def exactKeys_def own_key_field)
  with id r(3) have "parseDiscussionModelCatalogResponse (JObj out) = Some out"
    unfolding o by (auto simp: parseDiscussionModelCatalogResponse_def exactKeys_def own_key_field is_lit_def)
  moreover have "str_field out ''requestId'' = str_field request ''requestId''"
    unfolding o by (simp add: str_field_def)
  ultimately show ?thesis using r(1) by blast
qed

definition catalog_request_sample :: json where
  "catalog_request_sample = JObj [(js ''msg_type'', JLit ''discussion_model_catalog_request''),
     (js ''protocolVersion'', JInt 2), (js ''requestId'', JLit ''r''), (js ''timestamp'', JInt 5)]"

definition catalog_sample :: jobj where
  "catalog_sample = [(js ''defaultModel'', JNull), (js ''providers'', JArr [JObj [(js ''id'', JLit ''p''),
     (js ''name'', JLit ''P''), (js ''models'', JArr [JObj [(js ''name'', JLit ''M''), (js ''id'', JLit ''m'')]])]])]"

lemma catalog_answer_is_accepted_witness:
  "\<exists>out. buildModelCatalogResponse catalog_request_sample catalog_sample 7 = Inr out
     \<and> parseDiscussionModelCatalogResponse (JObj out) = Some out"
proof -
  have "47 \<notin> set (js ''m'')" by (simp add: js_def cu_def)
  moreover have "trim (js ''m'') = js ''m''" "\<not> has_control (js ''m'')"
    by (simp_all add: trim_plain has_control_plain plain_char_def)
  moreover note m = calculation
  obtain out where o: "buildModelCatalogResponse catalog_request_sample catalog_sample 7 = Inr out"
    by (simp add: buildModelCatalogResponse_def parseDiscussionModelCatalogRequest_def catalog_request_sample_def
        catalog_sample_def validCatalog_def catalog_model_ok_def validNativeModel_def default_offered_def check_eval m)
  from o catalog_answer_is_accepted [OF o] show ?thesis by blast
qed

end
