(* ===== verification/DiscussionV1.thy ===== *)
theory DiscussionV1 imports Checks begin

text \<open>
  The first discussion protocol (\<open>protocol/discussion-v1.ts\<close>): tokens that pass a turn round a fixed
  order of speakers, and the rule that says who speaks next.
\<close>

subsection \<open>Messages\<close>

datatype v1_action = PassTurn | EndDiscussion | AbortDiscussion | HeartbeatToken

fun v1_action_text :: "v1_action \<Rightarrow> string" where
  "v1_action_text PassTurn = ''pass_turn''"
| "v1_action_text EndDiscussion = ''end_discussion''"
| "v1_action_text AbortDiscussion = ''abort''"
| "v1_action_text HeartbeatToken = ''heartbeat''"

record v1_payload =
  v_group_id :: jstr
  v_turn_order :: "jstr list"
  v_current_speaker :: jstr
  v_current_speaker_name :: "jstr option"
  v_next_speaker :: "jstr option"
  v_round :: int
  v_max_rounds :: int
  v_originator_user :: jstr
  v_originator_text :: jstr
  v_originator_msg_uid :: jstr
  v_started_at :: int
  v_mention_ordered :: bool
  v_last_speaker_response :: "jstr option"

record v1_message =
  v_discussion_id :: jstr
  v_action :: v1_action
  v_payload :: v1_payload
  v_timestamp :: int

datatype v1_advance = AdvPass jstr int | AdvEnd int | AdvInvalid

definition v1_topKeys :: "string list" where
  "v1_topKeys = [''msg_type'', ''service'', ''discussion_id'', ''version'', ''action'', ''payload'', ''timestamp'']"

definition payloadRequiredKeys :: "string list" where
  "payloadRequiredKeys = [''group_id'', ''turn_order'', ''current_speaker'', ''round'', ''max_rounds'',
     ''originator_user'', ''originator_text'', ''originator_msg_uid'', ''started_at'', ''mention_ordered'']"

definition payloadOptionalKeys :: "string list" where
  "payloadOptionalKeys = [''current_speaker_name'', ''next_speaker'', ''last_speaker_response'']"

subsection \<open>Parsing\<close>

definition boundedIdentifier :: "json option \<Rightarrow> bool" where
  "boundedIdentifier v = str_test (bounded_string 128) v"

definition boundedText :: "json option \<Rightarrow> nat \<Rightarrow> bool \<Rightarrow> bool" where
  "boundedText v maxBytes allowEmpty = str_test (\<lambda>s. (allowEmpty \<or> s \<noteq> []) \<and> byte_length s \<le> maxBytes) v"

fun safeInteger :: "json option \<Rightarrow> int \<Rightarrow> int \<Rightarrow> bool" where
  "safeInteger (Some (JNum (NInt i))) mn mx = (\<bar>i\<bar> \<le> max_safe \<and> mn \<le> i \<and> i \<le> mx)"
| "safeInteger _ mn mx = False"

definition v1_action_of :: "json option \<Rightarrow> v1_action option" where
  "v1_action_of v = (if is_lit v ''pass_turn'' then Some PassTurn
     else if is_lit v ''end_discussion'' then Some EndDiscussion
     else if is_lit v ''abort'' then Some AbortDiscussion
     else if is_lit v ''heartbeat'' then Some HeartbeatToken else None)"

definition opt_str :: "jobj \<Rightarrow> string \<Rightarrow> jstr option" where
  "opt_str ob k = (case field ob k of Some (JStr s) \<Rightarrow> Some s | _ \<Rightarrow> None)"

fun json_str :: "json \<Rightarrow> jstr" where
  "json_str (JStr s) = s"
| "json_str _ = []"

definition payload_ok :: "jobj \<Rightarrow> v1_action \<Rightarrow> bool" where
  "payload_ok raw act \<longleftrightarrow> exactKeys raw payloadRequiredKeys payloadOptionalKeys
     \<and> boundedIdentifier (field raw ''group_id'') \<and> boundedIdentifier (field raw ''current_speaker'')
     \<and> boundedIdentifier (field raw ''originator_user'') \<and> boundedIdentifier (field raw ''originator_msg_uid'')
     \<and> boundedText (field raw ''originator_text'') 100000 False
     \<and> safeInteger (field raw ''round'') 1 100 \<and> safeInteger (field raw ''max_rounds'') 1 100
     \<and> int_field raw ''round'' \<le> int_field raw ''max_rounds''
     \<and> safeInteger (field raw ''started_at'') 1 max_safe
     \<and> (field raw ''mention_ordered'' = Some (JBool True) \<or> field raw ''mention_ordered'' = Some (JBool False))
     \<and> arr_test (\<lambda>ms. 1 \<le> length ms \<and> length ms \<le> 64 \<and> list_all (\<lambda>m. boundedIdentifier (Some m)) ms
          \<and> distinct ms \<and> the (field raw ''current_speaker'') \<in> set ms) (field raw ''turn_order'')
     \<and> absent_or (\<lambda>v. boundedText v 500 False) (field raw ''current_speaker_name'')
     \<and> absent_or (\<lambda>v. boundedText v 100000 True) (field raw ''last_speaker_response'')
     \<and> absent_or (\<lambda>v. boundedIdentifier v \<and> the v \<in> set (arr_field raw ''turn_order'')) (field raw ''next_speaker'')
     \<and> (act = PassTurn \<longrightarrow> field raw ''next_speaker'' \<noteq> None)
     \<and> (act = EndDiscussion \<or> act = AbortDiscussion \<longrightarrow> field raw ''next_speaker'' = None)"

definition read_payload :: "jobj \<Rightarrow> v1_payload" where
  "read_payload raw =
     \<lparr>v_group_id = str_field raw ''group_id'', v_turn_order = map json_str (arr_field raw ''turn_order''),
      v_current_speaker = str_field raw ''current_speaker'',
      v_current_speaker_name = opt_str raw ''current_speaker_name'',
      v_next_speaker = opt_str raw ''next_speaker'', v_round = int_field raw ''round'',
      v_max_rounds = int_field raw ''max_rounds'', v_originator_user = str_field raw ''originator_user'',
      v_originator_text = str_field raw ''originator_text'',
      v_originator_msg_uid = str_field raw ''originator_msg_uid'', v_started_at = int_field raw ''started_at'',
      v_mention_ordered = (field raw ''mention_ordered'' = Some (JBool True)),
      v_last_speaker_response = opt_str raw ''last_speaker_response''\<rparr>"

definition parsePayload :: "json option \<Rightarrow> v1_action \<Rightarrow> v1_payload option" where
  "parsePayload v act = (case v of
     Some (JObj raw) \<Rightarrow> if payload_ok raw act then Some (read_payload raw) else None
   | _ \<Rightarrow> None)"

definition parseDiscussionV1 :: "json \<Rightarrow> v1_message option" where
  "parseDiscussionV1 v = (case v of
     JObj raw \<Rightarrow>
       (case v1_action_of (field raw ''action'') of
          None \<Rightarrow> None
        | Some act \<Rightarrow>
            if exactKeys raw v1_topKeys [] \<and> is_lit (field raw ''msg_type'') ''discussion_token''
               \<and> is_lit (field raw ''service'') ''openclaw_coord'' \<and> field raw ''version'' = Some (JInt 1)
               \<and> boundedIdentifier (field raw ''discussion_id'') \<and> safeInteger (field raw ''timestamp'') 0 max_safe
            then map_option (\<lambda>p. \<lparr>v_discussion_id = str_field raw ''discussion_id'', v_action = act, v_payload = p,
                   v_timestamp = int_field raw ''timestamp''\<rparr>) (parsePayload (field raw ''payload'') act)
            else None)
   | _ \<Rightarrow> None)"

text \<open>The object a message is, in the property order the parser writes.\<close>

definition payload_json :: "v1_payload \<Rightarrow> jobj" where
  "payload_json p =
     [(js ''group_id'', JStr (v_group_id p)), (js ''turn_order'', JArr (map JStr (v_turn_order p))),
      (js ''current_speaker'', JStr (v_current_speaker p))]
     @ copied ''current_speaker_name'' (map_option JStr (v_current_speaker_name p))
     @ copied ''next_speaker'' (map_option JStr (v_next_speaker p))
     @ [(js ''round'', JInt (v_round p)), (js ''max_rounds'', JInt (v_max_rounds p)),
        (js ''originator_user'', JStr (v_originator_user p)), (js ''originator_text'', JStr (v_originator_text p)),
        (js ''originator_msg_uid'', JStr (v_originator_msg_uid p)), (js ''started_at'', JInt (v_started_at p)),
        (js ''mention_ordered'', JBool (v_mention_ordered p))]
     @ copied ''last_speaker_response'' (map_option JStr (v_last_speaker_response p))"

definition v1_object :: "jstr \<Rightarrow> v1_action \<Rightarrow> jobj \<Rightarrow> int \<Rightarrow> jobj" where
  "v1_object discussionId act payload timestamp =
     [(js ''msg_type'', JLit ''discussion_token''), (js ''service'', JLit ''openclaw_coord''),
      (js ''discussion_id'', JStr discussionId), (js ''version'', JInt 1), (js ''action'', JLit (v1_action_text act)),
      (js ''payload'', JObj payload), (js ''timestamp'', JInt timestamp)]"

definition buildDiscussionV1 :: "v1_action \<Rightarrow> jstr \<Rightarrow> jobj \<Rightarrow> int \<Rightarrow> v1_message option" where
  "buildDiscussionV1 act discussionId payload timestamp =
     parseDiscussionV1 (JObj (v1_object discussionId act payload timestamp))"

definition discussionV1Key :: "v1_message \<Rightarrow> jstr" where
  "discussionV1Key m = stringify (JArr [JStr (v_discussion_id m), JInt (v_round (v_payload m)),
     JLit (v1_action_text (v_action m)), JStr (v_current_speaker (v_payload m)),
     (case v_next_speaker (v_payload m) of None \<Rightarrow> JNull | Some s \<Rightarrow> JStr s)])"

subsection \<open>Advancing\<close>

fun position_of :: "'a \<Rightarrow> 'a list \<Rightarrow> nat option" where
  "position_of x [] = None"
| "position_of x (y # ys) = (if y = x then Some 0 else map_option Suc (position_of x ys))"

definition advance :: "v1_payload \<Rightarrow> jstr \<Rightarrow> v1_advance" where
  "advance p speaker = (case position_of speaker (v_turn_order p) of
     None \<Rightarrow> AdvInvalid
   | Some i \<Rightarrow>
       if \<not> safeInteger (Some (JInt (v_round p))) 1 max_safe \<or> \<not> safeInteger (Some (JInt (v_max_rounds p))) 1 max_safe
       then AdvInvalid
       else if Suc i < length (v_turn_order p) then AdvPass (v_turn_order p ! Suc i) (v_round p)
       else if v_round p < v_max_rounds p then AdvPass (v_turn_order p ! 0) (v_round p + 1)
       else AdvEnd (v_round p))"

definition advanceAfterCompleted :: "v1_payload \<Rightarrow> jstr \<Rightarrow> v1_advance" where
  "advanceAfterCompleted p completedSpeaker = advance p completedSpeaker"

definition advanceAfterTimeout :: "v1_payload \<Rightarrow> jstr \<Rightarrow> v1_advance" where
  "advanceAfterTimeout p timedOutSpeaker = advance p timedOutSpeaker"

subsection \<open>A whole discussion\<close>

text \<open>
  A coordinator that follows the rule: after each turn (completed or timed out, as \<open>timeouts\<close> says for
  the turn's number) the next speaker speaks.  The list is who spoke, with the round; the fuel bounds
  the number of turns.
\<close>

fun discussion_turns :: "nat \<Rightarrow> (nat \<Rightarrow> bool) \<Rightarrow> v1_payload \<Rightarrow> ((jstr \<times> int) list \<times> int) option" where
  "discussion_turns 0 timeouts p = None"
| "discussion_turns (Suc n) timeouts p =
     (case (if timeouts n then advanceAfterTimeout p (v_current_speaker p)
            else advanceAfterCompleted p (v_current_speaker p)) of
        AdvInvalid \<Rightarrow> None
      | AdvEnd r \<Rightarrow> Some ([(v_current_speaker p, v_round p)], r)
      | AdvPass next r \<Rightarrow>
          map_option (\<lambda>(xs, e). ((v_current_speaker p, v_round p) # xs, e))
            (discussion_turns n timeouts (p\<lparr>v_current_speaker := next, v_round := r\<rparr>)))"

lemma position_of_nth: "distinct xs \<Longrightarrow> i < length xs \<Longrightarrow> position_of (xs ! i) xs = Some i"
  by (induction xs arbitrary: i) (auto simp: nth_Cons split: nat.split)

lemma position_of_Some: "position_of x xs = Some i \<Longrightarrow> i < length xs \<and> xs ! i = x"
  by (induction xs arbitrary: i) (auto split: if_splits)

text \<open>The turns that are left: the rest of this round, then the full order in every later round.\<close>

fun schedule :: "jstr list \<Rightarrow> nat \<Rightarrow> int \<Rightarrow> nat \<Rightarrow> (jstr \<times> int) list" where
  "schedule order i r 0 = map (\<lambda>s. (s, r)) (drop i order)"
| "schedule order i r (Suc n) = map (\<lambda>s. (s, r)) (drop i order) @ schedule order 0 (r + 1) n"

lemma schedule_step:
  "Suc i < length order \<Longrightarrow> schedule order i r n = (order ! i, r) # schedule order (Suc i) r n"
  by (cases n) (simp_all add: Cons_nth_drop_Suc [symmetric])

lemma schedule_last:
  assumes "Suc i = length order"
  shows "schedule order i r 0 = [(order ! i, r)]" "schedule order i r (Suc n) = (order ! i, r) # schedule order 0 (r + 1) n"
proof -
  have "drop i order = [order ! i]" using assms by (simp add: Cons_nth_drop_Suc [symmetric])
  thus "schedule order i r 0 = [(order ! i, r)]" "schedule order i r (Suc n) = (order ! i, r) # schedule order 0 (r + 1) n"
    by simp_all
qed

lemma length_schedule: "length (schedule order i r n) = length order - i + n * length order"
  by (induction order i r n rule: schedule.induct) simp_all

lemma discussion_runs:
  assumes "distinct (v_turn_order p)" "i < length (v_turn_order p)" "v_current_speaker p = v_turn_order p ! i"
    "1 \<le> v_round p" "v_round p + int n = v_max_rounds p" "v_max_rounds p \<le> max_safe"
    "length (schedule (v_turn_order p) i (v_round p) n) \<le> fuel"
  shows "discussion_turns fuel timeouts p = Some (schedule (v_turn_order p) i (v_round p) n, v_max_rounds p)"
  using assms
proof (induction fuel arbitrary: p i n)
  case 0
  thus ?case by (simp add: length_schedule)
next
  case (Suc fuel)
  let ?o = "v_turn_order p"
  have pos: "position_of (v_current_speaker p) ?o = Some i" using Suc.prems(1-3) by (simp add: position_of_nth)
  have safe: "\<bar>v_round p\<bar> \<le> max_safe" "\<bar>v_max_rounds p\<bar> \<le> max_safe" "1 \<le> v_max_rounds p" "v_round p \<le> v_max_rounds p"
    using Suc.prems(4-6) by linarith+
  have adv: "(if timeouts fuel then advanceAfterTimeout p (v_current_speaker p)
      else advanceAfterCompleted p (v_current_speaker p)) =
     (if Suc i < length ?o then AdvPass (?o ! Suc i) (v_round p)
      else if v_round p < v_max_rounds p then AdvPass (?o ! 0) (v_round p + 1) else AdvEnd (v_round p))"
    using pos safe Suc.prems(4)
    by (auto simp: advanceAfterTimeout_def advanceAfterCompleted_def advance_def)
  consider (within) "Suc i < length ?o" | (wrap) m where "Suc i = length ?o" "n = Suc m" | (last) "Suc i = length ?o" "n = 0"
    using Suc.prems(2) by (cases n) (auto simp: not_less intro: Suc_lessI)
  thus ?case
  proof cases
    case within
    let ?q = "p\<lparr>v_current_speaker := ?o ! Suc i, v_round := v_round p\<rparr>"
    have "discussion_turns fuel timeouts ?q = Some (schedule ?o (Suc i) (v_round p) n, v_max_rounds p)"
      using Suc.IH [of ?q "Suc i" n] Suc.prems within by (simp add: length_schedule)
    thus ?thesis using within adv Suc.prems(3) by (simp add: schedule_step)
  next
    case wrap
    let ?q = "p\<lparr>v_current_speaker := ?o ! 0, v_round := v_round p + 1\<rparr>"
    have "discussion_turns fuel timeouts ?q = Some (schedule ?o 0 (v_round p + 1) m, v_max_rounds p)"
    proof -
      have "0 < length ?o" "length ?o - 0 + m * length ?o \<le> fuel"
        using Suc.prems(2,7) wrap unfolding length_schedule by auto
      thus ?thesis using Suc.IH [of ?q 0 m] Suc.prems(1,4-6) wrap(2) by (simp add: length_schedule)
    qed
    moreover have "v_round p < v_max_rounds p" using wrap Suc.prems(5) by simp
    ultimately show ?thesis using wrap adv Suc.prems(3) by (simp add: schedule_last(2) del: schedule.simps)
  next
    case last
    thus ?thesis using adv Suc.prems(3,5) by (simp add: schedule_last(1) del: schedule.simps)
  qed
qed

subsection \<open>Properties\<close>

lemma identifiers_str:
  assumes "list_all (\<lambda>m. boundedIdentifier (Some m)) ms"
  shows "map JStr (map json_str ms) = ms"
  using assms by (induction ms) (auto simp: boundedIdentifier_def str_test_iff)

lemma parsePayload_Some:
  "parsePayload v act = Some p \<longleftrightarrow> (\<exists>raw. v = Some (JObj raw) \<and> payload_ok raw act \<and> p = read_payload raw)"
  by (auto simp: parsePayload_def split: option.splits json.splits)

lemma safeInteger_cases:
  "safeInteger w mn mx \<longleftrightarrow> (\<exists>i. w = Some (JInt i) \<and> \<bar>i\<bar> \<le> max_safe \<and> mn \<le> i \<and> i \<le> mx)"
  by (cases "(w, mn, mx)" rule: safeInteger.cases) auto

lemma payload_order:
  assumes "payload_ok raw act"
  shows "\<exists>names. field raw ''turn_order'' = Some (JArr (map JStr names)) \<and> distinct names \<and> length names \<le> 64
    \<and> str_field raw ''current_speaker'' \<in> set names \<and> map json_str (arr_field raw ''turn_order'') = names
    \<and> (\<forall>s. field raw ''next_speaker'' = Some (JStr s) \<longrightarrow> s \<in> set names)"
proof -
  have ok: "arr_test (\<lambda>ms. 1 \<le> length ms \<and> length ms \<le> 64 \<and> list_all (\<lambda>m. boundedIdentifier (Some m)) ms
          \<and> distinct ms \<and> the (field raw ''current_speaker'') \<in> set ms) (field raw ''turn_order'')"
    "boundedIdentifier (field raw ''current_speaker'')"
    "absent_or (\<lambda>v. boundedIdentifier v \<and> the v \<in> set (arr_field raw ''turn_order'')) (field raw ''next_speaker'')"
    using assms unfolding payload_ok_def by blast+
  then obtain ms where ms: "field raw ''turn_order'' = Some (JArr ms)" "length ms \<le> 64" "distinct ms"
      "the (field raw ''current_speaker'') \<in> set ms" "list_all (\<lambda>m. boundedIdentifier (Some m)) ms"
    unfolding arr_test_iff by auto
  let ?n = "map json_str ms"
  have js: "map JStr ?n = ms" by (rule identifiers_str [OF ms(5)])
  have mem: "JStr s \<in> set ms \<longleftrightarrow> s \<in> set ?n" for s by (subst js [symmetric]) auto
  have d: "distinct ?n" using ms(3) js by (metis distinct_map)
  obtain c where c: "field raw ''current_speaker'' = Some (JStr c)"
    using ok(2) by (auto simp: boundedIdentifier_def str_test_iff)
  have "str_field raw ''current_speaker'' \<in> set ?n" using c ms(4) mem by (simp add: str_field_def)
  moreover have "\<forall>s. field raw ''next_speaker'' = Some (JStr s) \<longrightarrow> s \<in> set ?n"
    using ok(3) ms(1) mem by (auto simp: absent_or_def arr_field_def)
  ultimately show ?thesis using ms(1,2) js d by (intro exI [of _ ?n]) (simp add: arr_field_def)
qed

lemma parsed_payload:
  assumes "parsePayload v act = Some p"
  shows "distinct (v_turn_order p) \<and> v_current_speaker p \<in> set (v_turn_order p) \<and> length (v_turn_order p) \<le> 64
    \<and> 1 \<le> v_round p \<and> v_round p \<le> v_max_rounds p \<and> v_max_rounds p \<le> 100"
proof -
  obtain raw where ok: "payload_ok raw act" and p: "p = read_payload raw" using assms by (auto simp: parsePayload_Some)
  have r: "safeInteger (field raw ''round'') 1 100" "safeInteger (field raw ''max_rounds'') 1 100"
      "int_field raw ''round'' \<le> int_field raw ''max_rounds''"
    using ok unfolding payload_ok_def by blast+
  have "1 \<le> int_field raw ''round'' \<and> int_field raw ''max_rounds'' \<le> 100"
    using r(1,2) by (auto simp: safeInteger_cases int_field_def)
  with r(3) payload_order [OF ok] show ?thesis unfolding p read_payload_def by auto
qed

text \<open>C11 A discussion ends: from any token that is accepted, whoever completes or times out, every speaker gets
  the remaining turns in the given order, round after round, and after the last speaker of the last round
  the discussion is over; at most 64 times 100 turns are taken.\<close>

theorem discussion_ends_in_order:
  assumes "parseDiscussionV1 v = Some m"
  shows "\<exists>i. position_of (v_current_speaker (v_payload m)) (v_turn_order (v_payload m)) = Some i
    \<and> discussion_turns 6400 timeouts (v_payload m)
        = Some (schedule (v_turn_order (v_payload m)) i (v_round (v_payload m))
                  (nat (v_max_rounds (v_payload m) - v_round (v_payload m))), v_max_rounds (v_payload m))"
proof -
  let ?p = "v_payload m"
  obtain raw where "parsePayload raw (v_action m) = Some ?p"
    using assms by (auto simp: parseDiscussionV1_def split: json.splits option.splits if_splits)
  note f = parsed_payload [OF this]
  obtain i where i: "i < length (v_turn_order ?p)" "v_current_speaker ?p = v_turn_order ?p ! i"
    using f by (auto simp: in_set_conv_nth)
  let ?n = "nat (v_max_rounds ?p - v_round ?p)"
  have "?n \<le> 99" using f by linarith
  hence "?n * length (v_turn_order ?p) \<le> 99 * 64" using f by (intro mult_le_mono) simp_all
  hence "length (schedule (v_turn_order ?p) i (v_round ?p) ?n) \<le> 6400"
    using f unfolding length_schedule by linarith
  moreover have "v_max_rounds ?p \<le> max_safe" using f by (simp add: max_safe_def)
  ultimately have "discussion_turns 6400 timeouts ?p
      = Some (schedule (v_turn_order ?p) i (v_round ?p) ?n, v_max_rounds ?p)"
    using f i by (intro discussion_runs) simp_all
  thus ?thesis using f i position_of_nth by metis
qed

lemma field_copied1 [simp]: "field (copied k v) k' = (if k' = k then v else None)"
  by (cases v) (simp_all add: copied_def)

lemma field_append: "field (a @ b) k = (case field a k of None \<Rightarrow> field b k | Some v \<Rightarrow> Some v)"
  by (simp add: field_def map_add_def split: option.split)

text \<open>The check and the reading of a payload depend on its listed properties only.\<close>

lemma payload_cong:
  assumes "\<forall>k \<in> set (payloadRequiredKeys @ payloadOptionalKeys). field a k = field b k"
    "exactKeys a payloadRequiredKeys payloadOptionalKeys = exactKeys b payloadRequiredKeys payloadOptionalKeys"
  shows "payload_ok a act = payload_ok b act" "read_payload a = read_payload b"
proof -
  have f: "field a ''group_id'' = field b ''group_id''" "field a ''turn_order'' = field b ''turn_order''"
    "field a ''current_speaker'' = field b ''current_speaker''" "field a ''round'' = field b ''round''"
    "field a ''max_rounds'' = field b ''max_rounds''" "field a ''originator_user'' = field b ''originator_user''"
    "field a ''originator_text'' = field b ''originator_text''"
    "field a ''originator_msg_uid'' = field b ''originator_msg_uid''" "field a ''started_at'' = field b ''started_at''"
    "field a ''mention_ordered'' = field b ''mention_ordered''"
    "field a ''current_speaker_name'' = field b ''current_speaker_name''"
    "field a ''next_speaker'' = field b ''next_speaker''"
    "field a ''last_speaker_response'' = field b ''last_speaker_response''"
    using assms(1) by (simp_all add: payloadRequiredKeys_def payloadOptionalKeys_def)
  show "payload_ok a act = payload_ok b act"
    unfolding payload_ok_def assms(2) int_field_def arr_field_def f ..
  show "read_payload a = read_payload b"
    unfolding read_payload_def str_field_def int_field_def arr_field_def opt_str_def f ..
qed

lemma string_fields:
  "boundedIdentifier (field raw k) \<Longrightarrow> field raw k = Some (JStr (str_field raw k))"
  "boundedText (field raw k) x y \<Longrightarrow> field raw k = Some (JStr (str_field raw k))"
  "absent_or (\<lambda>v. boundedText v x y) (field raw k) \<Longrightarrow> field raw k = map_option JStr (opt_str raw k)"
  "absent_or (\<lambda>v. boundedIdentifier v \<and> R v) (field raw k) \<Longrightarrow> field raw k = map_option JStr (opt_str raw k)"
  "safeInteger (field raw k) mn mx \<Longrightarrow> field raw k = Some (JInt (int_field raw k))"
  by (auto simp: boundedIdentifier_def boundedText_def str_test_iff str_field_def absent_or_def opt_str_def
      int_field_def safeInteger_cases)

lemma payload_json_fields:
  "field (payload_json p) ''group_id'' = Some (JStr (v_group_id p))"
  "field (payload_json p) ''turn_order'' = Some (JArr (map JStr (v_turn_order p)))"
  "field (payload_json p) ''current_speaker'' = Some (JStr (v_current_speaker p))"
  "field (payload_json p) ''current_speaker_name'' = map_option JStr (v_current_speaker_name p)"
  "field (payload_json p) ''next_speaker'' = map_option JStr (v_next_speaker p)"
  "field (payload_json p) ''round'' = Some (JInt (v_round p))"
  "field (payload_json p) ''max_rounds'' = Some (JInt (v_max_rounds p))"
  "field (payload_json p) ''originator_user'' = Some (JStr (v_originator_user p))"
  "field (payload_json p) ''originator_text'' = Some (JStr (v_originator_text p))"
  "field (payload_json p) ''originator_msg_uid'' = Some (JStr (v_originator_msg_uid p))"
  "field (payload_json p) ''started_at'' = Some (JInt (v_started_at p))"
  "field (payload_json p) ''mention_ordered'' = Some (JBool (v_mention_ordered p))"
  "field (payload_json p) ''last_speaker_response'' = map_option JStr (v_last_speaker_response p)"
  by (simp_all add: payload_json_def field_append split: option.split)

lemma payload_json_keys: "exactKeys (payload_json p) payloadRequiredKeys payloadOptionalKeys"
proof -
  have "list_all (own_key (payload_json p)) payloadRequiredKeys"
    by (simp add: payloadRequiredKeys_def own_key_field payload_json_fields)
  moreover have "fst q \<in> js ` set (payloadRequiredKeys @ payloadOptionalKeys)" if "q \<in> set (payload_json p)" for q
    using that by (auto simp: payload_json_def copied_def payloadRequiredKeys_def payloadOptionalKeys_def split: option.splits)
  ultimately show ?thesis by (auto simp: exactKeys_def list_all_iff)
qed

lemma parse_payload_again:
  assumes "parsePayload v act = Some p"
  shows "parsePayload (Some (JObj (payload_json p))) act = Some p"
proof -
  obtain raw where ok: "payload_ok raw act" and p: "p = read_payload raw" using assms by (auto simp: parsePayload_Some)
  have c: "exactKeys raw payloadRequiredKeys payloadOptionalKeys"
    "boundedIdentifier (field raw ''group_id'')" "boundedIdentifier (field raw ''current_speaker'')"
    "boundedIdentifier (field raw ''originator_user'')" "boundedIdentifier (field raw ''originator_msg_uid'')"
    "boundedText (field raw ''originator_text'') 100000 False"
    "safeInteger (field raw ''round'') 1 100" "safeInteger (field raw ''max_rounds'') 1 100"
    "safeInteger (field raw ''started_at'') 1 max_safe"
    "field raw ''mention_ordered'' = Some (JBool True) \<or> field raw ''mention_ordered'' = Some (JBool False)"
    "absent_or (\<lambda>v. boundedText v 500 False) (field raw ''current_speaker_name'')"
    "absent_or (\<lambda>v. boundedText v 100000 True) (field raw ''last_speaker_response'')"
    "absent_or (\<lambda>v. boundedIdentifier v \<and> the v \<in> set (arr_field raw ''turn_order'')) (field raw ''next_speaker'')"
    using ok unfolding payload_ok_def by blast+
  obtain names where n: "field raw ''turn_order'' = Some (JArr (map JStr names))"
      "map json_str (arr_field raw ''turn_order'') = names"
    using payload_order [OF ok] by blast
  have f: "v_group_id p = str_field raw ''group_id''" "v_turn_order p = names"
    "v_current_speaker p = str_field raw ''current_speaker''"
    "v_current_speaker_name p = opt_str raw ''current_speaker_name''" "v_next_speaker p = opt_str raw ''next_speaker''"
    "v_round p = int_field raw ''round''" "v_max_rounds p = int_field raw ''max_rounds''"
    "v_originator_user p = str_field raw ''originator_user''" "v_originator_text p = str_field raw ''originator_text''"
    "v_originator_msg_uid p = str_field raw ''originator_msg_uid''" "v_started_at p = int_field raw ''started_at''"
    "v_mention_ordered p = (field raw ''mention_ordered'' = Some (JBool True))"
    "v_last_speaker_response p = opt_str raw ''last_speaker_response''"
    using n(2) by (simp_all add: p read_payload_def)
  have "Some (JBool (field raw ''mention_ordered'' = Some (JBool True))) = field raw ''mention_ordered''"
    using c(10) by auto
  hence "\<forall>k \<in> set (payloadRequiredKeys @ payloadOptionalKeys). field (payload_json p) k = field raw k"
    unfolding payloadRequiredKeys_def payloadOptionalKeys_def
    by (simp add: payload_json_fields f n(1) string_fields(1) [OF c(2)] string_fields(1) [OF c(3)]
        string_fields(1) [OF c(4)] string_fields(1) [OF c(5)] string_fields(2) [OF c(6)] string_fields(5) [OF c(7)]
        string_fields(5) [OF c(8)] string_fields(5) [OF c(9)] string_fields(3) [OF c(11)] string_fields(3) [OF c(12)]
        string_fields(4) [OF c(13)])
  note cg = payload_cong(1) [OF this, of act] payload_cong(2) [OF this] payload_json_keys [of p] c(1)
  hence "payload_ok (payload_json p) act" "read_payload (payload_json p) = p" using ok p by simp_all
  thus ?thesis by (simp add: parsePayload_def)
qed

text \<open>An accepted token reads back: the object the parser returns (its known properties in their fixed
  order) is accepted again and is the same message.\<close>

theorem token_reads_back:
  assumes "parseDiscussionV1 v = Some m"
  shows "buildDiscussionV1 (v_action m) (v_discussion_id m) (payload_json (v_payload m)) (v_timestamp m) = Some m"
proof -
  obtain raw where r: "v1_action_of (field raw ''action'') = Some (v_action m)"
      "parsePayload (field raw ''payload'') (v_action m) = Some (v_payload m)"
      "boundedIdentifier (field raw ''discussion_id'')" "safeInteger (field raw ''timestamp'') 0 max_safe"
      "v_discussion_id m = str_field raw ''discussion_id''" "v_timestamp m = int_field raw ''timestamp''"
    using assms by (auto simp: parseDiscussionV1_def split: json.splits option.splits if_splits)
  have a: "v1_action_of (Some (JLit (v1_action_text act))) = Some act" for act
    by (cases act) (simp_all add: v1_action_of_def is_lit_def)
  have "boundedIdentifier (Some (JStr (v_discussion_id m)))" "safeInteger (Some (JInt (v_timestamp m))) 0 max_safe"
    using r(3-6) string_fields(1) [OF r(3)] string_fields(5) [OF r(4)] by metis+
  thus ?thesis
    by (simp add: buildDiscussionV1_def parseDiscussionV1_def v1_object_def a parse_payload_again [OF r(2)] v1_topKeys_def
        exactKeys_def own_key_field is_lit_def str_field_def int_field_def)
qed

definition token_sample :: jobj where
  "token_sample = v1_object (js ''d'') PassTurn
     [(js ''group_id'', JLit ''g''), (js ''turn_order'', JArr [JLit ''a'', JLit ''b'']),
      (js ''current_speaker'', JLit ''b''), (js ''next_speaker'', JLit ''a''), (js ''round'', JInt 1),
      (js ''max_rounds'', JInt 2), (js ''originator_user'', JLit ''u''), (js ''originator_text'', JLit ''t''),
      (js ''originator_msg_uid'', JLit ''m''), (js ''started_at'', JInt 1), (js ''mention_ordered'', JBool True)] 5"

lemma token_sample_parsed: "\<exists>m. parseDiscussionV1 (JObj token_sample) = Some m
  \<and> v_turn_order (v_payload m) = [js ''a'', js ''b''] \<and> v_current_speaker (v_payload m) = js ''b''
  \<and> v_round (v_payload m) = 1 \<and> v_max_rounds (v_payload m) = 2"
proof -
  have "byte_length (js ''t'') \<le> 100000" by (simp add: byte_length_def utf8_encode_def encode_point_def)
  thus ?thesis
    by (simp add: parseDiscussionV1_def token_sample_def v1_object_def v1_action_of_def v1_topKeys_def parsePayload_def
        payload_ok_def payloadRequiredKeys_def payloadOptionalKeys_def boundedIdentifier_def boundedText_def read_payload_def
        check_eval)
qed

lemma discussion_ends_in_order_witness:
  "\<exists>p. discussion_turns 6400 (\<lambda>_. False) p
     = Some ([(js ''b'', 1), (js ''a'', 2), (js ''b'', 2)], 2)"
proof -
  obtain m where m: "parseDiscussionV1 (JObj token_sample) = Some m" "v_turn_order (v_payload m) = [js ''a'', js ''b'']"
      "v_current_speaker (v_payload m) = js ''b''" "v_round (v_payload m) = 1" "v_max_rounds (v_payload m) = 2"
    using token_sample_parsed by blast
  from discussion_ends_in_order [OF m(1), of "\<lambda>_. False"] m(2-5)
  show ?thesis by (intro exI [of _ "v_payload m"]) (simp add: numeral_2_eq_2 del: discussion_turns.simps)
qed

lemma token_reads_back_witness:
  "\<exists>m. parseDiscussionV1 (JObj token_sample) = Some m
     \<and> buildDiscussionV1 (v_action m) (v_discussion_id m) (payload_json (v_payload m)) (v_timestamp m) = Some m"
  using token_sample_parsed token_reads_back by blast

end
