(* ===== verification/DiscussionV3.thy ===== *)
theory DiscussionV3 imports Checks begin

text \<open>
  The third discussion protocol (\<open>protocol/discussion-v3.ts\<close>): validators as predicates on values and
  the shapes of its messages as lists of named validators.
\<close>

subsection \<open>Validators\<close>

type_synonym validator = "json \<Rightarrow> bool"
type_synonym fields = "(string \<times> validator) list"

text \<open>No lone surrogate: the \<open>u\<close> pattern of the source matches single halves of a pair only.\<close>

definition text_v :: "nat \<Rightarrow> bool \<Rightarrow> validator" where
  "text_v mx allowEmpty v = str_test (\<lambda>s. length s \<le> mx \<and> (allowEmpty \<or> 0 < length s) \<and> well_formed s) (Some v)"

definition nonblank :: "nat \<Rightarrow> validator" where
  "nonblank mx v \<longleftrightarrow> text_v mx False v \<and> str_test (\<lambda>s. trim s \<noteq> []) (Some v)"

definition id_v :: validator where
  "id_v v \<longleftrightarrow> text_v 128 False v \<and> str_test (\<lambda>s. trim s = s \<and> \<not> has_control s) (Some v)"

definition integer_v :: "int \<Rightarrow> validator" where
  "integer_v mn v = integer_from (Some v) mn"

definition choice_v :: "json list \<Rightarrow> validator" where
  "choice_v vs v \<longleftrightarrow> v \<in> set vs"

definition nullable :: "validator \<Rightarrow> validator" where
  "nullable f v \<longleftrightarrow> v = JNull \<or> f v"

primrec validNestedUnicode :: "json \<Rightarrow> bool"
  and nested_items :: "json list \<Rightarrow> bool"
  and nested_props :: "(jstr \<times> json) list \<Rightarrow> bool"
  and nested_prop :: "jstr \<times> json \<Rightarrow> bool" where
  "validNestedUnicode JNull = True"
| "validNestedUnicode (JBool b) = True"
| "validNestedUnicode (JNum n) = True"
| "validNestedUnicode (JStr s) = well_formed s"
| "validNestedUnicode (JArr xs) = nested_items xs"
| "validNestedUnicode (JObj kvs) = nested_props kvs"
| "nested_items [] = True"
| "nested_items (x # xs) = (validNestedUnicode x \<and> nested_items xs)"
| "nested_props [] = True"
| "nested_props (p # ps) = (nested_prop p \<and> nested_props ps)"
| "nested_prop (k, v) = (well_formed k \<and> validNestedUnicode v)"

definition array_v :: "validator \<Rightarrow> nat \<Rightarrow> validator" where
  "array_v f mx v = arr_test (\<lambda>xs. length xs \<le> mx \<and> list_all f xs \<and> validNestedUnicode (JArr xs)
     \<and> byte_length (stringify (JArr xs)) \<le> 100000) (Some v)"

definition shape :: "fields \<Rightarrow> fields \<Rightarrow> validator" where
  "shape required opt v = obj_test (\<lambda>ob. exactKeys ob (map fst required) (map fst opt)
     \<and> list_all (\<lambda>(k, f). f (the (field ob k))) required
     \<and> list_all (\<lambda>(k, f). \<not> own_key ob k \<or> f (the (field ob k))) opt) (Some v)"

definition model_v :: validator where
  "model_v v \<longleftrightarrow> text_v 256 False v \<and> str_test route_ok (Some v)"

definition object_v :: validator where
  "object_v v = obj_test (\<lambda>_. True) (Some v)"

subsection \<open>Shapes\<close>

definition history :: validator where
  "history = array_v (\<lambda>_. True) 100"

definition prior_v :: validator where
  "prior_v = array_v (shape [(''memberId'', id_v), (''content'', text_v 100000 False), (''round'', integer_v 0)] []) 100"

definition role_v :: validator where
  "role_v = shape [(''memberId'', id_v), (''nodeId'', id_v), (''nickname'', text_v 500 True), (''roleName'', text_v 500 True),
     (''roleInstructions'', text_v 16000 True), (''capabilities'', array_v id_v 64)]
     [(''portraitUri'', text_v 16000 True), (''isHost'', choice_v [JBool True, JBool False]), (''model'', model_v),
      (''speakingOrder'', integer_v 0)]"

definition roles_v :: validator where
  "roles_v v = obj_test (\<lambda>ob. length ob \<le> 256 \<and> list_all (\<lambda>(k, r). id_v (JStr k) \<and> role_v r
     \<and> obj_test (\<lambda>ro. field ro ''memberId'' = Some (JStr k)) (Some r)) ob) (Some v)"

definition artifact_v :: validator where
  "artifact_v = nullable (shape [(''artifactId'', id_v), (''artifactType'', choice_v [JLit ''markdown'', JLit ''html'']),
     (''title'', text_v 500 False), (''version'', integer_v 1)] [])"

definition base_fields :: fields where
  "base_fields = [(''msg_type'', text_v 64 False), (''protocolVersion'', choice_v [JInt 3]), (''discussionId'', id_v),
     (''chatroomId'', id_v), (''requestId'', id_v), (''stateVersion'', integer_v 1), (''round'', integer_v 0),
     (''roundRevision'', integer_v 0), (''timestamp'', integer_v 1)]"

definition positions_v :: validator where
  "positions_v = array_v (shape [(''memberId'', id_v), (''position'', text_v 2000 False)] []) 32"

definition checkpoint_fields :: fields where
  "checkpoint_fields = [(''memberPositions'', positions_v), (''agreements'', array_v (text_v 2000 False) 32),
     (''disagreements'', array_v (text_v 2000 False) 32), (''openQuestions'', array_v (text_v 2000 False) 32),
     (''nextFocus'', text_v 2000 True), (''recommendation'', choice_v [JLit ''continue'', JLit ''finish'']),
     (''summaryMarkdown'', nonblank 100000)]"

definition skipped_v :: validator where
  "skipped_v v \<longleftrightarrow> shape [(''round'', integer_v 0), (''memberId'', id_v), (''category'', text_v 2000 False)] [] v
     \<or> shape [(''round'', integer_v 0), (''memberId'', id_v), (''reason'', text_v 2000 False)] [] v"

definition eventData :: fields where
  "eventData = [
     (''request_interrupted'', shape [(''targetRequestId'', id_v), (''targetMemberId'', id_v),
        (''reason'', choice_v [JLit ''user_interjection'']), (''partialPreserved'', choice_v [JBool True])] []),
     (''interjection_applied'', shape [(''messageUid'', id_v), (''targetRequestId'', nullable id_v),
        (''replacementRequestId'', id_v)] []),
     (''interruption_failed'', shape [(''targetRequestId'', id_v), (''targetMemberId'', id_v),
        (''reason'', choice_v [JLit ''cancel_failed'', JLit ''cancel_unconfirmed'']), (''retryable'', choice_v [JBool True])] []),
     (''discussion_started'', shape [(''roundPolicy'', choice_v [JLit ''user_confirmed''])] []),
     (''discussion_completed'', shape [(''reason'', choice_v [JLit ''user_finished''])] []),
     (''discussion_cancelled'', shape [(''reason'', choice_v [JLit ''user_cancelled'', JLit ''stopped''])] []),
     (''discussion_failed'', shape [(''reason'', choice_v [JLit ''summary_failed'', JLit ''cancel_failed'',
        JLit ''cancel_unconfirmed'', JLit ''dispatch_failed'']), (''retryable'', choice_v [JBool True, JBool False])] []),
     (''discussion_progress'', shape [] []),
     (''round_started'', shape [(''round'', integer_v 0), (''roundFocus'', text_v 8000 True)] []),
     (''round_summary_started'', shape [(''round'', integer_v 0)] []),
     (''round_summary_completed'', shape [(''round'', integer_v 0), (''revision'', integer_v 0), (''sourceRequestId'', id_v),
        (''documentId'', id_v), (''title'', text_v 500 False), (''content'', nonblank 100000)] []),
     (''contribution_delta'', shape [(''round'', integer_v 0), (''content'', text_v 100000 False)] []),
     (''contribution_completed'', shape [(''round'', integer_v 0), (''content'', text_v 100000 False)] []),
     (''user_interjection'', shape [(''messageUid'', id_v), (''memberId'', id_v), (''content'', nonblank 100000),
        (''createdAt'', text_v 128 False), (''consumedFromRound'', integer_v 0)] []),
     (''member_retry_scheduled'', shape [(''round'', integer_v 0), (''memberId'', id_v), (''attempt'', choice_v [JInt 2]),
        (''category'', text_v 2000 False)] []),
     (''member_skipped'', skipped_v)]"

subsection \<open>Messages\<close>

definition hostTurn3_ok :: "jobj \<Rightarrow> bool" where
  "hostTurn3_ok v \<longleftrightarrow>
     shape (base_fields @ [(''topic'', text_v 4000 False), (''goal'', text_v 8000 True), (''roles'', roles_v),
        (''allowedDecisions'', array_v (choice_v [JLit ''checkpoint'']) 1), (''eventSummary'', text_v 100000 True),
        (''currentArtifact'', artifact_v), (''mode'', choice_v [JLit ''roundtable'']),
        (''phase'', choice_v [JLit ''round_summary'']), (''roundSummaries'', history), (''userInterjections'', history)])
       [(''hostPrompt'', nonblank 32000), (''configVersion'', integer_v 1), (''priorContributions'', prior_v)] (JObj v)
     \<and> length (arr_field v ''allowedDecisions'') = 1 \<and> own_key v ''hostPrompt'' = own_key v ''configVersion''"

definition assignment3_ok :: "jobj \<Rightarrow> bool" where
  "assignment3_ok v =
     shape (base_fields @ [(''assignmentId'', id_v), (''targetId'', id_v), (''task'', text_v 16000 False),
        (''topic'', text_v 4000 False), (''goal'', text_v 8000 True), (''mode'', choice_v [JLit ''roundtable'']),
        (''model'', nullable model_v), (''role'', shape [(''roleName'', text_v 500 False), (''roleInstructions'', text_v 16000 True)] []),
        (''speakingOrder'', integer_v 0), (''roundFocus'', text_v 8000 True), (''priorContributions'', history),
        (''roundSummaries'', history), (''userInterjections'', history), (''attempt'', choice_v [JInt 1, JInt 2])]) [] (JObj v)"

definition cancel3_ok :: "jobj \<Rightarrow> bool" where
  "cancel3_ok v \<longleftrightarrow>
     shape (base_fields @ [(''targetRequestId'', id_v), (''targetMemberId'', id_v),
        (if is_lit (field v ''msg_type'') ''discussion_cancel'' then (''reason'', text_v 2000 True)
         else (''result'', choice_v [JLit ''cancelled'', JLit ''already_terminal'', JLit ''not_started'', JLit ''failed'']))]) [] (JObj v)
     \<and> field v ''targetRequestId'' \<noteq> field v ''requestId''"

definition contribution3_ok :: "jobj \<Rightarrow> bool" where
  "contribution3_ok v =
     (let delta = is_lit (field v ''msg_type'') ''discussion_contribution_delta''
      in shape (base_fields @ [(''assignmentId'', id_v), (''content'', if delta then text_v 100000 False else nonblank 100000),
          (''idempotencyKey'', id_v)] @ (if delta then [(''seq'', integer_v 0)] else [])) [] (JObj v))"

definition nodeError3_ok :: "jobj \<Rightarrow> bool" where
  "nodeError3_ok v =
     shape (base_fields @ [(''category'', choice_v [JLit ''invalid_response'', JLit ''model_error'', JLit ''timeout'']),
        (''message'', text_v 2000 False), (''idempotencyKey'', id_v)]) [(''assignmentId'', id_v)] (JObj v)"

definition decision3_ok :: "jobj \<Rightarrow> bool" where
  "decision3_ok v \<longleftrightarrow>
     shape (base_fields @ [(''decision'', choice_v [JLit ''checkpoint''])] @ checkpoint_fields @ [(''idempotencyKey'', id_v)])
       [(''planSummary'', text_v 1000 False)] (JObj v)
     \<and> distinct (map (\<lambda>p. case p of JObj o' \<Rightarrow> field o' ''memberId'' | _ \<Rightarrow> None) (arr_field v ''memberPositions''))"

definition event3_ok :: "jobj \<Rightarrow> bool" where
  "event3_ok v \<longleftrightarrow>
     shape (base_fields @ [(''seq'', integer_v 1), (''eventType'', text_v 64 False), (''actorId'', nullable id_v),
        (''targetId'', nullable id_v), (''data'', object_v)]) [] (JObj v)
     \<and> (case List.find (\<lambda>(k, f). is_lit (field v ''eventType'') k) eventData of
          None \<Rightarrow> False
        | Some (k, f) \<Rightarrow>
            f (the (field v ''data''))
            \<and> (let data = obj_field v ''data''
               in (\<not> own_key data ''round'' \<or> field data ''round'' = field v ''round'')
                \<and> (k \<noteq> ''request_interrupted'' \<or> field data ''targetRequestId'' = field v ''requestId'')
                \<and> (k \<noteq> ''interjection_applied'' \<or> field data ''replacementRequestId'' = field v ''requestId'')
                \<and> (k \<noteq> ''round_summary_completed'' \<or> (field data ''revision'' = field v ''roundRevision''
                     \<and> field data ''sourceRequestId'' = field v ''requestId''))))"

definition message3_checks :: "(string \<times> (jobj \<Rightarrow> bool)) list" where
  "message3_checks = [(''discussion_host_turn'', hostTurn3_ok), (''discussion_assignment'', assignment3_ok),
     (''discussion_cancel'', cancel3_ok), (''discussion_cancel_ack'', cancel3_ok),
     (''discussion_contribution_delta'', contribution3_ok), (''discussion_contribution_completed'', contribution3_ok),
     (''discussion_node_error'', nodeError3_ok), (''discussion_host_decision'', decision3_ok),
     (''discussion_event'', event3_ok)]"

definition parseDiscussionV3 :: "json \<Rightarrow> jobj option" where
  "parseDiscussionV3 value = (case value of
     JObj v \<Rightarrow>
       (case List.find (\<lambda>(k, f). is_lit (field v ''msg_type'') k) message3_checks of
          Some (k, f) \<Rightarrow> if f v then Some v else None
        | None \<Rightarrow> None)
   | _ \<Rightarrow> None)"

definition matchesDiscussionV3CancelAck :: "jobj \<Rightarrow> json \<Rightarrow> bool" where
  "matchesDiscussionV3CancelAck command raw = (case parseDiscussionV3 raw of
     None \<Rightarrow> False
   | Some ack \<Rightarrow> is_lit (field ack ''msg_type'') ''discussion_cancel_ack''
       \<and> list_all (\<lambda>k. field ack k = field command k) [''discussionId'', ''chatroomId'', ''requestId'', ''stateVersion'',
           ''round'', ''roundRevision'', ''targetRequestId'', ''targetMemberId''])"

end
