(* ===== verification/Passive.thy ===== *)
theory Passive imports Checks begin

text \<open>
  Taking a JSON copy of a foreign value (\<open>protocol/messages.ts\<close>, \<open>passiveSnapshot\<close>).  The value may be
  anything JavaScript has: it is given by what a passive reader sees of it, its property descriptors.
  A proxy is opaque, an accessor is not run, and a reference back to an enclosing object is \<open>VAncestor\<close>,
  so that a cyclic value is a finite tree.
\<close>

datatype jsval =
    VUndefined
  | VNull
  | VBool bool
  | VNum jnum
  | VStr jstr
  | VCallable
  | VBigInt
  | VProxy
  | VAncestor
  | VArr "slot list" "(jstr \<times> slot) list"
  | VObj bool "(jstr \<times> slot) list"
and slot =
    Data bool jsval
  | Accessor
  | Hole

text \<open>
  \<open>VArr\<close> has the slots of the elements and the other own properties; \<open>VObj\<close> tells whether the prototype is
  \<open>Object.prototype\<close> or null and has the own properties in order; \<open>Data\<close> is an enumerable or hidden data
  property, \<open>VCallable\<close> a function or symbol.
\<close>

record budget =
  b_items :: nat
  b_textBytes :: nat
  b_maxBytes :: nat

datatype clone_error = InvalidClone | OversizedClone

definition MAX_PASSIVE_JSON_ITEMS :: nat where
  "MAX_PASSIVE_JSON_ITEMS = 32768"

definition MAX_PASSIVE_JSON_DEPTH :: nat where
  "MAX_PASSIVE_JSON_DEPTH = 32"

definition MAX_RONGCLOUD_MESSAGE_BYTES :: nat where
  "MAX_RONGCLOUD_MESSAGE_BYTES = 64 * 1024"

definition dangerousObjectKeys :: "string list" where
  "dangerousObjectKeys = [''__proto__'', ''prototype'', ''constructor'']"

definition dangerous :: "jstr \<Rightarrow> bool" where
  "dangerous k \<longleftrightarrow> k \<in> js ` set dangerousObjectKeys"

text \<open>\<open>Number.isFinite\<close>\<close>

fun finite_number :: "jnum \<Rightarrow> bool" where
  "finite_number (NInt i) = True"
| "finite_number (NDbl t) = (t \<notin> {js ''NaN'', js ''Infinity'', js ''-Infinity''})"

text \<open>Whether the text exceeds the budget, and the budget after it.\<close>

definition accountText :: "jstr \<Rightarrow> budget \<Rightarrow> bool \<times> budget" where
  "accountText s b =
     (if length s > b_maxBytes b then (True, b)
      else let b' = b\<lparr>b_textBytes := b_textBytes b + byte_length s\<rparr>
           in (b_textBytes b' > b_maxBytes b', b'))"

definition count_items :: "nat \<Rightarrow> budget \<Rightarrow> budget" where
  "count_items n b = b\<lparr>b_items := b_items b + n\<rparr>"

definition over_items :: "budget \<Rightarrow> bool" where
  "over_items b \<longleftrightarrow> b_items b > MAX_PASSIVE_JSON_ITEMS"

type_synonym 'a cloning = "(clone_error, 'a) result \<times> budget"

fun clonePassiveJson :: "jsval \<Rightarrow> budget \<Rightarrow> nat \<Rightarrow> json cloning"
  and clone_items :: "slot list \<Rightarrow> budget \<Rightarrow> nat \<Rightarrow> json list cloning"
  and clone_props :: "(jstr \<times> slot) list \<Rightarrow> budget \<Rightarrow> nat \<Rightarrow> jobj \<Rightarrow> jobj cloning" where
  "clonePassiveJson VNull b d = (Inr JNull, b)"
| "clonePassiveJson (VBool x) b d = (Inr (JBool x), b)"
| "clonePassiveJson (VStr s) b d =
     (let (over, b') = accountText s b in (if over then Inl OversizedClone else Inr (JStr s), b'))"
| "clonePassiveJson (VNum n) b d = (if finite_number n then Inr (JNum n) else Inl InvalidClone, b)"
| "clonePassiveJson VUndefined b d = (Inl InvalidClone, b)"
| "clonePassiveJson VCallable b d = (Inl InvalidClone, b)"
| "clonePassiveJson VBigInt b d = (Inl InvalidClone, b)"
| "clonePassiveJson VProxy b d = (Inl InvalidClone, b)"
| "clonePassiveJson VAncestor b d = (Inl InvalidClone, b)"
| "clonePassiveJson (VArr xs extra) b d =
     (if d \<ge> MAX_PASSIVE_JSON_DEPTH then (Inl InvalidClone, b)
      else let b1 = count_items 1 b in
           if over_items b1 then (Inl OversizedClone, b1)
           else if length xs > MAX_PASSIVE_JSON_ITEMS then (Inl OversizedClone, b1)
           else let b2 = count_items (length xs) b1 in
           if over_items b2 then (Inl OversizedClone, b2)
           else case clone_items xs b2 (Suc d) of
             (Inl e, b3) \<Rightarrow> (Inl e, b3)
           | (Inr ys, b3) \<Rightarrow>
               (if list_ex (\<lambda>(k, s). s = Accessor \<or> s = Hole) extra then Inl InvalidClone else Inr (JArr ys), b3))"
| "clonePassiveJson (VObj plain props) b d =
     (if d \<ge> MAX_PASSIVE_JSON_DEPTH then (Inl InvalidClone, b)
      else let b1 = count_items 1 b in
           if over_items b1 then (Inl OversizedClone, b1)
           else if \<not> plain then (Inl InvalidClone, b1)
           else let b2 = count_items (length props) b1 in
           if over_items b2 then (Inl OversizedClone, b2)
           else case clone_props props b2 (Suc d) [] of
             (Inl e, b3) \<Rightarrow> (Inl e, b3)
           | (Inr ob, b3) \<Rightarrow> (Inr (JObj ob), b3))"
| "clone_items [] b d = (Inr [], b)"
| "clone_items (Accessor # r) b d = (Inl InvalidClone, b)"
| "clone_items (Hole # r) b d = (Inl InvalidClone, b)"
| "clone_items (Data e v # r) b d =
     (case clonePassiveJson v b d of
        (Inl x, b') \<Rightarrow> (Inl x, b')
      | (Inr y, b') \<Rightarrow>
          (case clone_items r b' d of
             (Inl x, b'') \<Rightarrow> (Inl x, b'')
           | (Inr ys, b'') \<Rightarrow> (Inr (y # ys), b'')))"
| "clone_props [] b d acc = (Inr acc, b)"
| "clone_props ((k, Accessor) # r) b d acc = (Inl InvalidClone, b)"
| "clone_props ((k, Hole) # r) b d acc = (Inl InvalidClone, b)"
| "clone_props ((k, Data enumerable v) # r) b d acc =
     (if \<not> enumerable \<or> dangerous k then clone_props r b d acc
      else let (over, b') = accountText k b in
           if over then (Inl OversizedClone, b')
           else if v = VUndefined \<or> v = VCallable then clone_props r b' d acc
           else case clonePassiveJson v b' d of
             (Inl x, b'') \<Rightarrow> (Inl x, b'')
           | (Inr y, b'') \<Rightarrow> clone_props r b'' d (obj_set acc k y))"

definition start_budget :: "nat \<Rightarrow> budget" where
  "start_budget maxBytes = \<lparr>b_items = 0, b_textBytes = 0, b_maxBytes = maxBytes\<rparr>"

definition passiveSnapshot :: "jsval \<Rightarrow> nat \<Rightarrow> (clone_error, json \<times> nat) result" where
  "passiveSnapshot v maxBytes =
     (case fst (clonePassiveJson v (start_budget maxBytes) 0) of
        Inl e \<Rightarrow> Inl e
      | Inr cloned \<Rightarrow>
          let bytes = byte_length (stringify cloned)
          in if bytes > maxBytes then Inl OversizedClone else Inr (cloned, bytes))"

subsection \<open>What a snapshot is\<close>

text \<open>
  Nested at most \<open>d\<close> deep, finite numbers, and no key that reaches a prototype.
\<close>

primrec safe_json :: "json \<Rightarrow> nat \<Rightarrow> bool"
  and safe_items :: "json list \<Rightarrow> nat \<Rightarrow> bool"
  and safe_props :: "(jstr \<times> json) list \<Rightarrow> nat \<Rightarrow> bool"
  and safe_prop :: "jstr \<times> json \<Rightarrow> nat \<Rightarrow> bool" where
  "safe_json JNull d = True"
| "safe_json (JBool x) d = True"
| "safe_json (JNum n) d = finite_number n"
| "safe_json (JStr s) d = True"
| "safe_json (JArr xs) d = (0 < d \<and> safe_items xs (d - 1))"
| "safe_json (JObj kvs) d = (0 < d \<and> safe_props kvs (d - 1))"
| "safe_items [] d = True"
| "safe_items (x # xs) d = (safe_json x d \<and> safe_items xs d)"
| "safe_props [] d = True"
| "safe_props (p # ps) d = (safe_prop p d \<and> safe_props ps d)"
| "safe_prop (k, v) d = (\<not> dangerous k \<and> safe_json v d)"

lemma safe_items_iff [simp]: "safe_items xs d \<longleftrightarrow> (\<forall>x \<in> set xs. safe_json x d)"
  by (induction xs) simp_all

lemma safe_props_iff [simp]: "safe_props kvs d \<longleftrightarrow> (\<forall>(k, v) \<in> set kvs. \<not> dangerous k \<and> safe_json v d)"
  by (induction kvs) auto

lemma set_insert_index: "set (insert_index k v ob) = insert (k, v) (set ob)"
  by (induction k v ob rule: insert_index.induct) auto

lemma set_obj_set: "p \<in> set (obj_set ob k v) \<Longrightarrow> p = (k, v) \<or> p \<in> set ob"
  by (auto simp: obj_set_def set_insert_index split: if_splits)

lemma safe_obj_set: "safe_props ob d \<Longrightarrow> \<not> dangerous k \<Longrightarrow> safe_json v d \<Longrightarrow> safe_props (obj_set ob k v) d"
  using set_obj_set [of _ ob k v] by fastforce

lemma clone_safe:
  "clonePassiveJson v b d = (Inr j, b') \<Longrightarrow> d \<le> MAX_PASSIVE_JSON_DEPTH \<Longrightarrow> safe_json j (MAX_PASSIVE_JSON_DEPTH - d)"
  "clone_items xs b d = (Inr js', b') \<Longrightarrow> d \<le> MAX_PASSIVE_JSON_DEPTH \<Longrightarrow> safe_items js' (MAX_PASSIVE_JSON_DEPTH - d)"
  "clone_props ps b d acc = (Inr ob, b') \<Longrightarrow> d \<le> MAX_PASSIVE_JSON_DEPTH \<Longrightarrow> safe_props acc (MAX_PASSIVE_JSON_DEPTH - d)
     \<Longrightarrow> safe_props ob (MAX_PASSIVE_JSON_DEPTH - d)"
proof (induction v b d and xs b d and ps b d acc arbitrary: j b' and js' b' and ob b'
    rule: clonePassiveJson_clone_items_clone_props.induct)
  case (10 xs extra b d)
  thus ?case
    by (auto simp: Let_def simp del: safe_props_iff split: if_splits prod.splits sum.splits)
next
  case (11 plain props b d)
  thus ?case
    by (auto simp: Let_def simp del: safe_props_iff split: if_splits prod.splits sum.splits)
next
  case (19 k enumerable v r b d acc)
  thus ?case
    by (auto simp: Let_def safe_obj_set simp del: safe_props_iff split: if_splits prod.splits sum.splits)
qed (auto simp: Let_def simp del: safe_props_iff split: if_splits prod.splits sum.splits)

end
