(* ===== verification/Messages.thy ===== *)
theory Messages imports Passive begin

text \<open>
  The messages of the chat service and the protocol inside them (\<open>protocol/messages.ts\<close>): normalisation of a
  delivered message, recognition of protocol content, slash commands and the envelopes of the legacy
  protocol.  Absent properties are \<open>None\<close>; \<open>cv\<close> is the reading of numerals of \<open>JSON.parse\<close>.
\<close>

subsection \<open>Tables\<close>

definition v2AndCardTypes :: "string list" where
  "v2AndCardTypes = [''chat_stream'', ''chat_stream_chunk'', ''chat_stop'', ''chat_stop_result'',
     ''card_message'', ''card_update'', ''card_action'', ''discussion_token'', ''discussion_host_turn'',
     ''discussion_assignment'', ''discussion_cancel'', ''discussion_artifact_ack'', ''discussion_host_decision'',
     ''discussion_contribution_delta'', ''discussion_contribution_completed'', ''discussion_artifact_update'',
     ''discussion_node_error'', ''discussion_model_catalog_request'', ''discussion_model_catalog_response'',
     ''discussion_role_recommendation_request'', ''discussion_role_recommendation_response'',
     ''discussion_wire_chunk'']"

definition EXTERNAL_MESSAGE_TYPES :: "string list" where
  "EXTERNAL_MESSAGE_TYPES = [''chat_stream'', ''chat_stream_chunk'', ''chat_stop'', ''chat_stop_result'',
     ''create_opencode_session'', ''opencode_session_created'', ''delete_opencode_session'',
     ''device_status_request'', ''device_status_report'', ''device_control'', ''device_control_result'',
     ''command_result'', ''chatroom_invite'', ''chatroom_message'', ''card_message'', ''card_update'',
     ''card_action'', ''discussion_token'', ''discussion_host_turn'', ''discussion_assignment'',
     ''discussion_cancel'', ''discussion_artifact_ack'', ''discussion_host_decision'',
     ''discussion_contribution_delta'', ''discussion_contribution_completed'', ''discussion_artifact_update'',
     ''discussion_node_error'', ''discussion_model_catalog_request'', ''discussion_model_catalog_response'',
     ''discussion_role_recommendation_request'', ''discussion_role_recommendation_response'',
     ''discussion_wire_chunk'']"

definition cardEnvelopeTypes :: "string list" where
  "cardEnvelopeTypes = [''card_message'', ''card_update'', ''command_result'']"

definition maxCardEnvelopeBytes :: nat where
  "maxCardEnvelopeBytes = 10 * 1024"

definition deviceControlCommands :: "string list" where
  "deviceControlCommands = [''status'', ''disable'', ''stop'', ''enable'', ''start'', ''delete'', ''restart'',
     ''rename_device'', ''recover_runtime'']"

text \<open>The properties of a content that are kept, in the order of the table.\<close>

definition rawContentKeys :: "string list" where
  "rawContentKeys = [''roundRevision'', ''targetRequestId'', ''targetMemberId'', ''summaryMarkdown'',
     ''result'', ''eventType'', ''actorId'', ''protocol_version'', ''stream_id'', ''request_message_id'',
     ''requester_id'', ''conversation_type'', ''conversation_id'', ''text'', ''content'', ''attachments'',
     ''msg_type'', ''service'', ''version'', ''action'', ''payload'', ''timestamp'', ''request_id'', ''requestId'',
     ''source_im_id'', ''sourceImId'', ''destination_im_id'', ''destinationImId'', ''session_id'', ''sessionId'',
     ''chatroom_id'', ''chatroomId'', ''origin_message_uid'', ''originMessageUId'', ''card_id'', ''cardId'',
     ''button_id'', ''buttonId'', ''max_rounds'', ''maxRounds'', ''openclaw_max_rounds'', ''command'', ''type'',
     ''cmd'', ''title'', ''name'', ''status'', ''code'', ''message'', ''data'', ''opencode_session_id'',
     ''protocolVersion'', ''discussionId'', ''stateVersion'', ''round'', ''topic'', ''goal'',
     ''roles'', ''allowedDecisions'', ''remainingRounds'', ''eventSummary'', ''currentArtifact'',
     ''assignmentId'', ''targetId'', ''task'', ''mode'', ''model'', ''role'', ''speakingOrder'', ''roundFocus'',
     ''priorContributions'', ''roundSummaries'', ''userInterjections'', ''attempt'', ''reason'', ''updateId'',
     ''hostPrompt'', ''configVersion'', ''phase'', ''idempotencyKey'', ''artifactId'', ''artifactVersion'',
     ''decision'', ''seq'', ''planSummary'', ''memberPositions'', ''agreements'', ''disagreements'',
     ''openQuestions'', ''nextFocus'', ''recommendation'', ''artifactType'', ''instructions'', ''operation'',
     ''baseVersion'', ''isFinal'', ''category'', ''defaultModel'', ''providers'', ''messageId'', ''sha256'',
     ''chunkIndex'', ''chunkCount'', ''schema'', ''card'', ''max_roles'', ''candidates'',
     ''recommendation_prompt'', ''config_version'', ''node_id'', ''display_name'', ''runtime_type'',
     ''capabilities'', ''default_model'', ''models'', ''role_name'', ''role_prompt'', ''speaking_order'',
     ''error_code'']"

datatype attachment_kind = Image | File

record attachment =
  at_kind :: attachment_kind
  at_url :: jstr
  at_name :: "jstr option"
  at_mimeType :: "jstr option"
  at_size :: "int option"

record normalized =
  nm_messageUid :: jstr
  nm_senderId :: jstr
  nm_targetId :: jstr
  nm_conversationType :: conversation_type
  nm_objectName :: jstr
  nm_text :: "jstr option"
  nm_attachments :: "attachment list"
  nm_rawContent :: "jobj option"
  nm_sentTime :: "jnum option"
  nm_offline :: "bool option"
  nm_direction :: "json option"

datatype message_failure =
    InvalidMessage
  | MessageTooLarge
  | MissingMessageUid
  | InvalidIdentifier
  | InvalidConversationType
  | InvalidContent
  | ConflictingAlias

datatype ignored_code = UnknownMessageType | ServerOnlyMessage | SystemMessage

datatype content_failure = BadContent | ContentTooLarge | AliasConflict

datatype protocol_content =
    PText jstr
  | PProtocol jstr jobj
  | PIgnored ignored_code
  | PInvalid content_failure

datatype slash_command =
    SCommand string "jstr option"
  | SText jstr
  | SInvalid

datatype alias_failure = AliasInvalid | AliasConflicts

subsection \<open>Identifiers and aliases\<close>

definition identifier_text :: "nat \<Rightarrow> json option \<Rightarrow> jstr option" where
  "identifier_text mx v = (case v of
     Some (JStr s) \<Rightarrow> (let t = trim s in if 1 \<le> length t \<and> length t \<le> mx \<and> \<not> has_control t then Some t else None)
   | _ \<Rightarrow> None)"

definition identifier_json :: "nat \<Rightarrow> json \<Rightarrow> json option" where
  "identifier_json mx v = map_option JStr (identifier_text mx (Some v))"

fun text_of :: "json \<Rightarrow> jstr" where
  "text_of (JStr s) = s"
| "text_of _ = []"

definition sameAliasValue :: "json \<Rightarrow> json \<Rightarrow> bool" where
  "sameAliasValue l r \<longleftrightarrow> l = r \<or> stringify l = stringify r"

definition given :: "jobj \<Rightarrow> string \<Rightarrow> json option" where
  "given source k = (case field source k of
     None \<Rightarrow> None | Some v \<Rightarrow> if v = JNull \<or> v = JStr [] then None else Some v)"

text \<open>The value several names may carry: every given one must parse, and to the same value.\<close>

fun alias_from :: "jobj \<Rightarrow> string list \<Rightarrow> (json \<Rightarrow> json option) \<Rightarrow> json option \<Rightarrow> (alias_failure, json option) result" where
  "alias_from source [] parse selected = Inr selected"
| "alias_from source (k # ks) parse selected =
     (case given source k of
        None \<Rightarrow> alias_from source ks parse selected
      | Some v \<Rightarrow>
          (case parse v of
             None \<Rightarrow> Inl AliasInvalid
           | Some p \<Rightarrow>
               if (case selected of None \<Rightarrow> False | Some s \<Rightarrow> \<not> sameAliasValue s p) then Inl AliasConflicts
               else alias_from source ks parse (Some p)))"

definition alias_value :: "jobj \<Rightarrow> string list \<Rightarrow> (json \<Rightarrow> json option) \<Rightarrow> (alias_failure, json option) result" where
  "alias_value source keys parse = alias_from source keys parse None"

definition conversationType :: "json option \<Rightarrow> conversation_type option" where
  "conversationType v =
     (if v = Some (JInt 1) then Some Private else if v = Some (JInt 3) then Some Group
      else if v = Some (JInt 4) then Some Chatroom else None)"

definition finiteNumber :: "json option \<Rightarrow> jnum option" where
  "finiteNumber v = (case v of Some (JNum n) \<Rightarrow> if finite_number n then Some n else None | _ \<Rightarrow> None)"

definition safePositiveInteger :: "json \<Rightarrow> json option" where
  "safePositiveInteger v = (case v of JNum (NInt i) \<Rightarrow> if \<bar>i\<bar> \<le> max_safe \<and> 0 < i then Some v else None | _ \<Rightarrow> None)"

subsection \<open>The content of a message\<close>

definition parseRecordJson :: "(jstr \<Rightarrow> jnum) \<Rightarrow> jstr \<Rightarrow> jobj option" where
  "parseRecordJson cv s =
     (let t = trim s in
      if \<not> starts_with (js ''{'') t then None
      else case json_parse cv t of Some (JObj ob) \<Rightarrow> Some ob | _ \<Rightarrow> None)"

definition is_string :: "json option \<Rightarrow> bool" where
  "is_string v = str_test (\<lambda>s. True) v"

text \<open>
  The text and the object of a content, unwrapped twice at most (\<open>left\<close> counts what is left).  The last
  round never unwraps, so the statement after the loop of the source is not reached.
\<close>

fun decode_loop :: "(jstr \<Rightarrow> jnum) \<Rightarrow> nat \<Rightarrow> json \<Rightarrow> jobj option \<Rightarrow> (jstr option \<times> jobj option) option" where
  "decode_loop cv left (JStr s) raw =
     (if byte_length s > MAX_RONGCLOUD_MESSAGE_BYTES then None
      else case (parseRecordJson cv s, left) of
        (Some p, Suc l) \<Rightarrow> decode_loop cv l (JObj p) (Some p)
      | _ \<Rightarrow> Some (Some s, raw))"
| "decode_loop cv left (JObj ob) raw =
     (case field ob ''content'' of
        Some (JStr nested) \<Rightarrow>
          (case (parseRecordJson cv nested, left) of
             (Some p, Suc l) \<Rightarrow>
               if is_string (field ob ''msg_type'') then Some (None, Some ob) else decode_loop cv l (JObj p) (Some p)
           | _ \<Rightarrow> Some (Some nested, Some ob))
      | _ \<Rightarrow> Some (None, Some ob))"
| "decode_loop cv left v raw = None"

definition decodeContent :: "(jstr \<Rightarrow> jnum) \<Rightarrow> json option \<Rightarrow> (jstr option \<times> jobj option) option" where
  "decodeContent cv input = (case input of None \<Rightarrow> None | Some v \<Rightarrow> decode_loop cv 2 v None)"

text \<open>\<open>a ?? b\<close>\<close>

definition nullish :: "json option \<Rightarrow> json option \<Rightarrow> json option" where
  "nullish a b = (if a = None \<or> a = Some JNull then b else a)"

definition attachment_kind_of :: "jobj \<Rightarrow> attachment_kind option" where
  "attachment_kind_of ob =
     (if is_lit (field ob ''kind'') ''image'' \<or> is_lit (field ob ''type'') ''image'' then Some Image
      else if is_lit (field ob ''kind'') ''file'' \<or> is_lit (field ob ''type'') ''file'' then Some File
      else None)"

definition attachment_size_of :: "json option \<Rightarrow> int option" where
  "attachment_size_of v = (case v of
     Some (JNum (NInt i)) \<Rightarrow> if \<bar>i\<bar> \<le> max_safe \<and> 0 \<le> i then Some i else None | _ \<Rightarrow> None)"

definition attachment_of :: "json \<Rightarrow> attachment option" where
  "attachment_of v = (case v of
     JObj ob \<Rightarrow>
       (case (attachment_kind_of ob,
              identifier_text 2048 (nullish (nullish (field ob ''url'') (field ob ''fileUrl'')) (field ob ''imageUri''))) of
          (Some k, Some u) \<Rightarrow> Some \<lparr>at_kind = k, at_url = u, at_name = identifier_text 512 (field ob ''name''),
             at_mimeType = identifier_text 128 (field ob ''mimeType''),
             at_size = attachment_size_of (field ob ''size'')\<rparr>
        | _ \<Rightarrow> None)
   | _ \<Rightarrow> None)"

definition normalizeAttachments :: "jobj option \<Rightarrow> attachment list" where
  "normalizeAttachments raw = (case raw of
     None \<Rightarrow> []
   | Some ob \<Rightarrow> (case field ob ''attachments'' of
        Some (JArr xs) \<Rightarrow> List.map_filter attachment_of (take 16 xs) | _ \<Rightarrow> []))"

text \<open>An array with an element that cannot be copied is not copied, an object loses such a property.\<close>

primrec cloneSafeJson :: "json \<Rightarrow> nat \<Rightarrow> json option"
  and clone_safe_items :: "json list \<Rightarrow> nat \<Rightarrow> json list option"
  and clone_safe_props :: "(jstr \<times> json) list \<Rightarrow> nat \<Rightarrow> jobj"
  and clone_safe_prop :: "jstr \<times> json \<Rightarrow> nat \<Rightarrow> jobj" where
  "cloneSafeJson JNull d = Some JNull"
| "cloneSafeJson (JBool b) d = Some (JBool b)"
| "cloneSafeJson (JNum n) d = (if finite_number n then Some (JNum n) else None)"
| "cloneSafeJson (JStr s) d = Some (JStr s)"
| "cloneSafeJson (JArr xs) d = (if d \<ge> 32 then None else map_option JArr (clone_safe_items xs (Suc d)))"
| "cloneSafeJson (JObj kvs) d = (if d \<ge> 32 then None else Some (JObj (clone_safe_props kvs (Suc d))))"
| "clone_safe_items [] d = Some []"
| "clone_safe_items (x # xs) d =
     (case cloneSafeJson x d of None \<Rightarrow> None | Some y \<Rightarrow> map_option ((#) y) (clone_safe_items xs d))"
| "clone_safe_props [] d = []"
| "clone_safe_props (p # ps) d = clone_safe_prop p d @ clone_safe_props ps d"
| "clone_safe_prop (k, v) d =
     (if dangerous k then [] else case cloneSafeJson v d of None \<Rightarrow> [] | Some w \<Rightarrow> [(k, w)])"

definition attachment_kind_text :: "attachment_kind \<Rightarrow> json" where
  "attachment_kind_text k = (case k of Image \<Rightarrow> JLit ''image'' | File \<Rightarrow> JLit ''file'')"

definition attachment_json :: "attachment \<Rightarrow> json" where
  "attachment_json a = JObj ([(js ''kind'', attachment_kind_text (at_kind a)), (js ''url'', JStr (at_url a))]
     @ copied ''name'' (map_option JStr (at_name a)) @ copied ''mimeType'' (map_option JStr (at_mimeType a))
     @ copied ''size'' (map_option JInt (at_size a)))"

definition rebuildRawContent :: "jobj \<Rightarrow> attachment list \<Rightarrow> jobj" where
  "rebuildRawContent ob attachments =
     concat (map (\<lambda>k. if k = ''attachments'' then []
                      else case field ob k of None \<Rightarrow> [] | Some v \<Rightarrow> copied k (cloneSafeJson v 0)) rawContentKeys)
     @ (if own_key ob ''attachments'' then [(js ''attachments'', JArr (map attachment_json attachments))] else [])"

subsection \<open>Normalisation\<close>

definition alias_conflict :: "(alias_failure, json option) result \<Rightarrow> bool" where
  "alias_conflict r \<longleftrightarrow> r = Inl AliasConflicts"

definition first_bool :: "json option \<Rightarrow> json option \<Rightarrow> bool option" where
  "first_bool a b = (case a of Some (JBool x) \<Rightarrow> Some x | _ \<Rightarrow> (case b of Some (JBool x) \<Rightarrow> Some x | _ \<Rightarrow> None))"

definition number_or_string :: "json option \<Rightarrow> bool" where
  "number_or_string v = (case v of Some (JNum n) \<Rightarrow> True | Some (JStr s) \<Rightarrow> True | _ \<Rightarrow> False)"

definition normalize_safe :: "(jstr \<Rightarrow> jnum) \<Rightarrow> jobj \<Rightarrow> (message_failure, normalized) result" where
  "normalize_safe cv raw =
     (let globalUid = alias_value raw [''messageUId'', ''messageUID'', ''messageUid''] (identifier_json 256);
          uid = (if globalUid = Inr None then alias_value raw [''messageId''] (identifier_json 256) else globalUid);
          sender = alias_value raw [''senderUserId'', ''senderId''] (identifier_json 256);
          objectName = alias_value raw [''messageType'', ''objectName'', ''messageName''] (identifier_json 128)
      in case (uid, sender, objectName) of
           (Inr u, Inr s, Inr n) \<Rightarrow>
             (case u of
                None \<Rightarrow> Inl MissingMessageUid
              | Some u' \<Rightarrow>
                  (case (s, identifier_text 256 (field raw ''targetId''), n) of
                     (Some s', Some target, Some n') \<Rightarrow>
                       (case conversationType (field raw ''conversationType'') of
                          None \<Rightarrow> Inl InvalidConversationType
                        | Some ct \<Rightarrow>
                            (case decodeContent cv (field raw ''content'') of
                               None \<Rightarrow> Inl InvalidContent
                             | Some (txt, content) \<Rightarrow>
                                 let attachments = normalizeAttachments content in
                                 Inr \<lparr>nm_messageUid = text_of u', nm_senderId = text_of s', nm_targetId = target,
                                   nm_conversationType = ct, nm_objectName = text_of n', nm_text = txt,
                                   nm_attachments = attachments,
                                   nm_rawContent = map_option (\<lambda>ob. rebuildRawContent ob attachments) content,
                                   nm_sentTime = finiteNumber (field raw ''sentTime''),
                                   nm_offline = first_bool (field raw ''isOffLineMessage'') (field raw ''offline''),
                                   nm_direction = (if number_or_string (field raw ''messageDirection'')
                                     then field raw ''messageDirection''
                                     else if number_or_string (field raw ''direction'') then field raw ''direction''
                                     else None)\<rparr>))
                   | _ \<Rightarrow> Inl InvalidIdentifier))
         | _ \<Rightarrow> if alias_conflict uid \<or> alias_conflict sender \<or> alias_conflict objectName then Inl ConflictingAlias
                else Inl InvalidIdentifier)"

definition normalizeRongCloudMessage :: "(jstr \<Rightarrow> jnum) \<Rightarrow> jsval \<Rightarrow> (message_failure, normalized) result" where
  "normalizeRongCloudMessage cv raw =
     (case passiveSnapshot raw MAX_RONGCLOUD_MESSAGE_BYTES of
        Inl OversizedClone \<Rightarrow> Inl MessageTooLarge
      | Inl InvalidClone \<Rightarrow> Inl InvalidMessage
      | Inr (JObj ob, bytes) \<Rightarrow> normalize_safe cv ob
      | Inr _ \<Rightarrow> Inl InvalidMessage)"

subsection \<open>Protocol content\<close>

text \<open>\<open>Inl\<close> a text, \<open>Inr\<close> an object with a message type; three rounds, then one last look.\<close>

fun unwrapProtocolValue :: "(jstr \<Rightarrow> jnum) \<Rightarrow> nat \<Rightarrow> json \<Rightarrow> (jstr + jobj) option" where
  "unwrapProtocolValue cv 0 v =
     (case v of JObj ob \<Rightarrow> if is_string (field ob ''msg_type'') then Some (Inr ob) else None | _ \<Rightarrow> None)"
| "unwrapProtocolValue cv (Suc n) v = (case v of
     JStr s \<Rightarrow>
       if byte_length s > MAX_RONGCLOUD_MESSAGE_BYTES then None
       else (case parseRecordJson cv s of None \<Rightarrow> Some (Inl s) | Some p \<Rightarrow> unwrapProtocolValue cv n (JObj p))
   | JObj ob \<Rightarrow>
       if is_string (field ob ''msg_type'') then Some (Inr ob)
       else (case field ob ''content'' of None \<Rightarrow> None | Some c \<Rightarrow> unwrapProtocolValue cv n c)
   | _ \<Rightarrow> None)"

text \<open>\<open>!==\<close>: objects and arrays that were parsed apart are never the same.\<close>

definition strictly_differ :: "json \<Rightarrow> json \<Rightarrow> bool" where
  "strictly_differ a b \<longleftrightarrow> a \<noteq> b \<or> (case a of JArr xs \<Rightarrow> True | JObj ob \<Rightarrow> True | _ \<Rightarrow> False)"

definition legacy_groups :: "(string \<times> string list \<times> (json \<Rightarrow> json option)) list" where
  "legacy_groups =
     [(''request_id'', [''request_id'', ''requestId''], identifier_json 256),
      (''source_im_id'', [''source_im_id'', ''sourceImId''], identifier_json 256),
      (''destination_im_id'', [''destination_im_id'', ''destinationImId''], identifier_json 256),
      (''session_id'', [''session_id'', ''sessionId''], identifier_json 256),
      (''chatroom_id'', [''chatroom_id'', ''chatroomId''], identifier_json 256),
      (''origin_message_uid'', [''origin_message_uid'', ''originMessageUId''], identifier_json 256),
      (''cardId'', [''cardId'', ''card_id''], identifier_json 256),
      (''buttonId'', [''buttonId'', ''button_id''], identifier_json 256),
      (''max_rounds'', [''max_rounds'', ''maxRounds'', ''openclaw_max_rounds''], safePositiveInteger),
      (''command'', [''command'', ''action'', ''type'', ''cmd''], identifier_json 64)]"

text \<open>The groups in order; the first failure ends the reading.\<close>

fun select_groups :: "jobj \<Rightarrow> (string \<times> string list \<times> (json \<Rightarrow> json option)) list \<Rightarrow> jobj option" where
  "select_groups source [] = Some []"
| "select_groups source ((output, keys, parse) # r) =
     (case alias_value source keys parse of
        Inl e \<Rightarrow> None
      | Inr v \<Rightarrow> map_option (\<lambda>rest. copied output v @ rest) (select_groups source r))"

definition legacy_copied :: "string list" where
  "legacy_copied = [''content'', ''title'', ''name'', ''status'', ''message'', ''data'', ''opencode_session_id'', ''timestamp'']"

text \<open>The payload a textual content carries is merged in, unless it contradicts the message.\<close>

definition legacy_source :: "(jstr \<Rightarrow> jnum) \<Rightarrow> jobj \<Rightarrow> jobj option" where
  "legacy_source cv ob = (case field ob ''content'' of
     Some (JStr s) \<Rightarrow>
       (case parseRecordJson cv s of
          None \<Rightarrow> Some ob
        | Some payload \<Rightarrow>
            if list_ex (\<lambda>(k, v). k \<noteq> js ''content'' \<and>
                 (case map_of ob k of None \<Rightarrow> False | Some w \<Rightarrow> strictly_differ w v)) payload
            then None else Some (spread payload ob))
   | _ \<Rightarrow> Some ob)"

definition canonicalLegacy :: "(jstr \<Rightarrow> jnum) \<Rightarrow> jobj \<Rightarrow> jobj option" where
  "canonicalLegacy cv ob =
     (case legacy_source cv ob of
        None \<Rightarrow> None
      | Some source \<Rightarrow>
          map_option (\<lambda>selected. copied ''msg_type'' (field source ''msg_type'') @ selected
              @ concat (map (\<lambda>k. copied k (field source k)) legacy_copied))
            (select_groups source legacy_groups))"

definition validLegacySemantics :: "jstr \<Rightarrow> jobj \<Rightarrow> bool" where
  "validLegacySemantics msgType v =
     (if msgType = js ''chatroom_invite'' then is_string (field v ''chatroom_id'')
      else if msgType = js ''chatroom_message'' then
        is_string (field v ''chatroom_id'') \<and> str_test (\<lambda>s. 0 < length s) (field v ''content'')
      else if msgType = js ''device_status_report'' \<or> msgType = js ''device_control_result'' then
        is_string (field v ''request_id'')
      else if msgType = js ''command_result'' then
        obj_test (\<lambda>data. obj_test (\<lambda>c. True) (field data ''card_state'')) (field v ''data'')
        \<or> is_string (field v ''request_id'')
      else True)"

definition recovery_keys :: "string list" where
  "recovery_keys = [''msg_type'', ''request_id'', ''source_im_id'', ''destination_im_id'', ''command'']"

text \<open>Recovering a runtime is accepted only as the exact message, without aliases.\<close>

definition recovery_ok :: "jobj \<Rightarrow> jobj \<Rightarrow> bool" where
  "recovery_ok value0 canonical \<longleftrightarrow> length value0 = length recovery_keys
     \<and> list_all (\<lambda>(k, v). k \<in> js ` set recovery_keys) value0
     \<and> is_string (field canonical ''request_id'') \<and> is_string (field canonical ''source_im_id'')
     \<and> is_string (field canonical ''destination_im_id'')"

definition classify :: "(jstr \<Rightarrow> jnum) \<Rightarrow> jobj \<Rightarrow> protocol_content" where
  "classify cv ob =
     (let msgType = str_field ob ''msg_type'' in
      if msgType = js ''discussion_event'' then PIgnored ServerOnlyMessage
      else if msgType = js ''system_notify'' then PIgnored SystemMessage
      else if msgType \<notin> js ` set EXTERNAL_MESSAGE_TYPES then PIgnored UnknownMessageType
      else if msgType \<in> js ` set cardEnvelopeTypes \<and> byte_length (stringify (JObj ob)) > maxCardEnvelopeBytes
      then PInvalid ContentTooLarge
      else if msgType \<in> js ` set v2AndCardTypes then PProtocol msgType ob
      else case canonicalLegacy cv ob of
        None \<Rightarrow> PInvalid AliasConflict
      | Some canonical \<Rightarrow>
          if msgType = js ''device_control''
             \<and> \<not> str_test (\<lambda>c. c \<in> js ` set deviceControlCommands) (field canonical ''command'') then PInvalid BadContent
          else if msgType = js ''device_control'' \<and> is_lit (field canonical ''command'') ''recover_runtime''
             \<and> \<not> recovery_ok ob canonical then PInvalid BadContent
          else if \<not> validLegacySemantics msgType canonical then PInvalid BadContent
          else PProtocol msgType canonical)"

definition parseProtocolContent :: "(jstr \<Rightarrow> jnum) \<Rightarrow> jsval \<Rightarrow> protocol_content" where
  "parseProtocolContent cv input =
     (case passiveSnapshot input MAX_RONGCLOUD_MESSAGE_BYTES of
        Inl OversizedClone \<Rightarrow> PInvalid ContentTooLarge
      | Inl InvalidClone \<Rightarrow> PInvalid BadContent
      | Inr (v, bytes) \<Rightarrow>
          (case unwrapProtocolValue cv 3 v of
             None \<Rightarrow> PInvalid BadContent
           | Some (Inl t) \<Rightarrow> PText t
           | Some (Inr ob) \<Rightarrow> classify cv ob))"

subsection \<open>Slash commands\<close>

definition noArgument :: "string list" where
  "noArgument = [''/new'', ''/session'', ''/sessions'', ''/status'', ''/stop'']"

definition withArgument :: "string list" where
  "withArgument = [''/switch'', ''/delete'']"

definition command_prefix :: "string \<Rightarrow> jstr" where
  "command_prefix name = js (name @ '' '')"

text \<open>What one name says about the trimmed text: \<open>None\<close> when the next name is tried.\<close>

definition plain_command :: "jstr \<Rightarrow> string \<Rightarrow> slash_command option" where
  "plain_command t name =
     (if t = js name then Some (SCommand name None)
      else if starts_with (command_prefix name) t then Some SInvalid else None)"

definition argument_command :: "jstr \<Rightarrow> string \<Rightarrow> slash_command option" where
  "argument_command t name =
     (if t = js name then Some SInvalid
      else if starts_with (command_prefix name) t then
        let argument = drop (length name + 1) t in
        if 32 \<in> set argument \<or> identifier_text 256 (Some (JStr argument)) = None then Some SInvalid
        else Some (SCommand name (Some argument))
      else None)"

fun first_some :: "('a \<Rightarrow> 'b option) \<Rightarrow> 'a list \<Rightarrow> 'b option" where
  "first_some f [] = None"
| "first_some f (x # xs) = (case f x of None \<Rightarrow> first_some f xs | Some y \<Rightarrow> Some y)"

definition parseSlashCommand :: "jstr \<Rightarrow> slash_command" where
  "parseSlashCommand text0 =
     (let t = trim text0 in
      case first_some (plain_command t) noArgument of
        Some c \<Rightarrow> c
      | None \<Rightarrow> (case first_some (argument_command t) withArgument of Some c \<Rightarrow> c | None \<Rightarrow> SText text0))"

subsection \<open>Legacy envelopes\<close>

datatype envelope_error =
    LegacyContentTooLarge
  | InvalidActiveContent
  | InvalidLegacyEnvelope
  | InvalidLegacyType
  | RequestIdRequired
  | InvalidLegacyContent
  | EnvelopeTooLarge

definition legacyTypes :: "string list" where
  "legacyTypes = [''opencode_session_created'', ''device_status_report'', ''device_control_result'']"

definition bad_optional :: "jobj \<Rightarrow> string \<Rightarrow> bool" where
  "bad_optional ob k \<longleftrightarrow> field ob k \<noteq> None \<and> identifier_text 256 (field ob k) = None"

definition text_property :: "string \<Rightarrow> jstr option \<Rightarrow> jobj" where
  "text_property k v = copied k (map_option JStr v)"

definition build_envelope :: "jobj \<Rightarrow> (envelope_error, jobj) result" where
  "build_envelope ob =
     (if \<not> str_test (\<lambda>t. t \<in> js ` set legacyTypes) (field ob ''msgType'') then Inl InvalidLegacyType
      else if bad_optional ob ''requestId'' \<or> bad_optional ob ''sourceImId'' \<or> bad_optional ob ''destinationImId''
        \<or> \<not> integer_from (field ob ''timestamp'') 0 then Inl InvalidLegacyEnvelope
      else if (is_lit (field ob ''msgType'') ''device_status_report'' \<or> is_lit (field ob ''msgType'') ''device_control_result'')
        \<and> identifier_text 256 (field ob ''requestId'') = None then Inl RequestIdRequired
      else case field ob ''content'' of
        None \<Rightarrow> Inl InvalidLegacyContent
      | Some c \<Rightarrow>
          let content = (case c of JStr s \<Rightarrow> s | _ \<Rightarrow> stringify c);
              envelope = copied ''msg_type'' (field ob ''msgType'')
                @ text_property ''request_id'' (identifier_text 256 (field ob ''requestId''))
                @ text_property ''source_im_id'' (identifier_text 256 (field ob ''sourceImId''))
                @ text_property ''destination_im_id'' (identifier_text 256 (field ob ''destinationImId''))
                @ [(js ''content'', JStr content)] @ copied ''timestamp'' (field ob ''timestamp'')
          in if byte_length (stringify (JObj envelope)) > MAX_RONGCLOUD_MESSAGE_BYTES then Inl EnvelopeTooLarge
             else Inr envelope)"

definition buildLegacyEnvelope :: "jsval \<Rightarrow> (envelope_error, jobj) result" where
  "buildLegacyEnvelope input =
     (case passiveSnapshot input MAX_RONGCLOUD_MESSAGE_BYTES of
        Inl OversizedClone \<Rightarrow> Inl LegacyContentTooLarge
      | Inl InvalidClone \<Rightarrow> Inl InvalidActiveContent
      | Inr (JObj ob, bytes) \<Rightarrow> build_envelope ob
      | Inr _ \<Rightarrow> Inl InvalidLegacyEnvelope)"

end
