(* ===== verification/PassiveProofs.thy ===== *)
theory PassiveProofs imports Passive Printed begin

text \<open>
  The snapshot of a value that is plain JSON already is that value, as long as it is within the limits; so a
  message the sender kept within them is seen by the receiver as it was built.
\<close>

subsection \<open>The text of a value is no longer than its serialization\<close>

lemma length_bytes: "length s \<le> byte_length s"
proof (induction s rule: code_points.induct)
  case (2 u)
  thus ?case by (simp add: byte_length_def utf8_encode_def encode_point_def)
next
  case (3 u v r)
  show ?case
  proof (cases "is_high u \<and> is_low v")
    case True
    hence "length (encode_point (pair_point u v)) = 4"
      by (auto simp: encode_point_def pair_point_def is_surrogate_def)
    thus ?thesis using 3 True by (simp add: byte_length_def utf8_encode_def)
  next
    case False
    moreover have "1 \<le> length (encode_point (unat u))" by (simp add: encode_point_def)
    moreover from False have "code_points (u # v # r) = unat u # code_points (v # r)" by auto
    ultimately show ?thesis using 3 by (simp add: byte_length_def utf8_encode_def)
  qed
qed simp

lemma unit_bytes: "byte_length [u] \<le> byte_length (quote_unit u)"
proof (cases "quote_unit u = [u]")
  case False
  hence ascii: "\<forall>x \<in> set (quote_unit u). unat x < 128" by (intro quote_unit_ascii) simp
  show ?thesis
  proof (cases "is_high u \<or> is_low u")
    case True
    hence "length (quote_unit u) = 6" by (auto simp: quote_unit_def escape_u_def Let_def is_high_def is_low_def)
    moreover have "byte_length [u] \<le> 4" by (simp add: byte_length_def utf8_encode_def encode_point_def)
    ultimately show ?thesis using well_formed_ascii [OF ascii] by simp
  next
    case other: False
    hence "unat u < 128" using False by (auto simp: quote_unit_def split: if_splits)
    hence "byte_length [u] = 1" by (simp add: well_formed_unit)
    moreover have "1 \<le> length (quote_unit u)" by (simp add: quote_unit_def escape_u_def Let_def)
    ultimately show ?thesis using well_formed_ascii [OF ascii] by simp
  qed
qed simp

lemma quote_units_bytes: "byte_length s \<le> byte_length (quote_units s)"
proof (induction s rule: quote_units.induct)
  case (3 u v r)
  show ?case
  proof (cases "is_high u \<and> is_low v")
    case True
    thus ?thesis using 3 by (simp add: byte_length_def utf8_encode_def)
  next
    case False
    hence "byte_length (u # v # r) = byte_length [u] + byte_length (v # r)"
      by (auto simp: byte_length_def utf8_encode_def)
    moreover have "byte_length (quote_units (u # v # r)) = byte_length (quote_unit u) + byte_length (quote_units (v # r))"
      using False quote_unit_form [of u] byte_length_append [of "quote_unit u"] by auto
    ultimately show ?thesis using 3 False unit_bytes [of u] by auto
  qed
qed (simp_all add: unit_bytes)

lemma quote_bytes: "byte_length s \<le> byte_length (quote s)"
proof -
  have "byte_length (quote s) = 1 + byte_length (quote_units s @ [34])"
    using well_formed_Cons [of 34 "quote_units s @ [34]"] well_formed_append [of "quote_units s" "[34]"]
      quote_units_form [of s] well_formed_unit [of 34] by (simp add: quote_def)
  also have "\<dots> \<ge> byte_length (quote_units s)" using byte_length_append [of "quote_units s" "[34]"] quote_units_form [of s] by simp
  finally show ?thesis using quote_units_bytes [of s] by simp
qed

lemma join_comma_bytes: "\<forall>x \<in> set xs. well_formed x \<Longrightarrow> sum_list (map byte_length xs) \<le> byte_length (join_comma xs)"
proof (induction xs rule: join_comma.induct)
  case (3 x y r)
  have "byte_length (join_comma (x # y # r)) = byte_length x + byte_length (44 # join_comma (y # r))"
    using 3 byte_length_append [of x] by simp
  also have "byte_length (44 # join_comma (y # r)) = 1 + byte_length (join_comma (y # r))"
    using 3 join_comma_form [of "y # r"] well_formed_Cons [of 44] by simp
  finally show ?case using 3 by simp
qed simp_all

lemma bracket_bytes: "well_formed s \<Longrightarrow> unat a < 128 \<Longrightarrow> unat z < 128 \<Longrightarrow> byte_length (a # s @ [z]) = byte_length s + 2"
  using well_formed_Cons [of a "s @ [z]"] well_formed_append [of s "[z]"] well_formed_unit [of z]
    byte_length_append [of s "[z]"] by simp

subsection \<open>Plain JSON as a foreign value\<close>

primrec plain_value :: "json \<Rightarrow> jsval" where
  "plain_value JNull = VNull"
| "plain_value (JBool b) = VBool b"
| "plain_value (JNum n) = VNum n"
| "plain_value (JStr s) = VStr s"
| "plain_value (JArr xs) = VArr (map (Data True) (map plain_value xs)) []"
| "plain_value (JObj kvs) = VObj True (map (map_prod id (Data True)) (map (map_prod id plain_value) kvs))"

primrec item_count :: "json \<Rightarrow> nat" where
  "item_count JNull = 0"
| "item_count (JBool b) = 0"
| "item_count (JNum n) = 0"
| "item_count (JStr s) = 0"
| "item_count (JArr xs) = 1 + length xs + sum_list (map item_count xs)"
| "item_count (JObj kvs) = 1 + length kvs + sum_list (map snd (map (map_prod id item_count) kvs))"

primrec text_bytes :: "json \<Rightarrow> nat" where
  "text_bytes JNull = 0"
| "text_bytes (JBool b) = 0"
| "text_bytes (JNum n) = 0"
| "text_bytes (JStr s) = byte_length s"
| "text_bytes (JArr xs) = sum_list (map text_bytes xs)"
| "text_bytes (JObj kvs) = sum_list (map (\<lambda>(k, n). byte_length k + n) (map (map_prod id text_bytes) kvs))"

lemma object_counts:
  "item_count (JObj kvs) = 1 + length kvs + sum_list (map (\<lambda>(k, v). item_count v) kvs)"
  "text_bytes (JObj kvs) = sum_list (map (\<lambda>(k, v). byte_length k + text_bytes v) kvs)"
  by (simp_all add: o_def case_prod_unfold)

lemma text_bytes_printed: "wf_json cv j \<Longrightarrow> text_bytes j \<le> byte_length (stringify j)"
proof (induction j)
  case (JStr s)
  show ?case by (simp add: quote_bytes)
next
  case (JArr xs)
  have w: "\<forall>x \<in> set (map stringify xs). well_formed x" using JArr.prems by (auto intro: well_formed_stringify)
  have "sum_list (map text_bytes xs) \<le> sum_list (map byte_length (map stringify xs))"
    using JArr by (auto simp: o_def intro!: sum_list_mono)
  also have "\<dots> \<le> byte_length (join_comma (map stringify xs))" by (rule join_comma_bytes [OF w])
  finally show ?case using bracket_bytes [OF join_comma_form [OF w], of 91 93] by simp
next
  case (JObj kvs)
  let ?t = "\<lambda>(k, v). quote k @ 58 # stringify v"
  have m: "well_formed (?t p) \<and> byte_length (fst p) + text_bytes (snd p) \<le> byte_length (?t p)" if "p \<in> set kvs" for p
  proof -
    obtain k v where p: "p = (k, v)" by force
    have v: "wf_json cv v" using JObj.prems that p by auto
    hence t: "text_bytes v \<le> byte_length (stringify v)" using JObj.IH [of p v] that p by auto
    have s: "well_formed (58 # stringify v)" "byte_length (58 # stringify v) = 1 + byte_length (stringify v)"
      using well_formed_Cons [of 58] well_formed_stringify [OF v] by simp_all
    have "byte_length (quote k @ 58 # stringify v) = byte_length (quote k) + byte_length (58 # stringify v)"
      by (rule byte_length_append) (simp add: quote_form)
    moreover have "well_formed (quote k @ 58 # stringify v)" by (intro well_formed_append s(1)) (simp add: quote_form)
    ultimately show ?thesis using s t quote_bytes [of k] p by simp
  qed
  have w: "\<forall>x \<in> set (map ?t kvs). well_formed x" using m by auto
  have "text_bytes (JObj kvs) \<le> sum_list (map byte_length (map ?t kvs))"
    using m by (auto simp: o_def case_prod_beta intro!: sum_list_mono)
  also have "\<dots> \<le> byte_length (join_comma (map ?t kvs))" by (rule join_comma_bytes [OF w])
  finally show ?case using bracket_bytes [OF join_comma_form [OF w], of 123 125] by simp
qed simp_all

definition spend :: "json \<Rightarrow> budget \<Rightarrow> budget" where
  "spend j b = b\<lparr>b_items := b_items b + item_count j, b_textBytes := b_textBytes b + text_bytes j\<rparr>"

definition affords :: "budget \<Rightarrow> nat \<Rightarrow> nat \<Rightarrow> bool" where
  "affords b n t \<longleftrightarrow> b_items b + n \<le> MAX_PASSIVE_JSON_ITEMS \<and> b_textBytes b + t \<le> b_maxBytes b"

lemma accountText_affordable:
  "b_textBytes b + byte_length s \<le> b_maxBytes b \<Longrightarrow>
   accountText s b = (False, b\<lparr>b_textBytes := b_textBytes b + byte_length s\<rparr>)"
  using length_bytes [of s] by (simp add: accountText_def Let_def)

lemma embed_neq [simp]: "plain_value v \<noteq> VUndefined" "plain_value v \<noteq> VCallable"
  by (cases v; simp)+

lemma clone_items_embed:
  assumes "\<And>x b. x \<in> set xs \<Longrightarrow> affords b (item_count x) (text_bytes x) \<Longrightarrow> clonePassiveJson (plain_value x) b d = (Inr x, spend x b)"
    and "affords b (sum_list (map item_count xs)) (sum_list (map text_bytes xs))"
  shows "clone_items (map (Data True) (map plain_value xs)) b d =
    (Inr xs, b\<lparr>b_items := b_items b + sum_list (map item_count xs), b_textBytes := b_textBytes b + sum_list (map text_bytes xs)\<rparr>)"
  using assms
proof (induction xs arbitrary: b)
  case (Cons x xs)
  have "clonePassiveJson (plain_value x) b d = (Inr x, spend x b)" using Cons.prems by (auto simp: affords_def)
  moreover have "affords (spend x b) (sum_list (map item_count xs)) (sum_list (map text_bytes xs))"
    using Cons.prems(2) by (simp add: affords_def spend_def)
  ultimately show ?case using Cons.IH [of "spend x b"] Cons.prems(1) by (simp add: spend_def algebra_simps)
qed simp

lemma clone_props_embed:
  assumes "\<And>k x b. (k, x) \<in> set kvs \<Longrightarrow> affords b (item_count x) (text_bytes x) \<Longrightarrow> clonePassiveJson (plain_value x) b d = (Inr x, spend x b)"
    and "\<And>k x. (k, x) \<in> set kvs \<Longrightarrow> \<not> dangerous k"
    and "affords b (sum_list (map (\<lambda>(k, v). item_count v) kvs)) (sum_list (map (\<lambda>(k, v). byte_length k + text_bytes v) kvs))"
  shows "clone_props (map (map_prod id (Data True)) (map (map_prod id plain_value) kvs)) b d acc =
    (Inr (fold (\<lambda>(k, v) ob. obj_set ob k v) kvs acc),
     b\<lparr>b_items := b_items b + sum_list (map (\<lambda>(k, v). item_count v) kvs),
       b_textBytes := b_textBytes b + sum_list (map (\<lambda>(k, v). byte_length k + text_bytes v) kvs)\<rparr>)"
  using assms
proof (induction kvs arbitrary: b acc)
  case (Cons p kvs)
  obtain k x where p: "p = (k, x)" by force
  let ?b = "b\<lparr>b_textBytes := b_textBytes b + byte_length k\<rparr>"
  have "accountText k b = (False, ?b)" using Cons.prems(3) p by (intro accountText_affordable) (simp add: affords_def)
  moreover have "affords ?b (item_count x) (text_bytes x)" using Cons.prems(3) p by (simp add: affords_def)
  moreover from this have "clonePassiveJson (plain_value x) ?b d = (Inr x, spend x ?b)" using Cons.prems(1) [of k x ?b] p by simp
  moreover have a: "affords (spend x ?b) (sum_list (map (\<lambda>(k, v). item_count v) kvs)) (sum_list (map (\<lambda>(k, v). byte_length k + text_bytes v) kvs))"
    using Cons.prems(3) p by (simp add: affords_def spend_def)
  have n: "\<not> dangerous k" using Cons.prems(2) [of k x] p by simp
  have ih: "clone_props (map (map_prod id (Data True)) (map (map_prod id plain_value) kvs)) (spend x ?b) d (obj_set acc k x) =
    (Inr (fold (\<lambda>(k, v) ob. obj_set ob k v) kvs (obj_set acc k x)),
     spend x ?b\<lparr>b_items := b_items (spend x ?b) + sum_list (map (\<lambda>(k, v). item_count v) kvs),
       b_textBytes := b_textBytes (spend x ?b) + sum_list (map (\<lambda>(k, v). byte_length k + text_bytes v) kvs)\<rparr>)"
  proof (rule Cons.IH [OF _ _ a])
    show "clonePassiveJson (plain_value y) b' d = (Inr y, spend y b')"
      if "(k', y) \<in> set kvs" "affords b' (item_count y) (text_bytes y)" for k' y b'
      using Cons.prems(1) [of k' y b'] that by simp
    show "\<not> dangerous k'" if "(k', y) \<in> set kvs" for k' y using Cons.prems(2) [of k' y] that by simp
  qed
  ultimately show ?case using ih n p by (simp add: spend_def algebra_simps id_def)
qed simp

lemma clone_embed:
  "safe_json j (MAX_PASSIVE_JSON_DEPTH - d) \<Longrightarrow> wf_json cv j \<Longrightarrow> affords b (item_count j) (text_bytes j) \<Longrightarrow>
   clonePassiveJson (plain_value j) b d = (Inr j, spend j b)"
proof (induction j arbitrary: b d)
  case (JStr s)
  thus ?case by (simp add: affords_def accountText_affordable spend_def)
next
  case (JArr xs)
  let ?b = "count_items (length xs) (count_items 1 b)"
  have "clonePassiveJson (plain_value x) b' (Suc d) = (Inr x, spend x b')"
    if "x \<in> set xs" "affords b' (item_count x) (text_bytes x)" for x b'
    using JArr.IH [of x "Suc d" b'] JArr.prems that by simp
  moreover have "affords ?b (sum_list (map item_count xs)) (sum_list (map text_bytes xs))"
    using JArr.prems(3) by (simp add: affords_def count_items_def)
  ultimately have "clone_items (map (Data True) (map plain_value xs)) ?b (Suc d) =
      (Inr xs, ?b\<lparr>b_items := b_items ?b + sum_list (map item_count xs), b_textBytes := b_textBytes ?b + sum_list (map text_bytes xs)\<rparr>)"
    by (rule clone_items_embed)
  thus ?case using JArr.prems
    by (simp add: affords_def over_items_def count_items_def spend_def Let_def)
next
  case (JObj kvs)
  let ?b = "count_items (length kvs) (count_items 1 b)"
  have c: "clonePassiveJson (plain_value x) b' (Suc d) = (Inr x, spend x b')"
    if "(k, x) \<in> set kvs" "affords b' (item_count x) (text_bytes x)" for k x b'
    using JObj.IH [of "(k, x)" x "Suc d" b'] JObj.prems that by auto
  have n: "\<not> dangerous k" if "(k, x) \<in> set kvs" for k x using JObj.prems(1) that by auto
  have a: "affords ?b (sum_list (map (\<lambda>(k, v). item_count v) kvs)) (sum_list (map (\<lambda>(k, v). byte_length k + text_bytes v) kvs))"
    using JObj.prems(3) by (simp add: affords_def count_items_def object_counts del: item_count.simps text_bytes.simps)
  have o: "fold (\<lambda>(k, v) ob. obj_set ob k v) kvs [] = kvs" using JObj.prems(2) by (simp add: build_obj_def)
  show ?case using clone_props_embed [OF c n a, where acc = "[]"] JObj.prems
    by (simp add: affords_def over_items_def count_items_def spend_def Let_def o object_counts
        del: item_count.simps text_bytes.simps)
qed (simp_all add: spend_def)

lemma snapshot_embed:
  assumes "wf_json cv j" "safe_json j MAX_PASSIVE_JSON_DEPTH" "item_count j \<le> MAX_PASSIVE_JSON_ITEMS"
    "byte_length (stringify j) \<le> n"
  shows "passiveSnapshot (plain_value j) n = Inr (j, byte_length (stringify j))"
proof -
  have "affords (start_budget n) (item_count j) (text_bytes j)"
    using assms text_bytes_printed [OF assms(1)] by (simp add: affords_def start_budget_def)
  hence "clonePassiveJson (plain_value j) (start_budget n) 0 = (Inr j, spend j (start_budget n))"
    using assms by (intro clone_embed [where cv = cv]) simp_all
  thus ?thesis using assms by (simp add: passiveSnapshot_def Let_def)
qed

lemma snapshot_safe:
  assumes "passiveSnapshot v n = Inr (j, m)"
  shows "safe_json j MAX_PASSIVE_JSON_DEPTH \<and> m = byte_length (stringify j) \<and> m \<le> n"
proof -
  obtain b where "clonePassiveJson v (start_budget n) 0 = (Inr j, b)"
    using assms by (auto simp: passiveSnapshot_def Let_def split: sum.splits if_splits) (metis prod.collapse)
  thus ?thesis using clone_safe(1) [of v "start_budget n" 0 j b] assms
    by (auto simp: passiveSnapshot_def Let_def split: if_splits)
qed

end
