(* ===== verification/MessageTheorems.thy ===== *)
theory MessageTheorems imports Messages PassiveProofs begin

text \<open>
  What the functions of \<open>protocol/messages.ts\<close> promise: snapshots, normalised messages, slash commands, and
  that an envelope this side builds is one the other side reads.
\<close>

subsection \<open>Identifiers\<close>

lemma trim_trim [simp]: "trim (trim s) = trim s"
proof -
  have "trimmed (trim s)"
  proof (cases "trim s = []")
    case False
    let ?d = "dropWhile is_ws s"
    have r: "dropWhile is_ws (rev ?d) \<noteq> []" using False by (simp add: trim_def)
    have l: "\<not> is_ws (last (trim s))"
      unfolding trim_def last_rev by (rule hd_dropWhile [OF r])
    have "?d \<noteq> []" using r by (metis dropWhile.simps(1) rev.simps(1))
    hence h: "\<not> is_ws (hd ?d)" by (rule hd_dropWhile)
    obtain a where "rev ?d = a @ dropWhile is_ws (rev ?d)" using takeWhile_dropWhile_id by metis
    hence "?d = trim s @ rev a" unfolding trim_def by (metis rev_append rev_rev_ident)
    hence "hd ?d = hd (trim s)" using False by (metis hd_append2)
    with h l show ?thesis by (simp add: trimmed_iff)
  qed (simp add: trimmed_iff)
  thus ?thesis by (simp add: trimmed_def)
qed

lemma identifier_text_ok: "identifier_text n v = Some t \<Longrightarrow> identifier_ok n t"
  by (auto simp: identifier_text_def identifier_ok_def Let_def split: option.splits json.splits if_splits)

lemma identifier_text_stable: "identifier_text n v = Some t \<Longrightarrow> identifier_text n (Some (JStr t)) = Some t"
  by (auto simp: identifier_text_def Let_def split: option.splits json.splits if_splits)

lemma identifier_ok_text: "identifier_ok n t \<Longrightarrow> identifier_text n (Some (JStr t)) = Some t"
  by (auto simp: identifier_text_def identifier_ok_def Let_def)

lemma alias_from_result:
  assumes "alias_from source ks parse selected = Inr (Some v)"
  shows "selected = Some v \<or> (\<exists>k w. k \<in> set ks \<and> given source k = Some w \<and> parse w = Some v)"
  using assms
proof (induction ks arbitrary: selected)
  case (Cons k ks)
  thus ?case
    by (auto split: option.splits if_splits dest!: Cons.IH)
qed simp

lemma alias_identifier:
  assumes "alias_value source ks (identifier_json n) = Inr (Some v)"
  shows "identifier_ok n (text_of v)"
proof -
  obtain w where "identifier_json n w = Some v"
    using alias_from_result [OF assms [unfolded alias_value_def]] by auto
  then obtain s where "identifier_text n (Some w) = Some s" "v = JStr s" by (auto simp: identifier_json_def)
  thus ?thesis using identifier_text_ok by simp
qed

subsection \<open>Copies\<close>

lemma clone_safe_items_set:
  "clone_safe_items xs d = Some ys \<Longrightarrow> \<forall>y \<in> set ys. \<exists>x \<in> set xs. cloneSafeJson x d = Some y"
  by (induction xs arbitrary: ys) (fastforce split: option.splits)+

lemma clone_safe_props_set:
  "(k, w) \<in> set (clone_safe_props kvs d) \<Longrightarrow> \<not> dangerous k \<and> (\<exists>v. (k, v) \<in> set kvs \<and> cloneSafeJson v d = Some w)"
  by (induction kvs) (auto split: option.splits if_splits)

lemma cloneSafeJson_safe: "cloneSafeJson v d = Some w \<Longrightarrow> d \<le> 32 \<Longrightarrow> safe_json w (32 - d)"
proof (induction v arbitrary: w d)
  case (JArr xs)
  obtain ys where ys: "w = JArr ys" "clone_safe_items xs (Suc d) = Some ys" "d < 32"
    using JArr.prems by (auto split: if_splits)
  have "safe_json y (32 - Suc d)" if "y \<in> set ys" for y
    using clone_safe_items_set [OF ys(2)] that JArr.IH ys(3) by force
  with ys show ?case by (simp add: Suc_diff_Suc)
next
  case (JObj kvs)
  have w: "w = JObj (clone_safe_props kvs (Suc d))" "d < 32" using JObj.prems by (auto split: if_splits)
  have "\<not> dangerous k \<and> safe_json y (32 - Suc d)" if "(k, y) \<in> set (clone_safe_props kvs (Suc d))" for k y
    using clone_safe_props_set [OF that] JObj.IH w(2) by force
  with w show ?case by force
qed (auto split: if_splits)

lemma attachment_safe: "safe_json (attachment_json a) 32"
  by (auto simp: attachment_json_def copied_def attachment_kind_text_def dangerous_def dangerousObjectKeys_def
      split: option.split attachment_kind.split)

lemma attachments_key: "''attachments'' \<in> set rawContentKeys"
  by (simp add: rawContentKeys_def)

definition attachment_ok :: "attachment \<Rightarrow> bool" where
  "attachment_ok a \<longleftrightarrow> identifier_ok 2048 (at_url a)
     \<and> (case at_name a of None \<Rightarrow> True | Some s \<Rightarrow> identifier_ok 512 s)
     \<and> (case at_mimeType a of None \<Rightarrow> True | Some s \<Rightarrow> identifier_ok 128 s)
     \<and> (case at_size a of None \<Rightarrow> True | Some i \<Rightarrow> 0 \<le> i \<and> i \<le> max_safe)"

lemma size_ok: "attachment_size_of v = Some i \<Longrightarrow> 0 \<le> i \<and> i \<le> max_safe"
  by (auto simp: attachment_size_of_def split: option.splits json.splits jnum.splits if_splits)

lemma attachment_of_ok: "attachment_of v = Some a \<Longrightarrow> attachment_ok a"
  by (auto simp: attachment_of_def attachment_ok_def dest: identifier_text_ok size_ok
      split: json.splits option.splits)

lemma normalizeAttachments_ok:
  "length (normalizeAttachments raw) \<le> 16" "a \<in> set (normalizeAttachments raw) \<Longrightarrow> attachment_ok a"
proof -
  have "length (List.map_filter f xs) \<le> length xs" for f :: "json \<Rightarrow> attachment option" and xs
    by (simp add: List.map_filter_def)
  from this [of attachment_of] show "length (normalizeAttachments raw) \<le> 16"
    by (fastforce simp: normalizeAttachments_def intro: order_trans split: option.split json.split)
  show "a \<in> set (normalizeAttachments raw) \<Longrightarrow> attachment_ok a"
    by (auto simp: normalizeAttachments_def List.map_filter_def intro: attachment_of_ok split: option.splits json.splits)
qed

lemma rebuilt_property:
  assumes "(k, v) \<in> set (rebuildRawContent ob as)"
  shows "k \<in> js ` set rawContentKeys \<and>
    ((\<exists>w. (k, w) \<in> set ob \<and> cloneSafeJson w 0 = Some v) \<or> v = JArr (map attachment_json as))"
proof -
  from assms consider (copy) x w where "x \<in> set rawContentKeys" "field ob x = Some w" "k = js x" "cloneSafeJson w 0 = Some v"
    | (attachments) "k = js ''attachments''" "v = JArr (map attachment_json as)"
    by (auto simp: rebuildRawContent_def copied_def split: if_splits option.splits dest!: sym [of "Some _"])
  thus ?thesis using attachments_key by cases (auto simp: field_def dest: map_of_SomeD)
qed

subsection \<open>Normalised messages\<close>

definition normalized_ok :: "normalized \<Rightarrow> bool" where
  "normalized_ok m \<longleftrightarrow> identifier_ok 256 (nm_messageUid m) \<and> identifier_ok 256 (nm_senderId m)
     \<and> identifier_ok 256 (nm_targetId m) \<and> identifier_ok 128 (nm_objectName m)
     \<and> length (nm_attachments m) \<le> 16 \<and> list_all attachment_ok (nm_attachments m)
     \<and> (case nm_rawContent m of None \<Rightarrow> True
        | Some ob \<Rightarrow> list_all (\<lambda>(k, v). k \<in> js ` set rawContentKeys \<and> safe_json v 33) ob)"

lemma safe_deeper: "safe_json v d \<Longrightarrow> d \<le> e \<Longrightarrow> safe_json v e"
proof (induction v arbitrary: d e)
  case (JArr xs)
  thus ?case by (auto intro: diff_le_mono)
next
  case (JObj kvs)
  thus ?case by (fastforce intro: diff_le_mono)
qed auto

text \<open>A delivered message that is accepted is well formed: its identifiers are trimmed, bounded and free of
  control characters, there are at most 16 attachments, each with a bounded address, and the content kept
  for the protocol has only listed properties, of bounded depth, none of which reaches a prototype.\<close>

theorem normalized_message_is_well_formed:
  assumes "normalizeRongCloudMessage cv raw = Inr m"
  shows "normalized_ok m"
proof -
  obtain ob where "normalize_safe cv ob = Inr m"
    using assms by (auto simp: normalizeRongCloudMessage_def split: sum.splits clone_error.splits json.splits prod.splits)
  then obtain ks u s n ct tx content where a:
      "alias_value ob ks (identifier_json 256) = Inr (Some u)"
      "alias_value ob [''senderUserId'', ''senderId''] (identifier_json 256) = Inr (Some s)"
      "alias_value ob [''messageType'', ''objectName'', ''messageName''] (identifier_json 128) = Inr (Some n)"
      "identifier_text 256 (field ob ''targetId'') = Some (nm_targetId m)"
    and m: "nm_messageUid m = text_of u" "nm_senderId m = text_of s" "nm_objectName m = text_of n"
      "nm_attachments m = normalizeAttachments content"
      "nm_rawContent m = map_option (\<lambda>ob. rebuildRawContent ob (normalizeAttachments content)) content"
    by (auto simp: normalize_safe_def Let_def split: sum.splits option.splits if_splits prod.splits)
  have "k \<in> js ` set rawContentKeys \<and> safe_json v 33" if "(k, v) \<in> set (rebuildRawContent c as)" for k v c as
    using rebuilt_property [OF that] cloneSafeJson_safe [of _ 0 v] attachment_safe safe_deeper [of v 32 33] by auto
  thus ?thesis using alias_identifier [OF a(1)] alias_identifier [OF a(2)] alias_identifier [OF a(3)]
      identifier_text_ok [OF a(4)] m normalizeAttachments_ok
    by (auto simp: normalized_ok_def list_all_iff split: option.split)
qed

subsection \<open>Snapshots\<close>

text \<open>C14 A snapshot is plain JSON: nested at most 32 deep, with finite numbers and no key that reaches a
  prototype, and its serialization is within the given size; and a value that is such JSON already, in at
  most 32768 items, is its own snapshot.\<close>

theorem snapshot_is_plain_json:
  "(passiveSnapshot v n = Inr (j, m) \<longrightarrow>
      safe_json j MAX_PASSIVE_JSON_DEPTH \<and> m = byte_length (stringify j) \<and> m \<le> n)
   \<and> (wf_json cv j \<and> safe_json j MAX_PASSIVE_JSON_DEPTH \<and> item_count j \<le> MAX_PASSIVE_JSON_ITEMS
        \<and> byte_length (stringify j) \<le> n
      \<longrightarrow> passiveSnapshot (plain_value j) n = Inr (j, byte_length (stringify j)))"
  using snapshot_safe [of v n j m] snapshot_embed [of cv j n] by blast

subsection \<open>Slash commands\<close>

lemma starts_with_iff: "starts_with p s \<longleftrightarrow> (\<exists>r. s = p @ r)"
  by (metis append_eq_conv_conj starts_with_def)

definition accepted_argument :: "jstr \<Rightarrow> bool" where
  "accepted_argument a \<longleftrightarrow> 32 \<notin> set a \<and> identifier_ok 256 (trim a)"

lemma identifier_trim: "identifier_text 256 (Some (JStr a)) = None \<longleftrightarrow> \<not> identifier_ok 256 (trim a)"
  by (auto simp: identifier_text_def identifier_ok_def Let_def)

text \<open>What a text means, by its trimmed form.\<close>

definition slash_meaning :: "jstr \<Rightarrow> slash_command \<Rightarrow> bool" where
  "slash_meaning t c \<longleftrightarrow> (case c of
     SCommand name None \<Rightarrow> name \<in> set noArgument \<and> t = js name
   | SCommand name (Some a) \<Rightarrow> name \<in> set withArgument \<and> t = js name @ 32 # a \<and> accepted_argument a
   | SInvalid \<Rightarrow>
       (\<exists>name \<in> set noArgument. \<exists>r. t = js name @ 32 # r)
       \<or> (\<exists>name \<in> set withArgument. t = js name \<or> (\<exists>a. t = js name @ 32 # a \<and> \<not> accepted_argument a))
   | SText s \<Rightarrow> trim s = t \<and>
       (\<forall>name \<in> set (noArgument @ withArgument). t \<noteq> js name \<and> (\<forall>r. t \<noteq> js name @ 32 # r)))"

lemma command_prefix_iff: "starts_with (command_prefix name) t \<longleftrightarrow> (\<exists>r. t = js name @ 32 # r)"
  by (auto simp: starts_with_iff command_prefix_def js_append js_Cons cu_def)

lemma first_some_None: "first_some f xs = None \<longleftrightarrow> (\<forall>x \<in> set xs. f x = None)"
  by (induction xs) (auto split: option.split)

lemma first_some_Some: "first_some f xs = Some y \<Longrightarrow> \<exists>x \<in> set xs. f x = Some y"
  by (induction xs) (auto split: option.splits)

lemma names_no_space: "name \<in> set (noArgument @ withArgument) \<Longrightarrow> 32 \<notin> set (js name)"
  "name \<in> set noArgument \<Longrightarrow> name \<notin> set withArgument"
proof -
  have s: "(32 :: code_unit) = cu (CHR '' '')" by (simp add: cu_def)
  show "name \<in> set (noArgument @ withArgument) \<Longrightarrow> 32 \<notin> set (js name)"
    by (auto simp: noArgument_def withArgument_def js_def s)
  show "name \<in> set noArgument \<Longrightarrow> name \<notin> set withArgument"
    by (auto simp: noArgument_def withArgument_def)
qed

lemma split_unique: "u \<notin> set xs \<Longrightarrow> u \<notin> set ys \<Longrightarrow> xs @ u # r = ys @ u # r' \<longleftrightarrow> xs = ys \<and> r = r'"
proof (induction xs arbitrary: ys)
  case Nil
  thus ?case by (cases ys) auto
next
  case (Cons x xs)
  thus ?case by (cases ys) auto
qed

lemma name_split:
  assumes "name \<in> set (noArgument @ withArgument)" "name' \<in> set (noArgument @ withArgument)"
  shows "js name @ 32 # r = js name' @ 32 # r' \<longleftrightarrow> name = name' \<and> r = r'" "js name \<noteq> js name' @ 32 # r" "js name' @ 32 # r \<noteq> js name"
proof -
  note n = names_no_space(1) [OF assms(1)] names_no_space(1) [OF assms(2)]
  show "js name @ 32 # r = js name' @ 32 # r' \<longleftrightarrow> name = name' \<and> r = r'" using split_unique [OF n] by simp
  show "js name \<noteq> js name' @ 32 # r" using n(1) by (metis in_set_conv_decomp)
  thus "js name' @ 32 # r \<noteq> js name" by simp
qed

lemma meaning_unique:
  assumes "slash_meaning t c" "slash_meaning t c'" "\<forall>u. c = SText u \<longrightarrow> u = s" "\<forall>u. c' = SText u \<longrightarrow> u = s"
  shows "c = c'"
proof -
  note d = slash_meaning_def
  have n: "name \<in> set noArgument \<Longrightarrow> name \<in> set (noArgument @ withArgument)"
    "name \<in> set withArgument \<Longrightarrow> name \<in> set (noArgument @ withArgument)" for name by simp_all
  note e = name_split [OF n(1) n(1)] name_split [OF n(1) n(2)] name_split [OF n(2) n(1)] name_split [OF n(2) n(2)]
  show ?thesis
    using assms names_no_space(2) e by (cases c; cases c') (auto simp: d split: option.splits)
qed

lemma parseSlashCommand_meaning:
  "parseSlashCommand s = c \<longleftrightarrow> slash_meaning (trim s) c \<and> (\<forall>t. c = SText t \<longrightarrow> t = s)"
proof -
  have d: "slash_meaning (trim s) (parseSlashCommand s) \<and> (\<forall>t. parseSlashCommand s = SText t \<longrightarrow> t = s)"
  proof (cases "first_some (plain_command (trim s)) noArgument")
    case (Some r)
    then obtain name where "name \<in> set noArgument" "plain_command (trim s) name = Some r"
      by (auto dest: first_some_Some)
    thus ?thesis using Some
      by (auto simp: parseSlashCommand_def slash_meaning_def plain_command_def command_prefix_iff split: if_splits)
  next
    case None
    hence n: "plain_command (trim s) name = None" if "name \<in> set noArgument" for name
      using that by (simp add: first_some_None)
    show ?thesis
    proof (cases "first_some (argument_command (trim s)) withArgument")
      case (Some r)
      then obtain name where "name \<in> set withArgument" "argument_command (trim s) name = Some r"
        by (auto dest: first_some_Some)
      thus ?thesis using Some None
        by (auto simp: identifier_trim parseSlashCommand_def slash_meaning_def argument_command_def command_prefix_iff
            accepted_argument_def Let_def split: if_splits)
    next
      case none: None
      hence m: "argument_command (trim s) name = None" if "name \<in> set withArgument" for name
        using that by (simp add: first_some_None)
      have "trim s \<noteq> js name \<and> (\<forall>r. trim s \<noteq> js name @ 32 # r)" if "name \<in> set (noArgument @ withArgument)" for name
        using that n [of name] m [of name]
        by (auto simp: plain_command_def argument_command_def command_prefix_iff Let_def split: if_splits)
      thus ?thesis using None none by (simp add: parseSlashCommand_def slash_meaning_def)
    qed
  qed
  show ?thesis
  proof
    assume "slash_meaning (trim s) c \<and> (\<forall>t. c = SText t \<longrightarrow> t = s)"
    thus "parseSlashCommand s = c" using d meaning_unique by blast
  qed (use d in blast)
qed

text \<open>A slash command is read for what it says: the answer is the meaning of the trimmed text, which
  is a command alone, a command with one acceptable argument, a malformed command, or any other text; and
  no text has two meanings.\<close>

theorem slash_command_meaning:
  "parseSlashCommand s = c \<longleftrightarrow> slash_meaning (trim s) c \<and> (\<forall>t. c = SText t \<longrightarrow> t = s)"
  by (rule parseSlashCommand_meaning)

subsection \<open>Envelopes\<close>

lemma field_copied_append: "field (copied k v @ r) k' = (if k = k' then (case v of None \<Rightarrow> field r k' | Some w \<Rightarrow> Some w) else field r k')"
  by (simp add: copied_def split: option.split)

lemma copied_keys: "map fst (copied k v) = (if v = None then [] else [js k])"
  by (simp add: copied_def split: option.split)

definition envelope_of :: "jstr \<Rightarrow> jstr option \<Rightarrow> jstr option \<Rightarrow> jstr option \<Rightarrow> jstr \<Rightarrow> int \<Rightarrow> jobj" where
  "envelope_of ty rid src dst c ts = copied ''msg_type'' (Some (JStr ty)) @ text_property ''request_id'' rid
     @ text_property ''source_im_id'' src @ text_property ''destination_im_id'' dst
     @ copied ''content'' (Some (JStr c)) @ copied ''timestamp'' (Some (JInt ts))"

lemma built_envelope:
  assumes "buildLegacyEnvelope input = Inr env"
  obtains ty rid src dst c ts where "env = envelope_of ty rid src dst c ts"
    "ty \<in> js ` set legacyTypes" "\<forall>v \<in> {rid, src, dst}. \<forall>t. v = Some t \<longrightarrow> identifier_text 256 (Some (JStr t)) = Some t"
    "ty = js ''opencode_session_created'' \<or> rid \<noteq> None" "\<bar>ts\<bar> \<le> max_safe"
    "byte_length (stringify (JObj env)) \<le> MAX_RONGCLOUD_MESSAGE_BYTES"
proof -
  obtain ob where b: "build_envelope ob = Inr env"
    using assms by (auto simp: buildLegacyEnvelope_def split: sum.splits clone_error.splits json.splits prod.splits)
  obtain ty where ty: "field ob ''msgType'' = Some (JStr ty)" "ty \<in> js ` set legacyTypes"
    using b by (auto simp: build_envelope_def str_test_iff split: if_splits)
  obtain ts where ts: "field ob ''timestamp'' = Some (JInt ts)" "\<bar>ts\<bar> \<le> max_safe"
    using b by (auto simp: build_envelope_def integer_cases split: if_splits)
  obtain c where c: "field ob ''content'' = Some c"
    using b by (auto simp: build_envelope_def split: if_splits option.splits)
  let ?c = "case c of JStr s \<Rightarrow> s | _ \<Rightarrow> stringify c"
  let ?i = "\<lambda>k. identifier_text 256 (field ob k)"
  have e: "env = envelope_of ty (?i ''requestId'') (?i ''sourceImId'') (?i ''destinationImId'') ?c ts"
    "byte_length (stringify (JObj env)) \<le> MAX_RONGCLOUD_MESSAGE_BYTES"
    using b ty ts c
    by (auto simp: build_envelope_def envelope_of_def copied_def text_property_def Let_def split: if_splits)
  have "ty = js ''opencode_session_created'' \<or> ?i ''requestId'' \<noteq> None"
    using b ty by (auto simp: build_envelope_def legacyTypes_def is_lit_def split: if_splits)
  moreover have "\<forall>v \<in> {?i ''requestId'', ?i ''sourceImId'', ?i ''destinationImId''}. \<forall>t. v = Some t \<longrightarrow>
      identifier_text 256 (Some (JStr t)) = Some t"
    using identifier_text_stable by auto
  ultimately show thesis using that [OF e(1) ty(2) _ _ ts(2) e(2)] by blast
qed

lemma envelope_fields:
  "field (envelope_of ty rid src dst c ts) k =
     (if k = ''msg_type'' then Some (JStr ty) else if k = ''request_id'' then map_option JStr rid
      else if k = ''source_im_id'' then map_option JStr src else if k = ''destination_im_id'' then map_option JStr dst
      else if k = ''content'' then Some (JStr c) else if k = ''timestamp'' then Some (JInt ts) else None)"
  by (simp add: envelope_of_def text_property_def field_copied_append split: option.split)
     (simp add: copied_def)

lemma envelope_plain: "build_obj (envelope_of ty rid src dst c ts) = envelope_of ty rid src dst c ts"
  by (rule build_obj_plain)
     (cases rid; cases src; cases dst; simp add: envelope_of_def text_property_def copied_def not_index_js)+

lemma envelope_canonical:
  assumes "\<forall>v \<in> {rid, src, dst}. \<forall>t. v = Some t \<longrightarrow> identifier_text 256 (Some (JStr t)) = Some t"
    and "parseRecordJson cv c = None"
  shows "canonicalLegacy cv (envelope_of ty rid src dst c ts) = Some (envelope_of ty rid src dst c ts)"
proof -
  let ?e = "envelope_of ty rid src dst c ts"
  have s: "legacy_source cv ?e = Some ?e" using assms(2) by (simp add: legacy_source_def envelope_fields)
  have a: "alias_value ?e [k, k'] (identifier_json 256) = Inr (map_option JStr v)"
    if "field ?e k = map_option JStr v" "field ?e k' = None" "v \<in> {rid, src, dst}" for k k' v
  proof (cases v)
    case (Some t)
    with assms(1) that(3) have i: "identifier_text 256 (Some (JStr t)) = Some t" by blast
    hence "t \<noteq> []" by (auto simp: identifier_text_def trim_def)
    thus ?thesis using that Some i by (simp add: alias_value_def given_def identifier_json_def)
  qed (use that in \<open>simp add: alias_value_def given_def\<close>)
  have z: "alias_value ?e ks p = Inr None" if "\<forall>k \<in> set ks. field ?e k = None" for ks p
    using that unfolding alias_value_def by (induction ks) (simp_all add: given_def)
  have "select_groups ?e legacy_groups = Some (text_property ''request_id'' rid @ text_property ''source_im_id'' src
      @ text_property ''destination_im_id'' dst)"
    by (simp add: legacy_groups_def a envelope_fields z text_property_def copied_def)
  thus ?thesis by (simp add: canonicalLegacy_def s legacy_copied_def envelope_fields)
    (simp add: envelope_of_def copied_def)
qed

lemma envelope_values:
  "(k, v) \<in> set (envelope_of ty rid src dst c ts) \<Longrightarrow>
     k \<in> js ` {''msg_type'', ''request_id'', ''source_im_id'', ''destination_im_id'', ''content'', ''timestamp''}
     \<and> (v = JInt ts \<or> (\<exists>s. v = JStr s))"
  by (auto simp: envelope_of_def text_property_def copied_def split: option.splits)

lemma envelope_wf:
  assumes "\<bar>ts\<bar> \<le> max_safe"
  shows "wf_json cv (JObj (envelope_of ty rid src dst c ts))"
proof -
  have "wf_json cv v" if "(k, v) \<in> set (envelope_of ty rid src dst c ts)" for k v
    using envelope_values [OF that] assms by auto
  thus ?thesis using envelope_plain by auto
qed

lemma envelope_safe:
  "safe_json (JObj (envelope_of ty rid src dst c ts)) MAX_PASSIVE_JSON_DEPTH"
  "item_count (JObj (envelope_of ty rid src dst c ts)) \<le> MAX_PASSIVE_JSON_ITEMS"
proof -
  let ?e = "envelope_of ty rid src dst c ts"
  have "\<not> dangerous k \<and> safe_json v 31" if "(k, v) \<in> set ?e" for k v
    using envelope_values [OF that] by (auto simp: dangerous_def dangerousObjectKeys_def)
  thus "safe_json (JObj ?e) MAX_PASSIVE_JSON_DEPTH" by (auto simp: MAX_PASSIVE_JSON_DEPTH_def)
  have z: "sum_list (map (\<lambda>(k, v). item_count v) ?e) = 0"
    using envelope_values [of _ _ ty rid src dst c ts] by (fastforce simp: sum_list_eq_0_iff)
  moreover have "length ?e \<le> 6"
    by (simp add: envelope_of_def text_property_def copied_def split: option.split)
  ultimately show "item_count (JObj ?e) \<le> MAX_PASSIVE_JSON_ITEMS"
    unfolding object_counts z MAX_PASSIVE_JSON_ITEMS_def by simp
qed

lemma envelope_classified:
  assumes "ty \<in> js ` set legacyTypes" "field env ''msg_type'' = Some (JStr ty)"
    "canonicalLegacy cv env = Some env" "validLegacySemantics ty env"
  shows "classify cv env = PProtocol ty env"
proof -
  have t: "ty \<noteq> js ''discussion_event''" "ty \<noteq> js ''system_notify''" "ty \<in> js ` set EXTERNAL_MESSAGE_TYPES"
    "ty \<notin> js ` set cardEnvelopeTypes" "ty \<notin> js ` set v2AndCardTypes" "ty \<noteq> js ''device_control''"
    using assms(1) by (auto simp: legacyTypes_def EXTERNAL_MESSAGE_TYPES_def cardEnvelopeTypes_def v2AndCardTypes_def)
  have "str_field env ''msg_type'' = ty" using assms(2) by (simp add: str_field_def)
  thus ?thesis using t assms(3,4) by (simp add: classify_def)
qed

text \<open>An envelope this side builds is one the other side reads: when the content is a text that is not itself
  a JSON object, the envelope parses as protocol content of its own type and unchanged.\<close>

theorem legacy_envelope_is_understood:
  assumes "buildLegacyEnvelope input = Inr env"
    and "\<And>c. field env ''content'' = Some (JStr c) \<Longrightarrow> parseRecordJson cv c = None"
  shows "parseProtocolContent cv (plain_value (JObj env)) = PProtocol (str_field env ''msg_type'') env"
proof -
  obtain ty rid src dst c ts where e: "env = envelope_of ty rid src dst c ts" and t: "ty \<in> js ` set legacyTypes"
    and i: "\<forall>v \<in> {rid, src, dst}. \<forall>t. v = Some t \<longrightarrow> identifier_text 256 (Some (JStr t)) = Some t"
    and r: "ty = js ''opencode_session_created'' \<or> rid \<noteq> None" and ts: "\<bar>ts\<bar> \<le> max_safe"
    and b: "byte_length (stringify (JObj env)) \<le> MAX_RONGCLOUD_MESSAGE_BYTES"
    using built_envelope [OF assms(1)] .
  have c: "parseRecordJson cv c = None" using assms(2) by (simp add: e envelope_fields)
  have w: "wf_json cv (JObj env)" using envelope_wf [OF ts] e by simp
  have s: "safe_json (JObj env) MAX_PASSIVE_JSON_DEPTH" "item_count (JObj env) \<le> MAX_PASSIVE_JSON_ITEMS"
    using envelope_safe e by simp_all
  have p: "passiveSnapshot (plain_value (JObj env)) MAX_RONGCLOUD_MESSAGE_BYTES = Inr (JObj env, byte_length (stringify (JObj env)))"
    by (rule snapshot_embed [OF w s b])
  have u: "unwrapProtocolValue cv 3 (JObj env) = Some (Inr env)"
    by (simp add: numeral_3_eq_3 is_string_def e envelope_fields)
  have "validLegacySemantics ty env"
    using t r by (auto simp: validLegacySemantics_def legacyTypes_def e envelope_fields is_string_def)
  hence "classify cv env = PProtocol ty env" using envelope_classified [OF t, of env cv] envelope_canonical [OF i c, of ty ts] e
    by (simp add: envelope_fields)
  thus ?thesis using p u by (simp add: parseProtocolContent_def e envelope_fields str_field_def)
qed

subsection \<open>Concrete runs\<close>

definition message_sample :: jobj where
  "message_sample = [(js ''messageUId'', JLit ''m1''), (js ''senderUserId'', JLit ''s1''), (js ''targetId'', JLit ''t1''),
     (js ''conversationType'', JInt 1), (js ''messageType'', JLit ''RC:TxtMsg''), (js ''content'', JLit ''hi'')]"

lemma message_sample_snapshot:
  "wf_json cv (JObj message_sample)" "safe_json (JObj message_sample) MAX_PASSIVE_JSON_DEPTH"
  "item_count (JObj message_sample) \<le> MAX_PASSIVE_JSON_ITEMS"
  "byte_length (stringify (JObj message_sample)) \<le> MAX_RONGCLOUD_MESSAGE_BYTES"
proof -
  have "build_obj message_sample = message_sample"
    by (rule build_obj_plain) (simp_all add: message_sample_def not_index_js)
  thus "wf_json cv (JObj message_sample)" by simp (simp add: message_sample_def max_safe_def)
  show "safe_json (JObj message_sample) MAX_PASSIVE_JSON_DEPTH"
    by (simp add: message_sample_def MAX_PASSIVE_JSON_DEPTH_def dangerous_def dangerousObjectKeys_def)
  show "item_count (JObj message_sample) \<le> MAX_PASSIVE_JSON_ITEMS"
    by (simp add: message_sample_def MAX_PASSIVE_JSON_ITEMS_def)
  have "ascii_text (stringify (JObj message_sample)) \<and> length (stringify (JObj message_sample)) \<le> 300"
    by (simp add: message_sample_def quote_js quotable_def num_text_digit)
  thus "byte_length (stringify (JObj message_sample)) \<le> MAX_RONGCLOUD_MESSAGE_BYTES"
    by (simp add: byte_length_ascii MAX_RONGCLOUD_MESSAGE_BYTES_def)
qed

theorem snapshot_is_plain_json_witness:
  "\<exists>m. passiveSnapshot (plain_value (JObj message_sample)) MAX_RONGCLOUD_MESSAGE_BYTES = Inr (JObj message_sample, m)
     \<and> m \<le> MAX_RONGCLOUD_MESSAGE_BYTES"
  using snapshot_is_plain_json [of "plain_value (JObj message_sample)" MAX_RONGCLOUD_MESSAGE_BYTES "JObj message_sample" _ NDbl]
    message_sample_snapshot(1) [of NDbl] message_sample_snapshot(2-) by blast

lemma identifier_text_plain:
  "s \<noteq> [] \<Longrightarrow> length s \<le> n \<Longrightarrow> list_all plain_char s \<Longrightarrow> identifier_text n (Some (JLit s)) = Some (js s)"
  by (rule identifier_ok_text) (rule identifier_plain)

theorem normalized_message_is_well_formed_witness:
  "\<exists>m. normalizeRongCloudMessage NDbl (plain_value (JObj message_sample)) = Inr m
     \<and> normalized_ok m \<and> nm_text m = Some (js ''hi'')"
proof -
  have "parseRecordJson NDbl (js ''hi'') = None"
    by (simp add: parseRecordJson_def trim_plain plain_char_def starts_with_js)
  hence "decodeContent NDbl (Some (JLit ''hi'')) = Some (Some (js ''hi''), None)"
    by (simp add: decodeContent_def byte_length_ascii MAX_RONGCLOUD_MESSAGE_BYTES_def js_Cons numeral_2_eq_2)
  hence "\<exists>m. normalize_safe NDbl message_sample = Inr m \<and> nm_text m = Some (js ''hi'')"
    by (simp add: normalize_safe_def message_sample_def alias_value_def given_def identifier_json_def
        identifier_text_plain plain_char_def conversationType_def)
  then obtain m where "normalizeRongCloudMessage NDbl (plain_value (JObj message_sample)) = Inr m"
      "nm_text m = Some (js ''hi'')"
    using snapshot_embed [OF message_sample_snapshot(1) [of NDbl] message_sample_snapshot(2-)] by (auto simp: normalizeRongCloudMessage_def)
  thus ?thesis using normalized_message_is_well_formed by blast
qed

theorem slash_command_meaning_witness:
  "parseSlashCommand (js ''/switch s1'') = SCommand ''/switch'' (Some (js ''s1''))"
proof -
  have "trim (js ''/switch s1'') = js ''/switch s1''"
    using trimmed_iff [of "js ''/switch s1''"] by (simp add: trimmed_def js_Cons is_ws_def)
  moreover have "js ''/switch s1'' = js ''/switch'' @ 32 # js ''s1''" by (simp add: js_Cons cu_def)
  moreover have "accepted_argument (js ''s1'')" unfolding accepted_argument_def
    by (intro conjI) (simp add: js_Cons cu_def, simp add: trim_plain identifier_plain plain_char_def)
  ultimately have "slash_meaning (trim (js ''/switch s1'')) (SCommand ''/switch'' (Some (js ''s1'')))"
    by (simp add: slash_meaning_def withArgument_def)
  thus ?thesis by (simp add: slash_command_meaning)
qed

text \<open>The argument is tested without its leading white space and passed on with it.\<close>

lemma argument_keeps_leading_tab:
  "parseSlashCommand (js ''/switch '' @ 9 # js ''s1'') = SCommand ''/switch'' (Some (9 # js ''s1''))"
proof -
  let ?s = "js ''/switch '' @ 9 # js ''s1''"
  have "trim ?s = ?s" using trimmed_iff [of ?s] by (simp add: trimmed_def js_Cons is_ws_def)
  moreover have "?s = js ''/switch'' @ 32 # 9 # js ''s1''" by (simp add: js_Cons cu_def)
  moreover have "trim (9 # js ''s1'') = js ''s1''" by (simp add: trim_def js_Cons is_ws_def)
  hence "accepted_argument (9 # js ''s1'')" unfolding accepted_argument_def
    by (intro conjI) (simp add: js_Cons cu_def, simp add: identifier_plain plain_char_def)
  ultimately have "slash_meaning (trim ?s) (SCommand ''/switch'' (Some (9 # js ''s1'')))"
    by (simp add: slash_meaning_def withArgument_def)
  thus ?thesis by (simp add: parseSlashCommand_meaning)
qed

definition envelope_input :: jobj where
  "envelope_input = [(js ''msgType'', JLit ''opencode_session_created''), (js ''content'', JLit ''hi''), (js ''timestamp'', JInt 1)]"

theorem legacy_envelope_is_understood_witness:
  "\<exists>env. buildLegacyEnvelope (plain_value (JObj envelope_input)) = Inr env
     \<and> parseProtocolContent NDbl (plain_value (JObj env)) = PProtocol (js ''opencode_session_created'') env"
proof -
  let ?i = "JObj envelope_input"
  let ?e = "envelope_of (js ''opencode_session_created'') None None None (js ''hi'') 1"
  have "build_obj envelope_input = envelope_input"
    by (rule build_obj_plain) (simp_all add: envelope_input_def not_index_js)
  hence w: "wf_json NDbl ?i" by simp (simp add: envelope_input_def max_safe_def)
  have s: "safe_json ?i MAX_PASSIVE_JSON_DEPTH" "item_count ?i \<le> MAX_PASSIVE_JSON_ITEMS"
    by (simp_all add: envelope_input_def MAX_PASSIVE_JSON_DEPTH_def MAX_PASSIVE_JSON_ITEMS_def dangerous_def dangerousObjectKeys_def)
  have "ascii_text (stringify ?i) \<and> length (stringify ?i) \<le> 300" "ascii_text (stringify (JObj ?e)) \<and> length (stringify (JObj ?e)) \<le> 300"
    by (simp_all add: envelope_input_def envelope_of_def text_property_def copied_def quote_js quotable_def num_text_digit)
  hence b: "byte_length (stringify ?i) \<le> MAX_RONGCLOUD_MESSAGE_BYTES" "byte_length (stringify (JObj ?e)) \<le> MAX_RONGCLOUD_MESSAGE_BYTES"
    by (simp_all add: byte_length_ascii MAX_RONGCLOUD_MESSAGE_BYTES_def)
  have "build_envelope envelope_input = Inr ?e"
    using b(2) by (simp add: build_envelope_def envelope_input_def legacyTypes_def bad_optional_def is_lit_def
        max_safe_def envelope_of_def text_property_def copied_def identifier_text_def)
  hence e: "buildLegacyEnvelope (plain_value ?i) = Inr ?e"
    using snapshot_embed [OF w s b(1)] by (simp add: buildLegacyEnvelope_def)
  have "parseRecordJson NDbl (js ''hi'') = None"
    by (simp add: parseRecordJson_def trim_plain plain_char_def starts_with_js)
  hence "parseProtocolContent NDbl (plain_value (JObj ?e)) = PProtocol (str_field ?e ''msg_type'') ?e"
    by (intro legacy_envelope_is_understood [OF e]) (simp add: envelope_fields)
  with e show ?thesis by (auto simp: str_field_def envelope_fields)
qed

end
