(* ===== verification/Acts.thy ===== *)
theory Acts imports Prelude begin

text \<open>
  Handlers as acts.  An act runs over a world, with the answers of everything it awaits; it yields \<open>None\<close> when
  it throws.
\<close>

type_synonym ('o, 'w, 'a) action = "'o \<Rightarrow> 'w \<Rightarrow> 'a option \<times> 'w"

definition ret :: "'a \<Rightarrow> ('o, 'w, 'a) action" where
  "ret v o' w = (Some v, w)"

definition throw :: "('o, 'w, 'a) action" where
  "throw o' w = (None, w)"

definition andThen :: "('o, 'w, 'a) action \<Rightarrow> ('a \<Rightarrow> ('o, 'w, 'b) action) \<Rightarrow> ('o, 'w, 'b) action" where
  "andThen a f o' w = (case a o' w of (None, w') \<Rightarrow> (None, w') | (Some v, w') \<Rightarrow> f v o' w')"

text \<open>\<open>try\<close> with the outcome, thrown or not, passed on.\<close>

definition attempt :: "('o, 'w, 'a) action \<Rightarrow> ('a option \<Rightarrow> ('o, 'w, 'b) action) \<Rightarrow> ('o, 'w, 'b) action" where
  "attempt a f o' w = (case a o' w of (r, w') \<Rightarrow> f r o' w')"

subsection \<open>Preconditions\<close>

text \<open>The act ends well from here: \<open>Q\<close> holds if it returns, \<open>E\<close> if it throws.\<close>

definition wp :: "('o, 'w, 'a) action \<Rightarrow> ('a \<Rightarrow> 'w \<Rightarrow> bool) \<Rightarrow> ('w \<Rightarrow> bool) \<Rightarrow> 'o \<Rightarrow> 'w \<Rightarrow> bool" where
  "wp a Q E o' w \<longleftrightarrow> (case a o' w of (Some v, w') \<Rightarrow> Q v w' | (None, w') \<Rightarrow> E w')"

named_theorems wp_intro

lemma wp_ret [simp]: "wp (ret v) Q E o' w \<longleftrightarrow> Q v w"
  by (simp add: wp_def ret_def)

lemma wp_throw [simp]: "wp throw Q E o' w \<longleftrightarrow> E w"
  by (simp add: wp_def throw_def)

lemma wp_andThen [simp]: "wp (andThen a f) Q E o' w \<longleftrightarrow> wp a (\<lambda>v w'. wp (f v) Q E o' w') E o' w"
  by (cases "a o' w") (auto simp: wp_def andThen_def split: option.split)

lemma wp_attempt [simp]:
  "wp (attempt a f) Q E o' w \<longleftrightarrow> wp a (\<lambda>v w'. wp (f (Some v)) Q E o' w') (\<lambda>w'. wp (f None) Q E o' w') o' w"
  by (cases "a o' w") (auto simp: wp_def attempt_def split: option.split)

lemma wp_if: "wp (if c then a else b) Q E o' w \<longleftrightarrow> (if c then wp a Q E o' w else wp b Q E o' w)"
  by simp

lemma wp_mono:
  assumes "wp a Q E o' w" "\<And>v w. Q v w \<Longrightarrow> Q' v w" "\<And>w. E w \<Longrightarrow> E' w"
  shows "wp a Q' E' o' w"
  using assms by (cases "a o' w") (auto simp: wp_def split: option.splits)

lemma wpD: "wp a Q E o' w \<Longrightarrow> a o' w = (Some v, w') \<Longrightarrow> Q v w'"
  by (simp add: wp_def)

lemma wpE: "wp a Q E o' w \<Longrightarrow> a o' w = (None, w') \<Longrightarrow> E w'"
  by (simp add: wp_def)

subsection \<open>The order of events\<close>

text \<open>Every event of the second kind comes after one of the first kind.\<close>

definition precedes :: "('e \<Rightarrow> bool) \<Rightarrow> ('e \<Rightarrow> bool) \<Rightarrow> 'e list \<Rightarrow> bool" where
  "precedes p q l \<longleftrightarrow> (\<forall>i < length l. q (l ! i) \<longrightarrow> (\<exists>j < i. p (l ! j)))"

text \<open>No event of the second kind comes after one of the first kind.\<close>

definition excludes :: "('e \<Rightarrow> bool) \<Rightarrow> ('e \<Rightarrow> bool) \<Rightarrow> 'e list \<Rightarrow> bool" where
  "excludes p q l \<longleftrightarrow> (\<forall>i < length l. q (l ! i) \<longrightarrow> (\<forall>j < i. \<not> p (l ! j)))"

text \<open>After one of the first kind, those of the third kind wait for one of the second kind.\<close>

definition defers :: "('e \<Rightarrow> bool) \<Rightarrow> ('e \<Rightarrow> bool) \<Rightarrow> ('e \<Rightarrow> bool) \<Rightarrow> 'e list \<Rightarrow> bool" where
  "defers p r q l \<longleftrightarrow> (\<forall>i < length l. q (l ! i) \<longrightarrow> (\<forall>j < i. \<not> p (l ! j)) \<or> (\<exists>j < i. r (l ! j)))"

lemma defers_Nil [simp]: "defers p r q []"
  by (simp add: defers_def)

lemma precedes_Nil [simp]: "precedes p q []"
  by (simp add: precedes_def)

lemma excludes_Nil [simp]: "excludes p q []"
  by (simp add: excludes_def)

lemma precedes_snoc [simp]: "precedes p q (l @ [e]) \<longleftrightarrow> precedes p q l \<and> (q e \<longrightarrow> list_ex p l)"
proof -
  have same: "(\<exists>j < i. p ((l @ [e]) ! j)) \<longleftrightarrow> (\<exists>j < i. p (l ! j))" if "i \<le> length l" for i
    using that by (metis nth_append order_less_le_trans)
  show ?thesis unfolding precedes_def list_ex_length length_append_singleton All_less_Suc
    using same by (simp add: nth_append) blast
qed

lemma excludes_snoc [simp]: "excludes p q (l @ [e]) \<longleftrightarrow> excludes p q l \<and> (q e \<longrightarrow> \<not> list_ex p l)"
proof -
  have same: "(\<forall>j < i. \<not> p ((l @ [e]) ! j)) \<longleftrightarrow> (\<forall>j < i. \<not> p (l ! j))" if "i \<le> length l" for i
    using that by (metis nth_append order_less_le_trans)
  show ?thesis unfolding excludes_def list_ex_length length_append_singleton All_less_Suc
    using same by (simp add: nth_append) blast
qed

lemma defers_snoc [simp]:
  "defers p r q (l @ [e]) \<longleftrightarrow> defers p r q l \<and> (q e \<longrightarrow> \<not> list_ex p l \<or> list_ex r l)"
proof -
  have p: "(\<forall>j < i. \<not> p ((l @ [e]) ! j)) \<longleftrightarrow> (\<forall>j < i. \<not> p (l ! j))" if "i \<le> length l" for i
    using that by (metis nth_append order_less_le_trans)
  have r: "(\<exists>j < i. r ((l @ [e]) ! j)) \<longleftrightarrow> (\<exists>j < i. r (l ! j))" if "i \<le> length l" for i
    using that by (metis nth_append order_less_le_trans)
  show ?thesis unfolding defers_def list_ex_length length_append_singleton All_less_Suc
    using p r by (simp add: nth_append) blast
qed

end
