(* ===== verification/V3Router.thy ===== *)
theory V3Router imports Acts StoreProofs V3Prompt begin

text \<open>
  The router of the third discussion protocol (\<open>router/discussion-v3-router.ts\<close>).  A handler is a
  sequence of awaits; what each of them answers, and which operations on the store other handlers ran
  in the meantime, is given from outside, one tick for each await.  The log of sent messages keeps the store each of them was sent from.
\<close>

subsection \<open>Awaits\<close>

datatype task_event =
    TextDelta jstr
  | Completed "jstr option" "jstr option"
  | FailedEvent bool "jstr option"
  | CancelledEvent "jstr option"
  | OtherEvent

text \<open>
  What a run waits for: an event of the named task, the timer of the deltas, or the end of the send in
  flight.  The failure of a task is marked when its category is \<open>stop_unconfirmed\<close>; \<open>Completed\<close> has the output
  and the session.
\<close>

datatype run_input =
    TaskEvent jstr task_event
  | DeltaTimer
  | Settled bool

record tick =
  t_before :: "store_event list"
  t_now :: int
  t_write :: write_outcome
  t_health :: "jstr option"
  t_fence :: "(cancel_result \<times> jstr option) option"
  t_available :: "bool option"
  t_workdir :: "jstr option"
  t_started :: "jstr option"
  t_events :: "run_input list"
  t_taskId :: jstr
  t_delivered :: bool
  t_disposed :: bool

record start_request =
  sr_requestId :: jstr
  sr_runtimeId :: jstr
  sr_conversationKey :: jstr
  sr_workdir :: jstr
  sr_prompt :: jstr
  sr_model :: "json option"
  sr_resume :: "jstr option"

record world =
  w_store :: store
  w_step :: nat
  w_sent :: "(jobj \<times> store) list"
  w_starts :: "start_request list"
  w_active :: "jstr list"

record router_options =
  ro_runtimeId :: jstr
  ro_nodeId :: jstr
  ro_memberId :: jstr

type_synonym answers = "nat \<Rightarrow> tick"
type_synonym 'a act = "(answers, world, 'a) action"

text \<open>An await: the operations of others run first.\<close>

definition await :: "(tick \<Rightarrow> world \<Rightarrow> 'a option \<times> world) \<Rightarrow> 'a act" where
  "await f o' w = (let t = o' (w_step w) in
     f t (w\<lparr>w_step := Suc (w_step w), w_store := run_steps store_step (w_store w) (t_before t)\<rparr>))"

definition store_do :: "'a transition \<Rightarrow> 'a act" where
  "store_do tr = await (\<lambda>t w. case mutate (w_store w) (t_now t) (t_write t) tr of
     (Inl e, s) \<Rightarrow> (None, w\<lparr>w_store := s\<rparr>) | (Inr v, s) \<Rightarrow> (Some v, w\<lparr>w_store := s\<rparr>))"

definition store_get :: "(store \<Rightarrow> (router_error, 'a) result) \<Rightarrow> 'a act" where
  "store_get f = await (\<lambda>t w. (case f (w_store w) of Inl e \<Rightarrow> None | Inr v \<Rightarrow> Some v, w))"

definition ask :: "(tick \<Rightarrow> 'a option) \<Rightarrow> 'a act" where
  "ask f = await (\<lambda>t w. (f t, w))"

text \<open>A field that is read without waiting.\<close>

definition peek :: "(tick \<Rightarrow> 'a) \<Rightarrow> 'a act" where
  "peek f o' w = (Some (f (o' (w_step w))), w)"

text \<open>A message is logged when it is handed to the transport; nothing runs between the last await and that.\<close>

definition send :: "jobj \<Rightarrow> unit act" where
  "send m o' w = (if t_delivered (o' (w_step w)) then Some () else None,
     w\<lparr>w_step := Suc (w_step w), w_sent := w_sent w @ [(m, w_store w)]\<rparr>)"

definition log_start :: "start_request \<Rightarrow> unit act" where
  "log_start r o' w = (Some (), w\<lparr>w_starts := w_starts w @ [r]\<rparr>)"

definition changing :: "request_status option \<Rightarrow> cancel_result option \<Rightarrow> jobj option \<Rightarrow> request_changes" where
  "changing s c r = \<lparr>ch_status = s, ch_cancelResult = c, ch_response = r\<rparr>"

definition update_request :: "jstr \<Rightarrow> request_changes \<Rightarrow> jstr option \<Rightarrow> interactive_request act" where
  "update_request key ch sid = store_do (updateInteractive key ch sid)"

definition get_request :: "jstr \<Rightarrow> interactive_request option act" where
  "get_request key = store_get (\<lambda>s. interactiveRequest s key)"

subsection \<open>Identities\<close>

text \<open>The entries of an object sorted by their keys, with the comparison \<open>localeCompare\<close> makes.\<close>

fun insert_entry :: "(jstr \<Rightarrow> jstr \<Rightarrow> bool) \<Rightarrow> jstr \<times> jstr \<Rightarrow> (jstr \<times> jstr) list \<Rightarrow> (jstr \<times> jstr) list" where
  "insert_entry before p [] = [p]"
| "insert_entry before p (q # r) = (if before (fst q) (fst p) then q # insert_entry before p r else p # q # r)"

primrec canonical :: "(jstr \<Rightarrow> jstr \<Rightarrow> bool) \<Rightarrow> json \<Rightarrow> jstr"
  and canonical_items :: "(jstr \<Rightarrow> jstr \<Rightarrow> bool) \<Rightarrow> json list \<Rightarrow> jstr list"
  and canonical_props :: "(jstr \<Rightarrow> jstr \<Rightarrow> bool) \<Rightarrow> (jstr \<times> json) list \<Rightarrow> (jstr \<times> jstr) list"
  and canonical_prop :: "(jstr \<Rightarrow> jstr \<Rightarrow> bool) \<Rightarrow> jstr \<times> json \<Rightarrow> jstr \<times> jstr" where
  "canonical le JNull = stringify JNull"
| "canonical le (JBool b) = stringify (JBool b)"
| "canonical le (JNum n) = stringify (JNum n)"
| "canonical le (JStr s) = stringify (JStr s)"
| "canonical le (JArr xs) = 91 # join_comma (canonical_items le xs) @ [93]"
| "canonical le (JObj kvs) = 123 # join_comma (map (\<lambda>(k, t). stringify (JStr k) @ 58 # t)
     (foldr (insert_entry le) (canonical_props le kvs) [])) @ [125]"
| "canonical_items le [] = []"
| "canonical_items le (x # xs) = canonical le x # canonical_items le xs"
| "canonical_props le [] = []"
| "canonical_props le (p # ps) = canonical_prop le p # canonical_props le ps"
| "canonical_prop le (k, v) = (k, canonical le v)"

record codec =
  cd_sha :: "bytes \<Rightarrow> bytes"
  cd_before :: "jstr \<Rightarrow> jstr \<Rightarrow> bool"
  cd_numeral :: "jstr \<Rightarrow> jnum"

definition fingerprint :: "codec \<Rightarrow> jobj \<Rightarrow> jstr" where
  "fingerprint cd command = hex_text (cd_sha cd (utf8_encode (canonical (cd_before cd) (JObj command))))"

definition request_key :: "router_options \<Rightarrow> jstr \<Rightarrow> jstr \<Rightarrow> jstr \<Rightarrow> jstr" where
  "request_key ro sender discussion request =
     stringify (JArr [JStr (ro_runtimeId ro), JStr (ro_nodeId ro), JStr sender, JStr discussion, JStr request])"

definition REQUEST_TTL :: int where
  "REQUEST_TTL = 24 * 60 * 60 * 1000"

definition is_cancel :: "jobj \<Rightarrow> bool" where
  "is_cancel command \<longleftrightarrow> is_lit (field command ''msg_type'') ''discussion_cancel''"

definition is_assignment :: "jobj \<Rightarrow> bool" where
  "is_assignment command \<longleftrightarrow> is_lit (field command ''msg_type'') ''discussion_assignment''"

definition target_request :: "jobj \<Rightarrow> jstr" where
  "target_request command = (if is_cancel command then str_field command ''targetRequestId'' else str_field command ''requestId'')"

definition new_request :: "codec \<Rightarrow> router_options \<Rightarrow> jstr \<Rightarrow> jobj \<Rightarrow> interactive_request act" where
  "new_request cd ro sender command = ask (\<lambda>t. map_option (\<lambda>inst.
     \<lparr>r_key = request_key ro sender (str_field command ''discussionId'') (target_request command),
      r_sessionKey = interactiveSessionKey (ro_runtimeId ro) (ro_nodeId ro) (js ''discussion'') (str_field command ''discussionId''),
      r_runtimeId = ro_runtimeId ro, r_nodeId = ro_nodeId ro, r_senderId = sender, r_memberId = ro_memberId ro,
      r_discussionId = str_field command ''discussionId'', r_chatroomId = str_field command ''chatroomId'',
      r_requestId = target_request command, r_taskId = t_taskId t, r_instanceId = inst,
      r_stateVersion = int_field command ''stateVersion'', r_round = int_field command ''round'',
      r_roundRevision = int_field command ''roundRevision'',
      r_expiresAt = int_field command ''timestamp'' + REQUEST_TTL,
      r_fingerprint = (if is_cancel command then [] else fingerprint cd command),
      r_status = (if is_cancel command then CancelPending else Reserved),
      r_cancelResult = None, r_response = None\<rparr>) (t_health t))"

subsection \<open>Messages\<close>

definition cancel_ack :: "jobj \<Rightarrow> cancel_result \<Rightarrow> jobj" where
  "cancel_ack command result = discussionV3Identity command
     @ [(js ''msg_type'', JLit ''discussion_cancel_ack'')]
     @ copied ''targetRequestId'' (field command ''targetRequestId'')
     @ copied ''targetMemberId'' (field command ''targetMemberId'') @ [(js ''result'', JLit (cancel_text result))]"

definition errorPayload :: "codec \<Rightarrow> jobj \<Rightarrow> string \<Rightarrow> jstr \<Rightarrow> jobj" where
  "errorPayload cd command category message = discussionV3Identity command
     @ [(js ''msg_type'', JLit ''discussion_node_error'')]
     @ (if is_assignment command then copied ''assignmentId'' (field command ''assignmentId'') else [])
     @ [(js ''category'', JLit category), (js ''message'', JStr message),
        (js ''idempotencyKey'', JStr (discussionV3ResponseKey (cd_sha cd) (str_field command ''requestId'') (js ''error'')))]"

definition delta_message :: "codec \<Rightarrow> jobj \<Rightarrow> jstr \<Rightarrow> nat \<Rightarrow> jobj" where
  "delta_message cd command text seq = discussionV3Identity command
     @ [(js ''msg_type'', JLit ''discussion_contribution_delta'')]
     @ copied ''assignmentId'' (field command ''assignmentId'')
     @ [(js ''content'', JStr text), (js ''seq'', JInt (int seq - 1)),
        (js ''idempotencyKey'', JStr (discussionV3ResponseKey (cd_sha cd) (str_field command ''requestId'')
           (js ''delta:'' @ int_text (int seq))))]"

definition completed_message :: "codec \<Rightarrow> jobj \<Rightarrow> jstr \<Rightarrow> jobj" where
  "completed_message cd command output = discussionV3Identity command
     @ [(js ''msg_type'', JLit ''discussion_contribution_completed'')]
     @ copied ''assignmentId'' (field command ''assignmentId'')
     @ [(js ''content'', JStr output),
        (js ''idempotencyKey'', JStr (discussionV3ResponseKey (cd_sha cd) (str_field command ''requestId'') (js ''completed'')))]"

subsection \<open>The stream of a task\<close>

definition DELTA_MERGE_MAX_CHARS :: nat where
  "DELTA_MERGE_MAX_CHARS = 2000"

text \<open>
  The deltas that wait for the send in flight are kept as texts: the number of a delta is read when its
  send starts, not when it is queued.
\<close>

record stream =
  st_output :: jstr
  st_pending :: jstr
  st_seq :: nat
  st_timer :: bool
  st_queue :: "jstr list"
  st_inflight :: bool
  st_broken :: bool

definition stream_start :: stream where
  "stream_start = \<lparr>st_output = [], st_pending = [], st_seq = 0, st_timer = False, st_queue = [],
     st_inflight = False, st_broken = False\<rparr>"

text \<open>Handing a delta to the transport; its end is an input of its own.\<close>

definition hand_over :: "jobj \<Rightarrow> unit act" where
  "hand_over m o' w = (Some (), w\<lparr>w_sent := w_sent w @ [(m, w_store w)]\<rparr>)"

definition start_next :: "codec \<Rightarrow> jobj \<Rightarrow> stream \<Rightarrow> stream act" where
  "start_next cd command st =
     (if st_inflight st \<or> st_broken st then ret st
      else case st_queue st of
        [] \<Rightarrow> ret st
      | text # r \<Rightarrow> andThen (hand_over (delta_message cd command text (st_seq st)))
                     (\<lambda>_. ret (st\<lparr>st_queue := r, st_inflight := True\<rparr>)))"

definition flushDelta :: "codec \<Rightarrow> jobj \<Rightarrow> stream \<Rightarrow> stream act" where
  "flushDelta cd command st0 =
     (let st = st0\<lparr>st_timer := False\<rparr> in
      if st_pending st = [] then ret st
      else start_next cd command (st\<lparr>st_pending := [], st_seq := st_seq st + 1, st_queue := st_queue st @ [st_pending st]\<rparr>))"

definition settle :: "codec \<Rightarrow> jobj \<Rightarrow> bool \<Rightarrow> stream \<Rightarrow> stream act" where
  "settle cd command ok st =
     (if \<not> st_inflight st then ret st
      else if ok then start_next cd command (st\<lparr>st_inflight := False\<rparr>)
      else ret (st\<lparr>st_inflight := False, st_broken := True\<rparr>))"

text \<open>\<open>await deltaDrain\<close>: the send in flight, then the queued ones, each after the other.\<close>

fun drain_queue :: "codec \<Rightarrow> jobj \<Rightarrow> nat \<Rightarrow> jstr list \<Rightarrow> unit act" where
  "drain_queue cd command seq [] = ret ()"
| "drain_queue cd command seq (text # r) =
     andThen (send (delta_message cd command text seq)) (\<lambda>_. drain_queue cd command seq r)"

definition drain :: "codec \<Rightarrow> jobj \<Rightarrow> stream \<Rightarrow> unit act" where
  "drain cd command st =
     (if st_broken st then throw
      else andThen (if st_inflight st then ask (\<lambda>t. if t_delivered t then Some () else None) else ret ())
        (\<lambda>_. drain_queue cd command (st_seq st) (st_queue st)))"

definition is_terminal_event :: "task_event \<Rightarrow> bool" where
  "is_terminal_event e = (case e of Completed a b \<Rightarrow> True | FailedEvent a b \<Rightarrow> True | CancelledEvent a \<Rightarrow> True | _ \<Rightarrow> False)"

definition event_session :: "task_event \<Rightarrow> jstr option" where
  "event_session e = (case e of Completed a s \<Rightarrow> s | FailedEvent a s \<Rightarrow> s | CancelledEvent s \<Rightarrow> s | _ \<Rightarrow> None)"

text \<open>The response to a finished task: the checkpoint or the contribution when it is valid, else an error.\<close>

definition runtime_failed :: jstr where
  "runtime_failed = js ''Runtime did not return a valid completed response''"

definition final_response :: "codec \<Rightarrow> jobj \<Rightarrow> task_event \<Rightarrow> jstr \<Rightarrow> jobj" where
  "final_response cd command e output0 = (case e of
     Completed out sid \<Rightarrow>
       (let output = (case out of None \<Rightarrow> output0 | Some s \<Rightarrow> if s = [] then output0 else s)
        in case (if is_assignment command then parseDiscussionV3 (JObj (completed_message cd command output))
                 else parseDiscussionV3Checkpoint (cd_sha cd) (cd_numeral cd) output command) of
             Some r \<Rightarrow> r
           | None \<Rightarrow> errorPayload cd command ''invalid_response'' runtime_failed)
   | _ \<Rightarrow> errorPayload cd command ''model_error'' runtime_failed)"

definition finish_task :: "codec \<Rightarrow> jobj \<Rightarrow> interactive_request \<Rightarrow> bool \<Rightarrow> task_event \<Rightarrow> stream \<Rightarrow> unit act" where
  "finish_task cd command record0 suppress e st0 =
     andThen (flushDelta cd command st0) (\<lambda>st. andThen (drain cd command st) (\<lambda>_.
       if (case e of FailedEvent unconfirmed s \<Rightarrow> unconfirmed | _ \<Rightarrow> False) then
         andThen (update_request (r_key record0) (changing (Some Unconfirmed) None None) None) (\<lambda>_. ret ())
       else if suppress then
         (case event_session e of
            Some (u # s) \<Rightarrow> andThen (update_request (r_key record0) (changing None None None) (Some (u # s))) (\<lambda>_. ret ())
          | _ \<Rightarrow> ret ())
       else let response = final_response cd command e (st_output st)
            in andThen (update_request (r_key record0) (changing (Some Terminal) None (Some response)) (event_session e))
                 (\<lambda>_. send response)))"

definition take_text :: "codec \<Rightarrow> jobj \<Rightarrow> jstr \<Rightarrow> stream \<Rightarrow> stream act" where
  "take_text cd command text st0 =
     (let st = st0\<lparr>st_output := st_output st0 @ text\<rparr> in
      if length (st_output st) > 100000 then throw
      else if is_assignment command then
        let st1 = st\<lparr>st_pending := st_pending st @ text\<rparr>
        in if length (st_pending st1) \<ge> DELTA_MERGE_MAX_CHARS then flushDelta cd command st1
           else ret (st1\<lparr>st_timer := True\<rparr>)
      else ret st)"

definition suppressed :: "request_status \<Rightarrow> bool" where
  "suppressed s \<longleftrightarrow> s = CancelPending \<or> s = Terminal \<or> s = Unconfirmed"

fun consume_events ::
  "codec \<Rightarrow> jobj \<Rightarrow> interactive_request \<Rightarrow> run_input list \<Rightarrow> stream \<Rightarrow> unit act" where
  "consume_events cd command record0 [] st0 =
     andThen (flushDelta cd command st0) (\<lambda>st. andThen (drain cd command st) (\<lambda>_. throw))"
| "consume_events cd command record0 (DeltaTimer # r) st =
     (if st_timer st then andThen (flushDelta cd command st) (consume_events cd command record0 r)
      else consume_events cd command record0 r st)"
| "consume_events cd command record0 (Settled ok # r) st =
     andThen (settle cd command ok st) (consume_events cd command record0 r)"
| "consume_events cd command record0 (TaskEvent tid e # r) st =
     (if tid \<noteq> r_taskId record0 then consume_events cd command record0 r st
      else andThen (get_request (r_key record0)) (\<lambda>current. andThen (peek t_disposed) (\<lambda>disposed.
        case current of
          None \<Rightarrow> consume_events cd command record0 r st
        | Some cur \<Rightarrow>
            if r_roundRevision cur \<noteq> int_field command ''roundRevision'' \<or> r_requestId cur \<noteq> str_field command ''requestId''
            then consume_events cd command record0 r st
            else let suppress = disposed \<or> suppressed (r_status cur) in
              if is_terminal_event e then finish_task cd command record0 suppress e st
              else (case e of
                 TextDelta (u # s) \<Rightarrow>
                   if suppress then consume_events cd command record0 r st
                   else andThen (take_text cd command (u # s) st) (consume_events cd command record0 r)
               | _ \<Rightarrow> consume_events cd command record0 r st))))"

subsection \<open>Running a command\<close>

text \<open>The catch block: whatever is not known to have ended is unconfirmed.\<close>

definition recover :: "interactive_request option \<Rightarrow> unit act" where
  "recover r = (case r of
     None \<Rightarrow> ret ()
   | Some x \<Rightarrow> andThen (get_request (r_key x)) (\<lambda>cur.
       if map_option r_status cur = Some Terminal then ret ()
       else andThen (update_request (r_key x) (changing (Some Unconfirmed) None None) None) (\<lambda>_. ret ())))"

definition resend :: "interactive_request \<Rightarrow> unit act" where
  "resend r = (case Option.bind (map_option JObj (r_response r)) parseDiscussionV3 of
     None \<Rightarrow> ret () | Some response \<Rightarrow> send response)"

definition unavailable_text :: "router_options \<Rightarrow> jstr" where
  "unavailable_text ro = js ''Interactive rounds unavailable for runtime '' @ ro_runtimeId ro
     @ js '': verified cancel/session_resume/text_events required''"

text \<open>Up to the reservation: \<open>Some None\<close> when the run is over.\<close>

definition prepare ::
  "codec \<Rightarrow> router_options \<Rightarrow> jstr \<Rightarrow> jobj \<Rightarrow> interactive_request option
   \<Rightarrow> (interactive_request \<times> interactive_request) option act" where
  "prepare cd ro sender command found =
     (let over = (\<lambda>a. andThen a (\<lambda>_. ret None));
          continue = andThen (ask t_available) (\<lambda>ok.
            if \<not> ok then over (case found of
                Some r \<Rightarrow> andThen (update_request (r_key r) (changing (Some Unconfirmed) None None) None) (\<lambda>_. ret ())
              | None \<Rightarrow> send (errorPayload cd command ''model_error'' (unavailable_text ro)))
            else andThen (new_request cd ro sender command) (\<lambda>candidate.
              andThen (store_do (reserveInteractive candidate)) (\<lambda>record0.
                ret (map_option (\<lambda>r. (r, candidate)) record0))))
      in case found of
           None \<Rightarrow> continue
         | Some r \<Rightarrow>
             if r_fingerprint r \<noteq> fingerprint cd command then ret None
             else if r_status r = Terminal then over (resend r)
             else if r_status r = CancelPending \<or> r_status r = Unconfirmed then ret None
             else continue)"

definition start_task :: "codec \<Rightarrow> router_options \<Rightarrow> jobj \<Rightarrow> interactive_request \<Rightarrow> jstr \<Rightarrow> jstr option \<Rightarrow> run_input list act" where
  "start_task cd ro command record0 workdir resume =
     (case buildDiscussionV3Prompt command of
        Inl e \<Rightarrow> throw
      | Inr prompt \<Rightarrow>
          andThen (log_start \<lparr>sr_requestId = r_taskId record0, sr_runtimeId = r_runtimeId record0,
             sr_conversationKey = r_sessionKey record0, sr_workdir = workdir, sr_prompt = prompt,
             sr_model = (if is_assignment command \<and> field command ''model'' \<noteq> Some JNull then field command ''model'' else None),
             sr_resume = resume\<rparr>) (\<lambda>_.
            andThen (ask (\<lambda>t. map_option (\<lambda>i. (i, t_events t)) (t_started t))) (\<lambda>(started, events).
              if started \<noteq> r_taskId record0 then throw else ret events)))"

text \<open>
  The mark that a task runs.  The status is read in one operation and written in the next; the operations
  of others may come between the two.
\<close>

definition mark_running :: "jstr \<Rightarrow> unit act" where
  "mark_running key = andThen (get_request key) (\<lambda>cur.
     if map_option r_status cur = Some Reserved
     then andThen (update_request key (changing (Some Running) None None) None) (\<lambda>_. ret ()) else ret ())"

definition nonempty :: "jstr option \<Rightarrow> jstr option" where
  "nonempty s = (if s = Some [] then None else s)"

definition perform ::
  "codec \<Rightarrow> router_options \<Rightarrow> jobj \<Rightarrow> interactive_request \<Rightarrow> interactive_request \<Rightarrow> unit act" where
  "perform cd ro command record0 candidate =
     (if r_fingerprint record0 \<noteq> r_fingerprint candidate then ret ()
      else if r_status record0 = Terminal then resend record0
      else if r_status record0 = CancelPending \<or> r_status record0 = Unconfirmed then ret ()
      else if r_instanceId record0 \<noteq> r_instanceId candidate then
        andThen (update_request (r_key record0) (changing (Some Unconfirmed) None None) None) (\<lambda>_. ret ())
      else andThen (ask t_workdir) (\<lambda>workdir.
        andThen (store_get (\<lambda>s. interactiveSession s (r_sessionKey record0))) (\<lambda>resume.
        andThen (get_request (r_key record0)) (\<lambda>latest.
          if map_option r_status latest \<in> {Some CancelPending, Some Terminal} then ret ()
          else andThen (peek t_disposed) (\<lambda>disposed.
            if disposed then
              andThen (ask t_fence) (\<lambda>(result, sid).
                andThen (update_request (r_key record0) (changing (Some Terminal) (Some result) None) sid) (\<lambda>_. ret ()))
            else andThen (start_task cd ro command record0 workdir (nonempty resume)) (\<lambda>events.
              andThen (mark_running (r_key record0)) (\<lambda>_.
                consume_events cd command record0 events stream_start)))))))"

definition run_command :: "codec \<Rightarrow> router_options \<Rightarrow> jstr \<Rightarrow> jobj \<Rightarrow> unit act" where
  "run_command cd ro sender command =
     attempt (get_request (request_key ro sender (str_field command ''discussionId'') (str_field command ''requestId'')))
       (\<lambda>r. case r of
          None \<Rightarrow> ret ()
        | Some found \<Rightarrow> attempt (prepare cd ro sender command found) (\<lambda>p. case p of
              None \<Rightarrow> recover found
            | Some None \<Rightarrow> ret ()
            | Some (Some (record0, candidate)) \<Rightarrow>
                attempt (perform cd ro command record0 candidate)
                  (\<lambda>done. case done of None \<Rightarrow> recover (Some record0) | Some _ \<Rightarrow> ret ())))"

subsection \<open>Cancelling\<close>

definition locate :: "codec \<Rightarrow> router_options \<Rightarrow> jstr \<Rightarrow> jobj \<Rightarrow> interactive_request option act" where
  "locate cd ro sender command =
     andThen (get_request (request_key ro sender (str_field command ''discussionId'') (str_field command ''targetRequestId'')))
       (\<lambda>found. case found of
          Some r \<Rightarrow> ret (Some r)
        | None \<Rightarrow> andThen (new_request cd ro sender command) (\<lambda>candidate. store_do (reserveInteractive candidate)))"

definition cancel_applies :: "jobj \<Rightarrow> interactive_request \<Rightarrow> bool" where
  "cancel_applies command r \<longleftrightarrow> r_memberId r = str_field command ''targetMemberId''
     \<and> r_chatroomId r = str_field command ''chatroomId'' \<and> r_round r = int_field command ''round''
     \<and> r_stateVersion r \<le> int_field command ''stateVersion'' \<and> r_roundRevision r \<le> int_field command ''roundRevision''"

definition conclude :: "interactive_request \<Rightarrow> cancel_result \<Rightarrow> jstr option \<Rightarrow> cancel_result act" where
  "conclude r result sid =
     andThen (update_request (r_key r) (changing (Some Terminal) (Some result) None) sid) (\<lambda>_. ret result)"

definition confirm :: "interactive_request \<Rightarrow> cancel_result act" where
  "confirm r = (case r_cancelResult r of
     Some CrCancelled \<Rightarrow> conclude r CrCancelled None
   | Some CrAlreadyTerminal \<Rightarrow> conclude r CrAlreadyTerminal None
   | Some CrNotStarted \<Rightarrow> conclude r CrNotStarted None
   | _ \<Rightarrow>
       if r_status r = Terminal then conclude r CrAlreadyTerminal None
       else andThen (update_request (r_key r) (changing (Some CancelPending) None None) None) (\<lambda>_.
         andThen (ask t_health) (\<lambda>inst.
           if inst \<noteq> r_instanceId r then throw
           else andThen (ask t_fence) (\<lambda>(result, sid). conclude r result sid))))"

definition cancel_command :: "codec \<Rightarrow> router_options \<Rightarrow> jstr \<Rightarrow> jobj \<Rightarrow> unit act" where
  "cancel_command cd ro sender command =
     attempt (locate cd ro sender command) (\<lambda>l. case l of
        None \<Rightarrow> send (cancel_ack command CrFailed)
      | Some None \<Rightarrow> ret ()
      | Some (Some r) \<Rightarrow>
          if \<not> cancel_applies command r then ret ()
          else attempt (confirm r) (\<lambda>c. case c of
             Some result \<Rightarrow> send (cancel_ack command result)
           | None \<Rightarrow> attempt (update_request (r_key r) (changing (Some Unconfirmed) (Some CrFailed) None) None)
                      (\<lambda>_. send (cancel_ack command CrFailed))))"

subsection \<open>Messages and shutdown\<close>

definition remember_room :: "router_options \<Rightarrow> jobj \<Rightarrow> unit act" where
  "remember_room ro command = store_do (rememberInteractiveRoom (ro_runtimeId ro) (ro_nodeId ro)
     (str_field command ''chatroomId'') (str_field command ''discussionId''))"

definition hosts :: "router_options \<Rightarrow> jobj \<Rightarrow> bool" where
  "hosts ro command \<longleftrightarrow> list_ex (\<lambda>(k, r). case r of
     JObj role \<Rightarrow> field role ''memberId'' = Some (JStr (ro_memberId ro)) \<and> field role ''isHost'' = Some (JBool True)
   | _ \<Rightarrow> False) (obj_field command ''roles'')"

text \<open>Run a command unless it is running already; it stays in the table of active ones until it ends.\<close>

definition run_once :: "jstr \<Rightarrow> unit act \<Rightarrow> unit act" where
  "run_once key run o' w =
     (if key \<in> set (w_active w) then (Some (), w)
      else case run o' (w\<lparr>w_active := key # w_active w\<rparr>) of
        (r, w') \<Rightarrow> (r, w'\<lparr>w_active := remove1 key (w_active w')\<rparr>))"

definition handle :: "codec \<Rightarrow> router_options \<Rightarrow> jstr \<Rightarrow> json \<Rightarrow> unit act" where
  "handle cd ro sender payload o' w =
     (let t = o' (w_step w) in
      if t_disposed t then (Some (), w)
      else case parseDiscussionV3 payload of
        None \<Rightarrow> (Some (), w)
      | Some command \<Rightarrow>
          if sender \<noteq> js ''system'' \<or> int_field command ''timestamp'' > t_now t + 300000
            \<or> int_field command ''timestamp'' + REQUEST_TTL \<le> t_now t then (Some (), w)
          else if is_lit (field command ''msg_type'') ''discussion_event'' then remember_room ro command o' w
          else if is_cancel command then
            (if str_field command ''targetMemberId'' \<noteq> ro_memberId ro then (Some (), w)
             else andThen (remember_room ro command) (\<lambda>_. cancel_command cd ro sender command) o' w)
          else if \<not> is_assignment command \<and> \<not> is_lit (field command ''msg_type'') ''discussion_host_turn'' then (Some (), w)
          else if is_assignment command \<and> str_field command ''targetId'' \<noteq> ro_memberId ro then (Some (), w)
          else if \<not> is_assignment command \<and> \<not> hosts ro command then (Some (), w)
          else andThen (remember_room ro command) (\<lambda>_.
            run_once (request_key ro sender (str_field command ''discussionId'') (str_field command ''requestId''))
              (run_command cd ro sender command)) o' w)"

fun dispose_each :: "interactive_request list \<Rightarrow> unit act" where
  "dispose_each [] = ret ()"
| "dispose_each (r # rs) =
     (if r_status r = Terminal then dispose_each rs
      else andThen (update_request (r_key r) (changing (Some CancelPending) None None) None) (\<lambda>_.
        attempt (andThen (ask t_health) (\<lambda>inst.
            if inst \<noteq> r_instanceId r then throw
            else andThen (ask t_fence) (\<lambda>(result, sid).
              update_request (r_key r) (changing (Some Terminal) (Some result) None) sid)))
          (\<lambda>done. case done of
             Some _ \<Rightarrow> dispose_each rs
           | None \<Rightarrow> andThen (update_request (r_key r) (changing (Some Unconfirmed) (Some CrFailed) None) None)
                       (\<lambda>_. dispose_each rs))))"

definition dispose_router :: "router_options \<Rightarrow> unit act" where
  "dispose_router ro = andThen (store_get (\<lambda>s. interactiveRequestsOf s (ro_runtimeId ro) (ro_nodeId ro))) dispose_each"

end
