(* ===== verification/V3RouterProofs.thy ===== *)
theory V3RouterProofs imports V3Router begin

text \<open>
  Reasoning about handlers: an act is careful when every message it sends satisfies a condition on the
  message and the store it is sent from.  Composition keeps it; the facts about the store that a message needs
  come from the await before it.
\<close>

subsection \<open>Careful acts\<close>

definition careful_from :: "(jobj \<Rightarrow> store \<Rightarrow> bool) \<Rightarrow> answers \<Rightarrow> world \<Rightarrow> 'a act \<Rightarrow> bool" where
  "careful_from G as w a \<longleftrightarrow> (\<exists>l. w_sent (snd (a as w)) = w_sent w @ l \<and> (\<forall>(m, s) \<in> set l. G m s))"

definition careful :: "(jobj \<Rightarrow> store \<Rightarrow> bool) \<Rightarrow> 'a act \<Rightarrow> bool" where
  "careful G a \<longleftrightarrow> (\<forall>as w. careful_from G as w a)"

lemma carefulD: "careful G a \<Longrightarrow> careful_from G as w a"
  by (simp add: careful_def)

named_theorems careful_intro

lemma careful_from_andThen:
  assumes "careful_from G as w a" "\<And>v w'. a as w = (Some v, w') \<Longrightarrow> careful_from G as w' (f v)"
  shows "careful_from G as w (andThen a f)"
proof (cases "a as w")
  case (Pair r w')
  show ?thesis
  proof (cases r)
    case None
    thus ?thesis using assms(1) Pair by (simp add: careful_from_def andThen_def)
  next
    case (Some v)
    obtain l1 l2 where "w_sent w' = w_sent w @ l1" "\<forall>(m, s) \<in> set l1. G m s"
      "w_sent (snd (f v as w')) = w_sent w' @ l2" "\<forall>(m, s) \<in> set l2. G m s"
      using assms Pair Some unfolding careful_from_def by force
    thus ?thesis using Pair Some by (auto simp: careful_from_def andThen_def intro!: exI [of _ "l1 @ l2"])
  qed
qed

lemma careful_from_attempt:
  assumes "careful_from G as w a" "\<And>r w'. a as w = (r, w') \<Longrightarrow> careful_from G as w' (f r)"
  shows "careful_from G as w (attempt a f)"
proof (cases "a as w")
  case (Pair r w')
  obtain l1 l2 where "w_sent w' = w_sent w @ l1" "\<forall>(m, s) \<in> set l1. G m s"
      "w_sent (snd (f r as w')) = w_sent w' @ l2" "\<forall>(m, s) \<in> set l2. G m s"
    using assms Pair unfolding careful_from_def by force
  thus ?thesis using Pair by (auto simp: careful_from_def attempt_def intro!: exI [of _ "l1 @ l2"])
qed

lemma careful_andThen [careful_intro]: "careful G a \<Longrightarrow> (\<And>v. careful G (f v)) \<Longrightarrow> careful G (andThen a f)"
  by (simp add: careful_def careful_from_andThen)

lemma careful_attempt [careful_intro]: "careful G a \<Longrightarrow> (\<And>v. careful G (f v)) \<Longrightarrow> careful G (attempt a f)"
  by (simp add: careful_def careful_from_attempt)

lemma careful_ret [careful_intro]: "careful G (ret v)"
  by (simp add: careful_def careful_from_def ret_def)

lemma careful_throw [careful_intro]: "careful G throw"
  by (simp add: careful_def careful_from_def throw_def)

lemma careful_peek [careful_intro]: "careful G (peek f)"
  by (simp add: careful_def careful_from_def peek_def)

lemma careful_await: "(\<And>t w. w_sent (snd (f t w)) = w_sent w) \<Longrightarrow> careful G (await f)"
  by (simp add: careful_def careful_from_def await_def Let_def)

lemma careful_ask [careful_intro]: "careful G (ask f)"
  unfolding ask_def by (rule careful_await) simp

lemma careful_get [careful_intro]: "careful G (store_get f)"
  unfolding store_get_def by (rule careful_await) (simp split: sum.split)

lemma careful_do [careful_intro]: "careful G (store_do tr)"
  unfolding store_do_def by (rule careful_await) (simp split: sum.split prod.split)

lemma careful_update [careful_intro]: "careful G (update_request k ch sid)"
  unfolding update_request_def by (rule careful_do)

lemma careful_get_request [careful_intro]: "careful G (get_request k)"
  unfolding get_request_def by (rule careful_get)

lemma careful_new [careful_intro]: "careful G (new_request cd ro sender c)"
  unfolding new_request_def by (rule careful_ask)

lemma careful_log [careful_intro]: "careful G (log_start r)"
  by (simp add: careful_def careful_from_def log_start_def)

lemma careful_if [careful_intro]: "careful G a \<Longrightarrow> careful G b \<Longrightarrow> careful G (if c then a else b)"
  by simp

lemma careful_case_option [careful_intro]:
  "careful G a \<Longrightarrow> (\<And>v. careful G (f v)) \<Longrightarrow> careful G (case x of None \<Rightarrow> a | Some v \<Rightarrow> f v)"
  by (cases x) simp_all

lemma careful_case_prod [careful_intro]: "(\<And>a b. careful G (f a b)) \<Longrightarrow> careful G (case x of (a, b) \<Rightarrow> f a b)"
  by (cases x) simp

lemma careful_send: "(\<And>s. G m s) \<Longrightarrow> careful G (send m)"
  by (simp add: careful_def careful_from_def send_def)

lemma careful_hand_over: "(\<And>s. G m s) \<Longrightarrow> careful G (hand_over m)"
  by (simp add: careful_def careful_from_def hand_over_def)

lemma careful_from_send: "G m (w_store w) \<Longrightarrow> careful_from G as w (send m)"
  by (simp add: careful_from_def send_def)

subsection \<open>What an await establishes\<close>

text \<open>The store holds a request of this key with the property.\<close>

definition holds :: "store \<Rightarrow> jstr \<Rightarrow> (interactive_request \<Rightarrow> bool) \<Rightarrow> bool" where
  "holds s key P \<longleftrightarrow> (\<exists>r \<in> set (interactiveRequests (memory s)). r_key r = key \<and> P r)"

lemma updated:
  assumes "mutate s now wr (updateInteractive key ch sid) = (Inr e, s')"
  shows "\<exists>r. e = apply_changes ch r \<and> r_key e = key \<and> e \<in> set (interactiveRequests (memory s'))
    \<and> disk s' = Some (memory s')"
proof -
  from assms obtain st c where st: "updateInteractive key ch sid ((memory s)\<lparr>dedup := pruneDedup (dedup (memory s)) now\<rparr>) now = Inr (st, c, e)"
    and s': "c \<Longrightarrow> memory s' = st \<and> disk s' = Some st"
    by (cases rule: mutate_cases) auto
  let ?st = "(memory s)\<lparr>dedup := pruneDedup (dedup (memory s)) now\<rparr>"
  from st obtain r where r: "List.find (\<lambda>x. r_key x = key) (interactiveRequests ?st) = Some r"
    and e: "e = apply_changes ch r" and c: c
    and q: "interactiveRequests st = update_first (\<lambda>x. r_key x = key) (apply_changes ch) (interactiveRequests ?st)"
    by (auto simp: updateInteractive_def Let_def split: option.splits if_splits)
  have "r_key r = key" using find_Some_in [OF r] by simp
  hence "r_key e = key" by (simp add: e apply_changes_def)
  moreover have "e \<in> set (interactiveRequests st)" unfolding e q by (rule in_update_first [OF r])
  ultimately show ?thesis using s' [OF c] e by auto
qed

lemma update_request_result:
  assumes "update_request key ch sid as w = (Some e, w')"
  shows "\<exists>r. e = apply_changes ch r \<and> r_key e = key \<and> e \<in> set (interactiveRequests (memory (w_store w')))
    \<and> disk (w_store w') = Some (memory (w_store w'))"
  using assms updated
  by (fastforce simp: update_request_def store_do_def await_def Let_def split: prod.splits sum.splits)

lemma get_request_result:
  assumes "get_request key as w = (Some (Some r), w')"
  shows "r_key r = key \<and> r \<in> set (interactiveRequests (memory (w_store w')))"
  using assms find_Some_in
  by (fastforce simp: get_request_def store_get_def await_def Let_def interactiveRequest_def read_state_def split: sum.splits if_splits)

lemma reserve_result:
  assumes "store_do (reserveInteractive c) as w = (Some (Some r), w')"
  shows "r_key r = r_key c \<and> r \<in> set (interactiveRequests (memory (w_store w')))"
proof -
  let ?s = "run_steps store_step (w_store w) (t_before (as (w_step w)))"
  let ?t = "as (w_step w)"
  have m: "mutate ?s (t_now ?t) (t_write ?t) (reserveInteractive c) = (Inr (Some r), w_store w')"
    using assms by (auto simp: store_do_def await_def Let_def split: prod.splits sum.splits)
  let ?st = "(memory ?s)\<lparr>dedup := pruneDedup (dedup (memory ?s)) (t_now ?t)\<rparr>"
  have f: "r_key r = r_key c \<and> r \<in> set (interactiveRequests st) \<and> (\<not> ch \<longrightarrow> r \<in> set (interactiveRequests (memory ?s)))"
    if "reserveInteractive c ?st (t_now ?t) = Inr (st, ch, Some r)" for st ch
    using that by (auto simp: reserveInteractive_def Let_def split: option.splits if_splits dest!: find_Some_in)
  from m show ?thesis by (cases rule: mutate_cases) (use f in auto)
qed

subsection \<open>Cancel acknowledgements\<close>

lemma parsed_same: "parseDiscussionV3 (JObj v) = Some c \<Longrightarrow> c = v"
  by (auto simp: parseDiscussionV3_def split: option.splits if_splits)

definition ack_result :: "jobj \<Rightarrow> cancel_result \<Rightarrow> bool" where
  "ack_result m c \<longleftrightarrow> field m ''result'' = Some (JLit (cancel_text c))"

text \<open>An acknowledgement for the command; when it reports an end, the end is recorded on disk.\<close>

definition good_ack :: "jobj \<Rightarrow> jstr \<Rightarrow> jobj \<Rightarrow> store \<Rightarrow> bool" where
  "good_ack command key m s \<longleftrightarrow> (\<exists>c. m = cancel_ack command c \<and>
     (c = CrFailed \<or> (holds s key (\<lambda>r. r_status r = Terminal \<and> r_cancelResult r = Some c)
        \<and> disk s = Some (memory s))))"

lemma locate_key:
  assumes "locate cd ro sender command as w = (Some (Some r), w')" "is_cancel command"
  shows "r_key r = request_key ro sender (str_field command ''discussionId'') (str_field command ''targetRequestId'')"
proof -
  let ?k = "request_key ro sender (str_field command ''discussionId'') (str_field command ''targetRequestId'')"
  obtain found w1 where g: "get_request ?k as w = (Some found, w1)"
    using assms(1) by (auto simp: locate_def andThen_def split: prod.splits option.splits)
  show ?thesis
  proof (cases found)
    case (Some q)
    thus ?thesis using g assms(1) get_request_result [of ?k as w q w1] by (simp add: locate_def andThen_def ret_def)
  next
    case None
    then obtain c w2 where c: "new_request cd ro sender command as w1 = (Some c, w2)"
        and r: "store_do (reserveInteractive c) as w2 = (Some (Some r), w')"
      using g assms(1) by (auto simp: locate_def andThen_def split: prod.splits option.splits)
    have "r_key c = ?k"
      using c assms(2) by (auto simp: new_request_def ask_def await_def Let_def target_request_def)
    thus ?thesis using reserve_result [OF r] by simp
  qed
qed

lemma conclude_result:
  assumes "conclude r c sid as w = (Some v, w')"
  shows "v = c \<and> holds (w_store w') (r_key r) (\<lambda>x. r_status x = Terminal \<and> r_cancelResult x = Some c)
    \<and> disk (w_store w') = Some (memory (w_store w'))"
proof -
  obtain e where u: "update_request (r_key r) (changing (Some Terminal) (Some c) None) sid as w = (Some e, w')" and v: "v = c"
    using assms by (auto simp: conclude_def andThen_def ret_def split: prod.splits option.splits)
  from update_request_result [OF u] show ?thesis by (auto simp: v holds_def apply_changes_def changing_def)
qed

lemma confirm_result:
  assumes "confirm r as w = (Some c, w')"
  shows "holds (w_store w') (r_key r) (\<lambda>x. r_status x = Terminal \<and> r_cancelResult x = Some c)
    \<and> disk (w_store w') = Some (memory (w_store w'))"
proof -
  have "\<exists>c' sid w1. conclude r c' sid as w1 = (Some c, w')"
    using assms
    by (auto simp: confirm_def andThen_def throw_def split: option.splits cancel_result.splits if_splits prod.splits)
  thus ?thesis using conclude_result by blast
qed

lemma careful_confirm [careful_intro]: "careful G (confirm r)"
  unfolding confirm_def conclude_def
  by (auto intro!: careful_intro split: option.split cancel_result.split)

lemma careful_locate [careful_intro]: "careful G (locate cd ro sender c)"
  unfolding locate_def by (intro careful_intro)

lemma cancel_careful:
  assumes "is_cancel command"
  shows "careful (good_ack command (request_key ro sender (str_field command ''discussionId'') (str_field command ''targetRequestId'')))
    (cancel_command cd ro sender command)"
proof -
  let ?k = "request_key ro sender (str_field command ''discussionId'') (str_field command ''targetRequestId'')"
  let ?G = "good_ack command ?k"
  have failed: "careful ?G (send (cancel_ack command CrFailed))"
    by (rule careful_send) (auto simp: good_ack_def)
  have sent: "careful_from ?G as w (send (cancel_ack command c))"
    if "holds (w_store w) ?k (\<lambda>x. r_status x = Terminal \<and> r_cancelResult x = Some c)"
      "disk (w_store w) = Some (memory (w_store w))" for as w c
    using that by (intro careful_from_send) (auto simp: good_ack_def)
  have "careful_from ?G as w (attempt (confirm r) (\<lambda>c. case c of
             Some result \<Rightarrow> send (cancel_ack command result)
           | None \<Rightarrow> attempt (update_request (r_key r) (changing (Some Unconfirmed) (Some CrFailed) None) None)
                      (\<lambda>_. send (cancel_ack command CrFailed))))" if "r_key r = ?k" for as w r
  proof (rule careful_from_attempt)
    show "careful_from ?G as w (confirm r)" by (rule carefulD) (rule careful_confirm)
    fix c w' assume c: "confirm r as w = (c, w')"
    show "careful_from ?G as w' (case c of
             Some result \<Rightarrow> send (cancel_ack command result)
           | None \<Rightarrow> attempt (update_request (r_key r) (changing (Some Unconfirmed) (Some CrFailed) None) None)
                      (\<lambda>_. send (cancel_ack command CrFailed)))"
    proof (cases c)
      case None
      thus ?thesis using failed by (auto intro!: carefulD careful_intro)
    next
      case (Some x)
      thus ?thesis using sent confirm_result [of r as w x w'] c that by simp
    qed
  qed
  note inner = this
  show ?thesis unfolding careful_def cancel_command_def
  proof (intro allI careful_from_attempt)
    fix as w
    show "careful_from ?G as w (locate cd ro sender command)" by (rule carefulD) (rule careful_locate)
    fix l w' assume l: "locate cd ro sender command as w = (l, w')"
    show "careful_from ?G as w' (case l of
        None \<Rightarrow> send (cancel_ack command CrFailed)
      | Some None \<Rightarrow> ret ()
      | Some (Some r) \<Rightarrow>
          if \<not> cancel_applies command r then ret ()
          else attempt (confirm r) (\<lambda>c. case c of
             Some result \<Rightarrow> send (cancel_ack command result)
           | None \<Rightarrow> attempt (update_request (r_key r) (changing (Some Unconfirmed) (Some CrFailed) None) None)
                      (\<lambda>_. send (cancel_ack command CrFailed))))"
      using l failed locate_key [of cd ro sender command as w _ w'] assms inner
      by (auto intro!: carefulD careful_intro split: option.split)
  qed
qed

end
