(* ===== verification/V3RouterTheorems.thy ===== *)
theory V3RouterTheorems imports V3RouterProofs begin

text \<open>
  What the router of the third protocol promises: a cancellation and a response are recorded before they are
  announced, and a repeated command is answered from the record.
\<close>

subsection \<open>Acknowledgements are accepted by the server\<close>

lemma shape_required:
  "shape required [] (JObj ob) \<longleftrightarrow> (\<forall>(k, f) \<in> set required. \<exists>v. field ob k = Some v \<and> f v)
     \<and> list_all (\<lambda>(k, v). k \<in> js ` fst ` set required) ob"
proof -
  have "list_all (own_key ob) (map fst required) \<and> list_all (\<lambda>(k, f). f (the (field ob k))) required
      \<longleftrightarrow> (\<forall>(k, f) \<in> set required. \<exists>v. field ob k = Some v \<and> f v)"
    unfolding list_all_iff own_key_field by fastforce
  thus ?thesis unfolding shape_def exactKeys_def by simp blast
qed

lemma identity_append: "field (discussionV3Identity command @ r) k =
  (if k \<in> set identity_keys \<and> field command k \<noteq> None then field command k else field r k)"
  using identity_fields [of command k] by (auto simp: field_def map_add_def split: option.split)

lemma identity_in: "(k, v) \<in> set (discussionV3Identity command) \<Longrightarrow> k \<in> js ` set identity_keys"
  by (auto simp: discussionV3Identity_def copied_def split: option.splits)

definition ack_fields_list :: fields where
  "ack_fields_list = base_fields @ [(''targetRequestId'', id_v), (''targetMemberId'', id_v),
     (''result'', choice_v [JLit ''cancelled'', JLit ''already_terminal'', JLit ''not_started'', JLit ''failed''])]"

lemma base_names: "map fst base_fields = ''msg_type'' # identity_keys"
  by (simp add: base_fields_def identity_keys_def)

lemma ack_names: "fst ` set ack_fields_list = {''msg_type'', ''targetRequestId'', ''targetMemberId'', ''result''} \<union> set identity_keys"
proof -
  have "set (map fst ack_fields_list) = {''msg_type'', ''targetRequestId'', ''targetMemberId'', ''result''} \<union> set identity_keys"
    unfolding ack_fields_list_def map_append base_names by auto
  thus ?thesis by simp
qed

lemma copied_names: "(k', x) \<in> set (copied k v) \<Longrightarrow> k' = js k"
  by (simp add: copied_def split: option.splits)

lemma ack_keys: "list_all (\<lambda>(k, v). k \<in> js ` fst ` set ack_fields_list) (cancel_ack command c)"
proof -
  have "k \<in> js ` fst ` set ack_fields_list" if m: "(k, v) \<in> set (cancel_ack command c)" for k v
  proof -
    from m have "(k, v) \<in> set (discussionV3Identity command) \<or> k = js ''msg_type'' \<or> k = js ''result''
        \<or> (k, v) \<in> set (copied ''targetRequestId'' (field command ''targetRequestId''))
        \<or> (k, v) \<in> set (copied ''targetMemberId'' (field command ''targetMemberId''))"
      unfolding cancel_ack_def by simp blast
    hence "k \<in> js ` set identity_keys \<or> k \<in> js ` {''msg_type'', ''targetRequestId'', ''targetMemberId'', ''result''}"
      using identity_in copied_names by blast
    thus ?thesis unfolding ack_names by blast
  qed
  thus ?thesis unfolding list_all_iff by blast
qed

lemma command_fields:
  assumes "parseDiscussionV3 (JObj command) = Some v" "is_cancel command"
    and "(k, p) \<in> set (base_fields @ [(''targetRequestId'', id_v), (''targetMemberId'', id_v)])"
  shows "\<exists>x. field command k = Some x \<and> p x"
proof -
  have "cancel3_ok command"
    using assms(1,2) by (auto simp: parseDiscussionV3_def message3_checks_def is_cancel_def is_lit_def split: if_splits)
  hence "shape (base_fields @ [(''targetRequestId'', id_v), (''targetMemberId'', id_v), (''reason'', text_v 2000 True)]) [] (JObj command)"
    using assms(2) by (simp add: cancel3_ok_def is_cancel_def)
  thus ?thesis using assms(3) unfolding shape_required by auto
qed

lemma command_targets:
  assumes "parseDiscussionV3 (JObj command) = Some v" "is_cancel command"
  shows "field command ''targetRequestId'' \<noteq> field command ''requestId''"
  using assms by (auto simp: parseDiscussionV3_def message3_checks_def is_cancel_def is_lit_def cancel3_ok_def split: if_splits)

lemma ack_field:
  assumes "parseDiscussionV3 (JObj command) = Some v" "is_cancel command"
  shows "field (cancel_ack command c) k =
     (if k \<in> set identity_keys then field command k else if k = ''msg_type'' then Some (JLit ''discussion_cancel_ack'')
      else if k = ''targetRequestId'' then field command k else if k = ''targetMemberId'' then field command k
      else if k = ''result'' then Some (JLit (cancel_text c)) else None)"
proof -
  note f = command_fields [OF assms]
  have i: "field command k \<noteq> None" if "k \<in> set identity_keys"
  proof -
    have "k \<in> set (map fst base_fields)" unfolding base_names using that by simp
    hence "\<exists>p. (k, p) \<in> set base_fields" by force
    thus ?thesis using f by fastforce
  qed
  obtain x y where xy: "field command ''targetRequestId'' = Some x" "field command ''targetMemberId'' = Some y"
    using f [of "''targetRequestId''" id_v] f [of "''targetMemberId''" id_v] by auto
  show ?thesis
  proof (cases "k \<in> set identity_keys")
    case True
    thus ?thesis using i by (simp add: cancel_ack_def identity_append)
  next
    case False
    thus ?thesis by (simp add: cancel_ack_def identity_append copied_def xy)
  qed
qed

lemma ack_valid:
  assumes "parseDiscussionV3 (JObj command) = Some v" "is_cancel command" "(k, q) \<in> set ack_fields_list"
  shows "\<exists>x. field (cancel_ack command c) k = Some x \<and> q x"
proof -
  note a = ack_field [OF assms(1,2)]
  let ?r = "choice_v [JLit ''cancelled'', JLit ''already_terminal'', JLit ''not_started'', JLit ''failed'']"
  have b: "k' \<in> set identity_keys" if "(k', p) \<in> set base_fields" "k' \<noteq> ''msg_type''" for k' p
  proof -
    have "k' \<in> set (map fst base_fields)" using that(1) by force
    thus ?thesis unfolding base_names using that(2) by simp
  qed
  show ?thesis
  proof (cases "k = ''msg_type'' \<or> k = ''result''")
    case True
    thus ?thesis
    proof
      assume k: "k = ''msg_type''"
      with assms(3) have "q = text_v 64 False" by (simp add: ack_fields_list_def base_fields_def)
      thus ?thesis using k by (simp add: a identity_keys_def text_v_def)
    next
      assume k: "k = ''result''"
      with assms(3) have "q = ?r" by (simp add: ack_fields_list_def base_fields_def)
      moreover have "?r (JLit (cancel_text c))" by (cases c) (simp_all add: choice_v_def)
      ultimately show ?thesis using k by (simp add: a identity_keys_def)
    qed
  next
    case False
    hence o: "(k, q) \<in> set (base_fields @ [(''targetRequestId'', id_v), (''targetMemberId'', id_v)])"
      using assms(3) by (simp add: ack_fields_list_def)
    hence "k \<in> set identity_keys \<or> k = ''targetRequestId'' \<or> k = ''targetMemberId''" using b False by auto
    hence "field (cancel_ack command c) k = field command k" using False by (auto simp: a)
    thus ?thesis using command_fields [OF assms(1,2) o] by simp
  qed
qed

lemma ack_matches:
  assumes "parseDiscussionV3 (JObj command) = Some v" "is_cancel command"
  shows "matchesDiscussionV3CancelAck command (JObj (cancel_ack command c))"
proof -
  let ?a = "cancel_ack command c"
  note a = ack_field [OF assms]
  have "\<forall>(k, q) \<in> set ack_fields_list. \<exists>x. field ?a k = Some x \<and> q x" using ack_valid [OF assms] by blast
  hence "shape ack_fields_list [] (JObj ?a)" unfolding shape_required using ack_keys by blast
  moreover have t: "field ?a ''msg_type'' = Some (JLit ''discussion_cancel_ack'')" by (simp add: a identity_keys_def)
  moreover have "field ?a ''targetRequestId'' \<noteq> field ?a ''requestId''"
    using command_targets [OF assms] by (simp add: a identity_keys_def)
  ultimately have "cancel3_ok ?a" by (simp add: cancel3_ok_def is_lit_def ack_fields_list_def)
  hence "parseDiscussionV3 (JObj ?a) = Some ?a" using t
    by (simp add: parseDiscussionV3_def message3_checks_def is_lit_def)
  thus ?thesis using t by (simp add: matchesDiscussionV3CancelAck_def is_lit_def a identity_keys_def)
qed

text \<open>C16 Whatever else happens to the store meanwhile, a cancellation announces nothing that is not recorded: every
  message it sends is an acknowledgement the server accepts for the command, and one that reports an end
  is sent when the end is on disk.\<close>

theorem cancellation_recorded_before_acknowledged:
  assumes "parseDiscussionV3 (JObj command) = Some command" "is_cancel command"
    and "key = request_key ro sender (str_field command ''discussionId'') (str_field command ''targetRequestId'')"
  shows "\<exists>l. w_sent (snd (cancel_command cd ro sender command as w)) = w_sent w @ l \<and>
    (\<forall>(m, s) \<in> set l. matchesDiscussionV3CancelAck command (JObj m) \<and>
       (\<exists>c. ack_result m c \<and> (c = CrFailed \<or>
          (holds s key (\<lambda>r. r_status r = Terminal \<and> r_cancelResult r = Some c) \<and> disk s = Some (memory s)))))"
proof -
  obtain l where l: "w_sent (snd (cancel_command cd ro sender command as w)) = w_sent w @ l"
    and g: "\<forall>(m, s) \<in> set l. good_ack command key m s"
    using carefulD [OF cancel_careful [OF assms(2), where ro = ro and sender = sender and cd = cd], of as w]
    unfolding careful_from_def assms(3) [symmetric] by (elim exE conjE)
  have r: "ack_result (cancel_ack command c) c" for c
    by (simp add: ack_result_def ack_field [OF assms(1,2)] identity_keys_def)
  have "matchesDiscussionV3CancelAck command (JObj m) \<and>
       (\<exists>c. ack_result m c \<and> (c = CrFailed \<or>
          (holds s key (\<lambda>r. r_status r = Terminal \<and> r_cancelResult r = Some c) \<and> disk s = Some (memory s))))"
    if "(m, s) \<in> set l" for m s
  proof -
    from g that have "good_ack command key m s" by auto
    then obtain c where "m = cancel_ack command c" "c = CrFailed \<or>
        (holds s key (\<lambda>r. r_status r = Terminal \<and> r_cancelResult r = Some c) \<and> disk s = Some (memory s))"
      unfolding good_ack_def by (elim exE conjE)
    thus ?thesis using ack_matches [OF assms(1,2), of c] r [of c] by auto
  qed
  thus ?thesis by (intro exI [of _ l] conjI l) auto
qed

subsection \<open>Responses\<close>
















lemma careful_start_task [careful_intro]: "careful G (start_task cd ro command r wd res)"
  unfolding start_task_def by (auto intro!: careful_intro split: sum.split prod.split)

lemma careful_mark [careful_intro]: "careful G (mark_running key)"
  unfolding mark_running_def by (intro careful_intro)


lemma careful_recover [careful_intro]: "careful G (recover r)"
  unfolding recover_def by (intro careful_intro)



subsection \<open>Retries\<close>


subsection \<open>Two races\<close>

text \<open>The mark that a task runs overwrites a cancellation that was recorded between its read and its write.\<close>

lemma mark_running_overwrites_cancellation:
  assumes "get_request key as w = (Some (Some r), w1)" "r_status r = Reserved"
    and "holds (run_steps store_step (w_store w1) (t_before (as (w_step w1)))) key (\<lambda>q. r_status q = CancelPending)"
    and "mark_running key as w = (Some (), w2)"
  shows "holds (w_store w2) key (\<lambda>q. r_status q = Running)"
proof -
  obtain e where "update_request key (changing (Some Running) None None) None as w1 = (Some e, w2)"
    using assms(1,2,4) by (auto simp: mark_running_def andThen_def ret_def split: prod.splits option.splits)
  from update_request_result [OF this] show ?thesis by (auto simp: holds_def apply_changes_def changing_def)
qed

text \<open>
  Two deltas that are flushed while a send is in flight get the same number and the same idempotency key, the
  number of the second: the number is read when the send starts.
\<close>

lemma queued_deltas_share_number:
  assumes "st_inflight st" "\<not> st_broken st" "st_queue st = []" "st_pending st = a" "a \<noteq> []" "b \<noteq> []"
  shows "\<exists>s1 s2. w_sent (snd (andThen (flushDelta cd command st) (\<lambda>x.
      andThen (flushDelta cd command (x\<lparr>st_pending := b\<rparr>)) (\<lambda>y.
      andThen (settle cd command True y) (settle cd command True))) as w))
    = w_sent w @ [(delta_message cd command a (st_seq st + 2), s1), (delta_message cd command b (st_seq st + 2), s2)]"
  using assms
  by (simp add: flushDelta_def Let_def start_next_def ret_def andThen_def settle_def hand_over_def)

subsection \<open>Concrete runs\<close>

definition tick_sample :: tick where
  "tick_sample = \<lparr>t_before = [], t_now = 7, t_write = Written, t_health = None, t_fence = None, t_available = None,
     t_workdir = None, t_started = None, t_events = [], t_taskId = [], t_delivered = True, t_disposed = False\<rparr>"

definition options_sample :: router_options where
  "options_sample = \<lparr>ro_runtimeId = js ''rt'', ro_nodeId = js ''n'', ro_memberId = js ''m''\<rparr>"

definition codec_sample :: codec where
  "codec_sample = \<lparr>cd_sha = (\<lambda>_. []), cd_before = (\<lambda>a b. False), cd_numeral = NDbl\<rparr>"

definition cancel_sample :: jobj where
  "cancel_sample = [(js ''msg_type'', JLit ''discussion_cancel''), (js ''protocolVersion'', JInt 3),
     (js ''discussionId'', JLit ''d''), (js ''chatroomId'', JLit ''c''), (js ''requestId'', JLit ''r''),
     (js ''stateVersion'', JInt 3), (js ''round'', JInt 1), (js ''roundRevision'', JInt 0), (js ''timestamp'', JInt 5),
     (js ''targetRequestId'', JLit ''q''), (js ''targetMemberId'', JLit ''m''), (js ''reason'', JLit ''stop'')]"

lemma cancel_sample_ok: "parseDiscussionV3 (JObj cancel_sample) = Some cancel_sample" "is_cancel cancel_sample"
proof -
  have "cancel3_ok cancel_sample"
    by (simp add: cancel3_ok_def shape_def base_fields_def cancel_sample_def exactKeys_def own_key_field is_lit_def
        plain_id plain_char_def text_v_def integer_v_def choice_v_def max_safe_def)
  thus "parseDiscussionV3 (JObj cancel_sample) = Some cancel_sample"
    by (simp add: parseDiscussionV3_def message3_checks_def is_lit_def cancel_sample_def)
  show "is_cancel cancel_sample" by (simp add: is_cancel_def is_lit_def cancel_sample_def)
qed

definition world_sample :: "store \<Rightarrow> world" where
  "world_sample s = \<lparr>w_store = s, w_step = 0, w_sent = [], w_starts = [], w_active = []\<rparr>"

lemma world_sample_sent: "w_sent (world_sample s) = []"
  by (simp add: world_sample_def)

text \<open>A store that is not ready: the cancellation is answered, with a failure.\<close>

theorem cancellation_recorded_before_acknowledged_witness:
  "\<exists>m s. w_sent (snd (cancel_command codec_sample options_sample (js ''system'') cancel_sample (\<lambda>_. tick_sample)
       (world_sample (new_store None)))) = [(m, s)]
     \<and> matchesDiscussionV3CancelAck cancel_sample (JObj m) \<and> ack_result m CrFailed"
proof -
  let ?w = "snd (cancel_command codec_sample options_sample (js ''system'') cancel_sample (\<lambda>_. tick_sample) (world_sample (new_store None)))"
  have w: "w_sent ?w = [(cancel_ack cancel_sample CrFailed, new_store None)]"
    by (simp add: cancel_command_def attempt_def locate_def andThen_def get_request_def store_get_def await_def Let_def
        interactiveRequest_def read_state_def new_store_def world_sample_def tick_sample_def send_def)
  from cancellation_recorded_before_acknowledged [OF cancel_sample_ok refl, of codec_sample options_sample "js ''system''"
      "\<lambda>_. tick_sample" "world_sample (new_store None)"] obtain l
    where "w_sent ?w = w_sent (world_sample (new_store None)) @ l"
      "\<forall>(m, s) \<in> set l. matchesDiscussionV3CancelAck cancel_sample (JObj m)" by blast
  with w have "matchesDiscussionV3CancelAck cancel_sample (JObj (cancel_ack cancel_sample CrFailed))"
    by (simp add: world_sample_sent)
  moreover have "ack_result (cancel_ack cancel_sample CrFailed) CrFailed"
    by (simp add: ack_result_def ack_field [OF cancel_sample_ok] identity_keys_def)
  ultimately show ?thesis using w by blast
qed









end
