(* ===== verification/DedupSpec.thy ===== *)
theory DedupSpec imports Dedup begin

text \<open>
  What the deduplication of \<^verbatim>\<open>router/dedup.ts\<close> promises, without its list: a table of the messages that are
  remembered, each in the hand of a claimer or done, and the same answers to every sequence of requests.
\<close>

subsection \<open>The table\<close>

datatype phase = HeldAt int | DoneAt int

record remembered =
  m_runtime :: jstr
  m_claim :: jstr
  m_phase :: phase

type_synonym message_table = "jstr \<Rightarrow> remembered option"

fun since :: "phase \<Rightarrow> int" where
  "since (HeldAt t) = t"
| "since (DoneAt t) = t"

definition fresh_at :: "int \<Rightarrow> remembered \<Rightarrow> bool" where
  "fresh_at now r \<longleftrightarrow> now < since (m_phase r) + DEDUP_TTL_MS"

definition forget_old :: "int \<Rightarrow> message_table \<Rightarrow> message_table" where
  "forget_old now T k = (case T k of None \<Rightarrow> None | Some r \<Rightarrow> if fresh_at now r then Some r else None)"

definition valid_claim :: "jstr \<Rightarrow> jstr \<Rightarrow> jstr \<Rightarrow> int \<Rightarrow> bool" where
  "valid_claim runtime uid claim now \<longleftrightarrow> identifier_ok 8192 (dedupKey runtime uid) \<and> runtime_id_ok runtime
     \<and> identifier_ok 256 uid \<and> hex_exact 32 claim \<and> timestamp_ok now"

definition full_for :: "jstr \<Rightarrow> message_table \<Rightarrow> bool" where
  "full_for runtime T \<longleftrightarrow> card {k. \<exists>r. T k = Some r \<and> m_runtime r = runtime} \<ge> MAX_DEDUP_PER_RUNTIME
     \<or> card (dom T) \<ge> MAX_DEDUP_ENTRIES"

datatype dedup_answer = Refused | NewClaim | KnownMessage | TableFull | Decided bool

fun spec_step :: "message_table \<Rightarrow> dedup_event \<Rightarrow> dedup_answer \<times> message_table" where
  "spec_step T (DClaim runtime uid claim now) =
     (if \<not> valid_claim runtime uid claim now then (Refused, T)
      else let T' = forget_old now T in
        if T' (dedupKey runtime uid) \<noteq> None then (KnownMessage, T')
        else if full_for runtime T' then (TableFull, T')
        else (NewClaim, T'(dedupKey runtime uid \<mapsto> \<lparr>m_runtime = runtime, m_claim = claim, m_phase = HeldAt now\<rparr>)))"
| "spec_step T (DAdmit key claim now) =
     (case T key of
        Some r \<Rightarrow> if m_claim r = claim
          then (Decided True, case m_phase r of HeldAt t \<Rightarrow> T(key \<mapsto> r\<lparr>m_phase := DoneAt now\<rparr>) | DoneAt t \<Rightarrow> T)
          else (Decided False, T)
      | None \<Rightarrow> (Decided False, T))"
| "spec_step T (DRelease key claim) =
     (case T key of
        Some r \<Rightarrow> (case m_phase r of
            HeldAt t \<Rightarrow> if m_claim r = claim then (Decided True, T(key := None)) else (Decided False, T)
          | DoneAt t \<Rightarrow> (Decided False, T))
      | None \<Rightarrow> (Decided False, T))"

subsection \<open>The list and its answers\<close>

fun claim_answer :: "claim_transition \<Rightarrow> dedup_answer" where
  "claim_answer (TClaimed k c es) = NewClaim"
| "claim_answer (TDuplicate k es) = KnownMessage"
| "claim_answer (TCapacity k es) = TableFull"

fun dedup_answer_of :: "dedup_entry list \<Rightarrow> dedup_event \<Rightarrow> dedup_answer" where
  "dedup_answer_of es (DClaim r m c now) = (case claimDedup es r m c now of Inl e \<Rightarrow> Refused | Inr t \<Rightarrow> claim_answer t)"
| "dedup_answer_of es (DAdmit k c now) = Decided (accepted (admitDedup es k c now))"
| "dedup_answer_of es (DRelease k c) = Decided (accepted (releaseDedup es k c))"

definition remembered_of :: "dedup_entry \<Rightarrow> remembered" where
  "remembered_of e = \<lparr>m_runtime = d_runtimeId e, m_claim = d_claimId e,
     m_phase = (if d_state e = Admitted then DoneAt (the (d_admittedAt e)) else HeldAt (d_claimedAt e))\<rparr>"

definition table_of :: "dedup_entry list \<Rightarrow> message_table" where
  "table_of es = map_of (map (\<lambda>e. (d_key e, remembered_of e)) es)"

lemma table_Nil: "table_of [] = Map.empty"
  by (simp add: table_of_def)

lemma table_find: "table_of es k = map_option remembered_of (List.find (\<lambda>e. d_key e = k) es)"
  by (induction es) (auto simp: table_of_def)

lemma table_None: "table_of es k = None \<longleftrightarrow> k \<notin> d_key ` set es"
  by (auto simp: table_of_def map_of_eq_None_iff image_image)

lemma table_append: "d_key x \<notin> d_key ` set es \<Longrightarrow> table_of (es @ [x]) = (table_of es)(d_key x \<mapsto> remembered_of x)"
  by (induction es) (auto simp: table_of_def fun_eq_iff)

lemma table_filter:
  assumes "distinct (map d_key es)"
  shows "table_of (filter P es) k = (case List.find (\<lambda>e. d_key e = k) es of
     None \<Rightarrow> None | Some e \<Rightarrow> if P e then Some (remembered_of e) else None)"
  using assms
proof (induction es)
  case (Cons e es)
  have "table_of (filter P es) (d_key e) = None" using Cons.prems by (force simp: table_None)
  with Cons show ?case by (auto simp: table_of_def)
qed (simp add: table_of_def)

lemma table_update: "(\<And>e. d_key (f e) = d_key e) \<Longrightarrow> List.find (\<lambda>e. d_key e = k) es = Some x \<Longrightarrow>
    table_of (update_first (\<lambda>e. d_key e = k) f es) = (table_of es)(k \<mapsto> remembered_of (f x))"
  by (induction es) (auto simp: table_of_def fun_eq_iff split: if_splits)

lemma table_remove:
  assumes "distinct (map d_key es)" "List.find (\<lambda>e. d_key e = k) es = Some x" "d_claimId x = c"
  shows "table_of (remove_first (\<lambda>e. d_key e = k \<and> d_claimId e = c) es) = (table_of es)(k := None)"
  using assms
proof (induction es)
  case (Cons e es)
  show ?case
  proof (cases "d_key e = k")
    case True
    have "table_of es k = None" using Cons.prems(1) True by (force simp: table_None)
    thus ?thesis using Cons.prems True by (auto simp: table_of_def fun_eq_iff)
  next
    case False
    thus ?thesis using Cons by (auto simp: table_of_def fun_eq_iff)
  qed
qed simp

lemma table_dom: "distinct (map d_key es) \<Longrightarrow> card (dom (table_of es)) = length es"
proof -
  assume d: "distinct (map d_key es)"
  have "dom (table_of es) = set (map d_key es)" by (auto simp: dom_def table_None)
  thus ?thesis using distinct_card [OF d] by simp
qed

lemma table_runtime:
  assumes "distinct (map d_key es)"
  shows "card {k. \<exists>r. table_of es k = Some r \<and> m_runtime r = rt} = length (filter (\<lambda>e. d_runtimeId e = rt) es)"
proof -
  have f: "List.find (\<lambda>x. d_key x = d_key e) es = Some e" if "e \<in> set es" for e
    using assms that
  proof (induction es)
    case (Cons x xs)
    show ?case
    proof (cases "x = e")
      case False
      hence m: "e \<in> set xs" using Cons.prems(2) by simp
      hence "d_key x \<noteq> d_key e" using Cons.prems(1) by force
      thus ?thesis using Cons.IH Cons.prems(1) m by simp
    qed simp
  qed simp
  let ?A = "filter (\<lambda>e. d_runtimeId e = rt) es"
  have "{k. \<exists>r. table_of es k = Some r \<and> m_runtime r = rt} = d_key ` set ?A"
  proof (intro set_eqI iffI)
    fix k assume "k \<in> {k. \<exists>r. table_of es k = Some r \<and> m_runtime r = rt}"
    then obtain e where e: "List.find (\<lambda>e. d_key e = k) es = Some e" "d_runtimeId e = rt"
      by (auto simp: table_find remembered_of_def)
    thus "k \<in> d_key ` set ?A" using find_Some_in [OF e(1)] by auto
  next
    fix k assume "k \<in> d_key ` set ?A"
    then obtain e where "e \<in> set es" "d_runtimeId e = rt" "k = d_key e" by auto
    thus "k \<in> {k. \<exists>r. table_of es k = Some r \<and> m_runtime r = rt}"
      using f [of e] by (simp add: table_find remembered_of_def)
  qed
  moreover have "distinct (map d_key ?A)" using assms by (simp add: distinct_map_filter)
  hence "card (d_key ` set ?A) = length ?A" using distinct_card [of "map d_key ?A"] by simp
  ultimately show ?thesis by simp
qed

lemma live_fresh: "entry_ok e \<Longrightarrow> dedup_live now e \<longleftrightarrow> fresh_at now (remembered_of e)"
  by (cases "d_state e") (auto simp: dedup_live_def fresh_at_def remembered_of_def stateTime_def entry_ok_def)

lemma table_prune:
  assumes "dedup_inv es"
  shows "table_of (pruneDedup es now) = forget_old now (table_of es)"
proof
  fix k
  have "distinct (map d_key es)" using assms by (simp add: dedup_inv_def)
  note f = table_filter [OF this, of "dedup_live now" k]
  show "table_of (pruneDedup es now) k = forget_old now (table_of es) k"
  proof (cases "List.find (\<lambda>e. d_key e = k) es")
    case None
    thus ?thesis using f by (simp add: pruneDedup_def forget_old_def table_find)
  next
    case (Some e)
    hence "entry_ok e" using assms find_Some_in [OF Some] by (simp add: dedup_inv_def)
    thus ?thesis using f Some live_fresh [of e now] by (simp add: pruneDedup_def forget_old_def table_find)
  qed
qed

subsection \<open>Refinement\<close>

lemma claim_refines:
  assumes "dedup_inv es"
  shows "(dedup_answer_of es (DClaim r m c now), table_of (dedup_step es (DClaim r m c now)))
    = spec_step (table_of es) (DClaim r m c now)"
proof -
  let ?k = "dedupKey r m"
  let ?p = "pruneDedup es now"
  let ?e = "\<lparr>d_key = ?k, d_runtimeId = r, d_messageUid = m, d_claimId = c, d_state = Claimed, d_claimedAt = now, d_admittedAt = None\<rparr>"
  have i: "dedup_inv ?p" by (rule prune_inv [OF assms])
  hence d: "distinct (map d_key ?p)" by (simp add: dedup_inv_def)
  have t: "forget_old now (table_of es) = table_of ?p" by (rule table_prune [OF assms, symmetric])
  have v: "DedupEntrySchema ?e \<longleftrightarrow> valid_claim r m c now" by (simp add: DedupEntrySchema_def valid_claim_def)
  have k: "list_ex (\<lambda>x. d_key x = ?k) ?p \<longleftrightarrow> table_of ?p ?k \<noteq> None" by (force simp: table_None list_ex_iff)
  have f: "full_for r (table_of ?p) \<longleftrightarrow>
      length (filter (\<lambda>x. d_runtimeId x = r) ?p) \<ge> MAX_DEDUP_PER_RUNTIME \<or> length ?p \<ge> MAX_DEDUP_ENTRIES"
    by (simp add: full_for_def table_dom [OF d] table_runtime [OF d])
  have a: "table_of (?p @ [?e]) = (table_of ?p)(?k \<mapsto> \<lparr>m_runtime = r, m_claim = c, m_phase = HeldAt now\<rparr>)"
    if "table_of ?p ?k = None"
    using table_append [of ?e ?p] that by (simp add: table_None remembered_of_def)
  show ?thesis
    by (cases "valid_claim r m c now"; cases "table_of ?p ?k = None"; cases "full_for r (table_of ?p)")
       (simp_all add: claimDedup_def Let_def t k v f [symmetric] a)
qed

lemma admit_refines:
  assumes "dedup_inv es"
  shows "(dedup_answer_of es (DAdmit k c now), table_of (dedup_step es (DAdmit k c now)))
    = spec_step (table_of es) (DAdmit k c now)"
proof (cases "List.find (\<lambda>e. d_key e = k) es")
  case None
  thus ?thesis by (simp add: admitDedup_def table_find)
next
  case (Some e)
  let ?f = "\<lambda>e. e\<lparr>d_state := Admitted, d_admittedAt := Some now\<rparr>"
  have "table_of (update_first (\<lambda>e. d_key e = k) ?f es) = (table_of es)(k \<mapsto> remembered_of (?f e))"
    by (rule table_update) (simp_all add: Some)
  moreover have "table_of es k = Some (remembered_of e)" by (simp add: table_find Some)
  ultimately show ?thesis using Some
    by (cases "d_state e") (simp_all add: admitDedup_def remembered_of_def)
qed

lemma release_refines:
  assumes "dedup_inv es"
  shows "(dedup_answer_of es (DRelease k c), table_of (dedup_step es (DRelease k c)))
    = spec_step (table_of es) (DRelease k c)"
proof -
  have d: "distinct (map d_key es)" using assms by (simp add: dedup_inv_def)
  have f: "List.find (\<lambda>e. d_key e = k \<and> d_claimId e = c) es =
      (case List.find (\<lambda>e. d_key e = k) es of None \<Rightarrow> None | Some e \<Rightarrow> if d_claimId e = c then Some e else None)"
    using d
  proof (induction es)
    case (Cons x xs)
    show ?case
    proof (cases "d_key x = k \<and> d_claimId x \<noteq> c")
      case True
      have "d_key x \<notin> d_key ` set xs" using Cons.prems by simp
      hence "\<forall>e \<in> set xs. d_key e \<noteq> k" using True by (metis image_eqI)
      hence "List.find (\<lambda>e. d_key e = k \<and> d_claimId e = c) xs = None" by (auto simp: find_None_iff)
      thus ?thesis using True by auto
    qed (use Cons in auto)
  qed simp
  show ?thesis
  proof (cases "List.find (\<lambda>e. d_key e = k) es")
    case None
    thus ?thesis using f by (simp add: releaseDedup_def table_find)
  next
    case (Some e)
    moreover have "table_of es k = Some (remembered_of e)" by (simp add: table_find Some)
    ultimately show ?thesis using f table_remove [OF d Some, of c]
      by (cases "d_state e"; cases "d_claimId e = c") (simp_all add: releaseDedup_def remembered_of_def)
  qed
qed

lemma dedup_step_refines:
  assumes "dedup_inv es"
  shows "(dedup_answer_of es ev, table_of (dedup_step es ev)) = spec_step (table_of es) ev"
  using claim_refines [OF assms] admit_refines [OF assms] release_refines [OF assms] by (cases ev) blast+

text \<open>The answers to a sequence of requests.\<close>

fun answers_to :: "('s \<Rightarrow> dedup_event \<Rightarrow> dedup_answer \<times> 's) \<Rightarrow> 's \<Rightarrow> dedup_event list \<Rightarrow> dedup_answer list" where
  "answers_to step s [] = []"
| "answers_to step s (ev # evs) = (case step s ev of (a, s') \<Rightarrow> a # answers_to step s' evs)"

text \<open>C15 The deduplication list implements the table of remembered messages: from the start, every sequence of
  claims, admissions and releases, at whatever times, gets the same answers from the bounded list as from
  the table, and the list always stands for the table.\<close>

theorem dedup_implements_message_table:
  "answers_to (\<lambda>es ev. (dedup_answer_of es ev, dedup_step es ev)) [] evs = answers_to spec_step Map.empty evs
   \<and> table_of (run_steps dedup_step [] evs) = run_steps (\<lambda>T ev. snd (spec_step T ev)) Map.empty evs"
proof -
  have "answers_to (\<lambda>es ev. (dedup_answer_of es ev, dedup_step es ev)) es evs = answers_to spec_step (table_of es) evs
   \<and> table_of (run_steps dedup_step es evs) = run_steps (\<lambda>T ev. snd (spec_step T ev)) (table_of es) evs"
    if "dedup_inv es" for es
    using that
  proof (induction evs arbitrary: es)
    case (Cons ev evs)
    have s: "spec_step (table_of es) ev = (dedup_answer_of es ev, table_of (dedup_step es ev))"
      using dedup_step_refines [OF Cons.prems, of ev] by simp
    have "dedup_inv (dedup_step es ev)" using dm.step_inv [OF Cons.prems] .
    thus ?case using Cons.IH by (simp add: s)
  qed simp
  from this [OF dedup_inv_Nil] show ?thesis by (simp add: table_Nil)
qed

end
