(* ===== verification/CardMarkers.thy ===== *)
theory CardMarkers imports Printed "HOL-Library.Sublist" begin

text \<open>
  Cards in the text an agent writes, \<^verbatim>\<open>cardkit/parse-marker.ts\<close>: \<open>[CARD][{...}]\<close> and
  \<open>[COMMANDS][[...]]\<close> are taken out of the text.  The scan for the end of the embedded JSON, the
  loop over the markers and the streaming form that shows a text while it grows are here; what they
  guarantee is in theory MarkerTheorems.
\<close>

definition CARD_MARKER_BYTE_LIMIT :: nat where
  "CARD_MARKER_BYTE_LIMIT = 10 * 1024"

definition MAX_CARD_MARKERS :: nat where
  "MAX_CARD_MARKERS = 16"

definition INVALID_CARD_MARKER_TEXT :: jstr where
  "INVALID_CARD_MARKER_TEXT = js ''[invalid card marker]''"

datatype marker_error = InvalidMarker | IncompleteMarker | MarkerTooLarge | TooManyMarkers

record marker_result =
  m_text :: jstr
  m_cards :: "jobj list"
  m_commands :: "json list list"
  m_errors :: "marker_error list"

subsection \<open>Openers\<close>

datatype marker_tag = CardTag | CommandsTag

fun opener_value :: "marker_tag \<Rightarrow> jstr" where
  "opener_value CardTag = js ''[CARD]['' "
| "opener_value CommandsTag = js ''[COMMANDS]['' "

fun opener_root :: "marker_tag \<Rightarrow> code_unit" where
  "opener_root CardTag = 123"
| "opener_root CommandsTag = 91"

definition openers :: "marker_tag list" where
  "openers = [CardTag, CommandsTag]"

text \<open>\<open>indexOf\<close> of a nonempty text.\<close>

fun find_sub :: "jstr \<Rightarrow> jstr \<Rightarrow> nat option" where
  "find_sub p [] = None"
| "find_sub p (u # r) = (if starts_with p (u # r) then Some 0 else map_option Suc (find_sub p r))"

definition earliestOpener :: "jstr \<Rightarrow> (marker_tag \<times> nat) option" where
  "earliestOpener s = fold (\<lambda>tag selected.
     (case find_sub (opener_value tag) s of
        None \<Rightarrow> selected
      | Some i \<Rightarrow> (case selected of
           None \<Rightarrow> Some (tag, i)
         | Some (tag', j) \<Rightarrow> if i < j then Some (tag, i) else selected))) openers None"

definition ends_with :: "jstr \<Rightarrow> jstr \<Rightarrow> bool" where
  "ends_with p s \<longleftrightarrow> length p \<le> length s \<and> drop (length s - length p) s = p"

definition trailingOpenerPrefix :: "jstr \<Rightarrow> nat" where
  "trailingOpenerPrefix s =
     fold max (concat (map (\<lambda>tag. filter (\<lambda>l. l \<le> length s \<and> ends_with (take l (opener_value tag)) s)
       [1..<length (opener_value tag)]) openers)) 0"

subsection \<open>The end of the embedded JSON\<close>

definition matchingClose :: "code_unit \<Rightarrow> code_unit" where
  "matchingClose u = (if u = 123 then 125 else 93)"

text \<open>The characters a loop over \<open>codePointAt\<close> visits.\<close>

fun chars :: "jstr \<Rightarrow> jstr list" where
  "chars [] = []"
| "chars [u] = [[u]]"
| "chars (u # v # r) = (if is_high u \<and> is_low v then [u, v] # chars r else [u] # chars (v # r))"

record scan_result =
  sc_end :: nat
  sc_complete :: bool
  sc_oversized :: bool

record scan_state =
  ss_stack :: "code_unit list"
  ss_inString :: bool
  ss_escaped :: bool
  ss_bytes :: nat
  ss_oversized :: bool

text \<open>One character: the state after it, or \<open>None\<close> when it ends the scan.\<close>

definition scan_char :: "jstr \<Rightarrow> scan_state \<Rightarrow> scan_state option" where
  "scan_char c s =
     (if ss_inString s then
        (if ss_escaped s then Some (s\<lparr>ss_escaped := False\<rparr>)
         else if c = [92] then Some (s\<lparr>ss_escaped := True\<rparr>)
         else if c = [34] then Some (s\<lparr>ss_inString := False\<rparr>)
         else Some s)
      else if c = [34] then Some (s\<lparr>ss_inString := True\<rparr>)
      else if c = [123] \<or> c = [91] then Some (s\<lparr>ss_stack := matchingClose (hd c) # ss_stack s\<rparr>)
      else if c = [125] \<or> c = [93] then
        (case ss_stack s of
           [] \<Rightarrow> None
         | inner # below \<Rightarrow> if [inner] \<noteq> c then None else if below = [] then None else Some (s\<lparr>ss_stack := below\<rparr>))
      else Some s)"

definition count_char :: "jstr \<Rightarrow> scan_state \<Rightarrow> scan_state" where
  "count_char c s =
     (let bytes = ss_bytes s + byte_length c
      in s\<lparr>ss_bytes := bytes, ss_oversized := ss_oversized s \<or> bytes > CARD_MARKER_BYTE_LIMIT\<rparr>)"

fun scan_chars :: "scan_state \<Rightarrow> nat \<Rightarrow> jstr list \<Rightarrow> scan_result" where
  "scan_chars s i [] = \<lparr>sc_end = i, sc_complete = False, sc_oversized = ss_oversized s\<rparr>"
| "scan_chars s i (c # cs) =
     (let s1 = count_char c s in
      case scan_char c s1 of
        None \<Rightarrow> \<lparr>sc_end = i + length c, sc_complete = True, sc_oversized = ss_oversized s1\<rparr>
      | Some s2 \<Rightarrow> scan_chars s2 (i + length c) cs)"

text \<open>The scan starts at a bracket, which is on the stack already and is counted like any character.\<close>

definition scan_start :: "code_unit \<Rightarrow> scan_state" where
  "scan_start first = count_char [first]
     \<lparr>ss_stack = [matchingClose first], ss_inString = False, ss_escaped = False, ss_bytes = 0, ss_oversized = False\<rparr>"

definition scanJson :: "jstr \<Rightarrow> scan_result" where
  "scanJson s = (case s of
     [] \<Rightarrow> \<lparr>sc_end = 0, sc_complete = False, sc_oversized = False\<rparr>
   | first # r \<Rightarrow>
       if first \<noteq> 123 \<and> first \<noteq> 91 then \<lparr>sc_end = 0, sc_complete = False, sc_oversized = False\<rparr>
       else scan_chars (scan_start first) 1 (chars r))"

subsection \<open>The loop over the markers\<close>

definition emit :: "jstr \<Rightarrow> marker_result \<Rightarrow> marker_result" where
  "emit t r = r\<lparr>m_text := m_text r @ t\<rparr>"

definition bad_marker :: "marker_error \<Rightarrow> marker_result \<Rightarrow> marker_result" where
  "bad_marker e r = r\<lparr>m_text := m_text r @ INVALID_CARD_MARKER_TEXT, m_errors := m_errors r @ [e]\<rparr>"

definition marker_value :: "(jstr \<Rightarrow> jnum) \<Rightarrow> marker_tag \<Rightarrow> jstr \<Rightarrow> bool \<Rightarrow> scan_result \<Rightarrow> json option" where
  "marker_value cv tag body closed scan =
     (if closed \<and> hd body = opener_root tag \<and> \<not> sc_oversized scan
      then (case json_parse cv (take (sc_end scan) body) of
              None \<Rightarrow> None
            | Some v \<Rightarrow> (case (tag, v) of
                 (CardTag, JObj ob) \<Rightarrow> Some v | (CommandsTag, JArr xs) \<Rightarrow> Some v | _ \<Rightarrow> None))
      else None)"

definition take_marker :: "(jstr \<Rightarrow> jnum) \<Rightarrow> nat \<Rightarrow> marker_tag \<Rightarrow> jstr \<Rightarrow> bool \<Rightarrow> scan_result \<Rightarrow> marker_result \<Rightarrow> marker_result" where
  "take_marker cv markerCount tag body closed scan r =
     (if markerCount > MAX_CARD_MARKERS then bad_marker TooManyMarkers r
      else case marker_value cv tag body closed scan of
        None \<Rightarrow> bad_marker (if sc_oversized scan then MarkerTooLarge else InvalidMarker) r
      | Some (JObj ob) \<Rightarrow> r\<lparr>m_cards := m_cards r @ [ob]\<rparr>
      | Some (JArr xs) \<Rightarrow> r\<lparr>m_commands := m_commands r @ [xs]\<rparr>
      | Some _ \<Rightarrow> r)"

lemma find_sub_less: "find_sub p s = Some i \<Longrightarrow> i < length s"
  by (induction s arbitrary: i) (auto split: if_splits)

lemma earliest_found: "earliestOpener s = Some (tag, i) \<Longrightarrow> find_sub (opener_value tag) s = Some i"
  by (auto simp: earliestOpener_def openers_def split: option.splits if_splits)

lemma opener_nonempty [simp]: "opener_value tag \<noteq> []" "0 < length (opener_value tag)"
  by (cases tag; simp)+

text \<open>The state of the loop is the rest of the text from \<open>cursor\<close> on.\<close>

function parse_markers :: "(jstr \<Rightarrow> jnum) \<Rightarrow> bool \<Rightarrow> nat \<Rightarrow> jstr \<Rightarrow> marker_result \<Rightarrow> marker_result" where
  "parse_markers cv final markerCount rest r =
     (if rest = [] then r
      else case earliestOpener rest of
        None \<Rightarrow>
          (let incomplete = trailingOpenerPrefix rest in
           if incomplete = 0 then emit rest r
           else let r1 = emit (take (length rest - incomplete) rest) r
                in if final then bad_marker IncompleteMarker r1 else r1)
      | Some (tag, i) \<Rightarrow>
          (let r1 = emit (take i rest) r; body = drop (i + length (opener_value tag)) rest in
           if body = [] then (if final then bad_marker IncompleteMarker r1 else r1)
           else let scan = scanJson body in
             if \<not> sc_complete scan
             then (if final then bad_marker (if sc_oversized scan then MarkerTooLarge else IncompleteMarker) r1 else r1)
             else if \<not> final \<and> sc_end scan = length body then r1
             else let closed = (sc_end scan < length body \<and> body ! sc_end scan = 93);
                      next_rest = (if closed then drop (Suc (sc_end scan)) body else [])
                  in parse_markers cv final (Suc markerCount) next_rest
                       (take_marker cv (Suc markerCount) tag body closed scan r1)))"
  by pat_completeness auto
termination
  by (relation "measure (\<lambda>(cv, final, n, rest, r). length rest)")
    (auto dest!: earliest_found find_sub_less)

declare parse_markers.simps [simp del]

definition no_markers :: marker_result where
  "no_markers = \<lparr>m_text = [], m_cards = [], m_commands = [], m_errors = []\<rparr>"

definition parse_text :: "(jstr \<Rightarrow> jnum) \<Rightarrow> jstr \<Rightarrow> bool \<Rightarrow> marker_result" where
  "parse_text cv s final = parse_markers cv final 0 s no_markers"

definition parseCardMarkers :: "(jstr \<Rightarrow> jnum) \<Rightarrow> jstr \<Rightarrow> marker_result" where
  "parseCardMarkers cv s = parse_text cv s True"

definition stripMarkers :: "(jstr \<Rightarrow> jnum) \<Rightarrow> jstr \<Rightarrow> jstr" where
  "stripMarkers cv s = m_text (parseCardMarkers cv s)"

definition streamSafeContent :: "(jstr \<Rightarrow> jnum) \<Rightarrow> jstr \<Rightarrow> jstr" where
  "streamSafeContent cv s = m_text (parse_text cv s False)"

text \<open>The stream keeps the text pushed so far.\<close>

definition marker_push :: "(jstr \<Rightarrow> jnum) \<Rightarrow> jstr \<Rightarrow> jstr \<Rightarrow> marker_result \<times> jstr" where
  "marker_push cv buffer chunk = (parse_text cv (buffer @ chunk) False, buffer @ chunk)"

definition marker_finish :: "(jstr \<Rightarrow> jnum) \<Rightarrow> jstr \<Rightarrow> marker_result" where
  "marker_finish cv buffer = parse_text cv buffer True"

end
