(* ===== verification/MarkerTheorems.thy ===== *)
theory MarkerTheorems imports CardMarkers begin

text \<open>
  What the card markers guarantee: the text shown while an answer grows is never taken back, and
  cards and commands embedded in a text are read back.
\<close>

subsection \<open>Characters\<close>

lemma concat_chars [simp]: "concat (chars s) = s"
  by (induction s rule: chars.induct) auto

lemma chars_nonempty: "c \<in> set (chars s) \<Longrightarrow> c \<noteq> []"
  by (induction s rule: chars.induct) (auto split: if_splits)

lemma chars_append_split:
  "\<exists>cs d e. chars s = cs @ d \<and> chars (s @ t) = cs @ e \<and> length (concat d) \<le> 1"
proof (induction s rule: chars.induct)
  case (2 u)
  show ?case by (rule exI [of _ "[]"]) auto
next
  case (3 u v r)
  show ?case
  proof (cases "is_high u \<and> is_low v")
    case True
    from "3.IH"(1) [OF True] obtain cs d e where "chars r = cs @ d" "chars (r @ t) = cs @ e" "length (concat d) \<le> 1"
      by blast
    with True show ?thesis by (intro exI [of _ "[u, v] # cs"] exI [of _ d] exI [of _ e]) simp
  next
    case False
    from "3.IH"(2) [OF False] obtain cs d e where
      "chars (v # r) = cs @ d" "chars (v # r @ t) = cs @ e" "length (concat d) \<le> 1"
      by auto
    with False show ?thesis by (intro exI [of _ "[u] # cs"] exI [of _ d] exI [of _ e]) auto
  qed
qed simp

lemma chars_append:
  "well_formed a \<Longrightarrow> chars (a @ b) = chars a @ chars b"
proof (induction a rule: chars.induct)
  case (2 u)
  hence "\<not> is_high u" using high_surrogate by (auto simp: well_formed_def)
  thus ?case by (cases b) simp_all
next
  case (3 u v r)
  thus ?case by (auto simp: well_formed_def)
qed simp

subsection \<open>The scan\<close>

lemma scan_end_bounds:
  "i \<le> sc_end (scan_chars s i cs)" "sc_end (scan_chars s i cs) \<le> i + length (concat cs)"
proof (induction cs arbitrary: s i)
  case (Cons c cs)
  {
    case 1
    have "i \<le> sc_end (scan_chars s' (i + length c) cs)" for s' using Cons.IH(1) [of "i + length c" s'] by linarith
    thus ?case by (simp add: Let_def split: option.split)
  next
    case 2
    show ?case using Cons.IH(2) [of _ "i + length c"] by (auto simp: Let_def split: option.split simp flip: add.assoc)
  }
qed simp_all

lemma scan_complete_less:
  "sc_complete (scan_chars s i cs) \<Longrightarrow> \<forall>c\<in>set cs. c \<noteq> [] \<Longrightarrow> i < sc_end (scan_chars s i cs)"
proof (induction cs arbitrary: s i)
  case (Cons c cs)
  thus ?case using scan_end_bounds(1) by (fastforce simp: Let_def split: option.splits)
qed simp

text \<open>A scan that ends within a text does not depend on what follows.\<close>

lemma scan_chars_prefix:
  assumes "sc_complete (scan_chars s i (cs @ d))" "sc_end (scan_chars s i (cs @ d)) \<le> i + length (concat cs)"
    "\<forall>c\<in>set d. c \<noteq> []"
  shows "scan_chars s i (cs @ e) = scan_chars s i (cs @ d)"
  using assms
proof (induction cs arbitrary: s i)
  case Nil
  thus ?case using scan_complete_less [of s i d] by simp
next
  case (Cons c cs)
  thus ?case by (auto simp: Let_def split: option.splits)
qed

lemma scanJson_end: "sc_end (scanJson s) \<le> length s"
proof (cases s)
  case (Cons u r)
  thus ?thesis using scan_end_bounds(2) [of "scan_start u" 1 "chars r"] by (auto simp: scanJson_def)
qed (simp add: scanJson_def)

lemma scanJson_append:
  assumes "sc_complete (scanJson s)" "sc_end (scanJson s) < length s"
  shows "scanJson (s @ t) = scanJson s"
proof (cases s)
  case Nil
  thus ?thesis using assms by simp
next
  case (Cons u r)
  obtain cs d e where c: "chars r = cs @ d" "chars (r @ t) = cs @ e" "length (concat d) \<le> 1"
    using chars_append_split by blast
  have "length r = length (concat cs) + length (concat d)" using c(1) by (metis concat_append concat_chars length_append)
  moreover have "\<forall>x\<in>set d. x \<noteq> []" using chars_nonempty [of _ r] c(1) by auto
  ultimately show ?thesis using assms Cons c scan_chars_prefix [of "scan_start u" 1 cs d e]
    by (cases "u = 123 \<or> u = 91") (auto simp: scanJson_def)
qed

subsection \<open>Openers\<close>

text \<open>The earliest opener, read from left to right.\<close>

fun first_opener :: "jstr \<Rightarrow> (marker_tag \<times> nat) option" where
  "first_opener [] = None"
| "first_opener (u # r) =
     (if starts_with (opener_value CardTag) (u # r) then Some (CardTag, 0)
      else if starts_with (opener_value CommandsTag) (u # r) then Some (CommandsTag, 0)
      else map_option (\<lambda>(tag, i). (tag, Suc i)) (first_opener r))"

lemma openers_differ: "\<not> (starts_with (opener_value CardTag) s \<and> starts_with (opener_value CommandsTag) s)"
proof
  assume a: "starts_with (opener_value CardTag) s \<and> starts_with (opener_value CommandsTag) s"
  hence "opener_value CardTag = take 7 s" "opener_value CommandsTag = take 11 s"
    by (simp_all add: starts_with_def eval_nat_numeral)
  hence "take 7 (opener_value CommandsTag) = opener_value CardTag" by simp
  thus False by (simp add: js_def)
qed

lemma earliest_first: "earliestOpener s = first_opener s"
proof (induction s)
  case Nil
  thus ?case by (simp add: earliestOpener_def openers_def)
next
  case (Cons u r)
  note ih = Cons.IH [symmetric]
  show ?case using openers_differ [of "u # r"]
    by (auto simp: ih earliestOpener_def openers_def split: option.splits if_splits simp del: opener_value.simps)
qed

lemma opener_shape: "\<exists>w. opener_value tag = 91 # w @ [91] \<and> 91 \<notin> set w"
proof (cases tag)
  case CardTag
  thus ?thesis by (intro exI [of _ "js ''CARD]''"]) (simp add: js_def cu_def)
next
  case CommandsTag
  thus ?thesis by (intro exI [of _ "js ''COMMANDS]''"]) (simp add: js_def cu_def)
qed

lemma starts_with_append: "starts_with p s \<Longrightarrow> starts_with p (s @ t)"
proof -
  assume a: "starts_with p s"
  hence "length p \<le> length s" by (metis starts_with_def length_take min.absorb_iff2 min.cobounded1)
  with a show ?thesis by (simp add: starts_with_def)
qed

text \<open>An opener that is completed by what follows: the text so far is a proper beginning of it.\<close>

lemma starts_with_new:
  assumes "starts_with p (s @ t)" "\<not> starts_with p s"
  shows "length s < length p \<and> s = take (length s) p"
proof -
  have t: "take (length p) (s @ t) = p" using assms(1) by (simp add: starts_with_def)
  have l: "length s < length p"
  proof (rule ccontr)
    assume "\<not> length s < length p"
    with t assms(2) show False by (simp add: starts_with_def)
  qed
  have "take (length s) (take (length p) (s @ t)) = s" using l by (simp add: min_absorb1 del: take_append)
      (simp add: take_append)
  with t have "take (length s) p = s" by simp
  thus ?thesis using l by simp
qed

lemma new_opener_bracket:
  assumes "starts_with (opener_value tag) ((u # r) @ t)" "\<not> starts_with (opener_value tag) (u # r)"
  shows "91 \<notin> set r"
proof -
  obtain w where w: "opener_value tag = 91 # w @ [91]" "91 \<notin> set w" using opener_shape by blast
  have "length r \<le> length w \<and> r = take (length r) (w @ [91])"
    using starts_with_new [OF assms] w by auto
  hence "r = take (length r) w" by (metis append_Nil2 diff_is_0_eq take_0 take_append)
  thus ?thesis using w(2) by (metis in_set_takeD)
qed

lemma first_opener_bracket: "first_opener s = Some x \<Longrightarrow> 91 \<in> set s"
proof (induction s arbitrary: x)
  case (Cons u r)
  have "starts_with (opener_value tag) (u # r) \<Longrightarrow> u = 91" for tag
  proof -
    assume a: "starts_with (opener_value tag) (u # r)"
    obtain w where "opener_value tag = 91 # w @ [91]" using opener_shape by blast
    with a show "u = 91" by (simp add: starts_with_def)
  qed
  with Cons show ?case by (auto split: if_splits simp del: opener_value.simps)
qed simp

lemma first_opener_append: "first_opener s = Some (tag, i) \<Longrightarrow> first_opener (s @ t) = Some (tag, i)"
proof (induction s arbitrary: tag i)
  case (Cons u r)
  consider (card) "starts_with (opener_value CardTag) (u # r)" "tag = CardTag" "i = 0"
    | (commands) "\<not> starts_with (opener_value CardTag) (u # r)" "starts_with (opener_value CommandsTag) (u # r)"
        "tag = CommandsTag" "i = 0"
    | (later) j where "\<not> starts_with (opener_value CardTag) (u # r)"
        "\<not> starts_with (opener_value CommandsTag) (u # r)" "first_opener r = Some (tag, j)" "i = Suc j"
    using Cons.prems by (auto split: if_splits simp del: opener_value.simps)
  thus ?case
  proof cases
    case card
    thus ?thesis using starts_with_append [OF card(1), of t] by simp
  next
    case commands
    have "starts_with (opener_value CommandsTag) (u # r @ t)" using starts_with_append [OF commands(2), of t] by simp
    moreover from this have "\<not> starts_with (opener_value CardTag) (u # r @ t)" using openers_differ by blast
    ultimately show ?thesis using commands by simp
  next
    case later
    have "91 \<in> set r" by (rule first_opener_bracket) (rule later(3))
    hence "\<not> starts_with (opener_value x) (u # r @ t)" for x
      using new_opener_bracket [of x u r t] later(1,2) by (cases x) auto
    with later Cons.IH [OF later(3)] show ?thesis by (simp del: opener_value.simps)
  qed
qed simp

lemma first_opener_at: "first_opener s = Some (tag, i) \<Longrightarrow> i + length (opener_value tag) \<le> length s
    \<and> starts_with (opener_value tag) (drop i s)"
proof (induction s arbitrary: i)
  case (Cons u r)
  have "starts_with p (u # r) \<Longrightarrow> length p \<le> Suc (length r)" for p
    by (metis length_Cons length_take min.cobounded1 starts_with_def)
  with Cons show ?case by (auto split: if_splits simp del: opener_value.simps)
qed simp


lemma find_sub_absent: "91 \<notin> set s \<Longrightarrow> first_opener s = None"
  using first_opener_bracket by (metis option.exhaust)

subsection \<open>A text that may end in an opener\<close>

lemma fold_max_ge: "(x::nat) \<in> insert a (set xs) \<Longrightarrow> x \<le> fold max xs a"
proof (induction xs arbitrary: a x)
  case (Cons y xs)
  have "max y a \<le> fold max xs (max y a)" by (rule Cons.IH) simp
  moreover have "x \<in> set xs \<Longrightarrow> x \<le> fold max xs (max y a)" by (rule Cons.IH) simp
  ultimately show ?case using Cons.prems by auto
qed simp

lemma fold_max_in: "fold max xs (a::nat) \<in> insert a (set xs)"
proof (induction xs arbitrary: a)
  case (Cons y xs)
  have "max y a \<in> {y, a}" by (simp add: max_def)
  with Cons.IH [of "max y a"] show ?case by auto
qed simp

lemma trailing_ge:
  assumes "s \<noteq> []" "length s \<le> length t" "ends_with s t" "length s < length (opener_value tag)"
    "s = take (length s) (opener_value tag)"
  shows "length s \<le> trailingOpenerPrefix t"
proof -
  have "1 \<le> length s" using assms(1) by (cases s) simp_all
  hence "length s \<in> set (filter (\<lambda>l. l \<le> length t \<and> ends_with (take l (opener_value tag)) t)
       [1..<length (opener_value tag)])" using assms(2-5) by simp
  hence "length s \<in> set (concat (map (\<lambda>tag. filter (\<lambda>l. l \<le> length t \<and> ends_with (take l (opener_value tag)) t)
       [1..<length (opener_value tag)]) openers))"
    by (cases tag) (simp_all add: openers_def)
  thus ?thesis unfolding trailingOpenerPrefix_def by (intro fold_max_ge) simp
qed

lemma trailing_attained:
  assumes "trailingOpenerPrefix t \<noteq> 0"
  shows "\<exists>tag. trailingOpenerPrefix t < length (opener_value tag) \<and> trailingOpenerPrefix t \<le> length t
    \<and> ends_with (take (trailingOpenerPrefix t) (opener_value tag)) t"
proof -
  have "trailingOpenerPrefix t \<in> insert 0 (set (concat (map (\<lambda>tag. filter (\<lambda>l. l \<le> length t
     \<and> ends_with (take l (opener_value tag)) t) [1..<length (opener_value tag)]) openers)))"
    unfolding trailingOpenerPrefix_def by (rule fold_max_in)
  with assms show ?thesis by auto
qed

lemma trailing_le: "trailingOpenerPrefix s \<le> length s"
  using trailing_attained [of s] by (cases "trailingOpenerPrefix s = 0") auto

lemma ends_with_drop: "ends_with (drop i s) s"
  by (cases "i \<le> length s") (auto simp: ends_with_def)

text \<open>An opener that begins in \<open>s\<close> and is completed later begins within the withheld part of \<open>s\<close>.\<close>

lemma new_opener_withheld:
  assumes "first_opener s = None" "first_opener (s @ t) = Some (tag, i)"
  shows "length s - trailingOpenerPrefix s \<le> i"
proof (cases "i < length s")
  case True
  have new: "starts_with (opener_value tag) (drop i s @ t)"
    using first_opener_at [OF assms(2)] True by simp
  have old: "\<not> starts_with (opener_value tag) (drop i s)"
    using assms(1) True
  proof (induction s arbitrary: i)
    case (Cons u r)
    show ?case
    proof (cases i)
      case 0
      thus ?thesis using Cons.prems(1) by (cases tag) (auto split: if_splits simp del: opener_value.simps)
    next
      case (Suc j)
      thus ?thesis using Cons by (auto split: if_splits simp del: opener_value.simps)
    qed
  qed simp
  from starts_with_new [OF new old] True have "length (drop i s) \<le> trailingOpenerPrefix s"
    by (intro trailing_ge [OF _ _ ends_with_drop, of i s tag]) auto
  thus ?thesis using True by simp
qed simp

lemma withheld_grows:
  "length s - trailingOpenerPrefix s \<le> length (s @ t) - trailingOpenerPrefix (s @ t)"
proof (cases "trailingOpenerPrefix (s @ t) \<le> length t")
  case False
  let ?p = "trailingOpenerPrefix (s @ t)"
  obtain tag where tag: "?p < length (opener_value tag)" "?p \<le> length (s @ t)"
      "ends_with (take ?p (opener_value tag)) (s @ t)"
    using trailing_attained [of "s @ t"] False by auto
  let ?d = "drop (length (s @ t) - ?p) s"
  have l: "length ?d = ?p - length t" "?d \<noteq> []" using tag(2) False by auto
  have "drop (length (s @ t) - ?p) (s @ t) = take ?p (opener_value tag)"
    using tag by (simp add: ends_with_def)
  moreover have "drop (length (s @ t) - ?p) (s @ t) = ?d @ t" using False tag(2) by simp
  ultimately have "?d @ t = take ?p (opener_value tag)" by simp
  hence "?d = take (length ?d) (take ?p (opener_value tag))" by (metis append_eq_conv_conj)
  hence "?d = take (length ?d) (opener_value tag)" using l(1) by (simp add: min_absorb1)
  with l tag have "length ?d \<le> trailingOpenerPrefix s"
    by (intro trailing_ge [OF _ _ ends_with_drop, of "length (s @ t) - ?p" s tag]) auto
  thus ?thesis using l tag(2) False by simp
qed simp


subsection \<open>A growing text\<close>

definition extends :: "marker_result \<Rightarrow> marker_result \<Rightarrow> bool" where
  "extends r r' \<longleftrightarrow> prefix (m_text r) (m_text r') \<and> prefix (m_cards r) (m_cards r')
     \<and> prefix (m_commands r) (m_commands r') \<and> prefix (m_errors r) (m_errors r')"

lemma extends_refl [simp, intro]: "extends r r"
  by (simp add: extends_def)

lemma extends_trans: "extends r s \<Longrightarrow> extends s t \<Longrightarrow> extends r t"
  by (auto simp: extends_def intro: prefix_order.trans)

lemma extends_steps [simp]: "extends r (emit t r)" "extends r (bad_marker e r)"
  "extends r (take_marker cv n tag body closed scan r)"
  by (simp_all add: extends_def emit_def bad_marker_def take_marker_def split: option.split json.split)

lemma extends_bad: "extends r s \<Longrightarrow> extends r (bad_marker e s)"
  using extends_steps(2) extends_trans by blast

lemma extends_emitted [simp]: "extends r (bad_marker e (emit t r))"
  by (intro extends_bad) simp

text \<open>One marker whose JSON has ended.\<close>

lemma parse_step:
  assumes "rest \<noteq> []" "earliestOpener rest = Some (tag, i)" "drop (i + length (opener_value tag)) rest = body"
    "body \<noteq> []" "scanJson body = scan" "sc_complete scan" "final \<or> sc_end scan \<noteq> length body"
    "(sc_end scan < length body \<and> body ! sc_end scan = 93) = closed"
  shows "parse_markers cv final n rest r = parse_markers cv final (Suc n)
     (if closed then drop (Suc (sc_end scan)) body else [])
     (take_marker cv (Suc n) tag body closed scan (emit (take i rest) r))"
proof -
  have "\<not> (\<not> final \<and> sc_end scan = length body)" using assms(7) by blast
  thus ?thesis
    by (subst parse_markers.simps) (simp only: Let_def assms(1,2,3,4,5,6,8) if_False not_True_eq_False option.case prod.case)
qed

lemma extends_parse: "extends r (parse_markers cv final n rest r)"
proof (induction cv final n rest r rule: parse_markers.induct)
  case (1 cv final n rest r)
  show ?case
  proof (cases "rest = [] \<or> earliestOpener rest = None")
    case True
    thus ?thesis by (auto simp: parse_markers.simps [of cv final n rest] Let_def intro: extends_bad)
  next
    case False
    then obtain tag i where e: "rest \<noteq> []" "earliestOpener rest = Some (tag, i)" by auto
    define body where b: "body = drop (i + length (opener_value tag)) rest"
    define scan where s: "scan = scanJson body"
    let ?r1 = "emit (take i rest) r"
    show ?thesis
    proof (cases "body = [] \<or> \<not> sc_complete scan \<or> (\<not> final \<and> sc_end scan = length body)")
      case True
      thus ?thesis using e b s by (auto simp: parse_markers.simps [of cv final n rest] Let_def intro: extends_bad simp del: drop_eq_Nil)
    next
      case False
      define closed where c: "closed = (sc_end scan < length body \<and> body ! sc_end scan = 93)"
      let ?next = "if closed then drop (Suc (sc_end scan)) body else []"
      let ?r2 = "take_marker cv (Suc n) tag body closed scan ?r1"
      have "body \<noteq> []" "\<not> \<not> sc_complete scan" "\<not> (\<not> final \<and> sc_end scan = length body)" using False by blast+
      note f = this
      have "extends ?r2 (parse_markers cv final (Suc n) ?next ?r2)"
        by (rule "1" [OF e refl refl b f(1) s f(2,3) c refl])
      moreover have "parse_markers cv final n rest r = parse_markers cv final (Suc n) ?next ?r2"
        by (rule parse_step [OF e b [symmetric] f(1) s [symmetric] _ _ c [symmetric]]) (use f in blast)+
      ultimately have "extends ?r2 (parse_markers cv final n rest r)" by (simp only:)
      with extends_steps(3) have "extends ?r1 (parse_markers cv final n rest r)" by (rule extends_trans)
      with extends_steps(1) show ?thesis by (rule extends_trans)
    qed
  qed
qed

text \<open>What the growing text shows before its first opener is the part before its withheld end.\<close>

lemma extends_emit: "prefix t t' \<Longrightarrow> extends (emit t r) (emit t' r)"
  by (simp add: extends_def emit_def)

lemma parse_markers_shown:
  assumes "\<And>tag i. earliestOpener rest = Some (tag, i) \<Longrightarrow> k \<le> i"
    "earliestOpener rest = None \<Longrightarrow> k \<le> length rest - trailingOpenerPrefix rest" "rest \<noteq> []"
  shows "extends (emit (take k rest) r) (parse_markers cv final n rest r)"
proof (cases "earliestOpener rest")
  case None
  have p: "prefix (take k rest) (take (length rest - trailingOpenerPrefix rest) rest)"
    using assms(2) [OF None] by (metis min.absorb1 take_is_prefix take_take)
  show ?thesis
  proof (cases "trailingOpenerPrefix rest = 0")
    case True
    thus ?thesis using None assms(3) by (simp add: parse_markers.simps [of cv final n rest] extends_emit take_is_prefix)
  next
    case False
    thus ?thesis using None assms(3) extends_emit [OF p, of r]
      by (auto simp: parse_markers.simps [of cv final n rest] Let_def intro: extends_bad)
  qed
next
  case (Some x)
  obtain tag i where x: "earliestOpener rest = Some (tag, i)" using Some by (cases x) auto
  let ?r1 = "emit (take i rest) r"
  have "prefix (take k rest) (take i rest)"
    using assms(1) [OF x] by (metis min.absorb1 take_is_prefix take_take)
  hence k: "extends (emit (take k rest) r) ?r1" by (rule extends_emit)
  have "extends ?r1 (parse_markers cv final n rest r)"
    using x assms(3) by (auto simp: parse_markers.simps [of cv final n rest] Let_def
        intro: extends_trans [OF extends_steps(3) extends_parse])
  with k show ?thesis by (rule extends_trans)
qed

lemma parse_markers_grows:
  assumes "rest' = rest @ later"
  shows "extends (parse_markers cv False n rest r) (parse_markers cv final n rest' r)"
  using assms
proof (induction cv "False" n rest r arbitrary: rest' rule: parse_markers.induct)
  case (1 cv n rest r)
  show ?case
  proof (cases "rest = []")
    case True
    thus ?thesis by (simp add: parse_markers.simps [of cv False n "[]"] extends_parse)
  next
    case ne: False
    show ?thesis
    proof (cases "earliestOpener rest")
      case None
      let ?k = "length rest - trailingOpenerPrefix rest"
      have "parse_markers cv False n rest r = emit (take ?k rest) r"
        using ne None by (simp add: parse_markers.simps [of cv False n rest] Let_def)
      moreover have "take ?k rest = take ?k rest'" by (simp add: "1.prems")
      moreover have "extends (emit (take ?k rest') r) (parse_markers cv final n rest' r)"
      proof (rule parse_markers_shown)
        show "?k \<le> i" if "earliestOpener rest' = Some (tag, i)" for tag i
          using that None new_opener_withheld [of rest later tag i] by (simp add: earliest_first "1.prems")
        show "?k \<le> length rest' - trailingOpenerPrefix rest'" unfolding "1.prems" by (rule withheld_grows)
        show "rest' \<noteq> []" using ne "1.prems" by simp
      qed
      ultimately show ?thesis by simp
    next
      case (Some x)
      obtain tag i where e: "earliestOpener rest = Some (tag, i)" using Some by (cases x) auto
      hence e': "earliestOpener rest' = Some (tag, i)" "rest' \<noteq> []"
        using first_opener_append [of rest tag i later] ne by (simp_all add: earliest_first "1.prems")
      have i: "i + length (opener_value tag) \<le> length rest" using first_opener_at [of rest tag i] e
        by (simp add: earliest_first)
      let ?r1 = "emit (take i rest) r"
      define body where b0: "body = drop (i + length (opener_value tag)) rest"
      note b = b0 [symmetric]
      have t: "take i rest' = take i rest" "drop (i + length (opener_value tag)) rest' = body @ later"
        using i "1.prems" by (simp_all flip: b)
      let ?scan = "scanJson body"
      show ?thesis
      proof (cases "body = [] \<or> \<not> sc_complete ?scan \<or> sc_end ?scan = length body")
        case True
        hence "parse_markers cv False n rest r = ?r1"
          using ne e b by (auto simp: parse_markers.simps [of cv False n rest] Let_def simp del: drop_eq_Nil)
        moreover have "extends (emit (take i rest') r) (parse_markers cv final n rest' r)"
          using e' by (intro parse_markers_shown) auto
        ultimately show ?thesis using t(1) by simp
      next
        case False
        have l: "sc_end ?scan < length body" using False scanJson_end [of body] by simp
        have s: "scanJson (body @ later) = ?scan" using False l by (intro scanJson_append) simp_all
        let ?closed = "body ! sc_end ?scan = 93"
        let ?next = "if ?closed then drop (Suc (sc_end ?scan)) body else []"
        let ?next' = "if ?closed then drop (Suc (sc_end ?scan)) body @ later else []"
        let ?r2 = "take_marker cv (Suc n) tag body ?closed ?scan ?r1"
        have m: "take_marker cv (Suc n) tag (body @ later) ?closed ?scan ?r1 = ?r2"
          using False l by (simp add: take_marker_def marker_value_def)
        have p: "parse_markers cv False n rest r = parse_markers cv False (Suc n) ?next ?r2"
          by (rule parse_step [OF ne e b]) (use False l in auto)
        have c: "(sc_end ?scan < length (body @ later) \<and> (body @ later) ! sc_end ?scan = 93) = ?closed"
          using l less_le_trans [OF l, of "length (body @ later)"] by (simp only: nth_append length_append le_add1 if_True simp_thms)
        have d: "(if ?closed then drop (Suc (sc_end ?scan)) (body @ later) else []) = ?next'" using l by simp
        have "parse_markers cv final n rest' r = parse_markers cv final (Suc n) ?next' ?r2"
          using parse_step [OF e'(2,1) t(2) _ s _ _ c, of final cv n r] False l by (simp only: t(1) d m) simp
        moreover have "extends (parse_markers cv False (Suc n) ?next ?r2) (parse_markers cv final (Suc n) ?next' ?r2)"
        proof (cases ?closed)
          case True
          have "extends (parse_markers cv False (Suc n) ?next ?r2) (parse_markers cv final (Suc n) (?next @ later) ?r2)"
            using ne e False l by (intro "1.hyps" [OF ne e refl refl b0]) simp_all
          thus ?thesis using True by simp
        next
          case False
          thus ?thesis by (simp add: parse_markers.simps [of cv _ "Suc n" "[]"])
        qed
        ultimately show ?thesis using p by simp
      qed
    qed
  qed
qed

text \<open>C19 A stream never takes back what it has shown: whatever more the agent writes, the visible text,
  the cards, the commands and the errors of the text so far are a beginning of those of the longer
  text, both while it still grows and when it is finished.\<close>

theorem shown_text_is_never_retracted:
  "prefix (streamSafeContent cv s) (streamSafeContent cv (s @ later))
   \<and> prefix (streamSafeContent cv s) (stripMarkers cv (s @ later))
   \<and> extends (fst (marker_push cv buffer chunk)) (fst (marker_push cv (snd (marker_push cv buffer chunk)) chunk'))
   \<and> extends (fst (marker_push cv buffer chunk)) (marker_finish cv (snd (marker_push cv buffer chunk)))"
  using parse_markers_grows [OF refl] parse_markers_grows [of "buffer @ chunk" "buffer @ chunk" "[]"]
  by (simp add: streamSafeContent_def stripMarkers_def parseCardMarkers_def parse_text_def marker_push_def
      marker_finish_def extends_def flip: append_assoc)


subsection \<open>Scanning printed JSON\<close>

definition advanced :: "jstr \<Rightarrow> scan_state \<Rightarrow> scan_state" where
  "advanced t s = s\<lparr>ss_bytes := ss_bytes s + byte_length t,
     ss_oversized := ss_bytes s + byte_length t > CARD_MARKER_BYTE_LIMIT\<rparr>"

definition steady :: "scan_state \<Rightarrow> bool" where
  "steady s \<longleftrightarrow> \<not> ss_escaped s \<and> ss_oversized s = (ss_bytes s > CARD_MARKER_BYTE_LIMIT)"

text \<open>A text the scan passes over without leaving its state, inside (\<open>q\<close>) or outside a string.\<close>

definition passes :: "bool \<Rightarrow> jstr \<Rightarrow> bool" where
  "passes q t \<longleftrightarrow> well_formed t \<and> (\<forall>s i cs. steady s \<and> ss_inString s = q \<and> ss_stack s \<noteq> [] \<longrightarrow>
     scan_chars s i (chars t @ cs) = scan_chars (advanced t s) (i + length t) cs)"

lemma steady_advanced [simp]: "steady s \<Longrightarrow> steady (advanced t s)"
  by (simp add: steady_def advanced_def)

lemma byte_length_Nil [simp]: "byte_length [] = 0"
  by (simp add: byte_length_def utf8_encode_def)

lemma advanced_fields [simp]: "ss_stack (advanced t s) = ss_stack s" "ss_inString (advanced t s) = ss_inString s"
  "ss_escaped (advanced t s) = ss_escaped s" "ss_bytes (advanced t s) = ss_bytes s + byte_length t"
  by (simp_all add: advanced_def)

lemma advanced_Nil [simp]: "steady s \<Longrightarrow> advanced [] s = s"
  by (cases s) (auto simp: advanced_def steady_def)

lemma passes_Nil: "passes q []"
  by (simp add: passes_def)

lemma passes_append: "passes q a \<Longrightarrow> passes q b \<Longrightarrow> passes q (a @ b)"
  by (auto simp: passes_def well_formed_append chars_append byte_length_append advanced_def steady_def add.assoc)

lemma count_steady: "steady s \<Longrightarrow> count_char c s = advanced c s"
  by (cases s) (auto simp: count_char_def advanced_def steady_def Let_def)

lemma scan_one:
  "steady s \<Longrightarrow> scan_char c (advanced c s) = Some s2 \<Longrightarrow> scan_chars s i (c # cs) = scan_chars s2 (i + length c) cs"
  by (simp add: count_steady)

lemma chars_single: "\<not> is_high u \<Longrightarrow> chars [u] = [[u]]"
  by simp

lemma passes_unit:
  assumes "well_formed [u]" "if q then u \<noteq> 34 \<and> u \<noteq> 92 else u \<notin> {34, 123, 91, 125, 93}"
  shows "passes q [u]"
  using assms by (auto simp: passes_def scan_char_def count_steady steady_def Let_def split: if_splits)

lemma passes_units:
  "\<forall>u\<in>set t. well_formed [u] \<and> (if q then u \<noteq> 34 \<and> u \<noteq> 92 else u \<notin> {34, 123, 91, 125, 93}) \<Longrightarrow> passes q t"
proof (induction t)
  case (Cons u t)
  have "passes q [u]" using Cons.prems by (intro passes_unit) auto
  moreover have "passes q t" by (rule Cons.IH) (use Cons.prems in \<open>meson list.set_intros(2)\<close>)
  ultimately show ?case using passes_append [of q "[u]" t] by simp
qed (rule passes_Nil)

lemma advanced_twice: "advanced b (advanced a s) = advanced (a @ b) s" if "well_formed a"
  using that by (simp add: advanced_def byte_length_append add.assoc)

lemma passes_escape:
  assumes "unat x < 128"
  shows "passes True [92, x]"
proof -
  have w: "well_formed [92 :: code_unit]" "well_formed [x]" "well_formed [92, x]"
    using well_formed_unit [of 92] well_formed_unit [OF assms] well_formed_append [of "[92]" "[x]"] by auto
  have h: "\<not> is_high (92 :: code_unit)" by (simp add: is_high_def)
  have "scan_chars s i (chars [92, x] @ cs) = scan_chars (advanced [92, x] s) (i + 2) cs"
    if "steady s" "ss_inString s" for s i cs
  proof -
    let ?s1 = "advanced [92] s\<lparr>ss_escaped := True\<rparr>"
    have "scan_chars s i ([92] # [x] # cs) = scan_chars ?s1 (i + 1) ([x] # cs)"
      using that by (subst scan_one [where ?s2.0 = ?s1]) (auto simp: scan_char_def steady_def)
    also have "\<dots> = scan_chars (advanced [92, x] s) (i + 1 + 1) cs"
    proof -
      have "count_char [x] ?s1 = advanced [x] (advanced [92] s)\<lparr>ss_escaped := True\<rparr>"
        using that by (cases s) (auto simp: count_char_def advanced_def steady_def Let_def)
      thus ?thesis using that w byte_length_append [OF w(1), of "[x]"]
        by (cases s) (auto simp: scan_char_def advanced_def steady_def add.assoc)
    qed
    finally show ?thesis using h by simp
  qed
  with w(3) show ?thesis by (simp add: passes_def)
qed

lemma passes_bracketed:
  assumes "passes False t" "(a, b) \<in> {(123, 125), (91, 93)}"
  shows "passes False (a # t @ [b])"
proof -
  have w: "well_formed [a]" "well_formed [b]" "well_formed t" "byte_length [a] = 1" "byte_length [b] = 1"
    using assms well_formed_unit [of a] well_formed_unit [of b] by (auto simp: passes_def)
  have wt: "well_formed (t @ [b])" "well_formed (a # t @ [b])"
    using w well_formed_append [of t "[b]"] well_formed_append [of "[a]" "t @ [b]"] by auto
  have ch: "chars (a # t @ [b]) = [a] # chars t @ [[b]]"
    using chars_append [OF w(1), of "t @ [b]"] chars_append [OF w(3), of "[b]"] by simp
  have bl: "byte_length (a # t @ [b]) = 1 + byte_length t + 1"
    using byte_length_append [OF w(1), of "t @ [b]"] byte_length_append [OF w(3), of "[b]"] w by simp
  have "scan_chars s i (chars (a # t @ [b]) @ cs) = scan_chars (advanced (a # t @ [b]) s) (i + length (a # t @ [b])) cs"
    if s: "steady s" "\<not> ss_inString s" "ss_stack s \<noteq> []" for s i cs
  proof -
    let ?s1 = "advanced [a] s\<lparr>ss_stack := b # ss_stack s\<rparr>"
    have st: "steady ?s1" "ss_stack ?s1 \<noteq> []" "\<not> ss_inString ?s1"
      using s by (simp_all add: steady_def advanced_def)
    have "scan_chars s i (chars (a # t @ [b]) @ cs) = scan_chars ?s1 (Suc i) (chars t @ [b] # cs)"
      using scan_one [OF s(1), of "[a]" ?s1 i "chars t @ [b] # cs"] s assms(2)
      by (auto simp: ch scan_char_def matchingClose_def)
    also have "\<dots> = scan_chars (advanced t ?s1) (Suc i + length t) ([b] # cs)"
      using assms(1) st by (simp add: passes_def)
    also have "\<dots> = scan_chars (advanced (a # t @ [b]) s) (i + length (a # t @ [b])) cs"
    proof (subst scan_one)
      show "steady (advanced t ?s1)" using st(1) by simp
      show "scan_char [b] (advanced [b] (advanced t ?s1)) = Some (advanced (a # t @ [b]) s)"
        using s assms(2) w bl by (cases s) (auto simp: scan_char_def advanced_def)
    qed simp
    finally show ?thesis .
  qed
  with wt(2) show ?thesis by (simp add: passes_def)
qed

lemma passes_string:
  assumes "passes True t"
  shows "passes False (34 # t @ [34])"
proof -
  have w: "well_formed [34 :: code_unit]" "well_formed t" "byte_length [34 :: code_unit] = 1"
    using assms well_formed_unit [of 34] by (auto simp: passes_def)
  have wt: "well_formed (34 # t @ [34])"
    using w well_formed_append [of t "[34]"] well_formed_append [of "[34]" "t @ [34]"] by auto
  have ch: "chars (34 # t @ [34]) = [34] # chars t @ [[34]]"
    using chars_append [OF w(1), of "t @ [34]"] chars_append [OF w(2), of "[34]"] by simp
  have bl: "byte_length (34 # t @ [34]) = 1 + byte_length t + 1"
    using byte_length_append [OF w(1), of "t @ [34]"] byte_length_append [OF w(2), of "[34]"] w by simp
  have "scan_chars s i (chars (34 # t @ [34]) @ cs) = scan_chars (advanced (34 # t @ [34]) s) (i + length (34 # t @ [34 :: code_unit])) cs"
    if s: "steady s" "\<not> ss_inString s" "ss_stack s \<noteq> []" for s i cs
  proof -
    let ?s1 = "advanced [34] s\<lparr>ss_inString := True\<rparr>"
    have st: "steady ?s1" "ss_stack ?s1 \<noteq> []" "ss_inString ?s1"
      using s by (simp_all add: steady_def advanced_def)
    have "scan_chars s i (chars (34 # t @ [34]) @ cs) = scan_chars ?s1 (Suc i) (chars t @ [34] # cs)"
      using scan_one [OF s(1), of "[34]" ?s1 i "chars t @ [34] # cs"] s by (auto simp: ch scan_char_def)
    also have "\<dots> = scan_chars (advanced t ?s1) (Suc i + length t) ([34] # cs)"
      using assms(1) st by (simp add: passes_def)
    also have "\<dots> = scan_chars (advanced (34 # t @ [34]) s) (i + length (34 # t @ [34 :: code_unit])) cs"
    proof (subst scan_one)
      show "steady (advanced t ?s1)" using st(1) by simp
      show "scan_char [34] (advanced [34] (advanced t ?s1)) = Some (advanced (34 # t @ [34]) s)"
        using s w bl by (cases s) (auto simp: scan_char_def advanced_def steady_def)
    qed simp
    finally show ?thesis .
  qed
  with wt show ?thesis by (simp add: passes_def)
qed


lemma passes_quote_unit: "passes True (quote_unit u)"
proof -
  have d: "u \<noteq> 34 \<Longrightarrow> u \<noteq> 92 \<Longrightarrow> \<not> is_high u \<Longrightarrow> \<not> is_low u \<Longrightarrow> passes True [u]"
    by (intro passes_unit) (auto simp: well_formed_def is_surrogate_def is_high_def is_low_def)
  have h: "passes True [hex_digit n]" if "n < 16" for n
  proof (rule passes_unit)
    have u: "unat (hex_digit n) = (if n < 10 then 48 + n else 87 + n)" using that by (simp add: hex_digit_def unat_of_nat)
    show "well_formed [hex_digit n]" using u that by (intro conjunct1 [OF well_formed_unit]) auto
    have "unat (hex_digit n) \<noteq> 34 \<and> unat (hex_digit n) \<noteq> 92" using u that by simp
    hence "hex_digit n \<noteq> 34 \<and> hex_digit n \<noteq> 92" by force
    thus "if True then hex_digit n \<noteq> 34 \<and> hex_digit n \<noteq> 92 else hex_digit n \<notin> {34, 123, 91, 125, 93}" by simp
  qed
  have "unat u < 65536" using unsigned_less [of u] by simp
  hence "unat u div 4096 < 16" by (simp add: less_mult_imp_div_less)
  hence e: "passes True (escape_u u)"
    using passes_append [OF passes_escape [of 117] passes_append [OF h passes_append [OF h passes_append [OF h h]]],
        of "unat u div 4096" "unat u div 256 mod 16" "unat u div 16 mod 16" "unat u mod 16"]
    by (simp add: escape_u_def Let_def)
  show ?thesis
    using d e passes_escape [of 34] passes_escape [of 92] passes_escape [of 98] passes_escape [of 102]
      passes_escape [of 110] passes_escape [of 114] passes_escape [of 116]
    by (auto simp: quote_unit_def)
qed

lemma passes_pair:
  assumes "is_high u" "is_low v"
  shows "passes True [u, v]"
proof -
  have "well_formed [u, v]" using assms pair_not_surrogate by (simp add: well_formed_def)
  thus ?thesis using assms
    by (auto simp: passes_def scan_char_def count_steady steady_def)
qed

lemma passes_quote_units: "passes True (quote_units s)"
proof (induction s rule: quote_units.induct)
  case (2 u)
  thus ?case using passes_quote_unit by simp
next
  case (3 u v r)
  thus ?case using passes_append [OF passes_pair, of u v "quote_units r"]
      passes_append [OF passes_quote_unit, of "quote_units (v # r)" u]
    by auto
qed (simp add: passes_Nil)

lemma passes_quote: "passes False (quote s)"
  unfolding quote_def by (rule passes_string) (rule passes_quote_units)

lemma plain_ascii:
  "\<forall>u\<in>set t. unat u < 128 \<and> u \<notin> {34, 123, 91, 125, 93} \<Longrightarrow> passes False t"
  by (rule passes_units) (use well_formed_unit in simp)

lemma passes_join: "\<forall>x\<in>set xs. passes False x \<Longrightarrow> passes False (join_comma xs)"
proof (induction xs rule: join_comma.induct)
  case (3 x y r)
  have "passes False [44]" by (rule plain_ascii) simp
  hence "passes False (x @ [44] @ join_comma (y # r))" using 3 by (intro passes_append) simp_all
  thus ?case by simp
qed (simp_all add: passes_Nil)

lemma passes_number: "list_all number_char t \<Longrightarrow> passes False t"
  by (rule plain_ascii) (auto simp: list_all_iff number_char_def is_digit_def)

text \<open>The inner text of a printed array or object, and with its brackets any printed value.\<close>

lemma passes_stringify: "wf_json cv v \<Longrightarrow> passes False (stringify v)"
proof (induction v)
  case (JNum n)
  thus ?case using num_ok_parse [of cv n] parse_number_text [of cv "num_text n" n] passes_number by simp
next
  case (JArr xs)
  have "passes False (join_comma (map stringify xs))" using JArr by (intro passes_join) auto
  thus ?case by (simp add: passes_bracketed)
next
  case (JObj kvs)
  have "passes False (quote k @ [58] @ stringify x)" if "(k, x) \<in> set kvs" for k x
  proof (intro passes_append passes_quote)
    show "passes False [58]" by (rule plain_ascii) simp
    show "passes False (stringify x)" using that JObj by force
  qed
  hence "passes False (join_comma (map (\<lambda>(k, v). quote k @ 58 # stringify v) kvs))"
    by (intro passes_join) auto
  thus ?case by (simp add: passes_bracketed)
next
  case JNull
  show ?case by (simp add: plain_ascii js_def cu_def)
next
  case (JBool b)
  show ?case by (simp add: plain_ascii js_def cu_def)
qed (simp add: passes_quote)

definition inner_text :: "json \<Rightarrow> jstr" where
  "inner_text v = (case v of JArr xs \<Rightarrow> join_comma (map stringify xs)
     | JObj kvs \<Rightarrow> join_comma (map (\<lambda>(k, v). quote k @ 58 # stringify v) kvs) | _ \<Rightarrow> [])"

lemma passes_inner: "wf_json cv v \<Longrightarrow> passes False (inner_text v)"
proof (cases v)
  case (JArr xs)
  assume "wf_json cv v"
  hence "\<forall>x\<in>set xs. passes False (stringify x)" using JArr passes_stringify [of cv] by simp
  thus ?thesis using JArr unfolding inner_text_def by (auto intro!: passes_join)
next
  case (JObj kvs)
  assume w: "wf_json cv v"
  have "passes False (quote k @ [58] @ stringify x)" if "(k, x) \<in> set kvs" for k x
  proof (intro passes_append passes_quote)
    show "passes False [58]" by (rule plain_ascii) simp
    show "passes False (stringify x)" using that JObj w passes_stringify by force
  qed
  thus ?thesis using JObj unfolding inner_text_def by (auto intro!: passes_join)
qed (simp_all add: inner_text_def passes_Nil)

lemma scan_printed:
  assumes "wf_json cv v" "stringify v = a # inner_text v @ [b]" "(a, b) \<in> {(123, 125), (91, 93)}"
  shows "scanJson (stringify v @ rest) = \<lparr>sc_end = length (stringify v), sc_complete = True,
     sc_oversized = byte_length (stringify v) > CARD_MARKER_BYTE_LIMIT\<rparr>"
proof -
  let ?t = "inner_text v"
  have p: "passes False ?t" by (rule passes_inner) (rule assms(1))
  have w: "well_formed [a]" "well_formed [b]" "well_formed ?t" "byte_length [a] = 1" "byte_length [b] = 1"
    using p assms(3) well_formed_unit [of a] well_formed_unit [of b] by (auto simp: passes_def)
  have ch: "chars (?t @ b # rest) = chars ?t @ [b] # chars rest"
    using chars_append [OF w(3), of "[b] @ rest"] chars_append [OF w(2), of rest] assms(3) by auto
  have bl: "byte_length (stringify v) = 2 + byte_length ?t"
    using byte_length_append [OF w(1), of "?t @ [b]"] byte_length_append [OF w(3), of "[b]"] w assms(2) by simp
  have st: "steady (scan_start a)" "ss_stack (scan_start a) = [b]" "\<not> ss_inString (scan_start a)" "ss_bytes (scan_start a) = 1"
    using w(4) assms(3)
    by (auto simp: scan_start_def count_char_def steady_def Let_def CARD_MARKER_BYTE_LIMIT_def matchingClose_def)
  have "scanJson (stringify v @ rest) = scan_chars (scan_start a) 1 (chars ?t @ [b] # chars rest)"
    using assms(3) by (auto simp: assms(2) scanJson_def ch)
  also have "\<dots> = scan_chars (advanced ?t (scan_start a)) (1 + length ?t) ([b] # chars rest)"
    using p st by (simp add: passes_def)
  also have "\<dots> = \<lparr>sc_end = length (stringify v), sc_complete = True,
     sc_oversized = byte_length (stringify v) > CARD_MARKER_BYTE_LIMIT\<rparr>"
    using st w(5) bl assms(3) by (auto simp: count_steady scan_char_def assms(2)) (simp_all add: advanced_def)
  finally show ?thesis .
qed

subsection \<open>Reading back\<close>

datatype segment = SegText jstr | SegCard jobj | SegCommands "json list"

fun segment_text :: "segment \<Rightarrow> jstr" where
  "segment_text (SegText t) = t"
| "segment_text (SegCard ob) = opener_value CardTag @ stringify (JObj ob) @ [93]"
| "segment_text (SegCommands xs) = opener_value CommandsTag @ stringify (JArr xs) @ [93]"

fun segment_ok :: "(jstr \<Rightarrow> jnum) \<Rightarrow> segment \<Rightarrow> bool" where
  "segment_ok cv (SegText t) = (91 \<notin> set t)"
| "segment_ok cv (SegCard ob) = (wf_json cv (JObj ob) \<and> byte_length (stringify (JObj ob)) \<le> CARD_MARKER_BYTE_LIMIT)"
| "segment_ok cv (SegCommands xs) = (wf_json cv (JArr xs) \<and> byte_length (stringify (JArr xs)) \<le> CARD_MARKER_BYTE_LIMIT)"

fun is_text :: "segment \<Rightarrow> bool" where
  "is_text (SegText t) = True"
| "is_text _ = False"

fun add_segment :: "segment \<Rightarrow> marker_result \<Rightarrow> marker_result" where
  "add_segment (SegText t) r = emit t r"
| "add_segment (SegCard ob) r = r\<lparr>m_cards := m_cards r @ [ob]\<rparr>"
| "add_segment (SegCommands xs) r = r\<lparr>m_commands := m_commands r @ [xs]\<rparr>"


lemma starts_with_self [simp]: "starts_with p (p @ s)"
  by (simp add: starts_with_def)

lemma first_opener_here: "first_opener (opener_value tag @ s) = Some (tag, 0)"
proof -
  obtain u r where u: "opener_value tag @ s = u # r" by (cases "opener_value tag @ s") auto
  have h: "starts_with (opener_value tag) (u # r)" unfolding u [symmetric] by simp
  show ?thesis unfolding u
    using h openers_differ [of "u # r"] by (cases tag) (simp_all del: opener_value.simps)
qed

lemma first_opener_after: "91 \<notin> set t \<Longrightarrow> first_opener (t @ s) = map_option (\<lambda>(tag, i). (tag, length t + i)) (first_opener s)"
proof (induction t)
  case Nil
  show ?case by (cases "first_opener s") auto
next
  case (Cons u t)
  have "\<not> starts_with (opener_value tag) (u # t @ s)" for tag
  proof -
    obtain w where "opener_value tag = 91 # w @ [91]" using opener_shape by blast
    thus ?thesis using Cons.prems by (auto simp: starts_with_def)
  qed
  thus ?case using Cons by (cases "first_opener s") (auto simp del: opener_value.simps)
qed

lemma trailing_none: "91 \<notin> set t \<Longrightarrow> trailingOpenerPrefix t = 0"
proof (rule ccontr)
  let ?p = "trailingOpenerPrefix t"
  assume a: "91 \<notin> set t" "?p \<noteq> 0"
  then obtain tag where e: "ends_with (take ?p (opener_value tag)) t" using trailing_attained by blast
  obtain w where w: "opener_value tag = 91 # w @ [91]" using opener_shape by blast
  have "91 \<in> set (take ?p (opener_value tag))" using w a(2) by (cases ?p) simp_all
  also have "set (take ?p (opener_value tag)) \<subseteq> set t" using e by (metis ends_with_def set_drop_subset)
  finally show False using a(1) by simp
qed

lemma emit_Nil [simp]: "emit [] r = r"
  by (simp add: emit_def)

lemma emit_emit [simp]: "emit b (emit a r) = emit (a @ b) r"
  by (simp add: emit_def)

lemma parse_markers_text: "91 \<notin> set t \<Longrightarrow> parse_markers cv final n t r = emit t r"
  using find_sub_absent [of t] trailing_none [of t]
  by (cases "t = []") (simp_all add: parse_markers.simps [of cv final n] earliest_first)

text \<open>One marker after a text without brackets.\<close>

lemma parse_markers_marker:
  assumes "91 \<notin> set t" "wf_json cv v" "byte_length (stringify v) \<le> CARD_MARKER_BYTE_LIMIT" "n < MAX_CARD_MARKERS"
    "(tag = CardTag \<and> v = JObj ob \<and> r' = r\<lparr>m_cards := m_cards r @ [ob]\<rparr>)
     \<or> (tag = CommandsTag \<and> v = JArr xs \<and> r' = r\<lparr>m_commands := m_commands r @ [xs]\<rparr>)"
  shows "parse_markers cv final n (t @ opener_value tag @ stringify v @ 93 # rest) r
     = parse_markers cv final (Suc n) rest (emit t r')"
proof -
  let ?body = "stringify v @ 93 # rest"
  let ?scan = "\<lparr>sc_end = length (stringify v), sc_complete = True, sc_oversized = False\<rparr>"
  let ?all = "t @ opener_value tag @ ?body"
  have e: "earliestOpener ?all = Some (tag, length t)"
    using first_opener_after [OF assms(1), of "opener_value tag @ ?body"] first_opener_here [of tag ?body]
    by (simp add: earliest_first)
  have "\<exists>a b. stringify v = a # inner_text v @ [b] \<and> (a, b) \<in> {(123, 125), (91, 93)} \<and> a = opener_root tag"
    using assms(5) by (auto simp: inner_text_def)
  then obtain a b where ab: "stringify v = a # inner_text v @ [b]" "(a, b) \<in> {(123, 125), (91, 93)}" "a = opener_root tag"
    by blast
  have s: "scanJson ?body = ?scan" using scan_printed [OF assms(2) ab(1,2), of "93 # rest"] assms(3) by simp
  have "parse_markers cv final n ?all r = parse_markers cv final (Suc n)
      (if True then drop (Suc (sc_end ?scan)) ?body else []) (take_marker cv (Suc n) tag ?body True ?scan (emit (take (length t) ?all) r))"
    by (rule parse_step [OF _ e _ _ s]) (use ab in \<open>auto simp: nth_append\<close>)
  moreover have "take_marker cv (Suc n) tag ?body True ?scan (emit t r) = emit t r'"
    using assms(4,5) ab parse_stringify [OF assms(2)]
    by (auto simp: take_marker_def marker_value_def emit_def simp del: stringify.simps)
  ultimately show ?thesis by simp
qed

lemma emit_marker:
  "emit t (r\<lparr>m_cards := cs\<rparr>) = (emit t r)\<lparr>m_cards := cs\<rparr>"
  "emit t (r\<lparr>m_commands := ms\<rparr>) = (emit t r)\<lparr>m_commands := ms\<rparr>"
  "m_cards (emit t r) = m_cards r" "m_commands (emit t r) = m_commands r"
  by (cases r; simp add: emit_def)+

lemma parse_segments:
  assumes "list_all (segment_ok cv) segs" "91 \<notin> set t"
    "n + length (filter (\<lambda>g. \<not> is_text g) segs) \<le> MAX_CARD_MARKERS"
  shows "parse_markers cv True n (t @ concat (map segment_text segs)) r = fold add_segment segs (emit t r)"
  using assms
proof (induction segs arbitrary: n t r)
  case Nil
  thus ?case by (simp add: parse_markers_text)
next
  case (Cons g segs)
  show ?case
  proof (cases g)
    case (SegText t')
    thus ?thesis using Cons.IH [of "t @ t'" n r] Cons.prems by simp
  next
    case (SegCard ob)
    have "parse_markers cv True n (t @ opener_value CardTag @ stringify (JObj ob) @ 93 # concat (map segment_text segs)) r
      = parse_markers cv True (Suc n) ([] @ concat (map segment_text segs)) (emit t (r\<lparr>m_cards := m_cards r @ [ob]\<rparr>))"
      using parse_markers_marker [of t cv "JObj ob" n CardTag ob "r\<lparr>m_cards := m_cards r @ [ob]\<rparr>" r "[]" True] Cons.prems SegCard
      by simp
    also have "\<dots> = fold add_segment segs (emit [] (emit t (r\<lparr>m_cards := m_cards r @ [ob]\<rparr>)))"
      using Cons.prems SegCard by (intro Cons.IH) simp_all
    finally show ?thesis using SegCard by (simp add: emit_marker)
  next
    case (SegCommands xs)
    have "parse_markers cv True n (t @ opener_value CommandsTag @ stringify (JArr xs) @ 93 # concat (map segment_text segs)) r
      = parse_markers cv True (Suc n) ([] @ concat (map segment_text segs)) (emit t (r\<lparr>m_commands := m_commands r @ [xs]\<rparr>))"
      using parse_markers_marker [of t cv "JArr xs" n CommandsTag "[]" "r\<lparr>m_commands := m_commands r @ [xs]\<rparr>" r xs True] Cons.prems SegCommands
      by simp
    also have "\<dots> = fold add_segment segs (emit [] (emit t (r\<lparr>m_commands := m_commands r @ [xs]\<rparr>)))"
      using Cons.prems SegCommands by (intro Cons.IH) simp_all
    finally show ?thesis using SegCommands by (simp add: emit_marker)
  qed
qed

text \<open>C20 Up to sixteen cards and command lists embedded in a text without other brackets are read back
  as they were printed, in order, the text around them is kept, and nothing is reported.\<close>

theorem embedded_cards_are_read_back:
  assumes "list_all (segment_ok cv) segs" "length (filter (\<lambda>g. \<not> is_text g) segs) \<le> MAX_CARD_MARKERS"
  shows "parseCardMarkers cv (concat (map segment_text segs)) = fold add_segment segs no_markers"
  using parse_segments [OF assms(1), of "[]" 0 no_markers] assms(2)
  by (simp add: parseCardMarkers_def parse_text_def)

lemma embedded_cards_are_read_back_witness:
  "parseCardMarkers NDbl (js ''Done [CARD][{\"id\":7}] ok'')
     = \<lparr>m_text = js ''Done  ok'', m_cards = [[(js ''id'', JInt 7)]], m_commands = [], m_errors = []\<rparr>"
proof -
  let ?segs = "[SegText (js ''Done ''), SegCard [(js ''id'', JInt 7)], SegText (js '' ok'')]"
  have s: "stringify (JObj [(js ''id'', JInt 7)]) = js ''{\"id\":7}''"
    by (simp add: quote_def js_def cu_def quote_unit_def is_high_def is_low_def int_text_def nat_digits.simps)
  have w: "wf_json NDbl (JObj [(js ''id'', JInt 7)])"
    by (simp add: max_safe_def build_obj_plain not_index_js)
  have "parseCardMarkers NDbl (concat (map segment_text ?segs)) = fold add_segment ?segs no_markers"
  proof (rule embedded_cards_are_read_back)
    have "byte_length (js ''{\"id\":7}'') \<le> CARD_MARKER_BYTE_LIMIT"
      by (simp add: byte_length_def utf8_encode_def encode_point_def CARD_MARKER_BYTE_LIMIT_def)
    thus "list_all (segment_ok NDbl) ?segs" using w s by (simp del: stringify.simps wf_json.simps add: js_def cu_def)
  qed (simp add: MAX_CARD_MARKERS_def)
  thus ?thesis using s by (simp del: stringify.simps add: emit_def no_markers_def flip: js_append) (simp add: js_def cu_def)
qed


text \<open>Taking the markers out can leave a marker behind: the parts of an opener around a marker join up.\<close>

lemma stripping_leaves_marker:
  "stripMarkers cv (js ''[CA[CARD][{}]RD][{}]'') = js ''[CARD][{}]''"
proof -
  define whole body rest where d: "whole = js ''[CA[CARD][{}]RD][{}]''" "body = js ''{}]RD][{}]''" "rest = js ''RD][{}]''"
  let ?scan = "\<lparr>sc_end = 2, sc_complete = True, sc_oversized = False\<rparr>"
  have "stringify (JObj []) = js ''{}''" by (simp add: js_def cu_def)
  hence j: "json_parse cv (js ''{}'') = Some (JObj [])"
    using parse_stringify [of cv "JObj []"] by (simp add: build_obj_def)
  have s: "scanJson body = ?scan"
    by (simp add: d js_def cu_def scanJson_def scan_start_def scan_char_def count_char_def Let_def is_high_def
        matchingClose_def byte_length_def utf8_encode_def encode_point_def CARD_MARKER_BYTE_LIMIT_def)
  have o: "earliestOpener whole = Some (CardTag, 3)" "earliestOpener rest = None"
    by (simp_all add: d earliestOpener_def openers_def starts_with_def js_def cu_def)
  have t: "trailingOpenerPrefix rest = 0"
    unfolding d by code_simp
  have p: "whole \<noteq> []" "body \<noteq> []" "rest \<noteq> []" "drop (3 + length (opener_value CardTag)) whole = body"
      "take 3 whole = js ''[CA''" "drop (Suc 2) body = rest" "take 2 body = js ''{}''" "length body = 10"
      "body ! 2 = 93" "hd body = 123"
    by (simp_all add: d js_def cu_def)
  have v: "take_marker cv (Suc 0) CardTag body True ?scan r = r\<lparr>m_cards := m_cards r @ [[]]\<rparr>" for r
    using j p by (simp add: take_marker_def marker_value_def MAX_CARD_MARKERS_def)
  have "parse_markers cv True 0 whole no_markers = parse_markers cv True (Suc 0) rest
      (take_marker cv (Suc 0) CardTag body True ?scan (emit (js ''[CA'') no_markers))"
    using parse_step [OF p(1) o(1) p(4,2) s, of True True cv 0 no_markers] p by simp
  also have "\<dots> = emit rest (emit (js ''[CA'') no_markers\<lparr>m_cards := [[]]\<rparr>)"
    using o(2) t p(3) by (simp add: v parse_markers.simps [of cv True "Suc 0"] no_markers_def emit_def)
  finally have "stripMarkers cv whole = js ''[CA'' @ rest"
    by (simp add: stripMarkers_def parseCardMarkers_def parse_text_def emit_def no_markers_def)
  thus ?thesis by (simp add: d flip: js_append)
qed

end
