(* ===== verification/ChatStream.thy ===== *)
theory ChatStream imports WireTheorems MessageTheorems begin

text \<open>
  The streamed reply of an agent, \<^verbatim>\<open>protocol/chat-stream.ts\<close>: its events, the request to stop it, and
  the frames an event is sent in.  A zod schema is a predicate on the snapshot of a foreign value;
  what the schema returns lists the properties in the order of the schema.
\<close>

definition CHAT_SNAPSHOT_BYTES :: nat where
  "CHAT_SNAPSHOT_BYTES = 6 * 1024 * 1024 + 16 * 1024"

definition chat_identifier :: "json option \<Rightarrow> bool" where
  "chat_identifier v = str_test (\<lambda>s. 1 \<le> length s \<and> length s \<le> 256 \<and> trim s = s \<and> \<not> has_control s) v"

definition one_of :: "string list \<Rightarrow> json option \<Rightarrow> bool" where
  "one_of ws v \<longleftrightarrow> list_ex (\<lambda>w. v = Some (JLit w)) ws"

definition chat_conversation :: "jobj \<Rightarrow> bool" where
  "chat_conversation ob \<longleftrightarrow> field ob ''conversation_type'' \<in> {Some (JInt 1), Some (JInt 3), Some (JInt 4)}
     \<and> chat_identifier (field ob ''conversation_id'')"

definition chat_stream_base :: "jobj \<Rightarrow> bool" where
  "chat_stream_base ob \<longleftrightarrow> field ob ''protocol_version'' = Some (JInt 1)
     \<and> chat_identifier (field ob ''stream_id'') \<and> chat_identifier (field ob ''node_id'')"

definition event_keys :: "string list" where
  "event_keys = [''msg_type'', ''protocol_version'', ''stream_id'', ''node_id'', ''conversation_type'',
     ''conversation_id'', ''request_message_id'', ''requester_id'', ''seq'', ''status'', ''text'', ''error_code'']"

definition eventSchema :: "jobj \<Rightarrow> bool" where
  "eventSchema ob \<longleftrightarrow> list_all (\<lambda>(k, v). k \<in> js ` set event_keys) ob
     \<and> is_lit (field ob ''msg_type'') ''chat_stream'' \<and> chat_stream_base ob \<and> chat_conversation ob
     \<and> chat_identifier (field ob ''request_message_id'') \<and> chat_identifier (field ob ''requester_id'')
     \<and> integer_from (field ob ''seq'') 0
     \<and> one_of [''processing'', ''streaming'', ''completed'', ''cancelled'', ''failed''] (field ob ''status'')
     \<and> str_test (\<lambda>s. byte_length s \<le> 1024 * 1024) (field ob ''text'')
     \<and> absent_or chat_identifier (field ob ''error_code'')"

definition stop_keys :: "string list" where
  "stop_keys = [''msg_type'', ''protocol_version'', ''stream_id'', ''node_id'', ''conversation_type'',
     ''conversation_id'', ''request_id'', ''request_message_id'']"

definition stopSchema :: "jobj \<Rightarrow> bool" where
  "stopSchema ob \<longleftrightarrow> list_all (\<lambda>(k, v). k \<in> js ` set stop_keys) ob
     \<and> is_lit (field ob ''msg_type'') ''chat_stop'' \<and> chat_stream_base ob \<and> chat_conversation ob
     \<and> chat_identifier (field ob ''request_id'') \<and> chat_identifier (field ob ''request_message_id'')"

definition result_keys :: "string list" where
  "result_keys = [''msg_type'', ''protocol_version'', ''stream_id'', ''node_id'', ''request_id'', ''status'', ''code'']"

definition resultSchema :: "jobj \<Rightarrow> bool" where
  "resultSchema ob \<longleftrightarrow> list_all (\<lambda>(k, v). k \<in> js ` set result_keys) ob
     \<and> is_lit (field ob ''msg_type'') ''chat_stop_result'' \<and> chat_stream_base ob
     \<and> chat_identifier (field ob ''request_id'') \<and> one_of [''accepted'', ''rejected''] (field ob ''status'')
     \<and> one_of [''stop_requested'', ''no_active_task'', ''forbidden'', ''cancel_failed''] (field ob ''code'')
     \<and> (is_lit (field ob ''status'') ''accepted'' \<longleftrightarrow> is_lit (field ob ''code'') ''stop_requested'')"

text \<open>The object a schema returns.\<close>

definition in_schema_order :: "string list \<Rightarrow> jobj \<Rightarrow> jobj" where
  "in_schema_order ks ob = concat (map (\<lambda>k. copied k (field ob k)) ks)"

definition chat_parse :: "(jobj \<Rightarrow> bool) \<Rightarrow> string list \<Rightarrow> jsval \<Rightarrow> jobj option" where
  "chat_parse schema ks v = (case passiveSnapshot v CHAT_SNAPSHOT_BYTES of
     Inr (JObj ob, bytes) \<Rightarrow> if schema ob then Some (in_schema_order ks ob) else None
   | _ \<Rightarrow> None)"

definition parseChatStreamEvent :: "jsval \<Rightarrow> jobj option" where
  "parseChatStreamEvent v = chat_parse eventSchema event_keys v"

definition parseChatStopRequest :: "jsval \<Rightarrow> jobj option" where
  "parseChatStopRequest v = chat_parse stopSchema stop_keys v"

definition parseChatStopResult :: "jsval \<Rightarrow> jobj option" where
  "parseChatStopResult v = chat_parse resultSchema result_keys v"

subsection \<open>Frames\<close>

datatype chat_error = InvalidChatStream | ChatWireError wire_error | ChatSyntaxError

definition set_msg_type :: "string \<Rightarrow> jobj \<Rightarrow> jobj" where
  "set_msg_type t content = spread content [(js ''msg_type'', JLit t)]"

definition chat_frame :: "(jstr \<Rightarrow> jnum) \<Rightarrow> jstr \<Rightarrow> (chat_error, string \<times> jobj) result" where
  "chat_frame cv serialized = (case json_parse cv serialized of
     Some (JObj content) \<Rightarrow>
       let messageType = (if is_lit (field content ''msg_type'') ''discussion_wire_chunk''
                          then ''chat_stream_chunk'' else ''chat_stream'')
       in Inr (messageType, set_msg_type messageType content)
   | _ \<Rightarrow> Inl ChatSyntaxError)"

fun all_results :: "('e, 'a) result list \<Rightarrow> ('e, 'a list) result" where
  "all_results [] = Inr []"
| "all_results (r # rs) = bind_result r (\<lambda>x. bind_result (all_results rs) (\<lambda>xs. Inr (x # xs)))"

definition encodeChatStreamEvent ::
  "(bytes \<Rightarrow> bytes) \<Rightarrow> (jstr \<Rightarrow> jnum) \<Rightarrow> jsval \<Rightarrow> (chat_error, (string \<times> jobj) list) result" where
  "encodeChatStreamEvent sha cv event = (case parseChatStreamEvent event of
     None \<Rightarrow> Inl InvalidChatStream
   | Some valid \<Rightarrow> (case encodeDiscussionWire sha valid of
        Inl e \<Rightarrow> Inl (ChatWireError e)
      | Inr frames \<Rightarrow> all_results (map (chat_frame cv) frames)))"

text \<open>A reassembler of its own judges a single frame; \<open>now\<close> is the reading of its clock.\<close>

definition default_wire_config :: wire_config where
  "default_wire_config = \<lparr>wc_ttlMs = DEFAULT_WIRE_TTL_MS, wc_maxMessageBytes = int MAX_DISCUSSION_MESSAGE_BYTES,
     wc_maxChunks = int MAX_DISCUSSION_CHUNKS, wc_maxInflightMessages = int MAX_INFLIGHT_MESSAGES,
     wc_maxInflightBytes = int MAX_INFLIGHT_BYTES, wc_maxCompleted = int MAX_COMPLETED\<rparr>"

lemma default_wire_config: "new_wire_config None None None None None None = Inr default_wire_config"
  by (simp add: new_wire_config_def positiveInteger_def wire_capacity_def default_wire_config_def)

definition validChatStreamFrame :: "(bytes \<Rightarrow> bytes) \<Rightarrow> (jstr \<Rightarrow> jnum) \<Rightarrow> int \<Rightarrow> jobj \<Rightarrow> bool" where
  "validChatStreamFrame sha cv now v =
     (if \<not> is_lit (field v ''msg_type'') ''chat_stream_chunk'' \<or> byte_length (stringify (JObj v)) > 9000 then False
      else case fst (wire_accept sha cv default_wire_config now (js ''frame-validator'')
                      (JObj (set_msg_type ''discussion_wire_chunk'' v)) wire_start) of
        Incomplete \<Rightarrow> True
      | Complete payload serialized \<Rightarrow> parseChatStreamEvent (plain_value (JObj payload)) \<noteq> None
      | _ \<Rightarrow> False)"

subsection \<open>What a parsed event is\<close>

lemma field_in_schema_order:
  "distinct ks \<Longrightarrow> field (in_schema_order ks ob) k = (if k \<in> set ks then field ob k else None)"
proof (induction ks)
  case (Cons x ks)
  have "field (in_schema_order (x # ks) ob) k = field (copied x (field ob x) @ in_schema_order ks ob) k"
    by (simp add: in_schema_order_def)
  also have "\<dots> = (if k = x \<and> field ob x \<noteq> None then field ob x else field (in_schema_order ks ob) k)"
    by (cases "field ob x") (auto simp: copied_def)
  finally show ?case using Cons by auto
qed (simp add: in_schema_order_def)

lemma set_in_schema_order:
  "(k, v) \<in> set (in_schema_order ks ob) \<Longrightarrow> \<exists>x \<in> set ks. k = js x \<and> field ob x = Some v"
  by (auto simp: in_schema_order_def copied_def split: option.splits)

lemma keys_in_schema_order:
  assumes "distinct ks" shows "distinct (map fst (in_schema_order ks ob))"
  using assms
proof (induction ks)
  case (Cons x ks)
  have "js x \<notin> fst ` set (in_schema_order ks ob)" using Cons.prems set_in_schema_order [of _ _ ks ob] by fastforce
  moreover have "in_schema_order (x # ks) ob = copied x (field ob x) @ in_schema_order ks ob"
    by (simp add: in_schema_order_def)
  ultimately show ?case using Cons by (cases "field ob x") (auto simp: copied_def)
qed (simp add: in_schema_order_def)

lemma event_keys_distinct: "distinct event_keys"
  by (simp add: event_keys_def)

definition chat_event :: "jobj \<Rightarrow> bool" where
  "chat_event ob \<longleftrightarrow> eventSchema ob \<and> in_schema_order event_keys ob = ob"

lemma schema_order_again:
  "distinct ks \<Longrightarrow> in_schema_order ks (in_schema_order ks ob) = in_schema_order ks ob"
  using field_in_schema_order [of ks ob] by (simp add: in_schema_order_def [of ks] cong: map_cong)

lemma schema_of_ordered: "eventSchema ob \<Longrightarrow> eventSchema (in_schema_order event_keys ob)"
proof -
  assume e: "eventSchema ob"
  have f: "field (in_schema_order event_keys ob) k = field ob k" if "k \<in> set event_keys" for k
    using field_in_schema_order [OF event_keys_distinct] that by simp
  have "list_all (\<lambda>(k, v). k \<in> js ` set event_keys) (in_schema_order event_keys ob)"
    using set_in_schema_order by (fastforce simp: list_all_iff)
  moreover have "field (in_schema_order event_keys ob) k = field ob k"
    if "k \<in> {''msg_type'', ''protocol_version'', ''stream_id'', ''node_id'', ''conversation_type'', ''conversation_id'',
       ''request_message_id'', ''requester_id'', ''seq'', ''status'', ''text'', ''error_code''}" for k
    using f that by (simp add: event_keys_def)
  ultimately show ?thesis using e
    by (simp add: eventSchema_def chat_stream_base_def chat_conversation_def)
qed

lemma parsed_event: "parseChatStreamEvent v = Some ev \<Longrightarrow> chat_event ev"
  using schema_of_ordered schema_order_again [OF event_keys_distinct]
  by (auto simp: parseChatStreamEvent_def chat_parse_def chat_event_def split: sum.splits prod.splits json.splits if_splits)


text \<open>An event whose properties come in another order.\<close>

definition event_in_order :: "string list \<Rightarrow> jobj \<Rightarrow> bool" where
  "event_in_order ks ob \<longleftrightarrow> eventSchema ob \<and> in_schema_order ks ob = ob \<and> distinct ks \<and> set ks = set event_keys"

lemma chat_event_in_order: "chat_event ev \<Longrightarrow> event_in_order event_keys ev"
  by (simp add: chat_event_def event_in_order_def event_keys_distinct)

lemma event_field:
  "event_in_order ks ev \<Longrightarrow> (k, v) \<in> set ev \<Longrightarrow> \<exists>x \<in> set event_keys. k = js x \<and> field ev x = Some v"
  using set_in_schema_order [of k v ks ev] by (simp add: event_in_order_def)

lemma event_keys_once: "event_in_order ks ev \<Longrightarrow> distinct (map fst ev)"
  using keys_in_schema_order [of ks ev] by (simp add: event_in_order_def)

definition plain_field :: "json option \<Rightarrow> bool" where
  "plain_field v \<longleftrightarrow> v = None \<or> (\<exists>s. v = Some (JStr s)) \<or> (\<exists>i. v = Some (JInt i) \<and> \<bar>i\<bar> \<le> max_safe)"

lemma plain_fields:
  "chat_identifier v \<Longrightarrow> plain_field v" "is_lit v w \<Longrightarrow> plain_field v" "one_of ws v \<Longrightarrow> plain_field v"
  "integer_from v n \<Longrightarrow> plain_field v" "str_test P v \<Longrightarrow> plain_field v" "absent_or chat_identifier v \<Longrightarrow> plain_field v"
  "v = Some (JInt 1) \<Longrightarrow> plain_field v" "v \<in> {Some (JInt 1), Some (JInt 3), Some (JInt 4)} \<Longrightarrow> plain_field v"
  by (auto simp: plain_field_def chat_identifier_def str_test_iff one_of_def list_ex_iff is_lit_def absent_or_def
      integer_cases max_safe_def)

lemma event_plain_fields: "eventSchema ev \<Longrightarrow> \<forall>k \<in> set event_keys. plain_field (field ev k)"
  unfolding event_keys_def list.set
  by (intro ballI, elim insertE emptyE)
    (simp_all only: eventSchema_def chat_stream_base_def chat_conversation_def plain_fields,
      (elim conjE, erule plain_fields)+)

lemma event_values:
  assumes "eventSchema ev" "k \<in> set event_keys" "field ev k = Some v"
  shows "(\<exists>s. v = JStr s) \<or> (\<exists>i. v = JInt i \<and> \<bar>i\<bar> \<le> max_safe)"
  using bspec [OF event_plain_fields [OF assms(1)] assms(2)] assms(3) by (auto simp: plain_field_def)

lemma ordered_event_wf:
  assumes "event_in_order ks ev"
  shows "wf_json cv (JObj ev)"
proof -
  have "distinct (map fst ev)" by (rule event_keys_once [OF assms])
  moreover have "\<not> is_index k" if "k \<in> fst ` set ev" for k
  proof -
    obtain v where "(k, v) \<in> set ev" using \<open>k \<in> fst ` set ev\<close> by force
    then obtain x where "x \<in> set event_keys" "k = js x" using event_field [OF assms] by blast
    thus ?thesis by (auto simp: event_keys_def not_index_js)
  qed
  ultimately have "build_obj ev = ev" by (intro build_obj_plain) auto
  moreover have "wf_json cv v" if kv: "(k, v) \<in> set ev" for k v
  proof -
    obtain x where "x \<in> set event_keys" "field ev x = Some v" using event_field [OF assms kv] by blast
    thus ?thesis using event_values [of ev x v] assms by (auto simp: event_in_order_def)
  qed
  ultimately show ?thesis by auto
qed

lemmas event_wf = ordered_event_wf [OF chat_event_in_order]

lemma event_parses_back: "chat_event ev \<Longrightarrow> json_parse cv (stringify (JObj ev)) = Some (JObj ev)"
  by (rule parse_stringify) (rule event_wf)

lemma event_version: "chat_event ev \<Longrightarrow> payload_version ev = JInt 2"
proof -
  assume e: "chat_event ev"
  have "field ev ''protocolVersion'' = field (in_schema_order event_keys ev) ''protocolVersion''"
    using e by (simp add: chat_event_def)
  also have "\<dots> = None" using field_in_schema_order [OF event_keys_distinct, of ev "''protocolVersion''"]
    by (simp add: event_keys_def)
  finally show ?thesis by (simp add: payload_version_def)
qed

subsection \<open>The size of an event\<close>

definition line_bytes :: "jobj \<Rightarrow> string \<Rightarrow> nat" where
  "line_bytes ob k = (case field ob k of None \<Rightarrow> 0 | Some v \<Rightarrow> length k + 3 + byte_length (stringify v))"

lemma object_lines:
  assumes "\<forall>k \<in> set ks. list_all quotable k" "\<forall>k \<in> set ks. \<forall>v. field ob k = Some v \<longrightarrow> well_formed (stringify v)"
  shows "byte_length (stringify (JObj (in_schema_order ks ob))) \<le> sum_list (map (line_bytes ob) ks) + length ks + 2"
proof -
  let ?f = "\<lambda>p. byte_length (prop_line p)"
  have l: "well_formed (prop_line (js k, v)) \<and> ?f (js k, v) \<le> line_bytes ob k" if "k \<in> set ks" "field ob k = Some v" for k v
    using prop_line_size [of v k "byte_length (stringify v)"] assms that by (simp add: line_bytes_def del: stringify.simps)
  have "sum_list (map ?f (in_schema_order xs ob)) + length (in_schema_order xs ob) \<le> sum_list (map (line_bytes ob) xs) + length xs"
    if "set xs \<subseteq> set ks" for xs
    using that
  proof (induction xs)
    case (Cons x xs)
    have "in_schema_order (x # xs) ob = copied x (field ob x) @ in_schema_order xs ob" by (simp add: in_schema_order_def)
    moreover have "sum_list (map ?f (copied x (field ob x))) + length (copied x (field ob x)) \<le> line_bytes ob x + 1"
      using l [of x] Cons.prems by (cases "field ob x") (auto simp: copied_def)
    ultimately show ?case using Cons by auto
  qed (simp add: in_schema_order_def)
  from this [of ks] have "sum_list (map ?f (in_schema_order ks ob)) + length (in_schema_order ks ob)
      \<le> sum_list (map (line_bytes ob) ks) + length ks" by simp
  moreover have "byte_length (stringify (JObj (in_schema_order ks ob)))
      \<le> sum_list (map ?f (in_schema_order ks ob)) + length (in_schema_order ks ob) + 2"
  proof (rule object_size, rule ballI, unfold split_paired_all)
    fix k v
    assume "(k, v) \<in> set (in_schema_order ks ob)"
    thus "well_formed (prop_line (k, v)) \<and> ?f (k, v) \<le> ?f (k, v)" using set_in_schema_order [of k v ks ob] l by auto
  qed
  ultimately show ?thesis by linarith
qed

lemma identifier_line: "chat_identifier (field ob k) \<Longrightarrow> line_bytes ob k \<le> length k + 1541"
proof -
  assume "chat_identifier (field ob k)"
  then obtain s where s: "field ob k = Some (JStr s)" "length s \<le> 256" by (auto simp: chat_identifier_def str_test_iff)
  thus ?thesis using quote_form [of s] by (simp add: line_bytes_def)
qed

lemma literal_line: "field ob k = Some (JLit w) \<Longrightarrow> list_all quotable w \<Longrightarrow> line_bytes ob k \<le> length k + length w + 5"
  using quote_hex [of 0 "[]" w] by (simp add: line_bytes_def hex_exact_def)

lemma integer_line: "field ob k = Some (JInt i) \<Longrightarrow> 0 \<le> i \<Longrightarrow> i \<le> max_safe \<Longrightarrow> line_bytes ob k \<le> length k + 19"
  using byte_length_int [of i 16] by (simp add: line_bytes_def max_safe_def)

lemma text_line: "str_test (\<lambda>s. byte_length s \<le> n) (field ob k) \<Longrightarrow> line_bytes ob k \<le> length k + 5 + 6 * n"
proof -
  assume "str_test (\<lambda>s. byte_length s \<le> n) (field ob k)"
  then obtain s where s: "field ob k = Some (JStr s)" "byte_length s \<le> n" by (auto simp: str_test_iff)
  thus ?thesis using quote_form [of s] length_bytes [of s] by (simp add: line_bytes_def)
qed

text \<open>The limit of the snapshot leaves room for every event.\<close>

lemma ordered_event_size:
  assumes "event_in_order ks ev"
  shows "byte_length (stringify (JObj ev)) \<le> CHAT_SNAPSHOT_BYTES"
proof -
  have s: "eventSchema ev" "in_schema_order ks ev = ev" and ks: "set ks = set event_keys" "distinct ks"
    using assms by (simp_all add: event_in_order_def)
  have i: "line_bytes ev k \<le> length k + 1541"
    if "k \<in> {''stream_id'', ''node_id'', ''conversation_id'', ''request_message_id'', ''requester_id'', ''error_code''}" for k
  proof (cases "field ev k")
    case None
    thus ?thesis by (simp add: line_bytes_def)
  next
    case (Some v)
    hence "chat_identifier (field ev k)"
      using that s(1) by (auto simp: eventSchema_def chat_stream_base_def chat_conversation_def absent_or_def)
    thus ?thesis by (rule identifier_line)
  qed
  have m: "line_bytes ev ''msg_type'' \<le> 24"
    using s(1) literal_line [of ev "''msg_type''" "''chat_stream''"] by (simp add: eventSchema_def is_lit_def quotable_def)
  have st: "line_bytes ev ''status'' \<le> 21"
    using s(1) literal_line [of ev "''status''"] by (auto simp: eventSchema_def one_of_def quotable_def)
  have n: "line_bytes ev ''protocol_version'' \<le> 35" "line_bytes ev ''conversation_type'' \<le> 36" "line_bytes ev ''seq'' \<le> 22"
    using s(1) integer_line [of ev "''protocol_version''" 1] integer_line [of ev "''conversation_type''"]
      integer_line [of ev "''seq''"]
    by (auto simp: eventSchema_def chat_stream_base_def chat_conversation_def integer_cases max_safe_def)
  have x: "line_bytes ev ''text'' \<le> 9 + 6 * (1024 * 1024)"
    using s(1) text_line [of "1024 * 1024" ev "''text''"] by (simp add: eventSchema_def)
  have "byte_length (stringify (JObj (in_schema_order ks ev))) \<le> sum_list (map (line_bytes ev) ks) + length ks + 2"
  proof (rule object_lines)
    show "\<forall>k \<in> set ks. list_all quotable k" unfolding ks by (simp add: event_keys_def quotable_def)
    show "\<forall>k \<in> set ks. \<forall>v. field ev k = Some v \<longrightarrow> well_formed (stringify v)"
    proof (intro ballI allI impI)
      fix k v assume "k \<in> set ks" "field ev k = Some v"
      from event_values [OF s(1) this [unfolded ks]] have "wf_json NDbl v" by auto
      thus "well_formed (stringify v)" by (rule well_formed_stringify)
    qed
  qed
  also have "sum_list (map (line_bytes ev) ks) + length ks + 2 = sum_list (map (line_bytes ev) event_keys) + length event_keys + 2"
    using ks event_keys_distinct by (simp add: sum_list_distinct_conv_sum_set flip: distinct_card)
  also have "sum_list (map (line_bytes ev) event_keys) + length event_keys + 2 \<le> CHAT_SNAPSHOT_BYTES"
    using i [of "''stream_id''"] i [of "''node_id''"] i [of "''conversation_id''"] i [of "''request_message_id''"]
      i [of "''requester_id''"] i [of "''error_code''"] m st n x
    by (simp add: event_keys_def CHAT_SNAPSHOT_BYTES_def)
  finally show ?thesis by (simp only: s(2))
qed

lemmas event_size = ordered_event_size [OF chat_event_in_order]


subsection \<open>Frames of an event\<close>

lemma event_sendable: "chat_event ev \<Longrightarrow> sendable cv ev"
  using event_wf event_version event_size [of ev]
  by (simp add: sendable_def whole_of_def byte_length_def MAX_DISCUSSION_MESSAGE_BYTES_def CHAT_SNAPSHOT_BYTES_def
      del: wf_json.simps stringify.simps)

lemma event_wire_ready: "chat_event ev \<Longrightarrow> wire_ready default_wire_config ev"
proof -
  assume e: "chat_event ev"
  have l: "length (whole_of ev) \<le> 6307840"
    using event_size [OF e] by (simp add: whole_of_def byte_length_def CHAT_SNAPSHOT_BYTES_def)
  hence "chunk_count (whole_of ev) \<le> MAX_DISCUSSION_CHUNKS"
    by (intro chunk_count_bounds(1)) (simp add: MAX_DISCUSSION_MESSAGE_BYTES_def)
  with l show ?thesis
    by (simp add: wire_ready_def default_wire_config_def DEFAULT_WIRE_TTL_MS_def MAX_DISCUSSION_MESSAGE_BYTES_def
        MAX_INFLIGHT_MESSAGES_def MAX_INFLIGHT_BYTES_def MAX_COMPLETED_def)
qed

lemma set_first: "set_msg_type t ((js ''msg_type'', v) # r) = (js ''msg_type'', JLit t) # r" if "js ''msg_type'' \<notin> fst ` set r"
proof -
  have "map (\<lambda>(k, w). if k = js ''msg_type'' then (k, JLit t) else (k, w)) r = r"
    by (rule map_idI) (use that in force)
  thus ?thesis by (simp add: set_msg_type_def spread_def obj_set_def)
qed

lemma keys_first: "distinct (map fst ob) \<Longrightarrow> ob = (js ''msg_type'', v) # r \<Longrightarrow> set_msg_type t ob = (js ''msg_type'', JLit t) # r"
  using set_first by simp

lemma event_first: "chat_event ev \<Longrightarrow> \<exists>r. ev = (js ''msg_type'', JLit ''chat_stream'') # r"
proof -
  assume e: "chat_event ev"
  have "in_schema_order event_keys ev = copied ''msg_type'' (field ev ''msg_type'') @ in_schema_order (tl event_keys) ev"
    by (simp add: in_schema_order_def event_keys_def)
  moreover have "in_schema_order event_keys ev = ev" "field ev ''msg_type'' = Some (JLit ''chat_stream'')"
    using e by (simp_all add: chat_event_def eventSchema_def is_lit_def)
  ultimately have "ev = (js ''msg_type'', JLit ''chat_stream'') # in_schema_order (tl event_keys) ev"
    by (simp add: copied_def)
  thus ?thesis by blast
qed

text \<open>The single frame of a small event is the event.\<close>

lemma small_frame: "chat_event ev \<Longrightarrow> chat_frame cv (stringify (JObj ev)) = Inr (''chat_stream'', ev)"
proof -
  assume e: "chat_event ev"
  obtain r where r: "ev = (js ''msg_type'', JLit ''chat_stream'') # r" using event_first [OF e] by blast
  have "distinct (map fst ev)" using e keys_in_schema_order [OF event_keys_distinct, of ev] by (simp add: chat_event_def)
  hence "set_msg_type ''chat_stream'' ev = ev" using keys_first [OF _ r] r by simp
  moreover have "is_lit (field ev ''msg_type'') ''chat_stream''" using e by (simp add: chat_event_def eventSchema_def)
  ultimately show ?thesis using event_parses_back [OF e, of cv] by (simp add: chat_frame_def is_lit_def del: stringify.simps)
qed

definition chunk_frame :: "(bytes \<Rightarrow> bytes) \<Rightarrow> jobj \<Rightarrow> nat \<Rightarrow> jobj" where
  "chunk_frame sha ev i = (js ''msg_type'', JLit ''chat_stream_chunk'') # tl (message_frame sha ev (whole_of ev) i)"

lemma frame_split: "message_frame sha ev w i = (js ''msg_type'', JLit ''discussion_wire_chunk'') # tl (message_frame sha ev w i)"
  by (simp add: message_frame_def wire_frame_def)

lemma frame_tail: "js ''msg_type'' \<notin> fst ` set (tl (message_frame sha ev w i))"
  by (auto simp: message_frame_def wire_frame_def split: option.splits)

lemma frame_types:
  "set_msg_type ''chat_stream_chunk'' (message_frame sha ev (whole_of ev) i) = chunk_frame sha ev i"
  "set_msg_type ''discussion_wire_chunk'' (chunk_frame sha ev i) = message_frame sha ev (whole_of ev) i"
  using set_first [OF frame_tail] frame_split by (simp_all add: chunk_frame_def) metis+

lemma join_comma_first: "r \<noteq> [] \<Longrightarrow> join_comma (x # r) = x @ 44 # join_comma r"
  by (cases r) simp_all

text \<open>The type in the frame got shorter, so the frame still fits.\<close>

lemma retyped_size:
  assumes "well_formed (prop_line (js k, JLit a))" "byte_length (prop_line (js k, JLit b)) \<le> byte_length (prop_line (js k, JLit a))"
    "well_formed (prop_line (js k, JLit b))" "\<forall>p \<in> set r. well_formed (prop_line p)" "r \<noteq> []"
  shows "byte_length (stringify (JObj ((js k, JLit b) # r))) \<le> byte_length (stringify (JObj ((js k, JLit a) # r)))"
proof -
  let ?r = "44 # join_comma (map prop_line r) @ [125]"
  have w: "well_formed ?r"
    using join_comma_form [of "map prop_line r"] assms(4) well_formed_append [of "join_comma (map prop_line r)" "[125]"]
      well_formed_unit [of 125] well_formed_Cons [of 44] by auto
  have s: "stringify (JObj ((js k, JLit x) # r)) = [123] @ prop_line (js k, JLit x) @ ?r" for x
    using assms(5) by (simp add: stringify_obj join_comma_first del: stringify.simps)
  have u: "well_formed [123 :: code_unit]" using well_formed_unit [of 123] by simp
  show ?thesis unfolding s byte_length_append [OF u] byte_length_append [OF assms(1)] byte_length_append [OF assms(3)]
    using assms(2) by simp
qed

lemma chunk_frame_facts:
  assumes e: "chat_event ev" and sh: "\<forall>x. length (sha x) = 32" and i: "i < chunk_count (whole_of ev)"
  shows "chat_frame cv (stringify (JObj (message_frame sha ev (whole_of ev) i))) = Inr (''chat_stream_chunk'', chunk_frame sha ev i)"
    and "byte_length (stringify (JObj (chunk_frame sha ev i))) \<le> 9000"
    and "wf_json cv (JObj (message_frame sha ev (whole_of ev) i))"
    and "byte_length (stringify (JObj (message_frame sha ev (whole_of ev) i))) \<le> WIRE_FRAME_BYTE_LIMIT"
proof -
  let ?fr = "message_frame sha ev (whole_of ev) i"
  have v: "payload_version ev \<in> {JInt 2, JInt 3}" and l: "length (whole_of ev) \<le> MAX_DISCUSSION_MESSAGE_BYTES"
    using event_sendable [OF e, of NDbl] by (simp_all add: sendable_def)
  have n: "i < 10000" "chunk_count (whole_of ev) < 10000" using chunk_count_bounds(2) [OF l] i by linarith+
  show wf: "wf_json cv (JObj ?fr)" for cv unfolding message_frame_def by (rule frame_wf [OF v n])
  show size: "byte_length (stringify (JObj ?fr)) \<le> WIRE_FRAME_BYTE_LIMIT" using message_frame_size [OF v _ l i] sh by blast
  have "is_lit (field ?fr ''msg_type'') ''discussion_wire_chunk''" unfolding message_frame_def frame_fields by (simp add: is_lit_def)
  thus "chat_frame cv (stringify (JObj ?fr)) = Inr (''chat_stream_chunk'', chunk_frame sha ev i)"
    using parse_stringify [OF wf] by (simp add: chat_frame_def frame_types del: stringify.simps)
  have lines: "\<forall>p \<in> set ?fr. well_formed (prop_line p)"
  proof
    fix p assume p: "p \<in> set ?fr"
    obtain k v where kv: "p = (k, v)" by force
    have "wf_json NDbl v" using wf [of NDbl] p kv by auto
    hence "well_formed (58 # stringify v)" using well_formed_stringify well_formed_Cons [of 58] by simp
    thus "well_formed (prop_line p)" using quote_form [of k] well_formed_append by (simp add: prop_line_def kv)
  qed
  have tp: "well_formed (prop_line (js ''msg_type'', JLit t)) \<and> byte_length (prop_line (js ''msg_type'', JLit t)) = length t + 13"
    if "list_all quotable t" for t
  proof -
    have q: "byte_length (quote (js s)) = length s + 2" if "list_all quotable s" for s
      using quote_hex [of 0 "[]" s] that by (simp add: hex_exact_def)
    have w: "well_formed (58 # quote (js t))" "byte_length (58 # quote (js t)) = 1 + byte_length (quote (js t))"
      using quote_form [of "js t"] well_formed_Cons [of 58 "quote (js t)"] by simp_all
    thus ?thesis using quote_form [of "js ''msg_type''"] byte_length_append [of "quote (js ''msg_type'')" "58 # quote (js t)"]
        well_formed_append [of "quote (js ''msg_type'')" "58 # quote (js t)"] q [OF that] q [of "''msg_type''"]
      by (simp add: prop_line_def quotable_def)
  qed
  have "byte_length (stringify (JObj (chunk_frame sha ev i))) \<le> byte_length (stringify (JObj ((js ''msg_type'', JLit ''discussion_wire_chunk'') # tl ?fr)))"
    unfolding chunk_frame_def
  proof (rule retyped_size)
    show "\<forall>p \<in> set (tl ?fr). well_formed (prop_line p)" using lines by (metis list.set_sel(2) list.sel(2))
    show "tl ?fr \<noteq> []" by (simp add: message_frame_def wire_frame_def)
  qed (use tp [of "''discussion_wire_chunk''"] tp [of "''chat_stream_chunk''"] in \<open>simp_all add: quotable_def\<close>)
  also have "(js ''msg_type'', JLit ''discussion_wire_chunk'') # tl ?fr = ?fr" by (rule frame_split [symmetric])
  finally show "byte_length (stringify (JObj (chunk_frame sha ev i))) \<le> 9000" using size by (simp add: WIRE_FRAME_BYTE_LIMIT_def)
qed

lemma chunk_frame_valid:
  assumes e: "chat_event ev" and sh: "\<forall>x. length (sha x) = 32" and i: "i < chunk_count (whole_of ev)"
    and n: "2 \<le> chunk_count (whole_of ev)"
  shows "validChatStreamFrame sha cv now (chunk_frame sha ev i)"
proof -
  let ?fr = "message_frame sha ev (whole_of ev) i"
  note f = chunk_frame_facts [OF e sh i]
  have wf: "is_wire_frame (JObj ?fr) = Some ?fr" unfolding message_frame_def is_wire_frame_def
    by (simp add: frame_fields)
  have "wire_accept sha cv default_wire_config now (js ''frame-validator'') (JObj ?fr) wire_start
     = acceptSerialized sha cv default_wire_config now (js ''frame-validator'') (stringify (JObj ?fr)) wire_start"
  proof -
    have d: "w_disposed wire_start = False" by (simp add: wire_start_def)
    have l: "(byte_length (stringify (JObj ?fr)) > WIRE_FRAME_BYTE_LIMIT) = False" using f(4) by (simp only: not_less simp_thms)
    have p: "json_parse cv (stringify (JObj ?fr)) = Some (JObj ?fr)" by (rule parse_stringify [OF f(3)])
    show ?thesis
      by (simp only: wire_accept_def acceptSerialized_def wf p d l if_False option.case json.case Let_def)
  qed
  moreover have "chunk_outcome sha (js ''frame-validator'') ev (now + DEFAULT_WIRE_TTL_MS) {} i
     (acceptSerialized sha cv default_wire_config now (js ''frame-validator'') (stringify (JObj ?fr)) wire_start)"
  proof (rule frame_step [OF receiving_start _ event_wire_ready [OF e] event_sendable [OF e] sh])
    show "{} \<subset> {..<chunk_count (whole_of ev)}" using i by auto
    show "bounded_string 128 (js ''frame-validator'')" by (intro bounded_plain) (simp_all add: plain_char_def)
    show "now < now + DEFAULT_WIRE_TTL_MS" by (simp add: DEFAULT_WIRE_TTL_MS_def)
    show "now + DEFAULT_WIRE_TTL_MS \<le> now + wc_ttlMs default_wire_config" by (simp add: default_wire_config_def)
    show "i < chunk_count (whole_of ev)" by (rule i)
  qed
  moreover have "insert i {} \<noteq> {..<chunk_count (whole_of ev)}"
  proof
    assume eq: "insert i {} = {..<chunk_count (whole_of ev)}"
    have "0 \<in> insert i {}" "1 \<in> insert i {}" unfolding eq using n by simp_all
    thus False by simp
  qed
  ultimately have a: "fst (wire_accept sha cv default_wire_config now (js ''frame-validator'') (JObj ?fr) wire_start) = Incomplete"
    by (simp only: chunk_outcome_def simp_thms if_False)
  have t: "is_lit (field (chunk_frame sha ev i) ''msg_type'') ''chat_stream_chunk''"
    by (simp add: chunk_frame_def is_lit_def)
  have l: "(byte_length (stringify (JObj (chunk_frame sha ev i))) > 9000) = False" using f(2) by (simp only: not_less simp_thms)
  show ?thesis
    by (simp only: validChatStreamFrame_def frame_types a t l simp_thms if_False wire_result.case)
qed

lemma all_results_map: "\<forall>x \<in> set xs. f x = Inr (g x) \<Longrightarrow> all_results (map f xs) = Inr (map g xs)"
  by (induction xs) simp_all

lemma event_frames:
  assumes "chat_event ev" "\<forall>x. length (sha x) = 32"
  shows "(length (whole_of ev) \<le> WIRE_FRAME_BYTE_LIMIT \<and> encodeDiscussionWire sha ev = Inr [stringify (JObj ev)]) \<or>
    (2 \<le> chunk_count (whole_of ev) \<and> encodeDiscussionWire sha ev
       = Inr (map (\<lambda>i. stringify (JObj (message_frame sha ev (whole_of ev) i))) [0..<chunk_count (whole_of ev)]))"
proof (cases "WIRE_FRAME_BYTE_LIMIT < length (whole_of ev)")
  case True
  hence "2 \<le> chunk_count (whole_of ev)"
    using chunk_count_covers [of "whole_of ev"] by (simp add: WIRE_FRAME_BYTE_LIMIT_def RAW_DISCUSSION_CHUNK_BYTES_def)
  with encode_frames [OF event_sendable [OF assms(1)] assms(2) True] show ?thesis by blast
next
  case False
  hence "encodeDiscussionWire sha ev = Inr [stringify (JObj ev)]"
    by (simp add: encodeDiscussionWire_def whole_of_def byte_length_def Let_def del: stringify.simps)
  with False show ?thesis by (simp del: stringify.simps)
qed

lemma ordered_event_snapshot:
  assumes "event_in_order ks ev"
  shows "parseChatStreamEvent (plain_value (JObj ev)) = Some (in_schema_order event_keys ev)"
proof -
  have v: "(\<exists>s. v = JStr s) \<or> (\<exists>i. v = JInt i \<and> \<bar>i\<bar> \<le> max_safe)" and k: "\<not> dangerous k" if kv: "(k, v) \<in> set ev" for k v
  proof -
    obtain x where x: "x \<in> set event_keys" "k = js x" "field ev x = Some v" using event_field [OF assms kv] by blast
    show "(\<exists>s. v = JStr s) \<or> (\<exists>i. v = JInt i \<and> \<bar>i\<bar> \<le> max_safe)"
      using event_values [OF _ x(1,3)] assms by (simp add: event_in_order_def)
    show "\<not> dangerous k" using x(1,2) by (auto simp: event_keys_def dangerous_def dangerousObjectKeys_def)
  qed
  have "safe_json (JObj ev) MAX_PASSIVE_JSON_DEPTH"
    using v k by (force simp: MAX_PASSIVE_JSON_DEPTH_def)
  moreover have "item_count (JObj ev) \<le> MAX_PASSIVE_JSON_ITEMS"
  proof -
    have "distinct (map fst ev)" "fst ` set ev \<subseteq> set (map js event_keys)"
      using event_keys_once [OF assms] event_field [OF assms] by (simp, fastforce)
    hence "length ev \<le> length (map js event_keys)"
      by (metis card_length card_mono distinct_card finite_set length_map list.set_map order.trans)
    hence "length ev \<le> 12" by (simp add: event_keys_def)
    moreover have "item_count v = 0" if "(k, v) \<in> set ev" for k v using v [OF that] by auto
    hence "sum_list (map (\<lambda>(k, v). item_count v) ev) = 0" by (auto simp only: sum_list_eq_0_iff set_map split: prod.splits)
    ultimately show ?thesis unfolding object_counts by (simp add: MAX_PASSIVE_JSON_ITEMS_def del: sum_list_eq_0_iff)
  qed
  ultimately have "passiveSnapshot (plain_value (JObj ev)) CHAT_SNAPSHOT_BYTES = Inr (JObj ev, byte_length (stringify (JObj ev)))"
    by (rule snapshot_embed [OF ordered_event_wf [OF assms] _ _ ordered_event_size [OF assms]])
  thus ?thesis using assms
    by (simp add: parseChatStreamEvent_def chat_parse_def event_in_order_def del: plain_value.simps stringify.simps)
qed

lemma event_snapshot: "chat_event ev \<Longrightarrow> parseChatStreamEvent (plain_value (JObj ev)) = Some ev"
  using ordered_event_snapshot [OF chat_event_in_order] by (simp add: chat_event_def)

definition wire_text :: "string \<times> jobj \<Rightarrow> jstr" where
  "wire_text f = stringify (JObj (if fst f = ''chat_stream_chunk'' then set_msg_type ''discussion_wire_chunk'' (snd f) else snd f))"

lemma encoded_event:
  assumes "parseChatStreamEvent event = Some ev" "\<forall>x. length (sha x) = 32"
  shows "encodeChatStreamEvent sha cv event = Inr [(''chat_stream'', ev)] \<and> encodeDiscussionWire sha ev = Inr [stringify (JObj ev)]
       \<and> byte_length (stringify (JObj ev)) \<le> 9000 \<or>
     2 \<le> chunk_count (whole_of ev)
       \<and> encodeChatStreamEvent sha cv event = Inr (map (\<lambda>i. (''chat_stream_chunk'', chunk_frame sha ev i)) [0..<chunk_count (whole_of ev)])
       \<and> encodeDiscussionWire sha ev = Inr (map (\<lambda>i. stringify (JObj (message_frame sha ev (whole_of ev) i))) [0..<chunk_count (whole_of ev)])"
proof -
  have e: "chat_event ev" by (rule parsed_event [OF assms(1)])
  from event_frames [OF e assms(2)] show ?thesis
  proof (elim disjE conjE)
    assume w: "encodeDiscussionWire sha ev = Inr [stringify (JObj ev)]" and l: "length (whole_of ev) \<le> WIRE_FRAME_BYTE_LIMIT"
    have "encodeChatStreamEvent sha cv event = Inr [(''chat_stream'', ev)]"
      unfolding encodeChatStreamEvent_def assms(1) option.case w sum.case list.map small_frame [OF e] by simp
    moreover have "byte_length (stringify (JObj ev)) \<le> 9000" using l by (simp add: whole_of_def byte_length_def WIRE_FRAME_BYTE_LIMIT_def)
    ultimately show ?thesis using w by blast
  next
    let ?is = "[0..<chunk_count (whole_of ev)]" and ?f = "\<lambda>i. stringify (JObj (message_frame sha ev (whole_of ev) i))"
    let ?g = "\<lambda>i. (''chat_stream_chunk'', chunk_frame sha ev i)"
    assume n: "2 \<le> chunk_count (whole_of ev)" and w: "encodeDiscussionWire sha ev = Inr (map ?f ?is)"
    have "all_results (map (chat_frame cv \<circ> ?f) ?is) = Inr (map ?g ?is)"
      by (rule all_results_map) (simp add: chunk_frame_facts(1) [OF e assms(2)] del: stringify.simps)
    hence "encodeChatStreamEvent sha cv event = Inr (map ?g ?is)"
      unfolding encodeChatStreamEvent_def assms(1) option.case w sum.case map_map .
    with n w show ?thesis by blast
  qed
qed

text \<open>C21 A reply that the agent streams is always sent in frames the messaging service takes: the event
  itself, or at least two chunks, each of them within 9000 bytes and accepted by the check of a single
  frame at any clock reading.  With the type the wire uses put back, the frames are exactly those of the
  discussion wire, whose reassembly is proved to return the event, and the event that arrives is parsed
  to the one that was sent.\<close>

theorem chat_event_is_sent_in_valid_frames:
  assumes "parseChatStreamEvent event = Some ev" "\<forall>x. length (sha x) = 32"
  shows "\<exists>frames. encodeChatStreamEvent sha cv event = Inr frames
    \<and> (frames = [(''chat_stream'', ev)] \<or> 2 \<le> length frames \<and>
        (\<forall>f \<in> set frames. fst f = ''chat_stream_chunk'' \<and> byte_length (stringify (JObj (snd f))) \<le> 9000
           \<and> (\<forall>now. validChatStreamFrame sha cv now (snd f))))
    \<and> encodeDiscussionWire sha ev = Inr (map wire_text frames)
    \<and> parseChatStreamEvent (plain_value (JObj ev)) = Some ev"
proof -
  have e: "chat_event ev" by (rule parsed_event [OF assms(1)])
  from encoded_event [OF assms, of cv] show ?thesis
  proof (elim disjE conjE)
    assume "encodeChatStreamEvent sha cv event = Inr [(''chat_stream'', ev)]"
      "encodeDiscussionWire sha ev = Inr [stringify (JObj ev)]"
    thus ?thesis using event_snapshot [OF e]
      by (intro exI [of _ "[(''chat_stream'', ev)]"]) (simp add: wire_text_def del: stringify.simps plain_value.simps)
  next
    let ?is = "[0..<chunk_count (whole_of ev)]" and ?f = "\<lambda>i. stringify (JObj (message_frame sha ev (whole_of ev) i))"
    let ?g = "\<lambda>i. (''chat_stream_chunk'', chunk_frame sha ev i)"
    assume n: "2 \<le> chunk_count (whole_of ev)" and "encodeChatStreamEvent sha cv event = Inr (map ?g ?is)"
      and w: "encodeDiscussionWire sha ev = Inr (map ?f ?is)"
    moreover have "map wire_text (map ?g ?is) = map ?f ?is"
      by (simp add: wire_text_def frame_types del: stringify.simps)
    moreover have "\<forall>f \<in> set (map ?g ?is). fst f = ''chat_stream_chunk'' \<and> byte_length (stringify (JObj (snd f))) \<le> 9000
           \<and> (\<forall>now. validChatStreamFrame sha cv now (snd f))"
      using chunk_frame_facts(2) [OF e assms(2)] chunk_frame_valid [OF e assms(2) _ n] by (simp del: stringify.simps)
    ultimately show ?thesis using event_snapshot [OF e]
      by (intro exI [of _ "map ?g ?is"] conjI disjI2) (assumption | simp only: length_map length_upt diff_zero)+
  qed
qed

definition stream_sample :: jobj where
  "stream_sample = [(js ''msg_type'', JLit ''chat_stream''), (js ''protocol_version'', JInt 1), (js ''stream_id'', JLit ''s1''),
     (js ''node_id'', JLit ''n1''), (js ''conversation_type'', JInt 1), (js ''conversation_id'', JLit ''c1''),
     (js ''request_message_id'', JLit ''m1''), (js ''requester_id'', JLit ''u1''), (js ''seq'', JInt 0),
     (js ''status'', JLit ''streaming''), (js ''text'', JStr (replicate 9000 97))]"

lemma chat_identifier_plain:
  "s \<noteq> [] \<Longrightarrow> length s \<le> 256 \<Longrightarrow> list_all plain_char s \<Longrightarrow> chat_identifier (Some (JLit s))"
  using identifier_plain [of s 256] by (simp add: chat_identifier_def str_test_iff identifier_ok_def)

lemma stream_sample: "chat_event stream_sample"
proof -
  have "byte_length (replicate 9000 (97 :: code_unit)) = 9000"
    using well_formed_ascii [of "replicate 9000 (97 :: code_unit)"] by simp
  hence "eventSchema stream_sample"
    by (simp add: eventSchema_def chat_stream_base_def chat_conversation_def stream_sample_def event_keys_def is_lit_def
        chat_identifier_plain plain_char_def integer_cases max_safe_def one_of_def str_test_iff absent_or_def)
  moreover have "in_schema_order event_keys stream_sample = stream_sample"
    by (simp add: in_schema_order_def event_keys_def stream_sample_def copied_def)
  ultimately show ?thesis by (simp add: chat_event_def)
qed

lemma chat_event_is_sent_in_valid_frames_witness:
  "\<exists>frames. encodeChatStreamEvent sha_demo (\<lambda>_. NInt 0) (plain_value (JObj stream_sample)) = Inr frames
    \<and> encodeDiscussionWire sha_demo stream_sample = Inr (map wire_text frames)"
  using chat_event_is_sent_in_valid_frames [OF event_snapshot [OF stream_sample], of sha_demo "\<lambda>_. NInt 0"] length_sha_demo
  by blast

end
