(* ===== verification/ObjOrder.thy ===== *)
theory ObjOrder imports PassiveProofs begin

text \<open>
  The order of the properties of an object: the keys that are array indices first, by their value, the
  others in the order they were added.  Building an object from the properties of one keeps the order,
  so an object is a fixed point of copying.
\<close>

text \<open>A digit list without a leading zero is determined by its value.\<close>

lemma digit_of_nat: "is_digit u \<Longrightarrow> of_nat (48 + (unat u - 48)) = u"
  by (simp add: is_digit_def)

lemma digits_canonical:
  "k \<noteq> [] \<Longrightarrow> list_all is_digit k \<Longrightarrow> length k = 1 \<or> hd k \<noteq> 48 \<Longrightarrow> nat_digits (digits_value k 0) = k"
proof (induction k rule: rev_induct)
  case (snoc u k)
  have u: "unat u - 48 < 10" "of_nat (48 + (unat u - 48)) = u" using snoc.prems(2) digit_of_nat by (auto simp: is_digit_def)
  show ?case
  proof (cases "k = []")
    case True
    thus ?thesis using u by (simp add: nat_digits.simps)
  next
    case False
    have "hd k \<noteq> 48" using snoc.prems(3) False by simp
    moreover have "list_all is_digit k" using snoc.prems(2) by simp
    ultimately have n: "nat_digits (digits_value k 0) = k" using snoc.IH False by blast
    have "digits_value k 0 \<noteq> 0"
    proof
      assume z: "digits_value k 0 = 0"
      moreover have "nat_digits 0 = [48]" by (simp add: nat_digits.simps)
      ultimately have "k = [48]" using n by metis
      thus False using \<open>hd k \<noteq> 48\<close> by simp
    qed
    moreover have "digits_value (k @ [u]) 0 = digits_value k 0 * 10 + (unat u - 48)" by (simp add: digits_value_append)
    ultimately show ?thesis using n u by (simp add: nat_digits.simps [of "digits_value k 0 * 10 + (unat u - 48)"])
  qed
qed simp

lemma index_inj: "is_index a \<Longrightarrow> is_index b \<Longrightarrow> digits_value a 0 = digits_value b 0 \<Longrightarrow> a = b"
  unfolding is_index_def using digits_canonical [of a] digits_canonical [of b] by metis

definition key_before :: "jstr \<Rightarrow> jstr \<Rightarrow> bool" where
  "key_before a b \<longleftrightarrow> (is_index b \<longrightarrow> is_index a \<and> digits_value a 0 < digits_value b 0)"

definition ordered_keys :: "jstr list \<Rightarrow> bool" where
  "ordered_keys ks \<longleftrightarrow> distinct ks \<and> sorted_wrt key_before ks"

abbreviation ordered :: "jobj \<Rightarrow> bool" where
  "ordered ob \<equiv> ordered_keys (map fst ob)"

lemma insert_last: "\<forall>a \<in> fst ` set ob. is_index a \<and> digits_value a 0 < digits_value k 0 \<Longrightarrow> insert_index k v ob = ob @ [(k, v)]"
  by (induction ob) auto

lemma keys_insert_index: "fst ` set (insert_index k v ob) = insert k (fst ` set ob)"
  by (induction k v ob rule: insert_index.induct) auto

lemma ordered_insert:
  "ordered ob \<Longrightarrow> k \<notin> fst ` set ob \<Longrightarrow> is_index k \<Longrightarrow> ordered (insert_index k v ob)"
proof (induction ob)
  case (Cons p ob)
  obtain a w where p: "p = (a, w)" by force
  show ?case
  proof (cases "is_index a \<and> digits_value a 0 < digits_value k 0")
    case True
    have "ordered (insert_index k v ob)" using Cons p by (simp add: ordered_keys_def)
    moreover have "\<forall>b \<in> fst ` set (insert_index k v ob). key_before a b" "a \<notin> fst ` set (insert_index k v ob)"
      using Cons.prems True p unfolding keys_insert_index by (auto simp: ordered_keys_def key_before_def)
    ultimately show ?thesis using True p by (simp add: ordered_keys_def)
  next
    case False
    have "digits_value a 0 \<noteq> digits_value k 0" if "is_index a" using index_inj [OF that Cons.prems(3)] Cons.prems(2) p by auto
    hence "key_before k a" using False Cons.prems(3) by (auto simp: key_before_def)
    moreover have "key_before k b" if "b \<in> fst ` set ob" for b
    proof -
      have "key_before a b" using Cons.prems(1) p that by (auto simp: ordered_keys_def)
      thus ?thesis using \<open>key_before k a\<close> Cons.prems(3) by (auto simp: key_before_def)
    qed
    ultimately show ?thesis using Cons.prems p False by (auto simp: ordered_keys_def)
  qed
qed (simp add: ordered_keys_def)

lemma ordered_obj_set: "ordered ob \<Longrightarrow> ordered (obj_set ob k v)"
proof -
  assume o: "ordered ob"
  show ?thesis
  proof (cases "map_of ob k")
    case None
    hence k: "k \<notin> fst ` set ob" by (simp add: map_of_eq_None_iff)
    show ?thesis
    proof (cases "is_index k")
      case True
      thus ?thesis using ordered_insert [OF o k] None by (simp add: obj_set_def)
    next
      case False
      thus ?thesis using o k None by (auto simp: obj_set_def ordered_keys_def sorted_wrt_append key_before_def)
    qed
  next
    case (Some w)
    have "map fst (map (\<lambda>(k', v'). if k' = k then (k', v) else (k', v')) ob) = map fst ob" by (induction ob) auto
    hence "ordered (map (\<lambda>(k', v'). if k' = k then (k', v) else (k', v')) ob)" using o by (simp only:)
    thus ?thesis using Some by (simp add: obj_set_def)
  qed
qed

lemma ordered_fold: "ordered ob \<Longrightarrow> ordered (fold (\<lambda>(k, v) ob. obj_set ob k v) kvs ob)"
  by (induction kvs arbitrary: ob) (auto simp: ordered_obj_set)

lemma ordered_build: "ordered (build_obj kvs)"
  unfolding build_obj_def by (rule ordered_fold) (simp add: ordered_keys_def)

lemma fold_ordered: "ordered (ob @ kvs) \<Longrightarrow> fold (\<lambda>(k, v) ob. obj_set ob k v) kvs ob = ob @ kvs"
proof (induction kvs arbitrary: ob)
  case (Cons p kvs)
  obtain k v where p: "p = (k, v)" by force
  have "k \<notin> fst ` set ob" using Cons.prems p by (auto simp: ordered_keys_def)
  moreover have "\<forall>a \<in> fst ` set ob. is_index a \<and> digits_value a 0 < digits_value k 0" if "is_index k"
    using Cons.prems p that by (auto simp: ordered_keys_def sorted_wrt_append key_before_def)
  ultimately have "obj_set ob k v = ob @ [(k, v)]" using insert_last [of ob k v] by (auto simp: obj_set_def map_of_eq_None_iff [symmetric])
  thus ?case using Cons.IH [of "ob @ [(k, v)]"] Cons.prems p by simp
qed simp

lemma build_ordered: "ordered ob \<Longrightarrow> build_obj ob = ob"
  unfolding build_obj_def using fold_ordered [of "[]" ob] by simp

lemma ordered_literal: "distinct ks \<Longrightarrow> \<forall>k \<in> set ks. \<not> is_index k \<Longrightarrow> ordered_keys ks"
proof -
  assume "distinct ks" "\<forall>k \<in> set ks. \<not> is_index k"
  moreover have "sorted_wrt key_before ks" if "\<forall>k \<in> set ks. \<not> is_index k"
    using that by (induction ks) (auto simp: key_before_def)
  ultimately show ?thesis by (simp add: ordered_keys_def)
qed

end
