(* ===== verification/Cards.thy ===== *)
theory Cards imports ObjOrder begin

text \<open>
  The validator of cards, \<^verbatim>\<open>cardkit/validate.ts\<close>: a foreign value is read through its property
  descriptors and a fresh card is built from what passes.  A reading is what \<open>read\<close> returns: the value,
  with \<open>undefined\<close> for a missing property, or \<open>None\<close> for the mark of an accessor.  The validator looks
  at most 14 levels deep (card, section, button, action and a payload of 9), so a cyclic value is given
  by unfolding it that far; an accessor counts as enumerable.  The parser of URLs is the parameter \<open>url\<close>.
\<close>

definition CARD_SCHEMA_VERSION :: string where
  "CARD_SCHEMA_VERSION = ''1.0.0''"

definition CARD_HARD_BYTE_LIMIT :: nat where
  "CARD_HARD_BYTE_LIMIT = 10 * 1024"

datatype card_error = InvalidCard string | CardTooLarge

record parsed_url =
  u_protocol :: jstr
  u_username :: jstr
  u_password :: jstr

type_synonym url_parser = "jstr \<Rightarrow> parsed_url option"
type_synonym reading = "jsval option"

definition colors :: "string list" where
  "colors = [''default'', ''blue'', ''green'', ''turquoise'', ''orange'', ''red'', ''grey'', ''purple'']"

definition buttonVariants :: "string list" where
  "buttonVariants = [''primary'', ''default'', ''danger'', ''success'', ''text'']"

definition buttonLayouts :: "string list" where
  "buttonLayouts = [''inline'', ''flow'', ''stack'']"

subsection \<open>Reading\<close>

fun plain_record :: "reading \<Rightarrow> bool" where
  "plain_record (Some (VObj plain props)) = plain"
| "plain_record _ = False"

fun slot_reading :: "slot option \<Rightarrow> reading" where
  "slot_reading (Some (Data e v)) = Some v"
| "slot_reading (Some Accessor) = None"
| "slot_reading _ = Some VUndefined"

fun read_key :: "reading \<Rightarrow> jstr \<Rightarrow> reading" where
  "read_key (Some (VObj plain props)) k = slot_reading (map_of props k)"
| "read_key _ k = Some VUndefined"

definition read_prop :: "reading \<Rightarrow> string \<Rightarrow> reading" where
  "read_prop v k = read_key v (js k)"

abbreviation undefined_reading :: "reading \<Rightarrow> bool" where
  "undefined_reading r \<equiv> r = Some VUndefined"

text \<open>A property that may be missing.\<close>

definition optional :: "(reading \<Rightarrow> bool) \<Rightarrow> reading \<Rightarrow> bool" where
  "optional P r \<longleftrightarrow> undefined_reading r \<or> P r"

definition text_controls_ok :: "jstr \<Rightarrow> bool" where
  "text_controls_ok s \<longleftrightarrow> list_all (\<lambda>p. (is_Cc p \<or> is_Cf p) \<longrightarrow> p = 9 \<or> p = 10 \<or> p = 13) (code_points s)"

definition allowed_string :: "nat \<Rightarrow> bool \<Rightarrow> jstr \<Rightarrow> bool" where
  "allowed_string mx allowEmpty s \<longleftrightarrow> length s \<le> mx \<and> (allowEmpty \<or> s \<noteq> []) \<and> text_controls_ok s"

fun string_reading :: "(jstr \<Rightarrow> bool) \<Rightarrow> reading \<Rightarrow> bool" where
  "string_reading P (Some (VStr s)) = P s"
| "string_reading P _ = False"

definition allowedText :: "nat \<Rightarrow> bool \<Rightarrow> reading \<Rightarrow> bool" where
  "allowedText mx allowEmpty r = string_reading (allowed_string mx allowEmpty) r"

definition card_identifier :: "nat \<Rightarrow> reading \<Rightarrow> bool" where
  "card_identifier mx r = string_reading (identifier_ok mx) r"

fun card_integer :: "int \<Rightarrow> reading \<Rightarrow> bool" where
  "card_integer minimum (Some (VNum (NInt i))) = (\<bar>i\<bar> \<le> max_safe \<and> minimum \<le> i)"
| "card_integer minimum _ = False"

fun safeBoolean :: "reading \<Rightarrow> bool" where
  "safeBoolean (Some (VBool b)) = True"
| "safeBoolean _ = False"

definition httpsUrl :: "url_parser \<Rightarrow> reading \<Rightarrow> bool" where
  "httpsUrl url r = string_reading (\<lambda>s. 1 \<le> length s \<and> length s \<le> 2048 \<and>
     (case url s of None \<Rightarrow> False
      | Some u \<Rightarrow> u_protocol u = js ''https:'' \<and> u_username u = [] \<and> u_password u = [])) r"

text \<open>\<open>r === 'w'\<close>, and membership in a set of words.\<close>

definition is_word :: "string \<Rightarrow> reading \<Rightarrow> bool" where
  "is_word w r \<longleftrightarrow> r = Some (VStr (js w))"

definition word_in :: "string list \<Rightarrow> reading \<Rightarrow> bool" where
  "word_in ws r \<longleftrightarrow> list_ex (\<lambda>w. is_word w r) ws"

subsection \<open>Arrays\<close>

fun is_data :: "slot \<Rightarrow> bool" where
  "is_data (Data e v) = True"
| "is_data _ = False"

fun plainArray :: "nat \<Rightarrow> reading \<Rightarrow> bool" where
  "plainArray maximum (Some (VArr xs extra)) = (length xs \<le> maximum \<and> list_all is_data xs)"
| "plainArray maximum _ = False"

fun elements :: "reading \<Rightarrow> reading list" where
  "elements (Some (VArr xs extra)) = map (\<lambda>x. slot_reading (Some x)) xs"
| "elements _ = []"

text \<open>\<open>mapPlain\<close> with a sanitizer, of which every result must be there.\<close>

definition sanitize_all :: "(reading \<Rightarrow> json option) \<Rightarrow> reading \<Rightarrow> json list option" where
  "sanitize_all f r = those (map f (elements r))"

text \<open>A scalar_value that was read, as a value of the card.\<close>

fun scalar_value :: "reading \<Rightarrow> json option" where
  "scalar_value (Some (VStr s)) = Some (JStr s)"
| "scalar_value (Some (VBool b)) = Some (JBool b)"
| "scalar_value (Some (VNum n)) = Some (JNum n)"
| "scalar_value _ = None"

text \<open>\<open>{key}\<close> of a checked scalar_value, and \<open>...(x === undefined ? {} : {key: x})\<close>.\<close>

definition put :: "string \<Rightarrow> reading \<Rightarrow> jobj" where
  "put k r = copied k (scalar_value r)"

text \<open>An object literal of a sanitizer, present when the checks pass.\<close>

definition made :: "bool \<Rightarrow> jobj \<Rightarrow> json option" where
  "made ok ob = (if ok then Some (JObj ob) else None)"

subsection \<open>Custom payloads\<close>

fun clone_payload :: "jsval \<Rightarrow> nat \<Rightarrow> nat \<Rightarrow> (json \<times> nat) option"
  and clone_payload_items :: "slot list \<Rightarrow> nat \<Rightarrow> nat \<Rightarrow> (json list \<times> nat) option"
  and clone_payload_props :: "(jstr \<times> slot) list \<Rightarrow> nat \<Rightarrow> nat \<Rightarrow> jobj \<Rightarrow> (jobj \<times> nat) option" where
  "clone_payload VNull keys d = Some (JNull, keys)"
| "clone_payload (VBool b) keys d = Some (JBool b, keys)"
| "clone_payload (VNum n) keys d = (if finite_number n then Some (JNum n, keys) else None)"
| "clone_payload (VStr s) keys d = (if allowed_string 4096 True s then Some (JStr s, keys) else None)"
| "clone_payload (VArr xs extra) keys d =
     (if 8 < d \<or> \<not> plainArray 64 (Some (VArr xs extra)) then None
      else map_option (\<lambda>(ys, keys'). (JArr ys, keys')) (clone_payload_items xs keys (Suc d)))"
| "clone_payload (VObj plain props) keys d =
     (if 8 < d \<or> \<not> plain then None
      else map_option (\<lambda>(ob, keys'). (JObj ob, keys')) (clone_payload_props props keys (Suc d) []))"
| "clone_payload VUndefined keys d = None"
| "clone_payload VCallable keys d = None"
| "clone_payload VBigInt keys d = None"
| "clone_payload VProxy keys d = None"
| "clone_payload VAncestor keys d = None"
| "clone_payload_items [] keys d = Some ([], keys)"
| "clone_payload_items (Data e v # r) keys d =
     (case clone_payload v keys d of
        None \<Rightarrow> None
      | Some (y, keys') \<Rightarrow> map_option (\<lambda>(ys, keys''). (y # ys, keys'')) (clone_payload_items r keys' d))"
| "clone_payload_items (Accessor # r) keys d = None"
| "clone_payload_items (Hole # r) keys d = None"
| "clone_payload_props [] keys d acc = Some (acc, keys)"
| "clone_payload_props ((k, Data enumerable v) # r) keys d acc =
     (if \<not> enumerable \<or> dangerous k then clone_payload_props r keys d acc
      else if 64 < Suc keys \<or> \<not> identifier_ok 256 k then None
      else case clone_payload v (Suc keys) d of
        None \<Rightarrow> None
      | Some (y, keys') \<Rightarrow> clone_payload_props r keys' d (obj_set acc k y))"
| "clone_payload_props ((k, Accessor) # r) keys d acc =
     (if dangerous k then clone_payload_props r keys d acc else None)"
| "clone_payload_props ((k, Hole) # r) keys d acc = clone_payload_props r keys d acc"

fun sanitizeCustomPayload :: "reading \<Rightarrow> jobj option" where
  "sanitizeCustomPayload (Some v) =
     (if \<not> plain_record (Some v) then None
      else case clone_payload v 0 0 of
        Some (JObj cloned, keys) \<Rightarrow> if byte_length (stringify (JObj cloned)) \<le> 4096 then Some cloned else None
      | _ \<Rightarrow> None)"
| "sanitizeCustomPayload None = None"

subsection \<open>Actions and buttons\<close>

definition sanitizeAction :: "reading \<Rightarrow> json option" where
  "sanitizeAction v =
     (if \<not> plain_record v then None
      else let ty = read_prop v ''type'' in
      if is_word ''permission'' ty then
        (let permissionId = read_prop v ''permissionId''; reply = read_prop v ''reply''
         in made (card_identifier 128 permissionId \<and> word_in [''once'', ''always'', ''reject''] reply)
              (put ''type'' ty @ put ''permissionId'' permissionId @ put ''reply'' reply))
      else if is_word ''answer'' ty then
        (let questionId = read_prop v ''questionId''; selected = read_prop v ''value''
         in made (card_identifier 128 questionId \<and> plainArray 50 selected
                \<and> list_all (allowedText 1000 False) (elements selected))
              (put ''type'' ty @ put ''questionId'' questionId
                @ [(js ''value'', JArr (List.map_filter scalar_value (elements selected)))]))
      else if is_word ''command'' ty then
        (let name = read_prop v ''name'' in made (allowedText 256 False name) (put ''type'' ty @ put ''name'' name))
      else if is_word ''session'' ty then
        (let op = read_prop v ''op''; sessionId = read_prop v ''sessionId''
         in made (word_in [''switch'', ''delete''] op \<and> card_identifier 128 sessionId)
              (put ''type'' ty @ put ''op'' op @ put ''sessionId'' sessionId))
      else if is_word ''navigate'' ty then
        (let target = read_prop v ''target'' in made (card_identifier 256 target) (put ''type'' ty @ put ''target'' target))
      else if is_word ''custom'' ty then
        (let kind = read_prop v ''kind''
         in case sanitizeCustomPayload (read_prop v ''payload'') of
              None \<Rightarrow> None
            | Some payload \<Rightarrow> made (card_identifier 128 kind)
                (put ''type'' ty @ put ''kind'' kind @ [(js ''payload'', JObj payload)]))
      else made (is_word ''none'' ty) (put ''type'' ty))"

definition sanitizeButton :: "url_parser \<Rightarrow> reading \<Rightarrow> json option" where
  "sanitizeButton url v =
     (if \<not> plain_record v then None
      else let label = read_prop v ''label''
      in case sanitizeAction (read_prop v ''action'') of
        None \<Rightarrow> None
      | Some action \<Rightarrow>
          if \<not> allowedText 1000 False label then None
          else let bid = read_prop v ''id''; icon = read_prop v ''icon''; variant = read_prop v ''variant'';
                 disabled = read_prop v ''disabled''; link = read_prop v ''url''
          in made (optional (card_identifier 128) bid \<and> optional (allowedText 256 False) icon
                \<and> optional (word_in buttonVariants) variant \<and> optional safeBoolean disabled \<and> optional (httpsUrl url) link)
              (put ''label'' label @ [(js ''action'', action)] @ put ''id'' bid @ put ''icon'' icon
                @ put ''variant'' variant @ put ''disabled'' disabled @ put ''url'' link))"

definition stringItem :: "string list \<Rightarrow> reading \<Rightarrow> json option" where
  "stringItem names v =
     (if \<not> plain_record v then None
      else made (list_all (\<lambda>k. allowedText 4096 False (read_prop v k)) names)
             (concat (map (\<lambda>k. put k (read_prop v k)) names)))"

subsection \<open>Sections\<close>

definition markdown_section :: "reading \<Rightarrow> json option" where
  "markdown_section v = (let kind = read_prop v ''kind''; content = read_prop v ''content''; collapsed = read_prop v ''collapsed''
     in made (allowedText 20000 True content \<and> optional safeBoolean collapsed)
          (put ''kind'' kind @ put ''content'' content @ put ''collapsed'' collapsed))"

definition note_section :: "reading \<Rightarrow> json option" where
  "note_section v = (let kind = read_prop v ''kind''; t = read_prop v ''text''
     in made (allowedText 4096 True t) (put ''kind'' kind @ put ''text'' t))"

definition button_row_section :: "url_parser \<Rightarrow> reading \<Rightarrow> json option" where
  "button_row_section url v =
     (let kind = read_prop v ''kind''; buttons = read_prop v ''buttons''; layout = read_prop v ''layout''
      in if \<not> plainArray 10 buttons \<or> length (elements buttons) < 1 \<or> \<not> optional (word_in buttonLayouts) layout then None
         else case sanitize_all (sanitizeButton url) buttons of
           None \<Rightarrow> None
         | Some clean \<Rightarrow> Some (JObj (put ''kind'' kind @ [(js ''buttons'', JArr clean)] @ put ''layout'' layout)))"

definition key_value_item :: "reading \<Rightarrow> json option" where
  "key_value_item v =
     (if \<not> plain_record v then None
      else let label = read_prop v ''label''; item_value = read_prop v ''value''; icon = read_prop v ''icon''
      in made (allowedText 1000 False label \<and> allowedText 4096 True item_value \<and> optional (allowedText 256 False) icon)
           (put ''label'' label @ put ''value'' item_value @ put ''icon'' icon))"

definition key_value_section :: "reading \<Rightarrow> json option" where
  "key_value_section v =
     (let kind = read_prop v ''kind''; items = read_prop v ''items''
      in if \<not> plainArray 50 items then None
         else case sanitize_all key_value_item items of
           None \<Rightarrow> None
         | Some clean \<Rightarrow> Some (JObj (put ''kind'' kind @ [(js ''items'', JArr clean)])))"

definition select_section :: "reading \<Rightarrow> json option" where
  "select_section v =
     (let kind = read_prop v ''kind''; placeholder = read_prop v ''placeholder''; options = read_prop v ''options''
      in case sanitizeAction (read_prop v ''action'') of
        None \<Rightarrow> None
      | Some action \<Rightarrow>
          if \<not> allowedText 1000 False placeholder \<or> \<not> plainArray 50 options then None
          else case sanitize_all (stringItem [''label'', ''value'']) options of
            None \<Rightarrow> None
          | Some clean \<Rightarrow> Some (JObj (put ''kind'' kind @ put ''placeholder'' placeholder
              @ [(js ''options'', JArr clean), (js ''action'', action)])))"

definition input_section :: "url_parser \<Rightarrow> reading \<Rightarrow> json option" where
  "input_section url v =
     (let kind = read_prop v ''kind''; placeholder = read_prop v ''placeholder''; label = read_prop v ''label'';
        multiline = read_prop v ''multiline''; rawButton = read_prop v ''submitButton'';
        submitButton = (if undefined_reading rawButton then None else sanitizeButton url rawButton)
      in made (allowedText 1000 False placeholder \<and> optional (allowedText 1000 False) label
             \<and> optional safeBoolean multiline \<and> (undefined_reading rawButton \<or> submitButton \<noteq> None))
           (put ''kind'' kind @ put ''placeholder'' placeholder @ put ''label'' label @ put ''multiline'' multiline
             @ copied ''submitButton'' submitButton))"

definition image_section :: "url_parser \<Rightarrow> reading \<Rightarrow> json option" where
  "image_section url v =
     (let kind = read_prop v ''kind''; src = read_prop v ''src''; alt = read_prop v ''alt''; link = read_prop v ''url''
      in made (httpsUrl url src \<and> optional (allowedText 1000 True) alt \<and> optional (httpsUrl url) link)
           (put ''kind'' kind @ put ''src'' src @ put ''alt'' alt @ put ''url'' link))"

definition table_column :: "reading \<Rightarrow> json option" where
  "table_column v =
     (if \<not> plain_record v then None
      else let key = read_prop v ''key''; label = read_prop v ''label''; width = read_prop v ''width''
      in made (card_identifier 128 key \<and> allowedText 1000 False label \<and> optional (card_integer 1) width)
           (put ''key'' key @ put ''label'' label @ put ''width'' width))"

text \<open>\<open>output[key] = cell\<close>; assigning a text to \<open>__proto__\<close> does nothing.\<close>

definition assign_cell :: "jobj \<Rightarrow> jstr \<Rightarrow> jstr \<Rightarrow> jobj" where
  "assign_cell ob key cell = (if key = js ''__proto__'' then ob else obj_set ob key (JStr cell))"

fun row_cells :: "jstr list \<Rightarrow> reading \<Rightarrow> jobj \<Rightarrow> jobj option" where
  "row_cells [] row out = Some out"
| "row_cells (key # ks) row out =
     (case read_key row key of
        Some (VStr cell) \<Rightarrow>
          if allowed_string 4096 True cell then row_cells ks row (assign_cell out key cell) else None
      | Some VUndefined \<Rightarrow> row_cells ks row out
      | _ \<Rightarrow> None)"

definition table_row :: "jstr list \<Rightarrow> reading \<Rightarrow> json option" where
  "table_row ks v = (if \<not> plain_record v then None else map_option JObj (row_cells ks v []))"

definition column_key :: "json \<Rightarrow> jstr" where
  "column_key c = (case c of JObj ob \<Rightarrow> str_field ob ''key'' | _ \<Rightarrow> [])"

definition table_section :: "reading \<Rightarrow> json option" where
  "table_section v =
     (let kind = read_prop v ''kind''; columns = read_prop v ''columns''; rows = read_prop v ''rows''
      in if \<not> plainArray 16 columns \<or> length (elements columns) < 1 \<or> \<not> plainArray 10 rows then None
         else case sanitize_all table_column columns of
           None \<Rightarrow> None
         | Some cleanColumns \<Rightarrow>
             (case sanitize_all (table_row (map column_key cleanColumns)) rows of
                None \<Rightarrow> None
              | Some cleanRows \<Rightarrow> Some (JObj (put ''kind'' kind @ [(js ''columns'', JArr cleanColumns), (js ''rows'', JArr cleanRows)]))))"

definition permission_section :: "url_parser \<Rightarrow> reading \<Rightarrow> json option" where
  "permission_section url v =
     (let kind = read_prop v ''kind''; permissionId = read_prop v ''permissionId''; permission = read_prop v ''permission'';
        title = read_prop v ''title''; patterns = read_prop v ''patterns''; rawButtons = read_prop v ''buttons''
      in if \<not> card_identifier 128 permissionId \<or> \<not> card_identifier 256 permission \<or> \<not> allowedText 1000 False title
           \<or> \<not> plainArray 50 patterns \<or> \<not> list_all (allowedText 1000 True) (elements patterns)
           \<or> \<not> optional (plainArray 10) rawButtons then None
         else let ob = put ''kind'' kind @ put ''permissionId'' permissionId @ put ''permission'' permission @ put ''title'' title
                @ [(js ''patterns'', JArr (List.map_filter scalar_value (elements patterns)))]
         in if undefined_reading rawButtons then Some (JObj ob)
            else case sanitize_all (sanitizeButton url) rawButtons of
              None \<Rightarrow> None
            | Some buttons \<Rightarrow> Some (JObj (ob @ [(js ''buttons'', JArr buttons)])))"

definition question_option :: "reading \<Rightarrow> json option" where
  "question_option v =
     (if \<not> plain_record v then None
      else let label = read_prop v ''label''; description = read_prop v ''description''
      in made (allowedText 1000 False label \<and> optional (allowedText 2000 True) description)
           (put ''label'' label @ put ''description'' description))"

definition question_section :: "reading \<Rightarrow> json option" where
  "question_section v =
     (let kind = read_prop v ''kind''; questionId = read_prop v ''questionId''; header = read_prop v ''header'';
        question = read_prop v ''question''; options = read_prop v ''options''; multiple = read_prop v ''multiple'';
        custom = read_prop v ''custom''
      in if \<not> card_identifier 128 questionId \<or> \<not> allowedText 1000 False header \<or> \<not> allowedText 4096 False question
           \<or> \<not> plainArray 50 options \<or> \<not> optional safeBoolean multiple \<or> \<not> optional safeBoolean custom then None
         else case sanitize_all question_option options of
           None \<Rightarrow> None
         | Some clean \<Rightarrow> Some (JObj (put ''kind'' kind @ put ''questionId'' questionId @ put ''header'' header
             @ put ''question'' question @ [(js ''options'', JArr clean)] @ put ''multiple'' multiple @ put ''custom'' custom)))"

definition progress_tool :: "reading \<Rightarrow> json option" where
  "progress_tool v =
     (if \<not> plain_record v then None
      else let name = read_prop v ''name''; status = read_prop v ''status''; err = read_prop v ''error''
      in made (allowedText 1000 False name \<and> word_in [''running'', ''completed'', ''error''] status
             \<and> optional (allowedText 2000 True) err)
           (put ''name'' name @ put ''status'' status @ put ''error'' err))"

text \<open>An optional array of sanitized items: absent, or there with every item.\<close>

definition optional_items :: "(reading \<Rightarrow> json option) \<Rightarrow> reading \<Rightarrow> json option option" where
  "optional_items f r = (if undefined_reading r then Some None else map_option (\<lambda>xs. Some (JArr xs)) (sanitize_all f r))"

definition progress_section :: "reading \<Rightarrow> json option" where
  "progress_section v =
     (let kind = read_prop v ''kind''; rawTools = read_prop v ''tools''; thinking = read_prop v ''thinking'';
        elapsedMs = read_prop v ''elapsedMs''; finished = read_prop v ''done''
      in if \<not> optional (plainArray 50) rawTools \<or> \<not> optional (allowedText 10000 True) thinking
           \<or> \<not> optional (card_integer 0) elapsedMs \<or> \<not> optional safeBoolean finished then None
         else case optional_items progress_tool rawTools of
           None \<Rightarrow> None
         | Some tools \<Rightarrow> Some (JObj (put ''kind'' kind @ copied ''tools'' tools @ put ''thinking'' thinking
             @ put ''elapsedMs'' elapsedMs @ put ''done'' finished)))"

definition status_report_section :: "reading \<Rightarrow> json option" where
  "status_report_section v =
     (let kind = read_prop v ''kind''; branch = read_prop v ''branch''; commit = read_prop v ''commit''; rawFiles = read_prop v ''files''
      in if \<not> optional (allowedText 1000 True) branch \<or> \<not> optional (allowedText 256 True) commit
           \<or> \<not> optional (plainArray 50) rawFiles then None
         else case optional_items (stringItem [''path'', ''status'']) rawFiles of
           None \<Rightarrow> None
         | Some files \<Rightarrow> Some (JObj (put ''kind'' kind @ put ''branch'' branch @ put ''commit'' commit @ copied ''files'' files)))"

definition session_item :: "reading \<Rightarrow> json option" where
  "session_item v =
     (if \<not> plain_record v then None
      else let sid = read_prop v ''id''; title = read_prop v ''title''; updatedAt = read_prop v ''updatedAt''
      in made (card_identifier 128 sid \<and> allowedText 1000 False title \<and> optional (card_integer 0) updatedAt)
           (put ''id'' sid @ put ''title'' title @ put ''updatedAt'' updatedAt))"

definition session_list_section :: "reading \<Rightarrow> json option" where
  "session_list_section v =
     (let kind = read_prop v ''kind''; currentSessionId = read_prop v ''currentSessionId''; sessions = read_prop v ''sessions''
      in if \<not> optional (card_identifier 128) currentSessionId \<or> \<not> plainArray 20 sessions then None
         else case sanitize_all session_item sessions of
           None \<Rightarrow> None
         | Some clean \<Rightarrow> Some (JObj (put ''kind'' kind @ put ''currentSessionId'' currentSessionId @ [(js ''sessions'', JArr clean)])))"

definition palette_command :: "reading \<Rightarrow> json option" where
  "palette_command v =
     (if \<not> plain_record v then None
      else let name = read_prop v ''name''; description = read_prop v ''description''
      in made (allowedText 256 False name \<and> optional (allowedText 2000 True) description)
           (put ''name'' name @ put ''description'' description))"

definition palette_group :: "reading \<Rightarrow> nat \<Rightarrow> (json \<times> nat) option" where
  "palette_group v used =
     (if \<not> plain_record v then None
      else let label = read_prop v ''label''; collapsed = read_prop v ''collapsed''; items = read_prop v ''items''
      in if \<not> allowedText 1000 False label \<or> \<not> optional safeBoolean collapsed \<or> \<not> plainArray 20 items then None
         else let used' = used + length (elements items)
         in if 20 < used' then None
            else case sanitize_all palette_command items of
              None \<Rightarrow> None
            | Some clean \<Rightarrow> Some (JObj (put ''label'' label @ put ''collapsed'' collapsed @ [(js ''items'', JArr clean)]), used'))"

fun palette_groups :: "reading list \<Rightarrow> nat \<Rightarrow> json list option" where
  "palette_groups [] used = Some []"
| "palette_groups (g # gs) used =
     (case palette_group g used of
        None \<Rightarrow> None
      | Some (clean, used') \<Rightarrow> map_option ((#) clean) (palette_groups gs used'))"

definition command_palette_section :: "reading \<Rightarrow> json option" where
  "command_palette_section v =
     (let kind = read_prop v ''kind''; title = read_prop v ''title''; commands = read_prop v ''commands''; groups = read_prop v ''groups''
      in if \<not> optional (allowedText 1000 False) title \<or> undefined_reading commands = undefined_reading groups then None
         else if \<not> undefined_reading commands then
           (if \<not> plainArray 20 commands then None
            else case sanitize_all palette_command commands of
              None \<Rightarrow> None
            | Some clean \<Rightarrow> Some (JObj (put ''kind'' kind @ put ''title'' title @ [(js ''commands'', JArr clean)])))
         else if \<not> plainArray 20 groups then None
         else case palette_groups (elements groups) 0 of
           None \<Rightarrow> None
         | Some clean \<Rightarrow> Some (JObj (put ''kind'' kind @ put ''title'' title @ [(js ''groups'', JArr clean)])))"

definition sanitizeSection :: "url_parser \<Rightarrow> reading \<Rightarrow> json option" where
  "sanitizeSection url v =
     (if \<not> plain_record v then None
      else let kind = read_prop v ''kind'' in
      if is_word ''markdown'' kind then markdown_section v
      else if is_word ''divider'' kind then Some (JObj (put ''kind'' kind))
      else if is_word ''note'' kind then note_section v
      else if is_word ''buttonRow'' kind then button_row_section url v
      else if is_word ''keyValue'' kind then key_value_section v
      else if is_word ''select'' kind then select_section v
      else if is_word ''input'' kind then input_section url v
      else if is_word ''image'' kind then image_section url v
      else if is_word ''table'' kind then table_section v
      else if is_word ''permission'' kind then permission_section url v
      else if is_word ''question'' kind then question_section v
      else if is_word ''progress'' kind then progress_section v
      else if is_word ''statusReport'' kind then status_report_section v
      else if is_word ''sessionList'' kind then session_list_section v
      else if is_word ''commandPalette'' kind then command_palette_section v
      else None)"

subsection \<open>Cards\<close>

definition card_header_ok :: "reading \<Rightarrow> bool" where
  "card_header_ok h \<longleftrightarrow> allowedText 1000 False (read_prop h ''title'') \<and> optional (allowedText 256 False) (read_prop h ''icon'')
     \<and> optional (word_in colors) (read_prop h ''color'') \<and> optional (allowedText 2000 True) (read_prop h ''subtitle'')"

definition card_header :: "reading \<Rightarrow> jobj" where
  "card_header h = put ''title'' (read_prop h ''title'') @ put ''icon'' (read_prop h ''icon'')
     @ put ''color'' (read_prop h ''color'') @ put ''subtitle'' (read_prop h ''subtitle'')"

text \<open>\<open>config\<close>: absent, a clean object, or refused.\<close>

definition card_config :: "reading \<Rightarrow> json option option" where
  "card_config rawConfig =
     (if undefined_reading rawConfig then Some None
      else if \<not> plain_record rawConfig then None
      else let wide = read_prop rawConfig ''wide''; collapsible = read_prop rawConfig ''collapsible''
      in map_option Some (made (optional safeBoolean wide \<and> optional safeBoolean collapsible)
           (put ''wide'' wide @ put ''collapsible'' collapsible)))"

definition validateCard :: "url_parser \<Rightarrow> reading \<Rightarrow> (card_error, jobj) result" where
  "validateCard url v =
     (if \<not> plain_record v then Inl (InvalidCard ''card must be a plain object'')
      else let schema = read_prop v ''schema''; cid = read_prop v ''id''; rawHeader = read_prop v ''header'';
             rawSections = read_prop v ''sections''
      in if \<not> is_word CARD_SCHEMA_VERSION schema \<or> \<not> card_identifier 128 cid \<or> \<not> plain_record rawHeader
           \<or> \<not> plainArray 64 rawSections then Inl (InvalidCard ''invalid card envelope'')
      else if \<not> card_header_ok rawHeader then Inl (InvalidCard ''invalid card header'')
      else case sanitize_all (sanitizeSection url) rawSections of
        None \<Rightarrow> Inl (InvalidCard ''invalid card section'')
      | Some clean \<Rightarrow>
      (case card_config (read_prop v ''config'') of
        None \<Rightarrow> Inl (InvalidCard ''invalid card config'')
      | Some config \<Rightarrow>
          let reasoning = read_prop v ''reasoning''; loading = read_prop v ''loading'' in
          if \<not> optional (allowedText 20000 True) reasoning then Inl (InvalidCard ''invalid reasoning'')
          else if \<not> optional safeBoolean loading then Inl (InvalidCard ''invalid loading state'')
          else let output = [(js ''schema'', JLit CARD_SCHEMA_VERSION)] @ put ''id'' cid
                 @ [(js ''header'', JObj (card_header rawHeader)), (js ''sections'', JArr clean)]
                 @ copied ''config'' config @ put ''reasoning'' reasoning @ put ''loading'' loading
          in if byte_length (stringify (JObj output)) > CARD_HARD_BYTE_LIMIT then Inl CardTooLarge else Inr output))"

end
