(* ===== verification/CardProofs.thy ===== *)
theory CardProofs imports Cards begin

text \<open>
  A sanitizer is stable when it takes what it returned to itself.  Every sanitizer of the card validator
  is: the reading of a checked scalar_value is found again in the object that was built.
\<close>

definition as_data :: "json \<Rightarrow> reading" where
  "as_data j = Some (plain_value j)"

definition stable :: "(reading \<Rightarrow> json option) \<Rightarrow> bool" where
  "stable f \<longleftrightarrow> (\<forall>r j. f r = Some j \<longrightarrow> f (as_data j) = Some j)"

lemma stableI: "(\<And>r j. f r = Some j \<Longrightarrow> f (as_data j) = Some j) \<Longrightarrow> stable f"
  by (simp add: stable_def)

lemma stableD: "stable f \<Longrightarrow> f r = Some j \<Longrightarrow> f (as_data j) = Some j"
  by (simp add: stable_def)

fun reading_of :: "json option \<Rightarrow> reading" where
  "reading_of None = Some VUndefined"
| "reading_of (Some j) = as_data j"

lemma plain_record_given [simp]: "plain_record (as_data (JObj ob))"
  by (simp add: as_data_def)

lemma slot_embed: "slot_reading (map_of (map (map_prod id (Data True)) (map (map_prod id plain_value) ob)) k) = reading_of (map_of ob k)"
  by (induction ob) (auto simp: as_data_def)

lemma read_key_given: "read_key (as_data (JObj ob)) k = reading_of (map_of ob k)"
  using slot_embed [of ob k] by (simp add: as_data_def)

lemma read_prop_given: "read_prop (as_data (JObj ob)) k = reading_of (field ob k)"
  by (simp add: read_prop_def read_key_given field_def)

fun or_else :: "'a option \<Rightarrow> 'a option \<Rightarrow> 'a option" where
  "or_else None y = y"
| "or_else (Some x) y = Some x"

lemma or_else_none [simp]: "or_else x None = x"
  by (cases x) simp_all

lemma field_put: "field (put k r @ ob) k' = (if k = k' then or_else (scalar_value r) (field ob k') else field ob k')"
  by (cases "scalar_value r") (simp_all add: put_def copied_def)

lemma field_put_end: "field (put k r) k' = (if k = k' then scalar_value r else None)"
  using field_put [of k r "[]" k'] by (cases "scalar_value r") auto

lemma field_optional: "field (copied k w @ ob) k' = (if k = k' then or_else w (field ob k') else field ob k')"
  by (cases w) (simp_all add: copied_def)

lemma field_optional_end: "field (copied k w) k' = (if k = k' then w else None)"
  by (cases w) (simp_all add: copied_def)

fun simple :: "reading \<Rightarrow> bool" where
  "simple (Some VUndefined) = True"
| "simple (Some (VStr s)) = True"
| "simple (Some (VBool b)) = True"
| "simple (Some (VNum n)) = True"
| "simple _ = False"

lemma simple_scalar: "simple r \<Longrightarrow> reading_of (scalar_value r) = r"
  by (cases r rule: simple.cases) (simp_all add: as_data_def)

lemma string_reading_iff: "string_reading P r \<longleftrightarrow> (\<exists>s. r = Some (VStr s) \<and> P s)"
  by (cases "(P, r)" rule: string_reading.cases) auto

lemma simple_checks:
  "allowedText mx e r \<Longrightarrow> simple r" "card_identifier n r \<Longrightarrow> simple r" "card_integer m r \<Longrightarrow> simple r"
  "safeBoolean r \<Longrightarrow> simple r" "httpsUrl url r \<Longrightarrow> simple r" "word_in ws r \<Longrightarrow> simple r" "is_word w r \<Longrightarrow> simple r"
proof -
  show "card_integer m r \<Longrightarrow> simple r" by (cases "(m, r)" rule: card_integer.cases) simp_all
  show "safeBoolean r \<Longrightarrow> simple r" by (cases r rule: safeBoolean.cases) simp_all
qed (auto simp: allowedText_def card_identifier_def httpsUrl_def string_reading_iff word_in_def is_word_def list_ex_iff)

lemma simple_optional: "optional P r \<Longrightarrow> (P r \<Longrightarrow> simple r) \<Longrightarrow> simple r"
  by (auto simp: optional_def)

text \<open>Checked readings are read again from the object built of them.\<close>

lemma again:
  "allowedText mx e r \<Longrightarrow> reading_of (scalar_value r) = r" "card_identifier n r \<Longrightarrow> reading_of (scalar_value r) = r"
  "card_integer m r \<Longrightarrow> reading_of (scalar_value r) = r" "safeBoolean r \<Longrightarrow> reading_of (scalar_value r) = r"
  "httpsUrl url r \<Longrightarrow> reading_of (scalar_value r) = r" "word_in ws r \<Longrightarrow> reading_of (scalar_value r) = r"
  "is_word w r \<Longrightarrow> reading_of (scalar_value r) = r"
  "optional (allowedText mx e) r \<Longrightarrow> reading_of (scalar_value r) = r" "optional (card_identifier n) r \<Longrightarrow> reading_of (scalar_value r) = r"
  "optional (card_integer m) r \<Longrightarrow> reading_of (scalar_value r) = r" "optional safeBoolean r \<Longrightarrow> reading_of (scalar_value r) = r"
  "optional (httpsUrl url) r \<Longrightarrow> reading_of (scalar_value r) = r" "optional (word_in ws) r \<Longrightarrow> reading_of (scalar_value r) = r"
  by (rule simple_scalar, (erule simple_checks | (erule simple_optional, erule simple_checks)))+

lemma made_iff: "made ok ob = Some j \<longleftrightarrow> ok \<and> j = JObj ob"
  by (auto simp: made_def)

lemmas read_again = read_prop_given field_put field_put_end field_optional field_optional_end again made_iff Let_def

lemma elements_given [simp]: "elements (as_data (JArr xs)) = map as_data xs"
  by (simp add: as_data_def o_def)

lemma plain_given [simp]: "plainArray n (as_data (JArr xs)) \<longleftrightarrow> length xs \<le> n"
  by (simp add: as_data_def list_all_iff)

lemma defined_given [simp]: "as_data j \<noteq> Some VUndefined"
  by (simp add: as_data_def)

lemma those_iff: "those xs = Some ys \<longleftrightarrow> xs = map Some ys"
  by (induction xs arbitrary: ys) (auto split: option.splits)

lemma sanitize_again:
  assumes "sanitize_all f r = Some ys" "stable f"
  shows "sanitize_all f (as_data (JArr ys)) = Some ys" and "length ys = length (elements r)"
proof -
  have m: "map f (elements r) = map Some ys" using assms(1) by (simp add: sanitize_all_def those_iff)
  have "f (as_data y) = Some y" if "y \<in> set ys" for y
  proof -
    have "Some y \<in> set (map f (elements r))" unfolding m using that by simp
    then obtain x where "f x = Some y" by auto
    thus ?thesis by (rule stableD [OF assms(2)])
  qed
  thus "sanitize_all f (as_data (JArr ys)) = Some ys" by (simp add: sanitize_all_def those_iff)
  show "length ys = length (elements r)" using arg_cong [OF m, of length] by simp
qed

lemma plain_length: "plainArray n r \<Longrightarrow> length (elements r) \<le> n"
  by (cases "(n, r)" rule: plainArray.cases) simp_all

lemma sanitize_plain: "sanitize_all f r = Some ys \<Longrightarrow> plainArray n r \<Longrightarrow> stable f \<Longrightarrow> length ys \<le> n"
  using plain_length sanitize_again(2) by metis

subsection \<open>Items\<close>

lemma stable_key_value: "stable key_value_item"
  by (rule stableI) (auto simp: key_value_item_def read_again split: if_splits)

lemma stable_column: "stable table_column"
  by (rule stableI) (auto simp: table_column_def read_again split: if_splits)

lemma stable_option: "stable question_option"
  by (rule stableI) (auto simp: question_option_def read_again split: if_splits)

lemma stable_tool: "stable progress_tool"
  by (rule stableI) (auto simp: progress_tool_def read_again split: if_splits)

lemma stable_session: "stable session_item"
  by (rule stableI) (auto simp: session_item_def read_again split: if_splits)

lemma stable_command: "stable palette_command"
  by (rule stableI) (auto simp: palette_command_def read_again split: if_splits)

lemma stable_string_item: "stable (stringItem [''label'', ''value''])" "stable (stringItem [''path'', ''status''])"
  by (rule stableI, auto simp: stringItem_def read_again split: if_splits)+

subsection \<open>Custom payloads\<close>

text \<open>What a cloned payload is, and the number of its keys.\<close>

primrec payload_valid :: "json \<Rightarrow> nat \<Rightarrow> bool" where
  "payload_valid JNull d = True"
| "payload_valid (JBool b) d = True"
| "payload_valid (JNum n) d = finite_number n"
| "payload_valid (JStr s) d = allowed_string 4096 True s"
| "payload_valid (JArr xs) d = (d \<le> 8 \<and> length xs \<le> 64 \<and> list_all (\<lambda>P. P (Suc d)) (map payload_valid xs))"
| "payload_valid (JObj kvs) d = (d \<le> 8 \<and> ordered kvs \<and> list_all (\<lambda>(k, P). \<not> dangerous k \<and> identifier_ok 256 k \<and> P (Suc d))
     (map (map_prod id payload_valid) kvs))"

primrec payload_keys :: "json \<Rightarrow> nat" where
  "payload_keys JNull = 0"
| "payload_keys (JBool b) = 0"
| "payload_keys (JNum n) = 0"
| "payload_keys (JStr s) = 0"
| "payload_keys (JArr xs) = sum_list (map payload_keys xs)"
| "payload_keys (JObj kvs) = length kvs + sum_list (map snd (map (map_prod id payload_keys) kvs))"

lemma payload_obj:
  "payload_valid (JObj kvs) d \<longleftrightarrow> d \<le> 8 \<and> ordered kvs \<and> (\<forall>(k, v) \<in> set kvs. \<not> dangerous k \<and> identifier_ok 256 k \<and> payload_valid v (Suc d))"
  "payload_keys (JObj kvs) = sum_list (map (\<lambda>(k, v). Suc (payload_keys v)) kvs)"
  by (auto simp: list_all_iff) (induction kvs; auto)

lemma payload_arr:
  "payload_valid (JArr xs) d \<longleftrightarrow> d \<le> 8 \<and> length xs \<le> 64 \<and> (\<forall>x \<in> set xs. payload_valid x (Suc d))"
  by (simp add: list_all_iff)

abbreviation props_keys :: "jobj \<Rightarrow> nat" where
  "props_keys ob \<equiv> sum_list (map (\<lambda>(k, v). Suc (payload_keys v)) ob)"

lemma props_keys_insert: "props_keys (insert_index k v ob) = Suc (payload_keys v) + props_keys ob"
  by (induction k v ob rule: insert_index.induct) simp_all

lemma props_keys_set: "props_keys (obj_set ob k v) \<le> Suc (payload_keys v) + props_keys ob" if "distinct (map fst ob)"
proof -
  have "props_keys (map (\<lambda>(k', v'). if k' = k then (k', v) else (k', v')) m) \<le> (if k \<in> fst ` set m then Suc (payload_keys v) else 0) + props_keys m"
    if "distinct (map fst m)" for m using that by (induction m) (auto simp: image_iff split: if_splits)
  from this [OF that] show ?thesis by (auto simp: obj_set_def props_keys_insert split: if_splits)
qed

definition props_ok :: "jobj \<Rightarrow> nat \<Rightarrow> bool" where
  "props_ok ob d \<longleftrightarrow> ordered ob \<and> (\<forall>(k, v) \<in> set ob. \<not> dangerous k \<and> identifier_ok 256 k \<and> payload_valid v d)"

lemma props_ok_set: "props_ok ob d \<Longrightarrow> \<not> dangerous k \<Longrightarrow> identifier_ok 256 k \<Longrightarrow> payload_valid v d \<Longrightarrow> props_ok (obj_set ob k v) d"
  using set_obj_set [of _ ob k v] ordered_obj_set [of ob k v] by (fastforce simp: props_ok_def)

lemma clone_payload_ok:
  "clone_payload v n d = Some (j, n') \<Longrightarrow> payload_valid j d \<and> n + payload_keys j \<le> n' \<and> (n \<le> 64 \<longrightarrow> n' \<le> 64)"
  "clone_payload_items xs n d = Some (js', n') \<Longrightarrow>
     length js' = length xs \<and> (\<forall>x \<in> set js'. payload_valid x d) \<and> n + sum_list (map payload_keys js') \<le> n' \<and> (n \<le> 64 \<longrightarrow> n' \<le> 64)"
  "clone_payload_props ps n d acc = Some (ob, n') \<Longrightarrow> props_ok acc d \<Longrightarrow>
     props_ok ob d \<and> n + props_keys ob \<le> n' + props_keys acc \<and> (n \<le> 64 \<longrightarrow> n' \<le> 64)"
proof (induction v n d and xs n d and ps n d acc arbitrary: j n' and js' n' and ob n'
    rule: clone_payload_clone_payload_items_clone_payload_props.induct)
  case (5 xs extra n d)
  thus ?case by (auto simp: payload_arr simp del: payload_valid.simps split: if_splits)
next
  case (6 plain props n d)
  have "props_ok [] (Suc d)" by (simp add: props_ok_def ordered_keys_def)
  thus ?case using 6 by (auto simp: payload_obj props_ok_def simp del: payload_valid.simps payload_keys.simps split: if_splits)
next
  case (13 e v r n d)
  from 13(3) obtain y m ys where s: "clone_payload v n d = Some (y, m)" "clone_payload_items r m d = Some (ys, n')" "js' = y # ys"
    by (auto split: option.splits)
  show ?case using 13(1) [OF s(1)] 13(2) [OF s(1) refl s(2)] s(3) by auto
next
  case (17 k e v r n d acc)
  show ?case
  proof (cases "\<not> e \<or> dangerous k")
    case True
    thus ?thesis using 17(1,4,5) by auto
  next
    case False
    hence nk: "\<not> (64 < Suc n \<or> \<not> identifier_ok 256 k)" using 17(4) by (auto split: if_splits)
    then obtain y m where s: "clone_payload v (Suc n) d = Some (y, m)" "clone_payload_props r m d (obj_set acc k y) = Some (ob, n')"
      using 17(4) False by (auto split: option.splits)
    have v: "payload_valid y d \<and> Suc n + payload_keys y \<le> m \<and> (Suc n \<le> 64 \<longrightarrow> m \<le> 64)" by (rule 17(2) [OF False nk s(1)])
    have "props_ok (obj_set acc k y) d" using props_ok_set 17(5) False nk v by blast
    moreover have "props_keys (obj_set acc k y) \<le> Suc (payload_keys y) + props_keys acc"
      using props_keys_set 17(5) by (simp add: props_ok_def ordered_keys_def)
    ultimately show ?thesis using 17(3) [OF False nk s(1) refl s(2)] v nk by auto
  qed
qed (auto split: if_splits)

lemma clone_payload_again:
  "payload_valid j d \<Longrightarrow> n + payload_keys j \<le> 64 \<Longrightarrow> clone_payload (plain_value j) n d = Some (j, n + payload_keys j)"
proof (induction j arbitrary: n d)
  case (JArr xs)
  have "clone_payload_items (map (Data True) (map plain_value ys)) m (Suc d) = Some (ys, m + sum_list (map payload_keys ys))"
    if "set ys \<subseteq> set xs" "m + sum_list (map payload_keys ys) \<le> 64" for ys m
    using that
  proof (induction ys arbitrary: m)
    case (Cons y ys)
    have "clone_payload (plain_value y) m (Suc d) = Some (y, m + payload_keys y)"
      using JArr.IH [of y "Suc d" m] JArr.prems(1) Cons.prems unfolding payload_arr by simp
    thus ?case using Cons.IH [of "m + payload_keys y"] Cons.prems by (simp add: add.assoc)
  qed simp
  from this [of xs n] show ?case using JArr.prems unfolding payload_arr by (simp add: list_all_iff)
next
  case (JObj kvs)
  have "clone_payload_props (map (map_prod id (Data True)) (map (map_prod id plain_value) ps)) m (Suc d) acc
      = Some (fold (\<lambda>(k, v) ob. obj_set ob k v) ps acc, m + props_keys ps)"
    if "set ps \<subseteq> set kvs" "m + props_keys ps \<le> 64" for ps m acc
    using that
  proof (induction ps arbitrary: m acc)
    case (Cons p ps)
    obtain k v where p: "p = (k, v)" by force
    have k: "\<not> dangerous k" "identifier_ok 256 k" "payload_valid v (Suc d)"
      using JObj.prems(1) Cons.prems(1) p unfolding payload_obj by auto
    have "clone_payload (plain_value v) (Suc m) (Suc d) = Some (v, Suc m + payload_keys v)"
      using JObj.IH [of p v "Suc d" "Suc m"] k(3) Cons.prems p by simp
    thus ?case using Cons.IH [of "Suc m + payload_keys v"] Cons.prems k p by (simp add: add.assoc)
  qed simp
  from this [of kvs n "[]"] show ?case using JObj.prems build_ordered [of kvs]
    unfolding payload_obj by (simp add: build_obj_def)
qed simp_all

lemma payload_again: "sanitizeCustomPayload r = Some p \<Longrightarrow> sanitizeCustomPayload (as_data (JObj p)) = Some p"
proof -
  assume s: "sanitizeCustomPayload r = Some p"
  then obtain v n where "r = Some v" "clone_payload v 0 0 = Some (JObj p, n)" and b: "byte_length (stringify (JObj p)) \<le> 4096"
    by (cases r rule: sanitizeCustomPayload.cases) (auto split: if_splits option.splits json.splits simp del: stringify.simps)
  with clone_payload_ok(1) [of v 0 0 "JObj p" n] have "payload_valid (JObj p) 0" "payload_keys (JObj p) \<le> 64"
    by (simp_all del: payload_valid.simps payload_keys.simps)
  hence "clone_payload (plain_value (JObj p)) 0 0 = Some (JObj p, payload_keys (JObj p))"
    using clone_payload_again [of "JObj p" 0 0] by (simp del: payload_valid.simps payload_keys.simps)
  moreover have "plain_record (Some (plain_value (JObj p)))" by simp
  ultimately show ?thesis using b
    by (simp add: as_data_def del: stringify.simps plain_value.simps payload_keys.simps)
qed

subsection \<open>Actions, buttons and sections\<close>

lemma defined_payload [simp]: "sanitizeCustomPayload (Some VUndefined) = None"
  by simp

lemma texts_again:
  assumes "list_all (allowedText mx e) xs"
  shows "map as_data (List.map_filter scalar_value xs) = xs"
  using assms
proof (induction xs)
  case (Cons x xs)
  then obtain s where "x = Some (VStr s)" by (auto simp: allowedText_def string_reading_iff)
  thus ?case using Cons by (simp add: map_filter_simps as_data_def)
qed (simp add: map_filter_simps)

lemma texts_length: "list_all (allowedText mx e) xs \<Longrightarrow> length (List.map_filter scalar_value xs) = length xs"
  using texts_again [of mx e xs] by (metis length_map)

lemma word_simps: "is_word w (Some (VStr (js w'))) \<longleftrightarrow> w = w'"
  by (auto simp: is_word_def)

lemma word_cases: "is_word w r \<longleftrightarrow> r = Some (VStr (js w))"
  by (simp add: is_word_def)

lemma given_text [simp]: "as_data (JStr s) = Some (VStr s)"
  by (simp add: as_data_def)

lemma stable_action: "stable sanitizeAction"
proof (rule stableI)
  fix r j assume s: "sanitizeAction r = Some j"
  have p: "plain_record r" using s by (simp add: sanitizeAction_def split: if_splits)
  define ty where "ty = read_prop r ''type''"
  from s consider
      (permission) "is_word ''permission'' ty" | (answer) "is_word ''answer'' ty" | (command) "is_word ''command'' ty"
    | (session) "is_word ''session'' ty" | (navigate) "is_word ''navigate'' ty" | (custom) "is_word ''custom'' ty"
    | (none) "is_word ''none'' ty"
    by (auto simp: sanitizeAction_def ty_def made_iff Let_def split: if_splits)
  thus "sanitizeAction (as_data j) = Some j"
  proof cases
    case answer
    thus ?thesis using s p unfolding ty_def
      by (auto simp: sanitizeAction_def word_cases read_again texts_again texts_length dest!: plain_length)
  next
    case custom
    thus ?thesis using s p unfolding ty_def
      by (auto simp: sanitizeAction_def word_cases read_again payload_again split: option.splits)
  qed (use s p in \<open>auto simp: sanitizeAction_def ty_def word_cases read_again\<close>)
qed

lemma stable_button: "stable (sanitizeButton url)"
  by (rule stableI) (auto simp: sanitizeButton_def read_again stableD [OF stable_action] split: if_splits option.splits)

lemmas stable_items = stable_key_value stable_column stable_option stable_tool stable_session stable_command
  stable_string_item stable_action stable_button

lemma sanitize_none: "sanitize_all f r = Some [] \<longleftrightarrow> elements r = []"
  by (simp add: sanitize_all_def those_iff)

text \<open>A section keeps its kind, which the dispatch reads first.\<close>

definition keeps :: "string \<Rightarrow> (reading \<Rightarrow> json option) \<Rightarrow> bool" where
  "keeps w f \<longleftrightarrow> (\<forall>r j. is_word w (read_prop r ''kind'') \<longrightarrow> f r = Some j \<longrightarrow>
     f (as_data j) = Some j \<and> plain_record (as_data j) \<and> is_word w (read_prop (as_data j) ''kind''))"

lemma keepsI:
  "(\<And>r j. read_prop r ''kind'' = Some (VStr (js w)) \<Longrightarrow> f r = Some j \<Longrightarrow>
     f (as_data j) = Some j \<and> plain_record (as_data j) \<and> read_prop (as_data j) ''kind'' = Some (VStr (js w))) \<Longrightarrow> keeps w f"
  by (simp add: keeps_def word_cases)

lemma optional_items_again:
  assumes "optional_items f r = Some w" "stable f"
  shows "optional_items f (reading_of w) = Some w" "optional (plainArray n) r \<Longrightarrow> optional (plainArray n) (reading_of w)"
proof -
  show "optional_items f (reading_of w) = Some w"
    using assms sanitize_again [OF _ assms(2), of r] by (auto simp: optional_items_def split: if_splits)
  show "optional (plainArray n) r \<Longrightarrow> optional (plainArray n) (reading_of w)"
    using assms sanitize_plain [OF _ _ assms(2), of r] by (auto simp: optional_items_def optional_def split: if_splits)
qed

lemmas section_again = read_again sanitize_again plain_length sanitize_none stable_items optional_items_again

lemma keeps_markdown_section: "keeps ''markdown'' markdown_section"
  by (rule keepsI) (auto simp: markdown_section_def section_again stableD [OF stable_action] stableD [OF stable_button] split: if_splits option.splits)

lemma keeps_note_section: "keeps ''note'' note_section"
  by (rule keepsI) (auto simp: note_section_def section_again stableD [OF stable_action] stableD [OF stable_button] split: if_splits option.splits)

lemma keeps_button_row_section: "keeps ''buttonRow'' (button_row_section url)"
  by (rule keepsI) (auto simp: button_row_section_def section_again stableD [OF stable_action] stableD [OF stable_button] split: if_splits option.splits)

lemma keeps_key_value_section: "keeps ''keyValue'' key_value_section"
  by (rule keepsI) (auto simp: key_value_section_def section_again stableD [OF stable_action] stableD [OF stable_button] split: if_splits option.splits)

lemma keeps_select_section: "keeps ''select'' select_section"
  by (rule keepsI) (auto simp: select_section_def section_again stableD [OF stable_action] stableD [OF stable_button] split: if_splits option.splits)

lemma keeps_input_section: "keeps ''input'' (input_section url)"
  by (rule keepsI) (auto simp: input_section_def section_again stableD [OF stable_action] stableD [OF stable_button] split: if_splits option.splits)

lemma keeps_image_section: "keeps ''image'' (image_section url)"
  by (rule keepsI) (auto simp: image_section_def section_again stableD [OF stable_action] stableD [OF stable_button] split: if_splits option.splits)

lemma keeps_question_section: "keeps ''question'' question_section"
  by (rule keepsI) (auto simp: question_section_def section_again stableD [OF stable_action] stableD [OF stable_button] split: if_splits option.splits)

lemma keeps_progress_section: "keeps ''progress'' progress_section"
  by (rule keepsI) (auto simp: progress_section_def section_again stableD [OF stable_action] stableD [OF stable_button] split: if_splits option.splits)

lemma keeps_status_report_section: "keeps ''statusReport'' status_report_section"
  by (rule keepsI) (auto simp: status_report_section_def section_again stableD [OF stable_action] stableD [OF stable_button] split: if_splits option.splits)

lemma keeps_session_list_section: "keeps ''sessionList'' session_list_section"
  by (rule keepsI) (auto simp: session_list_section_def section_again stableD [OF stable_action] stableD [OF stable_button] split: if_splits option.splits)

text \<open>Tables: the cells of a row are read again at the keys of the columns.\<close>

lemma row_cells_field:
  "row_cells ks row out = Some ob \<Longrightarrow> map_of ob k = (if k \<in> set ks \<and> k \<noteq> js ''__proto__'' \<and> scalar_value (read_key row k) \<noteq> None
     then scalar_value (read_key row k) else map_of out k)"
proof (induction ks arbitrary: out)
  case (Cons key ks)
  show ?case
  proof (cases "\<exists>cell. read_key row key = Some (VStr cell)")
    case True
    then obtain cell where c: "read_key row key = Some (VStr cell)" by blast
    hence "row_cells ks row (assign_cell out key cell) = Some ob" using Cons.prems by (simp split: if_splits)
    from Cons.IH [OF this] c show ?thesis by (auto simp: assign_cell_def map_of_obj_set)
  next
    case False
    hence u: "read_key row key = Some VUndefined" "row_cells ks row out = Some ob"
      using Cons.prems by (auto split: option.splits jsval.splits)
    from Cons.IH [OF u(2)] u(1) show ?thesis by auto
  qed
qed simp

lemma row_cells_text:
  "row_cells ks row out = Some ob \<Longrightarrow> k \<in> set ks \<Longrightarrow>
    read_key row k = Some VUndefined \<or> (\<exists>cell. read_key row k = Some (VStr cell) \<and> allowed_string 4096 True cell)"
  by (induction ks arbitrary: out) (auto split: option.splits jsval.splits if_splits)

lemma row_cells_again:
  assumes "row_cells ks row out = Some ob"
    and "\<forall>k \<in> set ks. read_key row' k = read_key row k \<or> k = js ''__proto__'' \<and> undefined_reading (read_key row' k)"
  shows "row_cells ks row' out = Some ob"
  using assms
proof (induction ks arbitrary: out)
  case (Cons key ks)
  from row_cells_text [OF Cons.prems(1), of key]
  consider "read_key row key = Some VUndefined" | cell where "read_key row key = Some (VStr cell)" "allowed_string 4096 True cell"
    by auto
  thus ?case using Cons by cases (auto simp: assign_cell_def)
qed simp

lemma stable_row: "stable (table_row ks)"
proof (rule stableI)
  fix r j assume "table_row ks r = Some j"
  then obtain ob where j: "j = JObj ob" and c: "row_cells ks r [] = Some ob" by (auto simp: table_row_def split: if_splits)
  have "read_key (as_data j) k = read_key r k \<or> k = js ''__proto__'' \<and> undefined_reading (read_key (as_data j) k)" if "k \<in> set ks" for k
    using row_cells_field [OF c, of k] row_cells_text [OF c that] that unfolding j read_key_given by auto
  hence "row_cells ks (as_data j) [] = Some ob" using row_cells_again [OF c] by blast
  thus "table_row ks (as_data j) = Some j" by (simp add: table_row_def j)
qed

lemma keeps_table_section: "keeps ''table'' table_section"
  by (rule keepsI) (auto simp: table_section_def section_again stable_row split: if_splits option.splits)

lemma keeps_permission_section: "keeps ''permission'' (permission_section url)"
  by (rule keepsI) (auto simp: permission_section_def section_again texts_again texts_length optional_def Let_def
      split: if_splits option.splits)

lemma palette_group_again:
  "palette_group r n = Some (j, m) \<Longrightarrow> palette_group (as_data j) n = Some (j, m)"
  by (auto simp: palette_group_def section_again split: if_splits option.splits)

lemma palette_groups_again:
  "palette_groups gs n = Some js' \<Longrightarrow> palette_groups (map as_data js') n = Some js' \<and> length js' = length gs"
  by (induction gs arbitrary: n js') (auto simp: palette_group_again split: option.splits)

lemma keeps_command_palette_section: "keeps ''commandPalette'' command_palette_section"
proof (rule keepsI)
  fix r j
  assume k: "read_prop r ''kind'' = Some (VStr (js ''commandPalette''))" and s: "command_palette_section r = Some j"
  let ?t = "read_prop r ''title''" and ?c = "read_prop r ''commands''" and ?g = "read_prop r ''groups''"
  have t: "optional (allowedText 1000 False) ?t" and u: "undefined_reading ?c \<noteq> undefined_reading ?g"
    using s by (simp_all add: command_palette_section_def Let_def split: if_splits)
  show "command_palette_section (as_data j) = Some j \<and> plain_record (as_data j)
      \<and> read_prop (as_data j) ''kind'' = Some (VStr (js ''commandPalette''))"
  proof (cases "undefined_reading ?c")
    case False
    then obtain xs where "plainArray 20 ?c" "sanitize_all palette_command ?c = Some xs"
      "j = JObj (put ''kind'' (Some (VStr (js ''commandPalette''))) @ put ''title'' ?t @ [(js ''commands'', JArr xs)])"
      using s t u k by (auto simp: command_palette_section_def Let_def split: if_splits option.splits)
    thus ?thesis using t by (simp add: command_palette_section_def section_again)
  next
    case True
    then obtain xs where "plainArray 20 ?g" "palette_groups (elements ?g) 0 = Some xs"
      "j = JObj (put ''kind'' (Some (VStr (js ''commandPalette''))) @ put ''title'' ?t @ [(js ''groups'', JArr xs)])"
      using s t u k by (auto simp: command_palette_section_def Let_def split: if_splits option.splits)
    thus ?thesis using t palette_groups_again [of "elements ?g" 0 xs]
      by (simp add: command_palette_section_def section_again)
  qed
qed

text \<open>The section a kind dispatches to.\<close>

definition section_kinds :: "url_parser \<Rightarrow> (string \<times> (reading \<Rightarrow> json option)) list" where
  "section_kinds url = [(''markdown'', markdown_section),
     (''divider'', \<lambda>v. Some (JObj (put ''kind'' (read_prop v ''kind'')))),
     (''note'', note_section),
     (''buttonRow'', button_row_section url),
     (''keyValue'', key_value_section),
     (''select'', select_section),
     (''input'', input_section url),
     (''image'', image_section url),
     (''table'', table_section),
     (''permission'', permission_section url),
     (''question'', question_section),
     (''progress'', progress_section),
     (''statusReport'', status_report_section),
     (''sessionList'', session_list_section),
     (''commandPalette'', command_palette_section)]"

lemma section_dispatch: "(w, f) \<in> set (section_kinds url) \<Longrightarrow> plain_record r \<Longrightarrow> read_prop r ''kind'' = Some (VStr (js w)) \<Longrightarrow>
  sanitizeSection url r = f r"
  unfolding section_kinds_def list.set
  by (elim insertE emptyE) (simp_all add: sanitizeSection_def word_simps)

lemma section_kind:
  "sanitizeSection url r = Some j \<Longrightarrow> plain_record r \<and> (\<exists>(w, f) \<in> set (section_kinds url). read_prop r ''kind'' = Some (VStr (js w)))"
  by (rule ccontr) (simp add: sanitizeSection_def section_kinds_def word_cases Let_def split: if_splits)

lemma keeps_section: "(w, f) \<in> set (section_kinds url) \<Longrightarrow> keeps w f"
proof -
  have "keeps ''divider'' (\<lambda>v. Some (JObj (put ''kind'' (read_prop v ''kind''))))"
    by (rule keepsI) (auto simp: read_again put_def copied_def)
  note k = this keeps_markdown_section keeps_note_section keeps_button_row_section keeps_key_value_section keeps_select_section keeps_input_section keeps_image_section keeps_table_section keeps_permission_section keeps_question_section keeps_progress_section keeps_status_report_section keeps_session_list_section keeps_command_palette_section
  assume "(w, f) \<in> set (section_kinds url)"
  thus ?thesis unfolding section_kinds_def list.set by (elim insertE emptyE) (simp_all only: prod.inject k)
qed

lemma stable_section: "stable (sanitizeSection url)"
proof (rule stableI)
  fix r j assume s: "sanitizeSection url r = Some j"
  then obtain w f where k: "(w, f) \<in> set (section_kinds url)" "read_prop r ''kind'' = Some (VStr (js w))" "plain_record r"
    using section_kind by fast
  have "f r = Some j" using section_dispatch [OF k(1,3,2)] s by simp
  hence "f (as_data j) = Some j \<and> plain_record (as_data j) \<and> read_prop (as_data j) ''kind'' = Some (VStr (js w))"
    using keeps_section [OF k(1)] k(2) by (simp add: keeps_def word_cases)
  thus "sanitizeSection url (as_data j) = Some j" using section_dispatch [OF k(1)] by simp
qed

end
