(* ===== verification/CardActions.thy ===== *)
theory CardActions imports Cards Messages begin

text \<open>
  The router of card actions, \<^verbatim>\<open>cardkit/action-router.ts\<close>, and the envelopes cards are sent in
  (\<^verbatim>\<open>cardkit/builders.ts\<close>).  An action names a button of a card; it is turned into an intent, or
  refused with a code.
\<close>

datatype action_code = InvalidAction | UnsupportedAction | UnsupportedCommand | UnsupportedApproval

record intent_metadata =
  i_cardId :: jstr
  i_buttonId :: "jstr option"
  i_requestId :: "jstr option"

datatype action_intent =
    CommandIntent string "jstr option"
  | SessionIntent jstr jstr
  | AnswerIntent jstr "json list"
  | NavigateIntent jstr
  | CustomIntent jstr jobj
  | NoIntent

datatype card_route = Routed intent_metadata action_intent | Refused "intent_metadata option" action_code

text \<open>\<open>status\<close> of a refusal.\<close>

fun action_status :: "action_code \<Rightarrow> nat" where
  "action_status UnsupportedApproval = 501"
| "action_status _ = 400"

subsection \<open>Checks\<close>

text \<open>Every own property is a data property with an allowed name, and the required ones are there.\<close>

fun exactSlots :: "reading \<Rightarrow> string list \<Rightarrow> string list \<Rightarrow> bool" where
  "exactSlots (Some (VObj plain props)) required opt =
     (list_all (\<lambda>k. map_of props (js k) \<noteq> None) required
      \<and> list_all (\<lambda>(k, s). k \<in> js ` set (required @ opt) \<and> is_data s) props)"
| "exactSlots _ required opt = False"

fun reading_text :: "reading \<Rightarrow> jstr" where
  "reading_text (Some (VStr s)) = s"
| "reading_text _ = []"

fun optional_text :: "reading \<Rightarrow> jstr option" where
  "optional_text (Some (VStr s)) = Some s"
| "optional_text _ = None"

definition answer_text :: "reading \<Rightarrow> bool" where
  "answer_text r = string_reading (\<lambda>s. 1 \<le> length s \<and> length s \<le> 1000 \<and> \<not> has_control s) r"

definition metadata :: "reading \<Rightarrow> intent_metadata option" where
  "metadata v =
     (if \<not> card_identifier 128 (read_prop v ''cardId'') \<or> \<not> optional (card_identifier 128) (read_prop v ''buttonId'')
        \<or> \<not> optional (card_identifier 128) (read_prop v ''request_id'') then None
      else Some \<lparr>i_cardId = reading_text (read_prop v ''cardId''), i_buttonId = optional_text (read_prop v ''buttonId''),
             i_requestId = optional_text (read_prop v ''request_id'')\<rparr>)"

text \<open>The shape of a payload; the number is the count of keys after it, if it is safe.\<close>

fun payload_shape :: "jsval \<Rightarrow> nat \<Rightarrow> nat \<Rightarrow> nat option"
  and payload_shape_items :: "slot list \<Rightarrow> nat \<Rightarrow> nat \<Rightarrow> nat option"
  and payload_shape_props :: "(jstr \<times> slot) list \<Rightarrow> nat \<Rightarrow> nat \<Rightarrow> nat option" where
  "payload_shape VNull keys d = Some keys"
| "payload_shape (VBool b) keys d = Some keys"
| "payload_shape (VNum n) keys d = (if finite_number n then Some keys else None)"
| "payload_shape (VStr s) keys d = (if length s \<le> 4096 \<and> \<not> has_control s then Some keys else None)"
| "payload_shape (VArr xs extra) keys d =
     (if 8 < d \<or> 64 < length xs then None else payload_shape_items xs keys (Suc d))"
| "payload_shape (VObj plain props) keys d =
     (if 8 < d \<or> \<not> plain then None else payload_shape_props props keys (Suc d))"
| "payload_shape VUndefined keys d = None"
| "payload_shape VCallable keys d = None"
| "payload_shape VBigInt keys d = None"
| "payload_shape VProxy keys d = None"
| "payload_shape VAncestor keys d = None"
| "payload_shape_items [] keys d = Some keys"
| "payload_shape_items (Data e v # r) keys d =
     (case payload_shape v keys d of None \<Rightarrow> None | Some keys' \<Rightarrow> payload_shape_items r keys' d)"
| "payload_shape_items (Accessor # r) keys d = None"
| "payload_shape_items (Hole # r) keys d = None"
| "payload_shape_props [] keys d = Some keys"
| "payload_shape_props ((k, Data enumerable v) # r) keys d =
     (if \<not> enumerable then payload_shape_props r keys d
      else if dangerous k \<or> 64 < Suc keys \<or> \<not> identifier_ok 256 k then None
      else case payload_shape v (Suc keys) d of None \<Rightarrow> None | Some keys' \<Rightarrow> payload_shape_props r keys' d)"
| "payload_shape_props ((k, Accessor) # r) keys d = None"
| "payload_shape_props ((k, Hole) # r) keys d = payload_shape_props r keys d"

fun safePayloadShape :: "reading \<Rightarrow> bool" where
  "safePayloadShape (Some v) = (payload_shape v 0 0 \<noteq> None)"
| "safePayloadShape None = False"

subsection \<open>Routing\<close>

definition route_action :: "intent_metadata \<Rightarrow> reading \<Rightarrow> card_route" where
  "route_action m a =
     (let invalid = Refused (Some m) InvalidAction; ty = read_prop a ''type'' in
      if optional_text ty = None then invalid
      else if is_word ''permission'' ty then
        (if \<not> exactSlots a [''type'', ''permissionId'', ''reply''] [] \<or> \<not> card_identifier 128 (read_prop a ''permissionId'')
           \<or> \<not> word_in [''once'', ''always'', ''reject''] (read_prop a ''reply'') then invalid
         else Refused (Some m) UnsupportedApproval)
      else if is_word ''answer'' ty then
        (if \<not> exactSlots a [''type'', ''questionId'', ''value''] [] \<or> \<not> card_identifier 128 (read_prop a ''questionId'') then invalid
         else let answers = read_prop a ''value''
         in if \<not> plainArray 50 answers \<or> \<not> list_all answer_text (elements answers) then invalid
            else Routed m (AnswerIntent (reading_text (read_prop a ''questionId'')) (List.map_filter scalar_value (elements answers))))
      else if is_word ''command'' ty then
        (if \<not> exactSlots a [''type'', ''name''] [] \<or> optional_text (read_prop a ''name'') = None then invalid
         else case parseSlashCommand (reading_text (read_prop a ''name'')) of
           SCommand name argument \<Rightarrow> Routed m (CommandIntent name argument)
         | _ \<Rightarrow> Refused (Some m) UnsupportedCommand)
      else if is_word ''session'' ty then
        (if \<not> exactSlots a [''type'', ''op'', ''sessionId''] [] \<or> \<not> word_in [''switch'', ''delete''] (read_prop a ''op'')
           \<or> \<not> card_identifier 128 (read_prop a ''sessionId'') then invalid
         else Routed m (SessionIntent (reading_text (read_prop a ''op'')) (reading_text (read_prop a ''sessionId''))))
      else if is_word ''navigate'' ty then
        (if \<not> exactSlots a [''type'', ''target''] [] \<or> \<not> card_identifier 256 (read_prop a ''target'') then invalid
         else Routed m (NavigateIntent (reading_text (read_prop a ''target''))))
      else if is_word ''custom'' ty then
        (if \<not> exactSlots a [''type'', ''kind'', ''payload''] [] \<or> \<not> card_identifier 128 (read_prop a ''kind'')
           \<or> \<not> safePayloadShape (read_prop a ''payload'') then invalid
         else case sanitizeCustomPayload (read_prop a ''payload'') of
           None \<Rightarrow> invalid
         | Some payload \<Rightarrow> Routed m (CustomIntent (reading_text (read_prop a ''kind'')) payload))
      else if is_word ''none'' ty then
        (if exactSlots a [''type''] [] then Routed m NoIntent else invalid)
      else Refused (Some m) UnsupportedAction)"

definition routeCardAction :: "reading \<Rightarrow> card_route" where
  "routeCardAction v =
     (if \<not> plain_record v
        \<or> \<not> exactSlots v [''msg_type'', ''cardId'', ''action''] [''buttonId'', ''request_id'', ''timestamp'']
        \<or> \<not> is_word ''card_action'' (read_prop v ''msg_type'')
        \<or> \<not> optional (card_integer 0) (read_prop v ''timestamp'') then Refused None InvalidAction
      else case metadata v of
        None \<Rightarrow> Refused None InvalidAction
      | Some m \<Rightarrow>
          (let a = read_prop v ''action''
           in if \<not> plain_record a then Refused (Some m) InvalidAction else route_action m a))"

subsection \<open>The envelopes of a card\<close>

datatype build_error = InvalidCardInput | CardEnvelopeTooLarge

definition safeTimestamp :: "int \<Rightarrow> bool" where
  "safeTimestamp ts \<longleftrightarrow> \<bar>ts\<bar> \<le> max_safe \<and> 0 \<le> ts"

definition envelopeWithinTarget :: "jobj \<Rightarrow> bool" where
  "envelopeWithinTarget envelope \<longleftrightarrow> byte_length (stringify (JObj envelope)) \<le> 9000"

definition buildCardMessage :: "url_parser \<Rightarrow> reading \<Rightarrow> int \<Rightarrow> (build_error, jobj) result" where
  "buildCardMessage url model ts =
     (case validateCard url model of
        Inl e \<Rightarrow> Inl InvalidCardInput
      | Inr validated \<Rightarrow>
          if \<not> safeTimestamp ts then Inl InvalidCardInput
          else let envelope = [(js ''msg_type'', JLit ''card_message''), (js ''schema'', JLit CARD_SCHEMA_VERSION),
                 (js ''card'', JObj validated), (js ''timestamp'', JInt ts)]
          in if envelopeWithinTarget envelope then Inr envelope else Inl CardEnvelopeTooLarge)"

definition buildCardUpdate :: "url_parser \<Rightarrow> jstr \<Rightarrow> reading \<Rightarrow> int \<Rightarrow> (build_error, jobj) result" where
  "buildCardUpdate url cardId model ts =
     (case validateCard url model of
        Inl e \<Rightarrow> Inl InvalidCardInput
      | Inr validated \<Rightarrow>
          if field validated ''id'' \<noteq> Some (JStr cardId) \<or> \<not> safeTimestamp ts then Inl InvalidCardInput
          else let envelope = [(js ''msg_type'', JLit ''card_update''), (js ''cardId'', JStr cardId),
                 (js ''card'', JObj validated), (js ''timestamp'', JInt ts)]
          in if envelopeWithinTarget envelope then Inr envelope else Inl CardEnvelopeTooLarge)"

end
