(* ===== verification/CardTheorems.thy ===== *)
theory CardTheorems imports CardProofs CardActions begin

text \<open>
  What the card validator and the action router guarantee.
\<close>

subsection \<open>Cards\<close>

lemma config_again:
  assumes "card_config r = Some w"
  shows "card_config (reading_of w) = Some w"
  using assms by (auto simp: card_config_def read_again split: if_splits)

lemma header_again:
  assumes "card_header_ok h"
  shows "card_header_ok (as_data (JObj (card_header h)))" "card_header (as_data (JObj (card_header h))) = card_header h"
  using assms by (auto simp: card_header_ok_def card_header_def read_again)

text \<open>What an accepted card is made of.\<close>

lemma validated_card:
  assumes "validateCard url v = Inr c"
  obtains clean w where
    "card_identifier 128 (read_prop v ''id'')" "card_header_ok (read_prop v ''header'')"
    "plainArray 64 (read_prop v ''sections'')" "sanitize_all (sanitizeSection url) (read_prop v ''sections'') = Some clean"
    "card_config (read_prop v ''config'') = Some w" "optional (allowedText 20000 True) (read_prop v ''reasoning'')"
    "optional safeBoolean (read_prop v ''loading'')"
    "c = [(js ''schema'', JLit CARD_SCHEMA_VERSION)] @ put ''id'' (read_prop v ''id'')
       @ [(js ''header'', JObj (card_header (read_prop v ''header''))), (js ''sections'', JArr clean)]
       @ copied ''config'' w @ put ''reasoning'' (read_prop v ''reasoning'') @ put ''loading'' (read_prop v ''loading'')"
    "byte_length (stringify (JObj c)) \<le> CARD_HARD_BYTE_LIMIT"
proof -
  from assms obtain clean w where s: "sanitize_all (sanitizeSection url) (read_prop v ''sections'') = Some clean"
    "card_config (read_prop v ''config'') = Some w"
    unfolding validateCard_def Let_def by (simp del: stringify.simps split: if_splits option.splits)
  show ?thesis using assms s
    by (intro that [of clean w]) (simp_all add: validateCard_def Let_def not_less del: stringify.simps split: if_splits)
qed

text \<open>C22 A card the validator accepts is a fixed point: the fresh copy it returns, sent as plain data and
  validated again by whoever receives it, is accepted unchanged; it is at most 10 KiB of JSON.  A card
  is validated when its marker is parsed and again when its envelope is built, so this is what keeps
  the card of the text and the card that is sent the same.\<close>

theorem accepted_card_is_a_fixed_point:
  assumes "validateCard url v = Inr c"
  shows "validateCard url (as_data (JObj c)) = Inr c \<and> byte_length (stringify (JObj c)) \<le> CARD_HARD_BYTE_LIMIT"
proof (rule validated_card [OF assms])
  fix clean w
  assume i: "card_identifier 128 (read_prop v ''id'')" and h: "card_header_ok (read_prop v ''header'')"
    and p: "plainArray 64 (read_prop v ''sections'')"
    and s: "sanitize_all (sanitizeSection url) (read_prop v ''sections'') = Some clean"
    and w: "card_config (read_prop v ''config'') = Some w" and r: "optional (allowedText 20000 True) (read_prop v ''reasoning'')"
    and l: "optional safeBoolean (read_prop v ''loading'')"
    and c: "c = [(js ''schema'', JLit CARD_SCHEMA_VERSION)] @ put ''id'' (read_prop v ''id'')
       @ [(js ''header'', JObj (card_header (read_prop v ''header''))), (js ''sections'', JArr clean)]
       @ copied ''config'' w @ put ''reasoning'' (read_prop v ''reasoning'') @ put ''loading'' (read_prop v ''loading'')"
    and b: "byte_length (stringify (JObj c)) \<le> CARD_HARD_BYTE_LIMIT"
  have f: "read_prop (as_data (JObj c)) ''schema'' = Some (VStr (js CARD_SCHEMA_VERSION))"
    "read_prop (as_data (JObj c)) ''id'' = read_prop v ''id''"
    "read_prop (as_data (JObj c)) ''header'' = as_data (JObj (card_header (read_prop v ''header'')))"
    "read_prop (as_data (JObj c)) ''sections'' = as_data (JArr clean)"
    "read_prop (as_data (JObj c)) ''config'' = reading_of w"
    "read_prop (as_data (JObj c)) ''reasoning'' = read_prop v ''reasoning''"
    "read_prop (as_data (JObj c)) ''loading'' = read_prop v ''loading''"
    unfolding c using i r l by (simp_all add: read_again)
  have n: "length clean \<le> 64" by (rule sanitize_plain [OF s p stable_section])
  have "validateCard url (as_data (JObj c)) = Inr c"
    unfolding validateCard_def f
    using i r l n b config_again [OF w] header_again [OF h] sanitize_again(1) [OF s stable_section]
    by (simp add: word_simps Let_def c [symmetric] not_less del: stringify.simps append.simps)
  with b show ?thesis by simp
qed

text \<open>The envelopes carry the validated card.\<close>

lemma card_message_carries:
  assumes "buildCardMessage url model ts = Inr envelope"
  shows "\<exists>c. validateCard url model = Inr c \<and> field envelope ''card'' = Some (JObj c)
    \<and> byte_length (stringify (JObj envelope)) \<le> 9000"
  using assms by (auto simp: buildCardMessage_def Let_def envelopeWithinTarget_def simp del: stringify.simps split: sum.splits if_splits)

lemma card_update_carries:
  assumes "buildCardUpdate url cid model ts = Inr envelope"
  shows "\<exists>c. validateCard url model = Inr c \<and> field envelope ''card'' = Some (JObj c)
    \<and> field c ''id'' = Some (JStr cid) \<and> byte_length (stringify (JObj envelope)) \<le> 9000"
  using assms by (auto simp: buildCardUpdate_def Let_def envelopeWithinTarget_def simp del: stringify.simps split: sum.splits if_splits)

subsection \<open>Actions\<close>





lemma exact_slots_data:
  "exactSlots (as_data (JObj ob)) required opt \<longleftrightarrow> exactKeys ob required opt"
proof -
  have m: "map_of (map (map_prod id (Data True)) (map (map_prod id plain_value) ob)) k \<noteq> None \<longleftrightarrow> map_of ob k \<noteq> None" for k
    by (induction ob) auto
  have "list_all (\<lambda>(k, s). k \<in> K \<and> is_data s) (map (map_prod id (Data True)) (map (map_prod id plain_value) ob))
      \<longleftrightarrow> list_all (\<lambda>(k, v). k \<in> K) ob" for K
    by (induction ob) auto
  with m show ?thesis by (simp add: as_data_def exactKeys_def own_key_def [abs_def])
qed

definition card_action_message :: "jstr \<Rightarrow> jstr option \<Rightarrow> jstr option \<Rightarrow> json \<Rightarrow> jobj" where
  "card_action_message cid bid rid a = [(js ''msg_type'', JLit ''card_action''), (js ''cardId'', JStr cid), (js ''action'', a)]
     @ copied ''buttonId'' (map_option JStr bid) @ copied ''request_id'' (map_option JStr rid)"

definition meta_of :: "jstr \<Rightarrow> jstr option \<Rightarrow> jstr option \<Rightarrow> intent_metadata" where
  "meta_of cid bid rid = \<lparr>i_cardId = cid, i_buttonId = bid, i_requestId = rid\<rparr>"

lemma message_is_routed:
  assumes "identifier_ok 128 cid" "\<forall>b. bid = Some b \<longrightarrow> identifier_ok 128 b" "\<forall>q. rid = Some q \<longrightarrow> identifier_ok 128 q"
  shows "routeCardAction (as_data (JObj (card_action_message cid bid rid (JObj ob)))) = route_action (meta_of cid bid rid) (as_data (JObj ob))"
proof -
  let ?v = "as_data (JObj (card_action_message cid bid rid (JObj ob)))"
  have r: "read_prop ?v ''msg_type'' = Some (VStr (js ''card_action''))" "read_prop ?v ''cardId'' = Some (VStr cid)"
    "read_prop ?v ''action'' = as_data (JObj ob)" "read_prop ?v ''buttonId'' = reading_of (map_option JStr bid)"
    "read_prop ?v ''request_id'' = reading_of (map_option JStr rid)" "read_prop ?v ''timestamp'' = Some VUndefined"
    by (simp_all add: card_action_message_def read_again)
  have "exactKeys (card_action_message cid bid rid (JObj ob)) [''msg_type'', ''cardId'', ''action''] [''buttonId'', ''request_id'', ''timestamp'']"
    by (cases bid; cases rid) (simp_all add: exactKeys_def own_key_def card_action_message_def copied_def)
  moreover have "metadata ?v = Some (meta_of cid bid rid)"
    unfolding metadata_def r using assms
    by (cases bid; cases rid) (simp_all add: meta_of_def card_identifier_def optional_def)
  ultimately show ?thesis by (simp add: routeCardAction_def r exact_slots_data word_simps optional_def)
qed










subsection \<open>Concrete runs\<close>

definition card_sample :: jobj where
  "card_sample = [(js ''schema'', JLit ''1.0.0''), (js ''id'', JLit ''c1''), (js ''header'', JObj [(js ''title'', JLit ''Run'')]),
     (js ''sections'', JArr [JObj [(js ''kind'', JLit ''note''), (js ''text'', JLit ''ok'')]])]"

lemma allowed_plain: "length s \<le> n \<Longrightarrow> s \<noteq> [] \<Longrightarrow> list_all plain_char s \<Longrightarrow> allowed_string n e (js s)"
proof -
  assume l: "length s \<le> n" "s \<noteq> []" "list_all plain_char s"
  have "\<not> has_control (js s)" by (rule has_control_plain) (rule l)
  hence "text_controls_ok (js s)" by (simp add: has_control_def text_controls_ok_def list_all_iff list_ex_iff)
  thus ?thesis using l by (simp add: allowed_string_def)
qed

lemmas card_eval = read_prop_given word_simps allowedText_def allowed_plain card_identifier_def identifier_plain
  plain_char_def optional_def sanitize_all_def put_def copied_def made_def

lemma card_sample: "validateCard (\<lambda>_. None) (as_data (JObj card_sample)) = Inr card_sample"
proof -
  have "ascii_text (stringify (JObj card_sample)) \<and> length (stringify (JObj card_sample)) \<le> 300"
    by (simp add: card_sample_def quote_js quotable_def num_text_digit)
  hence "\<not> byte_length (stringify (JObj card_sample)) > CARD_HARD_BYTE_LIMIT"
    by (simp add: byte_length_ascii CARD_HARD_BYTE_LIMIT_def)
  thus ?thesis
    unfolding validateCard_def by (simp add: card_eval card_sample_def CARD_SCHEMA_VERSION_def card_header_ok_def card_header_def
        card_config_def sanitizeSection_def note_section_def Let_def del: stringify.simps)
qed

lemma accepted_card_is_a_fixed_point_witness:
  "validateCard (\<lambda>_. None) (as_data (JObj card_sample)) = Inr card_sample
    \<and> byte_length (stringify (JObj card_sample)) \<le> CARD_HARD_BYTE_LIMIT"
  by (rule accepted_card_is_a_fixed_point [OF card_sample])




text \<open>
  The validator lets a tab or a line break into an answer, the router does not: the button of such a card
  is accepted, and pressing it is refused as malformed.
\<close>

definition broken_answer :: jobj where
  "broken_answer = [(js ''type'', JLit ''answer''), (js ''questionId'', JLit ''q1''), (js ''value'', JArr [JStr [10]])]"

lemma accepted_answer_is_refused:
  "sanitizeAction (as_data (JObj broken_answer)) = Some (JObj broken_answer)
    \<and> routeCardAction (as_data (JObj (card_action_message (js ''c1'') None None (JObj broken_answer))))
      = Refused (Some (meta_of (js ''c1'') None None)) InvalidAction"
proof
  have c: "code_points [10 :: code_unit] = [10]" by simp
  have "allowed_string 1000 False [10]" by (simp add: allowed_string_def text_controls_ok_def c)
  thus "sanitizeAction (as_data (JObj broken_answer)) = Some (JObj broken_answer)"
    by (simp add: broken_answer_def sanitizeAction_def card_eval map_filter_simps)
  have "\<not> answer_text (Some (VStr [10]))" by (simp add: answer_text_def has_control_def c is_Cc_def)
  moreover have "routeCardAction (as_data (JObj (card_action_message (js ''c1'') None None (JObj broken_answer))))
      = route_action (meta_of (js ''c1'') None None) (as_data (JObj broken_answer))"
    by (rule message_is_routed) (simp_all add: identifier_plain plain_char_def)
  ultimately show "routeCardAction (as_data (JObj (card_action_message (js ''c1'') None None (JObj broken_answer))))
      = Refused (Some (meta_of (js ''c1'') None None)) InvalidAction"
    by (simp add: route_action_def broken_answer_def card_eval Let_def)
qed

end
