(* ===== verification/TaskOutput.thy ===== *)
theory TaskOutput imports CardActions MarkerTheorems ChatStream begin

text \<open>
  What a running task writes, from \<^verbatim>\<open>router/message-router.ts\<close>: the text collected from the deltas of
  the agent with its limit, the completed reply that may revise it, and the stream event and cards the
  terminal flush sends.  The reading of numerals \<open>cv\<close> and the parser of URLs are parameters.
\<close>

definition MAX_OUTPUT_BYTES :: nat where
  "MAX_OUTPUT_BYTES = 1024 * 1024"

definition OUTPUT_TRUNCATED_TEXT :: jstr where
  "OUTPUT_TRUNCATED_TEXT = js ''[output_truncated]''"

definition MAX_OUTPUT_CONTENT_BYTES :: nat where
  "MAX_OUTPUT_CONTENT_BYTES = MAX_OUTPUT_BYTES - byte_length OUTPUT_TRUNCATED_TEXT"

subsection \<open>The longest beginning within a number of bytes\<close>

text \<open>The binary search for the length.\<close>

function utf8_search :: "jstr \<Rightarrow> nat \<Rightarrow> nat \<Rightarrow> nat \<Rightarrow> nat" where
  "utf8_search v mx low high =
     (if low < high then
        let middle = (low + high + 1) div 2
        in if byte_length (take middle v) \<le> mx then utf8_search v mx middle high
           else utf8_search v mx low (middle - 1)
      else low)"
  by pat_completeness auto
termination
  by (relation "measure (\<lambda>(v, mx, low, high). high - low)") auto

declare utf8_search.simps [simp del]

definition utf8Prefix :: "jstr \<Rightarrow> int \<Rightarrow> jstr" where
  "utf8Prefix v maximumBytes =
     (if maximumBytes \<le> 0 then []
      else if int (byte_length v) \<le> maximumBytes then v
      else let low = utf8_search v (nat maximumBytes) 0 (length v)
           in take (if 0 < low \<and> is_high (v ! (low - 1)) then low - 1 else low) v)"

subsection \<open>The text of a task\<close>

record task_output =
  rawOutput :: jstr
  rawOutputBytes :: nat
  completedOutput :: "marker_result option"
  deliveredTextCharacters :: nat
  sawTextDelta :: bool
  outputTruncated :: bool

definition no_output :: task_output where
  "no_output = \<lparr>rawOutput = [], rawOutputBytes = 0, completedOutput = None, deliveredTextCharacters = 0,
     sawTextDelta = False, outputTruncated = False\<rparr>"

definition appendOutput :: "jstr \<Rightarrow> task_output \<Rightarrow> task_output" where
  "appendOutput v a =
     (if v = [] \<or> outputTruncated a then a
      else let available = max 0 (int MAX_OUTPUT_CONTENT_BYTES - int (rawOutputBytes a));
               accepted = utf8Prefix v available;
               a1 = a\<lparr>rawOutput := rawOutput a @ accepted, rawOutputBytes := rawOutputBytes a + byte_length accepted\<rparr>
           in if length accepted \<noteq> length v
              then a1\<lparr>rawOutput := rawOutput a1 @ OUTPUT_TRUNCATED_TEXT,
                      rawOutputBytes := rawOutputBytes a1 + byte_length OUTPUT_TRUNCATED_TEXT, outputTruncated := True\<rparr>
              else a1)"

text \<open>The event \<open>text_delta\<close>.\<close>

definition text_delta :: "jstr \<Rightarrow> task_output \<Rightarrow> task_output" where
  "text_delta t a = (if t = [] then a else appendOutput t (a\<lparr>sawTextDelta := True\<rparr>))"

definition card_reading :: "jobj \<Rightarrow> reading" where
  "card_reading rawCard = Some (plain_value (JObj rawCard))"

definition card_valid :: "url_parser \<Rightarrow> jobj \<Rightarrow> bool" where
  "card_valid url rawCard = (case validateCard url (card_reading rawCard) of Inl e \<Rightarrow> False | Inr c \<Rightarrow> True)"

text \<open>Cards by their identifier, a later one in the place of an earlier.\<close>

definition cards_by_id :: "url_parser \<Rightarrow> jobj list \<Rightarrow> (jstr, jobj) jsmap" where
  "cards_by_id url rawCards = fold (\<lambda>rawCard m.
     (case validateCard url (card_reading rawCard) of
        Inl e \<Rightarrow> m
      | Inr c \<Rightarrow> mset_at m (str_field c ''id'') rawCard)) rawCards []"

definition invalid_texts :: "nat \<Rightarrow> jstr" where
  "invalid_texts n = concat (replicate n INVALID_CARD_MARKER_TEXT)"

definition card_bytes :: "jobj list \<Rightarrow> nat" where
  "card_bytes cs = sum_list (map (\<lambda>c. byte_length (stringify (JObj c))) cs)"

definition within_text_limit :: "int \<Rightarrow> jstr \<Rightarrow> jstr" where
  "within_text_limit textLimit t =
     (if int (byte_length t) > textLimit
      then utf8Prefix t (textLimit - int (byte_length OUTPUT_TRUNCATED_TEXT)) @ OUTPUT_TRUNCATED_TEXT else t)"

text \<open>The revision of earlier deltas by a completed reply.\<close>

definition revised_output :: "url_parser \<Rightarrow> jstr \<Rightarrow> marker_result \<Rightarrow> marker_result \<Rightarrow> marker_result" where
  "revised_output url previousVisibleText previous completed0 =
     (let completed1 = (if ends_with (m_text completed0) previousVisibleText
                        then completed0\<lparr>m_text := previousVisibleText\<rparr> else completed0);
          combinedCards = map snd (cards_by_id url (m_cards previous @ m_cards completed1));
          invalidFinalCards = length (filter (\<lambda>c. \<not> card_valid url c) (m_cards completed1));
          kept = take MAX_CARD_MARKERS combinedCards;
          t = m_text completed1 @ invalid_texts (invalidFinalCards + (length combinedCards - MAX_CARD_MARKERS));
          textLimit = int MAX_OUTPUT_BYTES - int (card_bytes kept)
      in completed1\<lparr>m_cards := kept, m_text := within_text_limit textLimit t\<rparr>)"

definition appendCompletedOutput :: "(jstr \<Rightarrow> jnum) \<Rightarrow> url_parser \<Rightarrow> jstr \<Rightarrow> task_output \<Rightarrow> task_output" where
  "appendCompletedOutput cv url reply a =
     (if \<not> sawTextDelta a then appendOutput reply a
      else if starts_with (rawOutput a) reply then appendOutput (drop (length (rawOutput a)) reply) a
      else if ends_with reply (rawOutput a) then a
      else let previousVisibleText = streamSafeContent cv (rawOutput a);
               previous = parseCardMarkers cv (rawOutput a);
               a1 = appendOutput reply (a\<lparr>rawOutput := [], rawOutputBytes := 0, outputTruncated := False\<rparr>)
           in a1\<lparr>completedOutput := Some (revised_output url previousVisibleText previous
                  (parseCardMarkers cv (rawOutput a1)))\<rparr>)"

text \<open>The event \<open>completed\<close>.\<close>

definition completed_event :: "(jstr \<Rightarrow> jnum) \<Rightarrow> url_parser \<Rightarrow> jstr \<Rightarrow> task_output \<Rightarrow> task_output" where
  "completed_event cv url reply a = (if reply = [] then a else appendCompletedOutput cv url reply a)"

subsection \<open>The events of the stream\<close>

record stream_task =
  st_streamId :: jstr
  st_requestMessageId :: jstr
  st_nodeId :: jstr
  st_conversation :: conversation
  st_seq :: nat
  st_error :: "jstr option"

definition stream_event :: "stream_task \<Rightarrow> jstr \<Rightarrow> string \<Rightarrow> jobj" where
  "stream_event t visible status =
     [(js ''msg_type'', JLit ''chat_stream''), (js ''protocol_version'', JInt 1), (js ''stream_id'', JStr (st_streamId t)),
      (js ''request_message_id'', JStr (st_requestMessageId t)), (js ''requester_id'', JStr (c_senderId (st_conversation t))),
      (js ''node_id'', JStr (st_nodeId t)), (js ''conversation_type'', JInt (conv_code (c_type (st_conversation t)))),
      (js ''conversation_id'', JStr (replyTargetId (st_conversation t))), (js ''seq'', JInt (int (st_seq t))),
      (js ''status'', JLit status), (js ''text'', JStr visible)] @ copied ''error_code'' (map_option JStr (st_error t))"

record worker_send =
  ws_conversationType :: int
  ws_targetId :: jstr
  ws_messageType :: string
  ws_content :: json

definition structuredResponse :: "conversation \<Rightarrow> string \<Rightarrow> jobj \<Rightarrow> worker_send" where
  "structuredResponse c ty content = \<lparr>ws_conversationType = conv_code (c_type c), ws_targetId = replyTargetId c,
     ws_messageType = ty, ws_content = JObj content\<rparr>"

text \<open>The sequence number is taken when the argument of the encoder is built, so also when it refuses.\<close>

definition streamMessages ::
  "(bytes \<Rightarrow> bytes) \<Rightarrow> (jstr \<Rightarrow> jnum) \<Rightarrow> stream_task \<Rightarrow> jstr \<Rightarrow> string \<Rightarrow> (chat_error, worker_send list) result \<times> stream_task" where
  "streamMessages sha cv t visible status =
     ((case encodeChatStreamEvent sha cv (plain_value (JObj (stream_event t visible status))) of
         Inl e \<Rightarrow> Inl e
       | Inr frames \<Rightarrow> Inr (map (\<lambda>(ty, content). structuredResponse (st_conversation t) ty content) frames)),
      t\<lparr>st_seq := Suc (st_seq t)\<rparr>)"

subsection \<open>The terminal flush\<close>

definition parsed_output :: "(jstr \<Rightarrow> jnum) \<Rightarrow> task_output \<Rightarrow> marker_result" where
  "parsed_output cv a = (case completedOutput a of None \<Rightarrow> parseCardMarkers cv (rawOutput a) | Some m \<Rightarrow> m)"

text \<open>The card messages, with the number of cards that could not be sent.\<close>

fun card_messages :: "url_parser \<Rightarrow> conversation \<Rightarrow> int \<Rightarrow> jobj list \<Rightarrow> worker_send list \<times> nat" where
  "card_messages url c now [] = ([], 0)"
| "card_messages url c now (rawCard # r) =
     (let (messages, invalid) = card_messages url c now r in
      case validateCard url (card_reading rawCard) of
        Inl e \<Rightarrow> (messages, Suc invalid)
      | Inr v \<Rightarrow> (case buildCardMessage url (card_reading v) now of
          Inl e \<Rightarrow> (messages, Suc invalid)
        | Inr envelope \<Rightarrow> (structuredResponse c ''card_message'' envelope # messages, invalid)))"

definition finalText :: "jstr \<Rightarrow> nat \<Rightarrow> jstr" where
  "finalText t invalidCards =
     (let t1 = t @ invalid_texts invalidCards
      in if byte_length t1 > MAX_OUTPUT_BYTES then utf8Prefix t1 (int MAX_OUTPUT_CONTENT_BYTES) @ OUTPUT_TRUNCATED_TEXT else t1)"

definition terminal_messages ::
  "(bytes \<Rightarrow> bytes) \<Rightarrow> (jstr \<Rightarrow> jnum) \<Rightarrow> url_parser \<Rightarrow> stream_task \<Rightarrow> string \<Rightarrow> int \<Rightarrow> task_output
     \<Rightarrow> (chat_error, worker_send list \<times> worker_send list) result" where
  "terminal_messages sha cv url t status now a =
     (let parsed = parsed_output cv a;
          (cards, invalidCards) = card_messages url (st_conversation t) now (m_cards parsed)
      in map_sum id (\<lambda>texts. (texts, cards)) (fst (streamMessages sha cv t (finalText (m_text parsed) invalidCards) status)))"

end
