(* ===== verification/TaskOutputProofs.thy ===== *)
theory TaskOutputProofs imports TaskOutput CardTheorems begin

text \<open>
  The bounds of a task's output and what the terminal flush sends.
\<close>

subsection \<open>Bytes of parts of a text\<close>

lemma surrogate_bytes: "is_high u \<Longrightarrow> byte_length [u] = 3" "is_low u \<Longrightarrow> byte_length [u] = 3"
  by (auto simp: byte_length_def utf8_encode_def encode_point_def is_high_def is_low_def is_surrogate_def)

lemma pair_bytes: "is_high u \<Longrightarrow> is_low v \<Longrightarrow> byte_length (u # v # r) = 4 + byte_length r"
  by (auto simp: byte_length_def utf8_encode_def encode_point_def pair_point_def is_surrogate_def)

lemma unit_Cons: "\<not> (is_high u \<and> r \<noteq> [] \<and> is_low (hd r)) \<Longrightarrow> byte_length (u # r) = byte_length [u] + byte_length r"
  by (cases r) (auto simp: byte_length_def utf8_encode_def)

lemma low_not_high: "is_low u \<Longrightarrow> \<not> is_high u"
  by (auto simp: is_low_def is_high_def)

lemma byte_length_Cons_unit:
  "byte_length (u # r) \<le> byte_length [u] + byte_length r" "byte_length [u] \<le> byte_length (u # r)"
proof -
  have "byte_length (u # r) \<le> byte_length [u] + byte_length r \<and> byte_length [u] \<le> byte_length (u # r)"
  proof (cases "is_high u \<and> r \<noteq> [] \<and> is_low (hd r)")
    case True
    then obtain v t where r: "r = v # t" "is_low v" by (cases r) auto
    hence "byte_length r = 3 + byte_length t" using unit_Cons [of v t] surrogate_bytes(2) low_not_high by simp
    thus ?thesis using True r pair_bytes [of u v t] surrogate_bytes(1) [of u] by simp
  qed (use unit_Cons [of u r] in simp)
  thus "byte_length (u # r) \<le> byte_length [u] + byte_length r" "byte_length [u] \<le> byte_length (u # r)" by simp_all
qed

lemma byte_length_parts: "byte_length s \<le> byte_length (s @ t) \<and> byte_length (s @ t) \<le> byte_length s + byte_length t"
proof (induction s rule: code_points.induct)
  case (2 u)
  show ?case using byte_length_Cons_unit [of u t] by simp
next
  case (3 u v r)
  show ?case
  proof (cases "is_high u \<and> is_low v")
    case True
    thus ?thesis using 3(1) pair_bytes by auto
  next
    case False
    thus ?thesis using 3(2) unit_Cons [of u "v # r"] unit_Cons [of u "v # r @ t"] by auto
  qed
qed simp

lemmas byte_length_prefix = byte_length_parts [THEN conjunct1]
lemmas byte_length_append_le = byte_length_parts [THEN conjunct2]

lemma byte_length_pos: "s \<noteq> [] \<Longrightarrow> 0 < byte_length s"
  using length_bytes [of s] by (cases s) auto

lemma byte_length_take_mono: "m \<le> n \<Longrightarrow> byte_length (take m s) \<le> byte_length (take n s)"
  using byte_length_prefix [of "take m s" "take (n - m) (drop m s)"] by (simp flip: take_add)

subsection \<open>The binary search\<close>

lemma utf8_search_step:
  "low < high \<Longrightarrow> m = (low + high + 1) div 2 \<Longrightarrow> utf8_search v mx low high =
    (if byte_length (take m v) \<le> mx then utf8_search v mx m high else utf8_search v mx low (m - 1))"
  by (subst utf8_search.simps) (simp add: Let_def)

lemma utf8_search_spec:
  "low \<le> high \<Longrightarrow> byte_length (take low v) \<le> mx \<Longrightarrow>
     (let r = utf8_search v mx low high in low \<le> r \<and> r \<le> high \<and> byte_length (take r v) \<le> mx
        \<and> (r < high \<longrightarrow> mx < byte_length (take (Suc r) v)))"
proof (induction v mx low high rule: utf8_search.induct)
  case (1 v mx low high)
  show ?case
  proof (cases "low < high")
    case True
    define m where "m = (low + high + 1) div 2"
    have m: "low < m" "m \<le> high" using True by (auto simp: m_def)
    show ?thesis
    proof (cases "byte_length (take m v) \<le> mx")
      case fit: True
      have "utf8_search v mx low high = utf8_search v mx m high"
        using utf8_search_step [OF True m_def] fit by simp
      thus ?thesis using "1.IH"(1) [OF True m_def fit m(2) fit] m by (simp add: Let_def)
    next
      case False
      have e: "utf8_search v mx low high = utf8_search v mx low (m - 1)"
        using utf8_search_step [OF True m_def] False by simp
      have "low \<le> m - 1" using m by simp
      from "1.IH"(2) [OF True m_def False this "1.prems"(2)]
      have r: "low \<le> utf8_search v mx low (m - 1)" "utf8_search v mx low (m - 1) \<le> m - 1"
        "byte_length (take (utf8_search v mx low (m - 1)) v) \<le> mx"
        "utf8_search v mx low (m - 1) < m - 1 \<longrightarrow> mx < byte_length (take (Suc (utf8_search v mx low (m - 1))) v)"
        by (simp_all add: Let_def)
      have "mx < byte_length (take (Suc (utf8_search v mx low (m - 1))) v)"
      proof (cases "utf8_search v mx low (m - 1) < m - 1")
        case last: False
        hence "Suc (utf8_search v mx low (m - 1)) = m" using r(2) m by simp
        thus ?thesis using False by simp
      qed (use r(4) in simp)
      thus ?thesis unfolding e using r(1-3) m by (simp add: Let_def)
    qed
  next
    case False
    hence "utf8_search v mx low high = low" by (subst utf8_search.simps) simp
    thus ?thesis using "1.prems" False by (simp add: Let_def)
  qed
qed

lemma utf8Prefix_take: "\<exists>n. utf8Prefix v mx = take n v"
  by (auto simp: utf8Prefix_def Let_def intro: exI [of _ "length v"] exI [of _ 0])

lemma utf8Prefix_bytes: "int (byte_length (utf8Prefix v mx)) \<le> max 0 mx"
proof (cases "0 < mx \<and> mx < int (byte_length v)")
  case True
  define low where "low = utf8_search v (nat mx) 0 (length v)"
  have "byte_length (take low v) \<le> nat mx" using utf8_search_spec [of 0 "length v" v "nat mx"] by (simp add: low_def Let_def)
  moreover have "byte_length (take (low - 1) v) \<le> byte_length (take low v)" by (rule byte_length_take_mono) simp
  ultimately have "int (byte_length (take low v)) \<le> mx" "int (byte_length (take (low - 1) v)) \<le> mx" using True by linarith+
  thus ?thesis using True by (simp add: utf8Prefix_def Let_def low_def [symmetric])
next
  case False
  thus ?thesis by (auto simp: utf8Prefix_def)
qed

lemma utf8Prefix_all: "int (byte_length v) \<le> mx \<Longrightarrow> 0 < mx \<Longrightarrow> utf8Prefix v mx = v"
  by (simp add: utf8Prefix_def)

text \<open>It is as long as it can be, except that it does not end in the first half of a pair.\<close>

lemma utf8Prefix_longest:
  assumes "n \<le> length v" "int (byte_length (take n v)) \<le> mx" "0 < n" "\<not> is_high (v ! (n - 1))"
  shows "n \<le> length (utf8Prefix v mx)"
proof -
  have "0 < byte_length (take n v)" using assms(1,3) by (intro byte_length_pos) auto
  hence p: "0 < mx" using assms(2) by linarith
  show ?thesis
  proof (cases "int (byte_length v) \<le> mx")
    case True
    thus ?thesis using p assms(1) by (simp add: utf8Prefix_def)
  next
    case False
    define low where "low = utf8_search v (nat mx) 0 (length v)"
    have s: "low \<le> length v" "low < length v \<longrightarrow> nat mx < byte_length (take (Suc low) v)"
      using utf8_search_spec [of 0 "length v" v "nat mx"] by (simp_all add: low_def Let_def)
    have "n \<le> low"
    proof (rule ccontr)
      assume n: "\<not> n \<le> low"
      hence "byte_length (take (Suc low) v) \<le> byte_length (take n v)" by (intro byte_length_take_mono) simp
      thus False using s n assms(1,2) p by linarith
    qed
    moreover have "n \<noteq> low \<or> \<not> is_high (v ! (low - 1))" using assms(4) by auto
    ultimately show ?thesis using p False s(1) by (auto simp: utf8Prefix_def Let_def low_def [symmetric])
  qed
qed

subsection \<open>The bounds of the output\<close>

lemma marker_bytes: "byte_length OUTPUT_TRUNCATED_TEXT = 18" "MAX_OUTPUT_CONTENT_BYTES = 1048558"
proof -
  show "byte_length OUTPUT_TRUNCATED_TEXT = 18" by (simp add: OUTPUT_TRUNCATED_TEXT_def byte_length_ascii)
  thus "MAX_OUTPUT_CONTENT_BYTES = 1048558" by (simp add: MAX_OUTPUT_CONTENT_BYTES_def MAX_OUTPUT_BYTES_def)
qed

definition output_inv :: "task_output \<Rightarrow> bool" where
  "output_inv a \<longleftrightarrow> byte_length (rawOutput a) \<le> rawOutputBytes a \<and> rawOutputBytes a \<le> MAX_OUTPUT_BYTES
     \<and> (\<not> outputTruncated a \<longrightarrow> rawOutputBytes a \<le> MAX_OUTPUT_CONTENT_BYTES)"

lemma appendOutput_inv: "output_inv a \<Longrightarrow> output_inv (appendOutput v a)"
proof -
  assume i: "output_inv a"
  define acc where "acc = utf8Prefix v (max 0 (int MAX_OUTPUT_CONTENT_BYTES - int (rawOutputBytes a)))"
  show ?thesis
  proof (cases "v = [] \<or> outputTruncated a")
    case False
    have "int (byte_length acc) \<le> max 0 (int MAX_OUTPUT_CONTENT_BYTES - int (rawOutputBytes a))"
      using utf8Prefix_bytes [of v "max 0 (int MAX_OUTPUT_CONTENT_BYTES - int (rawOutputBytes a))"] by (simp add: acc_def)
    hence b: "rawOutputBytes a + byte_length acc \<le> MAX_OUTPUT_CONTENT_BYTES" using i False by (simp add: output_inv_def)
    have c: "byte_length (rawOutput a @ acc) \<le> rawOutputBytes a + byte_length acc"
      using byte_length_append_le [of "rawOutput a" acc] i by (simp add: output_inv_def)
    have "byte_length ((rawOutput a @ acc) @ OUTPUT_TRUNCATED_TEXT) \<le> rawOutputBytes a + byte_length acc + 18"
      using byte_length_append_le [of "rawOutput a @ acc" OUTPUT_TRUNCATED_TEXT] c marker_bytes by linarith
    thus ?thesis using False b c unfolding appendOutput_def Let_def acc_def [symmetric]
      by (simp add: output_inv_def marker_bytes MAX_OUTPUT_BYTES_def)
  qed (use i in \<open>simp add: appendOutput_def\<close>)
qed

subsection \<open>The terminal flush\<close>

lemma truncated_bytes: "int (byte_length (utf8Prefix t (n - 18) @ OUTPUT_TRUNCATED_TEXT)) \<le> max 18 n"
  using byte_length_append_le [of "utf8Prefix t (n - 18)" OUTPUT_TRUNCATED_TEXT] utf8Prefix_bytes [of t "n - 18"] marker_bytes(1)
  by linarith

lemma finalText_bytes: "byte_length (finalText t n) \<le> MAX_OUTPUT_BYTES"
  using truncated_bytes [of "t @ invalid_texts n" "int MAX_OUTPUT_BYTES"]
  by (auto simp: finalText_def Let_def MAX_OUTPUT_BYTES_def marker_bytes(2))

text \<open>The identifiers of a task that the stream carries.\<close>

definition stream_ids_ok :: "stream_task \<Rightarrow> bool" where
  "stream_ids_ok t \<longleftrightarrow> identifier_ok 256 (st_streamId t) \<and> identifier_ok 256 (st_requestMessageId t)
     \<and> identifier_ok 256 (st_nodeId t) \<and> identifier_ok 256 (c_senderId (st_conversation t))
     \<and> identifier_ok 256 (replyTargetId (st_conversation t)) \<and> int (st_seq t) \<le> max_safe
     \<and> (\<forall>e. st_error t = Some e \<longrightarrow> identifier_ok 256 e)"

definition stream_order :: "string list" where
  "stream_order = [''msg_type'', ''protocol_version'', ''stream_id'', ''request_message_id'', ''requester_id'', ''node_id'',
     ''conversation_type'', ''conversation_id'', ''seq'', ''status'', ''text'', ''error_code'']"

lemma chat_identifier_text: "chat_identifier (Some (JStr s)) \<longleftrightarrow> identifier_ok 256 s"
  by (auto simp: chat_identifier_def str_test_iff identifier_ok_def)

lemma stream_event_in_order:
  assumes "stream_ids_ok t" "byte_length visible \<le> MAX_OUTPUT_BYTES"
    "status \<in> {''processing'', ''streaming'', ''completed'', ''cancelled'', ''failed''}"
  shows "event_in_order stream_order (stream_event t visible status)"
proof -
  have f: "field (stream_event t visible status) ''error_code'' = map_option JStr (st_error t)"
    by (cases "st_error t") (simp_all add: stream_event_def copied_def)
  have "eventSchema (stream_event t visible status)"
  proof -
    have "list_all (\<lambda>(k, v). k \<in> js ` set event_keys) (stream_event t visible status)"
      by (cases "st_error t") (simp_all add: stream_event_def copied_def event_keys_def)
    moreover have "JInt (conv_code (c_type (st_conversation t))) \<in> {JInt 1, JInt 3, JInt 4}"
      by (cases "c_type (st_conversation t)") simp_all
    moreover have "absent_or chat_identifier (map_option JStr (st_error t))"
      using assms(1) by (cases "st_error t") (simp_all add: absent_or_def stream_ids_ok_def chat_identifier_text)
    ultimately show ?thesis using assms
      by (auto simp: eventSchema_def f chat_stream_base_def chat_conversation_def stream_event_def is_lit_def chat_identifier_text
          stream_ids_ok_def integer_cases one_of_def MAX_OUTPUT_BYTES_def str_test_iff field_optional_end)
  qed
  moreover have "in_schema_order stream_order (stream_event t visible status) = stream_event t visible status"
    by (cases "st_error t") (simp_all add: stream_order_def in_schema_order_def stream_event_def copied_def)
  moreover have "distinct stream_order" "set stream_order = set event_keys" by (auto simp: stream_order_def event_keys_def)
  ultimately show ?thesis by (simp add: event_in_order_def)
qed

text \<open>A text within the limit can be sent.\<close>

lemma streamMessages_sends:
  assumes "stream_ids_ok t" "byte_length visible \<le> MAX_OUTPUT_BYTES"
    "status \<in> {''processing'', ''streaming'', ''completed'', ''cancelled'', ''failed''}" "\<forall>x. length (sha x) = 32"
  shows "\<exists>texts. fst (streamMessages sha cv t visible status) = Inr texts \<and> texts \<noteq> []
    \<and> (\<forall>m \<in> set texts. byte_length (stringify (ws_content m)) \<le> 9000 \<and> ws_targetId m = replyTargetId (st_conversation t))"
proof -
  define ev where "ev = in_schema_order event_keys (stream_event t visible status)"
  have p: "parseChatStreamEvent (plain_value (JObj (stream_event t visible status))) = Some ev"
    unfolding ev_def by (rule ordered_event_snapshot [OF stream_event_in_order [OF assms(1-3)]])
  have e: "chat_event ev" by (rule parsed_event [OF p])
  from encoded_event [OF p assms(4), of cv] show ?thesis
  proof (elim disjE conjE)
    assume "encodeChatStreamEvent sha cv (plain_value (JObj (stream_event t visible status))) = Inr [(''chat_stream'', ev)]"
      "byte_length (stringify (JObj ev)) \<le> 9000"
    thus ?thesis by (simp add: streamMessages_def structuredResponse_def del: stringify.simps plain_value.simps)
  next
    assume "2 \<le> chunk_count (whole_of ev)"
      "encodeChatStreamEvent sha cv (plain_value (JObj (stream_event t visible status)))
        = Inr (map (\<lambda>i. (''chat_stream_chunk'', chunk_frame sha ev i)) [0..<chunk_count (whole_of ev)])"
    thus ?thesis using chunk_frame_facts(2) [OF e assms(4)]
      by (auto simp: streamMessages_def structuredResponse_def simp del: stringify.simps plain_value.simps)
  qed
qed

lemma card_messages_fit: "\<forall>m \<in> set (fst (card_messages url c now cards)). byte_length (stringify (ws_content m)) \<le> 9000"
  by (induction cards) (auto simp: Let_def structuredResponse_def buildCardMessage_def envelopeWithinTarget_def
      simp del: stringify.simps split: prod.splits sum.splits if_splits)

text \<open>C24 A task that ends always answers: whatever the agent wrote and however it ended, the terminal flush
  obtains its messages, at least one event with the final text, every one within the 9000 bytes of a
  frame; the final text is within 1 MiB.\<close>

theorem terminal_reply_is_sent:
  assumes "stream_ids_ok t" "status \<in> {''completed'', ''cancelled'', ''failed''}" "\<forall>x. length (sha x) = 32"
  shows "\<exists>texts cards. terminal_messages sha cv url t status now a = Inr (texts, cards) \<and> texts \<noteq> []
    \<and> (\<forall>m \<in> set (texts @ cards). byte_length (stringify (ws_content m)) \<le> 9000)
    \<and> byte_length (finalText (m_text (parsed_output cv a)) (snd (card_messages url (st_conversation t) now (m_cards (parsed_output cv a)))))
        \<le> MAX_OUTPUT_BYTES"
proof -
  let ?c = "card_messages url (st_conversation t) now (m_cards (parsed_output cv a))"
  let ?f = "finalText (m_text (parsed_output cv a)) (snd ?c)"
  have "status \<in> {''processing'', ''streaming'', ''completed'', ''cancelled'', ''failed''}" using assms(2) by blast
  from streamMessages_sends [OF assms(1) finalText_bytes [of "m_text (parsed_output cv a)" "snd ?c"] this assms(3), where cv = cv]
  obtain texts where t: "fst (streamMessages sha cv t ?f status) = Inr texts" "texts \<noteq> []"
    "\<forall>m \<in> set texts. byte_length (stringify (ws_content m)) \<le> 9000" by blast
  have "terminal_messages sha cv url t status now a = Inr (texts, fst ?c)"
    by (simp add: terminal_messages_def Let_def case_prod_unfold t(1))
  thus ?thesis using t(2,3) card_messages_fit [of url "st_conversation t" now "m_cards (parsed_output cv a)"] finalText_bytes
    by auto
qed

subsection \<open>Streaming and completion\<close>

lemma stream_grows: "prefix (streamSafeContent cv s) (streamSafeContent cv (s @ later))"
  "prefix (streamSafeContent cv s) (m_text (parseCardMarkers cv (s @ later)))"
  using parse_markers_grows [OF refl, of cv 0 s no_markers _ later]
  by (simp_all add: streamSafeContent_def parseCardMarkers_def parse_text_def extends_def)

lemma appendOutput_extends: "\<exists>later. rawOutput (appendOutput v a) = rawOutput a @ later"
  "completedOutput (appendOutput v a) = completedOutput a"
  by (auto simp: appendOutput_def Let_def)

lemma text_delta_extends: "\<exists>later. rawOutput (text_delta d a) = rawOutput a @ later"
  using appendOutput_extends(1) [of d "a\<lparr>sawTextDelta := True\<rparr>"] by (simp add: text_delta_def)

text \<open>What was shown stays: each snapshot that is streamed begins with every earlier one, and the final
  text begins with the last one, unless the completed reply differs from what was streamed, that is
  neither continues it nor repeats its end.\<close>

theorem streamed_text_survives:
  assumes "completedOutput a = None"
    "\<not> sawTextDelta a \<or> starts_with (rawOutput a) reply \<or> ends_with reply (rawOutput a) \<or> reply = []"
  shows "prefix (streamSafeContent cv (rawOutput a)) (streamSafeContent cv (rawOutput (text_delta d a)))
    \<and> prefix (streamSafeContent cv (rawOutput a)) (m_text (parsed_output cv (completed_event cv url reply a)))"
proof
  obtain later where "rawOutput (text_delta d a) = rawOutput a @ later" using text_delta_extends by blast
  thus "prefix (streamSafeContent cv (rawOutput a)) (streamSafeContent cv (rawOutput (text_delta d a)))"
    using stream_grows(1) by simp
  have "\<exists>later. rawOutput (completed_event cv url reply a) = rawOutput a @ later"
    "completedOutput (completed_event cv url reply a) = None"
    using assms appendOutput_extends by (auto simp: completed_event_def appendCompletedOutput_def)
  thus "prefix (streamSafeContent cv (rawOutput a)) (m_text (parsed_output cv (completed_event cv url reply a)))"
    using stream_grows(2) by (auto simp: parsed_output_def)
qed





subsection \<open>Snapshots that cannot be sent\<close>

text \<open>
  Only the terminal flush cuts the text to the limit.  A marker that is not a card is shown as a longer
  text, so the visible text of an output within its limit can exceed what an event may carry; such a
  snapshot is refused by the encoder and dropped.
\<close>

definition odd_marker :: jstr where
  "odd_marker = opener_value CardTag @ stringify (JArr []) @ [93]"

lemma odd_marker_length: "length odd_marker = 10" "byte_length (concat (replicate n odd_marker)) = 10 * n"
proof -
  have o: "odd_marker = js ''[CARD][[]]''" by (simp add: odd_marker_def js_def cu_def)
  show "length odd_marker = 10" unfolding o by simp
  have "ascii_text (concat (replicate n odd_marker))" by (induction n) (simp_all add: o)
  moreover have "length (concat (replicate n odd_marker)) = 10 * n" by (induction n) (simp_all add: o)
  ultimately show "byte_length (concat (replicate n odd_marker)) = 10 * n" by (simp add: byte_length_ascii)
qed

lemma odd_marker_step:
  "\<exists>e. parse_markers cv final n (odd_marker @ rest) r = parse_markers cv final (Suc n) rest (bad_marker e r)"
proof -
  let ?v = "JArr []" and ?body = "stringify (JArr []) @ 93 # rest"
  let ?scan = "\<lparr>sc_end = 2, sc_complete = True, sc_oversized = False\<rparr>"
  have t: "stringify ?v = [91, 93]" "inner_text ?v = []" by (simp_all add: inner_text_def)
  have "byte_length [91 :: code_unit, 93] = 2" using byte_length_ascii [of "[91 :: code_unit, 93]"] by simp
  hence s: "scanJson ?body = ?scan"
    using scan_printed [of cv ?v 91 93 "93 # rest"] t by (simp add: CARD_MARKER_BYTE_LIMIT_def)
  have e: "earliestOpener (opener_value CardTag @ ?body) = Some (CardTag, 0)"
    using first_opener_here [of CardTag ?body] by (simp only: earliest_first)
  have "marker_value cv CardTag ?body True ?scan = None" by (simp add: marker_value_def)
  hence "take_marker cv (Suc n) CardTag ?body True ?scan r = bad_marker (if MAX_CARD_MARKERS < Suc n then TooManyMarkers else InvalidMarker) r"
    by (simp add: take_marker_def del: stringify.simps)
  then obtain x where x: "take_marker cv (Suc n) CardTag ?body True ?scan r = bad_marker x r" by blast
  have "parse_markers cv final n (opener_value CardTag @ ?body) r = parse_markers cv final (Suc n)
      (if True then drop (Suc (sc_end ?scan)) ?body else []) (take_marker cv (Suc n) CardTag ?body True ?scan
        (emit (take 0 (opener_value CardTag @ ?body)) r))"
    by (rule parse_step [OF _ e _ _ s]) (use t in simp_all)
  thus ?thesis using x t by (auto simp: odd_marker_def)
qed

lemma odd_markers_shown:
  "m_text (parse_markers cv final n (concat (replicate k odd_marker)) r) = m_text r @ invalid_texts k"
proof (induction k arbitrary: n r)
  case (Suc k)
  obtain e where "parse_markers cv final n (odd_marker @ concat (replicate k odd_marker)) r
      = parse_markers cv final (Suc n) (concat (replicate k odd_marker)) (bad_marker e r)"
    using odd_marker_step by blast
  thus ?case using Suc by (simp add: bad_marker_def invalid_texts_def)
qed (simp add: parse_markers.simps invalid_texts_def)

lemma invalid_texts_bytes: "byte_length (invalid_texts n) = 21 * n"
proof -
  have "ascii_text (invalid_texts n) \<and> length (invalid_texts n) = 21 * n"
    by (induction n) (simp_all add: invalid_texts_def INVALID_CARD_MARKER_TEXT_def)
  thus ?thesis by (simp add: byte_length_ascii)
qed

lemma clone_flat:
  "clone_props (map (map_prod id (Data True)) (map (map_prod id plain_value) ob)) b d acc = (Inr r, b') \<Longrightarrow>
   \<forall>(k, v) \<in> set ob. \<not> dangerous k \<and> ((\<exists>s. v = JStr s) \<or> (\<exists>n. v = JNum n)) \<Longrightarrow> r = fold (\<lambda>(k, v) ob. obj_set ob k v) ob acc"
  by (induction ob arbitrary: b acc) (auto split: prod.splits if_splits sum.splits)

lemma snapshot_flat:
  assumes "passiveSnapshot (plain_value (JObj ob)) n = Inr (j, m)" "build_obj ob = ob"
    "\<forall>(k, v) \<in> set ob. \<not> dangerous k \<and> ((\<exists>s. v = JStr s) \<or> (\<exists>n. v = JNum n))"
  shows "j = JObj ob"
  using assms clone_flat [OF _ assms(3)]
  by (auto simp: passiveSnapshot_def Let_def build_obj_def simp del: stringify.simps split: sum.splits if_splits prod.splits)

lemma oversized_snapshot_is_refused:
  "\<exists>raw. byte_length raw \<le> MAX_OUTPUT_CONTENT_BYTES
    \<and> parseChatStreamEvent (plain_value (JObj (stream_event t (streamSafeContent cv raw) ''streaming''))) = None"
proof -
  let ?raw = "concat (replicate 60000 odd_marker)"
  have b: "byte_length (streamSafeContent cv ?raw) = 1260000"
    using odd_markers_shown [of cv False 0 60000 no_markers]
    by (simp add: streamSafeContent_def parse_text_def no_markers_def invalid_texts_bytes)
  define ev where "ev = stream_event t (streamSafeContent cv ?raw) ''streaming''"
  have f: "field ev ''text'' = Some (JStr (streamSafeContent cv ?raw))" by (simp add: ev_def stream_event_def)
  have "\<not> eventSchema ev" using b by (simp add: eventSchema_def f)
  moreover have "ob = ev" if "passiveSnapshot (plain_value (JObj ev)) CHAT_SNAPSHOT_BYTES = Inr (JObj ob, n)" for ob n
  proof -
    have "build_obj ev = ev"
      by (rule build_obj_plain; cases "st_error t") (simp_all add: ev_def stream_event_def copied_def not_index_js)
    moreover have "\<forall>(k, v) \<in> set ev. \<not> dangerous k \<and> ((\<exists>s. v = JStr s) \<or> (\<exists>n. v = JNum n))"
      by (cases "st_error t") (simp_all add: ev_def stream_event_def copied_def dangerous_def dangerousObjectKeys_def)
    ultimately show ?thesis using snapshot_flat [OF that] by simp
  qed
  ultimately have "parseChatStreamEvent (plain_value (JObj ev)) = None"
    by (auto simp: parseChatStreamEvent_def chat_parse_def split: sum.split prod.split json.split)
  moreover have "byte_length ?raw \<le> MAX_OUTPUT_CONTENT_BYTES" by (simp only: odd_marker_length marker_bytes)
  ultimately show ?thesis unfolding ev_def by blast
qed

subsection \<open>Concrete runs\<close>

definition stream_task_sample :: stream_task where
  "stream_task_sample = \<lparr>st_streamId = js ''s1'', st_requestMessageId = js ''m1'', st_nodeId = js ''n1'',
     st_conversation = \<lparr>c_runtimeId = js ''r1'', c_nodeId = js ''n1'', c_groupScope = False, c_type = Private,
       c_targetId = js ''n1'', c_senderId = js ''u1''\<rparr>, st_seq = 3, st_error = None\<rparr>"

lemma stream_ids_sample: "stream_ids_ok stream_task_sample"
  by (simp add: stream_ids_ok_def stream_task_sample_def replyTargetId_def identifier_plain plain_char_def max_safe_def)

lemma terminal_reply_is_sent_witness:
  "\<exists>texts cards. terminal_messages sha_demo (\<lambda>_. NInt 0) (\<lambda>_. None) stream_task_sample ''completed'' 0 no_output = Inr (texts, cards)
    \<and> texts \<noteq> []"
  using terminal_reply_is_sent [OF stream_ids_sample, of "''completed''" sha_demo "\<lambda>_. NInt 0" "\<lambda>_. None" 0 no_output] length_sha_demo
  by auto

lemma streamed_text_survives_witness:
  "prefix (streamSafeContent (\<lambda>_. NInt 0) (rawOutput no_output))
     (m_text (parsed_output (\<lambda>_. NInt 0) (completed_event (\<lambda>_. NInt 0) (\<lambda>_. None) (js ''done'') no_output)))"
  by (rule streamed_text_survives [THEN conjunct2]) (simp_all add: no_output_def)



end
