(* ===== verification/OutputBuffer.thy ===== *)
theory OutputBuffer imports TaskOutputProofs begin

text \<open>
  The output of tasks that could not be sent, from \<^verbatim>\<open>router/message-router.ts\<close>: the terminal flush and the
  snapshots hand the messages the worker refused for the moment to a bounded buffer of their binding, and
  a drain sends them when the binding is online again.  Everything that runs between two awaits is one
  step.  An object is identified by the number \<open>order\<close> it got when it was made, as the code compares entries
  by reference.  The log of what the drains sent is of the model.
\<close>

definition MAX_BUFFERED_OUTPUT_ENTRIES :: nat where
  "MAX_BUFFERED_OUTPUT_ENTRIES = 32"

definition MAX_BUFFERED_OUTPUT_BYTES :: nat where
  "MAX_BUFFERED_OUTPUT_BYTES = 10 * 1024 * 1024"

definition TRANSIENT_OUTPUT_CODES :: "jstr list" where
  "TRANSIENT_OUTPUT_CODES = [js ''not_connected'', js ''disconnected'', js ''timeout'', js ''worker_exited'']"

text \<open>What the worker answers: the code is absent when the error has none.\<close>

datatype send_result = Delivered | Refused "jstr option"

definition kept_for_later :: "jstr option \<Rightarrow> bool" where
  "kept_for_later code \<longleftrightarrow> (case code of None \<Rightarrow> False | Some c \<Rightarrow> c = js ''queue_full'' \<or> c \<in> set TRANSIENT_OUTPUT_CODES)"

subsection \<open>The buffer of a binding\<close>

datatype buffer_kind = CoarseOutput | TerminalOutput

text \<open>\<open>bu_frames\<close> is \<open>frameCount\<close> with \<open>frameCursor\<close>; they are present together.\<close>

record buffered =
  bu_task :: jstr
  bu_kind :: buffer_kind
  bu_messages :: "worker_send list"
  bu_bytes :: nat
  bu_order :: nat
  bu_frames :: "(nat \<times> nat) option"

definition send_json :: "worker_send \<Rightarrow> json" where
  "send_json m = JObj [(js ''conversationType'', JInt (ws_conversationType m)), (js ''targetId'', JStr (ws_targetId m)),
     (js ''messageType'', JLit (ws_messageType m)), (js ''content'', ws_content m)]"

definition send_bytes :: "worker_send list \<Rightarrow> nat" where
  "send_bytes ms = byte_length (stringify (JArr (map send_json ms)))"

text \<open>The frames of a terminal output that is buffered from its first chunk on.\<close>

definition first_chunk :: "worker_send \<Rightarrow> nat option" where
  "first_chunk m = (case ws_content m of
     JObj ob \<Rightarrow> (if ws_messageType m = ''chat_stream_chunk'' \<and> field ob ''chunkIndex'' = Some (JInt 0)
                then (case field ob ''chunkCount'' of Some (JNum (NInt n)) \<Rightarrow> Some (nat n) | _ \<Rightarrow> None) else None)
   | _ \<Rightarrow> None)"

definition new_buffered :: "jstr \<Rightarrow> buffer_kind \<Rightarrow> worker_send list \<Rightarrow> nat \<Rightarrow> buffered" where
  "new_buffered task kind messages order =
     \<lparr>bu_task = task, bu_kind = kind, bu_messages = messages, bu_bytes = send_bytes messages, bu_order = order,
      bu_frames = (if kind = TerminalOutput then map_option (\<lambda>n. (n, 0)) (first_chunk (hd messages)) else None)\<rparr>"

text \<open>The entry with the smallest number, the first of them if there are several.\<close>

primrec oldest :: "buffered \<Rightarrow> buffered list \<Rightarrow> buffered" where
  "oldest e [] = e"
| "oldest e (x # r) = oldest (if bu_order x < bu_order e then x else e) r"

definition total_bytes :: "buffered list \<Rightarrow> nat" where
  "total_bytes es = sum_list (map bu_bytes es)"

definition over_limits :: "buffered list \<Rightarrow> bool" where
  "over_limits es \<longleftrightarrow> length es > MAX_BUFFERED_OUTPUT_ENTRIES \<or> total_bytes es > MAX_BUFFERED_OUTPUT_BYTES"

text \<open>The entry that goes: a snapshot as long as there is one.\<close>

definition oldest_of :: "buffered list \<Rightarrow> buffered option" where
  "oldest_of es = (case es of [] \<Rightarrow> None | e # r \<Rightarrow> Some (oldest e r))"

definition victim :: "buffered list \<Rightarrow> buffered option" where
  "victim es = (case oldest_of (filter (\<lambda>e. bu_kind e = CoarseOutput) es) of
     None \<Rightarrow> oldest_of es | Some e \<Rightarrow> Some e)"

lemma oldest_in: "oldest e r \<in> set (e # r)"
  by (induction r arbitrary: e) (auto split: if_splits)

lemma oldest_of_in: "oldest_of es = Some e \<Longrightarrow> e \<in> set es"
proof (cases es)
  case (Cons x r)
  assume "oldest_of es = Some e"
  thus ?thesis using oldest_in [of x r] by (simp add: oldest_of_def Cons)
qed (simp add: oldest_of_def)

lemma victim_in: "victim es = Some e \<Longrightarrow> e \<in> set es"
proof (cases "oldest_of (filter (\<lambda>e. bu_kind e = CoarseOutput) es)")
  case (Some x)
  assume "victim es = Some e"
  thus ?thesis using oldest_of_in [OF Some] Some by (simp add: victim_def)
next
  case None
  assume "victim es = Some e"
  hence "oldest_of es = Some e" by (simp add: victim_def None)
  thus ?thesis by (rule oldest_of_in)
qed

function drop_excess :: "buffered list \<Rightarrow> buffered list" where
  "drop_excess es =
     (if over_limits es then case victim es of None \<Rightarrow> es | Some e \<Rightarrow> drop_excess (remove1 e es) else es)"
  by pat_completeness auto
termination
proof (relation "measure length", goal_cases)
  case (2 es e)
  hence "e \<in> set es" by (intro victim_in)
  thus ?case using length_pos_if_in_set [of e es] by (simp add: length_remove1)
qed simp

declare drop_excess.simps [simp del]

record delivery =
  dv_buffer :: "(jstr, buffered list) jsmap"
  dv_order :: nat
  dv_drains :: "(jstr, (buffered \<times> worker_send) option) jsmap"
  dv_disposed :: "jstr list"
  dv_log :: "(jstr \<times> worker_send) list"

definition no_delivery :: delivery where
  "no_delivery = \<lparr>dv_buffer = [], dv_order = 0, dv_drains = [], dv_disposed = [], dv_log = []\<rparr>"

definition buffer_of :: "delivery \<Rightarrow> jstr \<Rightarrow> buffered list" where
  "buffer_of d key = (case mget (dv_buffer d) key of None \<Rightarrow> [] | Some es \<Rightarrow> es)"

text \<open>The list of a binding is stored unless it is empty.\<close>

definition set_buffer :: "jstr \<Rightarrow> buffered list \<Rightarrow> delivery \<Rightarrow> delivery" where
  "set_buffer key es d = d\<lparr>dv_buffer := (if es = [] then mdelete (dv_buffer d) key else mset_at (dv_buffer d) key es)\<rparr>"

definition bufferTaskOutput :: "jstr \<Rightarrow> jstr \<Rightarrow> buffer_kind \<Rightarrow> worker_send list \<Rightarrow> delivery \<Rightarrow> delivery" where
  "bufferTaskOutput key task kind messages d =
     (if messages = [] \<or> key \<in> set (dv_disposed d) then d
      else let retained = filter (\<lambda>e. bu_task e \<noteq> task \<or> (kind = CoarseOutput \<and> bu_kind e = TerminalOutput)) (buffer_of d key);
               entry = new_buffered task kind messages (dv_order d)
           in set_buffer key (drop_excess (retained @ [entry])) (d\<lparr>dv_order := Suc (dv_order d)\<rparr>))"

definition removeBufferedTask :: "jstr \<Rightarrow> jstr \<Rightarrow> buffer_kind option \<Rightarrow> delivery \<Rightarrow> delivery" where
  "removeBufferedTask key task kind d =
     (case mget (dv_buffer d) key of None \<Rightarrow> d
      | Some es \<Rightarrow> set_buffer key (filter (\<lambda>e. bu_task e \<noteq> task \<or> (kind \<noteq> None \<and> Some (bu_kind e) \<noteq> kind)) es) d)"

definition deleteBufferedEntry :: "jstr \<Rightarrow> buffered \<Rightarrow> delivery \<Rightarrow> delivery" where
  "deleteBufferedEntry key entry d =
     (case mget (dv_buffer d) key of None \<Rightarrow> d
      | Some es \<Rightarrow> if list_ex (\<lambda>e. bu_order e = bu_order entry) es
                  then set_buffer key (filter (\<lambda>e. bu_order e \<noteq> bu_order entry) es) d else d)"

text \<open>A change of the entry object, seen wherever the object is.\<close>

definition change_entry :: "jstr \<Rightarrow> nat \<Rightarrow> (buffered \<Rightarrow> buffered) \<Rightarrow> delivery \<Rightarrow> delivery" where
  "change_entry key order f d =
     (case mget (dv_buffer d) key of None \<Rightarrow> d
      | Some es \<Rightarrow> d\<lparr>dv_buffer := mset_at (dv_buffer d) key (map (\<lambda>e. if bu_order e = order then f e else e) es)\<rparr>)"

subsection \<open>The drain\<close>

definition frame_cursor :: "buffered \<Rightarrow> nat" where
  "frame_cursor e = (case bu_frames e of None \<Rightarrow> 0 | Some (n, c) \<Rightarrow> c)"

definition current_message :: "buffered \<Rightarrow> worker_send option" where
  "current_message e = (if frame_cursor e < length (bu_messages e) then Some (bu_messages e ! frame_cursor e) else None)"

text \<open>From the head of the loop to the next await: entries without a message are deleted.\<close>

function drain_next :: "jstr \<Rightarrow> delivery \<Rightarrow> delivery" where
  "drain_next key d =
     (if key \<in> set (dv_disposed d) then d\<lparr>dv_drains := mset_at (dv_drains d) key None\<rparr>
      else case buffer_of d key of
        [] \<Rightarrow> d\<lparr>dv_drains := mset_at (dv_drains d) key None\<rparr>
      | e # r \<Rightarrow> (let entry = oldest e r in case current_message entry of
            None \<Rightarrow> drain_next key (deleteBufferedEntry key entry d)
          | Some m \<Rightarrow> d\<lparr>dv_drains := mset_at (dv_drains d) key (Some (entry, m))\<rparr>))"
  by pat_completeness auto
termination
proof (relation "measure (\<lambda>(key, d). length (buffer_of d key))", goal_cases)
  case (2 key d e r x)
  have "x \<in> set (buffer_of d key)" "x \<in> set (e # r)" using 2 oldest_in [of e r] by auto
  hence m: "mget (dv_buffer d) key = Some (e # r)" "list_ex (\<lambda>y. bu_order y = bu_order x) (e # r)"
    using 2 by (auto simp: buffer_of_def list_ex_iff split: option.splits)
  have "length (filter (\<lambda>y. bu_order y \<noteq> bu_order x) (e # r)) < length (e # r)"
    using \<open>x \<in> set (e # r)\<close> by (rule length_filter_less) simp
  moreover have "buffer_of (deleteBufferedEntry key x d) key = filter (\<lambda>y. bu_order y \<noteq> bu_order x) (e # r)"
    using m by (auto simp: deleteBufferedEntry_def buffer_of_def set_buffer_def mget_set_at mget_delete)
  ultimately show ?case using m(1) by (simp add: buffer_of_def)
qed simp

declare drain_next.simps [simp del]

definition drainBufferedOutput :: "jstr \<Rightarrow> delivery \<Rightarrow> delivery" where
  "drainBufferedOutput key d =
     (if key \<in> set (dv_disposed d) \<or> mhas (dv_drains d) key then d else drain_next key d)"

text \<open>After the frames of a snapshot its other messages follow one by one.\<close>

definition sent_one :: "buffered \<Rightarrow> buffered" where
  "sent_one e = (case bu_frames e of
     Some (n, c) \<Rightarrow> if Suc c < n then e\<lparr>bu_frames := Some (n, Suc c)\<rparr>
                   else let ms = drop n (bu_messages e) in e\<lparr>bu_messages := ms, bu_frames := None, bu_bytes := send_bytes ms\<rparr>
   | None \<Rightarrow> let ms = tl (bu_messages e) in e\<lparr>bu_messages := ms, bu_bytes := send_bytes ms\<rparr>)"

definition advance_entry :: "jstr \<Rightarrow> buffered \<Rightarrow> delivery \<Rightarrow> delivery" where
  "advance_entry key e d = (let d1 = change_entry key (bu_order e) sent_one d
     in if bu_messages (sent_one e) = [] then deleteBufferedEntry key e d1 else d1)"

definition restart_frames :: "buffered \<Rightarrow> buffered" where
  "restart_frames e = e\<lparr>bu_frames := map_option (\<lambda>(n, c). (n, 0)) (bu_frames e)\<rparr>"

text \<open>The answer to the send of the drain.  The entry may have been removed in the meantime.\<close>

definition drain_settled :: "jstr \<Rightarrow> send_result \<Rightarrow> delivery \<Rightarrow> delivery" where
  "drain_settled key result d = (case mget (dv_drains d) key of
     Some (Some (entry, m)) \<Rightarrow>
       (case result of
          Refused code \<Rightarrow>
            if kept_for_later code
            then (change_entry key (bu_order entry) restart_frames d)\<lparr>dv_drains := mset_at (dv_drains d) key None\<rparr>
            else drain_next key (deleteBufferedEntry key entry d)
        | Delivered \<Rightarrow>
            let d1 = d\<lparr>dv_log := dv_log d @ [(key, m)]\<rparr>
            in case List.find (\<lambda>e. bu_order e = bu_order entry) (buffer_of d key) of
                 None \<Rightarrow> drain_next key d1
               | Some e \<Rightarrow> if current_message e \<noteq> Some m then drain_next key d1 else drain_next key (advance_entry key e d1))
   | _ \<Rightarrow> d)"

text \<open>\<open>finally\<close>, in a microtask after the loop has returned.\<close>

definition drain_finally :: "jstr \<Rightarrow> delivery \<Rightarrow> delivery" where
  "drain_finally key d = (if mget (dv_drains d) key = Some None then d\<lparr>dv_drains := mdelete (dv_drains d) key\<rparr> else d)"

text \<open>What the disposal of a binding and its activation do to the buffer.\<close>

definition dispose_buffer :: "jstr \<Rightarrow> delivery \<Rightarrow> delivery" where
  "dispose_buffer key d = d\<lparr>dv_disposed := List.insert key (dv_disposed d), dv_buffer := mdelete (dv_buffer d) key\<rparr>"

definition activate_buffer :: "jstr \<Rightarrow> delivery \<Rightarrow> delivery" where
  "activate_buffer key d = d\<lparr>dv_disposed := removeAll key (dv_disposed d)\<rparr>"

datatype delivery_event =
    Buffer jstr jstr buffer_kind "worker_send list"
  | Unbuffer jstr jstr "buffer_kind option"
  | BindingOnline jstr
  | Settle jstr send_result
  | DrainEnd jstr
  | DisposeBinding jstr
  | ActivateBinding jstr

fun delivery_step :: "delivery \<Rightarrow> delivery_event \<Rightarrow> delivery" where
  "delivery_step d (Buffer key task kind messages) = bufferTaskOutput key task kind messages d"
| "delivery_step d (Unbuffer key task kind) = removeBufferedTask key task kind d"
| "delivery_step d (BindingOnline key) = drainBufferedOutput key d"
| "delivery_step d (Settle key result) = drain_settled key result d"
| "delivery_step d (DrainEnd key) = drain_finally key d"
| "delivery_step d (DisposeBinding key) = dispose_buffer key d"
| "delivery_step d (ActivateBinding key) = activate_buffer key d"

subsection \<open>Sending the output of a task\<close>

text \<open>
  One await of a send: what others do meanwhile, the answer, and whether afterwards the task may still send
  (it is not suppressed and its binding is of the same generation).
\<close>

record send_tick =
  sd_before :: "delivery_event list"
  sd_result :: send_result
  sd_current :: bool

type_synonym send_answers = "nat \<Rightarrow> send_tick"

definition meanwhile :: "send_tick \<Rightarrow> delivery \<Rightarrow> delivery" where
  "meanwhile t d = run_steps delivery_step d (sd_before t)"

text \<open>The terminal flush: the messages that were delivered, and the buffer.\<close>

fun flush_messages :: "jstr \<Rightarrow> jstr \<Rightarrow> nat \<Rightarrow> worker_send list \<Rightarrow> nat \<Rightarrow> worker_send list \<Rightarrow> send_answers \<Rightarrow> delivery
    \<Rightarrow> worker_send list \<times> delivery" where
  "flush_messages key task texts messages index [] ans d = ([], removeBufferedTask key task None d)"
| "flush_messages key task texts messages index (m # r) ans d =
     (let t = ans index; d1 = meanwhile t d in
      case sd_result t of
        Delivered \<Rightarrow> if \<not> sd_current t then ([m], d1)
          else (let (sent, d2) = flush_messages key task texts messages (Suc index) r ans d1 in (m # sent, d2))
      | Refused code \<Rightarrow> ([],
          if kept_for_later code
          then bufferTaskOutput key task TerminalOutput (drop (if index < texts then 0 else index) messages) d1
          else removeBufferedTask key task None d1))"

definition flushTerminal :: "jstr \<Rightarrow> jstr \<Rightarrow> worker_send list \<Rightarrow> worker_send list \<Rightarrow> send_answers \<Rightarrow> delivery
    \<Rightarrow> worker_send list \<times> delivery" where
  "flushTerminal key task texts cards ans d =
     flush_messages key task (length texts) (texts @ cards) 0 (texts @ cards) ans
       (removeBufferedTask key task (Some CoarseOutput) d)"

text \<open>A snapshot while the text streams; the first check is the caller's.\<close>

fun sendStreamSnapshot :: "jstr \<Rightarrow> jstr \<Rightarrow> nat \<Rightarrow> worker_send list \<Rightarrow> send_answers \<Rightarrow> delivery \<Rightarrow> worker_send list \<times> delivery" where
  "sendStreamSnapshot key task index [] ans d = ([], removeBufferedTask key task (Some CoarseOutput) d)"
| "sendStreamSnapshot key task index (m # r) ans d =
     (let t = ans index; d1 = meanwhile t d in
      case sd_result t of
        Delivered \<Rightarrow> if r \<noteq> [] \<and> \<not> sd_current t then ([m], d1)
          else (let (sent, d2) = sendStreamSnapshot key task (Suc index) r ans d1 in (m # sent, d2))
      | Refused code \<Rightarrow> ([], if kept_for_later code then bufferTaskOutput key task CoarseOutput (m # r) d1 else d1))"

end
