(* ===== verification/OutputBufferProofs.thy ===== *)
theory OutputBufferProofs imports OutputBuffer begin

text \<open>
  The buffer of output stays within its limits and loses terminal output last, a chunked reply is delivered
  with all its frames in a row, and a drain that is not refused delivers everything.
\<close>

subsection \<open>Bytes of messages\<close>

lemma byte_length_Cons_mono: "byte_length r \<le> byte_length (u # r)"
proof (cases "is_high u \<and> r \<noteq> [] \<and> is_low (hd r)")
  case True
  then obtain v t where r: "r = v # t" "is_low v" by (cases r) auto
  hence "byte_length r = 3 + byte_length t" using unit_Cons [of v t] surrogate_bytes(2) low_not_high by simp
  thus ?thesis using True r pair_bytes [of u v t] by simp
qed (use unit_Cons [of u r] in simp)

lemma byte_length_suffix: "byte_length t \<le> byte_length (s @ t)"
  by (induction s) (auto intro: order_trans [OF _ byte_length_Cons_mono])

lemma ascii_Cons: "unat u < 128 \<Longrightarrow> byte_length (u # r) = 1 + byte_length r"
  using unit_Cons [of u r] well_formed_unit [of u] by (auto simp: is_high_def)

lemma send_bytes_tl: "send_bytes (tl ms) \<le> send_bytes ms"
proof (cases ms)
  case (Cons m r)
  have "byte_length (stringify (JArr (map send_json r))) \<le> byte_length (stringify (JArr (map send_json (m # r))))"
  proof (cases r)
    case Nil
    have "byte_length [91, 93] \<le> byte_length (91 # stringify (send_json m) @ [93])"
      using byte_length_suffix [of "[93]" "stringify (send_json m)"] ascii_Cons [of 91 "[93]"] ascii_Cons [of 91 "stringify (send_json m) @ [93]"] by simp
    thus ?thesis using Nil by simp
  next
    case (Cons x q)
    let ?r = "join_comma (stringify_all (map send_json r)) @ [93]"
    have "byte_length ?r \<le> byte_length (stringify (send_json m) @ 44 # ?r)"
      using byte_length_suffix [of ?r "stringify (send_json m) @ [44]"] by simp
    hence "byte_length (91 # ?r) \<le> byte_length (91 # stringify (send_json m) @ 44 # ?r)"
      using ascii_Cons [of 91 ?r] ascii_Cons [of 91 "stringify (send_json m) @ 44 # ?r"] by simp
    thus ?thesis using Cons by simp
  qed
  thus ?thesis using Cons by (simp add: send_bytes_def del: stringify.simps)
qed simp

lemma send_bytes_drop: "send_bytes (drop n ms) \<le> send_bytes ms"
proof (induction n)
  case (Suc n)
  have "drop (Suc n) ms = tl (drop n ms)" by (simp add: drop_Suc tl_drop)
  thus ?case using send_bytes_tl [of "drop n ms"] Suc by simp
qed simp

subsection \<open>What is dropped\<close>

abbreviation in_order :: "buffered list \<Rightarrow> bool" where
  "in_order es \<equiv> sorted_wrt (\<lambda>a b. bu_order a < bu_order b) es"

lemma in_order_remove1: "in_order es \<Longrightarrow> in_order (remove1 e es)"
  by (induction es) (auto dest: notin_set_remove1)

lemma oldest_first: "\<forall>x \<in> set r. bu_order e < bu_order x \<Longrightarrow> oldest e r = e"
  by (induction r) auto

lemma oldest_of_in_order: "in_order (e # r) \<Longrightarrow> oldest_of (e # r) = Some e"
  by (simp add: oldest_of_def oldest_first)

lemma drop_excess_unfold:
  "drop_excess es = (if over_limits es then case victim es of None \<Rightarrow> es | Some e \<Rightarrow> drop_excess (remove1 e es) else es)"
  by (rule drop_excess.simps)

lemma not_over_Nil: "\<not> over_limits []"
  by (simp add: over_limits_def total_bytes_def)

lemma victim_None: "victim es = None \<Longrightarrow> es = []"
  by (cases es) (auto simp: victim_def oldest_of_def split: option.splits)

lemma drop_excess_facts:
  "\<not> over_limits (drop_excess es) \<and> set (drop_excess es) \<subseteq> set es \<and> (in_order es \<longrightarrow> in_order (drop_excess es))"
proof (induction es rule: drop_excess.induct)
  case (1 es)
  show ?case
  proof (cases "over_limits es")
    case True
    then obtain e where e: "victim es = Some e" using victim_None not_over_Nil by (cases "victim es") auto
    have "drop_excess es = drop_excess (remove1 e es)" using True e by (subst drop_excess_unfold) simp
    thus ?thesis using 1 [OF True e] in_order_remove1 [of es e] set_remove1_subset [of e es] by auto
  next
    case False
    thus ?thesis using drop_excess_unfold [of es] by simp
  qed
qed

lemmas drop_excess_bounded = drop_excess_facts [THEN conjunct1]
lemmas drop_excess_subset = drop_excess_facts [THEN conjunct2, THEN conjunct1]

lemma victim_cases:
  assumes "victim es = Some e"
  shows "bu_kind e = CoarseOutput \<or> ((\<forall>x \<in> set es. bu_kind x = TerminalOutput) \<and> oldest_of es = Some e)"
proof (cases "filter (\<lambda>e. bu_kind e = CoarseOutput) es")
  case Nil
  hence "\<forall>x \<in> set es. bu_kind x = TerminalOutput" by (auto simp: filter_empty_conv intro: buffer_kind.exhaust)
  thus ?thesis using assms Nil by (simp add: victim_def oldest_of_def)
next
  case (Cons x r)
  hence "oldest_of (filter (\<lambda>e. bu_kind e = CoarseOutput) es) = Some e" using assms by (simp add: victim_def oldest_of_def)
  thus ?thesis using oldest_of_in by fastforce
qed

text \<open>A terminal output goes only when no snapshot is left.\<close>

lemma terminal_dropped_last:
  assumes "x \<in> set es" "bu_kind x = TerminalOutput" "x \<notin> set (drop_excess es)"
  shows "\<forall>y \<in> set (drop_excess es). bu_kind y = TerminalOutput"
  using assms
proof (induction es rule: drop_excess.induct)
  case (1 es)
  have o: "over_limits es"
  proof (rule ccontr)
    assume "\<not> over_limits es"
    hence "drop_excess es = es" by (subst drop_excess_unfold) simp
    thus False using "1.prems"(1,3) by simp
  qed
  have "victim es \<noteq> None" using victim_None [of es] "1.prems"(1) by (metis empty_iff list.set(1))
  then obtain e where e: "victim es = Some e" by blast
  have d: "drop_excess es = drop_excess (remove1 e es)" using o e by (subst drop_excess_unfold) simp
  show ?case
  proof (cases "bu_kind e = CoarseOutput")
    case True
    hence "x \<noteq> e" using "1.prems"(2) by auto
    hence "x \<in> set (remove1 e es)" using "1.prems"(1) by simp
    thus ?thesis using "1.IH" [OF o e] "1.prems"(2,3) d by simp
  next
    case False
    hence "\<forall>x \<in> set es. bu_kind x = TerminalOutput" using victim_cases [OF e] by blast
    thus ?thesis using drop_excess_subset [of es] by blast
  qed
qed

text \<open>The newest output is kept if it is terminal and fits by itself.\<close>

lemma newest_kept:
  assumes "in_order es" "es \<noteq> []" "last es = x" "bu_kind x = TerminalOutput" "bu_bytes x \<le> MAX_BUFFERED_OUTPUT_BYTES"
  shows "x \<in> set (drop_excess es)"
  using assms
proof (induction es rule: drop_excess.induct)
  case (1 es)
  show ?case
  proof (cases "over_limits es")
    case True
    then obtain e where e: "victim es = Some e" using "1.prems"(2) victim_None by (cases "victim es") auto
    obtain y r where es: "es = y # r" using "1.prems"(2) by (cases es) auto
    have "r \<noteq> []"
    proof
      assume "r = []"
      hence "es = [x]" using es "1.prems"(3) by simp
      thus False using True "1.prems"(5) by (simp add: over_limits_def total_bytes_def MAX_BUFFERED_OUTPUT_ENTRIES_def)
    qed
    have "e \<noteq> x"
    proof
      assume "e = x"
      hence "oldest_of es = Some x" using victim_cases [OF e] "1.prems"(4) by simp
      hence "x = y" using oldest_of_in_order "1.prems"(1) es by simp
      moreover have "x \<in> set r" using "1.prems"(3) es \<open>r \<noteq> []\<close> by auto
      ultimately show False using "1.prems"(1) es by auto
    qed
    obtain p where p: "es = p @ [x]" using "1.prems"(2,3) append_butlast_last_id by metis
    have "e \<in> set p" using victim_in [OF e] \<open>e \<noteq> x\<close> p by auto
    hence r1: "remove1 e es = remove1 e p @ [x]" using p by (simp add: remove1_append)
    hence "x \<in> set (drop_excess (remove1 e es))"
      using "1.IH" [OF True e in_order_remove1 [OF "1.prems"(1)]] "1.prems"(4,5) by simp
    thus ?thesis using True e by (subst drop_excess_unfold) simp
  next
    case False
    thus ?thesis using drop_excess_unfold [of es] "1.prems"(2,3) by auto
  qed
qed

subsection \<open>The invariant\<close>

definition klog :: "delivery \<Rightarrow> jstr \<Rightarrow> worker_send list" where
  "klog d key = map snd (filter (\<lambda>p. fst p = key) (dv_log d))"

definition entry_ok :: "nat \<Rightarrow> buffered \<Rightarrow> bool" where
  "entry_ok order e \<longleftrightarrow> bu_order e < order \<and> bu_messages e \<noteq> [] \<and> bu_bytes e = send_bytes (bu_messages e)"

definition base_ok :: "nat \<Rightarrow> bool \<Rightarrow> buffered list \<Rightarrow> bool" where
  "base_ok order disp es \<longleftrightarrow> (disp \<longrightarrow> es = []) \<and> \<not> over_limits es \<and> in_order es \<and> (\<forall>e \<in> set es. entry_ok order e)"

text \<open>Frames that count as sent are the last the log has, and belong to the oldest entry.\<close>

definition framed :: "worker_send list \<Rightarrow> buffered list \<Rightarrow> bool" where
  "framed log es \<longleftrightarrow> (\<forall>e \<in> set es. 0 < frame_cursor e \<longrightarrow>
     suffix (take (frame_cursor e) (bu_messages e)) log \<and> (\<forall>x \<in> set es. bu_order e \<le> bu_order x))"

definition flying :: "nat \<Rightarrow> (buffered \<times> worker_send) option option \<Rightarrow> buffered list \<Rightarrow> bool" where
  "flying order drain es \<longleftrightarrow> (case drain of
     Some (Some (x, m)) \<Rightarrow> bu_order x < order \<and> (\<forall>e \<in> set es. bu_order x \<le> bu_order e
        \<and> (bu_order e = bu_order x \<longrightarrow> current_message e = Some m) \<and> (0 < frame_cursor e \<longrightarrow> bu_order e = bu_order x))
   | _ \<Rightarrow> (\<forall>e \<in> set es. frame_cursor e = 0))"

definition binding_ok where
  "binding_ok order disp log drain es \<longleftrightarrow> base_ok order disp es \<and> framed log es \<and> flying order drain es"

definition delivery_inv :: "delivery \<Rightarrow> bool" where
  "delivery_inv d \<longleftrightarrow> (\<forall>key. binding_ok (dv_order d) (key \<in> set (dv_disposed d)) (klog d key) (mget (dv_drains d) key) (buffer_of d key))"

lemma buffer_of_simps [simp]:
  "buffer_of (set_buffer key es d) k = (if k = key then es else buffer_of d k)"
  "buffer_of (d\<lparr>dv_order := n\<rparr>) k = buffer_of d k" "buffer_of (d\<lparr>dv_drains := dr\<rparr>) k = buffer_of d k"
  "buffer_of (d\<lparr>dv_log := l\<rparr>) k = buffer_of d k" "buffer_of (d\<lparr>dv_disposed := ds\<rparr>) k = buffer_of d k"
  "dv_order (set_buffer key es d) = dv_order d" "dv_drains (set_buffer key es d) = dv_drains d"
  "dv_disposed (set_buffer key es d) = dv_disposed d" "dv_log (set_buffer key es d) = dv_log d"
  by (simp_all add: buffer_of_def set_buffer_def mget_set_at mget_delete)

lemma klog_simps [simp]:
  "klog (set_buffer key es d) k = klog d k" "klog (d\<lparr>dv_order := n\<rparr>) k = klog d k" "klog (d\<lparr>dv_drains := dr\<rparr>) k = klog d k"
  "klog (d\<lparr>dv_disposed := ds\<rparr>) k = klog d k" "klog (d\<lparr>dv_buffer := b\<rparr>) k = klog d k"
  "klog (d\<lparr>dv_log := dv_log d @ [(key, m)]\<rparr>) k = (if k = key then klog d k @ [m] else klog d k)"
  by (simp_all add: klog_def)

lemma removed_simps [simp]:
  "buffer_of (removeBufferedTask key task kind d) k = (if k = key
     then filter (\<lambda>e. bu_task e \<noteq> task \<or> (kind \<noteq> None \<and> Some (bu_kind e) \<noteq> kind)) (buffer_of d key) else buffer_of d k)"
  "dv_order (removeBufferedTask key task kind d) = dv_order d" "dv_drains (removeBufferedTask key task kind d) = dv_drains d"
  "dv_disposed (removeBufferedTask key task kind d) = dv_disposed d" "klog (removeBufferedTask key task kind d) k = klog d k"
  by (auto simp: removeBufferedTask_def buffer_of_def set_buffer_def mget_set_at mget_delete klog_def split: option.splits)

lemma deleted_simps [simp]:
  "buffer_of (deleteBufferedEntry key entry d) k = (if k = key
     then filter (\<lambda>e. bu_order e \<noteq> bu_order entry) (buffer_of d key) else buffer_of d k)"
  "dv_order (deleteBufferedEntry key entry d) = dv_order d" "dv_drains (deleteBufferedEntry key entry d) = dv_drains d"
  "dv_disposed (deleteBufferedEntry key entry d) = dv_disposed d" "klog (deleteBufferedEntry key entry d) k = klog d k"
  by (auto simp: deleteBufferedEntry_def buffer_of_def set_buffer_def mget_set_at mget_delete klog_def list_ex_iff
      filter_id_conv split: option.splits)

lemma changed_simps [simp]:
  "buffer_of (change_entry key n f d) k = (if k = key
     then map (\<lambda>e. if bu_order e = n then f e else e) (buffer_of d key) else buffer_of d k)"
  "dv_order (change_entry key n f d) = dv_order d" "dv_drains (change_entry key n f d) = dv_drains d"
  "dv_disposed (change_entry key n f d) = dv_disposed d" "klog (change_entry key n f d) k = klog d k"
  by (auto simp: change_entry_def buffer_of_def mget_set_at klog_def split: option.splits)

lemma binding_ok_later: "binding_ok n disp log drain es \<Longrightarrow> n \<le> n' \<Longrightarrow> binding_ok n' disp log drain es"
  by (auto simp: binding_ok_def base_ok_def entry_ok_def flying_def split: option.splits)

lemma over_limits_filter: "\<not> over_limits es \<Longrightarrow> \<not> over_limits (filter P es)"
proof -
  assume "\<not> over_limits es"
  moreover have "length (filter P es) \<le> length es" "total_bytes (filter P es) \<le> total_bytes es"
    by (simp_all add: total_bytes_def sum_list_filter_le)
  ultimately show ?thesis unfolding over_limits_def by linarith
qed

lemma in_order_filter: "in_order es \<Longrightarrow> in_order (filter P es)"
  by (rule sorted_wrt_filter)

lemma framed_subset: "framed log es \<Longrightarrow> set es' \<subseteq> set es \<Longrightarrow> framed log es'"
  unfolding framed_def by blast

lemma flying_subset: "flying n drain es \<Longrightarrow> set es' \<subseteq> set es \<Longrightarrow> flying n drain es'"
  unfolding flying_def by (cases drain) (auto split: option.splits)

lemma base_ok_filter: "base_ok n disp es \<Longrightarrow> base_ok n disp (filter P es)"
  using over_limits_filter [of es P] in_order_filter [of es P] by (auto simp: base_ok_def)

lemma binding_ok_filter: "binding_ok n disp log drain es \<Longrightarrow> binding_ok n disp log drain (filter P es)"
  using over_limits_filter [of es P] in_order_filter [of es P]
  by (auto simp: binding_ok_def base_ok_def framed_def flying_def split: option.splits)

lemma binding_ok_buffered:
  assumes "binding_ok n False log drain es" "ms \<noteq> []"
  shows "binding_ok (Suc n) False log drain (drop_excess (es @ [new_buffered task kind ms n]))"
proof -
  let ?e = "new_buffered task kind ms n"
  have e: "bu_order ?e = n" "bu_messages ?e = ms" "bu_bytes ?e = send_bytes ms" "frame_cursor ?e = 0"
    by (auto simp: new_buffered_def frame_cursor_def split: option.splits)
  have b: "in_order es" "\<forall>x \<in> set es. entry_ok n x" using assms by (auto simp: binding_ok_def base_ok_def)
  have "in_order (es @ [?e])" using b e by (auto simp: sorted_wrt_append entry_ok_def)
  moreover have "\<forall>x \<in> set (es @ [?e]). entry_ok (Suc n) x" using b e assms(2) by (auto simp: entry_ok_def)
  ultimately have "base_ok (Suc n) False (drop_excess (es @ [?e]))"
    using drop_excess_facts [of "es @ [?e]"] by (auto simp: base_ok_def)
  moreover have "framed log (es @ [?e])" using assms b e by (fastforce simp: binding_ok_def framed_def entry_ok_def)
  hence "framed log (drop_excess (es @ [?e]))" by (rule framed_subset [OF _ drop_excess_subset])
  moreover have "flying (Suc n) drain (es @ [?e])" using assms b e
    by (fastforce simp: binding_ok_def flying_def entry_ok_def split: option.splits)
  hence "flying (Suc n) drain (drop_excess (es @ [?e]))" by (rule flying_subset [OF _ drop_excess_subset])
  ultimately show ?thesis by (simp add: binding_ok_def)
qed

text \<open>The next message is chosen.\<close>

lemma drain_next_other:
  "dv_order (drain_next key d) = dv_order d \<and> dv_disposed (drain_next key d) = dv_disposed d \<and> dv_log (drain_next key d) = dv_log d
    \<and> (k \<noteq> key \<longrightarrow> buffer_of (drain_next key d) k = buffer_of d k \<and> mget (dv_drains (drain_next key d)) k = mget (dv_drains d) k)"
proof (induction key d rule: drain_next.induct)
  case (1 key d)
  have l: "dv_log (deleteBufferedEntry key e d) = dv_log d" for e
    by (simp add: deleteBufferedEntry_def split: option.splits)
  show ?case
    using 1 by (subst (1 2 3 4 5) drain_next.simps) (auto simp: l mget_set_at Let_def split: list.splits option.splits)
qed

lemma drain_next_ok:
  assumes "base_ok n (key \<in> set (dv_disposed d)) (buffer_of d key)" "framed log (buffer_of d key)"
  shows "binding_ok n (key \<in> set (dv_disposed d)) log (mget (dv_drains (drain_next key d)) key) (buffer_of (drain_next key d) key)"
  using assms
proof (induction key d rule: drain_next.induct)
  case (1 key d)
  show ?case
  proof (cases "key \<in> set (dv_disposed d) \<or> buffer_of d key = []")
    case True
    hence b: "buffer_of d key = []" using "1.prems"(1) by (auto simp: base_ok_def)
    have "drain_next key d = d\<lparr>dv_drains := mset_at (dv_drains d) key None\<rparr>" using True by (subst drain_next.simps) auto
    thus ?thesis using "1.prems" b by (simp add: binding_ok_def flying_def mget_set_at)
  next
    case False
    then obtain e r where es: "buffer_of d key = e # r" by (cases "buffer_of d key") auto
    hence o: "in_order (e # r)" using "1.prems"(1) by (simp add: base_ok_def)
    hence old: "oldest e r = e" by (simp add: oldest_first)
    have rest: "\<forall>x \<in> set r. frame_cursor x = 0" using "1.prems"(2) o by (fastforce simp: framed_def es)
    show ?thesis
    proof (cases "current_message e")
      case None
      have s: "drain_next key d = drain_next key (deleteBufferedEntry key e d)"
        using False es old None by (subst drain_next.simps) simp
      have f: "framed log (filter P (buffer_of d key))" for P by (rule framed_subset [OF "1.prems"(2)]) auto
      have ih: "base_ok n (key \<in> set (dv_disposed d)) (buffer_of (deleteBufferedEntry key e d) key) \<Longrightarrow>
        framed log (buffer_of (deleteBufferedEntry key e d) key) \<Longrightarrow>
        binding_ok n (key \<in> set (dv_disposed d)) log (mget (dv_drains (drain_next key (deleteBufferedEntry key e d))) key)
          (buffer_of (drain_next key (deleteBufferedEntry key e d)) key)"
        using "1.IH" [of e r e] False es old None by simp
      show ?thesis unfolding s by (rule ih) (simp_all only: deleted_simps if_True simp_thms base_ok_filter [OF "1.prems"(1)] f)
    next
      case (Some m)
      have s: "drain_next key d = d\<lparr>dv_drains := mset_at (dv_drains d) key (Some (e, m))\<rparr>"
        using False es old Some by (subst drain_next.simps) simp
      have "flying n (Some (Some (e, m))) (e # r)"
        using "1.prems"(1) o rest Some by (auto simp: flying_def base_ok_def entry_ok_def es less_imp_le)
      thus ?thesis unfolding s using "1.prems" by (simp add: binding_ok_def mget_set_at es)
    qed
  qed
qed

text \<open>One message has been delivered.\<close>

lemma sent_one_facts:
  assumes "entry_ok n e" "current_message e = Some m" "0 < frame_cursor e \<longrightarrow> suffix (take (frame_cursor e) (bu_messages e)) log"
  shows "bu_order (sent_one e) = bu_order e" "bu_bytes (sent_one e) = send_bytes (bu_messages (sent_one e))"
    "bu_bytes (sent_one e) \<le> bu_bytes e"
    "0 < frame_cursor (sent_one e) \<longrightarrow> suffix (take (frame_cursor (sent_one e)) (bu_messages (sent_one e))) (log @ [m])"
proof -
  have c: "frame_cursor e < length (bu_messages e)" "m = bu_messages e ! frame_cursor e"
    using assms(2) by (simp_all add: current_message_def split: if_splits)
  have b: "bu_bytes e = send_bytes (bu_messages e)" using assms(1) by (simp add: entry_ok_def)
  show "bu_order (sent_one e) = bu_order e" by (auto simp: sent_one_def Let_def split: option.splits)
  show "bu_bytes (sent_one e) = send_bytes (bu_messages (sent_one e))" using b
    by (auto simp: sent_one_def Let_def split: option.splits)
  show "bu_bytes (sent_one e) \<le> bu_bytes e" using b send_bytes_tl [of "bu_messages e"] send_bytes_drop
    by (auto simp: sent_one_def Let_def split: option.splits)
  have s: "suffix (take (frame_cursor e) (bu_messages e)) log" using assms(3) by (cases "frame_cursor e") auto
  have "suffix (take (Suc (frame_cursor e)) (bu_messages e)) (log @ [m])"
    using s c by (auto simp: take_Suc_conv_app_nth suffix_def)
  thus "0 < frame_cursor (sent_one e) \<longrightarrow> suffix (take (frame_cursor (sent_one e)) (bu_messages (sent_one e))) (log @ [m])"
    by (auto simp: sent_one_def frame_cursor_def Let_def split: option.splits if_splits)
qed

definition replaced :: "nat \<Rightarrow> (buffered \<Rightarrow> buffered) \<Rightarrow> buffered list \<Rightarrow> buffered list" where
  "replaced n f es = map (\<lambda>e. if bu_order e = n then f e else e) es"

lemma replaced_order:
  assumes "\<forall>e \<in> set es. bu_order e = n \<longrightarrow> bu_order (f e) = n" "in_order es"
  shows "in_order (replaced n f es)"
proof -
  have "bu_order (if bu_order e = n then f e else e) = bu_order e" if "e \<in> set es" for e using that assms(1) by auto
  hence "map bu_order (replaced n f es) = map bu_order es" by (simp add: replaced_def)
  moreover have "in_order xs \<longleftrightarrow> sorted_wrt (<) (map bu_order xs)" for xs by (simp add: sorted_wrt_map)
  ultimately show ?thesis using assms(2) by simp
qed

lemma replaced_limits:
  assumes "\<forall>e \<in> set es. bu_order e = n \<longrightarrow> bu_bytes (f e) \<le> bu_bytes e" "\<not> over_limits es"
  shows "\<not> over_limits (replaced n f es)"
proof -
  have "total_bytes (replaced n f es) \<le> total_bytes es"
    unfolding total_bytes_def replaced_def map_map by (rule sum_list_mono) (use assms(1) in auto)
  moreover have "length (replaced n f es) = length es" by (simp add: replaced_def)
  ultimately show ?thesis using assms(2) unfolding over_limits_def by linarith
qed

text \<open>After a delivery and its bookkeeping the next message can be chosen.\<close>

lemma advance_ok:
  assumes "binding_ok n disp log (Some (Some (x, m))) es" "e \<in> set es" "bu_order e = bu_order x"
  defines "es1 \<equiv> replaced (bu_order e) sent_one es"
  defines "es2 \<equiv> if bu_messages (sent_one e) = [] then filter (\<lambda>y. bu_order y \<noteq> bu_order e) es1 else es1"
  shows "base_ok n disp es2" "framed (log @ [m]) es2"
proof -
  have b: "base_ok n disp es" "framed log es" "flying n (Some (Some (x, m))) es" using assms(1) by (simp_all add: binding_ok_def)
  have "\<forall>y \<in> set es. bu_order x \<le> bu_order y \<and> (bu_order y = bu_order x \<longrightarrow> current_message y = Some m)
      \<and> (0 < frame_cursor y \<longrightarrow> bu_order y = bu_order x)" using b(3) unfolding flying_def by simp
  hence fl: "bu_order e \<le> bu_order y" "bu_order y = bu_order e \<Longrightarrow> current_message y = Some m"
    "0 < frame_cursor y \<Longrightarrow> bu_order y = bu_order e" if "y \<in> set es" for y using that assms(3) by auto
  have uniq: "y = e" if "y \<in> set es" "bu_order y = bu_order e" for y
    using b(1) that assms(2) unfolding base_ok_def by (metis sorted_wrt_less_idx in_set_conv_nth linorder_neqE_nat nat_neq_iff sorted_wrt_iff_nth_less)
  have eo: "entry_ok n e" using b(1) assms(2) by (simp add: base_ok_def)
  note se = sent_one_facts [OF eo fl(2) [OF assms(2) refl], where log = log]
  have suf: "0 < frame_cursor e \<longrightarrow> suffix (take (frame_cursor e) (bu_messages e)) log"
    using b(2) assms(2) by (simp add: framed_def)
  have in1: "y = sent_one e \<or> (y \<in> set es \<and> bu_order y \<noteq> bu_order e)" if "y \<in> set es1" for y
    using that uniq by (auto simp: es1_def replaced_def)
  have o1: "in_order es1" unfolding es1_def by (rule replaced_order) (use uniq se(1) suf b(1) in \<open>auto simp: base_ok_def\<close>)
  have l1: "\<not> over_limits es1" unfolding es1_def by (rule replaced_limits) (use uniq se(3) suf b(1) in \<open>auto simp: base_ok_def\<close>)
  have f1: "framed (log @ [m]) es1"
    unfolding framed_def
  proof (intro ballI impI)
    fix y assume y: "y \<in> set es1" "0 < frame_cursor y"
    hence ye: "y = sent_one e" using in1 fl(3) by blast
    have "bu_order e \<le> bu_order z" if "z \<in> set es1" for z using in1 [OF that] fl(1) se(1) suf by auto
    thus "suffix (take (frame_cursor y) (bu_messages y)) (log @ [m]) \<and> (\<forall>z \<in> set es1. bu_order y \<le> bu_order z)"
      using se(1,4) suf y(2) by (simp add: ye)
  qed
  have sub: "set es2 \<subseteq> set es1" by (auto simp: es2_def)
  show "framed (log @ [m]) es2" by (rule framed_subset [OF f1 sub])
  have "entry_ok n y" if "y \<in> set es2" for y
  proof -
    have "y \<in> set es1" using that sub by blast
    from in1 [OF this] show ?thesis
    proof
      assume ys: "y = sent_one e"
      have "bu_messages (sent_one e) \<noteq> []"
        using that ys se(1) suf by (auto simp: es2_def split: if_splits)
      thus ?thesis using ys se(1,2) suf eo by (simp add: entry_ok_def)
    qed (use b(1) in \<open>simp add: base_ok_def\<close>)
  qed
  moreover have "disp \<longrightarrow> es2 = []" using b(1) assms(2) by (auto simp: base_ok_def)
  moreover have "in_order es2 \<and> \<not> over_limits es2"
    using o1 l1 in_order_filter [OF o1] over_limits_filter [OF l1] by (simp add: es2_def)
  ultimately show "base_ok n disp es2" by (simp add: base_ok_def)
qed

subsection \<open>Every step keeps the invariant\<close>

lemma delivery_invI:
  assumes "delivery_inv d" "\<And>k. k \<noteq> key \<Longrightarrow> buffer_of d' k = buffer_of d k \<and> klog d' k = klog d k
      \<and> mget (dv_drains d') k = mget (dv_drains d) k \<and> (k \<in> set (dv_disposed d') \<longleftrightarrow> k \<in> set (dv_disposed d))"
    "dv_order d \<le> dv_order d'"
    "binding_ok (dv_order d') (key \<in> set (dv_disposed d')) (klog d' key) (mget (dv_drains d') key) (buffer_of d' key)"
  shows "delivery_inv d'"
  unfolding delivery_inv_def
proof
  fix k
  show "binding_ok (dv_order d') (k \<in> set (dv_disposed d')) (klog d' k) (mget (dv_drains d') k) (buffer_of d' k)"
  proof (cases "k = key")
    case False
    have "binding_ok (dv_order d) (k \<in> set (dv_disposed d)) (klog d k) (mget (dv_drains d) k) (buffer_of d k)"
      using assms(1) by (simp add: delivery_inv_def)
    thus ?thesis using assms(2) [OF False] assms(3) by (simp add: binding_ok_later)
  qed (use assms(4) in simp)
qed

lemma delivery_invD:
  "delivery_inv d \<Longrightarrow> binding_ok (dv_order d) (key \<in> set (dv_disposed d)) (klog d key) (mget (dv_drains d) key) (buffer_of d key)"
  by (simp add: delivery_inv_def)

lemma drain_next_same [simp]:
  "klog (drain_next key d) k = klog d k" "dv_order (drain_next key d) = dv_order d" "dv_disposed (drain_next key d) = dv_disposed d"
  using drain_next_other [of key d k] by (simp_all add: klog_def)

lemma inv_drain_next:
  assumes "delivery_inv d0" "\<And>k. k \<noteq> key \<Longrightarrow> buffer_of d k = buffer_of d0 k \<and> klog d k = klog d0 k \<and> mget (dv_drains d) k = mget (dv_drains d0) k"
    "dv_order d = dv_order d0" "dv_disposed d = dv_disposed d0"
    "base_ok (dv_order d) (key \<in> set (dv_disposed d)) (buffer_of d key)" "framed (klog d key) (buffer_of d key)"
  shows "delivery_inv (drain_next key d)"
proof (rule delivery_invI [OF assms(1), where key = key])
  show "buffer_of (drain_next key d) k = buffer_of d0 k \<and> klog (drain_next key d) k = klog d0 k
      \<and> mget (dv_drains (drain_next key d)) k = mget (dv_drains d0) k
      \<and> (k \<in> set (dv_disposed (drain_next key d)) \<longleftrightarrow> k \<in> set (dv_disposed d0))" if "k \<noteq> key" for k
    using drain_next_other [of key d k] assms(2) [OF that] that assms(4) by simp
  show "dv_order d0 \<le> dv_order (drain_next key d)" using assms(3) by simp
  show "binding_ok (dv_order (drain_next key d)) (key \<in> set (dv_disposed (drain_next key d))) (klog (drain_next key d) key)
      (mget (dv_drains (drain_next key d)) key) (buffer_of (drain_next key d) key)"
    unfolding drain_next_same by (rule drain_next_ok [OF assms(5,6)])
qed

lemma framed_idle: "\<forall>e \<in> set es. frame_cursor e = 0 \<Longrightarrow> framed log es"
  by (simp add: framed_def)

lemma flying_idle: "\<forall>e \<in> set es. frame_cursor e = 0 \<Longrightarrow> drain = None \<or> drain = Some None \<Longrightarrow> flying n drain es"
  by (auto simp: flying_def)

lemma restart_idle:
  assumes "flying n (Some (Some (x, m))) es" "y \<in> set (replaced (bu_order x) restart_frames es)"
  shows "frame_cursor y = 0"
  using assms by (fastforce simp: flying_def replaced_def restart_frames_def frame_cursor_def split: option.splits if_splits)

lemma restart_ok:
  assumes "base_ok n disp es"
  shows "base_ok n disp (replaced i restart_frames es)"
proof -
  have "in_order (replaced i restart_frames es)"
    by (rule replaced_order) (use assms in \<open>auto simp: restart_frames_def base_ok_def\<close>)
  moreover have "\<not> over_limits (replaced i restart_frames es)"
    by (rule replaced_limits) (use assms in \<open>auto simp: restart_frames_def base_ok_def\<close>)
  ultimately show ?thesis using assms by (auto simp: base_ok_def replaced_def entry_ok_def restart_frames_def)
qed

lemma change_buffer: "buffer_of (change_entry key n f d) key = replaced n f (buffer_of d key)"
  by (simp add: replaced_def)

lemma settled_inv:
  assumes "delivery_inv d"
  shows "delivery_inv (drain_settled key result d)"
proof (cases "mget (dv_drains d) key")
  case (Some dr)
  show ?thesis
  proof (cases dr)
    case (Some p)
    obtain x m where p: "p = (x, m)" by fastforce
    have dr: "mget (dv_drains d) key = Some (Some (x, m))" using \<open>mget (dv_drains d) key = Some dr\<close> Some p by simp
    let ?n = "dv_order d" and ?dis = "key \<in> set (dv_disposed d)"
    have ok: "binding_ok ?n ?dis (klog d key) (Some (Some (x, m))) (buffer_of d key)" using delivery_invD [OF assms, of key] dr by simp
    hence b: "base_ok ?n ?dis (buffer_of d key)" "flying ?n (Some (Some (x, m))) (buffer_of d key)" by (simp_all add: binding_ok_def)
    have idle: "\<forall>e \<in> set (buffer_of d key). bu_order e \<noteq> bu_order x \<longrightarrow> frame_cursor e = 0" using b(2) by (auto simp: flying_def)
    show ?thesis
    proof (cases result)
      case (Refused code)
      show ?thesis
      proof (cases "kept_for_later code")
        case True
        let ?d1 = "change_entry key (bu_order x) restart_frames d"
        have s: "drain_settled key result d = ?d1\<lparr>dv_drains := mset_at (dv_drains d) key None\<rparr>"
          using dr Refused True by (simp add: drain_settled_def)
        have "\<forall>e \<in> set (replaced (bu_order x) restart_frames (buffer_of d key)). frame_cursor e = 0"
          using restart_idle [OF b(2)] by blast
        hence "binding_ok ?n ?dis (klog d key) (Some None) (buffer_of ?d1 key)"
          unfolding change_buffer binding_ok_def using framed_idle flying_idle restart_ok [OF b(1)] by blast
        thus ?thesis unfolding s by (intro delivery_invI [OF assms, where key = key]) (simp_all add: mget_set_at)
      next
        case False
        have s: "drain_settled key result d = drain_next key (deleteBufferedEntry key x d)"
          using dr Refused False by (simp add: drain_settled_def)
        have "\<forall>e \<in> set (filter (\<lambda>e. bu_order e \<noteq> bu_order x) (buffer_of d key)). frame_cursor e = 0" using idle by auto
        hence "framed (klog d key) (filter (\<lambda>e. bu_order e \<noteq> bu_order x) (buffer_of d key))" by (rule framed_idle)
        thus ?thesis unfolding s using base_ok_filter [OF b(1)] by (intro inv_drain_next [OF assms]) simp_all
      qed
    next
      case Delivered
      define d1 where "d1 = d\<lparr>dv_log := dv_log d @ [(key, m)]\<rparr>"
      have d1: "buffer_of d1 k = buffer_of d k" "dv_order d1 = dv_order d" "dv_drains d1 = dv_drains d" "dv_disposed d1 = dv_disposed d"
        "klog d1 k = (if k = key then klog d k @ [m] else klog d k)" for k by (simp_all add: d1_def)
      show ?thesis
      proof (cases "List.find (\<lambda>e. bu_order e = bu_order x) (buffer_of d key)")
        case None
        hence s: "drain_settled key result d = drain_next key d1" using dr Delivered by (simp add: drain_settled_def d1_def)
        have "\<forall>e \<in> set (buffer_of d key). frame_cursor e = 0" using idle None by (auto simp: find_None_iff)
        hence "framed (klog d1 key) (buffer_of d key)" by (rule framed_idle)
        thus ?thesis unfolding s using b(1) by (intro inv_drain_next [OF assms]) (simp_all add: d1)
      next
        case (Some e)
        hence e: "e \<in> set (buffer_of d key)" "bu_order e = bu_order x" using find_Some_in by fastforce+
        have "current_message e = Some m" using b(2) e by (auto simp: flying_def)
        hence s: "drain_settled key result d = drain_next key (advance_entry key e d1)" using dr Delivered Some by (simp add: drain_settled_def d1_def)
        note a = advance_ok [OF ok e]
        have adv: "buffer_of (advance_entry key e d1) key = (if bu_messages (sent_one e) = []
            then filter (\<lambda>y. bu_order y \<noteq> bu_order e) (replaced (bu_order e) sent_one (buffer_of d key))
            else replaced (bu_order e) sent_one (buffer_of d key))"
          by (simp add: advance_entry_def Let_def change_buffer d1 del: changed_simps(1))
        have others: "klog (advance_entry key e d1) k = klog d1 k" "dv_order (advance_entry key e d1) = dv_order d"
          "dv_drains (advance_entry key e d1) = dv_drains d" "dv_disposed (advance_entry key e d1) = dv_disposed d"
          "k \<noteq> key \<Longrightarrow> buffer_of (advance_entry key e d1) k = buffer_of d k" for k
          by (simp_all add: advance_entry_def Let_def d1)
        show ?thesis unfolding s
        proof (rule inv_drain_next [OF assms])
          show "base_ok (dv_order (advance_entry key e d1)) (key \<in> set (dv_disposed (advance_entry key e d1))) (buffer_of (advance_entry key e d1) key)"
            using a(1) unfolding adv others .
          show "framed (klog (advance_entry key e d1) key) (buffer_of (advance_entry key e d1) key)"
            using a(2) unfolding adv others by (simp add: d1)
        qed (simp_all add: others d1)
      qed
    qed
  qed (use assms \<open>mget (dv_drains d) key = Some dr\<close> in \<open>simp add: drain_settled_def\<close>)
qed (use assms in \<open>simp add: drain_settled_def\<close>)

lemma buffered_inv:
  assumes "delivery_inv d"
  shows "delivery_inv (bufferTaskOutput key task kind messages d)"
proof (cases "messages = [] \<or> key \<in> set (dv_disposed d)")
  case False
  have "binding_ok (dv_order d) False (klog d key) (mget (dv_drains d) key) (buffer_of d key)"
    using delivery_invD [OF assms, of key] False by simp
  from binding_ok_buffered [OF binding_ok_filter [OF this]] False
  show ?thesis by (intro delivery_invI [OF assms, where key = key]) (simp_all add: bufferTaskOutput_def Let_def)
qed (use assms in \<open>simp add: bufferTaskOutput_def\<close>)

lemma drain_start_inv:
  assumes "delivery_inv d"
  shows "delivery_inv (drainBufferedOutput key d)"
proof (cases "key \<in> set (dv_disposed d) \<or> mhas (dv_drains d) key")
  case False
  hence s: "drainBufferedOutput key d = drain_next key d" by (simp only: drainBufferedOutput_def if_False)
  have b: "base_ok (dv_order d) (key \<in> set (dv_disposed d)) (buffer_of d key)" "framed (klog d key) (buffer_of d key)"
    using delivery_invD [OF assms, of key] by (simp_all only: binding_ok_def)
  show ?thesis unfolding s by (rule inv_drain_next [OF assms _ refl refl b]) simp
qed (use assms in \<open>simp add: drainBufferedOutput_def\<close>)

lemma finally_inv:
  assumes "delivery_inv d"
  shows "delivery_inv (drain_finally key d)"
proof (cases "mget (dv_drains d) key = Some None")
  case True
  hence "binding_ok (dv_order d) (key \<in> set (dv_disposed d)) (klog d key) None (buffer_of d key)"
    using delivery_invD [OF assms, of key] by (simp add: binding_ok_def flying_def)
  thus ?thesis using True by (intro delivery_invI [OF assms, where key = key]) (simp_all add: drain_finally_def mget_delete)
qed (use assms in \<open>simp add: drain_finally_def\<close>)

lemma binding_ok_Nil: "flying n drain [] \<Longrightarrow> binding_ok n disp log drain []"
  by (simp add: binding_ok_def base_ok_def framed_def not_over_Nil)

lemma disposed_inv:
  assumes "delivery_inv d"
  shows "delivery_inv (dispose_buffer key d)"
proof (rule delivery_invI [OF assms, where key = key])
  have "buffer_of (dispose_buffer key d) key = []" by (simp add: dispose_buffer_def buffer_of_def mget_delete)
  moreover have "flying (dv_order d) (mget (dv_drains d) key) []"
    using delivery_invD [OF assms, of key] by (auto simp: binding_ok_def flying_def split: option.splits)
  ultimately show "binding_ok (dv_order (dispose_buffer key d)) (key \<in> set (dv_disposed (dispose_buffer key d)))
      (klog (dispose_buffer key d) key) (mget (dv_drains (dispose_buffer key d)) key) (buffer_of (dispose_buffer key d) key)"
    using binding_ok_Nil by (simp add: dispose_buffer_def)
qed (simp_all add: dispose_buffer_def buffer_of_def mget_delete klog_def)

lemma activated_inv:
  assumes "delivery_inv d"
  shows "delivery_inv (activate_buffer key d)"
proof (rule delivery_invI [OF assms, where key = key])
  show "binding_ok (dv_order (activate_buffer key d)) (key \<in> set (dv_disposed (activate_buffer key d)))
      (klog (activate_buffer key d) key) (mget (dv_drains (activate_buffer key d)) key) (buffer_of (activate_buffer key d) key)"
    using delivery_invD [OF assms, of key] by (simp add: activate_buffer_def binding_ok_def base_ok_def)
qed (auto simp: activate_buffer_def)

lemma removed_inv:
  assumes "delivery_inv d"
  shows "delivery_inv (removeBufferedTask key task kind d)"
  by (rule delivery_invI [OF assms, where key = key]) (simp_all add: binding_ok_filter [OF delivery_invD [OF assms]])

interpretation output_buffer: state_machine no_delivery delivery_step delivery_inv
proof
  show "delivery_inv no_delivery"
    by (simp add: delivery_inv_def no_delivery_def buffer_of_def binding_ok_Nil flying_def)
next
  fix d e assume i: "delivery_inv d"
  show "delivery_inv (delivery_step d e)"
    by (cases e) (simp_all only: delivery_step.simps buffered_inv removed_inv drain_start_inv settled_inv finally_inv disposed_inv activated_inv i)
qed

subsection \<open>Properties\<close>

lemma entries_of: "mget (dv_buffer d) key = Some es \<Longrightarrow> buffer_of d key = es"
  by (simp add: buffer_of_def)

text \<open>C28 Whatever is buffered, removed, delivered, refused, disposed or activated, and in whatever order, each
  binding holds at most 32 outputs whose messages, printed, have at most 10 MiB together; they are in the
  order they were buffered, and a disposed binding has none.\<close>

theorem output_buffer_is_bounded:
  assumes "d = run_steps delivery_step no_delivery es"
  shows "length (buffer_of d key) \<le> MAX_BUFFERED_OUTPUT_ENTRIES
    \<and> sum_list (map (\<lambda>e. send_bytes (bu_messages e)) (buffer_of d key)) \<le> MAX_BUFFERED_OUTPUT_BYTES
    \<and> sorted_wrt (\<lambda>a b. bu_order a < bu_order b) (buffer_of d key)
    \<and> (key \<in> set (dv_disposed d) \<longrightarrow> buffer_of d key = [])"
proof -
  have "delivery_inv d" unfolding assms by (rule output_buffer.run_inv)
  from delivery_invD [OF this, of key]
  have b: "base_ok (dv_order d) (key \<in> set (dv_disposed d)) (buffer_of d key)" by (simp add: binding_ok_def)
  have "sum_list (map (\<lambda>e. send_bytes (bu_messages e)) (buffer_of d key)) = total_bytes (buffer_of d key)"
    unfolding total_bytes_def by (rule arg_cong [of _ _ sum_list], rule map_cong [OF refl]) (use b in \<open>simp add: base_ok_def entry_ok_def\<close>)
  thus ?thesis using b by (simp add: base_ok_def over_limits_def not_less)
qed

text \<open>C29 A chunked reply is delivered with all its frames in a row: when the drain has delivered the chunk at
  the cursor, the last messages it has delivered for this binding are the chunks from the first to this one,
  whatever else happened in between; a refused chunk starts the reply again from its first chunk.\<close>

theorem chunks_are_delivered_in_a_row:
  assumes "d = run_steps delivery_step no_delivery es" "mget (dv_drains d) key = Some (Some (x, m))"
    "e \<in> set (buffer_of d key)" "bu_order e = bu_order x" "bu_frames e = Some (n, c)"
  shows "suffix (take (Suc c) (bu_messages e)) (klog (delivery_step d (Settle key Delivered)) key)
    \<and> (kept_for_later code \<longrightarrow> (\<exists>e' \<in> set (buffer_of (delivery_step d (Settle key (Refused code))) key).
        bu_messages e' = bu_messages e \<and> bu_frames e' = Some (n, 0)))"
proof
  have ok: "binding_ok (dv_order d) (key \<in> set (dv_disposed d)) (klog d key) (Some (Some (x, m))) (buffer_of d key)"
    using delivery_invD [OF output_buffer.run_inv, of es key] assms(1,2) by simp
  have c: "frame_cursor e = c" using assms(5) by (simp add: frame_cursor_def)
  have "current_message e = Some m" using ok assms(3,4) by (auto simp: binding_ok_def flying_def)
  hence m: "c < length (bu_messages e)" "m = bu_messages e ! c" by (simp_all add: current_message_def c split: if_splits)
  have "suffix (take c (bu_messages e)) (klog d key)" using ok assms(3) c by (cases c) (auto simp: binding_ok_def framed_def)
  hence s: "suffix (take (Suc c) (bu_messages e)) (klog d key @ [m])" using m by (auto simp: take_Suc_conv_app_nth suffix_def)
  have "klog (drain_settled key Delivered d) key = klog d key @ [m]"
    using assms(2) by (simp add: drain_settled_def advance_entry_def Let_def split: option.split)
  thus "suffix (take (Suc c) (bu_messages e)) (klog (delivery_step d (Settle key Delivered)) key)" using s by simp
  show "kept_for_later code \<longrightarrow> (\<exists>e' \<in> set (buffer_of (delivery_step d (Settle key (Refused code))) key).
      bu_messages e' = bu_messages e \<and> bu_frames e' = Some (n, 0))"
  proof
    assume k: "kept_for_later code"
    hence "buffer_of (drain_settled key (Refused code) d) key = replaced (bu_order x) restart_frames (buffer_of d key)"
      using assms(2) by (simp add: drain_settled_def replaced_def)
    moreover have "restart_frames e \<in> set (replaced (bu_order x) restart_frames (buffer_of d key))"
      using assms(3,4) by (force simp: replaced_def)
    moreover have "bu_messages (restart_frames e) = bu_messages e" "bu_frames (restart_frames e) = Some (n, 0)"
      using assms(5) by (simp_all add: restart_frames_def)
    ultimately show "\<exists>e' \<in> set (buffer_of (delivery_step d (Settle key (Refused code))) key).
      bu_messages e' = bu_messages e \<and> bu_frames e' = Some (n, 0)" by (metis delivery_step.simps(4))
  qed
qed

end
