(* ===== verification/OutputCapacity.thy ===== *)
theory OutputCapacity imports OutputBufferProofs begin

text \<open>
  The buffer is large enough for the answer of a task: the text of an answer has at most 1 MiB, its event at most
  6 MiB and 16 KiB as JSON prints six bytes for a control character, which makes at most 1107 chunks, and
  sixteen cards of 9000 bytes may follow.
\<close>

subsection \<open>Printed messages\<close>

lemma join_comma_le: "byte_length (join_comma xs) \<le> sum_list (map byte_length xs) + length xs"
proof (induction xs rule: join_comma.induct)
  case (3 x y r)
  thus ?case using byte_length_append_le [of x "44 # join_comma (y # r)"] ascii_Cons [of 44 "join_comma (y # r)"] by simp
qed simp_all

lemma bracketed_le: "unat a < 128 \<Longrightarrow> unat z < 128 \<Longrightarrow> byte_length (a # s @ [z]) \<le> byte_length s + 2"
  using ascii_Cons [of a "s @ [z]"] byte_length_append_le [of s "[z]"] well_formed_unit [of z] by simp

lemma printed_array_le:
  "byte_length (stringify (JArr xs)) \<le> sum_list (map (\<lambda>x. byte_length (stringify x)) xs) + length xs + 2"
  using bracketed_le [of 91 93 "join_comma (map stringify xs)"] join_comma_le [of "map stringify xs"] by (simp add: comp_def)

lemma printed_object_le:
  "byte_length (stringify (JObj kvs)) \<le> sum_list (map (\<lambda>p. byte_length (prop_line p)) kvs) + length kvs + 2"
  using bracketed_le [of 123 125 "join_comma (map prop_line kvs)"] join_comma_le [of "map prop_line kvs"]
  unfolding stringify_obj by (simp add: comp_def)

lemma printed_line_le:
  "list_all quotable k \<Longrightarrow> byte_length (prop_line (js k, v)) \<le> length k + 3 + byte_length (stringify v)"
  using byte_length_append_le [of "quote (js k)" "58 # stringify v"] ascii_Cons [of 58 "stringify v"] quote_hex [of 0 "[]" k]
  by (simp add: prop_line_def hex_exact_def)

lemma printed_literal: "list_all quotable w \<Longrightarrow> byte_length (stringify (JLit w)) = length w + 2"
  using quote_hex [of 0 "[]" w] by (simp add: hex_exact_def)

lemma sent_bytes_le:
  assumes "list_all quotable (ws_messageType m)" "ws_conversationType m \<in> {1, 3, 4}"
  shows "byte_length (stringify (send_json m))
    \<le> 64 + byte_length (quote (ws_targetId m)) + length (ws_messageType m) + byte_length (stringify (ws_content m))"
proof -
  have "byte_length (stringify (JInt (ws_conversationType m))) \<le> 1"
    using assms(2) byte_length_int [of "ws_conversationType m" 1] by auto
  moreover have "stringify (JStr (ws_targetId m)) = quote (ws_targetId m)" by simp
  ultimately show ?thesis
    using printed_line_le [of "''conversationType''" "JInt (ws_conversationType m)"] printed_line_le [of "''targetId''" "JStr (ws_targetId m)"]
      printed_line_le [of "''messageType''" "JLit (ws_messageType m)"] printed_line_le [of "''content''" "ws_content m"]
      printed_literal [OF assms(1)]
      printed_object_le [of "[(js ''conversationType'', JInt (ws_conversationType m)), (js ''targetId'', JStr (ws_targetId m)),
        (js ''messageType'', JLit (ws_messageType m)), (js ''content'', ws_content m)]"]
    by (simp add: send_json_def quotable_def del: stringify.simps)
qed

lemma send_bytes_le:
  assumes "\<forall>m \<in> set ms. byte_length (stringify (send_json m)) \<le> n"
  shows "send_bytes ms \<le> length ms * (n + 1) + 2"
proof -
  have "sum_list (map (\<lambda>m. byte_length (stringify (send_json m))) ms) \<le> length ms * n"
    using assms sum_list_mono [of ms "\<lambda>m. byte_length (stringify (send_json m))" "\<lambda>_. n"] by (simp add: sum_list_triv)
  thus ?thesis using printed_array_le [of "map send_json ms"] by (simp add: send_bytes_def comp_def del: stringify.simps)
qed

lemma sum_Suc: "sum_list (map (\<lambda>x. f x + 1) xs) = sum_list (map f xs) + length xs" for f :: "'a \<Rightarrow> nat"
  by (induction xs) simp_all

lemma send_bytes_append: "send_bytes (a @ b) \<le> sum_list (map (\<lambda>m. byte_length (stringify (send_json m)) + 1) a)
    + sum_list (map (\<lambda>m. byte_length (stringify (send_json m)) + 1) b) + 2"
  using printed_array_le [of "map send_json (a @ b)"] unfolding sum_Suc by (simp add: send_bytes_def comp_def del: stringify.simps)

subsection \<open>The chunks of an event\<close>

lemma no_discussion: "chat_event ev \<Longrightarrow> payload_discussion ev = None"
proof -
  assume e: "chat_event ev"
  have "field ev ''discussionId'' = field (in_schema_order event_keys ev) ''discussionId''" using e by (simp add: chat_event_def)
  also have "\<dots> = None" using field_in_schema_order [OF event_keys_distinct, of ev "''discussionId''"] by (simp add: event_keys_def)
  finally show ?thesis by (simp add: payload_discussion_def)
qed

lemma event_chunks: "chat_event ev \<Longrightarrow> chunk_count (whole_of ev) \<le> 1107"
proof -
  assume "chat_event ev"
  hence "length (whole_of ev) \<le> 6307840" using event_size [of ev] by (simp add: whole_of_def byte_length_def CHAT_SNAPSHOT_BYTES_def)
  hence "chunk_count (whole_of ev) \<le> (6307840 + 5700 - 1) div 5700"
    unfolding chunk_count_def RAW_DISCUSSION_CHUNK_BYTES_def by (intro div_le_mono) simp
  thus ?thesis by simp
qed

lemma chunk_frame_bytes:
  assumes e: "chat_event ev" and sh: "\<forall>x. length (sha x) = 32" and i: "i < chunk_count (whole_of ev)"
  shows "byte_length (stringify (JObj (chunk_frame sha ev i))) \<le> 7900"
proof -
  define w where "w = whole_of ev"
  define h where "h = hex_text (sha w)"
  define b where "b = base64 (chunk w i)"
  have n: "i < 10000" "chunk_count w < 10000" using event_chunks [OF e] i by (simp_all add: w_def)
  have f: "chunk_frame sha ev i = [(js ''msg_type'', JLit ''chat_stream_chunk''), (js ''protocolVersion'', JInt 2),
      (js ''messageId'', JStr (js ''wire_'' @ h)), (js ''sha256'', JStr h), (js ''chunkIndex'', JInt (int i)),
      (js ''chunkCount'', JInt (int (chunk_count w))), (js ''data'', JStr b)]"
    unfolding chunk_frame_def message_frame_def no_discussion [OF e] event_version [OF e] wire_frame_def h_def b_def w_def by simp
  have h: "hex_exact 64 h" using sh by (simp add: h_def hex_exact_hex_text)
  have "byte_length (quote (js ''wire_'' @ h)) = 71" "byte_length (quote h) = 66"
    using quote_hex [OF h, of "''wire_''"] quote_hex [OF h, of "[]"] by (simp_all add: quotable_def)
  moreover have "byte_length (quote b) \<le> 7602"
  proof -
    have "length (chunk w i) \<le> 5700" using length_chunk [of w i] by (simp add: RAW_DISCUSSION_CHUNK_BYTES_def)
    hence "(length (chunk w i) + 2) div 3 \<le> (5700 + 2) div 3" by (intro div_le_mono) simp
    thus ?thesis by (simp add: quote_base64 b_def)
  qed
  moreover have "byte_length (int_text 2) \<le> 1" using byte_length_int [of 2 1] by simp
  moreover have "byte_length (int_text (int i)) \<le> 4" "byte_length (int_text (int (chunk_count w))) \<le> 4"
    using n byte_length_int [of "int i" 4] byte_length_int [of "int (chunk_count w)" 4] by simp_all
  moreover have "byte_length (quote (js ''chat_stream_chunk'')) = 19" using printed_literal [of "''chat_stream_chunk''"] by (simp add: quotable_def)
  ultimately show ?thesis
    using printed_line_le [of "''msg_type''" "JLit ''chat_stream_chunk''"] printed_line_le [of "''protocolVersion''" "JInt 2"]
      printed_line_le [of "''messageId''" "JStr (js ''wire_'' @ h)"] printed_line_le [of "''sha256''" "JStr h"]
      printed_line_le [of "''chunkIndex''" "JInt (int i)"] printed_line_le [of "''chunkCount''" "JInt (int (chunk_count w))"]
      printed_line_le [of "''data''" "JStr b"] printed_object_le [of "chunk_frame sha ev i"]
    unfolding f by (simp add: quotable_def)
qed

lemma stream_message_bytes:
  assumes "stream_ids_ok t" "byte_length visible \<le> MAX_OUTPUT_BYTES"
    "status \<in> {''processing'', ''streaming'', ''completed'', ''cancelled'', ''failed''}" "\<forall>x. length (sha x) = 32"
    "fst (streamMessages sha cv t visible status) = Inr texts"
    "byte_length (quote (replyTargetId (st_conversation t))) \<le> 1300"
  shows "sum_list (map (\<lambda>m. byte_length (stringify (send_json m)) + 1) texts) \<le> 1107 * 9282"
proof -
  define ev where "ev = in_schema_order event_keys (stream_event t visible status)"
  let ?q = "byte_length (quote (replyTargetId (st_conversation t)))"
  have p: "parseChatStreamEvent (plain_value (JObj (stream_event t visible status))) = Some ev"
    unfolding ev_def by (rule ordered_event_snapshot [OF stream_event_in_order [OF assms(1-3)]])
  have e: "chat_event ev" by (rule parsed_event [OF p])
  have c: "conv_code (c_type (st_conversation t)) \<in> {1, 3, 4}" by (cases "c_type (st_conversation t)") simp_all
  from encoded_event [OF p assms(4), of cv] show ?thesis
  proof (elim disjE conjE)
    assume x: "encodeChatStreamEvent sha cv (plain_value (JObj (stream_event t visible status))) = Inr [(''chat_stream'', ev)]"
      "byte_length (stringify (JObj ev)) \<le> 9000"
    hence "texts = [structuredResponse (st_conversation t) ''chat_stream'' ev]" using assms(5) by (simp add: streamMessages_def)
    thus ?thesis using x(2) assms(6) c sent_bytes_le [of "structuredResponse (st_conversation t) ''chat_stream'' ev"]
      by (simp add: structuredResponse_def quotable_def del: stringify.simps)
  next
    let ?m = "\<lambda>i. structuredResponse (st_conversation t) ''chat_stream_chunk'' (chunk_frame sha ev i)"
    assume x: "encodeChatStreamEvent sha cv (plain_value (JObj (stream_event t visible status)))
        = Inr (map (\<lambda>i. (''chat_stream_chunk'', chunk_frame sha ev i)) [0..<chunk_count (whole_of ev)])"
    hence t: "texts = map ?m [0..<chunk_count (whole_of ev)]" using assms(5) by (simp add: streamMessages_def comp_def)
    have "byte_length (stringify (send_json (?m i))) + 1 \<le> 9282" if "i < chunk_count (whole_of ev)" for i
      using chunk_frame_bytes [OF e assms(4) that] assms(6) c sent_bytes_le [of "?m i"]
      by (simp add: structuredResponse_def quotable_def del: stringify.simps)
    hence "sum_list (map (\<lambda>m. byte_length (stringify (send_json m)) + 1) texts) \<le> sum_list (map (\<lambda>i. 9282) [0..<chunk_count (whole_of ev)])"
      unfolding t map_map comp_def by (intro sum_list_mono) auto
    also have "\<dots> = chunk_count (whole_of ev) * 9282" by (simp add: sum_list_triv)
    also have "\<dots> \<le> 1107 * 9282" using event_chunks [OF e] by (rule mult_le_mono1)
    finally show ?thesis .
  qed
qed

subsection \<open>The number of cards\<close>

lemma marker_cards: "length (m_cards (parse_markers cv final n rest r)) \<le> length (m_cards r) + (MAX_CARD_MARKERS - n)"
proof (induction cv final n rest r rule: parse_markers.induct)
  case (1 cv final n rest r)
  have t: "length (m_cards (take_marker cv k tag body closed scan x)) \<le> length (m_cards x) + (if k > MAX_CARD_MARKERS then 0 else 1)"
    for k tag body closed scan x by (auto simp: take_marker_def bad_marker_def split: option.splits json.splits)
  have e: "m_cards (emit u x) = m_cards x" "m_cards (bad_marker err x) = m_cards x" for u err x
    by (simp_all add: emit_def bad_marker_def)
  show ?case
  proof (cases "rest = [] \<or> earliestOpener rest = None")
    case True
    thus ?thesis by (auto simp: parse_markers.simps [of cv final n rest] Let_def e)
  next
    case False
    then obtain tag i where o: "rest \<noteq> []" "earliestOpener rest = Some (tag, i)" by auto
    define body where b: "body = drop (i + length (opener_value tag)) rest"
    define scan where s: "scan = scanJson body"
    let ?r1 = "emit (take i rest) r"
    show ?thesis
    proof (cases "body = [] \<or> \<not> sc_complete scan \<or> (\<not> final \<and> sc_end scan = length body)")
      case True
      thus ?thesis using o b s by (auto simp: parse_markers.simps [of cv final n rest] Let_def e simp del: drop_eq_Nil)
    next
      case False
      define closed where c: "closed = (sc_end scan < length body \<and> body ! sc_end scan = 93)"
      let ?next = "if closed then drop (Suc (sc_end scan)) body else []"
      let ?r2 = "take_marker cv (Suc n) tag body closed scan ?r1"
      have "body \<noteq> []" "\<not> \<not> sc_complete scan" "\<not> (\<not> final \<and> sc_end scan = length body)" using False by blast+
      note f = this
      have "length (m_cards (parse_markers cv final (Suc n) ?next ?r2)) \<le> length (m_cards ?r2) + (MAX_CARD_MARKERS - Suc n)"
        by (rule "1" [OF o refl refl b f(1) s f(2,3) c refl])
      moreover have "parse_markers cv final n rest r = parse_markers cv final (Suc n) ?next ?r2"
        by (rule parse_step [OF o b [symmetric] f(1) s [symmetric] _ _ c [symmetric]]) (use f in blast)+
      moreover have "length (m_cards ?r2) \<le> length (m_cards r) + (if Suc n > MAX_CARD_MARKERS then 0 else 1)"
        using t [of "Suc n" tag body closed scan ?r1] by (simp add: e)
      ultimately show ?thesis by (auto split: if_splits)
    qed
  qed
qed

lemma parsed_cards: "length (m_cards (parseCardMarkers cv s)) \<le> MAX_CARD_MARKERS"
  using marker_cards [of cv True 0 s no_markers] by (simp add: parseCardMarkers_def parse_text_def no_markers_def)

lemma card_messages_count: "length (fst (card_messages url c now cards)) \<le> length cards"
  by (induction cards) (auto simp: Let_def split: prod.splits sum.splits)

lemma card_messages_type: "m \<in> set (fst (card_messages url c now cards)) \<Longrightarrow>
    ws_messageType m = ''card_message'' \<and> ws_targetId m = replyTargetId c \<and> ws_conversationType m = conv_code (c_type c)"
  by (induction cards) (auto simp: Let_def structuredResponse_def split: prod.splits sum.splits)

text \<open>The output of a task: text from the agent, then perhaps a completed reply.\<close>

definition output_of :: "(jstr \<Rightarrow> jnum) \<Rightarrow> url_parser \<Rightarrow> jstr list \<Rightarrow> jstr \<Rightarrow> task_output" where
  "output_of cv url deltas reply = completed_event cv url reply (fold text_delta deltas no_output)"

lemma output_cards: "length (m_cards (parsed_output cv (output_of cv url deltas reply))) \<le> MAX_CARD_MARKERS"
proof -
  have none: "completedOutput (fold text_delta ds a) = completedOutput a" for ds a
    by (induction ds arbitrary: a) (auto simp: text_delta_def appendOutput_extends(2))
  show ?thesis using parsed_cards none [of deltas no_output]
    by (auto simp: parsed_output_def output_of_def completed_event_def appendCompletedOutput_def appendOutput_extends(2)
        no_output_def revised_output_def Let_def split: option.split)
qed

lemma answer_fits_the_buffer:
  assumes "stream_ids_ok t" "status \<in> {''completed'', ''cancelled'', ''failed''}" "\<forall>x. length (sha x) = 32"
    "byte_length (quote (replyTargetId (st_conversation t))) \<le> 1300"
    "terminal_messages sha cv url t status now (output_of cv url deltas reply) = Inr (texts, cards)"
  shows "send_bytes (texts @ cards) \<le> MAX_BUFFERED_OUTPUT_BYTES"
proof -
  let ?a = "output_of cv url deltas reply"
  let ?c = "card_messages url (st_conversation t) now (m_cards (parsed_output cv ?a))"
  let ?f = "finalText (m_text (parsed_output cv ?a)) (snd ?c)"
  have t: "fst (streamMessages sha cv t ?f status) = Inr texts" "cards = fst ?c"
    using assms(5) by (cases "fst (streamMessages sha cv t ?f status)"; simp add: terminal_messages_def Let_def case_prod_unfold)+
  have s: "status \<in> {''processing'', ''streaming'', ''completed'', ''cancelled'', ''failed''}" using assms(2) by blast
  note texts = stream_message_bytes [OF assms(1) finalText_bytes s assms(3) t(1) assms(4)]
  have c: "conv_code (c_type (st_conversation t)) \<in> {1, 3, 4}" by (cases "c_type (st_conversation t)") simp_all
  have "byte_length (stringify (send_json m)) + 1 \<le> 10377" if "m \<in> set cards" for m
    using sent_bytes_le [of m] card_messages_type [of m] card_messages_fit that assms(4) c t(2) by (fastforce simp: quotable_def)
  hence "sum_list (map (\<lambda>m. byte_length (stringify (send_json m)) + 1) cards) \<le> length cards * 10377"
    using sum_list_mono [of cards "\<lambda>m. byte_length (stringify (send_json m)) + 1" "\<lambda>_. 10377"] by (simp add: sum_list_triv)
  also have "\<dots> \<le> 16 * 10377"
    using card_messages_count [of url "st_conversation t" now "m_cards (parsed_output cv ?a)"] output_cards [of cv url deltas reply] t(2)
    by (simp add: MAX_CARD_MARKERS_def)
  finally show ?thesis using texts send_bytes_append [of texts cards] by (simp add: MAX_BUFFERED_OUTPUT_BYTES_def)
qed

end
