(* ===== verification/OutputDelivery.thy ===== *)
theory OutputDelivery imports OutputCapacity begin

text \<open>
  What happens to the answer of a task: the terminal flush either delivers it or leaves it in the buffer, and a
  drain whose messages are delivered sends everything the buffer has, in the order it was buffered.
\<close>

subsection \<open>A drain without refusals\<close>

definition remaining :: "buffered \<Rightarrow> worker_send list" where
  "remaining e = drop (frame_cursor e) (bu_messages e)"

definition pending :: "delivery \<Rightarrow> jstr \<Rightarrow> worker_send list" where
  "pending d key = concat (map remaining (buffer_of d key))"

definition counted :: "buffered \<Rightarrow> bool" where
  "counted e \<longleftrightarrow> (case bu_frames e of None \<Rightarrow> True | Some (n, c) \<Rightarrow> c < n)"

text \<open>A drain is at an await, or has returned.\<close>

definition drain_ready :: "delivery \<Rightarrow> jstr \<Rightarrow> bool" where
  "drain_ready d key \<longleftrightarrow> (buffer_of d key = [] \<and> mget (dv_drains d) key = Some None)
     \<or> (\<exists>e m r. buffer_of d key = e # r \<and> mget (dv_drains d) key = Some (Some (e, m)) \<and> current_message e = Some m)"

lemma next_is_ready:
  assumes "key \<notin> set (dv_disposed d)" "in_order (buffer_of d key)" "\<forall>e \<in> set (buffer_of d key). counted e"
  shows "drain_ready (drain_next key d) key \<and> pending (drain_next key d) key = pending d key
    \<and> in_order (buffer_of (drain_next key d) key) \<and> (\<forall>e \<in> set (buffer_of (drain_next key d) key). counted e)"
  using assms
proof (induction key d rule: drain_next.induct)
  case (1 key d)
  show ?case
  proof (cases "buffer_of d key")
    case Nil
    have "drain_next key d = d\<lparr>dv_drains := mset_at (dv_drains d) key None\<rparr>" using "1.prems"(1) Nil by (subst drain_next.simps) auto
    thus ?thesis using Nil by (simp add: drain_ready_def pending_def mget_set_at)
  next
    case (Cons e r)
    hence old: "oldest e r = e" using "1.prems"(2) by (simp add: oldest_first)
    show ?thesis
    proof (cases "current_message e")
      case None
      have f: "filter (\<lambda>y. bu_order y \<noteq> bu_order e) (buffer_of d key) = r"
        using "1.prems"(2) by (auto simp: Cons filter_id_conv)
      have s: "drain_next key d = drain_next key (deleteBufferedEntry key e d)"
        using "1.prems"(1) Cons old None by (subst drain_next.simps) simp
      have "remaining e = []" using None by (simp add: current_message_def remaining_def split: if_splits)
      hence p: "pending (deleteBufferedEntry key e d) key = pending d key" using f by (simp add: pending_def Cons)
      have b: "buffer_of (deleteBufferedEntry key e d) key = r" using f by simp
      show ?thesis unfolding s p [symmetric]
        by (rule "1.IH" [of e r e]) (use "1.prems" Cons old None b in simp_all)
    next
      case (Some m)
      have "drain_next key d = d\<lparr>dv_drains := mset_at (dv_drains d) key (Some (e, m))\<rparr>"
        using "1.prems"(1) Cons old Some by (subst drain_next.simps) simp
      thus ?thesis using "1.prems" Cons Some by (simp add: drain_ready_def pending_def mget_set_at)
    qed
  qed
qed

lemma sent_one_rest:
  assumes "counted e" "current_message e = Some m"
  shows "remaining e = m # remaining (sent_one e)" "counted (sent_one e)" "bu_order (sent_one e) = bu_order e"
proof -
  have c: "frame_cursor e < length (bu_messages e)" "m = bu_messages e ! frame_cursor e"
    using assms(2) by (simp_all add: current_message_def split: if_splits)
  hence d: "remaining e = m # drop (Suc (frame_cursor e)) (bu_messages e)" by (simp add: remaining_def Cons_nth_drop_Suc)
  show "remaining e = m # remaining (sent_one e)"
  proof (cases "bu_frames e")
    case None
    thus ?thesis using d by (simp add: remaining_def sent_one_def frame_cursor_def Let_def drop_Suc)
  next
    case (Some p)
    obtain n k where p: "p = (n, k)" by fastforce
    have "k < n" using assms(1) by (simp add: counted_def Some p)
    hence "\<not> Suc k < n \<Longrightarrow> n = Suc k" by simp
    thus ?thesis using d by (auto simp: remaining_def sent_one_def frame_cursor_def Let_def Some p)
  qed
  show "counted (sent_one e)" "bu_order (sent_one e) = bu_order e"
    by (auto simp: counted_def sent_one_def Let_def split: option.splits)
qed

lemma delivered_one:
  assumes "key \<notin> set (dv_disposed d)" "in_order (buffer_of d key)" "\<forall>e \<in> set (buffer_of d key). counted e"
    "drain_ready d key" "pending d key = m # ms"
  defines "d' \<equiv> drain_settled key Delivered d"
  shows "drain_ready d' key \<and> pending d' key = ms \<and> klog d' key = klog d key @ [m] \<and> dv_disposed d' = dv_disposed d
    \<and> in_order (buffer_of d' key) \<and> (\<forall>e \<in> set (buffer_of d' key). counted e)"
proof -
  have "buffer_of d key \<noteq> []" using assms(5) by (auto simp: pending_def)
  then obtain e x r where es: "buffer_of d key = e # r" "mget (dv_drains d) key = Some (Some (e, x))" "current_message e = Some x"
    using assms(4) by (auto simp: drain_ready_def)
  have ce: "counted e" using assms(3) es(1) by simp
  note so = sent_one_rest [OF ce es(3)]
  have xm: "x = m" "ms = remaining (sent_one e) @ concat (map remaining r)"
    using assms(5) so(1) by (simp_all add: pending_def es(1))
  let ?d1 = "advance_entry key e (d\<lparr>dv_log := dv_log d @ [(key, m)]\<rparr>)"
  have s: "d' = drain_next key ?d1" using es xm(1) by (simp add: d'_def drain_settled_def)
  have r: "bu_order y \<noteq> bu_order e" if "y \<in> set r" for y using assms(2) that by (auto simp: es(1))
  have rep: "replaced (bu_order e) sent_one (e # r) = sent_one e # r"
    using r by (auto simp: replaced_def intro: map_idI)
  have b: "buffer_of ?d1 key = (if bu_messages (sent_one e) = [] then r else sent_one e # r)"
    using r so(3) by (simp add: advance_entry_def Let_def change_buffer es(1) rep filter_id_conv del: changed_simps(1))
  have p: "pending ?d1 key = ms" using xm(2) by (simp add: pending_def b remaining_def)
  have dis: "dv_disposed ?d1 = dv_disposed d" and kl: "klog ?d1 key = klog d key @ [m]"
    by (simp_all add: advance_entry_def Let_def)
  have "in_order (buffer_of ?d1 key)" "\<forall>e \<in> set (buffer_of ?d1 key). counted e"
    using assms(2,3) so(2,3) by (simp_all add: b es(1))
  from next_is_ready [OF _ this] assms(1) show ?thesis unfolding s by (simp add: p dis kl)
qed

lemma delivered_all:
  assumes "key \<notin> set (dv_disposed d)" "in_order (buffer_of d key)" "\<forall>e \<in> set (buffer_of d key). counted e" "drain_ready d key"
  defines "d' \<equiv> run_steps delivery_step d (replicate (length (pending d key)) (Settle key Delivered))"
  shows "buffer_of d' key = [] \<and> klog d' key = klog d key @ pending d key"
  unfolding d'_def using assms(1-4)
proof (induction "pending d key" arbitrary: d)
  case Nil
  have "buffer_of d key = []"
  proof (rule ccontr)
    assume "buffer_of d key \<noteq> []"
    then obtain e m r where e: "buffer_of d key = e # r" "current_message e = Some m" using Nil(5) by (auto simp: drain_ready_def)
    hence "remaining e \<noteq> []" by (simp add: remaining_def current_message_def split: if_splits)
    thus False using Nil(1) e(1) by (simp add: pending_def)
  qed
  thus ?case using Nil(1) by (simp add: pending_def)
next
  case (Cons m ms)
  note one = delivered_one [OF Cons(3-6) Cons(2) [symmetric]]
  have "length (pending d key) = Suc (length ms)" unfolding Cons(2) [symmetric] by simp
  thus ?case using one Cons(1) [of "drain_settled key Delivered d"] Cons(3) Cons(2) [symmetric] by simp
qed

text \<open>C27 When a binding is online again and the worker takes every message, the drain delivers everything the
  buffer had for the binding, each output in the order it was buffered and each message of it once and in
  order, and leaves nothing behind.\<close>

theorem reconnect_delivers_the_buffer:
  assumes "d = run_steps delivery_step no_delivery es" "key \<notin> set (dv_disposed d)" "mget (dv_drains d) key = None"
    "\<forall>e \<in> set (buffer_of d key). \<forall>n c. bu_frames e = Some (n, c) \<longrightarrow> c < n"
  defines "whole \<equiv> concat (map bu_messages (buffer_of d key))"
  defines "d' \<equiv> run_steps delivery_step d (BindingOnline key # replicate (length whole) (Settle key Delivered))"
  shows "buffer_of d' key = [] \<and> klog d' key = klog d key @ whole"
proof -
  have inv: "delivery_inv d" unfolding assms(1) by (rule output_buffer.run_inv)
  have ok: "in_order (buffer_of d key)" "\<forall>e \<in> set (buffer_of d key). frame_cursor e = 0"
    using delivery_invD [OF inv, of key] assms(3) by (simp_all add: binding_ok_def base_ok_def flying_def)
  have c: "\<forall>e \<in> set (buffer_of d key). counted e" using assms(4) by (auto simp: counted_def split: option.splits)
  have m: "map remaining (buffer_of d key) = map bu_messages (buffer_of d key)" using ok(2) by (simp add: remaining_def)
  have w: "whole = pending d key" unfolding whole_def pending_def m ..
  have s: "delivery_step d (BindingOnline key) = drain_next key d"
    using assms(2,3) by (simp add: drainBufferedOutput_def mhas_iff)
  note n = next_is_ready [OF assms(2) ok(1) c]
  have "buffer_of d' key = [] \<and> klog d' key = klog (drain_next key d) key @ pending (drain_next key d) key"
    unfolding d'_def run_steps.simps s w using n delivered_all [of key "drain_next key d"] assms(2) by simp
  thus ?thesis using n w by simp
qed

subsection \<open>The terminal flush\<close>

lemma buffered_terminal:
  assumes "delivery_inv d" "messages \<noteq> []" "key \<notin> set (dv_disposed d)" "send_bytes messages \<le> MAX_BUFFERED_OUTPUT_BYTES"
  shows "\<exists>e \<in> set (buffer_of (bufferTaskOutput key task TerminalOutput messages d) key).
    bu_task e = task \<and> bu_kind e = TerminalOutput \<and> bu_messages e = messages"
proof -
  let ?r = "filter (\<lambda>e. bu_task e \<noteq> task) (buffer_of d key)"
  let ?e = "new_buffered task TerminalOutput messages (dv_order d)"
  have b: "base_ok (dv_order d) (key \<in> set (dv_disposed d)) (buffer_of d key)"
    using delivery_invD [OF assms(1)] by (simp add: binding_ok_def)
  have e: "bu_task ?e = task" "bu_kind ?e = TerminalOutput" "bu_messages ?e = messages" "bu_bytes ?e = send_bytes messages"
    "bu_order ?e = dv_order d" by (simp_all add: new_buffered_def)
  have "?e \<in> set (drop_excess (?r @ [?e]))"
  proof (rule newest_kept)
    show "in_order (?r @ [?e])" using b in_order_filter [of "buffer_of d key"]
      by (auto simp: base_ok_def sorted_wrt_append e entry_ok_def)
  qed (use assms(4) e in simp_all)
  thus ?thesis using e assms(2,3) by (auto simp: bufferTaskOutput_def Let_def)
qed

lemma not_disposed_meanwhile:
  assumes "\<forall>e \<in> set es. e \<noteq> DisposeBinding key" "key \<notin> set (dv_disposed d)"
  shows "key \<notin> set (dv_disposed (run_steps delivery_step d es))"
  using assms
proof (induction es arbitrary: d)
  case (Cons e es)
  have sd: "dv_disposed (drain_settled k r d) = dv_disposed d" for k r
    by (simp add: drain_settled_def advance_entry_def Let_def split: option.split send_result.split)
  have "key \<notin> set (dv_disposed (delivery_step d e))"
    using Cons.prems by (cases e) (auto simp: sd bufferTaskOutput_def Let_def drainBufferedOutput_def drain_finally_def
        dispose_buffer_def activate_buffer_def)
  thus ?case using Cons by simp
qed simp

definition patient :: "jstr \<Rightarrow> send_answers \<Rightarrow> bool" where
  "patient key ans \<longleftrightarrow> (\<forall>i. (\<forall>e \<in> set (sd_before (ans i)). e \<noteq> DisposeBinding key)
     \<and> (case sd_result (ans i) of Delivered \<Rightarrow> sd_current (ans i) | Refused code \<Rightarrow> kept_for_later code))"

lemma patientD:
  "patient key ans \<Longrightarrow> sd_result (ans i) = Delivered \<Longrightarrow> sd_current (ans i)"
  "patient key ans \<Longrightarrow> sd_result (ans i) = Refused code \<Longrightarrow> kept_for_later code"
  by (auto simp: patient_def dest!: spec [of _ i])

lemma flush_keeps:
  assumes "patient key ans" "delivery_inv d" "key \<notin> set (dv_disposed d)" "send_bytes messages \<le> MAX_BUFFERED_OUTPUT_BYTES"
    "r = drop index messages" "index \<le> length messages"
    "flush_messages key task texts messages index r ans d = (sent, d')"
  shows "sent = r \<or> (\<exists>k < length messages. index \<le> k \<and> sent = take (k - index) r \<and> (\<exists>e \<in> set (buffer_of d' key).
      bu_task e = task \<and> bu_kind e = TerminalOutput \<and> bu_messages e = drop (if k < texts then 0 else k) messages))"
  using assms(2-)
proof (induction r arbitrary: index d sent d')
  case (Cons m r)
  let ?t = "ans index"
  let ?d1 = "meanwhile ?t d"
  have lt: "index < length messages" using Cons.prems(4,5) by (cases "index = length messages") auto
  have m: "r = drop (Suc index) messages" using Cons.prems(4) lt by (simp add: drop_Suc flip: tl_drop) (metis list.sel(3))
  have p: "\<forall>e \<in> set (sd_before ?t). e \<noteq> DisposeBinding key" using assms(1) by (simp add: patient_def)
  have i1: "delivery_inv ?d1" "key \<notin> set (dv_disposed ?d1)"
    unfolding meanwhile_def using output_buffer.run_from_inv [OF Cons.prems(1)] not_disposed_meanwhile [OF p Cons.prems(2)] by simp_all
  show ?case
  proof (cases "sd_result ?t")
    case Delivered
    hence "sd_current ?t" by (rule patientD(1) [OF assms(1)])
    obtain s2 d2 where f: "flush_messages key task texts messages (Suc index) r ans ?d1 = (s2, d2)" by fastforce
    have sd: "sent = m # s2" "d' = d2" using Cons.prems(6) Delivered \<open>sd_current ?t\<close> f by (simp_all add: Let_def)
    from Cons.IH [OF i1 Cons.prems(3) m _ f] lt consider "s2 = r" | k where "k < length messages" "Suc index \<le> k" "s2 = take (k - Suc index) r"
      "\<exists>e \<in> set (buffer_of d2 key). bu_task e = task \<and> bu_kind e = TerminalOutput
        \<and> bu_messages e = drop (if k < texts then 0 else k) messages" by auto
    thus ?thesis
    proof cases
      case 2
      have "m # s2 = take (k - index) (m # r)" using 2(2,3) by (simp add: take_Cons' Suc_diff_le)
      thus ?thesis using 2 sd Suc_leD by metis
    qed (simp add: sd)
  next
    case (Refused code)
    hence k: "kept_for_later code" by (rule patientD(2) [OF assms(1)])
    let ?ms = "drop (if index < texts then 0 else index) messages"
    have sd: "sent = []" "d' = bufferTaskOutput key task TerminalOutput ?ms ?d1"
      using Cons.prems(6) Refused k by (simp_all add: Let_def)
    have "?ms \<noteq> []" using lt by auto
    moreover have "send_bytes ?ms \<le> MAX_BUFFERED_OUTPUT_BYTES" using send_bytes_drop Cons.prems(3) by (rule order_trans)
    ultimately have "\<exists>e \<in> set (buffer_of d' key). bu_task e = task \<and> bu_kind e = TerminalOutput \<and> bu_messages e = ?ms"
      unfolding sd(2) by (intro buffered_terminal [OF i1(1) _ i1(2)])
    moreover have "sent = take (index - index) (m # r)" by (simp add: sd)
    ultimately show ?thesis using lt le_refl by blast
  qed
qed simp

text \<open>C26 The answer of a task is not lost.  Whatever the agent wrote, if the worker refuses messages only for the
  moment and the binding stays, then after the terminal flush either every message of the answer was
  delivered, or the buffer holds, as terminal output of the task, the messages from the first one not
  delivered on, and all of them if that one belongs to the text, so that the receiver gets the frames of the
  text once more from the beginning.  The buffer is always large enough for it: a text of 1 MiB may take six
  times as many bytes as JSON and a third more as chunks, and sixteen cards may follow.\<close>

theorem answer_is_delivered_or_kept:
  assumes "d = run_steps delivery_step no_delivery es" "key \<notin> set (dv_disposed d)" "patient key ans"
    "stream_ids_ok t" "status \<in> {''completed'', ''cancelled'', ''failed''}" "\<forall>x. length (sha x) = 32"
    "byte_length (quote (replyTargetId (st_conversation t))) \<le> 1300"
    "terminal_messages sha cv url t status now (output_of cv url deltas reply) = Inr (texts, cards)"
    "flushTerminal key task texts cards ans d = (sent, d')"
  shows "sent = texts @ cards \<or> (\<exists>k < length (texts @ cards). sent = take k (texts @ cards)
    \<and> (\<exists>e \<in> set (buffer_of d' key). bu_task e = task \<and> bu_kind e = TerminalOutput
        \<and> bu_messages e = (if k < length texts then texts @ cards else drop k (texts @ cards))))"
proof -
  let ?d0 = "removeBufferedTask key task (Some CoarseOutput) d"
  have i: "delivery_inv ?d0" unfolding assms(1) by (intro removed_inv output_buffer.run_inv)
  have n: "key \<notin> set (dv_disposed ?d0)" using assms(2) by simp
  have fits: "send_bytes (texts @ cards) \<le> MAX_BUFFERED_OUTPUT_BYTES"
    by (rule answer_fits_the_buffer [OF assms(4-8)])
  from flush_keeps [OF assms(3) i n fits _ _ assms(9) [unfolded flushTerminal_def]] show ?thesis by fastforce
qed

subsection \<open>The properties at concrete inputs\<close>

definition chunk_sample :: "int \<Rightarrow> worker_send" where
  "chunk_sample i = \<lparr>ws_conversationType = 1, ws_targetId = [], ws_messageType = ''chat_stream_chunk'',
     ws_content = JObj [(js ''chunkIndex'', JInt i), (js ''chunkCount'', JInt 2)]\<rparr>"

definition entry_sample :: buffered where
  "entry_sample = new_buffered [84] TerminalOutput [chunk_sample 0, chunk_sample 1] 0"

lemma chunk_sample_bytes: "i \<in> {0, 1} \<Longrightarrow> byte_length (stringify (send_json (chunk_sample i))) \<le> 200"
proof -
  assume i: "i \<in> {0, 1}"
  have "byte_length (stringify (JInt i)) \<le> 1" "byte_length (stringify (JInt 2)) \<le> 1"
    using i byte_length_int [of i 1] byte_length_int [of 2 1] by auto
  hence "byte_length (stringify (JObj [(js ''chunkIndex'', JInt i), (js ''chunkCount'', JInt 2)])) \<le> 32"
    using printed_object_le [of "[(js ''chunkIndex'', JInt i), (js ''chunkCount'', JInt 2)]"]
      printed_line_le [of "''chunkIndex''" "JInt i"] printed_line_le [of "''chunkCount''" "JInt 2"]
    by (simp add: quotable_def del: stringify.simps)
  moreover have "byte_length (quote []) \<le> 2" using quote_form [of "[]"] by simp
  ultimately show ?thesis using sent_bytes_le [of "chunk_sample i"] by (simp add: chunk_sample_def quotable_def del: stringify.simps)
qed

lemma entry_sample_value:
  "bu_messages entry_sample = [chunk_sample 0, chunk_sample 1]" "bu_frames entry_sample = Some (2, 0)"
  "bu_order entry_sample = 0" "current_message entry_sample = Some (chunk_sample 0)" "drop_excess [entry_sample] = [entry_sample]"
proof -
  show v: "bu_messages entry_sample = [chunk_sample 0, chunk_sample 1]" "bu_frames entry_sample = Some (2, 0)"
    "bu_order entry_sample = 0"
    by (simp_all add: entry_sample_def new_buffered_def first_chunk_def chunk_sample_def field_def)
  thus "current_message entry_sample = Some (chunk_sample 0)" by (simp add: current_message_def frame_cursor_def)
  have "bu_bytes entry_sample = send_bytes [chunk_sample 0, chunk_sample 1]" by (simp add: entry_sample_def new_buffered_def)
  hence "bu_bytes entry_sample \<le> 404" using send_bytes_le [of "[chunk_sample 0, chunk_sample 1]" 200] chunk_sample_bytes by simp
  thus "drop_excess [entry_sample] = [entry_sample]"
    by (simp add: drop_excess.simps over_limits_def total_bytes_def MAX_BUFFERED_OUTPUT_ENTRIES_def MAX_BUFFERED_OUTPUT_BYTES_def)
qed

definition buffered_sample :: delivery where
  "buffered_sample = run_steps delivery_step no_delivery [Buffer [75] [84] TerminalOutput [chunk_sample 0, chunk_sample 1]]"

lemma buffered_sample_value: "buffered_sample = no_delivery\<lparr>dv_buffer := [([75], [entry_sample])], dv_order := 1\<rparr>"
  by (simp add: buffered_sample_def bufferTaskOutput_def no_delivery_def buffer_of_def set_buffer_def entry_sample_def [symmetric]
      entry_sample_value(5) mset_at_def)

lemma buffered_sample_fields:
  "buffer_of buffered_sample [75] = [entry_sample]" "dv_disposed buffered_sample = []" "mget (dv_drains buffered_sample) [75] = None"
  by (simp_all add: buffered_sample_value buffer_of_def no_delivery_def mget_def)

lemma reconnect_delivers_the_buffer_witness:
  "klog (run_steps delivery_step buffered_sample [BindingOnline [75], Settle [75] Delivered, Settle [75] Delivered]) [75]
    = klog buffered_sample [75] @ [chunk_sample 0, chunk_sample 1]"
proof -
  have w: "concat (map bu_messages (buffer_of buffered_sample [75])) = [chunk_sample 0, chunk_sample 1]"
    by (simp add: buffered_sample_fields entry_sample_value)
  have "\<forall>e \<in> set (buffer_of buffered_sample [75]). \<forall>n c. bu_frames e = Some (n, c) \<longrightarrow> c < n"
    by (simp add: buffered_sample_fields entry_sample_value)
  from reconnect_delivers_the_buffer [OF buffered_sample_def _ buffered_sample_fields(3) this] show ?thesis
    unfolding w by (simp add: buffered_sample_fields(2) numeral_2_eq_2 del: run_steps.simps)
qed

definition delivering_sample :: delivery where
  "delivering_sample = run_steps delivery_step no_delivery
     [Buffer [75] [84] TerminalOutput [chunk_sample 0, chunk_sample 1], BindingOnline [75]]"

lemma delivering_sample_value:
  "buffer_of delivering_sample [75] = [entry_sample]"
  "mget (dv_drains delivering_sample) [75] = Some (Some (entry_sample, chunk_sample 0))"
proof -
  have "delivering_sample = drain_next [75] buffered_sample"
  proof -
    have "delivering_sample = drainBufferedOutput [75] buffered_sample" by (simp add: delivering_sample_def buffered_sample_def)
    thus ?thesis using buffered_sample_fields(2,3) by (simp add: drainBufferedOutput_def mhas_iff)
  qed
  also have "\<dots> = buffered_sample\<lparr>dv_drains := mset_at (dv_drains buffered_sample) [75] (Some (entry_sample, chunk_sample 0))\<rparr>"
    by (subst drain_next.simps) (simp add: buffered_sample_fields entry_sample_value)
  finally have d: "delivering_sample = buffered_sample\<lparr>dv_drains := mset_at (dv_drains buffered_sample) [75] (Some (entry_sample, chunk_sample 0))\<rparr>" .
  show "buffer_of delivering_sample [75] = [entry_sample]" unfolding d by (simp add: buffered_sample_fields)
  show "mget (dv_drains delivering_sample) [75] = Some (Some (entry_sample, chunk_sample 0))" unfolding d by (simp add: mget_set_at)
qed

lemma chunks_are_delivered_in_a_row_witness:
  "suffix [chunk_sample 0] (klog (delivery_step delivering_sample (Settle [75] Delivered)) [75])"
  using chunks_are_delivered_in_a_row [OF delivering_sample_def delivering_sample_value(2) _ refl entry_sample_value(2)]
  by (simp add: delivering_sample_value(1) entry_sample_value(1) del: delivery_step.simps)

lemma output_buffer_is_bounded_witness: "length (buffer_of delivering_sample [75]) \<le> MAX_BUFFERED_OUTPUT_ENTRIES"
  using output_buffer_is_bounded [OF delivering_sample_def, of "[75]"] by simp

definition refusing_sample :: send_answers where
  "refusing_sample i = \<lparr>sd_before = [], sd_result = Refused (Some (js ''timeout'')), sd_current = True\<rparr>"

lemma answer_is_delivered_or_kept_witness:
  "\<exists>texts cards. texts \<noteq> [] \<and> (\<exists>e \<in> set (buffer_of (snd (flushTerminal [75] [84] texts cards refusing_sample no_delivery)) [75]).
     bu_messages e = texts @ cards)"
proof -
  let ?cv = "\<lambda>_. NDbl []" and ?url = "\<lambda>_. None" and ?t = stream_task_sample
  let ?a = "output_of ?cv ?url [js ''hi''] []"
  let ?c = "card_messages ?url (st_conversation ?t) 0 (m_cards (parsed_output ?cv ?a))"
  let ?f = "finalText (m_text (parsed_output ?cv ?a)) (snd ?c)"
  have s: "''completed'' \<in> {''processing'', ''streaming'', ''completed'', ''cancelled'', ''failed''}"
    "''completed'' \<in> {''completed'', ''cancelled'', ''failed''}" by simp_all
  have sh: "\<forall>x. length (sha_demo x) = 32" by simp
  obtain texts where x: "fst (streamMessages sha_demo ?cv ?t ?f ''completed'') = Inr texts" "texts \<noteq> []"
    using streamMessages_sends [OF stream_ids_sample finalText_bytes s(1) sh, of ?cv] by blast
  have t: "terminal_messages sha_demo ?cv ?url ?t ''completed'' 0 ?a = Inr (texts, fst ?c)"
    by (simp add: terminal_messages_def Let_def case_prod_unfold x(1))
  obtain sent d' where f: "flushTerminal [75] [84] texts (fst ?c) refusing_sample no_delivery = (sent, d')" by fastforce
  have "sent = []" using f x(2) by (cases texts) (auto simp: flushTerminal_def refusing_sample_def Let_def)
  have p: "patient [75] refusing_sample" by (simp add: patient_def refusing_sample_def kept_for_later_def TRANSIENT_OUTPUT_CODES_def)
  have q: "byte_length (quote (replyTargetId (st_conversation ?t))) \<le> 1300"
    using quote_form [of "replyTargetId (st_conversation ?t)"] by (simp add: stream_task_sample_def replyTargetId_def)
  have n: "no_delivery = run_steps delivery_step no_delivery []" by simp
  have nd: "[75] \<notin> set (dv_disposed no_delivery)" by (simp add: no_delivery_def)
  from answer_is_delivered_or_kept [OF n nd p stream_ids_sample s(2) sh q t f] \<open>sent = []\<close> x(2)
  have "\<exists>e \<in> set (buffer_of d' [75]). bu_messages e = texts @ fst ?c" by (cases texts) auto
  hence "\<exists>e \<in> set (buffer_of (snd (flushTerminal [75] [84] texts (fst ?c) refusing_sample no_delivery)) [75]). bu_messages e = texts @ fst ?c"
    by (simp only: f snd_conv)
  thus ?thesis using x(2) by blast
qed

end
