(* ===== verification/Lanes.thy ===== *)
theory Lanes imports Conversation JsMap "HOL-Library.Sublist" begin

text \<open>
  The lanes of \<^verbatim>\<open>router/message-router.ts\<close>: the operations of one conversation run one after the other, in the
  order they came, and only so many may wait.  An operation is a number; what it does is not of interest here.
  Everything that runs between two awaits is one step.  The log of the operations that were started, and the
  list of those that were accepted, are of the model.
\<close>

definition MAX_WAITING_PER_CONVERSATION :: nat where
  "MAX_WAITING_PER_CONVERSATION = 8"

definition MAX_WAITING_PER_BINDING :: nat where
  "MAX_WAITING_PER_BINDING = 256"

definition MAX_WAITING_PROCESS :: nat where
  "MAX_WAITING_PROCESS = 1024"

datatype item_state = ItemWaiting | ItemExecuting | ItemReleased

record lane_item =
  it_id :: nat
  it_state :: item_state

text \<open>\<open>ln_current\<close> is the operation that is awaited.\<close>

record lane =
  ln_binding :: jstr
  ln_running :: bool
  ln_queue :: "lane_item list"
  ln_current :: "nat option"

record lanes_state =
  la_lanes :: "(jstr, lane) jsmap"
  la_waiting :: nat
  la_waitingByBinding :: "(jstr, nat) jsmap"
  la_disposed :: "jstr list"
  la_accepted :: "(jstr \<times> nat) list"
  la_started :: "(jstr \<times> nat) list"
  la_busy :: "(jstr \<times> nat) list"

definition no_lanes :: lanes_state where
  "no_lanes = \<lparr>la_lanes = [], la_waiting = 0, la_waitingByBinding = [], la_disposed = [], la_accepted = [], la_started = [], la_busy = []\<rparr>"

definition waiting_of :: "lanes_state \<Rightarrow> jstr \<Rightarrow> nat" where
  "waiting_of s b = (case mget (la_waitingByBinding s) b of None \<Rightarrow> 0 | Some n \<Rightarrow> n)"

definition incrementWaiting :: "jstr \<Rightarrow> lanes_state \<Rightarrow> lanes_state" where
  "incrementWaiting b s = s\<lparr>la_waiting := la_waiting s + 1, la_waitingByBinding := mset_at (la_waitingByBinding s) b (waiting_of s b + 1)\<rparr>"

definition decrementWaiting :: "jstr \<Rightarrow> lanes_state \<Rightarrow> lanes_state" where
  "decrementWaiting b s = (let next = waiting_of s b - 1 in
     s\<lparr>la_waiting := la_waiting s - 1,
       la_waitingByBinding := (if next = 0 then mdelete (la_waitingByBinding s) b else mset_at (la_waitingByBinding s) b next)\<rparr>)"

text \<open>The loop of a lane up to its next await; the lane is taken out when its queue is empty.\<close>

fun run_queue :: "jstr \<Rightarrow> jstr \<Rightarrow> lane_item list \<Rightarrow> lanes_state \<Rightarrow> lanes_state" where
  "run_queue key b [] s = s\<lparr>la_lanes := mdelete (la_lanes s) key\<rparr>"
| "run_queue key b (item # r) s =
     (if it_state item = ItemReleased then run_queue key b r s
      else let s1 = (if it_state item = ItemWaiting then decrementWaiting b s else s)
           in s1\<lparr>la_lanes := mset_at (la_lanes s1) key \<lparr>ln_binding = b, ln_running = True, ln_queue = r, ln_current = Some (it_id item)\<rparr>,
                 la_started := la_started s1 @ [(key, it_id item)]\<rparr>)"

definition runLane :: "jstr \<Rightarrow> lanes_state \<Rightarrow> lanes_state" where
  "runLane key s = (case mget (la_lanes s) key of None \<Rightarrow> s | Some l \<Rightarrow> run_queue key (ln_binding l) (ln_queue l) s)"

definition conversation_binding :: "conversation \<Rightarrow> jstr" where
  "conversation_binding c = bindingKey (c_runtimeId c) (c_nodeId c)"

definition enqueue :: "conversation \<Rightarrow> nat \<Rightarrow> lanes_state \<Rightarrow> lanes_state" where
  "enqueue c operation s =
     (let bindKey = conversation_binding c; key = conversationKey c in
      if bindKey \<in> set (la_disposed s) then s
      else let lane = (case mget (la_lanes s) key of
                 None \<Rightarrow> \<lparr>ln_binding = bindKey, ln_running = False, ln_queue = [], ln_current = None\<rparr> | Some l \<Rightarrow> l);
               s1 = s\<lparr>la_lanes := mset_at (la_lanes s) key lane\<rparr>
           in if (ln_running lane \<or> ln_queue lane \<noteq> [])
                 \<and> (length (ln_queue lane) \<ge> MAX_WAITING_PER_CONVERSATION \<or> waiting_of s bindKey \<ge> MAX_WAITING_PER_BINDING
                    \<or> la_waiting s \<ge> MAX_WAITING_PROCESS)
              then s1\<lparr>la_busy := la_busy s1 @ [(key, operation)]\<rparr>
              else let item = \<lparr>it_id = operation, it_state = (if ln_running lane then ItemWaiting else ItemExecuting)\<rparr>;
                       s2 = (if it_state item = ItemWaiting then incrementWaiting bindKey s1 else s1);
                       s3 = s2\<lparr>la_lanes := mset_at (la_lanes s2) key (lane\<lparr>ln_queue := ln_queue lane @ [item]\<rparr>),
                               la_accepted := la_accepted s2 @ [(key, operation)]\<rparr>
                   in if \<not> ln_running lane
                      then runLane key (s3\<lparr>la_lanes := mset_at (la_lanes s3) key (lane\<lparr>ln_queue := ln_queue lane @ [item], ln_running := True\<rparr>)\<rparr>)
                      else s3)"

text \<open>The awaited operation is done; if it was rejected, the loop throws and the lane keeps running forever.\<close>

definition operation_done :: "jstr \<Rightarrow> lanes_state \<Rightarrow> lanes_state" where
  "operation_done key s = (case mget (la_lanes s) key of
     None \<Rightarrow> s
   | Some l \<Rightarrow> if ln_current l = None then s else run_queue key (ln_binding l) (ln_queue l) s)"

definition operation_rejected :: "jstr \<Rightarrow> lanes_state \<Rightarrow> lanes_state" where
  "operation_rejected key s = (case mget (la_lanes s) key of
     None \<Rightarrow> s
   | Some l \<Rightarrow> s\<lparr>la_lanes := mset_at (la_lanes s) key (l\<lparr>ln_current := None\<rparr>)\<rparr>)"

text \<open>The disposal of a binding releases what waits.\<close>

fun release_items :: "jstr \<Rightarrow> lane_item list \<Rightarrow> lanes_state \<Rightarrow> lanes_state" where
  "release_items b [] s = s"
| "release_items b (item # r) s = release_items b r (if it_state item = ItemWaiting then decrementWaiting b s else s)"

definition dispose_lane :: "jstr \<Rightarrow> jstr \<times> lane \<Rightarrow> lanes_state \<Rightarrow> lanes_state" where
  "dispose_lane b p s =
     (if ln_binding (snd p) \<noteq> b then s
      else let s1 = release_items b (ln_queue (snd p)) s
           in if ln_running (snd p) then s1\<lparr>la_lanes := mset_at (la_lanes s1) (fst p) ((snd p)\<lparr>ln_queue := []\<rparr>)\<rparr>
              else s1\<lparr>la_lanes := mdelete (la_lanes s1) (fst p)\<rparr>)"

definition dispose_lanes :: "jstr \<Rightarrow> lanes_state \<Rightarrow> lanes_state" where
  "dispose_lanes b s = fold (dispose_lane b) (la_lanes s) (s\<lparr>la_disposed := List.insert b (la_disposed s)\<rparr>)"

definition activate_lanes :: "jstr \<Rightarrow> lanes_state \<Rightarrow> lanes_state" where
  "activate_lanes b s = s\<lparr>la_disposed := removeAll b (la_disposed s)\<rparr>"

datatype lane_event =
    Enqueue conversation nat
  | OperationDone jstr
  | OperationRejected jstr
  | DisposeLanes jstr
  | ActivateLanes jstr

fun lane_step :: "lanes_state \<Rightarrow> lane_event \<Rightarrow> lanes_state" where
  "lane_step s (Enqueue c operation) = enqueue c operation s"
| "lane_step s (OperationDone key) = operation_done key s"
| "lane_step s (OperationRejected key) = operation_rejected key s"
| "lane_step s (DisposeLanes b) = dispose_lanes b s"
| "lane_step s (ActivateLanes b) = activate_lanes b s"

subsection \<open>The specification\<close>

text \<open>
  What a lane promises, without its counters: for each conversation the operation that runs and the ones that
  wait, in order.
\<close>

definition queue_of :: "lanes_state \<Rightarrow> jstr \<Rightarrow> nat list" where
  "queue_of s key = (case mget (la_lanes s) key of None \<Rightarrow> [] | Some l \<Rightarrow> map it_id (ln_queue l))"

definition running_of :: "lanes_state \<Rightarrow> jstr \<Rightarrow> nat option" where
  "running_of s key = (case mget (la_lanes s) key of None \<Rightarrow> None | Some l \<Rightarrow> ln_current l)"

end
