(* ===== verification/LaneProofs.thy ===== *)
theory LaneProofs imports Lanes begin

text \<open>
  The counters of the lanes are the numbers of waiting operations and stay within their limits; operations of a
  conversation start in the order they were accepted, one at a time.
\<close>

subsection \<open>Sums over a map\<close>

definition msum :: "('v \<Rightarrow> nat) \<Rightarrow> ('k, 'v) jsmap \<Rightarrow> nat" where
  "msum f m = sum_list (map (\<lambda>p. f (snd p)) m)"

lemma msum_simps [simp]: "msum f [] = 0" "msum f ((k, v) # m) = f v + msum f m"
  by (simp_all add: msum_def)

lemma msum_set: "msum f (mset_at m k v) + (case mget m k of None \<Rightarrow> 0 | Some x \<Rightarrow> f x) = msum f m + f v"
  by (induction m) (auto simp: mset_at_def mget_def split: option.splits)

lemma msum_delete_wf: "mwf m \<Longrightarrow> msum f (mdelete m k) + (case mget m k of None \<Rightarrow> 0 | Some x \<Rightarrow> f x) = msum f m"
proof (induction m)
  case (Cons p m)
  obtain a b where p: "p = (a, b)" by fastforce
  have "mwf m" using Cons.prems by (simp add: mwf_def)
  moreover have "a = k \<Longrightarrow> mget m k = None" using Cons.prems p by (auto simp: mwf_def mget_def map_of_eq_None_iff)
  ultimately show ?case using Cons.IH p mdelete_absent [of m k] by (auto simp: mdelete_def mget_def AList.delete_eq split: option.splits)
qed (simp add: mdelete_def mget_def)

lemma msum_ge: "mget m k = Some v \<Longrightarrow> f v \<le> msum f m"
  by (induction m) (auto simp: mget_def split: if_splits)

lemma msum_cong: "\<forall>k v. (k, v) \<in> set m \<longrightarrow> f v = g v \<Longrightarrow> msum f m = msum g m"
  unfolding msum_def by (rule arg_cong [of _ _ sum_list]) auto

subsection \<open>The invariant\<close>

definition waits :: "lane \<Rightarrow> nat" where
  "waits l = length (ln_queue l)"

definition waits_for :: "jstr \<Rightarrow> lane \<Rightarrow> nat" where
  "waits_for b l = (if ln_binding l = b then length (ln_queue l) else 0)"

definition lane_ok :: "jstr \<Rightarrow> lane \<Rightarrow> bool" where
  "lane_ok key l \<longleftrightarrow> ln_running l \<and> (\<forall>i \<in> set (ln_queue l). it_state i = ItemWaiting)
     \<and> length (ln_queue l) \<le> MAX_WAITING_PER_CONVERSATION \<and> (\<exists>c. key = conversationKey c \<and> ln_binding l = conversation_binding c)"

definition counters_ok :: "lanes_state \<Rightarrow> bool" where
  "counters_ok s \<longleftrightarrow> la_waiting s = msum waits (la_lanes s) \<and> (\<forall>b. waiting_of s b = msum (waits_for b) (la_lanes s))"

definition lanes_inv :: "lanes_state \<Rightarrow> bool" where
  "lanes_inv s \<longleftrightarrow> mwf (la_lanes s) \<and> (\<forall>key l. mget (la_lanes s) key = Some l \<longrightarrow> lane_ok key l) \<and> counters_ok s
     \<and> la_waiting s \<le> MAX_WAITING_PROCESS \<and> (\<forall>b. waiting_of s b \<le> MAX_WAITING_PER_BINDING)
     \<and> (\<forall>b \<in> set (la_disposed s). waiting_of s b = 0)"

lemma waiting_simps [simp]:
  "waiting_of (incrementWaiting b s) b' = (if b' = b then waiting_of s b + 1 else waiting_of s b')"
  "la_waiting (incrementWaiting b s) = la_waiting s + 1"
  "waiting_of (decrementWaiting b s) b' = (if b' = b then waiting_of s b - 1 else waiting_of s b')"
  "la_waiting (decrementWaiting b s) = la_waiting s - 1"
  by (auto simp: incrementWaiting_def decrementWaiting_def waiting_of_def mget_set_at mget_delete Let_def)

lemma counter_fields [simp]:
  "la_lanes (incrementWaiting b s) = la_lanes s" "la_lanes (decrementWaiting b s) = la_lanes s"
  "la_disposed (incrementWaiting b s) = la_disposed s" "la_disposed (decrementWaiting b s) = la_disposed s"
  "la_started (incrementWaiting b s) = la_started s" "la_started (decrementWaiting b s) = la_started s"
  "la_accepted (incrementWaiting b s) = la_accepted s" "la_accepted (decrementWaiting b s) = la_accepted s"
  by (simp_all add: incrementWaiting_def decrementWaiting_def Let_def)

lemma waiting_other [simp]:
  "waiting_of (s\<lparr>la_lanes := x\<rparr>) b = waiting_of s b" "waiting_of (s\<lparr>la_started := y\<rparr>) b = waiting_of s b"
  "waiting_of (s\<lparr>la_accepted := z\<rparr>) b = waiting_of s b" "waiting_of (s\<lparr>la_busy := u\<rparr>) b = waiting_of s b"
  "waiting_of (s\<lparr>la_disposed := w\<rparr>) b = waiting_of s b"
  by (simp_all add: waiting_of_def)

lemma binding_of_key: "conversationKey a = conversationKey b \<Longrightarrow> conversation_binding a = conversation_binding b"
  by (simp add: conversationKey_eq_iff conversation_binding_def)

text \<open>A lane in the map is at an await, its queue is waiting: the loop starts the first of them or ends.\<close>

lemma run_waiting:
  assumes "\<forall>i \<in> set q. it_state i = ItemWaiting"
  shows "run_queue key b q s = (case q of [] \<Rightarrow> s\<lparr>la_lanes := mdelete (la_lanes s) key\<rparr>
    | item # r \<Rightarrow> (decrementWaiting b s)\<lparr>la_lanes := mset_at (la_lanes s) key \<lparr>ln_binding = b, ln_running = True, ln_queue = r, ln_current = Some (it_id item)\<rparr>,
        la_started := la_started s @ [(key, it_id item)]\<rparr>)"
  using assms by (cases q) (auto simp: Let_def)

lemma done_inv:
  assumes i: "lanes_inv s" and l: "mget (la_lanes s) key = Some l"
  shows "lanes_inv (run_queue key (ln_binding l) (ln_queue l) s)"
proof -
  have ok: "lane_ok key l" using i l by (simp add: lanes_inv_def)
  hence w: "\<forall>i \<in> set (ln_queue l). it_state i = ItemWaiting" by (simp add: lane_ok_def)
  have m: "mwf (la_lanes s)" and c: "counters_ok s" using i by (simp_all add: lanes_inv_def)
  show ?thesis
  proof (cases "ln_queue l")
    case Nil
    have "msum waits (mdelete (la_lanes s) key) = msum waits (la_lanes s)" "msum (waits_for b) (mdelete (la_lanes s) key) = msum (waits_for b) (la_lanes s)" for b
      using msum_delete_wf [OF m, of waits key] msum_delete_wf [OF m, of "waits_for b" key] l Nil by (auto simp: waits_def waits_for_def split: if_splits)
    thus ?thesis using i Nil mwf_delete [OF m, of key]
      by (auto simp: lanes_inv_def counters_ok_def mget_delete)
  next
    case (Cons item r)
    let ?l = "\<lparr>ln_binding = ln_binding l, ln_running = True, ln_queue = r, ln_current = Some (it_id item)\<rparr>"
    let ?m = "mset_at (la_lanes s) key ?l"
    have s: "run_queue key (ln_binding l) (ln_queue l) s = (decrementWaiting (ln_binding l) s)\<lparr>la_lanes := ?m,
        la_started := la_started s @ [(key, it_id item)]\<rparr>"
      using run_waiting [OF w] Cons by simp
    have n: "msum waits ?m + 1 = msum waits (la_lanes s)"
      "msum (waits_for b) ?m + (if ln_binding l = b then 1 else 0) = msum (waits_for b) (la_lanes s)" for b
      using msum_set [of waits "la_lanes s" key ?l] msum_set [of "waits_for b" "la_lanes s" key ?l] l Cons
      by (simp_all add: waits_def waits_for_def split: if_splits)
    have "counters_ok (run_queue key (ln_binding l) (ln_queue l) s)"
      unfolding counters_ok_def s
    proof (intro conjI allI)
      have "la_waiting s = msum waits (la_lanes s)" using c by (simp add: counters_ok_def)
      thus "la_waiting ((decrementWaiting (ln_binding l) s)\<lparr>la_lanes := ?m, la_started := la_started s @ [(key, it_id item)]\<rparr>)
        = msum waits (la_lanes ((decrementWaiting (ln_binding l) s)\<lparr>la_lanes := ?m, la_started := la_started s @ [(key, it_id item)]\<rparr>))"
        using n(1) by simp
      fix b
      have "waiting_of s b = msum (waits_for b) (la_lanes s)" using c by (simp add: counters_ok_def)
      thus "waiting_of ((decrementWaiting (ln_binding l) s)\<lparr>la_lanes := ?m, la_started := la_started s @ [(key, it_id item)]\<rparr>) b
        = msum (waits_for b) (la_lanes ((decrementWaiting (ln_binding l) s)\<lparr>la_lanes := ?m, la_started := la_started s @ [(key, it_id item)]\<rparr>))"
        using n(2) [of b] by (cases "ln_binding l = b") auto
    qed
    moreover have "lane_ok key ?l" using ok Cons by (auto simp: lane_ok_def)
    moreover have "waiting_of (decrementWaiting (ln_binding l) s) b \<le> waiting_of s b" "la_waiting (decrementWaiting (ln_binding l) s) \<le> la_waiting s" for b
      by simp_all
    ultimately show ?thesis using i mwf_set_at [OF m, of key ?l] unfolding lanes_inv_def s
      by (auto simp: mget_set_at simp del: waiting_simps) (meson le_trans, metis le_zero_eq)
  qed
qed

lemma sums_set:
  "mget m key = Some l \<Longrightarrow> msum waits (mset_at m key l') + length (ln_queue l) = msum waits m + length (ln_queue l')"
  "mget m key = None \<Longrightarrow> msum waits (mset_at m key l') = msum waits m + length (ln_queue l')"
  "mget m key = Some l \<Longrightarrow> ln_binding l' = ln_binding l \<Longrightarrow> msum (waits_for b) (mset_at m key l')
      + (if ln_binding l = b then length (ln_queue l) else 0) = msum (waits_for b) m + (if ln_binding l = b then length (ln_queue l') else 0)"
  "mget m key = None \<Longrightarrow> msum (waits_for b) (mset_at m key l') = msum (waits_for b) m + (if ln_binding l' = b then length (ln_queue l') else 0)"
  using msum_set [of waits m key l'] msum_set [of "waits_for b" m key l'] by (simp_all add: waits_def waits_for_def)

lemma same_queue_inv:
  assumes i: "lanes_inv s" and l: "mget (la_lanes s) key = Some l" and l': "ln_binding l' = ln_binding l" "ln_queue l' = ln_queue l" "ln_running l'"
  shows "lanes_inv (s\<lparr>la_lanes := mset_at (la_lanes s) key l'\<rparr>)"
proof -
  have ok: "lane_ok key l'" using i l l' by (auto simp: lanes_inv_def lane_ok_def)
  have m: "mwf (la_lanes s)" and c: "counters_ok s" using i by (simp_all add: lanes_inv_def)
  have "msum waits (mset_at (la_lanes s) key l') = msum waits (la_lanes s)"
    "msum (waits_for b) (mset_at (la_lanes s) key l') = msum (waits_for b) (la_lanes s)" for b
    using sums_set(1) [OF l, of l'] sums_set(3) [OF l l'(1), of b] l'(2) by (auto split: if_splits)
  thus ?thesis using i c ok mwf_set_at [OF m, of key l'] by (auto simp: lanes_inv_def counters_ok_def mget_set_at)
qed

lemma busy_inv: "lanes_inv s \<Longrightarrow> lanes_inv (s\<lparr>la_busy := u\<rparr>)"
  by (auto simp: lanes_inv_def counters_ok_def)

lemma accepted_inv: "lanes_inv s \<Longrightarrow> lanes_inv (s\<lparr>la_accepted := u\<rparr>)"
  by (auto simp: lanes_inv_def counters_ok_def)

lemma started_inv: "lanes_inv s \<Longrightarrow> lanes_inv (s\<lparr>la_started := u\<rparr>)"
  by (auto simp: lanes_inv_def counters_ok_def)

lemma waiting_inv:
  assumes i: "lanes_inv s" and l: "mget (la_lanes s) key = Some l" and b: "ln_binding l \<notin> set (la_disposed s)"
    and lim: "length (ln_queue l) < MAX_WAITING_PER_CONVERSATION" "waiting_of s (ln_binding l) < MAX_WAITING_PER_BINDING" "la_waiting s < MAX_WAITING_PROCESS"
  shows "lanes_inv ((incrementWaiting (ln_binding l) s)\<lparr>la_lanes := mset_at (la_lanes s) key (l\<lparr>ln_queue := ln_queue l @ [\<lparr>it_id = i0, it_state = ItemWaiting\<rparr>]\<rparr>)\<rparr>)"
proof -
  let ?l = "l\<lparr>ln_queue := ln_queue l @ [\<lparr>it_id = i0, it_state = ItemWaiting\<rparr>]\<rparr>"
  have ok: "lane_ok key ?l" using i l lim(1) by (auto simp: lanes_inv_def lane_ok_def)
  have m: "mwf (la_lanes s)" and c: "counters_ok s" using i by (simp_all add: lanes_inv_def)
  have "msum waits (mset_at (la_lanes s) key ?l) = msum waits (la_lanes s) + 1"
    "msum (waits_for b) (mset_at (la_lanes s) key ?l) = msum (waits_for b) (la_lanes s) + (if ln_binding l = b then 1 else 0)" for b
    using sums_set(1) [OF l, of ?l] sums_set(3) [OF l, of ?l b] by (auto split: if_splits)
  thus ?thesis using i c ok lim b mwf_set_at [OF m, of key ?l] by (auto simp: lanes_inv_def counters_ok_def mget_set_at)
qed

lemma new_lane_inv:
  assumes i: "lanes_inv s" and l: "mget (la_lanes s) (conversationKey c) = None"
  shows "lanes_inv (s\<lparr>la_lanes := mset_at (la_lanes s) (conversationKey c)
     \<lparr>ln_binding = conversation_binding c, ln_running = True, ln_queue = [], ln_current = Some i0\<rparr>\<rparr>)"
proof -
  let ?l = "\<lparr>ln_binding = conversation_binding c, ln_running = True, ln_queue = [], ln_current = Some i0\<rparr>"
  have m: "mwf (la_lanes s)" and c: "counters_ok s" using i by (simp_all add: lanes_inv_def)
  have "lane_ok (conversationKey c) ?l" by (auto simp: lane_ok_def)
  thus ?thesis using i c mwf_set_at [OF m, of "conversationKey c" ?l] sums_set(2) [OF l, of ?l] sums_set(4) [OF l, of _ ?l]
    by (auto simp: lanes_inv_def counters_ok_def mget_set_at)
qed

lemma mset_at_again: "mset_at (mset_at m k v) k v' = mset_at m k v'"
  by (induction m) (auto simp: mset_at_def)

text \<open>The three outcomes of \<open>enqueue\<close> for a binding that is not disposed.\<close>

definition lane_full :: "lanes_state \<Rightarrow> conversation \<Rightarrow> lane \<Rightarrow> bool" where
  "lane_full s c l \<longleftrightarrow> length (ln_queue l) \<ge> MAX_WAITING_PER_CONVERSATION \<or> waiting_of s (conversation_binding c) \<ge> MAX_WAITING_PER_BINDING
     \<or> la_waiting s \<ge> MAX_WAITING_PROCESS"

lemma enqueue_cases:
  assumes i: "lanes_inv s" and d: "conversation_binding c \<notin> set (la_disposed s)"
  shows "case mget (la_lanes s) (conversationKey c) of
     None \<Rightarrow> enqueue c i0 s = s\<lparr>la_lanes := mset_at (la_lanes s) (conversationKey c)
        \<lparr>ln_binding = conversation_binding c, ln_running = True, ln_queue = [], ln_current = Some i0\<rparr>,
        la_accepted := la_accepted s @ [(conversationKey c, i0)], la_started := la_started s @ [(conversationKey c, i0)]\<rparr>
   | Some l \<Rightarrow> ln_binding l = conversation_binding c \<and> enqueue c i0 s = (if lane_full s c l
       then s\<lparr>la_lanes := mset_at (la_lanes s) (conversationKey c) l, la_busy := la_busy s @ [(conversationKey c, i0)]\<rparr>
       else (incrementWaiting (ln_binding l) s)\<lparr>la_lanes := mset_at (la_lanes s) (conversationKey c)
           (l\<lparr>ln_queue := ln_queue l @ [\<lparr>it_id = i0, it_state = ItemWaiting\<rparr>]\<rparr>), la_accepted := la_accepted s @ [(conversationKey c, i0)]\<rparr>)"
proof (cases "mget (la_lanes s) (conversationKey c)")
  case None
  have "enqueue c i0 s = runLane (conversationKey c) (s\<lparr>la_accepted := la_accepted s @ [(conversationKey c, i0)],
        la_lanes := mset_at (la_lanes s) (conversationKey c)
        \<lparr>ln_binding = conversation_binding c, ln_running = True, ln_queue = [\<lparr>it_id = i0, it_state = ItemExecuting\<rparr>], ln_current = None\<rparr>\<rparr>)"
    unfolding enqueue_def Let_def None option.case using d by (simp add: mset_at_again)
  hence e: "enqueue c i0 s = s\<lparr>la_accepted := la_accepted s @ [(conversationKey c, i0)], la_lanes := mset_at (la_lanes s) (conversationKey c)
        \<lparr>ln_binding = conversation_binding c, ln_running = True, ln_queue = [], ln_current = Some i0\<rparr>,
        la_started := la_started s @ [(conversationKey c, i0)]\<rparr>"
    by (simp add: runLane_def mget_set_at mset_at_again)
  show ?thesis unfolding None option.case e by (rule lanes_state.equality) simp_all
next
  case (Some l)
  hence ok: "lane_ok (conversationKey c) l" using i by (simp add: lanes_inv_def)
  then obtain c' where "conversationKey c = conversationKey c'" "ln_binding l = conversation_binding c'" "ln_running l"
    by (auto simp: lane_ok_def)
  hence b: "ln_binding l = conversation_binding c" "ln_running l" using binding_of_key [of c c'] by simp_all
  have f: "((ln_running l \<or> ln_queue l \<noteq> []) \<and> (length (ln_queue l) \<ge> MAX_WAITING_PER_CONVERSATION
      \<or> waiting_of s (conversation_binding c) \<ge> MAX_WAITING_PER_BINDING \<or> la_waiting s \<ge> MAX_WAITING_PROCESS)) = lane_full s c l"
    using b(2) by (simp add: lane_full_def)
  have e: "enqueue c i0 s = (if lane_full s c l
       then s\<lparr>la_lanes := mset_at (la_lanes s) (conversationKey c) l, la_busy := la_busy s @ [(conversationKey c, i0)]\<rparr>
       else (incrementWaiting (ln_binding l) s)\<lparr>la_lanes := mset_at (la_lanes s) (conversationKey c)
           (l\<lparr>ln_queue := ln_queue l @ [\<lparr>it_id = i0, it_state = ItemWaiting\<rparr>]\<rparr>), la_accepted := la_accepted s @ [(conversationKey c, i0)]\<rparr>)"
    unfolding enqueue_def Let_def Some option.case f by (simp add: d b incrementWaiting_def mset_at_again)
  show ?thesis unfolding Some option.case using b(1) e by blast
qed

lemma enqueue_inv:
  assumes i: "lanes_inv s"
  shows "lanes_inv (enqueue c i0 s)"
proof (cases "conversation_binding c \<in> set (la_disposed s)")
  case True
  thus ?thesis using i by (simp add: enqueue_def Let_def)
next
  case False
  note e = enqueue_cases [OF i False, of i0]
  show ?thesis
  proof (cases "mget (la_lanes s) (conversationKey c)")
    case None
    thus ?thesis using e started_inv [OF accepted_inv [OF new_lane_inv [OF i None, of i0]]] by simp
  next
    case (Some l)
    hence r: "ln_running l" using i by (simp add: lanes_inv_def lane_ok_def)
    have b: "ln_binding l = conversation_binding c" using e Some by simp
    show ?thesis
    proof (cases "lane_full s c l")
      case True
      thus ?thesis using e Some busy_inv [OF same_queue_inv [OF i Some refl refl r]] by simp
    next
      case False
      hence lim: "length (ln_queue l) < MAX_WAITING_PER_CONVERSATION" "waiting_of s (ln_binding l) < MAX_WAITING_PER_BINDING" "la_waiting s < MAX_WAITING_PROCESS"
        by (simp_all add: lane_full_def b)
      have "ln_binding l \<notin> set (la_disposed s)" using b \<open>conversation_binding c \<notin> set (la_disposed s)\<close> by simp
      from accepted_inv [OF waiting_inv [OF i Some this lim]] show ?thesis using e Some False by simp
    qed
  qed
qed

lemma rejected_inv: "lanes_inv s \<Longrightarrow> lanes_inv (operation_rejected key s)"
proof (cases "mget (la_lanes s) key")
  case (Some l)
  assume i: "lanes_inv s"
  hence "ln_running (l\<lparr>ln_current := None\<rparr>)" using Some by (simp add: lanes_inv_def lane_ok_def)
  from same_queue_inv [OF i Some _ _ this] show ?thesis by (simp add: operation_rejected_def Some)
qed (simp add: operation_rejected_def)

lemma done_step_inv: "lanes_inv s \<Longrightarrow> lanes_inv (operation_done key s)"
  using done_inv by (auto simp: operation_done_def split: option.split)

lemma activated_lanes_inv: "lanes_inv s \<Longrightarrow> lanes_inv (activate_lanes b s)"
  by (auto simp: activate_lanes_def lanes_inv_def counters_ok_def)

text \<open>Disposal goes through the lanes as they were; each of its steps empties one of them.\<close>

lemma released:
  assumes "\<forall>i \<in> set q. it_state i = ItemWaiting"
  shows "waiting_of (release_items b q s) b' = (if b' = b then waiting_of s b - length q else waiting_of s b')
    \<and> la_waiting (release_items b q s) = la_waiting s - length q
    \<and> la_lanes (release_items b q s) = la_lanes s \<and> la_disposed (release_items b q s) = la_disposed s
    \<and> la_started (release_items b q s) = la_started s \<and> la_accepted (release_items b q s) = la_accepted s"
  using assms by (induction b q s rule: release_items.induct) auto

definition emptied :: "jstr \<Rightarrow> lane \<Rightarrow> lane" where
  "emptied b l = (if ln_binding l = b then l\<lparr>ln_queue := []\<rparr> else l)"

lemma dispose_lane_facts:
  assumes "mwf (la_lanes s)" "\<forall>k l. mget (la_lanes s) k = Some l \<longrightarrow> lane_ok k l" "counters_ok s" "mget (la_lanes s) key = Some l"
  shows "mwf (la_lanes (dispose_lane b (key, l) s)) \<and> counters_ok (dispose_lane b (key, l) s)
    \<and> (\<forall>k. mget (la_lanes (dispose_lane b (key, l) s)) k = (if k = key then Some (emptied b l) else mget (la_lanes s) k))
    \<and> la_waiting (dispose_lane b (key, l) s) \<le> la_waiting s \<and> (\<forall>b'. waiting_of (dispose_lane b (key, l) s) b' \<le> waiting_of s b')
    \<and> la_disposed (dispose_lane b (key, l) s) = la_disposed s \<and> la_started (dispose_lane b (key, l) s) = la_started s
    \<and> la_accepted (dispose_lane b (key, l) s) = la_accepted s"
proof (cases "ln_binding l = b")
  case True
  let ?l = "l\<lparr>ln_queue := []\<rparr>"
  let ?m = "mset_at (la_lanes s) key ?l"
  have ok: "lane_ok key l" using assms(2,4) by blast
  hence r: "ln_running l" and w: "\<forall>i \<in> set (ln_queue l). it_state i = ItemWaiting" by (simp_all add: lane_ok_def)
  note rel = released [OF w, of b s]
  have d: "dispose_lane b (key, l) s = (release_items b (ln_queue l) s)\<lparr>la_lanes := ?m\<rparr>"
    using True r rel by (simp add: dispose_lane_def Let_def)
  have "msum waits ?m + length (ln_queue l) = msum waits (la_lanes s)"
    "msum (waits_for b') ?m + (if ln_binding l = b' then length (ln_queue l) else 0) = msum (waits_for b') (la_lanes s)" for b'
    using sums_set(1) [OF assms(4), of ?l] sums_set(3) [OF assms(4), of ?l b'] by simp_all
  note sums = this
  have "counters_ok (dispose_lane b (key, l) s)"
    unfolding counters_ok_def d
  proof (intro conjI allI)
    have "la_waiting s = msum waits (la_lanes s)" using assms(3) by (simp add: counters_ok_def)
    thus "la_waiting ((release_items b (ln_queue l) s)\<lparr>la_lanes := ?m\<rparr>) = msum waits (la_lanes ((release_items b (ln_queue l) s)\<lparr>la_lanes := ?m\<rparr>))"
      using sums(1) rel by simp
    fix b'
    have "waiting_of s b' = msum (waits_for b') (la_lanes s)" using assms(3) by (simp add: counters_ok_def)
    thus "waiting_of ((release_items b (ln_queue l) s)\<lparr>la_lanes := ?m\<rparr>) b'
        = msum (waits_for b') (la_lanes ((release_items b (ln_queue l) s)\<lparr>la_lanes := ?m\<rparr>))"
      using sums(2) [of b'] released [OF w, of b s b'] True by (cases "b' = b") auto
  qed
  moreover have "waiting_of (release_items b (ln_queue l) s) b' \<le> waiting_of s b'" for b' using released [OF w, of b s b'] by simp
  ultimately show ?thesis using rel mwf_set_at [OF assms(1), of key ?l] True unfolding d by (auto simp: mget_set_at emptied_def)
next
  case False
  thus ?thesis using assms by (auto simp: dispose_lane_def emptied_def)
qed

lemma emptied_ok: "lane_ok key l \<Longrightarrow> lane_ok key (emptied b l)"
  by (auto simp: lane_ok_def emptied_def)

lemma dispose_fold:
  assumes "distinct (map fst xs)" "\<forall>p \<in> set xs. mget (la_lanes s) (fst p) = Some (snd p)"
    "mwf (la_lanes s)" "\<forall>k l. mget (la_lanes s) k = Some l \<longrightarrow> lane_ok k l" "counters_ok s"
  shows "mwf (la_lanes (fold (dispose_lane b) xs s)) \<and> counters_ok (fold (dispose_lane b) xs s)
    \<and> (\<forall>k. mget (la_lanes (fold (dispose_lane b) xs s)) k = (if k \<in> fst ` set xs then map_option (emptied b) (mget (la_lanes s) k) else mget (la_lanes s) k))
    \<and> la_waiting (fold (dispose_lane b) xs s) \<le> la_waiting s \<and> (\<forall>b'. waiting_of (fold (dispose_lane b) xs s) b' \<le> waiting_of s b')
    \<and> la_disposed (fold (dispose_lane b) xs s) = la_disposed s \<and> la_started (fold (dispose_lane b) xs s) = la_started s
    \<and> la_accepted (fold (dispose_lane b) xs s) = la_accepted s"
  using assms
proof (induction xs arbitrary: s)
  case (Cons p xs)
  obtain key l where p: "p = (key, l)" by fastforce
  have l: "mget (la_lanes s) key = Some l" using Cons.prems(2) p by simp
  let ?s = "dispose_lane b (key, l) s"
  note f = dispose_lane_facts [OF Cons.prems(3-5) l, of b]
  have n: "key \<notin> fst ` set xs" using Cons.prems(1) p by simp
  have "\<forall>q \<in> set xs. mget (la_lanes ?s) (fst q) = Some (snd q)"
  proof
    fix q assume q: "q \<in> set xs"
    hence "fst q \<noteq> key" using n by blast
    thus "mget (la_lanes ?s) (fst q) = Some (snd q)" using f Cons.prems(2) q by simp
  qed
  moreover have "\<forall>k x. mget (la_lanes ?s) k = Some x \<longrightarrow> lane_ok k x"
    using f Cons.prems(4) emptied_ok l by auto
  moreover have "distinct (map fst xs)" using Cons.prems(1) by simp
  ultimately have ih: "mwf (la_lanes (fold (dispose_lane b) xs ?s)) \<and> counters_ok (fold (dispose_lane b) xs ?s)
    \<and> (\<forall>k. mget (la_lanes (fold (dispose_lane b) xs ?s)) k = (if k \<in> fst ` set xs then map_option (emptied b) (mget (la_lanes ?s) k) else mget (la_lanes ?s) k))
    \<and> la_waiting (fold (dispose_lane b) xs ?s) \<le> la_waiting ?s \<and> (\<forall>b'. waiting_of (fold (dispose_lane b) xs ?s) b' \<le> waiting_of ?s b')
    \<and> la_disposed (fold (dispose_lane b) xs ?s) = la_disposed ?s \<and> la_started (fold (dispose_lane b) xs ?s) = la_started ?s
    \<and> la_accepted (fold (dispose_lane b) xs ?s) = la_accepted ?s"
    using f by (intro Cons.IH) simp_all
  show ?case unfolding p fold.simps comp_apply using ih f n l by (auto intro: le_trans)
qed simp

lemma disposed_lanes:
  assumes "lanes_inv s"
  shows "mget (la_lanes (dispose_lanes b s)) k = map_option (emptied b) (mget (la_lanes s) k)"
    "la_started (dispose_lanes b s) = la_started s" "la_accepted (dispose_lanes b s) = la_accepted s"
    "lanes_inv (dispose_lanes b s)"
proof -
  let ?s = "s\<lparr>la_disposed := List.insert b (la_disposed s)\<rparr>"
  have m: "mwf (la_lanes s)" and c: "counters_ok ?s" using assms by (auto simp: lanes_inv_def counters_ok_def)
  have p: "distinct (map fst (la_lanes s))" using m by (simp add: mwf_def)
  have q: "\<forall>p \<in> set (la_lanes s). mget (la_lanes ?s) (fst p) = Some (snd p)" using p by (auto simp: mget_def)
  have ok: "\<forall>k l. mget (la_lanes ?s) k = Some l \<longrightarrow> lane_ok k l" using assms by (simp add: lanes_inv_def)
  have m': "mwf (la_lanes ?s)" using m by simp
  note f = dispose_fold [OF p q m' ok c, of b]
  have none: "k \<notin> fst ` set (la_lanes s) \<Longrightarrow> mget (la_lanes s) k = None" for k by (simp add: mget_def map_of_eq_None_iff)
  have g: "mget (la_lanes (dispose_lanes b s)) k = map_option (emptied b) (mget (la_lanes s) k)" for k
    using f none [of k] by (simp add: dispose_lanes_def)
  thus "mget (la_lanes (dispose_lanes b s)) k = map_option (emptied b) (mget (la_lanes s) k)" .
  show "la_started (dispose_lanes b s) = la_started s" "la_accepted (dispose_lanes b s) = la_accepted s" using f by (simp_all add: dispose_lanes_def)
  let ?d = "dispose_lanes b s"
  have mw: "mwf (la_lanes ?d)" and cc: "counters_ok ?d" using f by (simp_all add: dispose_lanes_def)
  have "waiting_of ?d b = 0"
  proof -
    have "msum (waits_for b) (la_lanes ?d) = msum (\<lambda>_. 0) (la_lanes ?d)"
    proof (rule msum_cong, intro allI impI)
      fix k x assume "(k, x) \<in> set (la_lanes ?d)"
      hence "mget (la_lanes ?d) k = Some x" using mw by (simp add: mget_def mwf_def)
      thus "waits_for b x = 0" using g [of k] by (auto simp: emptied_def waits_for_def)
    qed
    thus ?thesis using cc by (simp add: counters_ok_def msum_def)
  qed
  moreover have "waiting_of ?d b' \<le> waiting_of s b'" "la_waiting ?d \<le> la_waiting s" "la_disposed ?d = List.insert b (la_disposed s)" for b'
    using f by (simp_all add: dispose_lanes_def)
  moreover have "\<forall>k l. mget (la_lanes ?d) k = Some l \<longrightarrow> lane_ok k l" using g ok emptied_ok by auto
  ultimately show "lanes_inv ?d" using assms mw cc unfolding lanes_inv_def by (auto intro: le_trans) (meson le_trans, metis le_zero_eq)
qed

lemma lane_step_inv: "lanes_inv s \<Longrightarrow> lanes_inv (lane_step s e)"
  by (cases e) (simp_all only: lane_step.simps enqueue_inv done_step_inv rejected_inv disposed_lanes(4) activated_lanes_inv)

lemma no_lanes_inv: "lanes_inv no_lanes"
  by (simp add: lanes_inv_def no_lanes_def counters_ok_def waiting_of_def)

interpretation lanes: state_machine no_lanes lane_step lanes_inv
  by unfold_locales (simp_all only: no_lanes_inv lane_step_inv)

subsection \<open>Order\<close>

definition of_key :: "jstr \<Rightarrow> (jstr \<times> nat) list \<Rightarrow> nat list" where
  "of_key key xs = map snd (filter (\<lambda>p. fst p = key) xs)"

lemma of_key_simps [simp]: "of_key key [] = []" "of_key key (xs @ ys) = of_key key xs @ of_key key ys"
  "of_key key (p # xs) = (if fst p = key then snd p # of_key key xs else of_key key xs)"
  by (simp_all add: of_key_def)

definition started_or_waiting :: "lanes_state \<Rightarrow> jstr \<Rightarrow> nat list" where
  "started_or_waiting s key = of_key key (la_started s) @ queue_of s key"

text \<open>One operation is done: the first that waits starts.\<close>

lemma done_facts:
  assumes i: "lanes_inv s"
  shows "of_key k (la_started (operation_done key s)) = of_key k (la_started s)
      @ (if k = key \<and> running_of s key \<noteq> None then take 1 (queue_of s key) else [])
    \<and> queue_of (operation_done key s) k = (if k = key \<and> running_of s key \<noteq> None then drop 1 (queue_of s k) else queue_of s k)
    \<and> running_of (operation_done key s) k = (if k = key \<and> running_of s key \<noteq> None
        then (case queue_of s key of [] \<Rightarrow> None | o' # r \<Rightarrow> Some o') else running_of s k)
    \<and> la_accepted (operation_done key s) = la_accepted s"
proof (cases "mget (la_lanes s) key")
  case None
  thus ?thesis by (simp add: operation_done_def running_of_def)
next
  case (Some l)
  have w: "\<forall>i \<in> set (ln_queue l). it_state i = ItemWaiting" using i Some by (simp add: lanes_inv_def lane_ok_def)
  have m: "mwf (la_lanes s)" using i by (simp add: lanes_inv_def)
  show ?thesis
  proof (cases "ln_current l")
    case None
    thus ?thesis using Some by (simp add: operation_done_def running_of_def)
  next
    case c: (Some o')
    hence d: "operation_done key s = run_queue key (ln_binding l) (ln_queue l) s" using Some by (simp add: operation_done_def)
    show ?thesis unfolding d run_waiting [OF w]
      using Some c by (cases "ln_queue l") (auto simp: queue_of_def running_of_def mget_set_at mget_delete)
  qed
qed

lemma enqueue_facts:
  assumes i: "lanes_inv s"
  shows "(started_or_waiting (enqueue c i0 s) k = started_or_waiting s k \<and> of_key k (la_accepted (enqueue c i0 s)) = of_key k (la_accepted s)
      \<or> started_or_waiting (enqueue c i0 s) k = started_or_waiting s k @ [i0] \<and> of_key k (la_accepted (enqueue c i0 s)) = of_key k (la_accepted s) @ [i0])
    \<and> (running_of s k \<noteq> None \<longrightarrow> of_key k (la_started (enqueue c i0 s)) = of_key k (la_started s) \<and> running_of (enqueue c i0 s) k = running_of s k)"
proof (cases "conversation_binding c \<in> set (la_disposed s)")
  case True
  thus ?thesis by (simp add: enqueue_def Let_def)
next
  case False
  note e = enqueue_cases [OF i False, of i0]
  show ?thesis
  proof (cases "mget (la_lanes s) (conversationKey c)")
    case None
    thus ?thesis using e by (auto simp: started_or_waiting_def queue_of_def running_of_def mget_set_at)
  next
    case (Some l)
    thus ?thesis using e by (cases "lane_full s c l") (auto simp: started_or_waiting_def queue_of_def running_of_def mget_set_at incrementWaiting_def)
  qed
qed

lemma other_facts:
  "queue_of (operation_rejected key s) k = queue_of s k" "la_started (operation_rejected key s) = la_started s"
  "la_accepted (operation_rejected key s) = la_accepted s"
  "k \<noteq> key \<Longrightarrow> running_of (operation_rejected key s) k = running_of s k"
  "queue_of (activate_lanes b s) k = queue_of s k" "la_started (activate_lanes b s) = la_started s"
  "la_accepted (activate_lanes b s) = la_accepted s" "running_of (activate_lanes b s) k = running_of s k"
  by (auto simp: operation_rejected_def activate_lanes_def queue_of_def running_of_def mget_set_at split: option.split)

lemma dispose_facts:
  assumes "lanes_inv s"
  shows "prefix (started_or_waiting (dispose_lanes b s) k) (started_or_waiting s k)" "la_accepted (dispose_lanes b s) = la_accepted s"
    "la_started (dispose_lanes b s) = la_started s" "running_of (dispose_lanes b s) k = running_of s k"
  using disposed_lanes(1) [OF assms, of b k] disposed_lanes(2,3) [OF assms, of b]
  by (auto simp: started_or_waiting_def queue_of_def running_of_def emptied_def split: option.split)

lemma in_order_step:
  assumes "lanes_inv s" "subseq (started_or_waiting s k) (of_key k (la_accepted s))"
  shows "subseq (started_or_waiting (lane_step s e) k) (of_key k (la_accepted (lane_step s e)))"
    "\<forall>b. e \<noteq> DisposeLanes b \<Longrightarrow> started_or_waiting s k = of_key k (la_accepted s) \<Longrightarrow>
      started_or_waiting (lane_step s e) k = of_key k (la_accepted (lane_step s e))"
proof -
  have d: "started_or_waiting (operation_done key s) k = started_or_waiting s k" for key
    using done_facts [OF assms(1), of k key] by (cases "queue_of s k") (auto simp: started_or_waiting_def)
  have r: "started_or_waiting (operation_rejected key s) k = started_or_waiting s k" "started_or_waiting (activate_lanes b s) k = started_or_waiting s k" for key b
    by (simp_all add: started_or_waiting_def other_facts)
  have dis: "subseq (started_or_waiting (dispose_lanes b s) k) (started_or_waiting s k)" for b
    using dispose_facts(1) [OF assms(1)] by (auto simp: prefix_def)
  show "subseq (started_or_waiting (lane_step s e) k) (of_key k (la_accepted (lane_step s e)))"
  proof (cases e)
    case (Enqueue c i0)
    thus ?thesis using enqueue_facts [OF assms(1), of c i0 k] assms(2) by (auto intro: list_emb_append_mono)
  next
    case (DisposeLanes b)
    thus ?thesis using subseq_order.trans [OF dis assms(2)] dispose_facts(2) [OF assms(1)] by simp
  qed (use assms(2) d r done_facts [OF assms(1)] other_facts in simp_all)
  assume n: "\<forall>b. e \<noteq> DisposeLanes b" and x: "started_or_waiting s k = of_key k (la_accepted s)"
  show "started_or_waiting (lane_step s e) k = of_key k (la_accepted (lane_step s e))"
  proof (cases e)
    case (Enqueue c i0)
    show ?thesis unfolding Enqueue lane_step.simps using enqueue_facts [OF assms(1), of c i0 k] x by auto
  qed (use n x d r done_facts [OF assms(1)] other_facts in simp_all)
qed

lemma in_order_run:
  assumes "lanes_inv s" "subseq (started_or_waiting s k) (of_key k (la_accepted s))"
  shows "subseq (started_or_waiting (run_steps lane_step s es) k) (of_key k (la_accepted (run_steps lane_step s es)))"
  using assms in_order_step(1) lane_step_inv by (induction es arbitrary: s) simp_all

lemma in_order_run_exact:
  assumes "lanes_inv s" "started_or_waiting s k = of_key k (la_accepted s)" "\<forall>e \<in> set es. \<forall>b. e \<noteq> DisposeLanes b"
  shows "started_or_waiting (run_steps lane_step s es) k = of_key k (la_accepted (run_steps lane_step s es))"
  using assms
proof (induction es arbitrary: s)
  case (Cons e es)
  have "started_or_waiting (lane_step s e) k = of_key k (la_accepted (lane_step s e))"
    using Cons.prems by (intro in_order_step(2)) simp_all
  thus ?case using Cons.IH [OF lane_step_inv [OF Cons.prems(1)]] Cons.prems(3) by simp
qed simp

subsection \<open>Properties\<close>

text \<open>C30 However operations come, end and are disposed of, at most 8 wait for a conversation, 256 for a binding and
  1024 in the process; the counters the router keeps are the true numbers, and nothing waits for a disposed
  binding.\<close>

theorem lane_waiting_is_bounded:
  assumes "s = run_steps lane_step no_lanes es"
  shows "length (queue_of s key) \<le> MAX_WAITING_PER_CONVERSATION
    \<and> waiting_of s b = msum (waits_for b) (la_lanes s) \<and> waiting_of s b \<le> MAX_WAITING_PER_BINDING
    \<and> la_waiting s = msum waits (la_lanes s) \<and> la_waiting s \<le> MAX_WAITING_PROCESS
    \<and> (b \<in> set (la_disposed s) \<longrightarrow> waiting_of s b = 0)"
proof -
  have i: "lanes_inv s" unfolding assms by (rule lanes.run_inv)
  hence "length (queue_of s key) \<le> MAX_WAITING_PER_CONVERSATION"
    by (cases "mget (la_lanes s) key") (simp_all add: queue_of_def lanes_inv_def lane_ok_def)
  thus ?thesis using i unfolding lanes_inv_def counters_ok_def by blast
qed

text \<open>C31 The operations of a conversation start in the order they were accepted and each at most once: those that
  started, followed by those that wait, are the accepted ones, from which only disposal takes any away.\<close>

theorem lane_operations_start_in_order:
  shows "subseq (started_or_waiting (run_steps lane_step no_lanes es) key) (of_key key (la_accepted (run_steps lane_step no_lanes es)))
    \<and> ((\<forall>e \<in> set es. \<forall>b. e \<noteq> DisposeLanes b) \<longrightarrow>
       started_or_waiting (run_steps lane_step no_lanes es) key = of_key key (la_accepted (run_steps lane_step no_lanes es)))"
proof -
  have "started_or_waiting no_lanes key = of_key key (la_accepted no_lanes)"
    by (simp add: started_or_waiting_def no_lanes_def queue_of_def)
  thus ?thesis using in_order_run [OF no_lanes_inv] in_order_run_exact [OF no_lanes_inv] by simp
qed

text \<open>C32 A conversation runs one operation at a time: while one runs, no other of the conversation starts,
  whatever happens, and when it is done the first one that waits starts at once.\<close>

theorem one_operation_at_a_time:
  assumes "s = run_steps lane_step no_lanes es" "running_of s key = Some o'"
  shows "(e \<noteq> OperationDone key \<longrightarrow> of_key key (la_started (lane_step s e)) = of_key key (la_started s)
      \<and> (e \<noteq> OperationRejected key \<longrightarrow> running_of (lane_step s e) key = Some o'))
    \<and> (case queue_of s key of
        [] \<Rightarrow> running_of (lane_step s (OperationDone key)) key = None
      | x # r \<Rightarrow> running_of (lane_step s (OperationDone key)) key = Some x \<and> queue_of (lane_step s (OperationDone key)) key = r
          \<and> of_key key (la_started (lane_step s (OperationDone key))) = of_key key (la_started s) @ [x])"
proof
  have i: "lanes_inv s" unfolding assms(1) by (rule lanes.run_inv)
  show "e \<noteq> OperationDone key \<longrightarrow> of_key key (la_started (lane_step s e)) = of_key key (la_started s)
      \<and> (e \<noteq> OperationRejected key \<longrightarrow> running_of (lane_step s e) key = Some o')"
    using enqueue_facts [OF i, of _ _ key] done_facts [OF i, of key] dispose_facts [OF i] other_facts assms(2) by (cases e) auto
  show "case queue_of s key of
        [] \<Rightarrow> running_of (lane_step s (OperationDone key)) key = None
      | x # r \<Rightarrow> running_of (lane_step s (OperationDone key)) key = Some x \<and> queue_of (lane_step s (OperationDone key)) key = r
          \<and> of_key key (la_started (lane_step s (OperationDone key))) = of_key key (la_started s) @ [x]"
    using done_facts [OF i, of key key] assms(2) by (auto split: list.split)
qed

subsection \<open>The properties at concrete inputs\<close>

definition lane_conversation :: conversation where
  "lane_conversation = \<lparr>c_runtimeId = [114], c_nodeId = [110], c_groupScope = False, c_type = Private, c_targetId = [110], c_senderId = [117]\<rparr>"

definition lane_sample :: "lane_event list" where
  "lane_sample = [Enqueue lane_conversation 1, Enqueue lane_conversation 2]"

lemma lane_sample_value:
  "running_of (run_steps lane_step no_lanes lane_sample) (conversationKey lane_conversation) = Some 1"
  "queue_of (run_steps lane_step no_lanes lane_sample) (conversationKey lane_conversation) = [2]"
proof -
  let ?k = "conversationKey lane_conversation"
  let ?l = "\<lparr>ln_binding = conversation_binding lane_conversation, ln_running = True, ln_queue = [], ln_current = Some 1\<rparr>"
  have g: "mget (la_lanes no_lanes) ?k = None" and d: "conversation_binding lane_conversation \<notin> set (la_disposed no_lanes)"
    by (simp_all add: no_lanes_def)
  define s where "s = enqueue lane_conversation 1 no_lanes"
  have s: "mget (la_lanes s) ?k = Some ?l" "la_disposed s = []" "la_waiting s = 0" "waiting_of s b = 0" for b
    using enqueue_cases [OF no_lanes_inv d, of 1] g by (simp_all add: s_def mget_set_at no_lanes_def waiting_of_def)
  have i: "lanes_inv s" unfolding s_def by (rule enqueue_inv [OF no_lanes_inv])
  have "conversation_binding lane_conversation \<notin> set (la_disposed s)" by (simp add: s(2))
  from enqueue_cases [OF i this, of 2] have e: "enqueue lane_conversation 2 s = (incrementWaiting (ln_binding ?l) s)\<lparr>la_lanes := mset_at (la_lanes s) ?k
      (?l\<lparr>ln_queue := ln_queue ?l @ [\<lparr>it_id = 2, it_state = ItemWaiting\<rparr>]\<rparr>), la_accepted := la_accepted s @ [(?k, 2)]\<rparr>"
    unfolding s(1) option.case by (simp add: lane_full_def s MAX_WAITING_PER_CONVERSATION_def MAX_WAITING_PER_BINDING_def MAX_WAITING_PROCESS_def)
  have r: "run_steps lane_step no_lanes lane_sample = enqueue lane_conversation 2 s" by (simp add: lane_sample_def s_def)
  show "running_of (run_steps lane_step no_lanes lane_sample) ?k = Some 1" "queue_of (run_steps lane_step no_lanes lane_sample) ?k = [2]"
    unfolding r e running_of_def queue_of_def by (simp_all add: mget_set_at)
qed

lemma lane_waiting_is_bounded_witness:
  "length (queue_of (run_steps lane_step no_lanes lane_sample) (conversationKey lane_conversation)) \<le> MAX_WAITING_PER_CONVERSATION"
  using lane_waiting_is_bounded [OF refl] by blast

lemma lane_operations_start_in_order_witness:
  "started_or_waiting (run_steps lane_step no_lanes lane_sample) (conversationKey lane_conversation)
    = of_key (conversationKey lane_conversation) (la_accepted (run_steps lane_step no_lanes lane_sample))"
proof -
  have "\<forall>e \<in> set lane_sample. \<forall>b. e \<noteq> DisposeLanes b" by (simp add: lane_sample_def)
  thus ?thesis using lane_operations_start_in_order [of lane_sample] by blast
qed

lemma one_operation_at_a_time_witness:
  "running_of (lane_step (run_steps lane_step no_lanes lane_sample) (OperationDone (conversationKey lane_conversation)))
     (conversationKey lane_conversation) = Some 2"
  using one_operation_at_a_time [OF refl lane_sample_value(1), where e = "ActivateLanes []"] lane_sample_value(2)
  by (simp del: lane_step.simps)

end
