(* ===== verification/CommandRouter.thy ===== *)
theory CommandRouter imports Acts StoreProofs CardActions TaskOutput begin

text \<open>
  The commands the router carries out itself, from \<^verbatim>\<open>router/message-router.ts\<close>: slash commands, card actions,
  the local protocol messages and invitations to a room.  Each handler claims the message, does its work and
  admits or releases the claim.  A handler is an act over a world with the store and the generation of the
  binding; what each await answers, and what others did in the meantime, is given from outside, one tick for
  each await.  The identity of the worker is that of the conversation, as \<^verbatim>\<open>conversationFrom\<close> copies it.  The log of
  effects is of the model.
\<close>

subsection \<open>Answers from outside\<close>

record device_status =
  ds_enabled :: bool
  ds_worker :: jstr
  ds_runtime :: jstr

record device_result =
  dr_status :: jstr
  dr_code :: jstr
  dr_message :: jstr
  dr_data :: "device_status option"

record card_result =
  kr_status :: jstr
  kr_code :: jstr
  kr_message :: jstr
  kr_card :: jsval

text \<open>The answers to one await; an absent one is a rejection.  The field \<open>ct_active\<close> is what \<^verbatim>\<open>#active\<close> has for the
  conversation: the key of the binding and the task.\<close>

record command_tick =
  ct_before :: "store_event list"
  ct_generations :: nat
  ct_disposed :: bool
  ct_routerDisposed :: bool
  ct_now :: int
  ct_write :: write_outcome
  ct_clock :: jnum
  ct_random :: "bytes option"
  ct_active :: "(jstr \<times> jstr) option"
  ct_bound :: "(jstr \<times> jstr) option option"
  ct_authorized :: "bool option"
  ct_status :: "device_status option"
  ct_device :: "device_result option"
  ct_card :: "card_result option"
  ct_workdir :: "jstr option"
  ct_started :: "jstr option"
  ct_done :: bool

type_synonym command_answers = "nat \<Rightarrow> command_tick"

record router_receipt =
  re_messageUid :: jstr
  re_senderId :: jstr
  re_targetId :: jstr
  re_conversationType :: conversation_type
  re_direction :: json

definition receipt :: "normalized \<Rightarrow> jstr \<Rightarrow> router_receipt" where
  "receipt m uid = \<lparr>re_messageUid = uid, re_senderId = nm_senderId m, re_targetId = nm_targetId m,
     re_conversationType = nm_conversationType m,
     re_direction = (case nm_direction m of None \<Rightarrow> JLit ''RECEIVE'' | Some d \<Rightarrow> if d = JNull then JLit ''RECEIVE'' else d)\<rparr>"

record task_input =
  ti_runtimeId :: jstr
  ti_conversationKey :: jstr
  ti_prompt :: jstr
  ti_workdir :: jstr
  ti_resumeSessionId :: "jstr option"

datatype effect =
    Claim jstr jstr
  | Authorized string "bool option"
  | TaskCancelled jstr bool
  | SessionChanged bool
  | StatusRead bool
  | DeviceRan jstr "jstr option" bool
  | CardRan action_intent bool
  | RoomJoined jstr bool
  | Sent worker_send bool
  | Receipted router_receipt
  | AdmitTried bool
  | ReleaseTried
  | TaskAwaited
  | TaskStarted task_input bool
  | TaskRegistered jstr
  | TaskForgotten jstr
  | SnapshotQueued jstr
  | TaskConsumed jstr
  | DoneResolved jstr

text \<open>\<open>cw_accepted\<close> is the local variable \<^verbatim>\<open>mutationAccepted\<close> or \<^verbatim>\<open>sideEffectAccepted\<close> of the handler that runs.\<close>

record command_world =
  cw_store :: store
  cw_step :: nat
  cw_generation :: nat
  cw_disposed :: bool
  cw_routerDisposed :: bool
  cw_accepted :: bool
  cw_log :: "effect list"

type_synonym 'a handling = "(command_answers, command_world, 'a) action"

text \<open>An await: the operations of others run first.\<close>

definition waiting :: "(command_tick \<Rightarrow> command_world \<Rightarrow> 'a option \<times> command_world) \<Rightarrow> 'a handling" where
  "waiting f o' w = (let t = o' (cw_step w) in
     f t (w\<lparr>cw_step := Suc (cw_step w), cw_store := run_steps store_step (cw_store w) (ct_before t),
            cw_generation := cw_generation w + ct_generations t, cw_disposed := ct_disposed t,
            cw_routerDisposed := ct_routerDisposed t\<rparr>))"

definition asking :: "(command_tick \<Rightarrow> 'a option) \<Rightarrow> 'a handling" where
  "asking f = waiting (\<lambda>t w. (f t, w))"

text \<open>A call with an effect, logged with its outcome.\<close>

definition calling :: "(command_tick \<Rightarrow> effect) \<Rightarrow> (command_tick \<Rightarrow> 'a option) \<Rightarrow> 'a handling" where
  "calling e f = waiting (\<lambda>t w. (f t, w\<lparr>cw_log := cw_log w @ [e t]\<rparr>))"

definition done_or_rejected :: "command_tick \<Rightarrow> unit option" where
  "done_or_rejected t = (if ct_done t then Some () else None)"

text \<open>A field that is read without waiting.\<close>

definition looking :: "(command_tick \<Rightarrow> 'a) \<Rightarrow> 'a handling" where
  "looking f o' w = (Some (f (o' (cw_step w))), w)"

definition reading_world :: "(command_world \<Rightarrow> 'a) \<Rightarrow> 'a handling" where
  "reading_world f o' w = (Some (f w), w)"

definition set_accepted :: "bool \<Rightarrow> unit handling" where
  "set_accepted b o' w = (Some (), w\<lparr>cw_accepted := b\<rparr>)"

text \<open>\<open>catch\<close> with a value in place of the rejection.\<close>

definition caught :: "'a \<Rightarrow> 'a handling \<Rightarrow> 'a handling" where
  "caught v a = attempt a (\<lambda>r. ret (case r of None \<Rightarrow> v | Some x \<Rightarrow> x))"

definition storing :: "('a \<Rightarrow> effect list) \<Rightarrow> 'a transition \<Rightarrow> 'a handling" where
  "storing e tr = waiting (\<lambda>t w. case mutate (cw_store w) (ct_now t) (ct_write t) tr of
     (Inl x, s) \<Rightarrow> (None, w\<lparr>cw_store := s\<rparr>)
   | (Inr v, s) \<Rightarrow> (Some v, w\<lparr>cw_store := s, cw_log := cw_log w @ e v\<rparr>))"

definition store_reading :: "(store \<Rightarrow> (router_error, 'a) result) \<Rightarrow> 'a handling" where
  "store_reading f = waiting (\<lambda>t w. (case f (cw_store w) of Inl e \<Rightarrow> None | Inr v \<Rightarrow> Some v, w))"

definition admitting :: "jstr \<times> jstr \<Rightarrow> bool handling" where
  "admitting claim = waiting (\<lambda>t w. case mutate (cw_store w) (ct_now t) (ct_write t) (admitMessage (fst claim) (snd claim)) of
     (r, s) \<Rightarrow> (let ok = (case r of Inl x \<Rightarrow> False | Inr v \<Rightarrow> v)
               in (Some ok, w\<lparr>cw_store := s, cw_log := cw_log w @ [AdmitTried ok]\<rparr>)))"

definition releasing :: "jstr \<times> jstr \<Rightarrow> unit handling" where
  "releasing claim = waiting (\<lambda>t w. (Some (),
     w\<lparr>cw_store := snd (mutate (cw_store w) (ct_now t) (ct_write t) (releaseMessage (fst claim) (snd claim))),
       cw_log := cw_log w @ [ReleaseTried]\<rparr>))"

subsection \<open>Generations, messages and receipts\<close>

definition bindingGeneration :: "nat handling" where
  "bindingGeneration = reading_world cw_generation"

definition bindingGenerationCurrent :: "nat \<Rightarrow> bool handling" where
  "bindingGenerationCurrent generation =
     reading_world (\<lambda>w. \<not> cw_routerDisposed w \<and> \<not> cw_disposed w \<and> cw_generation w = generation)"

definition sending :: "worker_send \<Rightarrow> unit handling" where
  "sending m = calling (\<lambda>t. Sent m (ct_done t)) done_or_rejected"

definition textResponse :: "conversation \<Rightarrow> jstr \<Rightarrow> worker_send" where
  "textResponse c content = \<lparr>ws_conversationType = conv_code (c_type c), ws_targetId = replyTargetId c,
     ws_messageType = ''text'', ws_content = JStr content\<rparr>"

definition safeSendText :: "conversation \<Rightarrow> jstr \<Rightarrow> unit handling" where
  "safeSendText c content = andThen (reading_world cw_disposed) (\<lambda>disposed.
     if disposed then ret ()
     else let bounded = (if byte_length content \<le> 32 * 1024 then content
                         else utf8_decode (take (32 * 1024) (utf8_encode content)))
          in caught () (sending (textResponse c bounded)))"

fun time_of :: "jnum \<Rightarrow> int" where
  "time_of (NInt i) = (if \<bar>i\<bar> \<le> max_safe \<and> 0 \<le> i then i else 0)"
| "time_of (NDbl d) = 0"

definition time :: "int handling" where
  "time = looking (\<lambda>t. time_of (ct_clock t))"

definition sendReceipt :: "router_receipt \<Rightarrow> nat \<Rightarrow> unit handling" where
  "sendReceipt r generation = andThen (bindingGenerationCurrent generation) (\<lambda>ok.
     if ok then caught () (calling (\<lambda>t. Receipted r) done_or_rejected) else ret ())"

definition claimId :: "jstr option handling" where
  "claimId = looking (\<lambda>t. case ct_random t of None \<Rightarrow> None
     | Some bs \<Rightarrow> if length bs = 16 then Some (hex_text bs) else None)"

subsection \<open>The life of a claim\<close>

text \<open>The binding is looked up after the claim; any trouble releases the claim.\<close>

definition claimLocal :: "normalized \<Rightarrow> conversation \<Rightarrow> nat \<Rightarrow> (jstr \<times> jstr) option handling" where
  "claimLocal message c generation = andThen claimId (\<lambda>fresh. case fresh of None \<Rightarrow> ret None | Some cid \<Rightarrow>
     attempt (storing (\<lambda>r. case r of CClaimed k i \<Rightarrow> [Claim k i] | CDuplicate k \<Rightarrow> []) (claimMessage (c_runtimeId c) (nm_messageUid message) cid)) (\<lambda>r. case r of
       None \<Rightarrow> andThen (bindingGenerationCurrent generation) (\<lambda>ok.
         andThen (if ok then safeSendText c (js ''[dedup_capacity]'') else ret ()) (\<lambda>_. ret None))
     | Some (CDuplicate k) \<Rightarrow> ret None
     | Some (CClaimed k i) \<Rightarrow> andThen (bindingGenerationCurrent generation) (\<lambda>ok.
         if \<not> ok then andThen (releasing (k, cid)) (\<lambda>_. ret None)
         else attempt (andThen (asking ct_bound) (\<lambda>bound. andThen (bindingGenerationCurrent generation) (\<lambda>ok.
                andThen (reading_world cw_disposed) (\<lambda>disposed.
                if \<not> ok \<or> bound \<noteq> Some (c_runtimeId c, c_nodeId c) \<or> disposed then throw else ret ())))) (\<lambda>r. case r of
              Some _ \<Rightarrow> ret (Some (k, cid))
            | None \<Rightarrow> andThen (releasing (k, cid)) (\<lambda>_. andThen (bindingGenerationCurrent generation) (\<lambda>ok.
                andThen (if ok then safeSendText c (js ''[binding_unavailable]'') else ret ()) (\<lambda>_. ret None)))))))"

definition admitOnly :: "normalized \<Rightarrow> jstr \<times> jstr \<Rightarrow> nat \<Rightarrow> bool \<Rightarrow> bool handling" where
  "admitOnly message claim generation mutationAccepted = andThen (bindingGenerationCurrent generation) (\<lambda>ok.
     if \<not> ok \<and> \<not> mutationAccepted then andThen (releasing claim) (\<lambda>_. ret False)
     else andThen (admitting claim) (\<lambda>admitted. if \<not> admitted then ret False
     else andThen (bindingGenerationCurrent generation) (\<lambda>ok.
       andThen (if ok then sendReceipt (receipt message (nm_messageUid message)) generation else ret ()) (\<lambda>_. ret True))))"

text \<open>A command that only reads: the answer is sent, then the message is admitted.\<close>

definition finishRead :: "normalized \<Rightarrow> jstr \<times> jstr \<Rightarrow> worker_send \<Rightarrow> nat \<Rightarrow> unit handling" where
  "finishRead message claim response generation = andThen (bindingGenerationCurrent generation) (\<lambda>ok.
     if \<not> ok then releasing claim
     else attempt (sending response) (\<lambda>r. case r of None \<Rightarrow> releasing claim
       | Some _ \<Rightarrow> andThen (admitting claim) (\<lambda>admitted. if \<not> admitted then ret ()
       else andThen (bindingGenerationCurrent generation) (\<lambda>ok. if ok then sendReceipt (receipt message (nm_messageUid message)) generation else ret ()))))"

text \<open>A command that has changed something: it is admitted before the answer.\<close>

definition finishMutation :: "normalized \<Rightarrow> jstr \<times> jstr \<Rightarrow> worker_send \<Rightarrow> nat \<Rightarrow> unit handling" where
  "finishMutation message claim response generation = andThen (admitting claim) (\<lambda>admitted. if \<not> admitted then ret ()
     else andThen (bindingGenerationCurrent generation) (\<lambda>ok. if \<not> ok then ret ()
     else andThen (caught () (sending response)) (\<lambda>_.
       andThen (bindingGenerationCurrent generation) (\<lambda>ok. if \<not> ok then ret () else sendReceipt (receipt message (nm_messageUid message)) generation))))"

text \<open>What a \<open>catch\<close> of a handler does with the claim.\<close>

definition settle_claim :: "jstr \<times> jstr \<Rightarrow> unit handling" where
  "settle_claim claim = andThen (reading_world cw_accepted) (\<lambda>accepted.
     if accepted then andThen (admitting claim) (\<lambda>_. ret ()) else releasing claim)"

definition after_failure :: "conversation \<Rightarrow> jstr \<times> jstr \<Rightarrow> nat \<Rightarrow> string \<Rightarrow> unit handling" where
  "after_failure c claim generation notice = andThen (settle_claim claim) (\<lambda>_.
     andThen (bindingGenerationCurrent generation) (\<lambda>ok. if ok then safeSendText c (js notice) else ret ()))"

definition catching :: "unit handling \<Rightarrow> unit handling \<Rightarrow> unit handling" where
  "catching body handler = attempt body (\<lambda>r. case r of None \<Rightarrow> handler | Some _ \<Rightarrow> ret ())"

definition claimed :: "normalized \<Rightarrow> conversation \<Rightarrow> (nat \<Rightarrow> jstr \<times> jstr \<Rightarrow> unit handling) \<Rightarrow> unit handling" where
  "claimed message c body = andThen bindingGeneration (\<lambda>generation.
     andThen (claimLocal message c generation) (\<lambda>claim. case claim of None \<Rightarrow> ret () | Some cl \<Rightarrow> body generation cl))"

subsection \<open>Slash commands\<close>

definition worker_states :: "string list" where
  "worker_states = [''starting'', ''online'', ''offline'', ''backoff'', ''stopped'']"

definition runtime_states :: "string list" where
  "runtime_states = [''ready'', ''needs_auth'', ''found_not_runnable'', ''not_found'', ''probe_failed'']"

definition validDeviceStatus :: "device_status \<Rightarrow> bool" where
  "validDeviceStatus s \<longleftrightarrow> ds_worker s \<in> js ` set worker_states \<and> ds_runtime s \<in> js ` set runtime_states"

definition statusText :: "device_status \<Rightarrow> jstr" where
  "statusText s = (if validDeviceStatus s
     then js ''[status] enabled='' @ js (if ds_enabled s then ''true'' else ''false'') @ js '' worker='' @ ds_worker s
       @ js '' runtime='' @ ds_runtime s
     else js ''[runtime_failed]'')"

text \<open>The sessions, one on a line.\<close>

definition sessionsText :: "jstr list \<Rightarrow> jstr" where
  "sessionsText ids = (if ids = [] then js ''[sessions] none''
     else js ''[sessions]'' @ concat (map (\<lambda>s. 10 # s) ids))"

definition authorize :: "string \<Rightarrow> bool handling" where
  "authorize scope = calling (\<lambda>t. Authorized scope (ct_authorized t)) ct_authorized"

definition cancel_active :: "jstr \<Rightarrow> unit handling" where
  "cancel_active task = calling (\<lambda>t. TaskCancelled task (ct_done t)) done_or_rejected"

definition read_status :: "device_status handling" where
  "read_status = calling (\<lambda>t. StatusRead (ct_status t \<noteq> None)) ct_status"

text \<open>The task of this binding in the conversation.\<close>

definition active_task :: "conversation \<Rightarrow> jstr option handling" where
  "active_task c = looking (\<lambda>t. case ct_active t of None \<Rightarrow> None
     | Some (key, task) \<Rightarrow> if key \<noteq> bindingKey (c_runtimeId c) (c_nodeId c) then None else Some task)"

text \<open>\<open>await active.done\<close>, the last thing a handler does; the promise may never be resolved.\<close>

definition task_done :: "unit handling" where
  "task_done = calling (\<lambda>t. TaskAwaited) (\<lambda>t. Some ())"

definition run_session_change :: "normalized \<Rightarrow> conversation \<Rightarrow> jstr \<times> jstr \<Rightarrow> nat \<Rightarrow> bool transition \<Rightarrow> string \<Rightarrow> unit handling" where
  "run_session_change message c claim generation tr notice =
     andThen (storing (\<lambda>b. [SessionChanged b]) tr) (\<lambda>changed.
       if \<not> changed then finishRead message claim (textResponse c (js ''[session_not_found]'')) generation
       else andThen (set_accepted True) (\<lambda>_. finishMutation message claim (textResponse c (js notice)) generation))"

definition run_status :: "normalized \<Rightarrow> conversation \<Rightarrow> jstr \<times> jstr \<Rightarrow> nat \<Rightarrow> unit handling" where
  "run_status message c claim generation = andThen (authorize ''device.read'') (\<lambda>allowed.
     andThen (bindingGenerationCurrent generation) (\<lambda>ok. if \<not> ok then releasing claim
     else andThen (if allowed then andThen read_status (\<lambda>s. ret (Some s)) else ret None) (\<lambda>status.
       finishRead message claim (textResponse c (case status of None \<Rightarrow> js ''[authorization_denied]'' | Some s \<Rightarrow> statusText s)) generation)))"

definition slash_body :: "normalized \<Rightarrow> conversation \<Rightarrow> string \<Rightarrow> jstr \<Rightarrow> jstr \<times> jstr \<Rightarrow> nat \<Rightarrow> unit handling" where
  "slash_body message c name argument claim generation =
     (if name = ''/stop'' then andThen (active_task c) (\<lambda>active. case active of
          None \<Rightarrow> finishRead message claim (textResponse c (js ''[no_active_task]'')) generation
        | Some task \<Rightarrow> andThen (cancel_active task) (\<lambda>_. andThen (set_accepted True) (\<lambda>_.
            andThen (finishMutation message claim (textResponse c (js ''[stop_requested]'')) generation) (\<lambda>_. task_done))))
      else if name = ''/session'' then andThen (store_reading (\<lambda>s. currentSession s c)) (\<lambda>current.
          finishRead message claim (textResponse c (js ''[session] '' @ (case current of None \<Rightarrow> js ''none'' | Some s \<Rightarrow> s))) generation)
      else if name = ''/sessions'' then andThen (store_reading (\<lambda>s. knownSessions s c)) (\<lambda>known.
          finishRead message claim (textResponse c (sessionsText known)) generation)
      else if name = ''/status'' then run_status message c claim generation
      else if name = ''/switch'' then run_session_change message c claim generation (switchKnown c argument) ''[session_switched]''
      else if name = ''/delete'' then run_session_change message c claim generation (deleteKnown c argument) ''[session_deleted]''
      else andThen (storing (\<lambda>_. [SessionChanged True]) (clearCurrent c)) (\<lambda>_. andThen (set_accepted True) (\<lambda>_.
          finishMutation message claim (textResponse c (js ''[new_session]'')) generation)))"

definition runSlashClaimed :: "normalized \<Rightarrow> conversation \<Rightarrow> string \<Rightarrow> jstr \<Rightarrow> jstr \<times> jstr \<Rightarrow> nat \<Rightarrow> unit handling" where
  "runSlashClaimed message c name argument claim generation = andThen (set_accepted False) (\<lambda>_.
     catching (slash_body message c name argument claim generation)
       (after_failure c claim generation ''[router_state_invalid]''))"

definition runSlash :: "normalized \<Rightarrow> conversation \<Rightarrow> string \<Rightarrow> jstr \<Rightarrow> unit handling" where
  "runSlash message c name argument = claimed message c (\<lambda>generation claim.
     runSlashClaimed message c name argument claim generation)"

text \<open>\<open>/stop\<close> outside the lane of the conversation.\<close>

definition runStop :: "normalized \<Rightarrow> conversation \<Rightarrow> unit handling" where
  "runStop message c = claimed message c (\<lambda>generation claim. andThen (active_task c) (\<lambda>active. case active of
       None \<Rightarrow> finishRead message claim (textResponse c (js ''[no_active_task]'')) generation
     | Some task \<Rightarrow> attempt (cancel_active task) (\<lambda>r. case r of
         None \<Rightarrow> andThen (releasing claim) (\<lambda>_. andThen (bindingGenerationCurrent generation) (\<lambda>ok.
           if ok then safeSendText c (js ''[runtime_transport_error]'') else ret ()))
       | Some _ \<Rightarrow> andThen (finishMutation message claim (textResponse c (js ''[stop_requested]'')) generation) (\<lambda>_. task_done))))"

definition runChatroomInvite :: "normalized \<Rightarrow> conversation \<Rightarrow> jstr \<Rightarrow> unit handling" where
  "runChatroomInvite message c room = claimed message c (\<lambda>generation claim.
     attempt (calling (\<lambda>t. RoomJoined room (ct_done t)) done_or_rejected) (\<lambda>r. case r of
       None \<Rightarrow> releasing claim
     | Some _ \<Rightarrow> andThen (admitOnly message claim generation True) (\<lambda>_. ret ())))"

subsection \<open>The local protocol\<close>

definition status_json :: "device_status \<Rightarrow> json" where
  "status_json s = JObj [(js ''enabled'', JBool (ds_enabled s)), (js ''worker'', JStr (ds_worker s)), (js ''runtime'', JStr (ds_runtime s))]"

definition device_json :: "device_result \<Rightarrow> json" where
  "device_json r = JObj ([(js ''status'', JStr (dr_status r)), (js ''code'', JStr (dr_code r)), (js ''message'', JStr (dr_message r))]
     @ copied ''data'' (map_option status_json (dr_data r)))"

text \<open>\<^verbatim>\<open>/^[a-z0-9_]{1,64}$/\<close>\<close>

definition code_text :: "jstr \<Rightarrow> bool" where
  "code_text s \<longleftrightarrow> 1 \<le> length s \<and> length s \<le> 64
     \<and> list_all (\<lambda>u. (97 \<le> u \<and> u \<le> 122) \<or> (48 \<le> u \<and> u \<le> 57) \<or> u = 95) s"

definition result_text_ok :: "jstr \<Rightarrow> jstr \<Rightarrow> jstr \<Rightarrow> bool" where
  "result_text_ok status code message \<longleftrightarrow> (status = js ''success'' \<or> status = js ''error'') \<and> code_text code
     \<and> 1 \<le> length message \<and> length message \<le> 512 \<and> \<not> has_control message"

definition validDeviceResult :: "device_result \<Rightarrow> bool" where
  "validDeviceResult r \<longleftrightarrow> result_text_ok (dr_status r) (dr_code r) (dr_message r)
     \<and> (case dr_data r of None \<Rightarrow> True | Some s \<Rightarrow> validDeviceStatus s)"

definition simple_result :: "string \<Rightarrow> device_result" where
  "simple_result code = \<lparr>dr_status = js ''error'', dr_code = js code, dr_message = js code, dr_data = None\<rparr>"

definition commandResult :: "jstr option \<Rightarrow> string \<Rightarrow> string \<Rightarrow> int \<Rightarrow> jobj" where
  "commandResult requestId status code now = [(js ''msg_type'', JLit ''command_result'')] @ text_property ''request_id'' requestId
     @ [(js ''status'', JLit status), (js ''code'', JLit code), (js ''message'', JLit code), (js ''timestamp'', JInt now)]"

definition legacy_input :: "string \<Rightarrow> jstr option \<Rightarrow> conversation \<Rightarrow> normalized \<Rightarrow> json \<Rightarrow> int \<Rightarrow> jsval" where
  "legacy_input msgType requestId c message content now = plain_value (JObj ([(js ''msgType'', JLit msgType)]
     @ text_property ''requestId'' requestId
     @ [(js ''sourceImId'', JStr (c_nodeId c)), (js ''destinationImId'', JStr (nm_senderId message)),
        (js ''content'', content), (js ''timestamp'', JInt now)]))"

definition legacy_envelope :: "string \<Rightarrow> jstr option \<Rightarrow> conversation \<Rightarrow> normalized \<Rightarrow> json \<Rightarrow> jobj handling" where
  "legacy_envelope msgType requestId c message content = andThen time (\<lambda>now.
     case buildLegacyEnvelope (legacy_input msgType requestId c message content now) of Inl e \<Rightarrow> throw | Inr ob \<Rightarrow> ret ob)"

definition or_missing :: "jstr option \<Rightarrow> jstr" where
  "or_missing requestId = (case requestId of None \<Rightarrow> js ''missing_request'' | Some r \<Rightarrow> r)"

definition text_of_field :: "jobj \<Rightarrow> string \<Rightarrow> jstr option" where
  "text_of_field v k = (case field v k of Some (JStr s) \<Rightarrow> Some s | _ \<Rightarrow> None)"

definition session_of_request :: "jobj \<Rightarrow> jstr" where
  "session_of_request v = (case text_of_field v ''session_id'' of Some s \<Rightarrow> s
     | None \<Rightarrow> (case text_of_field v ''opencode_session_id'' of Some s \<Rightarrow> s | None \<Rightarrow> []))"

definition command_response :: "conversation \<Rightarrow> jobj \<Rightarrow> worker_send" where
  "command_response c content = structuredResponse c ''command_result'' content"

definition run_create_session :: "normalized \<Rightarrow> conversation \<Rightarrow> jstr option \<Rightarrow> jstr \<times> jstr \<Rightarrow> nat \<Rightarrow> unit handling" where
  "run_create_session message c requestId claim generation =
     andThen (store_reading (\<lambda>s. currentSession s c)) (\<lambda>current.
     andThen (legacy_envelope ''opencode_session_created'' requestId c message (case current of
         None \<Rightarrow> JObj [(js ''status'', JLit ''error''), (js ''code'', JLit ''session_pending_first_prompt'')]
       | Some s \<Rightarrow> JObj [(js ''status'', JLit ''success''), (js ''session_id'', JStr s)])) (\<lambda>envelope.
     finishRead message claim (command_response c envelope) generation))"

definition run_delete_session :: "normalized \<Rightarrow> conversation \<Rightarrow> jobj \<Rightarrow> jstr option \<Rightarrow> jstr \<times> jstr \<Rightarrow> nat \<Rightarrow> unit handling" where
  "run_delete_session message c v requestId claim generation =
     andThen (if session_of_request v = [] then ret False
              else storing (\<lambda>b. [SessionChanged b]) (deleteKnown c (session_of_request v))) (\<lambda>deleted.
     andThen (set_accepted deleted) (\<lambda>_. andThen time (\<lambda>now.
       if deleted then finishMutation message claim (command_response c (commandResult requestId ''success'' ''ok'' now)) generation
       else finishRead message claim (command_response c (commandResult requestId ''error'' ''session_not_found'' now)) generation)))"

definition run_device_status :: "normalized \<Rightarrow> conversation \<Rightarrow> jstr option \<Rightarrow> jstr \<times> jstr \<Rightarrow> nat \<Rightarrow> unit handling" where
  "run_device_status message c requestId claim generation = andThen (authorize ''device.read'') (\<lambda>allowed.
     andThen (bindingGenerationCurrent generation) (\<lambda>ok. if \<not> ok then releasing claim
     else andThen (if allowed then andThen read_status (\<lambda>s. ret (Some s)) else ret None) (\<lambda>status.
     andThen (legacy_envelope ''device_status_report'' (Some (or_missing requestId)) c message (case status of
         Some s \<Rightarrow> (if validDeviceStatus s
           then JObj [(js ''status'', JLit ''success''), (js ''code'', JLit ''ok''), (js ''message'', JLit ''ok''), (js ''data'', status_json s)]
           else device_json (simple_result ''authorization_denied''))
       | None \<Rightarrow> device_json (simple_result ''authorization_denied''))) (\<lambda>envelope.
     finishRead message claim (command_response c envelope) generation))))"

definition device_scope :: "jstr \<Rightarrow> string" where
  "device_scope command = (if command = js ''status'' then ''device.read'' else ''device.mutate'')"

text \<open>The name of a device; reading \<^verbatim>\<open>trim\<close> of something else throws.\<close>

definition device_name :: "jobj \<Rightarrow> jstr \<Rightarrow> jstr option handling" where
  "device_name v command = (if command = js ''rename_device''
     then (case text_of_field v ''name'' of Some s \<Rightarrow> ret (Some (trim s)) | None \<Rightarrow> throw) else ret None)"

definition device_envelope :: "jstr \<Rightarrow> jstr option \<Rightarrow> conversation \<Rightarrow> normalized \<Rightarrow> device_result \<Rightarrow> jobj handling" where
  "device_envelope command requestId c message result = (if command = js ''recover_runtime''
     then ret [(js ''msg_type'', JLit ''device_control_result''), (js ''request_id'', JStr (or_missing requestId)),
        (js ''source_im_id'', JStr (c_nodeId c)), (js ''destination_im_id'', JStr (nm_senderId message)),
        (js ''content'', device_json result)]
     else legacy_envelope ''device_control_result'' (Some (or_missing requestId)) c message (device_json result))"

definition answer_device :: "normalized \<Rightarrow> conversation \<Rightarrow> jstr \<Rightarrow> jstr option \<Rightarrow> jstr \<times> jstr \<Rightarrow> nat \<Rightarrow> bool \<Rightarrow> device_result \<Rightarrow> unit handling" where
  "answer_device message c command requestId claim generation accepted' result =
     andThen (device_envelope command requestId c message result) (\<lambda>envelope.
       if accepted' \<and> command \<noteq> js ''status'' then finishMutation message claim (command_response c envelope) generation
       else finishRead message claim (command_response c envelope) generation)"

definition run_device_control :: "normalized \<Rightarrow> conversation \<Rightarrow> jobj \<Rightarrow> jstr option \<Rightarrow> jstr \<times> jstr \<Rightarrow> nat \<Rightarrow> unit handling" where
  "run_device_control message c v requestId claim generation =
     (let command = str_field v ''command'' in
      andThen (authorize (device_scope command)) (\<lambda>allowed. andThen (bindingGenerationCurrent generation) (\<lambda>ok.
      if \<not> ok then releasing claim
      else if \<not> allowed then answer_device message c command requestId claim generation False (simple_result ''authorization_denied'')
      else andThen (device_name v command) (\<lambda>name.
        andThen (calling (\<lambda>t. DeviceRan command name (ct_device t \<noteq> None)) ct_device) (\<lambda>got.
        andThen (set_accepted (command \<noteq> js ''status'')) (\<lambda>_. andThen (bindingGenerationCurrent generation) (\<lambda>ok.
        if \<not> ok then andThen (admitOnly message claim generation (command \<noteq> js ''status'')) (\<lambda>_. ret ())
        else answer_device message c command requestId claim generation True
               (if validDeviceResult got then got else simple_result ''unsupported_action''))))))))"

datatype local_message = CreateSession | DeleteSession | DeviceStatus | DeviceControl

definition runLocalProtocol :: "normalized \<Rightarrow> conversation \<Rightarrow> local_message \<Rightarrow> jobj \<Rightarrow> unit handling" where
  "runLocalProtocol message c ty v = claimed message c (\<lambda>generation claim.
     (let requestId = text_of_field v ''request_id'' in andThen (set_accepted False) (\<lambda>_.
      catching (case ty of
          CreateSession \<Rightarrow> run_create_session message c requestId claim generation
        | DeleteSession \<Rightarrow> run_delete_session message c v requestId claim generation
        | DeviceStatus \<Rightarrow> run_device_status message c requestId claim generation
        | DeviceControl \<Rightarrow> run_device_control message c v requestId claim generation)
        (after_failure c claim generation ''[runtime_failed]''))))"

subsection \<open>Card actions\<close>

text \<open>The card that answers a permission action (\<^verbatim>\<open>cardkit/templates.ts\<close>).\<close>

definition note_json :: "jstr \<Rightarrow> json" where
  "note_json t = JObj [(js ''kind'', JLit ''note''), (js ''text'', JStr t)]"

definition label_json :: "string \<Rightarrow> jstr \<Rightarrow> json" where
  "label_json label v = JObj [(js ''label'', JLit label), (js ''value'', JStr v)]"

definition permissionUnsupportedCard :: "jstr \<Rightarrow> jstr \<Rightarrow> jstr \<Rightarrow> jstr \<Rightarrow> jstr list \<Rightarrow> jobj" where
  "permissionUnsupportedCard cardId permissionId permission title patterns =
     [(js ''schema'', JLit CARD_SCHEMA_VERSION), (js ''id'', JStr cardId),
      (js ''header'', JObj [(js ''title'', JLit ''Interactive approval unavailable''), (js ''color'', JLit ''orange'')]),
      (js ''sections'', JArr [
         JObj [(js ''kind'', JLit ''keyValue''), (js ''items'', JArr [label_json ''Permission'' permission, label_json ''Request'' permissionId])],
         note_json title, note_json (drop 1 (concat (map (\<lambda>p. 10 # p) (take 50 patterns)))), note_json (js ''unsupported_interactive_approval'')]),
      (js ''config'', JObj [])]"

definition approval_result :: "intent_metadata \<Rightarrow> int \<Rightarrow> jobj" where
  "approval_result m ts = [(js ''msg_type'', JLit ''command_result'')] @ text_property ''request_id'' (i_requestId m)
     @ [(js ''status'', JLit ''error''), (js ''code'', JInt 501), (js ''message'', JLit ''unsupported_interactive_approval''),
        (js ''data'', JObj [(js ''card_state'', JObj [(js ''card_id'', JStr (i_cardId m)), (js ''status'', JLit ''error''),
           (js ''result'', JLit ''unsupported_interactive_approval''), (js ''completed_action'', JLit ''permission''),
           (js ''completed_at'', JInt ts),
           (js ''card'', JObj (permissionUnsupportedCard (i_cardId m) (js ''unsupported'') (js ''unsupported'')
              (js ''Interactive permission replies are not available in this runtime.'') []))])]),
        (js ''timestamp'', JInt ts)]"

definition buildUnsupportedApprovalResult :: "reading \<Rightarrow> int \<Rightarrow> jobj option" where
  "buildUnsupportedApprovalResult v ts = (case routeCardAction v of
     Refused (Some m) UnsupportedApproval \<Rightarrow>
       if i_cardId m = [] \<or> \<not> safeTimestamp ts then None
       else if byte_length (stringify (JObj (approval_result m ts))) > 10 * 1024 then None else Some (approval_result m ts)
   | _ \<Rightarrow> None)"

definition cardCommandResult :: "jstr option \<Rightarrow> jstr \<Rightarrow> jstr \<Rightarrow> jstr \<Rightarrow> int \<Rightarrow> jobj" where
  "cardCommandResult requestId status code message now = [(js ''msg_type'', JLit ''command_result'')] @ text_property ''request_id'' requestId
     @ [(js ''status'', JStr status), (js ''code'', JStr code), (js ''message'', JStr message), (js ''timestamp'', JInt now)]"

fun action_code_text :: "action_code \<Rightarrow> string" where
  "action_code_text InvalidAction = ''invalid_action''"
| "action_code_text UnsupportedAction = ''unsupported_action''"
| "action_code_text UnsupportedCommand = ''unsupported_command''"
| "action_code_text UnsupportedApproval = ''unsupported_interactive_approval''"

definition validCardResult :: "url_parser \<Rightarrow> card_result \<Rightarrow> jstr \<Rightarrow> bool" where
  "validCardResult url r cardId \<longleftrightarrow> result_text_ok (kr_status r) (kr_code r) (kr_message r)
     \<and> (kr_card r = VUndefined \<or> (case validateCard url (Some (kr_card r)) of
          Inl e \<Rightarrow> False | Inr v \<Rightarrow> field v ''id'' = Some (JStr cardId)))"

definition unsupported_card_result :: card_result where
  "unsupported_card_result = \<lparr>kr_status = js ''error'', kr_code = js ''unsupported_action'', kr_message = js ''unsupported_action'', kr_card = VUndefined\<rparr>"

text \<open>The update of the card, and the result with which it is announced.\<close>

definition card_update_of :: "url_parser \<Rightarrow> jstr \<Rightarrow> int \<Rightarrow> card_result \<Rightarrow> jobj option \<times> card_result" where
  "card_update_of url cardId now r = (if kr_card r = VUndefined then (None, r)
     else case buildCardUpdate url cardId (Some (kr_card r)) now of Inl e \<Rightarrow> (None, unsupported_card_result) | Inr u \<Rightarrow> (Some u, r))"

definition announce_card :: "normalized \<Rightarrow> conversation \<Rightarrow> intent_metadata \<Rightarrow> jstr \<times> jstr \<Rightarrow> nat \<Rightarrow> jobj option \<Rightarrow> card_result \<Rightarrow> unit handling" where
  "announce_card message c m claim generation update result = andThen time (\<lambda>now.
     andThen (admitting claim) (\<lambda>admitted. if \<not> admitted then ret ()
     else andThen (bindingGenerationCurrent generation) (\<lambda>ok. if \<not> ok then ret ()
     else andThen (caught () (sending (command_response c
            (cardCommandResult (i_requestId m) (kr_status result) (kr_code result) (kr_message result) now)))) (\<lambda>_.
     andThen (bindingGenerationCurrent generation) (\<lambda>ok. if \<not> ok then ret ()
     else andThen (case update of
            Some u \<Rightarrow> if kr_status result = js ''success''
              then andThen (caught () (sending (structuredResponse c ''card_update'' u))) (\<lambda>_. bindingGenerationCurrent generation)
              else ret True
          | None \<Rightarrow> ret True) (\<lambda>ok. if \<not> ok then ret ()
     else sendReceipt (receipt message (nm_messageUid message)) generation))))))"

definition run_card_intent :: "url_parser \<Rightarrow> normalized \<Rightarrow> conversation \<Rightarrow> intent_metadata \<Rightarrow> action_intent \<Rightarrow> jstr \<times> jstr \<Rightarrow> nat \<Rightarrow> unit handling" where
  "run_card_intent url message c m intent claim generation =
     andThen (caught False (authorize (case intent of AnswerIntent q a \<Rightarrow> ''card.answer'' | _ \<Rightarrow> ''card.custom''))) (\<lambda>allowed.
     andThen (bindingGenerationCurrent generation) (\<lambda>ok. if \<not> ok then releasing claim
     else if \<not> allowed then andThen time (\<lambda>now. finishRead message claim (command_response c
            (cardCommandResult (i_requestId m) (js ''error'') (js ''unsupported_action'') (js ''unsupported_action'') now)) generation)
     else andThen (set_accepted False) (\<lambda>_. attempt (calling (\<lambda>t. CardRan intent (ct_card t \<noteq> None)) ct_card) (\<lambda>r. case r of
         None \<Rightarrow> settle_claim claim
       | Some got \<Rightarrow> andThen (set_accepted True) (\<lambda>_. andThen (bindingGenerationCurrent generation) (\<lambda>ok.
           if \<not> ok then andThen (admitOnly message claim generation True) (\<lambda>_. ret ())
           else andThen time (\<lambda>now. (let (update, result) = card_update_of url (i_cardId m) now
                    (if validCardResult url got (i_cardId m) then got else unsupported_card_result)
                  in announce_card message c m claim generation update result))))))))"

definition refusal_response :: "conversation \<Rightarrow> reading \<Rightarrow> intent_metadata option \<Rightarrow> action_code \<Rightarrow> worker_send handling" where
  "refusal_response c raw m code = andThen time (\<lambda>now.
     if code = UnsupportedApproval
     then (case buildUnsupportedApprovalResult raw now of None \<Rightarrow> throw | Some ob \<Rightarrow> ret (command_response c ob))
     else ret (command_response c (cardCommandResult (case m of None \<Rightarrow> None | Some x \<Rightarrow> i_requestId x) (js ''error'')
            (js (action_code_text code)) (js (action_code_text code)) now)))"

definition runCardAction :: "url_parser \<Rightarrow> normalized \<Rightarrow> conversation \<Rightarrow> reading \<Rightarrow> card_route \<Rightarrow> unit handling" where
  "runCardAction url message c raw routed = claimed message c (\<lambda>generation claim. case routed of
     Refused m code \<Rightarrow> andThen (refusal_response c raw m code) (\<lambda>response. finishRead message claim response generation)
   | Routed m NoIntent \<Rightarrow> andThen (admitOnly message claim generation False) (\<lambda>_. ret ())
   | Routed m (NavigateIntent target) \<Rightarrow> andThen (admitOnly message claim generation False) (\<lambda>_. ret ())
   | Routed m (CommandIntent name argument) \<Rightarrow> runSlashClaimed message c name (case argument of None \<Rightarrow> [] | Some a \<Rightarrow> a) claim generation
   | Routed m (SessionIntent op sid) \<Rightarrow> runSlashClaimed message c (if op = js ''switch'' then ''/switch'' else ''/delete'') sid claim generation
   | Routed m intent \<Rightarrow> run_card_intent url message c m intent claim generation)"

subsection \<open>The commands\<close>

text \<open>What the dispatcher runs: a slash command with its argument, if it has one, and a card action as it was routed.\<close>

datatype local_command =
    SlashCommand string jstr
  | StopCommand
  | LocalMessage local_message jobj
  | Invitation jstr
  | CardAction reading

fun run_local :: "url_parser \<Rightarrow> normalized \<Rightarrow> conversation \<Rightarrow> local_command \<Rightarrow> unit handling" where
  "run_local url message c (SlashCommand name argument) = runSlash message c name argument"
| "run_local url message c StopCommand = runStop message c"
| "run_local url message c (LocalMessage ty v) = runLocalProtocol message c ty v"
| "run_local url message c (Invitation room) = runChatroomInvite message c room"
| "run_local url message c (CardAction raw) = runCardAction url message c raw (routeCardAction raw)"

end
