(* ===== verification/PlainRouter.thy ===== *)
theory PlainRouter imports CommandRouter begin

text \<open>
  A message that is a task for the agent, from \<^verbatim>\<open>router/message-router.ts\<close>: it is claimed, the binding and the
  working directory are checked, the task is started, the message admitted, and the output of the task consumed.
  What happens while the task runs is in \<open>TaskRun\<close>.
\<close>

record task_candidate =
  tc_conversation :: conversation
  tc_prompt :: jstr
  tc_effectiveMessageUid :: jstr
  tc_joinRoom :: "jstr option"

definition noting :: "effect \<Rightarrow> unit handling" where
  "noting e o' w = (Some (), w\<lparr>cw_log := cw_log w @ [e]\<rparr>)"

definition requireBindingGeneration :: "nat \<Rightarrow> unit handling" where
  "requireBindingGeneration generation = andThen (bindingGenerationCurrent generation) (\<lambda>ok. if ok then ret () else throw)"

text \<open>The store's answer to a claim, the error included.\<close>

definition claiming :: "jstr \<Rightarrow> jstr \<Rightarrow> jstr \<Rightarrow> (router_error, claim_result) result handling" where
  "claiming rt uid cid = waiting (\<lambda>t w. case mutate (cw_store w) (ct_now t) (ct_write t) (claimMessage rt uid cid) of
     (r, s) \<Rightarrow> (Some r, w\<lparr>cw_store := s, cw_log := cw_log w @ (case r of Inr (CClaimed k i) \<Rightarrow> [Claim k i] | _ \<Rightarrow> [])\<rparr>))"

definition require_bound :: "conversation \<Rightarrow> (jstr \<times> jstr) option \<Rightarrow> unit handling" where
  "require_bound c bound = andThen (reading_world cw_disposed) (\<lambda>disposed.
     if bound \<noteq> Some (c_runtimeId c, c_nodeId c) \<or> disposed then throw else ret ())"

definition recheckBinding :: "conversation \<Rightarrow> unit handling" where
  "recheckBinding c = andThen (asking ct_bound) (require_bound c)"

text \<open>Whether the message belongs to a room or a discussion of the third protocol.\<close>

definition interactive_rooms :: "normalized \<Rightarrow> jobj \<Rightarrow> jstr list" where
  "interactive_rooms message v =
     (let payload = (case field v ''payload'' of Some (JObj p) \<Rightarrow> p | _ \<Rightarrow> [])
      in (if nm_conversationType message = Private then [] else [nm_targetId message])
         @ List.map_filter id [text_of_field v ''chatroomId'', text_of_field v ''chatroom_id'', text_of_field payload ''group_id''])"

definition interactive_discussion :: "jobj \<Rightarrow> jstr option" where
  "interactive_discussion v = (case nullish (field v ''discussionId'') (field v ''discussion_id'') of Some (JStr s) \<Rightarrow> Some s | _ \<Rightarrow> None)"

definition legacyWorkIsInteractive :: "conversation \<Rightarrow> normalized \<Rightarrow> jobj \<Rightarrow> bool handling" where
  "legacyWorkIsInteractive c message v = store_reading (\<lambda>s.
     isInteractiveOwnership s (c_runtimeId c) (c_nodeId c) (interactive_rooms message v) (interactive_discussion v))"

definition startLegacyTask :: "conversation \<Rightarrow> normalized \<Rightarrow> jobj \<Rightarrow> task_input \<Rightarrow> jstr handling" where
  "startLegacyTask c message v i = andThen (legacyWorkIsInteractive c message v) (\<lambda>interactive.
     if interactive then throw else calling (\<lambda>t. TaskStarted i (ct_started t \<noteq> None)) ct_started)"

text \<open>Up to the start of the task; the room of a message that was forwarded from one is joined first.\<close>

definition plain_start :: "normalized \<Rightarrow> task_candidate \<Rightarrow> nat \<Rightarrow> jstr handling" where
  "plain_start message k generation = (let c = tc_conversation k; require = requireBindingGeneration generation in
     andThen (asking ct_bound) (\<lambda>bound. andThen require (\<lambda>_. andThen (require_bound c bound) (\<lambda>_.
     andThen (case tc_joinRoom k of None \<Rightarrow> ret ()
        | Some room \<Rightarrow> andThen (calling (\<lambda>t. RoomJoined room (ct_done t)) done_or_rejected) (\<lambda>_. require)) (\<lambda>_.
     andThen (store_reading (\<lambda>s. currentSession s c)) (\<lambda>resume. andThen require (\<lambda>_.
     andThen (asking ct_workdir) (\<lambda>workdir. andThen require (\<lambda>_.
     andThen (recheckBinding c) (\<lambda>_. andThen require (\<lambda>_.
     startLegacyTask c message (case nm_rawContent message of None \<Rightarrow> [] | Some v \<Rightarrow> v)
       \<lparr>ti_runtimeId = c_runtimeId c, ti_conversationKey = conversationKey c, ti_prompt = tc_prompt k, ti_workdir = workdir,
        ti_resumeSessionId = resume\<rparr>)))))))))))"

text \<open>The task is taken out of the active ones and whoever waits for it goes on.\<close>

definition give_up :: "jstr \<Rightarrow> unit handling" where
  "give_up task = andThen (noting (TaskForgotten task)) (\<lambda>_. noting (DoneResolved task))"

text \<open>The body of \<^verbatim>\<open>consume\<close> ends by taking the task out and resolving \<^verbatim>\<open>done\<close>.\<close>

definition consuming :: "jstr \<Rightarrow> unit handling" where
  "consuming task = andThen (calling (\<lambda>t. TaskConsumed task) (\<lambda>t. Some ())) (\<lambda>_. give_up task)"

definition plain_run :: "normalized \<Rightarrow> task_candidate \<Rightarrow> jstr \<times> jstr \<Rightarrow> nat \<Rightarrow> jstr \<Rightarrow> unit handling" where
  "plain_run message k claim generation task = andThen (bindingGenerationCurrent generation) (\<lambda>ok.
     if \<not> ok then caught () (cancel_active task)
     else andThen (noting (TaskRegistered task)) (\<lambda>_. andThen (admitting claim) (\<lambda>admitted.
       if \<not> admitted then andThen (noting (TaskForgotten task)) (\<lambda>_. caught () (cancel_active task))
       else andThen (bindingGenerationCurrent generation) (\<lambda>ok. if \<not> ok then give_up task
       else andThen (caught () (calling (\<lambda>t. Receipted (receipt message (tc_effectiveMessageUid k))) done_or_rejected)) (\<lambda>_.
       andThen (bindingGenerationCurrent generation) (\<lambda>ok. if \<not> ok then give_up task
       else andThen (calling (\<lambda>t. SnapshotQueued task) (\<lambda>t. Some ())) (\<lambda>_.
       andThen (bindingGenerationCurrent generation) (\<lambda>ok. if \<not> ok then give_up task else consuming task))))))))"

definition plain_failed :: "task_candidate \<Rightarrow> nat \<Rightarrow> string \<Rightarrow> unit handling" where
  "plain_failed k generation notice = andThen (bindingGenerationCurrent generation) (\<lambda>ok.
     if ok then safeSendText (tc_conversation k) (js notice) else ret ())"

definition plain_claimed :: "normalized \<Rightarrow> task_candidate \<Rightarrow> jstr \<times> jstr \<Rightarrow> nat \<Rightarrow> unit handling" where
  "plain_claimed message k claim generation = attempt (plain_start message k generation) (\<lambda>r. case r of
       None \<Rightarrow> andThen (releasing claim) (\<lambda>_. plain_failed k generation ''[task_start_failed]'')
     | Some task \<Rightarrow> catching (plain_run message k claim generation task) (plain_failed k generation ''[runtime_transport_error]''))"

definition runPlain :: "normalized \<Rightarrow> task_candidate \<Rightarrow> unit handling" where
  "runPlain message k = (let c = tc_conversation k in andThen bindingGeneration (\<lambda>generation. andThen claimId (\<lambda>fresh. case fresh of
     None \<Rightarrow> safeSendText c (js ''[invalid_message]'')
   | Some cid \<Rightarrow> andThen (claiming (c_runtimeId c) (tc_effectiveMessageUid k) cid) (\<lambda>r.
       andThen (bindingGenerationCurrent generation) (\<lambda>ok. case r of
         Inl e \<Rightarrow> if \<not> ok then ret ()
                  else safeSendText c (js (if e = DedupCapacity then ''[dedup_capacity]'' else ''[router_state_invalid]''))
       | Inr (CDuplicate key) \<Rightarrow> ret ()
       | Inr (CClaimed key i) \<Rightarrow> if \<not> ok then releasing (key, cid) else plain_claimed message k (key, cid) generation)))))"

end
