(* ===== verification/CommandProofs.thy ===== *)
theory CommandProofs imports CommandRouter begin

text \<open>
  The effects of a command handler.  A handler is followed through its log: a clean log has a claim and no change
  yet, an open one may have changes, a closed one has settled its claim.
\<close>

subsection \<open>Logs\<close>

fun is_claim :: "effect \<Rightarrow> bool" where
  "is_claim (Claim k i) = True"
| "is_claim _ = False"

fun settles :: "effect \<Rightarrow> bool" where
  "settles (AdmitTried b) = True"
| "settles ReleaseTried = True"
| "settles _ = False"

fun is_message :: "effect \<Rightarrow> bool" where
  "is_message (Sent m b) = True"
| "is_message _ = False"

fun is_receipt :: "effect \<Rightarrow> bool" where
  "is_receipt (Receipted r) = True"
| "is_receipt _ = False"

text \<open>What cannot be taken back: the effect of a call that was accepted.\<close>

fun changes :: "effect \<Rightarrow> bool" where
  "changes (TaskCancelled task ok) = ok"
| "changes (SessionChanged ok) = ok"
| "changes (DeviceRan command name ok) = (ok \<and> command \<noteq> js ''status'')"
| "changes (CardRan intent ok) = ok"
| "changes (RoomJoined room ok) = ok"
| "changes _ = False"

text \<open>The permission an effect needs.\<close>

fun needs :: "effect \<Rightarrow> string option" where
  "needs (DeviceRan command name ok) = Some (if command = js ''status'' then ''device.read'' else ''device.mutate'')"
| "needs (StatusRead ok) = Some ''device.read''"
| "needs (CardRan intent ok) = Some (case intent of AnswerIntent q a \<Rightarrow> ''card.answer'' | _ \<Rightarrow> ''card.custom'')"
| "needs _ = None"

definition permitted :: "effect list \<Rightarrow> bool" where
  "permitted l \<longleftrightarrow> (\<forall>scope. precedes (\<lambda>e. e = Authorized scope (Some True)) (\<lambda>e. needs e = Some scope) l)"

text \<open>
  A receipt comes after the admission, every change after the claim, a release never after a change, and a message
  not between a change and the end of the claim.
\<close>

definition orderly :: "effect list \<Rightarrow> bool" where
  "orderly l \<longleftrightarrow> precedes (\<lambda>e. e = AdmitTried True) is_receipt l \<and> precedes is_claim (\<lambda>e. changes e \<or> settles e) l
     \<and> excludes changes (\<lambda>e. e = ReleaseTried) l \<and> excludes settles changes l \<and> defers changes settles is_message l
     \<and> defers is_claim settles (\<lambda>e. e = TaskAwaited) l"

definition open_log :: "effect list \<Rightarrow> bool" where
  "open_log l \<longleftrightarrow> orderly l \<and> permitted l \<and> length (filter is_claim l) = 1 \<and> \<not> list_ex settles l"

definition clean_log :: "effect list \<Rightarrow> bool" where
  "clean_log l \<longleftrightarrow> open_log l \<and> \<not> list_ex changes l"

definition closed_log :: "effect list \<Rightarrow> bool" where
  "closed_log l \<longleftrightarrow> orderly l \<and> permitted l \<and> length (filter is_claim l) \<le> 1
     \<and> length (filter settles l) = length (filter is_claim l)"

definition quiet_log :: "effect list \<Rightarrow> bool" where
  "quiet_log l \<longleftrightarrow> closed_log l \<and> \<not> list_ex is_claim l"

text \<open>When a handler throws, the flag tells what has happened.\<close>

definition failing :: "command_world \<Rightarrow> bool" where
  "failing w \<longleftrightarrow> (if cw_accepted w then open_log (cw_log w) else clean_log (cw_log w))"

lemma one_means_some: "length (filter p l) = Suc 0 \<Longrightarrow> list_ex p l"
  by (induction l) (auto split: if_splits)

lemma permitted_snoc: "permitted (l @ [e]) \<longleftrightarrow> permitted l
    \<and> (case needs e of None \<Rightarrow> True | Some scope \<Rightarrow> list_ex (\<lambda>e. e = Authorized scope (Some True)) l)"
  by (auto simp: permitted_def split: option.splits)

lemmas log_defs = open_log_def clean_log_def closed_log_def quiet_log_def orderly_def permitted_snoc

text \<open>An answer about a permission or a call that was not accepted leaves a log as it is; so does a message, except
  between a change and the end of the claim.\<close>

definition harmless :: "effect \<Rightarrow> bool" where
  "harmless e \<longleftrightarrow> \<not> is_claim e \<and> \<not> settles e \<and> \<not> is_receipt e \<and> \<not> changes e \<and> \<not> is_message e
     \<and> e \<noteq> TaskAwaited \<and> needs e = None"

lemma harmless_simps [simp]: "harmless (Authorized s a)" "harmless (TaskCancelled t False)"
    "harmless (SessionChanged False)" "harmless (RoomJoined r False)"
  by (simp_all add: harmless_def)

lemma log_harmless:
  assumes "harmless e"
  shows "open_log (l @ [e]) = open_log l" "clean_log (l @ [e]) = clean_log l" "closed_log (l @ [e]) = closed_log l"
    "quiet_log (l @ [e]) = quiet_log l"
  using assms by (auto simp: log_defs harmless_def)

lemma settles_none: "\<not> list_ex p l \<longleftrightarrow> filter p l = []"
  by (induction l) auto

lemma orderly_unsettled: "orderly l \<Longrightarrow> \<not> list_ex is_claim l \<Longrightarrow> \<not> list_ex changes l \<and> \<not> list_ex settles l"
proof -
  assume a: "orderly l" "\<not> list_ex is_claim l"
  have "\<not> (changes (l ! i) \<or> settles (l ! i))" if "i < length l" for i
    using a that unfolding orderly_def precedes_def list_ex_length by (meson order_less_trans)
  thus ?thesis by (auto simp: list_ex_length)
qed

lemma closed_settled: "closed_log l \<Longrightarrow> \<not> list_ex is_claim l \<or> list_ex settles l"
proof (cases "list_ex is_claim l")
  case True
  assume "closed_log l"
  hence "length (filter settles l) \<noteq> 0" using True settles_none [of is_claim l] by (simp add: closed_log_def)
  thus ?thesis using settles_none [of settles l] by simp
qed simp

lemma closed_sends: "closed_log l \<Longrightarrow> \<not> list_ex changes l \<or> list_ex settles l"
  using closed_settled [of l] orderly_unsettled [of l] by (auto simp: closed_log_def)

lemma log_sent:
  "clean_log (l @ [Sent m b]) = clean_log l" "closed_log (l @ [Sent m b]) = closed_log l" "quiet_log (l @ [Sent m b]) = quiet_log l"
  using closed_sends [of l] by (auto simp: log_defs)

lemma log_changed: "open_log l \<Longrightarrow> changes e \<Longrightarrow> needs e = None \<Longrightarrow> open_log (l @ [e])"
  by (cases e) (auto simp: log_defs dest: one_means_some)

lemma log_admitted: "open_log l \<Longrightarrow> closed_log (l @ [AdmitTried b])"
  by (auto simp: log_defs settles_none dest: one_means_some)

lemma log_released: "clean_log l \<Longrightarrow> closed_log (l @ [ReleaseTried])"
  by (auto simp: log_defs settles_none dest: one_means_some)

lemma log_received: "closed_log l \<Longrightarrow> AdmitTried True \<in> set l \<Longrightarrow> closed_log (l @ [Receipted r])"
  by (auto simp: log_defs list_ex_iff)

lemma log_awaited: "closed_log l \<Longrightarrow> closed_log (l @ [TaskAwaited])"
  using closed_settled [of l] by (auto simp: log_defs)

lemma clean_open: "clean_log l \<Longrightarrow> open_log l"
  by (simp add: clean_log_def)

subsection \<open>Acts\<close>

text \<open>Only the log and the flag of a world matter here.\<close>

definition follows :: "command_world \<Rightarrow> effect list \<Rightarrow> command_world \<Rightarrow> bool" where
  "follows w es w' \<longleftrightarrow> cw_log w' = cw_log w @ es \<and> cw_accepted w' = cw_accepted w"

lemma follows_log: "follows w [e] w' \<Longrightarrow> cw_log w' = cw_log w @ [e]"
  by (simp add: follows_def)

lemma follows_flag: "follows w es w' \<Longrightarrow> cw_accepted w' = cw_accepted w"
  by (simp add: follows_def)

lemma follows_Nil: "follows w [] w' \<Longrightarrow> cw_log w' = cw_log w"
  by (simp add: follows_def)

lemma follows_in: "follows w [e] w' \<Longrightarrow> x \<in> set (cw_log w') \<longleftrightarrow> x = e \<or> x \<in> set (cw_log w)"
  by (auto simp: follows_def)

lemma follows_sent:
  assumes "follows w [Sent m b] w'"
  shows "clean_log (cw_log w') = clean_log (cw_log w)" "closed_log (cw_log w') = closed_log (cw_log w)"
    "quiet_log (cw_log w') = quiet_log (cw_log w)"
  by (simp_all add: follows_log [OF assms] log_sent)

lemma clean_sent: "follows w [Sent m b] w' \<Longrightarrow> clean_log (cw_log w) \<Longrightarrow> clean_log (cw_log w')"
  by (simp add: follows_sent)

lemma closed_sent: "follows w [Sent m b] w' \<Longrightarrow> closed_log (cw_log w) \<Longrightarrow> closed_log (cw_log w')"
  by (simp add: follows_sent)

lemma follows_harmless:
  assumes "follows w [e] w'" "harmless e"
  shows "clean_log (cw_log w') = clean_log (cw_log w)" "open_log (cw_log w') = open_log (cw_log w)"
  by (simp_all add: follows_log [OF assms(1)] log_harmless [OF assms(2)])

lemma follows_changed: "follows w [e] w' \<Longrightarrow> open_log (cw_log w) \<Longrightarrow> changes e \<Longrightarrow> needs e = None \<Longrightarrow> open_log (cw_log w')"
  by (simp add: follows_log log_changed)

lemma follows_admitted: "follows w [AdmitTried b] w' \<Longrightarrow> open_log (cw_log w) \<Longrightarrow> closed_log (cw_log w')"
  by (simp add: follows_log log_admitted)

lemma follows_released: "follows w [ReleaseTried] w' \<Longrightarrow> clean_log (cw_log w) \<Longrightarrow> closed_log (cw_log w')"
  by (simp add: follows_log log_released)

lemma follows_received:
  "follows w [Receipted r] w' \<Longrightarrow> closed_log (cw_log w) \<Longrightarrow> AdmitTried True \<in> set (cw_log w) \<Longrightarrow> closed_log (cw_log w')"
  by (simp add: follows_log log_received)

lemma closed_awaited: "follows w [TaskAwaited] w' \<Longrightarrow> closed_log (cw_log w) \<Longrightarrow> closed_log (cw_log w')"
  by (simp add: follows_log log_awaited)

lemma wp_waiting:
  assumes "\<And>t w'. follows w [] w' \<Longrightarrow> (case f t w' of (Some v, w2) \<Rightarrow> Q v w2 | (None, w2) \<Rightarrow> E w2)"
  shows "wp (waiting f) Q E o' w"
  unfolding wp_def waiting_def Let_def by (rule assms) (simp add: follows_def)

lemma follows_step: "follows w [] w' \<Longrightarrow> cw_log w2 = cw_log w' @ es \<Longrightarrow> cw_accepted w2 = cw_accepted w' \<Longrightarrow> follows w es w2"
  by (simp add: follows_def)

lemma wp_reading_world [simp]: "wp (reading_world f) Q E o' w \<longleftrightarrow> Q (f w) w"
  by (simp add: wp_def reading_world_def)

lemma wp_looking [simp]: "wp (looking f) Q E o' w \<longleftrightarrow> Q (f (o' (cw_step w))) w"
  by (simp add: wp_def looking_def)

lemma wp_set_accepted [simp]: "wp (set_accepted b) Q E o' w \<longleftrightarrow> Q () (w\<lparr>cw_accepted := b\<rparr>)"
  by (simp add: wp_def set_accepted_def)

lemma wp_calling:
  assumes "\<And>t w' v. follows w [e t] w' \<Longrightarrow> f t = Some v \<Longrightarrow> Q v w'" "\<And>t w'. follows w [e t] w' \<Longrightarrow> f t = None \<Longrightarrow> E w'"
  shows "wp (calling e f) Q E o' w"
  unfolding calling_def
proof (rule wp_waiting)
  fix t w' assume "follows w [] w'"
  hence "follows w [e t] (w'\<lparr>cw_log := cw_log w' @ [e t]\<rparr>)" by (simp add: follows_def)
  thus "case (f t, w'\<lparr>cw_log := cw_log w' @ [e t]\<rparr>) of (Some v, w2) \<Rightarrow> Q v w2 | (None, w2) \<Rightarrow> E w2"
    using assms by (cases "f t") simp_all
qed

lemma wp_asking:
  assumes "\<And>w' v. follows w [] w' \<Longrightarrow> Q v w'" "\<And>w'. follows w [] w' \<Longrightarrow> E w'"
  shows "wp (asking f) Q E o' w"
  unfolding asking_def by (rule wp_waiting) (simp add: assms split: option.split)

lemma wp_store_reading:
  assumes "\<And>w' v. follows w [] w' \<Longrightarrow> Q v w'" "\<And>w'. follows w [] w' \<Longrightarrow> E w'"
  shows "wp (store_reading f) Q E o' w"
  unfolding store_reading_def by (rule wp_waiting) (simp add: assms split: sum.split)

lemma wp_storing:
  assumes "\<And>w' v. follows w (e v) w' \<Longrightarrow> Q v w'" "\<And>w'. follows w [] w' \<Longrightarrow> E w'"
  shows "wp (storing e tr) Q E o' w"
  unfolding storing_def
proof (rule wp_waiting)
  fix t w' assume f: "follows w [] w'"
  have "Q v (w'\<lparr>cw_store := s, cw_log := cw_log w' @ e v\<rparr>)" "E (w'\<lparr>cw_store := s\<rparr>)" for v s
    by (rule assms(1), rule follows_step [OF f], simp_all) (rule assms(2), rule follows_step [OF f], simp_all)
  thus "case (case mutate (cw_store w') (ct_now t) (ct_write t) tr of
      (Inl x, s) \<Rightarrow> (None, w'\<lparr>cw_store := s\<rparr>) | (Inr v, s) \<Rightarrow> (Some v, w'\<lparr>cw_store := s, cw_log := cw_log w' @ e v\<rparr>)) of
      (Some v, w2) \<Rightarrow> Q v w2 | (None, w2) \<Rightarrow> E w2"
    by (simp split: sum.split prod.split)
qed

lemma wp_admitting:
  assumes "\<And>w' b. follows w [AdmitTried b] w' \<Longrightarrow> Q b w'"
  shows "wp (admitting claim) Q E o' w"
  unfolding admitting_def
proof (rule wp_waiting)
  fix t w' assume f: "follows w [] w'"
  have "Q b (w'\<lparr>cw_store := s, cw_log := cw_log w' @ [AdmitTried b]\<rparr>)" for b s
    by (rule assms, rule follows_step [OF f], simp_all)
  thus "case (case mutate (cw_store w') (ct_now t) (ct_write t) (admitMessage (fst claim) (snd claim)) of (r, s) \<Rightarrow>
        let ok = (case r of Inl x \<Rightarrow> False | Inr v \<Rightarrow> v) in (Some ok, w'\<lparr>cw_store := s, cw_log := cw_log w' @ [AdmitTried ok]\<rparr>)) of
      (Some v, w2) \<Rightarrow> Q v w2 | (None, w2) \<Rightarrow> E w2"
    by (simp add: Let_def split: prod.split)
qed

lemma wp_releasing:
  assumes "\<And>w'. follows w [ReleaseTried] w' \<Longrightarrow> Q () w'"
  shows "wp (releasing claim) Q E o' w"
  unfolding releasing_def
proof (rule wp_waiting)
  fix t w' assume f: "follows w [] w'"
  have "Q () (w'\<lparr>cw_store := s, cw_log := cw_log w' @ [ReleaseTried]\<rparr>)" for s
    by (rule assms, rule follows_step [OF f], simp_all)
  thus "case (Some (), w'\<lparr>cw_store := snd (mutate (cw_store w') (ct_now t) (ct_write t) (releaseMessage (fst claim) (snd claim))),
      cw_log := cw_log w' @ [ReleaseTried]\<rparr>) of (Some v, w2) \<Rightarrow> Q v w2 | (None, w2) \<Rightarrow> E w2"
    by simp
qed

lemma wp_sending:
  assumes "\<And>w'. follows w [Sent m True] w' \<Longrightarrow> Q () w'" "\<And>w'. follows w [Sent m False] w' \<Longrightarrow> E w'"
  shows "wp (sending m) Q E o' w"
  unfolding sending_def by (rule wp_calling) (auto simp: done_or_rejected_def assms split: if_splits)

lemma wp_caught: "wp (caught v a) Q E o' w \<longleftrightarrow> wp a Q (\<lambda>w'. Q v w') o' w"
  by (simp add: caught_def)

lemma wp_current [simp]: "wp (bindingGenerationCurrent g) Q E o' w
    \<longleftrightarrow> Q (\<not> cw_routerDisposed w \<and> \<not> cw_disposed w \<and> cw_generation w = g) w"
  by (simp add: bindingGenerationCurrent_def)

lemma wp_time [simp]: "wp time Q E o' w \<longleftrightarrow> Q (time_of (ct_clock (o' (cw_step w)))) w"
  by (simp add: time_def)

lemma wp_safeSendText:
  assumes "Q () w" "\<And>w' m b. follows w [Sent m b] w' \<Longrightarrow> Q () w'"
  shows "wp (safeSendText c content) Q E o' w"
  using assms by (auto simp: safeSendText_def wp_caught Let_def intro!: wp_sending)

declare follows_Nil [simp] follows_flag [simp] follows_sent [simp]

lemmas log_moves = closed_awaited follows_released follows_admitted follows_received clean_sent closed_sent clean_open

text \<open>The ends of a claim.\<close>

lemma wp_sendReceipt:
  assumes "closed_log (cw_log w)" "AdmitTried True \<in> set (cw_log w)" "\<And>w'. closed_log (cw_log w') \<Longrightarrow> Q () w'"
  shows "wp (sendReceipt r g) Q E o' w"
  using assms by (auto simp: sendReceipt_def wp_caught intro!: wp_calling assms(3) intro: log_moves)

lemma wp_finishRead:
  assumes "clean_log (cw_log w)" "\<And>w'. closed_log (cw_log w') \<Longrightarrow> Q () w'"
  shows "wp (finishRead message claim m g) Q E o' w"
  unfolding finishRead_def using assms
  by (auto intro!: wp_releasing wp_sending wp_admitting wp_sendReceipt assms(2) simp: follows_in;
      blast intro: log_moves)

lemma wp_finishMutation:
  assumes "open_log (cw_log w)" "\<And>w'. closed_log (cw_log w') \<Longrightarrow> Q () w'"
  shows "wp (finishMutation message claim m g) Q E o' w"
  unfolding finishMutation_def using assms
  by (auto intro!: wp_sending wp_admitting wp_sendReceipt assms(2) simp: wp_caught follows_in;
      blast intro: log_moves)

lemma wp_admitOnly:
  assumes "if accepted' then open_log (cw_log w) else clean_log (cw_log w)" "\<And>w' b. closed_log (cw_log w') \<Longrightarrow> Q b w'"
  shows "wp (admitOnly message claim g accepted') Q E o' w"
  unfolding admitOnly_def using assms
  by (auto intro!: wp_releasing wp_admitting wp_sendReceipt assms(2) simp: follows_in split: if_splits;
      blast intro: log_moves)

subsection \<open>Handlers\<close>

abbreviation closes :: "unit handling \<Rightarrow> command_answers \<Rightarrow> command_world \<Rightarrow> bool" where
  "closes a o' w \<equiv> wp a (\<lambda>_ w'. closed_log (cw_log w')) (\<lambda>_. False) o' w"

text \<open>The body of a \<open>try\<close>: when it throws, the flag tells what has happened.\<close>

abbreviation closes_or_fails :: "unit handling \<Rightarrow> command_answers \<Rightarrow> command_world \<Rightarrow> bool" where
  "closes_or_fails a o' w \<equiv> wp a (\<lambda>_ w'. closed_log (cw_log w')) failing o' w"

lemma log_starts: "closed_log []" "clean_log [Claim k i]"
  by (simp_all add: log_defs permitted_def)
     (auto simp: precedes_def excludes_def defers_def permitted_def split: option.splits)

lemma clean_claimed: "follows w [Claim k i] w' \<Longrightarrow> cw_log w = [] \<Longrightarrow> clean_log (cw_log w')"
  by (simp add: follows_log log_starts)

lemma log_same: "follows w [] w' \<Longrightarrow> clean_log (cw_log w) \<Longrightarrow> clean_log (cw_log w')"
    "follows w [] w' \<Longrightarrow> closed_log (cw_log w) \<Longrightarrow> closed_log (cw_log w')"
  by simp_all

lemma closed_start: "cw_log w = [] \<Longrightarrow> closed_log (cw_log w)"
  by (simp add: log_starts)

lemma wp_claimLocal:
  assumes "cw_log w = []" "\<And>w' cl. clean_log (cw_log w') \<Longrightarrow> Q (Some cl) w'" "\<And>w'. closed_log (cw_log w') \<Longrightarrow> Q None w'"
  shows "wp (claimLocal message c g) Q E o' w"
  unfolding claimLocal_def claimId_def using assms(1)
  by (auto intro!: wp_storing wp_asking wp_releasing wp_safeSendText assms(2,3) split: option.split claim_result.split simp: log_starts;
      blast intro: log_moves log_same clean_claimed)

lemma closes_claimed:
  assumes "cw_log w = []" "\<And>g cl w'. clean_log (cw_log w') \<Longrightarrow> closes (body g cl) o' w'"
  shows "closes (claimed message c body) o' w"
  unfolding claimed_def by (auto simp: bindingGeneration_def intro!: wp_claimLocal assms)

lemma closes_settle: "failing w \<Longrightarrow> closes (settle_claim cl) o' w"
  by (auto simp: settle_claim_def failing_def intro!: wp_admitting wp_releasing intro: log_moves)

lemma closes_after_failure: "failing w \<Longrightarrow> closes (after_failure c cl g notice) o' w"
  unfolding after_failure_def wp_andThen
  by (rule wp_mono [OF closes_settle]) (auto intro!: wp_safeSendText)

lemma closes_catching:
  assumes "closes_or_fails body o' w" "\<And>w'. failing w' \<Longrightarrow> closes handler o' w'"
  shows "closes (catching body handler) o' w"
  unfolding catching_def wp_attempt by (rule wp_mono [OF assms(1)]) (auto intro: assms(2))

lemma fails_clean: "clean_log (cw_log w) \<Longrightarrow> failing w"
  by (simp add: failing_def clean_open)

lemma fails_open: "open_log (cw_log w) \<Longrightarrow> cw_accepted w \<Longrightarrow> failing w"
  by (simp add: failing_def)

lemma wp_ifI: "(c \<Longrightarrow> wp a Q E o' w) \<Longrightarrow> (\<not> c \<Longrightarrow> wp b Q E o' w) \<Longrightarrow> wp (if c then a else b) Q E o' w"
  by simp

lemma closes_session_change:
  assumes "clean_log (cw_log w)" "\<not> cw_accepted w"
  shows "closes_or_fails (run_session_change message c cl g tr notice) o' w"
  unfolding run_session_change_def wp_andThen
proof (rule wp_storing)
  fix w' v assume f: "follows w [SessionChanged v] w'"
  show "closes_or_fails (if \<not> v then finishRead message cl (textResponse c (js ''[session_not_found]'')) g
      else andThen (set_accepted True) (\<lambda>_. finishMutation message cl (textResponse c (js notice)) g)) o' w'"
    using follows_harmless(1) [OF f] follows_changed [OF f] assms(1) clean_open [OF assms(1)]
    by (cases v) (auto intro!: wp_finishRead wp_finishMutation intro: clean_open)
qed (use assms in \<open>simp add: failing_def\<close>)

lemma authorized_clean: "follows w [Authorized s a] w' \<Longrightarrow> clean_log (cw_log w) \<Longrightarrow> clean_log (cw_log w')"
  by (simp add: follows_harmless)

lemma wp_authorize:
  assumes "\<And>w' b. follows w [Authorized s (Some b)] w' \<Longrightarrow> Q b w'" "\<And>w'. follows w [Authorized s None] w' \<Longrightarrow> E w'"
  shows "wp (authorize s) Q E o' w"
  unfolding authorize_def by (rule wp_calling) (use assms in auto)

text \<open>The call is permitted by the answer before it.\<close>

lemma log_permitted:
  assumes "clean_log l" "Authorized s (Some True) \<in> set l" "needs e = Some s" "\<not> is_claim e" "\<not> settles e" "\<not> is_receipt e" "\<not> is_message e"
  shows "if changes e then open_log (l @ [e]) else clean_log (l @ [e])"
  using assms by (auto simp: log_defs list_ex_iff dest: one_means_some)

lemma status_clean:
  assumes "follows w [StatusRead b] w'" "clean_log (cw_log w)" "Authorized ''device.read'' (Some True) \<in> set (cw_log w)"
  shows "clean_log (cw_log w')"
  using log_permitted [OF assms(2,3), of "StatusRead b"] by (simp add: follows_log [OF assms(1)])

lemma wp_read_status:
  assumes "\<And>w' s. follows w [StatusRead True] w' \<Longrightarrow> Q s w'" "\<And>w'. follows w [StatusRead False] w' \<Longrightarrow> E w'"
  shows "wp read_status Q E o' w"
  unfolding read_status_def by (rule wp_calling) (use assms in auto)

lemma closes_status:
  assumes "clean_log (cw_log w)" "\<not> cw_accepted w"
  shows "closes_or_fails (run_status message c cl g) o' w"
  unfolding run_status_def using assms
  by (auto intro!: wp_authorize wp_releasing wp_read_status wp_finishRead simp: failing_def follows_in
      intro: log_moves authorized_clean status_clean;
      blast intro: log_moves authorized_clean status_clean [OF _ authorized_clean] dest: follows_in [THEN iffD2])

lemma closes_or_fails_mono: "closes a o' w \<Longrightarrow> closes_or_fails a o' w"
  by (erule wp_mono) simp_all

lemma wp_cancel_active:
  assumes "\<And>w'. follows w [TaskCancelled task True] w' \<Longrightarrow> Q () w'" "\<And>w'. follows w [TaskCancelled task False] w' \<Longrightarrow> E w'"
  shows "wp (cancel_active task) Q E o' w"
  unfolding cancel_active_def by (rule wp_calling) (auto simp: done_or_rejected_def assms split: if_splits)

lemma wp_done:
  assumes "\<And>w'. follows w [TaskAwaited] w' \<Longrightarrow> Q () w'"
  shows "wp task_done Q E o' w"
  unfolding task_done_def by (rule wp_calling) (auto simp: assms)

lemma cancelled_clean: "follows w [TaskCancelled task False] w' \<Longrightarrow> clean_log (cw_log w) \<Longrightarrow> clean_log (cw_log w')"
  by (simp add: follows_harmless)

lemma cancelled_open: "follows w [TaskCancelled task True] w' \<Longrightarrow> clean_log (cw_log w) \<Longrightarrow> open_log (cw_log w')"
  by (simp add: follows_changed clean_open)

lemma session_open: "follows w [SessionChanged True] w' \<Longrightarrow> clean_log (cw_log w) \<Longrightarrow> open_log (cw_log w')"
  by (simp add: follows_changed clean_open)

lemma session_clean: "follows w [SessionChanged False] w' \<Longrightarrow> clean_log (cw_log w) \<Longrightarrow> clean_log (cw_log w')"
  by (simp add: follows_harmless)

lemma closes_slash_body:
  assumes "clean_log (cw_log w)" "\<not> cw_accepted w"
  shows "closes_or_fails (slash_body message c name argument cl g) o' w"
proof -
  have stop: "closes_or_fails (andThen (active_task c) (\<lambda>active. case active of
          None \<Rightarrow> finishRead message cl (textResponse c (js ''[no_active_task]'')) g
        | Some task \<Rightarrow> andThen (cancel_active task) (\<lambda>_. andThen (set_accepted True) (\<lambda>_.
            andThen (finishMutation message cl (textResponse c (js ''[stop_requested]'')) g) (\<lambda>_. task_done))))) o' w"
    using assms by (auto simp: active_task_def failing_def intro!: wp_finishRead wp_cancel_active wp_finishMutation wp_done
        split: option.split intro: cancelled_clean cancelled_open closed_awaited)
  have fresh: "closes_or_fails (andThen (storing (\<lambda>_. [SessionChanged True]) (clearCurrent c)) (\<lambda>_. andThen (set_accepted True) (\<lambda>_.
          finishMutation message cl (textResponse c (js ''[new_session]'')) g))) o' w"
    using assms by (auto simp: failing_def intro!: wp_storing wp_finishMutation intro: session_open)
  have look: "closes_or_fails (andThen (store_reading f) (\<lambda>x. finishRead message cl (m x) g)) o' w" for f :: "store \<Rightarrow> (router_error, 'a) result" and m
    using assms by (auto intro!: wp_store_reading wp_finishRead simp: failing_def)
  show ?thesis unfolding slash_body_def
    by (intro wp_ifI; (rule stop | rule look | rule closes_status [OF assms] | rule closes_session_change [OF assms] | rule fresh))
qed

lemma closes_slash: "clean_log (cw_log w) \<Longrightarrow> closes (runSlashClaimed message c name argument cl g) o' w"
  unfolding runSlashClaimed_def by (simp add: closes_catching closes_slash_body closes_after_failure)

subsection \<open>The local protocol\<close>

lemma wp_legacy:
  assumes "\<And>ob. Q ob w" "E w"
  shows "wp (legacy_envelope ty requestId c message content) Q E o' w"
  by (auto simp: legacy_envelope_def assms split: sum.split)

lemma closes_create:
  assumes "clean_log (cw_log w)" "\<not> cw_accepted w"
  shows "closes_or_fails (run_create_session message c requestId cl g) o' w"
  unfolding run_create_session_def using assms
  by (auto intro!: wp_store_reading wp_legacy wp_finishRead simp: failing_def)

lemma closes_delete:
  assumes "clean_log (cw_log w)" "\<not> cw_accepted w"
  shows "closes_or_fails (run_delete_session message c v requestId cl g) o' w"
  unfolding run_delete_session_def using assms
  by (auto intro!: wp_storing wp_finishRead wp_finishMutation simp: failing_def intro: session_open session_clean)

lemma closes_device_status:
  assumes "clean_log (cw_log w)" "\<not> cw_accepted w"
  shows "closes_or_fails (run_device_status message c requestId cl g) o' w"
  unfolding run_device_status_def using assms
  by (auto intro!: wp_authorize wp_releasing wp_read_status wp_legacy wp_finishRead simp: failing_def follows_in
      intro: log_moves authorized_clean status_clean;
      blast intro: log_moves authorized_clean status_clean [OF _ authorized_clean] dest: follows_in [THEN iffD2])

lemma follows_device:
  assumes "follows w [DeviceRan command name ok] w'" "clean_log (cw_log w)"
    "Authorized (device_scope command) (Some True) \<in> set (cw_log w)"
  shows "if ok \<and> command \<noteq> js ''status'' then open_log (cw_log w') else clean_log (cw_log w')"
  using log_permitted [OF assms(2,3), of "DeviceRan command name ok"] by (auto simp: follows_log [OF assms(1)] device_scope_def split: if_splits)

lemma closes_answer_device:
  assumes "if accepted' \<and> command \<noteq> js ''status'' then open_log (cw_log w) \<and> cw_accepted w else clean_log (cw_log w)"
  shows "closes_or_fails (answer_device message c command requestId cl g accepted' result) o' w"
  unfolding answer_device_def device_envelope_def using assms
  by (auto intro!: wp_legacy wp_finishRead wp_finishMutation simp: failing_def clean_open split: if_splits)

lemma closes_device_call:
  assumes "clean_log (cw_log w)" "\<not> cw_accepted w" "Authorized (device_scope command) (Some True) \<in> set (cw_log w)"
  shows "closes_or_fails (andThen (calling (\<lambda>t. DeviceRan command name (ct_device t \<noteq> None)) ct_device) (\<lambda>got.
        andThen (set_accepted (command \<noteq> js ''status'')) (\<lambda>_. andThen (bindingGenerationCurrent g) (\<lambda>ok.
        if \<not> ok then andThen (admitOnly message cl g (command \<noteq> js ''status'')) (\<lambda>_. ret ())
        else answer_device message c command requestId cl g True
               (if validDeviceResult got then got else simple_result ''unsupported_action''))))) o' w"
  unfolding wp_andThen
proof (rule wp_calling)
  fix t w' got assume f: "follows w [DeviceRan command name (ct_device t \<noteq> None)] w'" "ct_device t = Some got"
  have "if command \<noteq> js ''status'' then open_log (cw_log w') else clean_log (cw_log w')"
    using follows_device [OF f(1) assms(1,3)] f(2) by simp
  thus "wp (set_accepted (command \<noteq> js ''status'')) (\<lambda>v. wp (bindingGenerationCurrent g) (\<lambda>v. closes_or_fails
      (if \<not> v then andThen (admitOnly message cl g (command \<noteq> js ''status'')) (\<lambda>_. ret ())
       else answer_device message c command requestId cl g True
         (if validDeviceResult got then got else simple_result ''unsupported_action'')) o') failing o') failing o' w'"
    by (auto intro!: wp_admitOnly closes_answer_device)
next
  fix t w' assume f: "follows w [DeviceRan command name (ct_device t \<noteq> None)] w'" "ct_device t = None"
  show "failing w'"
    using follows_device [OF f(1) assms(1,3)] f by (simp add: fails_clean)
qed

lemma wp_device_name: "(\<And>name. Q name w) \<Longrightarrow> E w \<Longrightarrow> wp (device_name v command) Q E o' w"
  by (simp add: device_name_def split: option.split)

lemma closes_device:
  assumes "clean_log (cw_log w)" "\<not> cw_accepted w"
  shows "closes_or_fails (run_device_control message c v requestId cl g) o' w"
proof -
  let ?command = "str_field v ''command''"
  let ?call = "\<lambda>name. andThen (calling (\<lambda>t. DeviceRan ?command name (ct_device t \<noteq> None)) ct_device) (\<lambda>got.
        andThen (set_accepted (?command \<noteq> js ''status'')) (\<lambda>_. andThen (bindingGenerationCurrent g) (\<lambda>ok.
        if \<not> ok then andThen (admitOnly message cl g (?command \<noteq> js ''status'')) (\<lambda>_. ret ())
        else answer_device message c ?command requestId cl g True
               (if validDeviceResult got then got else simple_result ''unsupported_action''))))"
  have call: "closes_or_fails (andThen (device_name v ?command) ?call) o' w'"
    if "follows w [Authorized (device_scope ?command) (Some True)] w'" for w'
  proof -
    have c: "clean_log (cw_log w')" "\<not> cw_accepted w'" "Authorized (device_scope ?command) (Some True) \<in> set (cw_log w')"
      using that assms authorized_clean by (auto simp: follows_in)
    have "closes_or_fails (?call name) o' w'" for name by (rule closes_device_call [OF c])
    thus ?thesis unfolding wp_andThen [of "device_name v ?command"]
      by (intro wp_device_name) (use c in \<open>simp_all only: fails_clean\<close>)
  qed
  have after: "closes_or_fails (andThen (bindingGenerationCurrent g) (\<lambda>ok. if \<not> ok then releasing cl
      else if \<not> b then answer_device message c ?command requestId cl g False (simple_result ''authorization_denied'')
      else andThen (device_name v ?command) ?call)) o' w'"
    if "follows w [Authorized (device_scope ?command) (Some b)] w'" for w' b
  proof -
    have c: "clean_log (cw_log w')" using that assms authorized_clean by blast
    have 1: "closes_or_fails (releasing cl) o' w'" by (rule wp_releasing) (blast intro: log_moves c)
    have 2: "closes_or_fails (answer_device message c ?command requestId cl g False (simple_result ''authorization_denied'')) o' w'"
      by (rule closes_answer_device) (simp add: c)
    have 3: "closes_or_fails (andThen (device_name v ?command) ?call) o' w'" if b
      by (rule call) (use \<open>follows w _ w'\<close> that in simp)
    show ?thesis unfolding wp_andThen [of "bindingGenerationCurrent g"] wp_current
      by (intro wp_ifI; (rule 1 | rule 2 | rule 3, simp))
  qed
  show ?thesis unfolding run_device_control_def Let_def wp_andThen [of "authorize (device_scope ?command)"]
    by (rule wp_authorize) (use after assms in \<open>auto simp del: wp_andThen wp_current intro: fails_clean authorized_clean\<close>)
qed

lemma closes_local:
  assumes "cw_log w = []"
  shows "closes (runLocalProtocol message c ty v) o' w"
  unfolding runLocalProtocol_def Let_def
proof (rule closes_claimed [OF assms])
  fix g cl and w' :: command_world assume "clean_log (cw_log w')"
  hence c: "clean_log (cw_log (w'\<lparr>cw_accepted := False\<rparr>))" "\<not> cw_accepted (w'\<lparr>cw_accepted := False\<rparr>)" by simp_all
  show "closes (andThen (set_accepted False) (\<lambda>_. catching
      (case ty of CreateSession \<Rightarrow> run_create_session message c (text_of_field v ''request_id'') cl g
        | DeleteSession \<Rightarrow> run_delete_session message c v (text_of_field v ''request_id'') cl g
        | DeviceStatus \<Rightarrow> run_device_status message c (text_of_field v ''request_id'') cl g
        | DeviceControl \<Rightarrow> run_device_control message c v (text_of_field v ''request_id'') cl g)
      (after_failure c cl g ''[runtime_failed]''))) o' w'"
    unfolding wp_andThen wp_set_accepted
    by (rule closes_catching) (use closes_create [OF c] closes_delete [OF c] closes_device_status [OF c] closes_device [OF c]
        in \<open>auto split: local_message.split intro: closes_after_failure\<close>)
qed

lemma closes_slash_command: "cw_log w = [] \<Longrightarrow> closes (runSlash message c name argument) o' w"
  unfolding runSlash_def by (rule closes_claimed) (auto intro: closes_slash)

lemma closes_stop:
  assumes "cw_log w = []"
  shows "closes (runStop message c) o' w"
  unfolding runStop_def
  by (rule closes_claimed [OF assms]) (auto simp: active_task_def intro!: wp_finishRead wp_cancel_active wp_releasing
      wp_safeSendText wp_finishMutation wp_done split: option.split intro: cancelled_open;
      blast intro: log_moves cancelled_clean)

lemma joined_clean: "follows w [RoomJoined room False] w' \<Longrightarrow> clean_log (cw_log w) \<Longrightarrow> clean_log (cw_log w')"
  by (simp add: follows_harmless)

lemma joined_open: "follows w [RoomJoined room True] w' \<Longrightarrow> clean_log (cw_log w) \<Longrightarrow> open_log (cw_log w')"
  by (simp add: follows_changed clean_open)

lemma closes_invite:
  assumes "cw_log w = []"
  shows "closes (runChatroomInvite message c room) o' w"
  unfolding runChatroomInvite_def
  by (rule closes_claimed [OF assms]) (auto simp: done_or_rejected_def intro!: wp_calling wp_admitOnly wp_releasing
      split: if_splits; blast intro: log_moves joined_clean joined_open)

end
