(* ===== verification/CommandTheorems.thy ===== *)
theory CommandTheorems imports CommandProofs OutputCapacity CardProofs RouterTheorems begin

text \<open>
  The properties of the commands: every claim is settled once, effects come in order and only with permission,
  an action that cannot be carried out is always answered, and a message that was handled before has no effect.
\<close>

subsection \<open>The size of a printed value\<close>

fun print_bound :: "json \<Rightarrow> nat" where
  "print_bound (JStr s) = 6 * length s + 2"
| "print_bound (JArr xs) = sum_list (map print_bound xs) + length xs + 2"
| "print_bound (JObj kvs) = sum_list (map (\<lambda>(k, v). 6 * length k + 3 + print_bound v) kvs) + length kvs + 2"
| "print_bound j = byte_length (stringify j)"

lemma printed_bound: "byte_length (stringify j) \<le> print_bound j"
proof (induction j rule: print_bound.induct)
  case (1 s) thus ?case using quote_form [of s] by simp
next
  case (2 xs)
  hence "sum_list (map (\<lambda>x. byte_length (stringify x)) xs) \<le> sum_list (map print_bound xs)" by (intro sum_list_mono) auto
  thus ?case using printed_array_le [of xs] by simp
next
  case (3 kvs)
  have "byte_length (prop_line (k, v)) \<le> 6 * length k + 3 + print_bound v" if "(k, v) \<in> set kvs" for k v
    using 3 [OF that refl] byte_length_append_le [of "quote k" "58 # stringify v"] ascii_Cons [of 58 "stringify v"] quote_form [of k]
    by (simp add: prop_line_def)
  hence "sum_list (map (\<lambda>p. byte_length (prop_line p)) kvs) \<le> sum_list (map (\<lambda>(k, v). 6 * length k + 3 + print_bound v) kvs)"
    by (intro sum_list_mono) auto
  thus ?case using printed_object_le [of kvs] by simp
qed simp_all

subsection \<open>The answer to a permission action\<close>

lemma safe_time: "0 \<le> time_of n \<and> time_of n \<le> max_safe"
  by (cases n) (auto simp: max_safe_def)

lemma identifier_lengths: "card_identifier n r \<Longrightarrow> reading_text r \<noteq> [] \<and> length (reading_text r) \<le> n"
  by (auto simp: card_identifier_def string_reading_iff identifier_ok_def)

lemma optional_lengths: "optional (card_identifier n) r \<Longrightarrow> optional_text r = Some s \<Longrightarrow> length s \<le> n"
  using identifier_lengths [of n r] by (cases r rule: optional_text.cases) (auto simp: optional_def)

lemma metadata_lengths:
  assumes "metadata v = Some m"
  shows "i_cardId m \<noteq> []" "length (i_cardId m) \<le> 128" "\<forall>r. i_requestId m = Some r \<longrightarrow> length r \<le> 128"
proof -
  let ?ids = "card_identifier 128 (read_prop v ''cardId'') \<and> optional (card_identifier 128) (read_prop v ''buttonId'')
    \<and> optional (card_identifier 128) (read_prop v ''request_id'')"
  have ids: ?ids by (rule ccontr) (use assms in \<open>simp add: metadata_def\<close>)
  hence v: "m = \<lparr>i_cardId = reading_text (read_prop v ''cardId''), i_buttonId = optional_text (read_prop v ''buttonId''),
      i_requestId = optional_text (read_prop v ''request_id'')\<rparr>" using assms by (simp add: metadata_def)
  have m: "card_identifier 128 (read_prop v ''cardId'')" "optional (card_identifier 128) (read_prop v ''request_id'')"
    "i_cardId m = reading_text (read_prop v ''cardId'')" "i_requestId m = optional_text (read_prop v ''request_id'')"
    using ids by (simp_all add: v)
  show "i_cardId m \<noteq> []" "length (i_cardId m) \<le> 128" using identifier_lengths [OF m(1)] m(3) by simp_all
  show "\<forall>r. i_requestId m = Some r \<longrightarrow> length r \<le> 128" using optional_lengths [OF m(2)] m(4) by simp
qed

lemma approval_bytes:
  assumes "length (i_cardId m) \<le> 128" "\<forall>r. i_requestId m = Some r \<longrightarrow> length r \<le> 128" "0 \<le> ts" "ts \<le> max_safe"
  shows "byte_length (stringify (JObj (approval_result m ts))) \<le> 10 * 1024"
proof -
  have "byte_length (int_text ts) \<le> 16" using byte_length_int [of ts 16] assms by (simp add: max_safe_def)
  moreover have "byte_length (int_text 501) \<le> 3" using byte_length_int [of 501 3] by simp
  ultimately have "print_bound (JObj (approval_result m ts)) \<le> 10 * 1024"
    using assms(1,2) by (cases "i_requestId m")
      (simp_all add: approval_result_def permissionUnsupportedCard_def note_json_def label_json_def text_property_def copied_def
        CARD_SCHEMA_VERSION_def)
  thus ?thesis using printed_bound [of "JObj (approval_result m ts)"] by (rule le_trans [rotated])
qed

lemma refused_approval:
  assumes "routeCardAction v = CardActions.Refused m UnsupportedApproval" "0 \<le> ts" "ts \<le> max_safe"
  shows "\<exists>x. m = Some x \<and> buildUnsupportedApprovalResult v ts = Some (approval_result x ts)"
proof -
  obtain x where x: "metadata v = Some x" "m = Some x"
    using assms(1) by (auto simp: routeCardAction_def route_action_def Let_def split: if_splits option.splits slash_command.splits)
  thus ?thesis using assms metadata_lengths [OF x(1)] approval_bytes [of x ts]
    by (simp add: buildUnsupportedApprovalResult_def safeTimestamp_def)
qed

subsection \<open>Card actions\<close>

lemma card_open:
  assumes "follows w [CardRan intent True] w'" "clean_log (cw_log w)"
    "Authorized (case intent of AnswerIntent q a \<Rightarrow> ''card.answer'' | _ \<Rightarrow> ''card.custom'') (Some True) \<in> set (cw_log w)"
  shows "open_log (cw_log w')"
  using log_permitted [OF assms(2,3), of "CardRan intent True"] by (simp add: follows_log [OF assms(1)])

lemma card_clean:
  assumes "follows w [CardRan intent False] w'" "clean_log (cw_log w)"
    "Authorized (case intent of AnswerIntent q a \<Rightarrow> ''card.answer'' | _ \<Rightarrow> ''card.custom'') (Some True) \<in> set (cw_log w)"
  shows "clean_log (cw_log w')"
  using log_permitted [OF assms(2,3), of "CardRan intent False"] by (simp add: follows_log [OF assms(1)])

lemma wp_send_caught:
  assumes "\<And>w' b. follows w [Sent m b] w' \<Longrightarrow> Q () w'"
  shows "wp (caught () (sending m)) Q E o' w"
  unfolding wp_caught by (rule wp_sending; rule assms)

lemma closes_announce:
  assumes "open_log (cw_log w)"
  shows "closes (announce_card message c m cl g update result) o' w"
  unfolding announce_card_def wp_andThen wp_time
proof (rule wp_admitting)
  fix w' b assume f: "follows w [AdmitTried b] w'"
  have c: "closed_log (cw_log w')" using f assms by (blast intro: log_moves)
  show "closes (if \<not> b then ret () else andThen (bindingGenerationCurrent g) (\<lambda>ok. if \<not> ok then ret ()
     else andThen (caught () (sending (command_response c
            (cardCommandResult (i_requestId m) (kr_status result) (kr_code result) (kr_message result) (time_of (ct_clock (o' (cw_step w)))))))) (\<lambda>_.
     andThen (bindingGenerationCurrent g) (\<lambda>ok. if \<not> ok then ret ()
     else andThen (case update of
            Some u \<Rightarrow> if kr_status result = js ''success''
              then andThen (caught () (sending (structuredResponse c ''card_update'' u))) (\<lambda>_. bindingGenerationCurrent g)
              else ret True
          | None \<Rightarrow> ret True) (\<lambda>ok. if \<not> ok then ret ()
     else sendReceipt (receipt message (nm_messageUid message)) g))))) o' w'"
    using c f by (auto intro!: wp_send_caught wp_sendReceipt simp: follows_in split: option.split)
qed

lemma closes_card_call:
  assumes "clean_log (cw_log w)" "Authorized (case intent of AnswerIntent q a \<Rightarrow> ''card.answer'' | _ \<Rightarrow> ''card.custom'') (Some True) \<in> set (cw_log w)"
  shows "closes (andThen (set_accepted False) (\<lambda>_. attempt (calling (\<lambda>t. CardRan intent (ct_card t \<noteq> None)) ct_card) (\<lambda>r. case r of
         None \<Rightarrow> settle_claim cl
       | Some got \<Rightarrow> andThen (set_accepted True) (\<lambda>_. andThen (bindingGenerationCurrent g) (\<lambda>ok.
           if \<not> ok then andThen (admitOnly message cl g True) (\<lambda>_. ret ())
           else andThen time (\<lambda>now. (let (update, result) = card_update_of url (i_cardId m) now
                    (if validCardResult url got (i_cardId m) then got else unsupported_card_result)
                  in announce_card message c m cl g update result))))))) o' w"
  unfolding wp_andThen [of "set_accepted False"] wp_set_accepted wp_attempt
proof (rule wp_calling)
  let ?w = "w\<lparr>cw_accepted := False\<rparr>"
  fix t w' got assume f: "follows ?w [CardRan intent (ct_card t \<noteq> None)] w'" "ct_card t = Some got"
  hence "open_log (cw_log w')" using card_open [of ?w intent w'] assms by simp
  thus "closes (case Some got of None \<Rightarrow> settle_claim cl
       | Some got \<Rightarrow> andThen (set_accepted True) (\<lambda>_. andThen (bindingGenerationCurrent g) (\<lambda>ok.
           if \<not> ok then andThen (admitOnly message cl g True) (\<lambda>_. ret ())
           else andThen time (\<lambda>now. (let (update, result) = card_update_of url (i_cardId m) now
                    (if validCardResult url got (i_cardId m) then got else unsupported_card_result)
                  in announce_card message c m cl g update result))))) o' w'"
    by (auto intro!: wp_admitOnly closes_announce split: prod.split)
next
  let ?w = "w\<lparr>cw_accepted := False\<rparr>"
  fix t w' assume f: "follows ?w [CardRan intent (ct_card t \<noteq> None)] w'" "ct_card t = None"
  hence "clean_log (cw_log w')" using card_clean [of ?w intent w'] assms by simp
  thus "closes (case None of None \<Rightarrow> settle_claim cl
       | Some got \<Rightarrow> andThen (set_accepted True) (\<lambda>_. andThen (bindingGenerationCurrent g) (\<lambda>ok.
           if \<not> ok then andThen (admitOnly message cl g True) (\<lambda>_. ret ())
           else andThen time (\<lambda>now. (let (update, result) = card_update_of url (i_cardId m) now
                    (if validCardResult url got (i_cardId m) then got else unsupported_card_result)
                  in announce_card message c m cl g update result))))) o' w'"
    by (simp add: closes_settle fails_clean)
qed

lemma closes_card_intent:
  assumes "clean_log (cw_log w)"
  shows "closes (run_card_intent url message c m intent cl g) o' w"
proof -
  let ?scope = "case intent of AnswerIntent q a \<Rightarrow> ''card.answer'' | _ \<Rightarrow> ''card.custom''"
  have after: "closes (andThen (bindingGenerationCurrent g) (\<lambda>ok. if \<not> ok then releasing cl
     else if \<not> b then andThen time (\<lambda>now. finishRead message cl (command_response c
            (cardCommandResult (i_requestId m) (js ''error'') (js ''unsupported_action'') (js ''unsupported_action'') now)) g)
     else andThen (set_accepted False) (\<lambda>_. attempt (calling (\<lambda>t. CardRan intent (ct_card t \<noteq> None)) ct_card) (\<lambda>r. case r of
         None \<Rightarrow> settle_claim cl
       | Some got \<Rightarrow> andThen (set_accepted True) (\<lambda>_. andThen (bindingGenerationCurrent g) (\<lambda>ok.
           if \<not> ok then andThen (admitOnly message cl g True) (\<lambda>_. ret ())
           else andThen time (\<lambda>now. (let (update, result) = card_update_of url (i_cardId m) now
                    (if validCardResult url got (i_cardId m) then got else unsupported_card_result)
                  in announce_card message c m cl g update result)))))))) o' w'"
    if "clean_log (cw_log w')" "b \<Longrightarrow> Authorized ?scope (Some True) \<in> set (cw_log w')" for w' b
  proof -
    have 1: "closes (releasing cl) o' w'" by (rule wp_releasing) (blast intro: log_moves that)
    have 2: "closes (andThen time (\<lambda>now. finishRead message cl (command_response c
            (cardCommandResult (i_requestId m) (js ''error'') (js ''unsupported_action'') (js ''unsupported_action'') now)) g)) o' w'"
      by (simp add: wp_finishRead that)
    show ?thesis unfolding wp_andThen [of "bindingGenerationCurrent g"] wp_current
      by (intro wp_ifI; (rule 1 | rule 2 | rule closes_card_call)) (use that in auto)
  qed
  show ?thesis unfolding run_card_intent_def wp_andThen [of "caught False (authorize ?scope)"] wp_caught
    by (rule wp_authorize; rule after) (use assms in \<open>auto simp: follows_in intro: authorized_clean\<close>)
qed

lemma closes_refusal:
  assumes "clean_log (cw_log w)" "routeCardAction raw = CardActions.Refused m code"
  shows "closes (andThen (refusal_response c raw m code) (\<lambda>response. finishRead message cl response g)) o' w"
proof -
  let ?now = "time_of (ct_clock (o' (cw_step w)))"
  have "\<exists>ob. buildUnsupportedApprovalResult raw ?now = Some ob" if "code = UnsupportedApproval"
    using refused_approval [of raw m ?now] assms(2) safe_time that by auto
  thus ?thesis using assms(1) by (auto simp: refusal_response_def intro!: wp_finishRead split: option.split)
qed

lemma closes_card:
  assumes "cw_log w = []"
  shows "closes (runCardAction url message c raw (routeCardAction raw)) o' w"
  unfolding runCardAction_def
proof (rule closes_claimed [OF assms])
  fix g cl and w' :: command_world assume c: "clean_log (cw_log w')"
  have only: "closes (andThen (admitOnly message cl g False) (\<lambda>_. ret ())) o' w'" using c by (auto intro!: wp_admitOnly)
  show "closes (case routeCardAction raw of
     CardActions.Refused m code \<Rightarrow> andThen (refusal_response c raw m code) (\<lambda>response. finishRead message cl response g)
   | Routed m NoIntent \<Rightarrow> andThen (admitOnly message cl g False) (\<lambda>_. ret ())
   | Routed m (NavigateIntent target) \<Rightarrow> andThen (admitOnly message cl g False) (\<lambda>_. ret ())
   | Routed m (CommandIntent name argument) \<Rightarrow> runSlashClaimed message c name (case argument of None \<Rightarrow> [] | Some a \<Rightarrow> a) cl g
   | Routed m (SessionIntent op sid) \<Rightarrow> runSlashClaimed message c (if op = js ''switch'' then ''/switch'' else ''/delete'') sid cl g
   | Routed m intent \<Rightarrow> run_card_intent url message c m intent cl g) o' w'"
  proof (cases "routeCardAction raw")
    case (Routed m intent)
    thus ?thesis using only closes_slash [OF c] closes_card_intent [OF c] by (cases intent) (simp_all del: wp_andThen)
  next
    case (Refused m code)
    thus ?thesis using closes_refusal [OF c Refused] by (simp del: wp_andThen)
  qed
qed

lemma closes_command: "cw_log w = [] \<Longrightarrow> closes (run_local url message c command) o' w"
  by (cases command) (simp_all add: closes_slash_command closes_stop closes_local closes_invite closes_card)

lemma command_log:
  assumes "cw_log w = []"
  shows "fst (run_local url message c command o' w) \<noteq> None" "closed_log (cw_log (snd (run_local url message c command o' w)))"
  using closes_command [OF assms, of url message c command o'] by (auto simp: wp_def split: option.splits prod.splits)

subsection \<open>The properties\<close>


text \<open>C33 The effects of a command come in order, however the awaits interleave with a disposal of the binding:
  nothing is changed before the message is claimed, a receipt is sent only after a successful admission, a claim
  is never released once something has been changed, and no message is sent and no task awaited between a change
  and the end of the claim, so that a repeated delivery cannot carry the command out again.\<close>

theorem command_effects_come_in_order:
  assumes "cw_log w = []" "l = cw_log (snd (run_local url message c command o' w))"
  shows "precedes is_claim changes l \<and> precedes (\<lambda>e. e = AdmitTried True) is_receipt l
    \<and> excludes changes (\<lambda>e. e = ReleaseTried) l \<and> excludes settles changes l \<and> defers changes settles is_message l
    \<and> defers is_claim settles (\<lambda>e. e = TaskAwaited) l"
  using command_log(2) [OF assms(1), of url message c command o'] assms(2)
  by (auto simp: closed_log_def orderly_def precedes_def)

text \<open>C35 Nothing that needs a permission happens without it: a device is only changed after the permission to
  change it was granted in the same handling, its status is only asked for with the permission to read it, and
  an answer or a custom action of a card only runs with the permission of its kind.\<close>

theorem privileged_effects_are_authorized:
  assumes "cw_log w = []" "l = cw_log (snd (run_local url message c command o' w))"
    "i < length l" "needs (l ! i) = Some scope"
  shows "\<exists>j < i. l ! j = Authorized scope (Some True)"
  using command_log(2) [OF assms(1), of url message c command o'] assms(2-4)
  by (auto simp: closed_log_def permitted_def precedes_def)

subsection \<open>Repeated messages\<close>

lemma repeated_claim:
  assumes "ready (cw_store w)" "e \<in> set (dedup (memory (cw_store w)))" "admitted_at e t" "Dedup.entry_ok e"
    "d_runtimeId e = c_runtimeId c" "d_messageUid e = nm_messageUid message"
    "list_all (\<lambda>ev. event_clock ev < t + DEDUP_TTL_MS) (ct_before (o' (cw_step w)))" "ct_now (o' (cw_step w)) < t + DEDUP_TTL_MS"
    "cw_log w = []"
  shows "wp (claimLocal message c g) (\<lambda>r w'. r = None \<and> (\<forall>x \<in> set (cw_log w'). is_message x)) (\<lambda>_. False) o' w"
proof -
  let ?t = "o' (cw_step w)"
  let ?s = "run_steps store_step (cw_store w) (ct_before ?t)"
  have k: "ready ?s \<and> e \<in> set (dedup (memory ?s))" using run_keeps_admitted assms(1-3,7) by blast
  have no: "fst (mutate ?s (ct_now ?t) (ct_write ?t) (claimMessage (c_runtimeId c) (nm_messageUid message) cid)) \<noteq> Inr (CClaimed k i)" for cid k i
    using live_claim_refused [of ?s e "ct_now ?t"] k admitted_live [OF assms(3,8)] assms(4-6) by metis
  have claim: "wp (storing (\<lambda>r. case r of CClaimed k i \<Rightarrow> [Claim k i] | CDuplicate k \<Rightarrow> []) (claimMessage (c_runtimeId c) (nm_messageUid message) cid))
      (\<lambda>r w'. (\<exists>k. r = CDuplicate k) \<and> cw_log w' = []) (\<lambda>w'. cw_log w' = []) o' w" for cid
    using no [of cid] assms(9) by (auto simp: wp_def storing_def waiting_def Let_def split: sum.split prod.split claim_result.split; blast)
  show ?thesis unfolding claimLocal_def claimId_def
    by (auto split: option.split intro!: wp_mono [OF claim] wp_safeSendText simp: assms(9) follows_log)
qed

text \<open>C36 A message that was admitted is not handled again while it is remembered: whatever command it carries and
  whatever others do to the store meanwhile, a repeated delivery has no effect but perhaps a notice that the
  store could not be asked.\<close>

theorem repeated_command_has_no_effect:
  assumes "store_inv (cw_store w)" "ready (cw_store w)" "e \<in> set (dedup (memory (cw_store w)))" "admitted_at e t"
    "d_runtimeId e = c_runtimeId c" "d_messageUid e = nm_messageUid message"
    "list_all (\<lambda>ev. event_clock ev < t + DEDUP_TTL_MS) (ct_before (o' (cw_step w)))" "ct_now (o' (cw_step w)) < t + DEDUP_TTL_MS"
    "cw_log w = []" "run_local url message c command o' w = (r, w')"
  shows "r = Some () \<and> (\<forall>x \<in> set (cw_log w'). is_message x)"
proof -
  have "Dedup.entry_ok e" using assms(1-3) valid_entry_ok by (auto simp: store_inv_def)
  note claim = repeated_claim [where o' = o' and w = w, OF assms(2-4) this assms(5-9)]
  have any: "wp (claimed message c body) (\<lambda>_ w'. \<forall>x \<in> set (cw_log w'). is_message x) (\<lambda>_. False) o' w" for body
    unfolding claimed_def bindingGeneration_def by simp (rule wp_mono [OF claim]; auto)
  have "wp (run_local url message c command) (\<lambda>_ w'. \<forall>x \<in> set (cw_log w'). is_message x) (\<lambda>_. False) o' w"
    by (cases command) (simp_all add: any runSlash_def runStop_def runLocalProtocol_def runChatroomInvite_def runCardAction_def)
  thus ?thesis using assms(10) by (cases r) (auto simp: wp_def)
qed

subsection \<open>A sample\<close>

text \<open>A stop of the task that runs in the conversation.\<close>

definition command_tick_sample :: "nat \<Rightarrow> command_tick" where
  "command_tick_sample n = \<lparr>ct_before = [], ct_generations = 0, ct_disposed = False, ct_routerDisposed = False,
     ct_now = (if n = 0 then 5 else 7), ct_write = Written, ct_clock = NInt 7,
     ct_random = Some [1, 35, 69, 103, 137, 171, 205, 239, 1, 35, 69, 103, 137, 171, 205, 239],
     ct_active = Some (bindingKey (js rt_sample) (js ''n1''), js ''t1''), ct_bound = Some (Some (js rt_sample, js ''n1'')),
     ct_authorized = Some True, ct_status = None, ct_device = None, ct_card = None, ct_workdir = None, ct_started = None, ct_done = True\<rparr>"

definition stop_message :: normalized where
  "stop_message = \<lparr>nm_messageUid = js ''m1'', nm_senderId = js ''u'', nm_targetId = js ''t'', nm_conversationType = Private,
     nm_objectName = js ''RC:TxtMsg'', nm_text = Some (js ''/stop''), nm_attachments = [], nm_rawContent = None,
     nm_sentTime = None, nm_offline = None, nm_direction = None\<rparr>"

definition command_world_sample :: "dedup_entry list \<Rightarrow> command_world" where
  "command_world_sample ds = \<lparr>cw_store = store_sample [entry_sample] ds, cw_step = 0, cw_generation = 0,
     cw_disposed = False, cw_routerDisposed = False, cw_accepted = False, cw_log = []\<rparr>"

lemma fresh_world_sample: "cw_log (command_world_sample ds) = []"
  by (simp add: command_world_sample_def)

lemma random_sample: "hex_text [1, 35, 69, 103, 137, 171, 205, 239, 1, 35, 69, 103, 137, 171, 205, 239] = js claim_sample"
  by (simp add: hex_text_def hex_digit_def claim_sample_def js_def cu_def)

lemma dedup_sample_schema: "DedupEntrySchema dedup_sample"
  by (rule dedup_sample_ok)

lemma claim_dedup_sample: "claimDedup [] (js rt_sample) (js ''m1'') (js claim_sample) 5
    = Inr (TClaimed (dedupKey (js rt_sample) (js ''m1'')) (js claim_sample) [dedup_sample])"
  using dedup_sample_schema
  by (simp add: claimDedup_def Let_def dedup_sample_def pruneDedup_def MAX_DEDUP_PER_RUNTIME_def MAX_DEDUP_ENTRIES_def)

lemma claimed_sample:
  "mutate (store_sample [entry_sample] []) 5 Written (claimMessage (js rt_sample) (js ''m1'') (js claim_sample))
   = (Inr (CClaimed (dedupKey (js rt_sample) (js ''m1'')) (js claim_sample)), store_sample [entry_sample] [dedup_sample])"
proof -
  have "pruneDedup [] 5 = []" by (simp add: pruneDedup_def)
  thus ?thesis
    by (simp add: mutate_def timestamp_ok_def max_safe_def claimMessage_def claim_dedup_sample validateState_def store_sample_def Let_def)
qed

lemma stop_sample:
  "run_local url stop_message conv_sample StopCommand command_tick_sample (command_world_sample [])
   = (Some (), (command_world_sample [admitted_sample])\<lparr>cw_step := 7, cw_log :=
       [Claim (dedupKey (js rt_sample) (js ''m1'')) (js claim_sample), TaskCancelled (js ''t1'') True, AdmitTried True,
        Sent (textResponse conv_sample (js ''[stop_requested]'')) True, Receipted (receipt stop_message (js ''m1'')), TaskAwaited]\<rparr>)"
proof -
  have c: "c_runtimeId conv_sample = js rt_sample" "c_nodeId conv_sample = js ''n1''" "nm_messageUid stop_message = js ''m1''"
    by (simp_all add: conv_sample_def stop_message_def)
  note acts = claimed_def bindingGeneration_def andThen_def reading_world_def claimLocal_def claimId_def looking_def ret_def
    attempt_def storing_def waiting_def bindingGenerationCurrent_def asking_def active_task_def cancel_active_def calling_def
    done_or_rejected_def finishMutation_def admitting_def caught_def sending_def sendReceipt_def task_done_def throw_def
  show ?thesis
    by (simp add: runStop_def acts Let_def command_world_sample_def command_tick_sample_def c claimed_sample random_sample admit_sample)
qed

text \<open>A request to start the runtime again.\<close>

definition recover_sample :: jobj where
  "recover_sample = [(js ''msg_type'', JLit ''device_control''), (js ''command'', JLit ''recover_runtime''), (js ''request_id'', JLit ''r1'')]"

definition recover_tick_sample :: "nat \<Rightarrow> command_tick" where
  "recover_tick_sample n = (command_tick_sample n)\<lparr>ct_device :=
     Some \<lparr>dr_status = js ''success'', dr_code = js ''ok'', dr_message = js ''ok'', dr_data = None\<rparr>\<rparr>"

lemma recover_log_sample:
  "\<exists>m. cw_log (snd (run_local url stop_message conv_sample (LocalMessage DeviceControl recover_sample)
       recover_tick_sample (command_world_sample [])))
   = [Claim (dedupKey (js rt_sample) (js ''m1'')) (js claim_sample), Authorized ''device.mutate'' (Some True),
      DeviceRan (js ''recover_runtime'') None True, AdmitTried True, Sent m True, Receipted (receipt stop_message (js ''m1''))]"
proof -
  have c: "c_runtimeId conv_sample = js rt_sample" "c_nodeId conv_sample = js ''n1''" "nm_messageUid stop_message = js ''m1''"
    by (simp_all add: conv_sample_def stop_message_def)
  have v: "str_field recover_sample ''command'' = js ''recover_runtime''" "text_of_field recover_sample ''request_id'' = Some (js ''r1'')"
    by (simp_all add: recover_sample_def str_field_def text_of_field_def)
  note acts = claimed_def bindingGeneration_def andThen_def reading_world_def claimLocal_def claimId_def looking_def ret_def
    attempt_def storing_def waiting_def bindingGenerationCurrent_def asking_def authorize_def calling_def catching_def set_accepted_def
    done_or_rejected_def finishMutation_def admitting_def caught_def sending_def sendReceipt_def throw_def device_name_def
  show ?thesis
    by (simp add: runLocalProtocol_def run_device_control_def answer_device_def device_envelope_def device_scope_def acts Let_def
        command_world_sample_def recover_tick_sample_def command_tick_sample_def c v claimed_sample random_sample admit_sample)
qed


lemma command_effects_come_in_order_witness:
  "precedes is_claim changes [Claim (dedupKey (js rt_sample) (js ''m1'')) (js claim_sample), TaskCancelled (js ''t1'') True, AdmitTried True,
        Sent (textResponse conv_sample (js ''[stop_requested]'')) True, Receipted (receipt stop_message (js ''m1'')), TaskAwaited]"
  using command_effects_come_in_order [OF fresh_world_sample [of "[]"] refl, of undefined stop_message conv_sample StopCommand command_tick_sample]
  by (simp add: stop_sample del: run_local.simps)

lemma privileged_effects_are_authorized_witness:
  "\<forall>url. \<exists>j < 2. cw_log (snd (run_local url stop_message conv_sample (LocalMessage DeviceControl recover_sample)
       recover_tick_sample (command_world_sample []))) ! j = Authorized ''device.mutate'' (Some True)"
proof (rule allI, rule privileged_effects_are_authorized [OF _ refl])
  show "cw_log (command_world_sample []) = []" by (rule fresh_world_sample)
qed (use recover_log_sample in \<open>auto simp: device_scope_def\<close>)

lemma repeated_command_has_no_effect_witness:
  "\<forall>url. list_all is_message (cw_log (snd (run_local url stop_message conv_sample StopCommand command_tick_sample (command_world_sample [admitted_sample]))))"
proof
  fix url
  obtain r w' where run: "run_local url stop_message conv_sample StopCommand command_tick_sample (command_world_sample [admitted_sample]) = (r, w')"
    by force
  have "r = Some () \<and> (\<forall>x \<in> set (cw_log w'). is_message x)"
  proof (rule repeated_command_has_no_effect [OF _ _ _ _ _ _ _ _ _ run, of admitted_sample 7])
    show "store_inv (cw_store (command_world_sample [admitted_sample]))" by (simp add: command_world_sample_def validState_store)
  qed (simp_all add: command_world_sample_def admitted_sample_def admitted_at_def dedup_sample_def conv_sample_def stop_message_def
      command_tick_sample_def DEDUP_TTL_MS_def)
  thus "list_all is_message (cw_log (snd (run_local url stop_message conv_sample StopCommand command_tick_sample (command_world_sample [admitted_sample]))))"
    by (simp add: run list_all_iff del: run_local.simps)
qed

end
