(* ===== verification/PlainProofs.thy ===== *)
theory PlainProofs imports PlainRouter CommandTheorems begin

text \<open>
  The handling of a message that is a task: what is started, admitted, cancelled and released, in which order.
\<close>

fun starts :: "effect \<Rightarrow> bool" where
  "starts (TaskStarted i ok) = True"
| "starts _ = False"

fun started :: "effect \<Rightarrow> bool" where
  "started (TaskStarted i ok) = ok"
| "started _ = False"

fun cancels :: "effect \<Rightarrow> bool" where
  "cancels (TaskCancelled task ok) = True"
| "cancels _ = False"

fun registers :: "effect \<Rightarrow> bool" where
  "registers (TaskRegistered task) = True"
| "registers _ = False"

fun forgets :: "effect \<Rightarrow> bool" where
  "forgets (TaskForgotten task) = True"
| "forgets _ = False"

text \<open>What only an admitted message gets: the receipt, the first snapshot, the events of the task.\<close>

fun follows_admission :: "effect \<Rightarrow> bool" where
  "follows_admission (Receipted r) = True"
| "follows_admission (SnapshotQueued task) = True"
| "follows_admission (TaskConsumed task) = True"
| "follows_admission _ = False"

definition plain_order :: "effect list \<Rightarrow> bool" where
  "plain_order l \<longleftrightarrow> precedes is_claim (\<lambda>e. starts e \<or> settles e) l \<and> precedes (\<lambda>e. e = AdmitTried True) follows_admission l
     \<and> excludes started (\<lambda>e. e = ReleaseTried) l \<and> precedes started (\<lambda>e. registers e \<or> (\<exists>b. e = AdmitTried b)) l
     \<and> length (filter starts l) \<le> 1 \<and> length (filter settles l) \<le> 1 \<and> length (filter is_claim l) \<le> 1"

text \<open>Nothing has been done; the message is claimed; its task was started; the task is registered.\<close>

definition plain_open :: "effect list \<Rightarrow> bool" where
  "plain_open l \<longleftrightarrow> plain_order l \<and> list_ex is_claim l \<and> \<not> list_ex starts l \<and> \<not> list_ex settles l \<and> \<not> list_ex registers l"

definition plain_failed_log :: "effect list \<Rightarrow> bool" where
  "plain_failed_log l \<longleftrightarrow> plain_order l \<and> list_ex is_claim l \<and> \<not> list_ex started l \<and> \<not> list_ex settles l \<and> \<not> list_ex registers l"

definition plain_started :: "effect list \<Rightarrow> bool" where
  "plain_started l \<longleftrightarrow> plain_order l \<and> list_ex is_claim l \<and> list_ex started l \<and> \<not> list_ex settles l \<and> \<not> list_ex registers l"

definition plain_registered :: "effect list \<Rightarrow> bool" where
  "plain_registered l \<longleftrightarrow> plain_order l \<and> list_ex is_claim l \<and> list_ex started l \<and> \<not> list_ex settles l"

definition plain_admitted :: "effect list \<Rightarrow> bool" where
  "plain_admitted l \<longleftrightarrow> plain_order l \<and> list_ex is_claim l \<and> list_ex started l \<and> AdmitTried True \<in> set l"

text \<open>The end: a task that was started belongs to an admitted message or is cancelled, a claim without a task is
  released, and a task that was registered is forgotten.\<close>

definition plain_done :: "effect list \<Rightarrow> bool" where
  "plain_done l \<longleftrightarrow> plain_order l
     \<and> (list_ex started l \<longrightarrow> AdmitTried True \<in> set l \<or> list_ex cancels l)
     \<and> (list_ex is_claim l \<and> \<not> list_ex started l \<longrightarrow> ReleaseTried \<in> set l)
     \<and> (list_ex registers l \<longrightarrow> list_ex forgets l)"

lemmas plain_defs = plain_order_def plain_open_def plain_failed_log_def plain_started_def plain_registered_def
  plain_admitted_def plain_done_def

lemma plain_starts: "plain_done []" "plain_open [Claim k i]"
  by (auto simp: plain_defs precedes_def excludes_def)

lemma filter_none: "\<not> list_ex p l \<Longrightarrow> filter p l = []"
  by (simp add: settles_none)

subsection \<open>Steps\<close>

lemma plain_joined [simp]: "plain_open (l @ [RoomJoined room b]) = plain_open l"
  by (auto simp: plain_defs)

lemma not_started: "\<not> list_ex starts l \<Longrightarrow> \<not> list_ex started l"
proof -
  have "started e \<Longrightarrow> starts e" for e by (cases e) auto
  thus "\<not> list_ex starts l \<Longrightarrow> \<not> list_ex started l" by (auto simp: list_ex_iff)
qed

lemma plain_start_step: "plain_open l \<Longrightarrow> plain_started (l @ [TaskStarted i True])"
    "plain_open l \<Longrightarrow> plain_failed_log (l @ [TaskStarted i False])"
  by (auto simp: plain_defs filter_none not_started)

lemma plain_open_fails: "plain_open l \<Longrightarrow> plain_failed_log l"
  using not_started [of l] by (auto simp: plain_open_def plain_failed_log_def)

lemma plain_release_step: "plain_failed_log l \<Longrightarrow> plain_done (l @ [ReleaseTried])"
  by (auto simp: plain_defs filter_none)

lemma plain_cancel_step: "plain_started l \<Longrightarrow> plain_done (l @ [TaskCancelled task b])"
  by (auto simp: plain_defs)

lemma plain_register_step: "plain_started l \<Longrightarrow> plain_registered (l @ [TaskRegistered task])"
  by (auto simp: plain_defs)

lemma plain_admit_step: "plain_registered l \<Longrightarrow> plain_admitted (l @ [AdmitTried True])"
  by (auto simp: plain_defs filter_none)

lemma plain_refused_step: "plain_registered l \<Longrightarrow> plain_done (l @ [AdmitTried False, TaskForgotten t, TaskCancelled t' b])"
proof -
  have "l @ [AdmitTried False, TaskForgotten t, TaskCancelled t' b] = ((l @ [AdmitTried False]) @ [TaskForgotten t]) @ [TaskCancelled t' b]"
    by simp
  moreover assume "plain_registered l"
  ultimately show ?thesis by (simp only:) (auto simp: plain_defs filter_none simp del: append_assoc)
qed

lemma plain_after_step: "plain_admitted l \<Longrightarrow> follows_admission e \<Longrightarrow> plain_admitted (l @ [e])"
  by (cases e) (auto simp: plain_defs list_ex_iff)

lemma plain_give_up_step: "plain_admitted l \<Longrightarrow> plain_done ((l @ [TaskForgotten t]) @ [DoneResolved t])"
  by (auto simp: plain_defs simp del: append_assoc)

lemma plain_sent [simp]: "plain_done (l @ [Sent m b]) = plain_done l"
  by (auto simp: plain_defs)

subsection \<open>Acts\<close>

lemma wp_noting:
  assumes "\<And>w'. follows w [e] w' \<Longrightarrow> Q () w'"
  shows "wp (noting e) Q E o' w"
proof -
  have "follows w [e] (w\<lparr>cw_log := cw_log w @ [e]\<rparr>)" unfolding follows_def by simp
  from assms [OF this] show ?thesis by (simp add: wp_def noting_def)
qed

lemma wp_require [simp]: "wp (requireBindingGeneration g) Q E o' w
    \<longleftrightarrow> (if \<not> cw_routerDisposed w \<and> \<not> cw_disposed w \<and> cw_generation w = g then Q () w else E w)"
  by (simp add: requireBindingGeneration_def)

lemma wp_require_bound [simp]: "wp (require_bound c bound) Q E o' w
    \<longleftrightarrow> (if bound \<noteq> Some (c_runtimeId c, c_nodeId c) \<or> cw_disposed w then E w else Q () w)"
  by (simp add: require_bound_def)

text \<open>What a phase of the log allows, as rules on worlds.\<close>

lemma same_log: "follows w [] w' \<Longrightarrow> plain_open (cw_log w) \<Longrightarrow> plain_open (cw_log w')"
  by simp

lemma joined_log: "follows w [RoomJoined room b] w' \<Longrightarrow> plain_open (cw_log w) \<Longrightarrow> plain_open (cw_log w')"
  by (simp add: follows_log)

lemma start_log: "follows w [TaskStarted i True] w' \<Longrightarrow> plain_open (cw_log w) \<Longrightarrow> plain_started (cw_log w')"
    "follows w [TaskStarted i False] w' \<Longrightarrow> plain_open (cw_log w) \<Longrightarrow> plain_failed_log (cw_log w')"
  by (simp_all add: follows_log plain_start_step)

lemma wp_startLegacyTask:
  assumes "plain_open (cw_log w)" "\<And>w' task. plain_started (cw_log w') \<Longrightarrow> Q task w'" "\<And>w'. plain_failed_log (cw_log w') \<Longrightarrow> E w'"
  shows "wp (startLegacyTask c message v i) Q E o' w"
  unfolding startLegacyTask_def legacyWorkIsInteractive_def wp_andThen
proof (rule wp_store_reading)
  fix w' b assume f: "follows w [] w'"
  hence w': "plain_open (cw_log w')" using assms(1) by simp
  have "wp (calling (\<lambda>t. TaskStarted i (ct_started t \<noteq> None)) ct_started) Q E o' w'"
    by (rule wp_calling) (use w' start_log assms(2,3) in fastforce)+
  thus "wp (if b then throw else calling (\<lambda>t. TaskStarted i (ct_started t \<noteq> None)) ct_started) Q E o' w'"
    using assms(3) [OF plain_open_fails [OF w']] by simp
qed (use assms(1,3) plain_open_fails in auto)

lemma wp_plain_start:
  assumes "plain_open (cw_log w)" "\<And>w' task. plain_started (cw_log w') \<Longrightarrow> Q task w'" "\<And>w'. plain_failed_log (cw_log w') \<Longrightarrow> E w'"
  shows "wp (plain_start message k g) Q E o' w"
  unfolding plain_start_def Let_def recheckBinding_def using assms(1)
  by (auto intro!: wp_asking wp_calling wp_store_reading wp_startLegacyTask assms(2,3) plain_open_fails split: option.split
      simp: done_or_rejected_def; blast intro: same_log joined_log)

lemma cancel_log: "follows w [TaskCancelled task b] w' \<Longrightarrow> plain_started (cw_log w) \<Longrightarrow> plain_done (cw_log w')"
  by (simp add: follows_log plain_cancel_step)

lemma register_log: "follows w [TaskRegistered task] w' \<Longrightarrow> plain_started (cw_log w) \<Longrightarrow> plain_registered (cw_log w')"
  by (simp add: follows_log plain_register_step)

lemma admit_log: "follows w [AdmitTried True] w' \<Longrightarrow> plain_registered (cw_log w) \<Longrightarrow> plain_admitted (cw_log w')"
  by (simp add: follows_log plain_admit_step)

lemma refused_log:
  assumes "follows w [AdmitTried False] w1" "follows w1 [TaskForgotten t] w2" "follows w2 [TaskCancelled t' b] w3" "plain_registered (cw_log w)"
  shows "plain_done (cw_log w3)"
  using plain_refused_step [OF assms(4)] by (simp add: follows_log [OF assms(1)] follows_log [OF assms(2)] follows_log [OF assms(3)])

lemma after_log: "follows w [e] w' \<Longrightarrow> plain_admitted (cw_log w) \<Longrightarrow> follows_admission e \<Longrightarrow> plain_admitted (cw_log w')"
  by (simp add: follows_log plain_after_step)

lemma release_log: "follows w [ReleaseTried] w' \<Longrightarrow> plain_failed_log (cw_log w) \<Longrightarrow> plain_done (cw_log w')"
  by (simp add: follows_log plain_release_step)

lemma sent_log: "follows w [Sent m b] w' \<Longrightarrow> plain_done (cw_log w) \<Longrightarrow> plain_done (cw_log w')"
  by (simp add: follows_log)

abbreviation finishes :: "unit handling \<Rightarrow> command_answers \<Rightarrow> command_world \<Rightarrow> bool" where
  "finishes a o' w \<equiv> wp a (\<lambda>_ w'. plain_done (cw_log w')) (\<lambda>_. False) o' w"

lemma finishes_give_up: "plain_admitted (cw_log w) \<Longrightarrow> finishes (give_up task) o' w"
  unfolding give_up_def wp_andThen
proof (rule wp_noting, rule wp_noting)
  fix w1 w2 assume "plain_admitted (cw_log w)" "follows w [TaskForgotten task] w1" "follows w1 [DoneResolved task] w2"
  thus "plain_done (cw_log w2)" using plain_give_up_step [of "cw_log w" task] by (simp only: follows_log)
qed

lemma finishes_consuming:
  assumes "plain_admitted (cw_log w)"
  shows "finishes (consuming task) o' w"
  unfolding consuming_def wp_andThen
  by (rule wp_calling) (use assms in \<open>auto intro!: finishes_give_up intro: after_log\<close>)

lemma finishes_failed: "plain_done (cw_log w) \<Longrightarrow> finishes (plain_failed k g notice) o' w"
  unfolding plain_failed_def by (auto intro!: wp_safeSendText intro: sent_log)

lemma wp_cancel_caught:
  assumes "\<And>w' b. follows w [TaskCancelled task b] w' \<Longrightarrow> Q () w'"
  shows "wp (caught () (cancel_active task)) Q E o' w"
  unfolding wp_caught by (rule wp_cancel_active; rule assms)

lemma wp_receipt_caught:
  assumes "\<And>w'. follows w [Receipted r] w' \<Longrightarrow> Q () w'"
  shows "wp (caught () (calling (\<lambda>t. Receipted r) done_or_rejected)) Q E o' w"
  unfolding wp_caught by (rule wp_calling) (auto simp: done_or_rejected_def assms split: if_splits)

lemma finishes_run:
  assumes "plain_started (cw_log w)"
  shows "finishes (plain_run message k claim g task) o' w"
proof -
  have snapshot: "finishes (andThen (calling (\<lambda>t. SnapshotQueued task) (\<lambda>t. Some ())) (\<lambda>_.
       andThen (bindingGenerationCurrent g) (\<lambda>ok. if \<not> ok then give_up task else consuming task))) o' w1"
    if "plain_admitted (cw_log w1)" for w1
    unfolding wp_andThen by (rule wp_calling) (use that in \<open>auto intro!: finishes_give_up finishes_consuming intro: after_log\<close>)
  have receipt: "finishes (andThen (caught () (calling (\<lambda>t. Receipted r) done_or_rejected)) (\<lambda>_.
       andThen (bindingGenerationCurrent g) (\<lambda>ok. if \<not> ok then give_up task
       else andThen (calling (\<lambda>t. SnapshotQueued task) (\<lambda>t. Some ())) (\<lambda>_.
       andThen (bindingGenerationCurrent g) (\<lambda>ok. if \<not> ok then give_up task else consuming task))))) o' w1"
    if "plain_admitted (cw_log w1)" for w1 r
    unfolding wp_andThen [of "caught () (calling (\<lambda>t. Receipted r) done_or_rejected)"]
  proof (rule wp_receipt_caught)
    fix w2 assume "follows w1 [Receipted r] w2"
    hence "plain_admitted (cw_log w2)" using that after_log by fastforce
    thus "finishes (andThen (bindingGenerationCurrent g) (\<lambda>ok. if \<not> ok then give_up task
       else andThen (calling (\<lambda>t. SnapshotQueued task) (\<lambda>t. Some ())) (\<lambda>_.
       andThen (bindingGenerationCurrent g) (\<lambda>ok. if \<not> ok then give_up task else consuming task)))) o' w2"
      using snapshot finishes_give_up unfolding wp_andThen [of "bindingGenerationCurrent g"] wp_current
      by (intro wp_ifI; simp del: wp_andThen)
  qed
  have refused: "finishes (andThen (noting (TaskForgotten task)) (\<lambda>_. caught () (cancel_active task))) o' w2"
    if "follows w1 [AdmitTried False] w2" "plain_registered (cw_log w1)" for w1 w2
    unfolding wp_andThen by (rule wp_noting, rule wp_cancel_caught) (rule refused_log [OF that(1) _ _ that(2)])
  have admitted: "finishes (andThen (bindingGenerationCurrent g) (\<lambda>ok. if \<not> ok then give_up task
       else andThen (caught () (calling (\<lambda>t. Receipted r) done_or_rejected)) (\<lambda>_.
       andThen (bindingGenerationCurrent g) (\<lambda>ok. if \<not> ok then give_up task
       else andThen (calling (\<lambda>t. SnapshotQueued task) (\<lambda>t. Some ())) (\<lambda>_.
       andThen (bindingGenerationCurrent g) (\<lambda>ok. if \<not> ok then give_up task else consuming task)))))) o' w2"
    if "follows w1 [AdmitTried True] w2" "plain_registered (cw_log w1)" for w1 w2 r
    using receipt [OF admit_log [OF that]] finishes_give_up [OF admit_log [OF that]]
    unfolding wp_andThen [of "bindingGenerationCurrent g"] wp_current by (intro wp_ifI; simp del: wp_andThen)
  have registered: "finishes (andThen (noting (TaskRegistered task)) (\<lambda>_. andThen (admitting claim) (\<lambda>admitted.
       if \<not> admitted then andThen (noting (TaskForgotten task)) (\<lambda>_. caught () (cancel_active task))
       else andThen (bindingGenerationCurrent g) (\<lambda>ok. if \<not> ok then give_up task
       else andThen (caught () (calling (\<lambda>t. Receipted r) done_or_rejected)) (\<lambda>_.
       andThen (bindingGenerationCurrent g) (\<lambda>ok. if \<not> ok then give_up task
       else andThen (calling (\<lambda>t. SnapshotQueued task) (\<lambda>t. Some ())) (\<lambda>_.
       andThen (bindingGenerationCurrent g) (\<lambda>ok. if \<not> ok then give_up task else consuming task)))))))) o' w" for r
    unfolding wp_andThen [of "noting (TaskRegistered task)"] wp_andThen [of "admitting claim"]
  proof (rule wp_noting, rule wp_admitting)
    fix w1 w2 b assume f: "follows w [TaskRegistered task] w1" "follows w1 [AdmitTried b] w2"
    have r: "plain_registered (cw_log w1)" using register_log [OF f(1) assms] .
    show "finishes (if \<not> b then andThen (noting (TaskForgotten task)) (\<lambda>_. caught () (cancel_active task))
       else andThen (bindingGenerationCurrent g) (\<lambda>ok. if \<not> ok then give_up task
       else andThen (caught () (calling (\<lambda>t. Receipted r) done_or_rejected)) (\<lambda>_.
       andThen (bindingGenerationCurrent g) (\<lambda>ok. if \<not> ok then give_up task
       else andThen (calling (\<lambda>t. SnapshotQueued task) (\<lambda>t. Some ())) (\<lambda>_.
       andThen (bindingGenerationCurrent g) (\<lambda>ok. if \<not> ok then give_up task else consuming task)))))) o' w2"
      using f(2) r by (cases b) (simp_all del: wp_andThen wp_current add: refused admitted)
  qed
  have cancelled: "finishes (caught () (cancel_active task)) o' w"
    by (rule wp_cancel_caught) (rule cancel_log [OF _ assms])
  show ?thesis unfolding plain_run_def wp_andThen [of "bindingGenerationCurrent g"] wp_current
    by (intro wp_ifI; (rule cancelled | rule registered))
qed

lemma finishes_claimed:
  assumes "plain_open (cw_log w)"
  shows "finishes (plain_claimed message k claim g) o' w"
  unfolding plain_claimed_def wp_attempt
proof (rule wp_plain_start [OF assms])
  fix w' :: command_world and task assume "plain_started (cw_log w')"
  thus "finishes (case Some task of None \<Rightarrow> andThen (releasing claim) (\<lambda>_. plain_failed k g ''[task_start_failed]'')
     | Some task \<Rightarrow> catching (plain_run message k claim g task) (plain_failed k g ''[runtime_transport_error]'')) o' w'"
    unfolding option.case catching_def wp_attempt by (intro wp_mono [OF finishes_run]) simp_all
next
  fix w' :: command_world assume "plain_failed_log (cw_log w')"
  thus "finishes (case None of None \<Rightarrow> andThen (releasing claim) (\<lambda>_. plain_failed k g ''[task_start_failed]'')
     | Some task \<Rightarrow> catching (plain_run message k claim g task) (plain_failed k g ''[runtime_transport_error]'')) o' w'"
    by (auto intro!: wp_releasing finishes_failed intro: release_log)
qed

lemma wp_claiming:
  assumes "\<And>w' e. follows w [] w' \<Longrightarrow> Q (Inl e) w'" "\<And>w' k. follows w [] w' \<Longrightarrow> Q (Inr (CDuplicate k)) w'"
    "\<And>w' k i. follows w [Claim k i] w' \<Longrightarrow> Q (Inr (CClaimed k i)) w'"
  shows "wp (claiming rt uid cid) Q E o' w"
  unfolding claiming_def
proof (rule wp_waiting)
  fix t w' assume f: "follows w [] w'"
  have "Q r (w'\<lparr>cw_store := s, cw_log := cw_log w' @ (case r of Inr (CClaimed k i) \<Rightarrow> [Claim k i] | _ \<Rightarrow> [])\<rparr>)" for r s
    by (cases r rule: sum.exhaust; (rename_tac x, case_tac x)?) (auto intro!: assms follows_step [OF f])
  thus "case (case mutate (cw_store w') (ct_now t) (ct_write t) (claimMessage rt uid cid) of
     (r, s) \<Rightarrow> (Some r, w'\<lparr>cw_store := s, cw_log := cw_log w' @ (case r of Inr (CClaimed k i) \<Rightarrow> [Claim k i] | _ \<Rightarrow> [])\<rparr>)) of
      (Some v, w2) \<Rightarrow> Q v w2 | (None, w2) \<Rightarrow> E w2"
    by (simp split: prod.split)
qed

lemma claim_log: "follows w [Claim k i] w' \<Longrightarrow> cw_log w = [] \<Longrightarrow> plain_open (cw_log w')"
  by (simp add: follows_log plain_starts)

lemma fresh_done: "cw_log w = [] \<Longrightarrow> plain_done (cw_log w)"
  by (simp add: plain_starts)

lemma same_done: "follows w [] w' \<Longrightarrow> plain_done (cw_log w) \<Longrightarrow> plain_done (cw_log w')"
  by simp

lemma finishes_plain:
  assumes "cw_log w = []"
  shows "finishes (runPlain message k) o' w"
  unfolding runPlain_def Let_def bindingGeneration_def claimId_def using assms
  by (auto intro!: wp_claiming wp_safeSendText wp_releasing finishes_claimed split: option.split
      simp: plain_starts; blast intro: claim_log release_log plain_open_fails sent_log fresh_done same_done)

text \<open>C37 A message that is a task is handled once and completely, whatever fails and however the binding changes
  meanwhile: the handler comes to its end; at most one task is started, after the message was claimed; what is
  started belongs to an admitted message or is cancelled, and its claim is never released; a claim without a task
  is released; the receipt, the stream and the events come after the admission; and a task that was registered is
  taken out again.\<close>

theorem plain_message_is_handled_once:
  assumes "cw_log w = []" "runPlain message k o' w = (r, w')" "l = cw_log w'"
  shows "r = Some () \<and> length (filter starts l) \<le> 1 \<and> precedes is_claim starts l
    \<and> (list_ex started l \<longrightarrow> AdmitTried True \<in> set l \<or> list_ex cancels l) \<and> excludes started (\<lambda>e. e = ReleaseTried) l
    \<and> (list_ex is_claim l \<and> \<not> list_ex started l \<longrightarrow> ReleaseTried \<in> set l)
    \<and> precedes (\<lambda>e. e = AdmitTried True) follows_admission l \<and> (list_ex registers l \<longrightarrow> list_ex forgets l)"
proof -
  have "r = Some () \<and> plain_done l" using finishes_plain [OF assms(1), of message k o'] assms(2,3) by (cases r) (auto simp: wp_def)
  thus ?thesis by (auto simp: plain_done_def plain_order_def precedes_def)
qed

subsection \<open>A sample\<close>

definition plain_tick_sample :: "write_outcome \<Rightarrow> nat \<Rightarrow> command_tick" where
  "plain_tick_sample wr n = (command_tick_sample n)\<lparr>ct_workdir := Some (js ''/w''), ct_started := Some (js ''t1''),
     ct_write := (if n = 0 then Written else wr)\<rparr>"

definition candidate_sample :: task_candidate where
  "candidate_sample = \<lparr>tc_conversation = conv_sample, tc_prompt = js ''hello'', tc_effectiveMessageUid = js ''m1'', tc_joinRoom = None\<rparr>"

definition input_sample :: task_input where
  "input_sample = \<lparr>ti_runtimeId = js rt_sample, ti_conversationKey = conversationKey conv_sample, ti_prompt = js ''hello'',
     ti_workdir = js ''/w'', ti_resumeSessionId = Some (js ''s1'')\<rparr>"

lemma conversation_sample: "c_runtimeId conv_sample = js rt_sample" "c_nodeId conv_sample = js ''n1''" "c_type conv_sample = Private"
  by (simp_all add: conv_sample_def)

lemma session_sample: "currentSession (store_sample [entry_sample] ds) conv_sample = Inr (Some (js ''s1''))"
  by (simp add: currentSession_def read_state_def identity_of_def stateEntry_def entry_sample_def createEntry_def)

lemma ownership_sample: "isInteractiveOwnership (store_sample [entry_sample] ds) r n rooms None = Inr False"
  by (simp add: isInteractiveOwnership_def read_state_def mhas_def mget_def list_ex_iff)

lemmas plain_acts = claimed_def bindingGeneration_def andThen_def reading_world_def claimId_def looking_def ret_def
    attempt_def waiting_def bindingGenerationCurrent_def asking_def cancel_active_def calling_def catching_def
    done_or_rejected_def admitting_def caught_def throw_def noting_def claiming_def require_bound_def recheckBinding_def
    requireBindingGeneration_def store_reading_def legacyWorkIsInteractive_def startLegacyTask_def plain_start_def plain_run_def
    plain_claimed_def give_up_def consuming_def runPlain_def

lemma plain_sample:
  "cw_log (snd (runPlain stop_message candidate_sample (plain_tick_sample Written) (command_world_sample []))) =
     [Claim (dedupKey (js rt_sample) (js ''m1'')) (js claim_sample), TaskStarted input_sample True, TaskRegistered (js ''t1''),
      AdmitTried True, Receipted (receipt stop_message (js ''m1'')), SnapshotQueued (js ''t1''), TaskConsumed (js ''t1''),
      TaskForgotten (js ''t1''), DoneResolved (js ''t1'')]"
  by (simp add: plain_acts Let_def command_world_sample_def plain_tick_sample_def command_tick_sample_def candidate_sample_def
      conversation_sample claimed_sample random_sample admit_sample session_sample ownership_sample input_sample_def
      interactive_discussion_def nullish_def stop_message_def)

lemma plain_message_is_handled_once_witness:
  "list_ex started (cw_log (snd (runPlain stop_message candidate_sample (plain_tick_sample Written) (command_world_sample []))))
   \<and> AdmitTried True \<in> set (cw_log (snd (runPlain stop_message candidate_sample (plain_tick_sample Written) (command_world_sample []))))"
proof -
  obtain r w' where run: "runPlain stop_message candidate_sample (plain_tick_sample Written) (command_world_sample []) = (r, w')"
    by force
  from plain_message_is_handled_once [OF fresh_world_sample run refl] plain_sample show ?thesis by (simp add: run)
qed

text \<open>
  When the admission fails, the promise \<^verbatim>\<open>done\<close> of the task is never resolved: a stop that found the task while it was
  being admitted waits for it forever.
\<close>

lemma refused_admission_sample: "mutate (store_sample [entry_sample] [dedup_sample]) 7 NotReplaced
     (admitMessage (dedupKey (js rt_sample) (js ''m1'')) (js claim_sample))
   = (Inl RouterStateInvalid, store_sample [entry_sample] [dedup_sample])"
  by (simp add: mutate_def timestamp_ok_def max_safe_def pruneDedup_def dedup_live_def stateTime_def
      DEDUP_TTL_MS_def admitMessage_def admitDedup_def dedup_sample_def validateState_def write_disk_def
      admitted_sample_def [unfolded dedup_sample_def, simplified, symmetric] store_sample_def, simp add: Let_def)

lemma unadmitted_task_is_never_done:
  "cw_log (snd (runPlain stop_message candidate_sample (plain_tick_sample NotReplaced) (command_world_sample []))) =
     [Claim (dedupKey (js rt_sample) (js ''m1'')) (js claim_sample), TaskStarted input_sample True, TaskRegistered (js ''t1''),
      AdmitTried False, TaskForgotten (js ''t1''), TaskCancelled (js ''t1'') True]"
  by (simp add: plain_acts Let_def command_world_sample_def plain_tick_sample_def command_tick_sample_def candidate_sample_def
      conversation_sample claimed_sample random_sample refused_admission_sample session_sample ownership_sample input_sample_def
      interactive_discussion_def nullish_def stop_message_def)

end
