(* ===== verification/TaskRun.thy ===== *)
theory TaskRun imports TaskOutputProofs begin

text \<open>
  A running task, from \<^verbatim>\<open>router/message-router.ts\<close>: \<^verbatim>\<open>consume\<close> reads the events of the agent, the output of the
  task is queued and sent one operation after the other, and a watchdog ends a task that takes too long.  These
  run at the same time; everything that runs between two awaits is one step.  How the messages of one operation
  are sent, and what becomes of those that are refused, is in \<open>OutputBuffer\<close>.  The effects in the order
  they happen are of the model.
\<close>

definition OUTPUT_EARLY_FLUSH_BYTES :: nat where
  "OUTPUT_EARLY_FLUSH_BYTES = 16 * 1024"

datatype failure_category = AuthenticationFailure | TransportFailure | RuntimeFailure | StopUnconfirmedFailure

text \<open>A text that is absent is the empty one.\<close>

datatype agent_body = DeltaText jstr | CompletedWith jstr | FailedWith failure_category | CancelledBody | OtherBody

record agent_event =
  ae_id :: nat
  ae_task :: jstr
  ae_session :: "jstr option"
  ae_status :: "jstr option"
  ae_body :: agent_body

datatype output_op = Greeting | CoarseFlush | TerminalFlush

text \<open>An operation waits for the drain that sends what is buffered of the same task, or sends its messages; the
  number is the length of the text it shows.\<close>

datatype progress = Draining output_op | Sending output_op nat

datatype timer = NoTimer | Ticking | Stopped

text \<open>Once the watchdog has fired there is a promise, until the flush of the timeout is done.\<close>

datatype watchdog = Watch timer | Cancelling | Closing | FlushingTimeout nat | Expired

text \<open>What the reader awaits; a flush is awaited by the number of operations that were queued up to it.\<close>

datatype reader = Opening nat | Reading | ApplyingSession agent_event | Flushing nat | AwaitingWatchdog
  | LastFlush nat | AwaitingTail nat | ReaderDone

record emission =
  em_op :: output_op
  em_seq :: nat
  em_text :: jstr
  em_status :: string
  em_error :: "jstr option"
  em_messages :: "worker_send list"

datatype run_effect =
    Emitted emission
  | EmitRefused output_op
  | Handled agent_event
  | SessionApplied "jstr option" "jstr option" "jstr option"
  | CancelCalled
  | ReaderClosed
  | Forgotten
  | Resolved

record task_run =
  ru_taskId :: jstr
  ru_stream :: stream_task
  ru_output :: task_output
  ru_status :: string
  ru_resume :: "jstr option"
  ru_lastEventId :: nat
  ru_snapshotPending :: bool
  ru_suppressed :: bool
  ru_terminal :: bool
  ru_timedOut :: bool
  ru_current :: bool
  ru_opened :: bool
  ru_flushTimer :: timer
  ru_watchdog :: watchdog
  ru_reader :: reader
  ru_queue :: "output_op list"
  ru_progress :: "progress option"
  ru_queued :: nat
  ru_settled :: nat
  ru_log :: "run_effect list"

definition noted :: "run_effect list \<Rightarrow> task_run \<Rightarrow> task_run" where
  "noted es s = s\<lparr>ru_log := ru_log s @ es\<rparr>"

subsection \<open>The queue of output operations\<close>

definition queueOutput :: "output_op \<Rightarrow> task_run \<Rightarrow> task_run" where
  "queueOutput op s = s\<lparr>ru_queue := ru_queue s @ [op], ru_queued := Suc (ru_queued s)\<rparr>"

definition flushCoarse :: "task_run \<Rightarrow> task_run" where
  "flushCoarse s = (if ru_snapshotPending s then s else queueOutput CoarseFlush (s\<lparr>ru_snapshotPending := True\<rparr>))"

definition queueTerminal :: "task_run \<Rightarrow> task_run" where
  "queueTerminal s = queueOutput TerminalFlush (s\<lparr>ru_flushTimer := NoTimer\<rparr>)"

definition scheduleDeltaFlush :: "(jstr \<Rightarrow> jnum) \<Rightarrow> task_run \<Rightarrow> task_run" where
  "scheduleDeltaFlush cv s =
     (let shown = drop (deliveredTextCharacters (ru_output s)) (streamSafeContent cv (rawOutput (ru_output s)))
      in if byte_length shown \<ge> OUTPUT_EARLY_FLUSH_BYTES then flushCoarse (s\<lparr>ru_flushTimer := NoTimer\<rparr>)
         else if ru_flushTimer s \<noteq> NoTimer then s
         else s\<lparr>ru_flushTimer := Ticking\<rparr>)"

definition settle_op :: "task_run \<Rightarrow> task_run" where
  "settle_op s = s\<lparr>ru_progress := None, ru_settled := Suc (ru_settled s)\<rparr>"

text \<open>The sequence number is taken even if the event is refused; then the operation is rejected.\<close>

definition emit_stream ::
  "(bytes \<Rightarrow> bytes) \<Rightarrow> (jstr \<Rightarrow> jnum) \<Rightarrow> output_op \<Rightarrow> jstr \<Rightarrow> string \<Rightarrow> worker_send list \<Rightarrow> task_run \<Rightarrow> task_run" where
  "emit_stream sha cv op visible status cards s =
     (case streamMessages sha cv (ru_stream s) visible status of
        (r, t) \<Rightarrow> (let s1 = s\<lparr>ru_stream := t\<rparr> in case r of
          Inl e \<Rightarrow> settle_op (noted [EmitRefused op] s1)
        | Inr ms \<Rightarrow> (noted [Emitted \<lparr>em_op = op, em_seq = st_seq (ru_stream s), em_text = visible, em_status = status,
              em_error = st_error (ru_stream s), em_messages = ms @ cards\<rparr>] s1)\<lparr>ru_progress := Some (Sending op (length visible))\<rparr>))"

definition terminal_reply :: "(jstr \<Rightarrow> jnum) \<Rightarrow> url_parser \<Rightarrow> conversation \<Rightarrow> int \<Rightarrow> task_output \<Rightarrow> jstr \<times> worker_send list" where
  "terminal_reply cv url c now a =
     (let parsed = parsed_output cv a; (cards, invalidCards) = card_messages url c now (m_cards parsed)
      in (finalText (m_text parsed) invalidCards, cards))"

definition snapshot_turn :: "(bytes \<Rightarrow> bytes) \<Rightarrow> (jstr \<Rightarrow> jnum) \<Rightarrow> task_run \<Rightarrow> task_run" where
  "snapshot_turn sha cv s =
     (let s1 = s\<lparr>ru_snapshotPending := False\<rparr>; safe = streamSafeContent cv (rawOutput (ru_output s))
      in if ru_suppressed s \<or> ru_terminal s \<or> ru_timedOut s \<or> \<not> ru_current s then settle_op s1
         else if length safe = deliveredTextCharacters (ru_output s) then settle_op s1
         else emit_stream sha cv CoarseFlush safe ''streaming'' [] s1)"

definition terminal_turn :: "(bytes \<Rightarrow> bytes) \<Rightarrow> (jstr \<Rightarrow> jnum) \<Rightarrow> url_parser \<Rightarrow> int \<Rightarrow> task_run \<Rightarrow> task_run" where
  "terminal_turn sha cv url now s =
     (if (ru_suppressed s \<and> \<not> ru_timedOut s) \<or> \<not> ru_current s then settle_op s
      else case terminal_reply cv url (st_conversation (ru_stream s)) now (ru_output s) of
        (visible, cards) \<Rightarrow> emit_stream sha cv TerminalFlush visible (ru_status s) cards s)"

definition run_operation :: "(bytes \<Rightarrow> bytes) \<Rightarrow> (jstr \<Rightarrow> jnum) \<Rightarrow> url_parser \<Rightarrow> int \<Rightarrow> output_op \<Rightarrow> task_run \<Rightarrow> task_run" where
  "run_operation sha cv url now op s =
     (if ru_suppressed s \<or> \<not> ru_current s then settle_op s
      else case op of Greeting \<Rightarrow> emit_stream sha cv Greeting [] ''processing'' [] s
        | CoarseFlush \<Rightarrow> snapshot_turn sha cv s
        | TerminalFlush \<Rightarrow> terminal_turn sha cv url now s)"

definition output_turn :: "(bytes \<Rightarrow> bytes) \<Rightarrow> (jstr \<Rightarrow> jnum) \<Rightarrow> url_parser \<Rightarrow> bool \<Rightarrow> int \<Rightarrow> task_run \<Rightarrow> task_run" where
  "output_turn sha cv url drains now s = (case (ru_progress s, ru_queue s) of
     (None, op # r) \<Rightarrow> (let s1 = s\<lparr>ru_queue := r\<rparr>
        in if drains then s1\<lparr>ru_progress := Some (Draining op)\<rparr> else run_operation sha cv url now op s1)
   | _ \<Rightarrow> s)"

definition drain_over :: "(bytes \<Rightarrow> bytes) \<Rightarrow> (jstr \<Rightarrow> jnum) \<Rightarrow> url_parser \<Rightarrow> int \<Rightarrow> task_run \<Rightarrow> task_run" where
  "drain_over sha cv url now s = (case ru_progress s of
     Some (Draining op) \<Rightarrow> run_operation sha cv url now op s | _ \<Rightarrow> s)"

text \<open>The sends of an operation are over; a snapshot counts as shown also when it was refused.\<close>

definition sends_over :: "bool \<Rightarrow> task_run \<Rightarrow> task_run" where
  "sends_over all_delivered s = (case ru_progress s of
     Some (Sending op n) \<Rightarrow> settle_op (if op = CoarseFlush \<or> (op = TerminalFlush \<and> all_delivered)
        then s\<lparr>ru_output := (ru_output s)\<lparr>deliveredTextCharacters := n\<rparr>\<rparr> else s)
   | _ \<Rightarrow> s)"

subsection \<open>The reader\<close>

definition failed_code :: "failure_category \<Rightarrow> jstr" where
  "failed_code c = (case c of
     AuthenticationFailure \<Rightarrow> js ''runtime_needs_auth''
   | TransportFailure \<Rightarrow> js ''runtime_transport_error''
   | StopUnconfirmedFailure \<Rightarrow> js ''stop_unconfirmed''
   | RuntimeFailure \<Rightarrow> js ''runtime_failed'')"

text \<open>The end of the task is set and its flush queued.\<close>

definition reached :: "string \<Rightarrow> jstr option \<Rightarrow> task_run \<Rightarrow> task_run" where
  "reached status code s = queueTerminal (s\<lparr>ru_status := status, ru_terminal := True,
     ru_stream := (case code of None \<Rightarrow> ru_stream s | Some c \<Rightarrow> (ru_stream s)\<lparr>st_error := Some c\<rparr>)\<rparr>)"

definition transport_failed :: "task_run \<Rightarrow> task_run" where
  "transport_failed = reached ''failed'' (Some (js ''runtime_transport_error''))"

definition awaiting :: "(nat \<Rightarrow> reader) \<Rightarrow> task_run \<Rightarrow> task_run" where
  "awaiting phase s = s\<lparr>ru_reader := phase (ru_queued s)\<rparr>"

definition finally_tail :: "task_run \<Rightarrow> task_run" where
  "finally_tail s = awaiting AwaitingTail (s\<lparr>ru_flushTimer := NoTimer\<rparr>)"

definition finally_flush :: "task_run \<Rightarrow> task_run" where
  "finally_flush s = (if \<not> ru_terminal s \<and> \<not> ru_suppressed s \<and> \<not> ru_timedOut s
     then awaiting LastFlush (transport_failed s) else finally_tail s)"

definition finally_begin :: "task_run \<Rightarrow> task_run" where
  "finally_begin s = (case ru_watchdog s of
     Watch t \<Rightarrow> finally_flush (s\<lparr>ru_watchdog := Watch NoTimer\<rparr>)
   | _ \<Rightarrow> s\<lparr>ru_reader := AwaitingWatchdog\<rparr>)"

definition take_event :: "(jstr \<Rightarrow> jnum) \<Rightarrow> url_parser \<Rightarrow> agent_event \<Rightarrow> task_run \<Rightarrow> task_run" where
  "take_event cv url ev s = (case ae_body ev of
     DeltaText d \<Rightarrow> (let s1 = s\<lparr>ru_output := text_delta d (ru_output s), ru_reader := Reading\<rparr>
        in if d = [] then s1 else scheduleDeltaFlush cv s1)
   | CompletedWith r \<Rightarrow> awaiting Flushing (reached ''completed'' None (s\<lparr>ru_output := completed_event cv url r (ru_output s)\<rparr>))
   | FailedWith c \<Rightarrow> awaiting Flushing (reached ''failed'' (Some (failed_code c)) s)
   | CancelledBody \<Rightarrow> awaiting Flushing (reached ''cancelled'' None s)
   | OtherBody \<Rightarrow> s\<lparr>ru_reader := Reading\<rparr>)"

definition takes_session :: "agent_event \<Rightarrow> bool" where
  "takes_session ev \<longleftrightarrow> ae_session ev \<noteq> None \<or> ae_status ev = Some (js ''resume_invalidated'')"

definition next_event :: "(jstr \<Rightarrow> jnum) \<Rightarrow> url_parser \<Rightarrow> agent_event \<Rightarrow> task_run \<Rightarrow> task_run" where
  "next_event cv url ev s =
     (if ru_timedOut s then finally_begin s
      else if ru_suppressed s \<or> ae_task ev \<noteq> ru_taskId s \<or> ae_id ev \<le> ru_lastEventId s then s
      else let s1 = noted [Handled ev] (s\<lparr>ru_lastEventId := ae_id ev\<rparr>)
           in if takes_session ev
              then (noted [SessionApplied (ru_resume s) (ae_status ev) (ae_session ev)] s1)\<lparr>ru_reader := ApplyingSession ev\<rparr>
              else take_event cv url ev s1)"

definition session_settled :: "(jstr \<Rightarrow> jnum) \<Rightarrow> url_parser \<Rightarrow> agent_event \<Rightarrow> task_run \<Rightarrow> task_run" where
  "session_settled cv url ev s =
     (if ru_suppressed s \<or> \<not> ru_current s then finally_begin s else take_event cv url ev s)"

definition next_fails :: "task_run \<Rightarrow> task_run" where
  "next_fails s = (if \<not> ru_suppressed s \<and> \<not> ru_timedOut s then awaiting Flushing (transport_failed s) else finally_begin s)"

definition run_over :: "task_run \<Rightarrow> task_run" where
  "run_over s = (noted [Forgotten, Resolved] s)\<lparr>ru_reader := ReaderDone\<rparr>"

text \<open>The first snapshot has been sent; the events are opened, which may throw.\<close>

definition begin_reading :: "bool \<Rightarrow> task_run \<Rightarrow> task_run" where
  "begin_reading opened s =
     (if \<not> ru_current s then run_over (s\<lparr>ru_suppressed := True\<rparr>)
      else if opened then s\<lparr>ru_opened := True, ru_watchdog := Watch Ticking, ru_reader := Reading\<rparr>
      else next_fails s)"

definition reader_wakes :: "bool \<Rightarrow> task_run \<Rightarrow> task_run" where
  "reader_wakes opened s = (case ru_reader s of
     Opening n \<Rightarrow> if ru_settled s \<ge> n then begin_reading opened s else s
   | Flushing n \<Rightarrow> if ru_settled s \<ge> n then finally_begin s else s
   | AwaitingWatchdog \<Rightarrow> if ru_watchdog s = Expired then finally_flush s else s
   | LastFlush n \<Rightarrow> if ru_settled s \<ge> n then finally_tail s else s
   | AwaitingTail n \<Rightarrow> if ru_settled s \<ge> n then run_over s else s
   | _ \<Rightarrow> s)"

subsection \<open>The watchdog\<close>

definition expireTask :: "task_run \<Rightarrow> task_run" where
  "expireTask s = (if ru_terminal s \<or> ru_suppressed s \<or> ru_timedOut s then s\<lparr>ru_watchdog := Expired\<rparr>
     else noted [CancelCalled] (s\<lparr>ru_timedOut := True, ru_terminal := True, ru_watchdog := Cancelling\<rparr>))"

text \<open>The cancellation is settled; then the closing of the reader.\<close>

definition watchdog_wakes :: "task_run \<Rightarrow> task_run" where
  "watchdog_wakes s = (case ru_watchdog s of
     Cancelling \<Rightarrow> noted [ReaderClosed] (s\<lparr>ru_watchdog := Closing\<rparr>)
   | Closing \<Rightarrow> (let s1 = queueTerminal (s\<lparr>ru_status := ''failed'', ru_stream := (ru_stream s)\<lparr>st_error := Some (js ''task_timeout'')\<rparr>\<rparr>)
        in s1\<lparr>ru_watchdog := FlushingTimeout (ru_queued s1)\<rparr>)
   | FlushingTimeout n \<Rightarrow> if ru_settled s \<ge> n then s\<lparr>ru_watchdog := Expired\<rparr> else s
   | _ \<Rightarrow> s)"

text \<open>The disposal of the binding: the timers are cleared, but stay set.\<close>

definition stopped :: "timer \<Rightarrow> timer" where
  "stopped t = (if t = NoTimer then NoTimer else Stopped)"

definition dispose_task :: "task_run \<Rightarrow> task_run" where
  "dispose_task s = noted ([CancelCalled] @ (if ru_opened s then [ReaderClosed] else []))
     (s\<lparr>ru_current := False, ru_suppressed := True, ru_flushTimer := stopped (ru_flushTimer s),
        ru_watchdog := (case ru_watchdog s of Watch t \<Rightarrow> Watch (stopped t) | w \<Rightarrow> w)\<rparr>)"

subsection \<open>The steps\<close>

datatype run_event =
    OutputTurn bool int
  | DrainOver int
  | SendsOver bool
  | ReaderWakes bool
  | NextEvent agent_event
  | NextDone
  | NextFails
  | SessionSettled
  | FlushTimeout
  | WatchdogTimeout
  | WatchdogWakes
  | DisposeTask

fun task_step :: "(bytes \<Rightarrow> bytes) \<Rightarrow> (jstr \<Rightarrow> jnum) \<Rightarrow> url_parser \<Rightarrow> task_run \<Rightarrow> run_event \<Rightarrow> task_run" where
  "task_step sha cv url s (OutputTurn drains now) = output_turn sha cv url drains now s"
| "task_step sha cv url s (DrainOver now) = drain_over sha cv url now s"
| "task_step sha cv url s (SendsOver all_delivered) = sends_over all_delivered s"
| "task_step sha cv url s (ReaderWakes opened) = reader_wakes opened s"
| "task_step sha cv url s (NextEvent ev) = (if ru_reader s = Reading then next_event cv url ev s else s)"
| "task_step sha cv url s NextDone = (if ru_reader s = Reading then finally_begin s else s)"
| "task_step sha cv url s NextFails = (if ru_reader s = Reading then next_fails s else s)"
| "task_step sha cv url s SessionSettled = (case ru_reader s of ApplyingSession ev \<Rightarrow> session_settled cv url ev s | _ \<Rightarrow> s)"
| "task_step sha cv url s FlushTimeout = (if ru_flushTimer s = Ticking then flushCoarse (s\<lparr>ru_flushTimer := NoTimer\<rparr>) else s)"
| "task_step sha cv url s WatchdogTimeout = (if ru_watchdog s = Watch Ticking then expireTask s else s)"
| "task_step sha cv url s WatchdogWakes = watchdog_wakes s"
| "task_step sha cv url s DisposeTask = (if ru_reader s = ReaderDone then s else dispose_task s)"

text \<open>The task as it is registered, with its first snapshot queued.\<close>

definition new_run :: "jstr \<Rightarrow> stream_task \<Rightarrow> jstr option \<Rightarrow> task_run" where
  "new_run task t resume = \<lparr>ru_taskId = task, ru_stream = t\<lparr>st_seq := 0, st_error := None\<rparr>, ru_output = no_output,
     ru_status = ''processing'', ru_resume = resume, ru_lastEventId = 0, ru_snapshotPending = False, ru_suppressed = False,
     ru_terminal = False, ru_timedOut = False, ru_current = True, ru_opened = False, ru_flushTimer = NoTimer, ru_watchdog = Watch NoTimer,
     ru_reader = Opening 1, ru_queue = [Greeting], ru_progress = None, ru_queued = 1, ru_settled = 0, ru_log = []\<rparr>"

definition run_task :: "(bytes \<Rightarrow> bytes) \<Rightarrow> (jstr \<Rightarrow> jnum) \<Rightarrow> url_parser \<Rightarrow> jstr \<Rightarrow> stream_task \<Rightarrow> jstr option \<Rightarrow> run_event list \<Rightarrow> task_run" where
  "run_task sha cv url task t resume = run_steps (task_step sha cv url) (new_run task t resume)"

end
