(* ===== verification/TaskRunProofs.thy ===== *)
theory TaskRunProofs imports TaskRun begin

text \<open>What a running task tells the conversation, and that it comes to its end.\<close>

fun emission_of :: "run_effect \<Rightarrow> emission list" where
  "emission_of (Emitted e) = [e]"
| "emission_of x = []"

definition emissions :: "task_run \<Rightarrow> emission list" where
  "emissions s = concat (map emission_of (ru_log s))"

fun handled_of :: "run_effect \<Rightarrow> agent_event list" where
  "handled_of (Handled e) = [e]"
| "handled_of x = []"

definition handled :: "task_run \<Rightarrow> agent_event list" where
  "handled s = concat (map handled_of (ru_log s))"

text \<open>The operations that have not run, and those that are not settled.\<close>

fun waits_of :: "progress option \<Rightarrow> output_op list" where
  "waits_of (Some (Draining op)) = [op]"
| "waits_of x = []"

definition waiting_ops :: "task_run \<Rightarrow> output_op list" where
  "waiting_ops s = waits_of (ru_progress s) @ ru_queue s"

definition unsettled :: "task_run \<Rightarrow> nat" where
  "unsettled s = (if ru_progress s = None then 0 else 1) + length (ru_queue s)"

fun is_end :: "run_effect \<Rightarrow> bool" where
  "is_end (Emitted e) \<longleftrightarrow> em_op e = TerminalFlush"
| "is_end (EmitRefused op) \<longleftrightarrow> op = TerminalFlush"
| "is_end x \<longleftrightarrow> False"

definition ends :: "task_run \<Rightarrow> nat" where
  "ends s = length (filter is_end (ru_log s)) + length (filter (\<lambda>op. op = TerminalFlush) (waiting_ops s))"

subsection \<open>What the steps are made of\<close>

lemma noted_fields [simp]:
  "ru_queue (noted es s) = ru_queue s" "ru_progress (noted es s) = ru_progress s" "ru_log (noted es s) = ru_log s @ es"
  "ru_reader (noted es s) = ru_reader s" "(noted es s)\<lparr>ru_reader := r\<rparr> = noted es (s\<lparr>ru_reader := r\<rparr>)"
  by (simp_all add: noted_def)

lemmas view_defs = emissions_def handled_def waiting_ops_def unsettled_def ends_def

lemmas queue_defs = queueOutput_def flushCoarse_def queueTerminal_def scheduleDeltaFlush_def settle_op_def noted_def

lemmas reader_defs = reached_def transport_failed_def awaiting_def finally_tail_def finally_flush_def finally_begin_def
  take_event_def next_event_def session_settled_def next_fails_def run_over_def begin_reading_def reader_wakes_def

lemmas watchdog_defs = expireTask_def watchdog_wakes_def dispose_task_def stopped_def

lemma emit_forms:
  obtains (refused) "emit_stream sha cv op v st cards s = settle_op (noted [EmitRefused op] (s\<lparr>ru_stream := (ru_stream s)\<lparr>st_seq := Suc (st_seq (ru_stream s))\<rparr>\<rparr>))"
  | (emitted) ms where "emit_stream sha cv op v st cards s =
      (noted [Emitted \<lparr>em_op = op, em_seq = st_seq (ru_stream s), em_text = v, em_status = st, em_error = st_error (ru_stream s), em_messages = ms\<rparr>]
        (s\<lparr>ru_stream := (ru_stream s)\<lparr>st_seq := Suc (st_seq (ru_stream s))\<rparr>\<rparr>))\<lparr>ru_progress := Some (Sending op (length v))\<rparr>"
proof -
  obtain r t where m: "streamMessages sha cv (ru_stream s) v st = (r, t)" by fastforce
  have t: "t = (ru_stream s)\<lparr>st_seq := Suc (st_seq (ru_stream s))\<rparr>" using m by (simp add: streamMessages_def)
  show thesis
  proof (cases r)
    case (Inl e)
    show thesis by (rule refused) (simp add: emit_stream_def m Inl t Let_def)
  next
    case (Inr ms)
    show thesis by (rule emitted [of "ms @ cards"]) (simp add: emit_stream_def m Inr t Let_def)
  qed
qed

text \<open>How an operation runs, from the state without it.\<close>

lemma run_operation_forms:
  assumes "run_operation sha cv url now op s = s'"
  obtains (skipped) b where "s' = settle_op (s\<lparr>ru_snapshotPending := b\<rparr>)" "ru_suppressed s \<or> \<not> ru_current s \<or> op = CoarseFlush"
  | (greeted) "op = Greeting" "s' = emit_stream sha cv Greeting [] ''processing'' [] s" "\<not> ru_suppressed s"
  | (shown) "op = CoarseFlush" "s' = emit_stream sha cv CoarseFlush (streamSafeContent cv (rawOutput (ru_output s))) ''streaming'' [] (s\<lparr>ru_snapshotPending := False\<rparr>)"
      "\<not> ru_terminal s" "\<not> ru_suppressed s" "length (streamSafeContent cv (rawOutput (ru_output s))) \<noteq> deliveredTextCharacters (ru_output s)"
  | (ended) v cards where "op = TerminalFlush" "s' = emit_stream sha cv TerminalFlush v (ru_status s) cards s" "\<not> ru_suppressed s"
proof (cases "ru_suppressed s \<or> \<not> ru_current s")
  case True
  thus thesis using assms skipped [of "ru_snapshotPending s"] by (auto simp: run_operation_def)
next
  case False
  show thesis
  proof (cases op)
    case Greeting
    thus thesis using assms False greeted by (simp add: run_operation_def)
  next
    case CoarseFlush
    show thesis
      using assms False CoarseFlush skipped [of False] shown
      by (auto simp: run_operation_def snapshot_turn_def Let_def split: if_splits)
  next
    case TerminalFlush
    show thesis using assms False TerminalFlush ended
      by (auto simp: run_operation_def terminal_turn_def split: prod.splits)
  qed
qed

text \<open>A step of the output: an operation begins, is put off, or its sends are over; or nothing changes.\<close>

definition idle :: "task_run \<Rightarrow> bool" where
  "idle s \<longleftrightarrow> (\<forall>op n. ru_progress s \<noteq> Some (Sending op n))"

inductive output_move :: "(bytes \<Rightarrow> bytes) \<Rightarrow> (jstr \<Rightarrow> jnum) \<Rightarrow> url_parser \<Rightarrow> task_run \<Rightarrow> task_run \<Rightarrow> bool"
  for sha cv url where
  none: "output_move sha cv url s s"
| put_off: "ru_progress s = None \<Longrightarrow> ru_queue s = op # r \<Longrightarrow> output_move sha cv url s (s\<lparr>ru_queue := r, ru_progress := Some (Draining op)\<rparr>)"
| runs: "waiting_ops s = op # r \<Longrightarrow> idle s \<Longrightarrow> output_move sha cv url s (run_operation sha cv url now op (s\<lparr>ru_queue := r\<rparr>))"
| sent: "ru_progress s = Some (Sending op n) \<Longrightarrow> output_move sha cv url s (sends_over all_delivered s)"

lemma output_turn_move: "output_move sha cv url s (output_turn sha cv url drains now s)"
proof (cases "ru_progress s")
  case None
  show ?thesis
  proof (cases "ru_queue s")
    case (Cons op r)
    have "waiting_ops s = op # r" "idle s" by (simp_all add: waiting_ops_def idle_def None Cons)
    from output_move.runs [OF this] output_move.put_off [OF None Cons] show ?thesis
      by (simp add: output_turn_def None Cons Let_def)
  qed (simp add: output_turn_def None output_move.none)
qed (simp add: output_turn_def output_move.none)

lemma drain_over_move: "output_move sha cv url s (drain_over sha cv url now s)"
proof (cases "ru_progress s")
  case (Some p)
  show ?thesis
  proof (cases p)
    case (Draining op)
    have "waiting_ops s = op # ru_queue s" "idle s" by (simp_all add: waiting_ops_def idle_def Some Draining)
    from output_move.runs [OF this] show ?thesis by (simp add: drain_over_def Some Draining)
  qed (simp add: drain_over_def Some output_move.none)
qed (simp add: drain_over_def output_move.none)

lemma sends_over_move: "output_move sha cv url s (sends_over all_delivered s)"
proof (cases "ru_progress s")
  case (Some p)
  show ?thesis
  proof (cases p)
    case (Sending op n)
    thus ?thesis using Some by (auto intro: output_move.sent)
  qed (simp add: sends_over_def Some output_move.none)
qed (simp add: sends_over_def output_move.none)

subsection \<open>The order of what is told\<close>

fun op_rank :: "output_op \<Rightarrow> nat" where
  "op_rank Greeting = 0"
| "op_rank CoarseFlush = 1"
| "op_rank TerminalFlush = 2"

definition END_STATUSES :: "string list" where
  "END_STATUSES = [''completed'', ''failed'', ''cancelled'']"

fun status_fits :: "output_op \<Rightarrow> string \<Rightarrow> bool" where
  "status_fits Greeting st \<longleftrightarrow> st = ''processing''"
| "status_fits CoarseFlush st \<longleftrightarrow> st = ''streaming''"
| "status_fits TerminalFlush st \<longleftrightarrow> st \<in> set END_STATUSES"

definition told_before :: "emission \<Rightarrow> emission \<Rightarrow> bool" where
  "told_before a b \<longleftrightarrow> op_rank (em_op a) \<le> op_rank (em_op b) \<and> em_op b \<noteq> Greeting \<and> em_seq a < em_seq b"

definition order_inv :: "task_run \<Rightarrow> bool" where
  "order_inv s \<longleftrightarrow> sorted_wrt told_before (emissions s)
     \<and> (\<forall>e \<in> set (emissions s). status_fits (em_op e) (em_status e) \<and> em_seq e < st_seq (ru_stream s)
          \<and> (em_op e = TerminalFlush \<longrightarrow> ru_terminal s))
     \<and> (\<forall>op \<in> set (waiting_ops s). op = TerminalFlush \<longrightarrow> ru_terminal s \<and> ru_status s \<in> set END_STATUSES)
     \<and> (Greeting \<in> set (waiting_ops s) \<longrightarrow> emissions s = [] \<and> Greeting \<notin> set (tl (waiting_ops s)))"

lemma emissions_noted [simp]: "emissions (noted es s) = emissions s @ concat (map emission_of es)"
  by (simp add: emissions_def noted_def)

text \<open>What leaves the output alone, apart from the end of the task and operations that are queued.\<close>

definition queues :: "output_op list \<Rightarrow> task_run \<Rightarrow> task_run \<Rightarrow> bool" where
  "queues ops s s' \<longleftrightarrow> waiting_ops s' = waiting_ops s @ ops \<and> ru_progress s' = ru_progress s \<and> emissions s' = emissions s
     \<and> filter is_end (ru_log s') = filter is_end (ru_log s) \<and> ru_settled s' = ru_settled s \<and> ru_queued s' = ru_queued s + length ops
     \<and> unsettled s' = unsettled s + length ops
     \<and> st_seq (ru_stream s') = st_seq (ru_stream s) \<and> (ru_terminal s \<longrightarrow> ru_terminal s') \<and> Greeting \<notin> set ops
     \<and> (TerminalFlush \<in> set ops \<longrightarrow> ru_terminal s' \<and> ru_status s' \<in> set END_STATUSES)
     \<and> (ru_status s' = ru_status s \<or> ru_status s' \<in> set END_STATUSES)
     \<and> (ru_terminal s' \<or> deliveredTextCharacters (ru_output s') = deliveredTextCharacters (ru_output s)
          \<and> (\<exists>later. rawOutput (ru_output s') = rawOutput (ru_output s) @ later))"


subsection \<open>The life of a task\<close>

definition resting :: "watchdog \<Rightarrow> bool" where
  "resting w \<longleftrightarrow> w = Watch NoTimer \<or> w = Expired"

fun watchdog_ok :: "task_run \<Rightarrow> watchdog \<Rightarrow> bool" where
  "watchdog_ok s (Watch t) \<longleftrightarrow> \<not> ru_timedOut s"
| "watchdog_ok s Cancelling \<longleftrightarrow> ru_timedOut s"
| "watchdog_ok s Closing \<longleftrightarrow> ru_timedOut s"
| "watchdog_ok s (FlushingTimeout n) \<longleftrightarrow> ru_timedOut s \<and> n \<le> ru_queued s"
| "watchdog_ok s Expired \<longleftrightarrow> True"

fun reader_ok :: "task_run \<Rightarrow> reader \<Rightarrow> bool" where
  "reader_ok s (Opening n) \<longleftrightarrow> n = ru_queued s \<and> ru_watchdog s = Watch NoTimer \<and> ru_flushTimer s = NoTimer \<and> \<not> ru_terminal s"
| "reader_ok s Reading \<longleftrightarrow> (ru_terminal s \<longrightarrow> ru_timedOut s)"
| "reader_ok s (ApplyingSession ev) \<longleftrightarrow> (ru_terminal s \<longrightarrow> ru_timedOut s)"
| "reader_ok s (Flushing n) \<longleftrightarrow> n \<le> ru_queued s \<and> ru_terminal s"
| "reader_ok s AwaitingWatchdog \<longleftrightarrow> (\<forall>t. ru_watchdog s \<noteq> Watch t)"
| "reader_ok s (LastFlush n) \<longleftrightarrow> n \<le> ru_queued s \<and> ru_terminal s \<and> resting (ru_watchdog s)"
| "reader_ok s (AwaitingTail n) \<longleftrightarrow> n = ru_queued s \<and> ru_flushTimer s = NoTimer \<and> (ru_terminal s \<or> ru_suppressed s) \<and> resting (ru_watchdog s)"
| "reader_ok s ReaderDone \<longleftrightarrow> unsettled s = 0 \<and> ru_flushTimer s = NoTimer \<and> (ru_terminal s \<or> ru_suppressed s) \<and> resting (ru_watchdog s)"

definition life_inv :: "task_run \<Rightarrow> bool" where
  "life_inv s \<longleftrightarrow> (ru_current s \<or> ru_suppressed s) \<and> (ru_timedOut s \<longrightarrow> ru_terminal s) \<and> ru_queued s = ru_settled s + unsettled s
     \<and> watchdog_ok s (ru_watchdog s) \<and> reader_ok s (ru_reader s)"

lemma life_start: "life_inv (new_run task t resume)"
  by (simp add: life_inv_def new_run_def unsettled_def resting_def)

text \<open>The output keeps the life of the task: only the state of the operations changes.\<close>

definition output_only :: "task_run \<Rightarrow> task_run \<Rightarrow> bool" where
  "output_only s s' \<longleftrightarrow> ru_current s' = ru_current s \<and> ru_suppressed s' = ru_suppressed s \<and> ru_timedOut s' = ru_timedOut s
     \<and> ru_terminal s' = ru_terminal s \<and> ru_queued s' = ru_queued s \<and> ru_watchdog s' = ru_watchdog s \<and> ru_reader s' = ru_reader s
     \<and> ru_flushTimer s' = ru_flushTimer s \<and> ru_status s' = ru_status s \<and> rawOutput (ru_output s') = rawOutput (ru_output s)
     \<and> ru_lastEventId s' = ru_lastEventId s \<and> ru_taskId s' = ru_taskId s \<and> handled s' = handled s
     \<and> ru_settled s \<le> ru_settled s' \<and> set (ru_log s) \<subseteq> set (ru_log s')"

lemma output_only_trans: "output_only s s' \<Longrightarrow> output_only s' s'' \<Longrightarrow> output_only s s''"
  by (simp add: output_only_def) blast

lemma settle_only: "output_only s (settle_op s)"
  by (simp add: output_only_def settle_op_def handled_def)

lemma emit_only: "output_only s (emit_stream sha cv op v st cards s)"
  by (cases rule: emit_forms [of sha cv op v st cards s]) (auto simp: output_only_def settle_op_def noted_def handled_def)

lemma emit_unsettled: "ru_settled (emit_stream sha cv op v st cards s) + unsettled (emit_stream sha cv op v st cards s) = Suc (ru_settled s + length (ru_queue s))"
  by (cases rule: emit_forms [of sha cv op v st cards s]) (simp_all add: settle_op_def noted_def unsettled_def)

lemma run_operation_only: "output_only s (run_operation sha cv url now op s)"
  "ru_settled (run_operation sha cv url now op s) + unsettled (run_operation sha cv url now op s) = Suc (ru_settled s + length (ru_queue s))"
proof -
  let ?s' = "run_operation sha cv url now op s"
  have pending: "output_only s s1" if "s1 = s\<lparr>ru_snapshotPending := b\<rparr>" for s1 b
    using that by (simp add: output_only_def handled_def)
  have "output_only s ?s' \<and> ru_settled ?s' + unsettled ?s' = Suc (ru_settled s + length (ru_queue s))"
  proof (cases rule: run_operation_forms [OF refl, of sha cv url now op s])
    case (1 b)
    show ?thesis using output_only_trans [OF pending [OF refl] settle_only] unfolding 1(1) by (simp add: settle_op_def unsettled_def)
  next
    case 2
    show ?thesis unfolding 2(2) by (simp only: emit_only emit_unsettled)
  next
    case 3
    show ?thesis using output_only_trans [OF pending [OF refl] emit_only] unfolding 3(2) by (simp add: emit_unsettled)
  next
    case (4 v cards)
    show ?thesis unfolding 4(2) by (simp only: emit_only emit_unsettled)
  qed
  thus "output_only s ?s'" "ru_settled ?s' + unsettled ?s' = Suc (ru_settled s + length (ru_queue s))" by simp_all
qed

lemma unsettled_waiting: "idle s \<Longrightarrow> unsettled s = length (waiting_ops s)"
  by (cases "ru_progress s" rule: waits_of.cases) (simp_all add: idle_def unsettled_def waiting_ops_def)

lemma output_move_only:
  assumes "output_move sha cv url s s'"
  shows "output_only s s' \<and> ru_settled s' + unsettled s' = ru_settled s + unsettled s"
  using assms
proof cases
  case none
  thus ?thesis by (simp add: output_only_def)
next
  case (put_off op r)
  thus ?thesis by (simp add: output_only_def unsettled_def handled_def)
next
  case (runs op r now)
  have "output_only s (s\<lparr>ru_queue := r\<rparr>)" by (simp add: output_only_def handled_def)
  note only = output_only_trans [OF this run_operation_only(1)]
  have "unsettled s = Suc (length r)" using unsettled_waiting [OF runs(3)] runs(2) by simp
  with only run_operation_only(2) [of sha cv url now op "s\<lparr>ru_queue := r\<rparr>"] show ?thesis unfolding runs(1) by simp
next
  case (sent op n b)
  thus ?thesis by (simp add: sends_over_def output_only_def settle_op_def unsettled_def handled_def)
qed

lemma life_only:
  assumes "life_inv s" "output_only s s'" "ru_settled s' + unsettled s' = ru_settled s + unsettled s"
  shows "life_inv s'"
  using assms by (cases "ru_reader s"; cases "ru_watchdog s") (simp_all add: life_inv_def output_only_def)


lemmas life_simps = life_inv_def unsettled_def resting_def queue_defs

lemma life_noted [simp]: "life_inv (noted es s) = life_inv s"
  by (cases "ru_reader s"; cases "ru_watchdog s") (simp_all add: life_simps)

lemma life_coarse:
  assumes "life_inv s" "ru_flushTimer s \<noteq> NoTimer \<or> ru_reader s = Reading"
  shows "life_inv (flushCoarse (s\<lparr>ru_flushTimer := NoTimer\<rparr>))"
  using assms by (cases "ru_reader s"; cases "ru_watchdog s") (auto simp: life_simps)

lemma life_schedule: "life_inv s \<Longrightarrow> ru_reader s = Reading \<Longrightarrow> life_inv (scheduleDeltaFlush cv s)"
  using life_coarse [of s] by (cases "ru_watchdog s") (auto simp: scheduleDeltaFlush_def Let_def life_simps)

lemma life_finally_tail:
  assumes "life_inv s" "resting (ru_watchdog s)" "ru_terminal s \<or> ru_suppressed s"
  shows "life_inv (finally_tail s)"
  using assms by (cases "ru_watchdog s") (auto simp: finally_tail_def awaiting_def life_simps)

lemma life_reached:
  assumes "life_inv s"
  shows "life_inv (awaiting Flushing (reached status code s))"
    "resting (ru_watchdog s) \<Longrightarrow> life_inv (awaiting LastFlush (reached status code s))"
  using assms by (cases "ru_watchdog s"; auto simp: reached_def awaiting_def life_simps)+

lemma life_finally_flush:
  assumes "life_inv s" "resting (ru_watchdog s)"
  shows "life_inv (finally_flush s)"
  using life_finally_tail [OF assms] life_reached(2) [OF assms] assms
  by (auto simp: finally_flush_def transport_failed_def life_inv_def)

lemma life_finally_begin: "life_inv s \<Longrightarrow> ru_reader s \<noteq> ReaderDone \<Longrightarrow> life_inv (finally_begin s)"
proof (cases "ru_watchdog s")
  case (Watch t)
  assume "life_inv s" "ru_reader s \<noteq> ReaderDone"
  hence "life_inv (s\<lparr>ru_watchdog := Watch NoTimer\<rparr>)" using Watch by (cases "ru_reader s") (auto simp: life_simps)
  thus ?thesis using life_finally_flush Watch by (simp add: finally_begin_def resting_def)
qed (auto simp: finally_begin_def life_simps)

lemma life_read_event:
  assumes "life_inv s" "ru_reader s = Reading \<or> ru_reader s = ApplyingSession ev"
  shows "life_inv (take_event cv url ev s)"
proof -
  have out: "life_inv (s\<lparr>ru_output := a, ru_reader := Reading\<rparr>)" "life_inv (s\<lparr>ru_output := a\<rparr>)" "life_inv (s\<lparr>ru_reader := Reading\<rparr>)" for a
    using assms by (cases "ru_watchdog s"; auto simp: life_simps)+
  show ?thesis using life_schedule [OF out(1)] life_reached(1) out assms
    by (simp add: take_event_def Let_def split: agent_body.split)
qed

lemma life_reader_step:
  assumes "life_inv s"
  shows "ru_reader s = Reading \<Longrightarrow> life_inv (next_event cv url ev s)"
    "ru_reader s = ApplyingSession ev \<Longrightarrow> life_inv (session_settled cv url ev s)"
    "ru_reader s = Reading \<or> ru_reader s = Opening n \<Longrightarrow> life_inv (next_fails s)"
proof -
  show "life_inv (next_event cv url ev s)" if "ru_reader s = Reading"
  proof -
    have "life_inv (s\<lparr>ru_lastEventId := i\<rparr>)" "life_inv (s\<lparr>ru_lastEventId := i, ru_reader := ApplyingSession ev\<rparr>)" for i
      using assms that by (cases "ru_watchdog s"; auto simp: life_simps)+
    thus ?thesis
      using assms that life_finally_begin life_read_event [of "noted [Handled ev] (s\<lparr>ru_lastEventId := ae_id ev\<rparr>)"]
      by (simp add: next_event_def Let_def)
  qed
  show "life_inv (session_settled cv url ev s)" if "ru_reader s = ApplyingSession ev"
    using assms that life_finally_begin life_read_event by (simp add: session_settled_def)
  show "life_inv (next_fails s)" if "ru_reader s = Reading \<or> ru_reader s = Opening n"
    using assms that life_finally_begin life_reached(1) by (auto simp: next_fails_def transport_failed_def)
qed

lemma life_run_over:
  assumes "life_inv s" "unsettled s = 0" "ru_flushTimer s = NoTimer" "resting (ru_watchdog s)" "ru_terminal s \<or> ru_suppressed s"
  shows "life_inv (run_over s)"
  using assms by (cases "ru_watchdog s") (auto simp: run_over_def life_simps)

lemma life_wakes: "life_inv s \<Longrightarrow> life_inv (reader_wakes opened s)"
proof (cases "ru_reader s")
  case (Opening n)
  assume inv: "life_inv s"
  hence o: "ru_watchdog s = Watch NoTimer" "ru_flushTimer s = NoTimer" "\<not> ru_terminal s" "n = ru_queued s"
    using Opening by (simp_all add: life_inv_def)
  have s1: "life_inv (s\<lparr>ru_suppressed := True\<rparr>)" "life_inv (s\<lparr>ru_opened := True, ru_watchdog := Watch Ticking, ru_reader := Reading\<rparr>)"
    using inv Opening o by (auto simp: life_simps)
  have d: "unsettled s = 0" if "ru_settled s \<ge> n" using that inv o(4) by (simp add: life_inv_def)
  have "life_inv (run_over (s\<lparr>ru_suppressed := True\<rparr>))" if "ru_settled s \<ge> n"
    using d [OF that] o by (intro life_run_over s1) (simp_all add: unsettled_def resting_def)
  thus ?thesis using inv Opening s1(2) life_reader_step(3) [OF inv, of n] by (simp add: reader_wakes_def begin_reading_def)
next
  case AwaitingWatchdog
  assume "life_inv s"
  thus ?thesis using life_finally_flush [of s] AwaitingWatchdog by (simp add: reader_wakes_def resting_def)
next
  case (LastFlush n)
  assume "life_inv s"
  thus ?thesis using life_finally_tail [of s] LastFlush by (auto simp: reader_wakes_def life_inv_def)
next
  case (AwaitingTail n)
  assume "life_inv s"
  thus ?thesis using life_run_over [of s] AwaitingTail by (auto simp: reader_wakes_def life_inv_def)
qed (simp_all add: reader_wakes_def life_finally_begin)

lemma life_watchdog: "life_inv s \<Longrightarrow> ru_watchdog s = Watch Ticking \<Longrightarrow> life_inv (expireTask s)" "life_inv s \<Longrightarrow> life_inv (watchdog_wakes s)"
proof -
  show "life_inv (expireTask s)" if "life_inv s" "ru_watchdog s = Watch Ticking"
    using that by (cases "ru_reader s") (auto simp: expireTask_def life_simps)
  show "life_inv (watchdog_wakes s)" if "life_inv s"
    using that by (cases "ru_watchdog s"; cases "ru_reader s") (auto simp: watchdog_wakes_def Let_def life_simps)
qed

lemma life_dispose: "life_inv s \<Longrightarrow> life_inv (dispose_task s)"
  by (cases "ru_watchdog s"; cases "ru_reader s") (auto simp: dispose_task_def stopped_def life_simps)

lemma life_step: "life_inv s \<Longrightarrow> life_inv (task_step sha cv url s e)"
proof -
  assume inv: "life_inv s"
  have out: "life_inv s'" if "output_move sha cv url s s'" for s'
    using life_only [OF inv] output_move_only [OF that] by blast
  show "life_inv (task_step sha cv url s e)"
  proof (cases e)
    case SessionSettled
    show ?thesis using life_reader_step(2) [OF inv] inv SessionSettled by (cases "ru_reader s") simp_all
  qed (use out [OF output_turn_move] out [OF drain_over_move] out [OF sends_over_move] life_wakes [OF inv] life_reader_step(1,3) [OF inv]
      life_finally_begin [OF inv] life_coarse [OF inv] life_watchdog [OF inv] life_dispose [OF inv] inv in simp_all)
qed

interpretation task_life: state_machine "new_run task t resume" "task_step sha cv url" life_inv
  by unfold_locales (simp_all add: life_start life_step)


subsection \<open>The steps that do not send\<close>

definition moves :: "task_run \<Rightarrow> task_run \<Rightarrow> bool" where
  "moves s s' \<longleftrightarrow> (\<exists>ops. queues ops s s')"

lemmas moves_simps = moves_def queues_def emissions_def waiting_ops_def unsettled_def noted_def

lemma moves_trans: "moves s s1 \<Longrightarrow> moves s1 s2 \<Longrightarrow> moves s s2"
proof -
  assume "moves s s1" "moves s1 s2"
  then obtain a b where "queues a s s1" "queues b s1 s2" by (auto simp: moves_def)
  hence "queues (a @ b) s s2" by (auto simp: queues_def)
  thus ?thesis by (auto simp: moves_def)
qed

lemma moves_refl: "moves s s"
  unfolding moves_def by (rule exI [of _ "[]"]) (simp add: queues_def)

lemma moves_noted: "moves s s' \<Longrightarrow> \<forall>e \<in> set es. emission_of e = [] \<and> \<not> is_end e \<Longrightarrow> moves s (noted es s')"
proof (erule moves_trans)
  assume "\<forall>e \<in> set es. emission_of e = [] \<and> \<not> is_end e"
  hence "queues [] s' (noted es s')" by (simp add: queues_def waiting_ops_def unsettled_def noted_def emissions_def)
  thus "moves s' (noted es s')" by (auto simp: moves_def)
qed

lemma moves_coarse: "moves s (flushCoarse (s\<lparr>ru_flushTimer := t\<rparr>))"
proof (cases "ru_snapshotPending s")
  case True
  thus ?thesis by (auto simp: flushCoarse_def moves_simps intro!: exI [of _ "[]"])
next
  case False
  thus ?thesis by (auto simp: flushCoarse_def queueOutput_def moves_simps intro!: exI [of _ "[CoarseFlush]"])
qed

lemma moves_queueTerminal: "moves s s' \<Longrightarrow> ru_terminal s' \<Longrightarrow> ru_status s' \<in> set END_STATUSES \<Longrightarrow> moves s (queueTerminal s')"
proof (erule moves_trans)
  assume "ru_terminal s'" "ru_status s' \<in> set END_STATUSES"
  thus "moves s' (queueTerminal s')" by (auto simp: queueTerminal_def queueOutput_def moves_simps intro!: exI [of _ "[TerminalFlush]"])
qed

lemma moves_reached:
  assumes "status \<in> set END_STATUSES"
  shows "moves s (awaiting phase (reached status code (s\<lparr>ru_output := a\<rparr>)))" "moves s (awaiting phase (reached status code s))"
proof -
  have m: "moves s (awaiting phase (reached status code (s\<lparr>ru_output := a\<rparr>)))" for a
  proof -
    let ?s1 = "s\<lparr>ru_output := a, ru_status := status, ru_terminal := True,
       ru_stream := (case code of None \<Rightarrow> ru_stream s | Some c \<Rightarrow> (ru_stream s)\<lparr>st_error := Some c\<rparr>)\<rparr>"
    have "moves s ?s1" using assms by (auto simp: moves_simps split: option.split intro!: exI [of _ "[]"])
    hence q: "moves s (queueTerminal ?s1)" by (rule moves_queueTerminal) (simp_all add: assms)
    have "moves (queueTerminal ?s1) (awaiting phase (queueTerminal ?s1))"
      by (auto simp: awaiting_def moves_simps intro!: exI [of _ "[]"])
    from moves_trans [OF q this] show ?thesis by (cases code) (simp_all add: reached_def)
  qed
  show "moves s (awaiting phase (reached status code (s\<lparr>ru_output := a\<rparr>)))" by (rule m)
  show "moves s (awaiting phase (reached status code s))" using m [of "ru_output s"] by simp
qed

lemma moves_transport: "moves s (awaiting phase (transport_failed s))"
  unfolding transport_failed_def by (rule moves_reached) (simp add: END_STATUSES_def)

lemma moves_flags:
  "moves s (s\<lparr>ru_reader := p\<rparr>)" "moves s (s\<lparr>ru_watchdog := w\<rparr>)" "moves s (s\<lparr>ru_flushTimer := t\<rparr>)" "moves s (s\<lparr>ru_suppressed := b\<rparr>)"
  "moves s (s\<lparr>ru_lastEventId := i\<rparr>)" "moves s (s\<lparr>ru_opened := b, ru_watchdog := w, ru_reader := p\<rparr>)"
  "moves s (s\<lparr>ru_timedOut := b, ru_terminal := True, ru_watchdog := w\<rparr>)" "moves s (s\<lparr>ru_lastEventId := i, ru_reader := p\<rparr>)"
  "moves s (s\<lparr>ru_current := b, ru_suppressed := c, ru_flushTimer := t, ru_watchdog := w\<rparr>)"
  by (auto simp: moves_simps intro!: exI [of _ "[]"])

lemma moves_finally:
  "moves s (finally_tail s)" "moves s (finally_flush s)" "moves s (finally_begin s)" "moves s (next_fails s)"
proof -
  have t: "moves s (finally_tail s)" for s
    by (auto simp: finally_tail_def awaiting_def moves_simps intro!: exI [of _ "[]"])
  have f: "moves s (finally_flush s)" for s using t moves_transport by (simp add: finally_flush_def)
  have b: "moves s (finally_begin s)" for s
    using moves_trans [OF moves_flags(2) f] moves_flags(1) by (simp add: finally_begin_def split: watchdog.split)
  show "moves s (finally_tail s)" "moves s (finally_flush s)" "moves s (finally_begin s)" using t f b by blast+
  show "moves s (next_fails s)" using b moves_transport by (simp add: next_fails_def)
qed

lemma moves_read_event: "moves s (take_event cv url ev s)"
proof (cases "ae_body ev")
  case (DeltaText d)
  let ?s1 = "s\<lparr>ru_output := text_delta d (ru_output s), ru_reader := Reading\<rparr>"
  have "deliveredTextCharacters (text_delta d (ru_output s)) = deliveredTextCharacters (ru_output s)"
    by (simp add: text_delta_def appendOutput_def Let_def)
  hence m: "moves s ?s1" using text_delta_extends [of d "ru_output s"] by (auto simp: moves_simps intro!: exI [of _ "[]"])
  have "moves ?s1 (scheduleDeltaFlush cv ?s1)"
    using moves_coarse [of ?s1] moves_flags(3) [of ?s1] moves_refl [of ?s1] by (simp add: scheduleDeltaFlush_def Let_def)
  from moves_trans [OF m this] m show ?thesis by (cases "d = []") (simp_all add: take_event_def DeltaText Let_def)
qed (simp_all add: take_event_def moves_reached moves_flags END_STATUSES_def)

lemma moves_next_event: "moves s (next_event cv url ev s)"
proof -
  have "moves s (noted [Handled ev] (s\<lparr>ru_lastEventId := ae_id ev\<rparr>))" by (rule moves_noted) (simp_all add: moves_flags)
  moreover have "moves s (noted [SessionApplied r st se] (noted [Handled ev] (s\<lparr>ru_lastEventId := ae_id ev, ru_reader := p\<rparr>)))" for r st se p
    by (intro moves_noted moves_flags) simp_all
  ultimately show ?thesis using moves_finally(3) moves_refl moves_trans [OF _ moves_read_event]
    by (simp add: next_event_def Let_def)
qed

lemma moves_run_over: "moves s (run_over s)"
  unfolding run_over_def by (simp, intro moves_noted moves_flags) simp_all

lemma moves_wakes: "moves s (reader_wakes opened s)"
proof -
  have "moves s (begin_reading opened s)"
    using moves_trans [OF moves_flags(4) moves_run_over] moves_flags(6) moves_finally(4) by (simp add: begin_reading_def)
  thus ?thesis using moves_finally moves_run_over moves_refl by (simp add: reader_wakes_def split: reader.split)
qed

lemma moves_watchdog: "moves s (expireTask s)" "life_inv s \<Longrightarrow> moves s (watchdog_wakes s)"
proof -
  have "moves s (noted [CancelCalled] (s\<lparr>ru_timedOut := True, ru_terminal := True, ru_watchdog := Cancelling\<rparr>))"
    by (intro moves_noted moves_flags) simp_all
  thus "moves s (expireTask s)" using moves_flags(2) by (simp add: expireTask_def)
  assume inv: "life_inv s"
  show "moves s (watchdog_wakes s)"
  proof (cases "ru_watchdog s")
    case Cancelling
    have "moves s (noted [ReaderClosed] (s\<lparr>ru_watchdog := Closing\<rparr>))" by (intro moves_noted moves_flags) simp_all
    thus ?thesis by (simp add: watchdog_wakes_def Cancelling)
  next
    case Closing
    let ?s1 = "s\<lparr>ru_status := ''failed'', ru_stream := (ru_stream s)\<lparr>st_error := Some (js ''task_timeout'')\<rparr>\<rparr>"
    have t: "ru_terminal s" using inv Closing by (simp add: life_inv_def)
    have "moves s ?s1" using t by (auto simp: moves_simps END_STATUSES_def intro!: exI [of _ "[]"])
    hence "moves s (queueTerminal ?s1)" by (rule moves_queueTerminal) (simp_all add: t END_STATUSES_def)
    from moves_trans [OF this moves_flags(2)] show ?thesis by (simp add: watchdog_wakes_def Closing Let_def)
  qed (simp_all add: watchdog_wakes_def moves_refl moves_flags)
qed

lemma moves_dispose: "moves s (dispose_task s)"
  unfolding dispose_task_def by (intro moves_noted moves_flags) simp

lemma step_forms:
  assumes "life_inv s"
  shows "output_move sha cv url s (task_step sha cv url s e) \<or> moves s (task_step sha cv url s e)"
proof (cases e)
  case SessionSettled
  have "moves s (session_settled cv url ev s)" for ev using moves_finally(3) moves_read_event by (simp add: session_settled_def)
  thus ?thesis using SessionSettled moves_refl by (simp split: reader.split)
qed (use output_turn_move drain_over_move sends_over_move moves_wakes moves_next_event moves_finally moves_coarse moves_watchdog
    moves_dispose moves_refl assms in \<open>simp_all\<close>)

end
