(* ===== verification/TaskRunTold.thy ===== *)
theory TaskRunTold imports TaskRunProofs begin

text \<open>What a running task tells the conversation: in order, and each snapshot more than the one before.\<close>

subsection \<open>What a turn of the output emits\<close>

definition snapshots :: "task_run \<Rightarrow> emission list" where
  "snapshots s = filter (\<lambda>e. em_op e = CoarseFlush) (emissions s)"

definition shown :: "task_run \<Rightarrow> nat" where
  "shown s = (case ru_progress s of Some (Sending CoarseFlush n) \<Rightarrow> n | _ \<Rightarrow> deliveredTextCharacters (ru_output s))"

definition seen :: "emission list \<Rightarrow> nat" where
  "seen es = (if es = [] then 0 else length (em_text (last es)))"

definition told_inv :: "(jstr \<Rightarrow> jnum) \<Rightarrow> task_run \<Rightarrow> bool" where
  "told_inv cv s \<longleftrightarrow> sorted_wrt strict_prefix (map em_text (snapshots s))
     \<and> (\<forall>n. ru_progress s = Some (Sending TerminalFlush n) \<longrightarrow> ru_terminal s)
     \<and> (ru_terminal s \<or> (\<forall>e \<in> set (snapshots s). prefix (em_text e) (streamSafeContent cv (rawOutput (ru_output s)))) \<and> shown s = seen (snapshots s))"

lemma told_start: "order_inv (new_run task t resume)" "told_inv cv (new_run task t resume)"
  by (simp_all add: order_inv_def told_inv_def new_run_def emissions_def waiting_ops_def snapshots_def shown_def seen_def no_output_def)

text \<open>The two invariants only depend on a few things.\<close>

lemma told_moves:
  assumes "moves s s'" "order_inv s" "told_inv cv s"
  shows "order_inv s'" "told_inv cv s'"
proof -
  obtain ops where q: "queues ops s s'" using assms(1) by (auto simp: moves_def)
  have e: "emissions s' = emissions s" "snapshots s' = snapshots s" using q by (simp_all add: queues_def snapshots_def)
  show "order_inv s'"
    unfolding order_inv_def e(1) using assms(2) q by (cases "waiting_ops s") (auto simp: order_inv_def queues_def dest: list.set_sel(2))
  have "prefix x (streamSafeContent cv (rawOutput (ru_output s')))"
    if t: "\<not> ru_terminal s'" and p: "prefix x (streamSafeContent cv (rawOutput (ru_output s)))" for x
  proof -
    obtain later where "rawOutput (ru_output s') = rawOutput (ru_output s) @ later" using q t by (auto simp: queues_def)
    thus ?thesis using p stream_grows(1) prefix_order.trans by simp blast
  qed
  moreover have "shown s' = shown s" if "\<not> ru_terminal s'"
  proof -
    have "deliveredTextCharacters (ru_output s') = deliveredTextCharacters (ru_output s)" "ru_progress s' = ru_progress s"
      using q that by (auto simp: queues_def)
    thus ?thesis unfolding shown_def by (cases "ru_progress s" rule: waits_of.cases) (auto split: output_op.split)
  qed
  ultimately show "told_inv cv s'" unfolding told_inv_def e(2) using assms(3) q by (auto simp: told_inv_def queues_def)
qed

lemma emit_told:
  assumes "emit_stream sha cv op v st cards s = s'"
  obtains es where "emissions s' = emissions s @ es" "waiting_ops s' = ru_queue s" "ru_terminal s' = ru_terminal s" "ru_status s' = ru_status s"
    "st_seq (ru_stream s') = Suc (st_seq (ru_stream s))" "ru_output s' = ru_output s"
    "es = [] \<and> ru_progress s' = None
      \<or> (\<exists>e. es = [e] \<and> em_op e = op \<and> em_text e = v \<and> em_status e = st \<and> em_seq e = st_seq (ru_stream s)) \<and> ru_progress s' = Some (Sending op (length v))"
proof (cases rule: emit_forms [of sha cv op v st cards s])
  case refused
  show thesis by (rule that [of "[]"]) (simp_all add: assms [symmetric] refused settle_op_def noted_def emissions_def waiting_ops_def)
next
  case (emitted ms)
  show thesis by (rule that [of "[\<lparr>em_op = op, em_seq = st_seq (ru_stream s), em_text = v, em_status = st,
      em_error = st_error (ru_stream s), em_messages = ms\<rparr>]"])
    (simp_all add: assms [symmetric] emitted noted_def emissions_def waiting_ops_def)
qed

lemma told_emit:
  assumes "order_inv s" "waiting_ops s = op # r" "status_fits op st" "\<not> ru_terminal s \<or> op = TerminalFlush \<or> op = Greeting"
    "ru_queue s0 = r" "emissions s0 = emissions s" "ru_terminal s0 = ru_terminal s" "ru_status s0 = ru_status s" "ru_stream s0 = ru_stream s"
  shows "order_inv (emit_stream sha cv op v st cards s0)"
proof -
  let ?s' = "emit_stream sha cv op v st cards s0"
  obtain es where es: "emissions ?s' = emissions s0 @ es" "waiting_ops ?s' = ru_queue s0" "ru_terminal ?s' = ru_terminal s0" "ru_status ?s' = ru_status s0"
    "st_seq (ru_stream ?s') = Suc (st_seq (ru_stream s0))"
    "es = [] \<or> (\<exists>e. es = [e] \<and> em_op e = op \<and> em_text e = v \<and> em_status e = st \<and> em_seq e = st_seq (ru_stream s0))"
    by (rule emit_told [OF refl, of sha cv op v st cards s0]) blast
  have low: "\<forall>e \<in> set (emissions s). op_rank (em_op e) \<le> op_rank op"
  proof
    fix e assume e: "e \<in> set (emissions s)"
    show "op_rank (em_op e) \<le> op_rank op"
      using e assms(1,2,4) by (cases op; cases "em_op e") (auto simp: order_inv_def)
  qed
  have t: "op = TerminalFlush \<longrightarrow> ru_terminal s" using assms(1,2) by (auto simp: order_inv_def)
  have o: "sorted_wrt told_before (emissions s)"
    "\<forall>e \<in> set (emissions s). status_fits (em_op e) (em_status e) \<and> em_seq e < st_seq (ru_stream s) \<and> (em_op e = TerminalFlush \<longrightarrow> ru_terminal s)"
    "\<forall>op \<in> set r. op = TerminalFlush \<longrightarrow> ru_terminal s \<and> ru_status s \<in> set END_STATUSES" "Greeting \<notin> set r"
    using assms(1,2) by (auto simp: order_inv_def)
  have w: "waiting_ops ?s' = r" using es(2) assms(5) by simp
  from es(6) show ?thesis
  proof
    assume "es = []"
    hence "emissions ?s' = emissions s" using es(1) assms(6) by simp
    thus ?thesis unfolding order_inv_def w using o es(3-5) assms(7-9) by auto
  next
    assume "\<exists>e. es = [e] \<and> em_op e = op \<and> em_text e = v \<and> em_status e = st \<and> em_seq e = st_seq (ru_stream s0)"
    then obtain e where e: "emissions ?s' = emissions s @ [e]" "em_op e = op" "em_status e = st" "em_seq e = st_seq (ru_stream s)"
      using es(1) assms(6,9) by auto
    have "op = Greeting \<longrightarrow> emissions s = []" using assms(1,2) by (auto simp: order_inv_def)
    hence "sorted_wrt told_before (emissions s @ [e])" using o(1,2) low e by (auto simp: sorted_wrt_append told_before_def)
    thus ?thesis unfolding order_inv_def w e(1) using o(2-4) es(3-5) e t assms(3,7-9) by auto
  qed
qed


subsection \<open>The output keeps the order\<close>

lemma skipped_order:
  assumes "order_inv s" "waiting_ops s = op # r"
  shows "order_inv (settle_op (s\<lparr>ru_queue := r, ru_snapshotPending := b\<rparr>))"
proof -
  have "emissions (settle_op (s\<lparr>ru_queue := r, ru_snapshotPending := b\<rparr>)) = emissions s"
    "waiting_ops (settle_op (s\<lparr>ru_queue := r, ru_snapshotPending := b\<rparr>)) = r"
    by (simp_all add: emissions_def settle_op_def waiting_ops_def)
  thus ?thesis unfolding order_inv_def using assms by (auto simp: order_inv_def settle_op_def dest: list.set_sel(2))
qed

lemma run_order:
  assumes "order_inv s" "waiting_ops s = op # r"
  shows "order_inv (run_operation sha cv url now op (s\<lparr>ru_queue := r\<rparr>))"
proof -
  have t: "op = TerminalFlush \<Longrightarrow> ru_status s \<in> set END_STATUSES" using assms by (auto simp: order_inv_def)
  show ?thesis
  proof (cases rule: run_operation_forms [OF refl, of sha cv url now op "s\<lparr>ru_queue := r\<rparr>"])
    case (1 b)
    show ?thesis unfolding 1(1) using skipped_order [OF assms] by simp
  next
    case 2
    show ?thesis unfolding 2(2) by (rule told_emit [OF assms(1)]) (use assms(2) 2(1) in \<open>simp_all add: emissions_def\<close>)
  next
    case 3
    show ?thesis unfolding 3(2) by (rule told_emit [OF assms(1)]) (use assms(2) 3 in \<open>simp_all add: emissions_def\<close>)
  next
    case (4 v cards)
    show ?thesis unfolding 4(2) by (rule told_emit [OF assms(1)]) (use assms(2) 4(1) t in \<open>simp_all add: emissions_def\<close>)
  qed
qed

lemma order_output: "order_inv s \<Longrightarrow> output_move sha cv url s s' \<Longrightarrow> order_inv s'"
proof -
  assume inv: "order_inv s"
  assume "output_move sha cv url s s'"
  thus "order_inv s'"
  proof cases
    case (put_off op r)
    have "emissions s' = emissions s" "waiting_ops s' = waiting_ops s" unfolding put_off(1) using put_off(2,3)
      by (simp_all add: emissions_def waiting_ops_def)
    thus ?thesis using inv put_off(1) by (simp add: order_inv_def)
  next
    case (runs op r now)
    thus ?thesis using run_order [OF inv] by simp
  next
    case (sent op n b)
    have "emissions s' = emissions s" "waiting_ops s' = waiting_ops s" unfolding sent(1) using sent(2)
      by (simp_all add: emissions_def waiting_ops_def sends_over_def settle_op_def)
    thus ?thesis using inv sent by (simp add: order_inv_def sends_over_def settle_op_def)
  qed (use inv in simp)
qed

text \<open>A snapshot is only emitted if the text has grown since the last one.\<close>

lemma told_put:
  assumes "told_inv cv s" "idle s" "snapshots s' = snapshots s" "ru_terminal s' = ru_terminal s"
    "ru_output s' = ru_output s" "ru_progress s' = None \<or> (\<exists>n. ru_progress s' = Some (Sending Greeting n))
      \<or> (\<exists>n. ru_progress s' = Some (Sending TerminalFlush n)) \<and> ru_terminal s"
  shows "told_inv cv s'"
proof -
  have "shown s' = shown s" using assms(2,5,6) by (cases "ru_progress s" rule: waits_of.cases) (auto simp: shown_def idle_def)
  thus ?thesis using assms by (auto simp: told_inv_def)
qed

lemma snapshot_told:
  assumes "told_inv cv s" "idle s" "\<not> ru_terminal s" "snapshots s' = snapshots s @ [e]"
    "em_text e = streamSafeContent cv (rawOutput (ru_output s))" "length (em_text e) \<noteq> deliveredTextCharacters (ru_output s)"
    "ru_output s' = ru_output s" "ru_progress s' = Some (Sending CoarseFlush (length (em_text e)))" "ru_terminal s' = ru_terminal s"
  shows "told_inv cv s'"
proof -
  have s: "sorted_wrt strict_prefix (map em_text (snapshots s))" "\<forall>x \<in> set (snapshots s). prefix (em_text x) (em_text e)"
    using assms(1,3,5) by (simp_all add: told_inv_def)
  have "shown s = deliveredTextCharacters (ru_output s)"
    using assms(2) by (cases "ru_progress s" rule: waits_of.cases) (auto simp: shown_def idle_def)
  hence l: "seen (snapshots s) \<noteq> length (em_text e)" using assms(1,3,6) by (simp add: told_inv_def)
  have "strict_prefix (em_text x) (em_text e)" if x: "x \<in> set (snapshots s)" for x
  proof -
    have last: "snapshots s = butlast (snapshots s) @ [last (snapshots s)]" using x by (metis append_butlast_last_id empty_iff list.set(1))
    have "last (snapshots s) \<in> set (snapshots s)" using x by (metis last_in_set empty_iff list.set(1))
    hence p: "strict_prefix (em_text (last (snapshots s))) (em_text e)"
      using s(2) l x by (auto simp: seen_def strict_prefix_def split: if_splits)
    have "x = last (snapshots s) \<or> strict_prefix (em_text x) (em_text (last (snapshots s)))"
    proof -
      have "sorted_wrt strict_prefix (map em_text (butlast (snapshots s) @ [last (snapshots s)]))" using s(1) last by simp
      moreover have "x \<in> set (butlast (snapshots s) @ [last (snapshots s)])" using x last by simp
      ultimately show ?thesis by (auto simp: sorted_wrt_append)
    qed
    thus ?thesis using p prefix_order.less_trans by blast
  qed
  hence "sorted_wrt strict_prefix (map em_text (snapshots s @ [e]))" using s(1) by (auto simp: sorted_wrt_append)
  thus ?thesis unfolding told_inv_def assms(4) using s(2) assms(5,7-9) by (auto simp: shown_def seen_def)
qed

lemma run_told:
  assumes "told_inv cv s" "order_inv s" "waiting_ops s = op # r" "idle s"
  shows "told_inv cv (run_operation sha cv url now op (s\<lparr>ru_queue := r\<rparr>))"
proof -
  let ?s0 = "s\<lparr>ru_queue := r\<rparr>"
  have t: "op = TerminalFlush \<Longrightarrow> ru_terminal s" using assms(2,3) by (auto simp: order_inv_def)
  have quiet: "told_inv cv (emit_stream sha cv op v st cards s1)" if "op \<noteq> CoarseFlush" "s1 = ?s0" for v st cards s1
    by (rule emit_told [OF refl, of sha cv op v st cards s1], rule told_put [OF assms(1,4)])
      (use that t in \<open>cases op; auto simp: snapshots_def emissions_def\<close>)+
  show ?thesis
  proof (cases rule: run_operation_forms [OF refl, of sha cv url now op ?s0])
    case (1 b)
    show ?thesis unfolding 1(1)
      by (rule told_put [OF assms(1,4)]) (simp_all add: settle_op_def snapshots_def emissions_def)
  next
    case 2
    show ?thesis unfolding 2(2) using quiet 2(1) by simp
  next
    case 3
    let ?v = "streamSafeContent cv (rawOutput (ru_output ?s0))" and ?s1 = "?s0\<lparr>ru_snapshotPending := False\<rparr>"
    show ?thesis unfolding 3(2)
    proof (rule emit_told [OF refl, of sha cv CoarseFlush ?v "''streaming''" "[]" ?s1], erule disjE)
      fix es assume e: "emissions (emit_stream sha cv CoarseFlush ?v ''streaming'' [] ?s1) = emissions ?s1 @ es"
        "ru_terminal (emit_stream sha cv CoarseFlush ?v ''streaming'' [] ?s1) = ru_terminal ?s1" "ru_output (emit_stream sha cv CoarseFlush ?v ''streaming'' [] ?s1) = ru_output ?s1"
      have em: "emissions ?s1 = emissions s" by (simp add: emissions_def)
      { assume "es = [] \<and> ru_progress (emit_stream sha cv CoarseFlush ?v ''streaming'' [] ?s1) = None"
        thus "told_inv cv (emit_stream sha cv CoarseFlush ?v ''streaming'' [] ?s1)"
          by (intro told_put [OF assms(1,4)]) (use e em in \<open>simp_all add: snapshots_def\<close>) }
      { assume "(\<exists>x. es = [x] \<and> em_op x = CoarseFlush \<and> em_text x = ?v \<and> em_status x = ''streaming'' \<and> em_seq x = st_seq (ru_stream ?s1))
          \<and> ru_progress (emit_stream sha cv CoarseFlush ?v ''streaming'' [] ?s1) = Some (Sending CoarseFlush (length ?v))"
        then obtain x where x: "es = [x]" "em_op x = CoarseFlush" "em_text x = ?v"
          "ru_progress (emit_stream sha cv CoarseFlush ?v ''streaming'' [] ?s1) = Some (Sending CoarseFlush (length ?v))" by blast
        show "told_inv cv (emit_stream sha cv CoarseFlush ?v ''streaming'' [] ?s1)"
          by (rule snapshot_told [OF assms(1,4), of _ x]) (use e em x 3(3,5) in \<open>simp_all add: snapshots_def\<close>) }
    qed
  next
    case (4 v cards)
    show ?thesis unfolding 4(2) using quiet 4(1) by simp
  qed
qed

lemma told_output: "told_inv cv s \<Longrightarrow> order_inv s \<Longrightarrow> output_move sha cv url s s' \<Longrightarrow> told_inv cv s'"
proof -
  assume inv: "told_inv cv s" "order_inv s"
  assume "output_move sha cv url s s'"
  thus "told_inv cv s'"
  proof cases
    case (put_off op r)
    have "snapshots s' = snapshots s" "shown s' = shown s" unfolding put_off(1) using put_off(2) by (simp_all add: snapshots_def emissions_def shown_def)
    thus ?thesis using inv(1) put_off(1) by (simp add: told_inv_def)
  next
    case (runs op r now)
    thus ?thesis using run_told [OF inv] by simp
  next
    case (sent op n b)
    have "snapshots s' = snapshots s" unfolding sent(1) using sent(2) by (simp add: snapshots_def emissions_def sends_over_def settle_op_def)
    moreover have "shown s' = shown s \<or> ru_terminal s"
      unfolding sent(1) using sent(2) inv(1) by (cases op) (auto simp: shown_def sends_over_def settle_op_def told_inv_def)
    ultimately show ?thesis using inv(1) sent by (auto simp: told_inv_def sends_over_def settle_op_def)
  qed (use inv in simp)
qed

definition story_inv :: "(jstr \<Rightarrow> jnum) \<Rightarrow> task_run \<Rightarrow> bool" where
  "story_inv cv s \<longleftrightarrow> life_inv s \<and> order_inv s \<and> told_inv cv s"

lemma story_step:
  assumes "story_inv cv s"
  shows "story_inv cv (task_step sha cv url s e)"
proof -
  have inv: "life_inv s" "order_inv s" "told_inv cv s" using assms by (simp_all add: story_inv_def)
  from step_forms [OF inv(1), of sha cv url e] show ?thesis
  proof
    assume out: "output_move sha cv url s (task_step sha cv url s e)"
    show ?thesis using life_step [OF inv(1)] order_output [OF inv(2) out] told_output [OF inv(3,2) out] by (simp add: story_inv_def)
  next
    assume moved: "moves s (task_step sha cv url s e)"
    show ?thesis using life_step [OF inv(1)] told_moves [OF moved inv(2,3)] by (simp add: story_inv_def)
  qed
qed

interpretation task_story: state_machine "new_run task t resume" "task_step sha cv url" "story_inv cv"
proof
  show "story_inv cv (new_run task t resume)" by (simp add: story_inv_def life_start told_start)
qed (rule story_step)


end
