(* ===== verification/TaskRunEnd.thy ===== *)
theory TaskRunEnd imports TaskRunTold begin

text \<open>A task that is over has told its end, and only once if the watchdog keeps apart from the storing of a session.\<close>

subsection \<open>How often the end is told\<close>

lemma ends_fields [simp]:
  "ends (s\<lparr>ru_reader := p\<rparr>) = ends s" "ends (s\<lparr>ru_watchdog := w\<rparr>) = ends s" "ends (s\<lparr>ru_flushTimer := t\<rparr>) = ends s"
  "ends (s\<lparr>ru_suppressed := b\<rparr>) = ends s" "ends (s\<lparr>ru_current := b\<rparr>) = ends s" "ends (s\<lparr>ru_lastEventId := i\<rparr>) = ends s"
  "ends (s\<lparr>ru_opened := b\<rparr>) = ends s" "ends (s\<lparr>ru_timedOut := b\<rparr>) = ends s" "ends (s\<lparr>ru_terminal := b\<rparr>) = ends s"
  "ends (s\<lparr>ru_output := a\<rparr>) = ends s" "ends (s\<lparr>ru_status := st\<rparr>) = ends s" "ends (s\<lparr>ru_stream := str\<rparr>) = ends s"
  "ends (s\<lparr>ru_snapshotPending := b\<rparr>) = ends s" "ends (s\<lparr>ru_settled := i\<rparr>) = ends s"
  by (simp_all add: ends_def waiting_ops_def)

lemma ends_queued [simp]:
  "ends (queueOutput op s) = ends s + (if op = TerminalFlush then 1 else 0)" "ends (queueTerminal s) = Suc (ends s)" "ends (flushCoarse s) = ends s"
  "ends (noted es s) = ends s + length (filter is_end es)" "ends (awaiting phase s) = ends s" "ends (scheduleDeltaFlush cv s) = ends s"
proof -
  show q: "ends (queueOutput op s) = ends s + (if op = TerminalFlush then 1 else 0)" for op s
    by (simp add: queueOutput_def ends_def waiting_ops_def)
  show "ends (queueTerminal s) = Suc (ends s)" by (simp add: queueTerminal_def q)
  show c: "ends (flushCoarse s) = ends s" for s by (simp add: flushCoarse_def q)
  show "ends (noted es s) = ends s + length (filter is_end es)" by (simp add: noted_def ends_def waiting_ops_def)
  show "ends (awaiting phase s) = ends s" by (simp add: awaiting_def)
  show "ends (scheduleDeltaFlush cv s) = ends s" by (simp add: scheduleDeltaFlush_def Let_def c)
qed

lemma ends_emit:
  "ends (emit_stream sha cv op v st cards s) = length (filter is_end (ru_log s)) + length (filter (\<lambda>x. x = TerminalFlush) (op # ru_queue s))"
  by (cases rule: emit_forms [of sha cv op v st cards s]) (simp_all add: settle_op_def noted_def ends_def waiting_ops_def)

lemma ends_run:
  "waiting_ops s = op # r \<Longrightarrow> ends (run_operation sha cv url now op (s\<lparr>ru_queue := r\<rparr>)) \<le> ends s
    \<and> (ends (run_operation sha cv url now op (s\<lparr>ru_queue := r\<rparr>)) = ends s \<or> ru_suppressed s \<or> \<not> ru_current s)"
proof (cases rule: run_operation_forms [OF refl, of sha cv url now op "s\<lparr>ru_queue := r\<rparr>"])
  assume w: "waiting_ops s = op # r"
  case (1 b)
  show ?thesis unfolding 1(1) using 1(2) w by (auto simp: settle_op_def ends_def waiting_ops_def)
next
  assume w: "waiting_ops s = op # r"
  { case 2
    show ?thesis unfolding 2(2) using 2(1) w by (simp add: ends_emit) (simp add: ends_def) }
  { case 3
    show ?thesis unfolding 3(2) using 3(1) w by (simp add: ends_emit) (simp add: ends_def) }
  { case (4 v cards)
    show ?thesis unfolding 4(2) using 4(1) w by (simp add: ends_emit) (simp add: ends_def) }
qed

lemma ends_output: "output_move sha cv url s s' \<Longrightarrow> life_inv s \<Longrightarrow> ends s' \<le> ends s \<and> (ends s' = ends s \<or> ru_suppressed s)"
proof (induction rule: output_move.induct)
  case (put_off s op r)
  thus ?case by (simp add: ends_def waiting_ops_def)
next
  case (runs s op r now)
  thus ?case using ends_run [OF runs(1)] by (auto simp: life_inv_def)
next
  case (sent s op n b)
  thus ?case by (simp add: sends_over_def settle_op_def ends_def waiting_ops_def)
qed simp

definition expiring :: "task_run \<Rightarrow> bool" where
  "expiring s \<longleftrightarrow> ru_watchdog s = Cancelling \<or> ru_watchdog s = Closing"

definition reported :: "task_run \<Rightarrow> bool" where
  "reported s \<longleftrightarrow> (ru_terminal s \<and> \<not> expiring s \<longrightarrow> ru_suppressed s \<or> ends s \<ge> 1)"

definition once :: "task_run \<Rightarrow> bool" where
  "once s \<longleftrightarrow> ends s \<le> 1 \<and> (\<not> ru_terminal s \<or> expiring s \<longrightarrow> ends s = 0) \<and> (ru_timedOut s \<longrightarrow> (\<forall>ev. ru_reader s \<noteq> ApplyingSession ev))"

lemmas end_simps = reported_def expiring_def once_def life_inv_def reached_def transport_failed_def queueTerminal_def queueOutput_def

lemma end_reached: "reported (awaiting phase (reached st code s))"
  "once s \<Longrightarrow> \<not> ru_terminal s \<Longrightarrow> life_inv s \<Longrightarrow> \<forall>n ev. phase n \<noteq> ApplyingSession ev \<Longrightarrow> once (awaiting phase (reached st code s))"
proof -
  have e: "ends (reached st code s) = Suc (ends s)" by (simp add: reached_def)
  show "reported (awaiting phase (reached st code s))" by (simp add: reported_def e)
  assume "once s" "\<not> ru_terminal s" "life_inv s" "\<forall>n ev. phase n \<noteq> ApplyingSession ev"
  moreover have "\<not> expiring s" using \<open>life_inv s\<close> \<open>\<not> ru_terminal s\<close> by (auto simp: life_inv_def expiring_def)
  ultimately show "once (awaiting phase (reached st code s))"
    by (simp add: once_def e) (simp add: awaiting_def reached_def queueTerminal_def queueOutput_def expiring_def)
qed


definition keeps_end :: "task_run \<Rightarrow> task_run \<Rightarrow> bool" where
  "keeps_end s s' \<longleftrightarrow> (reported s \<longrightarrow> reported s') \<and> (once s \<longrightarrow> once s')"

lemma keeps_trans: "keeps_end s s1 \<Longrightarrow> keeps_end s1 s2 \<Longrightarrow> keeps_end s s2"
  by (simp add: keeps_end_def)

lemma keeps_refl: "keeps_end s s"
  by (simp add: keeps_end_def)

lemma keeps_coarse: "keeps_end s (flushCoarse (s\<lparr>ru_flushTimer := t\<rparr>))"
proof -
  let ?s' = "flushCoarse (s\<lparr>ru_flushTimer := t\<rparr>)"
  have "ru_terminal ?s' = ru_terminal s" "ru_watchdog ?s' = ru_watchdog s" "ru_suppressed ?s' = ru_suppressed s" "ru_timedOut ?s' = ru_timedOut s"
    "ru_reader ?s' = ru_reader s" by (simp_all add: flushCoarse_def queueOutput_def)
  thus ?thesis by (simp add: keeps_end_def reported_def once_def expiring_def)
qed

lemma keeps_reached:
  "\<not> ru_terminal s \<or> ru_timedOut s \<and> ru_reader s = ApplyingSession ev \<Longrightarrow> life_inv s \<Longrightarrow> \<forall>n ev. phase n \<noteq> ApplyingSession ev
    \<Longrightarrow> keeps_end s (awaiting phase (reached st code s))"
  using end_reached(1) [of phase st code s] end_reached(2) [of s phase st code] by (auto simp: keeps_end_def once_def)

lemma keeps_finally_tail: "keeps_end s (finally_tail s)"
  by (simp add: keeps_end_def finally_tail_def awaiting_def reported_def once_def expiring_def)

lemma keeps_finally_flush: "life_inv s \<Longrightarrow> keeps_end s (finally_flush s)"
  using keeps_reached [of s] keeps_finally_tail by (simp add: finally_flush_def transport_failed_def)

lemma keeps_finally_begin: "life_inv s \<Longrightarrow> ru_reader s \<noteq> ReaderDone \<Longrightarrow> keeps_end s (finally_begin s)"
proof (cases "ru_watchdog s")
  case (Watch t)
  assume l: "life_inv s" "ru_reader s \<noteq> ReaderDone"
  let ?s1 = "s\<lparr>ru_watchdog := Watch NoTimer\<rparr>"
  have "keeps_end s ?s1" by (simp add: keeps_end_def reported_def once_def expiring_def Watch)
  moreover have "life_inv ?s1" using l Watch by (cases "ru_reader s") (auto simp: life_simps)
  ultimately show ?thesis using keeps_trans keeps_finally_flush by (simp add: finally_begin_def Watch)
qed (simp_all add: finally_begin_def keeps_end_def reported_def once_def expiring_def)

lemma keeps_read_event:
  assumes "life_inv s" "ru_reader s = Reading \<and> \<not> ru_timedOut s \<or> ru_reader s = ApplyingSession ev"
  shows "keeps_end s (take_event cv url ev s)"
proof -
  have t: "\<not> ru_terminal s \<or> ru_timedOut s \<and> ru_reader s = ApplyingSession ev" using assms by (auto simp: life_inv_def)
  have out: "keeps_end s (s\<lparr>ru_output := a\<rparr>)" "keeps_end s (s\<lparr>ru_output := a, ru_reader := Reading\<rparr>)" "keeps_end s (s\<lparr>ru_reader := Reading\<rparr>)"
    for a by (simp_all add: keeps_end_def reported_def once_def expiring_def)
  have r: "keeps_end s (awaiting Flushing (reached st code s))" for st code using keeps_reached [OF t assms(1)] by simp
  have ro: "keeps_end s (awaiting Flushing (reached st code (s\<lparr>ru_output := a\<rparr>)))" for st code a
  proof -
    have "life_inv (s\<lparr>ru_output := a\<rparr>)" using assms by (cases "ru_watchdog s") (auto simp: life_simps)
    thus ?thesis by (rule keeps_trans [OF out(1) keeps_reached [where ev = ev, rotated]]) (use t in simp_all)
  qed
  have d: "keeps_end s1 (scheduleDeltaFlush cv s1)" for s1
    using keeps_coarse [of s1] keeps_refl [of s1]
    by (auto simp: scheduleDeltaFlush_def Let_def keeps_end_def reported_def once_def expiring_def)
  show ?thesis using out r ro keeps_trans [OF out(2) d] by (simp add: take_event_def Let_def split: agent_body.split)
qed

lemma keeps_noted: "keeps_end s s' \<Longrightarrow> \<forall>e \<in> set es. \<not> is_end e \<Longrightarrow> keeps_end s (noted es s')"
proof (erule keeps_trans)
  assume "\<forall>e \<in> set es. \<not> is_end e"
  hence "ends (noted es s') = ends s'" by simp
  thus "keeps_end s' (noted es s')" by (simp add: keeps_end_def reported_def once_def expiring_def) (simp add: noted_def)
qed

lemma keeps_next_event: "life_inv s \<Longrightarrow> ru_reader s = Reading \<Longrightarrow> keeps_end s (next_event cv url ev s)"
proof -
  assume l: "life_inv s" "ru_reader s = Reading"
  let ?s1 = "noted [Handled ev] (s\<lparr>ru_lastEventId := ae_id ev\<rparr>)"
  have k: "keeps_end s ?s1" by (rule keeps_noted) (simp_all add: keeps_end_def reported_def once_def expiring_def)
  have l1: "life_inv (s\<lparr>ru_lastEventId := i\<rparr>)" for i using l by (cases "ru_watchdog s") (auto simp: life_simps)
  have "\<not> ru_timedOut s \<Longrightarrow> keeps_end ?s1 (take_event cv url ev ?s1)"
    by (rule keeps_read_event, simp add: l1) (use l in \<open>simp add: noted_def\<close>)
  moreover have "keeps_end s (noted [SessionApplied r st se] (noted [Handled ev] (s\<lparr>ru_lastEventId := ae_id ev, ru_reader := ApplyingSession ev\<rparr>)))"
    if "\<not> ru_timedOut s" for r st se
    by (rule keeps_noted, rule keeps_noted) (use that in \<open>simp_all add: keeps_end_def reported_def once_def expiring_def\<close>)
  ultimately show ?thesis using keeps_trans [OF k] keeps_finally_begin l keeps_refl by (simp add: next_event_def Let_def)
qed

lemma keeps_next_fails: "life_inv s \<Longrightarrow> ru_reader s = Reading \<or> ru_reader s = Opening n \<Longrightarrow> keeps_end s (next_fails s)"
  using keeps_reached [of s] keeps_finally_begin by (auto simp: next_fails_def transport_failed_def life_inv_def)

lemma keeps_run_over: "keeps_end s (run_over s)"
  unfolding run_over_def by (simp, rule keeps_noted) (simp_all add: keeps_end_def reported_def once_def expiring_def)

lemma keeps_wakes: "life_inv s \<Longrightarrow> keeps_end s (reader_wakes opened s)"
proof (cases "ru_reader s")
  case (Opening n)
  assume l: "life_inv s"
  hence o: "\<not> ru_terminal s" "ru_watchdog s = Watch NoTimer" using Opening by (simp_all add: life_inv_def)
  have "keeps_end s (s\<lparr>ru_suppressed := True\<rparr>)" "keeps_end s (s\<lparr>ru_opened := True, ru_watchdog := Watch Ticking, ru_reader := Reading\<rparr>)"
    using o by (simp_all add: keeps_end_def reported_def once_def expiring_def)
  thus ?thesis using keeps_trans [OF _ keeps_run_over] keeps_next_fails [OF l] keeps_refl Opening
    by (simp add: reader_wakes_def begin_reading_def)
qed (simp_all add: reader_wakes_def keeps_refl keeps_finally_begin keeps_finally_flush keeps_finally_tail keeps_run_over)

lemma keeps_watchdog:
  "life_inv s \<Longrightarrow> ru_watchdog s = Watch Ticking \<Longrightarrow> (reported s \<longrightarrow> reported (expireTask s)) \<and>
     ((\<forall>ev. ru_reader s \<noteq> ApplyingSession ev) \<longrightarrow> once s \<longrightarrow> once (expireTask s))"
  "life_inv s \<Longrightarrow> keeps_end s (watchdog_wakes s)"
proof -
  show "(reported s \<longrightarrow> reported (expireTask s)) \<and> ((\<forall>ev. ru_reader s \<noteq> ApplyingSession ev) \<longrightarrow> once s \<longrightarrow> once (expireTask s))"
    if "life_inv s" "ru_watchdog s = Watch Ticking"
    using that by (auto simp: expireTask_def reported_def once_def expiring_def) (auto simp: noted_def life_inv_def)
  show "keeps_end s (watchdog_wakes s)" if l: "life_inv s"
  proof (cases "ru_watchdog s")
    case Cancelling
    have "keeps_end s (noted [ReaderClosed] (s\<lparr>ru_watchdog := Closing\<rparr>))"
      by (rule keeps_noted) (simp_all add: keeps_end_def reported_def once_def expiring_def Cancelling)
    thus ?thesis by (simp add: watchdog_wakes_def Cancelling)
  next
    case Closing
    have t: "ru_terminal s" using l Closing by (simp add: life_inv_def)
    show ?thesis
      by (simp add: watchdog_wakes_def Closing Let_def keeps_end_def reported_def once_def expiring_def)
        (simp add: queueTerminal_def queueOutput_def t)
  qed (simp_all add: watchdog_wakes_def keeps_end_def reported_def once_def expiring_def)
qed

lemma keeps_dispose: "keeps_end s (dispose_task s)"
  unfolding dispose_task_def
  by (rule keeps_noted) (auto simp: keeps_end_def reported_def once_def expiring_def split: watchdog.splits)

lemma keeps_output: "life_inv s \<Longrightarrow> output_move sha cv url s s' \<Longrightarrow> keeps_end s s'"
proof -
  assume l: "life_inv s" and o: "output_move sha cv url s s'"
  have "output_only s s'" using output_move_only [OF o] by simp
  thus ?thesis using ends_output [OF o l] by (auto simp: keeps_end_def reported_def once_def expiring_def output_only_def)
qed

text \<open>Whether the watchdog of a run never fires while a session is stored.\<close>

definition watchdog_apart :: "task_run \<Rightarrow> run_event \<Rightarrow> bool" where
  "watchdog_apart s e \<longleftrightarrow> \<not> (e = WatchdogTimeout \<and> (\<exists>ev. ru_reader s = ApplyingSession ev))"

lemma end_step:
  assumes "life_inv s"
  shows "(reported s \<longrightarrow> reported (task_step sha cv url s e)) \<and> (watchdog_apart s e \<longrightarrow> once s \<longrightarrow> once (task_step sha cv url s e))"
proof (cases e)
  case SessionSettled
  have "keeps_end s (session_settled cv url ev s)" if "ru_reader s = ApplyingSession ev" for ev
    using keeps_finally_begin keeps_read_event assms that by (simp add: session_settled_def)
  hence "keeps_end s (task_step sha cv url s e)" using SessionSettled keeps_refl by (simp split: reader.split)
  thus ?thesis by (simp add: keeps_end_def)
next
  case WatchdogTimeout
  thus ?thesis using keeps_watchdog(1) [OF assms] by (simp add: watchdog_apart_def)
qed (use keeps_output [OF assms output_turn_move] keeps_output [OF assms drain_over_move] keeps_output [OF assms sends_over_move]
    keeps_wakes [OF assms] keeps_next_event [OF assms] keeps_finally_begin [OF assms] keeps_next_fails [OF assms] keeps_coarse [of s]
    keeps_watchdog(2) [OF assms] keeps_dispose [of s] in \<open>simp_all add: keeps_end_def\<close>)


end
