(* ===== verification/TaskRunTheorems.thy ===== *)
theory TaskRunTheorems imports TaskRunEnd begin

text \<open>
  What holds of a running task: what it tells the conversation and in which order, that it tells its end, and that
  it can always come to it; with a run in which the watchdog makes it tell its end twice.
\<close>

subsection \<open>The events that were handled\<close>

definition handled_inv :: "task_run \<Rightarrow> bool" where
  "handled_inv s \<longleftrightarrow> sorted_wrt (\<lambda>a b. ae_id a < ae_id b) (handled s)
     \<and> (\<forall>ev \<in> set (handled s). ae_id ev \<le> ru_lastEventId s \<and> ae_task ev = ru_taskId s)
     \<and> (ru_reader s = ReaderDone \<longrightarrow> Resolved \<in> set (ru_log s))"

text \<open>Only the next event changes what was handled; the reader returns when the end is resolved.\<close>

definition handles_none :: "task_run \<Rightarrow> task_run \<Rightarrow> bool" where
  "handles_none s s' \<longleftrightarrow> handled s' = handled s \<and> ru_lastEventId s' = ru_lastEventId s \<and> ru_taskId s' = ru_taskId s
     \<and> set (ru_log s) \<subseteq> set (ru_log s') \<and> (ru_reader s' = ReaderDone \<longrightarrow> ru_reader s = ReaderDone \<or> Resolved \<in> set (ru_log s'))"

lemma handles_output: "output_move sha cv url s s' \<Longrightarrow> handles_none s s'"
  using output_move_only [of sha cv url s s'] by (simp add: handles_none_def output_only_def)

lemmas handles_simps = handles_none_def handled_def queue_defs

lemma handles_small:
  "handles_none s (flushCoarse (s\<lparr>ru_flushTimer := t\<rparr>))" "handles_none s (finally_begin s)" "handles_none s (next_fails s)"
  "handles_none s (reader_wakes opened s)" "handles_none s (expireTask s)" "handles_none s (watchdog_wakes s)" "handles_none s (dispose_task s)"
proof -
  have t: "handles_none s (finally_flush s)" for s
    by (simp add: finally_flush_def finally_tail_def awaiting_def transport_failed_def reached_def handles_simps)
  have b: "handles_none s (finally_begin s)" for s
    using t [of "s\<lparr>ru_watchdog := Watch NoTimer\<rparr>"] by (auto simp: finally_begin_def handles_none_def handled_def split: watchdog.split)
  have f: "handles_none s (next_fails s)" for s
    using b [of s] by (simp add: next_fails_def awaiting_def transport_failed_def reached_def) (simp add: handles_simps)
  show "handles_none s (finally_begin s)" "handles_none s (next_fails s)" by (rule b f)+
  show "handles_none s (flushCoarse (s\<lparr>ru_flushTimer := t\<rparr>))" by (simp add: handles_simps)
  have "handles_none s (begin_reading opened s)" using f [of s] by (simp add: begin_reading_def run_over_def) (auto simp: handles_simps)
  thus "handles_none s (reader_wakes opened s)" using b [of s] t [of s]
    by (simp add: reader_wakes_def run_over_def finally_tail_def awaiting_def split: reader.split) (auto simp: handles_simps)
  show "handles_none s (expireTask s)" by (auto simp: expireTask_def handles_simps)
  show "handles_none s (watchdog_wakes s)" by (auto simp: watchdog_wakes_def Let_def handles_simps split: watchdog.split)
  show "handles_none s (dispose_task s)" by (auto simp: dispose_task_def handles_simps)
qed

lemma handles_read_event: "handles_none s (take_event cv url ev s)"
  by (simp add: take_event_def reached_def awaiting_def Let_def handles_simps split: agent_body.split)

lemma handled_next_event: "handled_inv s \<Longrightarrow> ru_reader s = Reading \<Longrightarrow> handled_inv (next_event cv url ev s)"
proof -
  assume inv: "handled_inv s" and reading: "ru_reader s = Reading"
  let ?s1 = "noted [Handled ev] (s\<lparr>ru_lastEventId := ae_id ev\<rparr>)"
  have keep: "handled_inv s2" if "handled_inv s1" "handles_none s1 s2" for s1 s2 using that by (auto simp: handled_inv_def handles_none_def)
  have one: "handled_inv ?s1" if "ru_lastEventId s < ae_id ev" "ae_task ev = ru_taskId s"
  proof -
    have h: "handled ?s1 = handled s @ [ev]" "ru_lastEventId ?s1 = ae_id ev" "ru_taskId ?s1 = ru_taskId s" by (simp_all add: handled_def noted_def)
    show ?thesis unfolding handled_inv_def h using inv that reading by (fastforce simp: handled_inv_def sorted_wrt_append)
  qed
  have "handles_none ?s1 (noted [SessionApplied r st se] (noted [Handled ev] (s\<lparr>ru_lastEventId := ae_id ev, ru_reader := ApplyingSession ev\<rparr>)))" for r st se
    by (auto simp: handles_simps)
  thus ?thesis using inv keep [OF one] keep [OF inv] handles_small(2) handles_read_event
    by (simp add: next_event_def Let_def)
qed

lemma handled_step: "handled_inv s \<Longrightarrow> handled_inv (task_step sha cv url s e)"
proof -
  assume inv: "handled_inv s"
  have keep: "handled_inv s'" if "handles_none s s'" for s' using inv that by (auto simp: handled_inv_def handles_none_def)
  show ?thesis
  proof (cases e)
    case SessionSettled
    show ?thesis using SessionSettled keep [OF handles_small(2)] keep [OF handles_read_event] inv
      by (simp add: session_settled_def split: reader.split)
  qed (use keep [OF handles_output [OF output_turn_move]] keep [OF handles_output [OF drain_over_move]]
      keep [OF handles_output [OF sends_over_move]] keep [OF handles_small(1)] keep [OF handles_small(2)] keep [OF handles_small(3)]
      keep [OF handles_small(4)] keep [OF handles_small(5)] keep [OF handles_small(6)] keep [OF handles_small(7)]
      handled_next_event inv in simp_all)
qed

interpretation task_handled: state_machine "new_run task t resume" "task_step sha cv url" handled_inv
proof
  show "handled_inv (new_run task t resume)" by (simp add: handled_inv_def new_run_def handled_def)
qed (rule handled_step)

text \<open>C38 A running task handles the events of the agent in the order of their numbers, each at most once, and only its
  own.  What it tells the conversation has growing sequence numbers: first that the task is processing, then snapshots
  of the text, each of which continues the one before and is longer, and then the end; after the end no snapshot
  follows, whatever the timers, the disposal and the watchdog do in between.\<close>

theorem stream_is_told_in_order:
  fixes sha cv url task t resume es
  defines "s \<equiv> run_task sha cv url task t resume es"
  shows "sorted_wrt (\<lambda>a b. ae_id a < ae_id b) (handled s) \<and> list_all (\<lambda>ev. ae_task ev = ru_taskId s) (handled s)
    \<and> sorted_wrt told_before (emissions s) \<and> list_all (\<lambda>e. status_fits (em_op e) (em_status e)) (emissions s)
    \<and> sorted_wrt strict_prefix (map em_text (snapshots s))"
proof -
  have "story_inv cv s" unfolding s_def run_task_def by (rule task_story.run_inv)
  moreover have "handled_inv s" unfolding s_def run_task_def by (rule task_handled.run_inv)
  ultimately show ?thesis by (simp add: story_inv_def order_inv_def told_inv_def handled_inv_def list_all_iff)
qed

primrec watchdog_apart_run :: "(bytes \<Rightarrow> bytes) \<Rightarrow> (jstr \<Rightarrow> jnum) \<Rightarrow> url_parser \<Rightarrow> task_run \<Rightarrow> run_event list \<Rightarrow> bool" where
  "watchdog_apart_run sha cv url s [] = True"
| "watchdog_apart_run sha cv url s (e # es) = (watchdog_apart s e \<and> watchdog_apart_run sha cv url (task_step sha cv url s e) es)"

lemma end_run:
  "life_inv s \<Longrightarrow> reported s \<Longrightarrow> reported (run_steps (task_step sha cv url) s es)
     \<and> (watchdog_apart_run sha cv url s es \<longrightarrow> once s \<longrightarrow> once (run_steps (task_step sha cv url) s es))"
proof (induction es arbitrary: s)
  case (Cons e es)
  thus ?case using end_step [OF Cons.prems(1), of sha cv url e] life_step by simp
qed simp

lemma end_start: "reported (new_run task t resume)" "once (new_run task t resume)"
  by (simp_all add: reported_def once_def new_run_def expiring_def ends_def waiting_ops_def)

text \<open>C39 A task whose reader has returned has nothing left to send, and unless its binding was disposed it has told
  its end, or the end it told was refused by the encoder of the stream.  It tells it only once, unless the watchdog
  fires while the session of an event is being stored.\<close>

theorem task_tells_its_end_once:
  fixes sha cv url task t resume es
  defines "s \<equiv> run_task sha cv url task t resume es"
  assumes "ru_reader s = ReaderDone"
  shows "ru_queue s = [] \<and> ru_progress s = None \<and> (ru_suppressed s \<or> list_ex is_end (ru_log s))
    \<and> (watchdog_apart_run sha cv url (new_run task t resume) es \<longrightarrow> length (filter is_end (ru_log s)) = (if list_ex is_end (ru_log s) then 1 else 0))"
proof -
  have l: "life_inv s" unfolding s_def run_task_def by (rule task_life.run_inv)
  have r: "reported s" "watchdog_apart_run sha cv url (new_run task t resume) es \<Longrightarrow> once s"
    unfolding s_def run_task_def using end_run [OF life_start end_start(1)] end_start(2) by auto
  have u: "unsettled s = 0" "ru_terminal s \<or> ru_suppressed s" "resting (ru_watchdog s)" using l assms(2) by (simp_all add: life_inv_def)
  hence n: "ru_queue s = []" "ru_progress s = None" by (auto simp: unsettled_def split: if_splits)
  hence e: "ends s = length (filter is_end (ru_log s))" by (simp add: ends_def waiting_ops_def)
  have x: "0 < length (filter is_end (ru_log s)) \<longleftrightarrow> list_ex is_end (ru_log s)" by (auto simp: list_ex_iff filter_empty_conv)
  have "ru_suppressed s \<or> 1 \<le> ends s" using r(1) u(2,3) by (auto simp: reported_def expiring_def resting_def)
  hence "ru_suppressed s \<or> list_ex is_end (ru_log s)" using x e by auto
  moreover have "length (filter is_end (ru_log s)) \<le> 1" if "watchdog_apart_run sha cv url (new_run task t resume) es"
    using r(2) [OF that] e by (simp add: once_def)
  ultimately show ?thesis using n x by (cases "list_ex is_end (ru_log s)") (auto simp: Suc_le_eq intro!: le_antisym)
qed


subsection \<open>A task can always come to its end\<close>

text \<open>What is only an answer: of the worker, of the store, of the reader that has no more events, or of the task port.\<close>

fun answer :: "run_event \<Rightarrow> bool" where
  "answer (NextEvent ev) \<longleftrightarrow> False"
| "answer FlushTimeout \<longleftrightarrow> False"
| "answer WatchdogTimeout \<longleftrightarrow> False"
| "answer DisposeTask \<longleftrightarrow> False"
| "answer e \<longleftrightarrow> True"

definition leads :: "(bytes \<Rightarrow> bytes) \<Rightarrow> (jstr \<Rightarrow> jnum) \<Rightarrow> url_parser \<Rightarrow> task_run \<Rightarrow> task_run \<Rightarrow> bool" where
  "leads sha cv url s s' \<longleftrightarrow> (\<exists>es. list_all answer es \<and> s' = run_steps (task_step sha cv url) s es)"

lemma leads_refl: "leads sha cv url s s"
  unfolding leads_def by (rule exI [of _ "[]"]) simp

lemma leads_trans: "leads sha cv url s s1 \<Longrightarrow> leads sha cv url s1 s2 \<Longrightarrow> leads sha cv url s s2"
proof -
  assume "leads sha cv url s s1" "leads sha cv url s1 s2"
  then obtain a b where "list_all answer a" "s1 = run_steps (task_step sha cv url) s a" "list_all answer b" "s2 = run_steps (task_step sha cv url) s1 b"
    by (auto simp: leads_def)
  thus ?thesis unfolding leads_def by (intro exI [of _ "a @ b"]) (simp add: run_steps_append)
qed

lemma leads_one: "answer e \<Longrightarrow> leads sha cv url s (task_step sha cv url s e)"
  unfolding leads_def by (rule exI [of _ "[e]"]) simp

lemma leads_life: "leads sha cv url s s' \<Longrightarrow> life_inv s \<Longrightarrow> life_inv s'"
  by (auto simp: leads_def intro: task_life.run_from_inv)

text \<open>The output that waits can be sent.\<close>

fun progress_left :: "progress option \<Rightarrow> nat" where
  "progress_left None = 0"
| "progress_left (Some (Sending op n)) = 1"
| "progress_left (Some (Draining op)) = 2"

lemma run_progress: "ru_queue (run_operation sha cv url now op s) = ru_queue s \<and> progress_left (ru_progress (run_operation sha cv url now op s)) \<le> Suc 0"
proof -
  have e: "ru_queue (emit_stream sha cv op v st cards s1) = ru_queue s1 \<and> progress_left (ru_progress (emit_stream sha cv op v st cards s1)) \<le> Suc 0" for op v st cards s1
    by (cases rule: emit_forms [of sha cv op v st cards s1]) (simp_all add: settle_op_def noted_def)
  show ?thesis
    by (cases rule: run_operation_forms [OF refl, of sha cv url now op s]) (simp_all add: e, simp_all add: settle_op_def)
qed

lemma output_drains: "\<exists>s'. leads sha cv url s s' \<and> output_only s s' \<and> unsettled s' = 0"
proof (induction "2 * length (ru_queue s) + progress_left (ru_progress s)" arbitrary: s rule: less_induct)
  case less
  have step: ?case if "answer e" "output_move sha cv url s (task_step sha cv url s e)"
    "2 * length (ru_queue (task_step sha cv url s e)) + progress_left (ru_progress (task_step sha cv url s e))
       < 2 * length (ru_queue s) + progress_left (ru_progress s)" for e
    using less [OF that(3)] leads_trans [OF leads_one [OF that(1)]] output_move_only [OF that(2)] output_only_trans by blast
  show ?case
  proof (cases "ru_progress s" rule: progress_left.cases)
    case 1
    show ?thesis
    proof (cases "ru_queue s")
      case Nil
      have "output_only s s" by (simp add: output_only_def)
      thus ?thesis using Nil 1 leads_refl by (intro exI [of _ s]) (simp add: unsettled_def)
    next
      case (Cons op r)
      show ?thesis
        by (rule step [of "OutputTurn False 0"]) (use output_turn_move [of sha cv url s False 0] run_progress [of sha cv url 0 op "s\<lparr>ru_queue := r\<rparr>"] Cons 1 in
          \<open>simp_all add: output_turn_def Let_def\<close>)
    qed
  next
    case (2 op n)
    show ?thesis
      by (rule step [of "SendsOver True"]) (use sends_over_move [of sha cv url s True] 2 in \<open>simp_all add: sends_over_def settle_op_def\<close>)
  next
    case (3 op)
    show ?thesis
      by (rule step [of "DrainOver 0"]) (use drain_over_move [of sha cv url s 0] run_progress [of sha cv url 0 op s] 3 in \<open>simp_all add: drain_over_def\<close>)
  qed
qed

text \<open>The watchdog that has fired comes to its end.\<close>

fun watchdog_left :: "watchdog \<Rightarrow> nat" where
  "watchdog_left Cancelling = 3"
| "watchdog_left Closing = 2"
| "watchdog_left (FlushingTimeout n) = 1"
| "watchdog_left w = 0"

lemma watchdog_settles:
  "life_inv s \<Longrightarrow> \<exists>s'. leads sha cv url s s' \<and> ru_reader s' = ru_reader s \<and> watchdog_left (ru_watchdog s') = 0 \<and> unsettled s' = 0"
proof (induction "watchdog_left (ru_watchdog s)" arbitrary: s rule: less_induct)
  case less
  obtain s1 where s1: "leads sha cv url s s1" "output_only s s1" "unsettled s1 = 0" using output_drains by blast
  have l: "life_inv s1" using leads_life [OF s1(1) less.prems] .
  have same: "ru_watchdog s1 = ru_watchdog s" "ru_reader s1 = ru_reader s" using s1(2) by (simp_all add: output_only_def)
  show ?case
  proof (cases "watchdog_left (ru_watchdog s) = 0")
    case True
    thus ?thesis using s1 same by auto
  next
    case False
    let ?s2 = "task_step sha cv url s1 WatchdogWakes"
    have "watchdog_left (ru_watchdog ?s2) < watchdog_left (ru_watchdog s) \<and> ru_reader ?s2 = ru_reader s"
      using False l s1(3) same by (cases "ru_watchdog s")
        (simp_all add: watchdog_wakes_def Let_def life_inv_def, simp_all add: noted_def queueTerminal_def queueOutput_def)
    moreover have "life_inv ?s2" "leads sha cv url s ?s2" by (rule life_step [OF l], rule leads_trans [OF s1(1) leads_one]) simp
    ultimately show ?thesis using less.hyps leads_trans by metis
  qed
qed

text \<open>The reader goes on.\<close>

fun reader_left :: "reader \<Rightarrow> nat" where
  "reader_left (Opening n) = 7"
| "reader_left (ApplyingSession ev) = 7"
| "reader_left Reading = 6"
| "reader_left (Flushing n) = 5"
| "reader_left AwaitingWatchdog = 3"
| "reader_left (LastFlush n) = 2"
| "reader_left (AwaitingTail n) = 1"
| "reader_left ReaderDone = 0"

definition reader_answer :: "reader \<Rightarrow> run_event" where
  "reader_answer p = (case p of Reading \<Rightarrow> NextDone | ApplyingSession ev \<Rightarrow> SessionSettled | _ \<Rightarrow> ReaderWakes True)"

lemma finally_left: "reader_left (ru_reader (finally_flush s)) \<le> 2" "reader_left (ru_reader (finally_begin s)) \<le> 3"
proof -
  show f: "reader_left (ru_reader (finally_flush s)) \<le> 2" for s by (simp add: finally_flush_def finally_tail_def awaiting_def)
  show "reader_left (ru_reader (finally_begin s)) \<le> 3"
    using f [of "s\<lparr>ru_watchdog := Watch NoTimer\<rparr>"] by (simp add: finally_begin_def split: watchdog.split)
qed

lemma reader_goes_on:
  assumes "life_inv s" "unsettled s = 0" "watchdog_left (ru_watchdog s) = 0" "ru_reader s \<noteq> ReaderDone"
  shows "reader_left (ru_reader (task_step sha cv url s (reader_answer (ru_reader s)))) < reader_left (ru_reader s)"
proof (cases "ru_reader s")
  case (ApplyingSession ev)
  have "reader_left (ru_reader (take_event cv url ev s)) \<le> 6"
    by (simp add: take_event_def awaiting_def Let_def split: agent_body.split) (simp add: queue_defs Let_def)
  thus ?thesis using ApplyingSession finally_left(2) [of s] by (simp add: reader_answer_def session_settled_def)
next
  case AwaitingWatchdog
  hence "ru_watchdog s = Expired" using assms(1,3) by (cases "ru_watchdog s") (simp_all add: life_inv_def)
  thus ?thesis using AwaitingWatchdog finally_left(1) [of s] by (simp add: reader_answer_def reader_wakes_def)
qed (use assms(1,2,4) finally_left(2) [of s] in
  \<open>simp_all add: reader_answer_def reader_wakes_def begin_reading_def run_over_def finally_tail_def awaiting_def life_inv_def\<close>)

lemma reader_ends: "life_inv s \<Longrightarrow> \<exists>s'. leads sha cv url s s' \<and> ru_reader s' = ReaderDone"
proof (induction "reader_left (ru_reader s)" arbitrary: s rule: less_induct)
  case less
  show ?case
  proof (cases "ru_reader s = ReaderDone")
    case True
    thus ?thesis using leads_refl by blast
  next
    case False
    obtain s1 where s1: "leads sha cv url s s1" "ru_reader s1 = ru_reader s" "watchdog_left (ru_watchdog s1) = 0" "unsettled s1 = 0"
      using watchdog_settles [OF less.prems] by blast
    have l: "life_inv s1" using leads_life [OF s1(1) less.prems] .
    let ?e = "reader_answer (ru_reader s1)"
    have "answer ?e" by (simp add: reader_answer_def split: reader.split)
    hence "leads sha cv url s (task_step sha cv url s1 ?e)" using leads_trans [OF s1(1) leads_one] by blast
    moreover have "reader_left (ru_reader (task_step sha cv url s1 ?e)) < reader_left (ru_reader s)"
      using reader_goes_on [OF l s1(4,3)] False s1(2) by simp
    ultimately show ?thesis using less.hyps life_step [OF l] leads_trans by blast
  qed
qed

text \<open>C40 A running task can always come to its end: from every state it can get into, whatever happened before, there
  are answers of the worker, of the store and of the task port after which its reader has returned and whoever waits_of
  for the task goes on; no new event of the agent, no timer and no disposal is needed for it.\<close>

theorem task_can_always_end:
  "\<exists>fs. list_all answer fs \<and> ru_reader (run_task sha cv url task t resume (es @ fs)) = ReaderDone
    \<and> Resolved \<in> set (ru_log (run_task sha cv url task t resume (es @ fs)))"
proof -
  let ?s = "run_task sha cv url task t resume es"
  have "life_inv ?s" unfolding run_task_def by (rule task_life.run_inv)
  from reader_ends [OF this, of sha cv url] obtain fs where fs: "list_all answer fs" "ru_reader (run_steps (task_step sha cv url) ?s fs) = ReaderDone"
    by (auto simp: leads_def)
  have r: "run_task sha cv url task t resume (es @ fs) = run_steps (task_step sha cv url) ?s fs" by (simp add: run_task_def run_steps_append)
  have "handled_inv (run_task sha cv url task t resume (es @ fs))" unfolding run_task_def by (rule task_handled.run_inv)
  thus ?thesis using fs r by (auto simp: handled_inv_def)
qed


subsection \<open>Concrete runs\<close>

text \<open>A turn of the output with all its sends.\<close>

definition turn :: "run_event list" where
  "turn = [OutputTurn False 0, SendsOver True]"

lemma turn_settles:
  fixes sha cv url
  assumes "ru_progress s = None" "ru_queue s = op # r" "\<not> ru_suppressed s" "ru_current s" "op \<noteq> CoarseFlush"
  defines "s' \<equiv> run_steps (task_step sha cv url) s turn"
  shows "output_only s s' \<and> ru_progress s' = None \<and> ru_queue s' = r \<and> ru_settled s' = Suc (ru_settled s)
    \<and> ru_stream s' = (ru_stream s)\<lparr>st_seq := Suc (st_seq (ru_stream s))\<rparr>
    \<and> (\<exists>x. ru_log s' = ru_log s @ [x] \<and> (is_end x \<longleftrightarrow> op = TerminalFlush)
         \<and> (op = TerminalFlush \<longrightarrow> stream_ids_ok (ru_stream s) \<longrightarrow> ru_status s \<in> set END_STATUSES \<longrightarrow> (\<forall>b. length (sha b) = 32)
              \<longrightarrow> (\<exists>e. x = Emitted e \<and> em_status e = ru_status s \<and> em_error e = st_error (ru_stream s))))"
proof -
  let ?s0 = "s\<lparr>ru_queue := r\<rparr>"
  obtain v st cards where run: "run_operation sha cv url 0 op ?s0 = emit_stream sha cv op v st cards ?s0"
    and v: "op = TerminalFlush \<Longrightarrow> st = ru_status s \<and> byte_length v \<le> MAX_OUTPUT_BYTES"
  proof (cases op)
    case TerminalFlush
    obtain v cards where t: "terminal_reply cv url (st_conversation (ru_stream s)) 0 (ru_output s) = (v, cards)" by fastforce
    hence "byte_length v \<le> MAX_OUTPUT_BYTES" using finalText_bytes by (auto simp: terminal_reply_def Let_def split: prod.splits)
    thus thesis using that [of v "ru_status s" cards] assms(3,4) TerminalFlush t by (simp add: run_operation_def terminal_turn_def)
  next
    case Greeting
    thus thesis using that [of "[]" "''processing''" "[]"] assms(3,4) by (simp add: run_operation_def)
  qed (use assms(5) in simp)
  have one: "task_step sha cv url s (OutputTurn False 0) = emit_stream sha cv op v st cards ?s0" using assms(1,2) run by (simp add: output_turn_def Let_def)
  have only: "output_only s ?s0" by (simp add: output_only_def handled_def)
  show ?thesis
  proof (cases rule: emit_forms [of sha cv op v st cards ?s0])
    case refused
    have never: "\<not> (op = TerminalFlush \<and> stream_ids_ok (ru_stream s) \<and> ru_status s \<in> set END_STATUSES \<and> (\<forall>b. length (sha b) = 32))"
    proof
      assume a: "op = TerminalFlush \<and> stream_ids_ok (ru_stream s) \<and> ru_status s \<in> set END_STATUSES \<and> (\<forall>b. length (sha b) = 32)"
      have "\<exists>texts. fst (streamMessages sha cv (ru_stream s) v st) = Inr texts"
        using streamMessages_sends [of "ru_stream s" v st sha cv] a v by (auto simp: END_STATUSES_def)
      hence "ru_progress (emit_stream sha cv op v st cards ?s0) \<noteq> None" by (auto simp: emit_stream_def split: prod.split)
      thus False using refused by (simp add: settle_op_def)
    qed
    have "s' = settle_op (noted [EmitRefused op] (?s0\<lparr>ru_stream := (ru_stream s)\<lparr>st_seq := Suc (st_seq (ru_stream s))\<rparr>\<rparr>))"
      unfolding s'_def turn_def using one refused by (simp add: sends_over_def settle_op_def noted_def)
    thus ?thesis using never by (auto simp: settle_op_def noted_def output_only_def handled_def)
  next
    case (emitted ms)
    have "s' = sends_over True (emit_stream sha cv op v st cards ?s0)" unfolding s'_def turn_def using one by simp
    thus ?thesis unfolding emitted using v by (auto simp: sends_over_def settle_op_def noted_def output_only_def handled_def)
  qed
qed

text \<open>A task whose agent completes, and the watchdog that fires while the session of its last event is stored: the
  conversation is told twice how the task ended.\<close>

definition last_event :: agent_event where
  "last_event = \<lparr>ae_id = 1, ae_task = js ''t1'', ae_session = Some (js ''x''), ae_status = None, ae_body = CompletedWith (js ''done'')\<rparr>"

definition plain_end :: "run_event list" where
  "plain_end = turn @ [ReaderWakes True, NextEvent last_event, SessionSettled] @ turn @ [ReaderWakes True, ReaderWakes True]"

definition double_end :: "run_event list" where
  "double_end = turn @ [ReaderWakes True, NextEvent last_event, WatchdogTimeout, SessionSettled] @ turn
     @ [ReaderWakes True, WatchdogWakes, WatchdogWakes] @ turn @ [WatchdogWakes, ReaderWakes True, ReaderWakes True]"

definition sample_run :: "(bytes \<Rightarrow> bytes) \<Rightarrow> (jstr \<Rightarrow> jnum) \<Rightarrow> url_parser \<Rightarrow> run_event list \<Rightarrow> task_run" where
  "sample_run sha cv url = run_task sha cv url (js ''t1'') stream_task_sample None"

text \<open>The state after the first snapshot.\<close>

lemma greeted_sample:
  fixes sha cv url
  defines "s \<equiv> sample_run sha cv url turn"
  shows "output_only (new_run (js ''t1'') stream_task_sample None) s \<and> ru_progress s = None \<and> ru_queue s = [] \<and> ru_settled s = 1
    \<and> ru_stream s = stream_task_sample\<lparr>st_seq := 1\<rparr> \<and> (\<exists>x. ru_log s = [x] \<and> \<not> is_end x)"
  using turn_settles [of "new_run (js ''t1'') stream_task_sample None" Greeting "[]" sha cv url]
  unfolding s_def sample_run_def run_task_def by (simp add: new_run_def stream_task_sample_def)


lemma greeted_fields:
  fixes sha cv url
  defines "s \<equiv> sample_run sha cv url turn"
  shows "ru_reader s = Opening 1" "ru_current s" "\<not> ru_suppressed s" "\<not> ru_timedOut s" "\<not> ru_terminal s" "ru_queued s = 1"
    "ru_watchdog s = Watch NoTimer" "ru_lastEventId s = 0" "ru_taskId s = js ''t1''" "ru_progress s = None" "ru_queue s = []"
    "ru_settled s = 1" "filter is_end (ru_log s) = []"
  using greeted_sample [of sha cv url, folded s_def] by (auto simp: output_only_def new_run_def)

lemma sample_run_append: "sample_run sha cv url (a @ b) = run_steps (task_step sha cv url) (sample_run sha cv url a) b"
  by (simp add: sample_run_def run_task_def run_steps_append)

lemma plain_end_sample:
  fixes sha cv url
  defines "s \<equiv> sample_run sha cv url plain_end"
  shows "ru_reader s = ReaderDone \<and> \<not> ru_suppressed s"
proof -
  let ?step = "task_step sha cv url"
  define s1 where "s1 = sample_run sha cv url turn"
  define s2 where "s2 = run_steps ?step s1 [ReaderWakes True, NextEvent last_event, SessionSettled]"
  define s3 where "s3 = run_steps ?step s2 turn"
  note f1 = greeted_fields [of sha cv url, folded s1_def]
  have f2: "ru_reader s2 = Flushing 2" "ru_current s2" "\<not> ru_suppressed s2" "\<not> ru_timedOut s2" "ru_terminal s2" "ru_queued s2 = 2"
    "ru_watchdog s2 = Watch Ticking" "ru_progress s2 = None" "ru_queue s2 = [TerminalFlush]" "ru_settled s2 = 1"
    unfolding s2_def using f1
    by (simp_all add: reader_wakes_def begin_reading_def next_event_def last_event_def takes_session_def session_settled_def take_event_def
        reached_def awaiting_def queueTerminal_def queueOutput_def noted_def)
  have f3: "output_only s2 s3" "ru_settled s3 = 2" using turn_settles [OF f2(8,9,3,2), of sha cv url] f2(10) by (simp_all add: s3_def)
  have "s = run_steps ?step s3 [ReaderWakes True, ReaderWakes True]"
    unfolding s_def plain_end_def sample_run_append s3_def s2_def s1_def by (simp add: run_steps_append)
  thus ?thesis using f2 f3
    by (simp add: output_only_def reader_wakes_def finally_begin_def finally_flush_def finally_tail_def awaiting_def run_over_def noted_def)
qed

lemma task_tells_its_end_once_witness:
  "\<forall>cv url. length (filter is_end (ru_log (sample_run sha_demo cv url plain_end))) = 1"
proof (intro allI)
  fix cv url
  have apart: "WatchdogTimeout \<notin> set es \<Longrightarrow> watchdog_apart_run sha cv url s es" for sha s es
    by (induction es arbitrary: s) (auto simp: watchdog_apart_def)
  have a: "watchdog_apart_run sha_demo cv url (new_run (js ''t1'') stream_task_sample None) plain_end"
    by (rule apart) (simp add: plain_end_def turn_def)
  note e = plain_end_sample [of sha_demo cv url]
  from task_tells_its_end_once [of sha_demo cv url "js ''t1''" stream_task_sample None plain_end] e a
  show "length (filter is_end (ru_log (sample_run sha_demo cv url plain_end))) = 1" by (simp add: sample_run_def)
qed

lemma ends_told_twice:
  assumes "\<forall>b. length (sha b) = 32"
  shows "\<exists>a b log0 log1. ru_log (sample_run sha cv url double_end) = log0 @ [Emitted a] @ log1 @ [Emitted b] @ [Forgotten, Resolved]
    \<and> em_status a = ''completed'' \<and> em_status b = ''failed'' \<and> em_error b = Some (js ''task_timeout'')
    \<and> \<not> ru_suppressed (sample_run sha cv url double_end)"
proof -
  let ?step = "task_step sha cv url"
  define s1 where "s1 = sample_run sha cv url turn"
  define s2 where "s2 = run_steps ?step s1 [ReaderWakes True, NextEvent last_event, WatchdogTimeout, SessionSettled]"
  define s3 where "s3 = run_steps ?step s2 turn"
  define s4 where "s4 = run_steps ?step s3 [ReaderWakes True, WatchdogWakes, WatchdogWakes]"
  define s5 where "s5 = run_steps ?step s4 turn"
  note f1 = greeted_fields [of sha cv url, folded s1_def]
  have str1: "ru_stream s1 = stream_task_sample\<lparr>st_seq := 1\<rparr>" using greeted_sample [of sha cv url] by (simp add: s1_def)
  have f2: "ru_reader s2 = Flushing 2" "ru_current s2" "\<not> ru_suppressed s2" "ru_timedOut s2" "ru_terminal s2" "ru_queued s2 = 2"
    "ru_watchdog s2 = Cancelling" "ru_progress s2 = None" "ru_queue s2 = [TerminalFlush]" "ru_settled s2 = 1" "ru_status s2 = ''completed''"
    "ru_stream s2 = ru_stream s1"
    unfolding s2_def using f1
    by (simp_all add: reader_wakes_def begin_reading_def next_event_def last_event_def takes_session_def session_settled_def take_event_def
        expireTask_def reached_def awaiting_def queueTerminal_def queueOutput_def noted_def)
  have ids: "stream_ids_ok (stream_task_sample\<lparr>st_seq := n\<rparr>)" "stream_ids_ok (stream_task_sample\<lparr>st_seq := n, st_error := Some (js ''task_timeout'')\<rparr>)"
    if "n \<le> 3" for n
    using stream_ids_sample that by (simp_all add: stream_ids_ok_def stream_task_sample_def identifier_plain plain_char_def max_safe_def)
  obtain a where f3: "output_only s2 s3" "ru_settled s3 = 2" "ru_progress s3 = None" "ru_queue s3 = []" "ru_stream s3 = stream_task_sample\<lparr>st_seq := 2\<rparr>"
    "ru_log s3 = ru_log s2 @ [Emitted a]" "em_status a = ''completed''"
    using turn_settles [OF f2(8,9,3,2), of sha cv url] f2(10-12) ids(1) [of 1] str1 assms by (auto simp: s3_def END_STATUSES_def)
  have f4: "ru_reader s4 = AwaitingWatchdog" "ru_current s4" "\<not> ru_suppressed s4" "ru_timedOut s4" "ru_terminal s4" "ru_queued s4 = 3"
    "ru_watchdog s4 = FlushingTimeout 3" "ru_progress s4 = None" "ru_queue s4 = [TerminalFlush]" "ru_settled s4 = 2" "ru_status s4 = ''failed''"
    "ru_stream s4 = stream_task_sample\<lparr>st_seq := 2, st_error := Some (js ''task_timeout'')\<rparr>" "\<exists>l. ru_log s4 = ru_log s3 @ l"
    unfolding s4_def using f2 f3
    by (simp_all add: output_only_def reader_wakes_def finally_begin_def watchdog_wakes_def queueTerminal_def queueOutput_def noted_def)
  obtain b where f5: "output_only s4 s5" "ru_settled s5 = 3" "ru_log s5 = ru_log s4 @ [Emitted b]" "em_status b = ''failed''"
    "em_error b = Some (js ''task_timeout'')"
    using turn_settles [OF f4(8,9,3,2), of sha cv url] f4(10-12) ids(2) [of 2] assms by (auto simp: s5_def END_STATUSES_def)
  have s: "sample_run sha cv url double_end = run_steps ?step s5 [WatchdogWakes, ReaderWakes True, ReaderWakes True]"
    unfolding double_end_def sample_run_append s5_def s4_def s3_def s2_def s1_def by (simp add: run_steps_append)
  have "ru_log (sample_run sha cv url double_end) = ru_log s5 @ [Forgotten, Resolved]" "\<not> ru_suppressed (sample_run sha cv url double_end)"
    unfolding s using f4 f5
    by (simp_all add: output_only_def watchdog_wakes_def reader_wakes_def finally_flush_def finally_tail_def awaiting_def run_over_def noted_def)
  moreover obtain l where "ru_log s4 = ru_log s3 @ l" using f4(13) by blast
  ultimately show ?thesis using f3(6,7) f5(3-5) by auto
qed

end
