(* ===== verification/Spec2Isabelle.thy ===== *)
theory Spec2Isabelle imports RouterTheorems BrowserSessions Sse RecoveringTask WireTheorems
  GuardTheorems V2Theorems DiscussionV1 V3Prompt DiscussionPrompt MessageTheorems
  V3RouterTheorems DedupSpec MarkerTheorems ChatStream CardTheorems OutputDelivery LaneProofs
  PlainProofs TaskRunTheorems begin

section \<open>The message bridge of quukk-clawmessenger\<close>

text \<open>
  This development models the own logic of the message bridge, the TypeScript package
  \<^verbatim>\<open>src/packages/quukk-clawmessenger/src\<close> (all paths below are relative to it).  The bridge connects chat
  conversations of a messaging service with agent runtimes on the user's machine.  A message arrives
  from the messaging worker, is normalised, claimed once, and answered by a task of an agent; the
  answer streams back in frames.  In a discussion several agents take turns that a host agent directs.

  \<^bold>\<open>Values.\<close>  \<open>JsString\<close> has strings as lists of 16-bit code units with \<open>trim\<close>, the Unicode classes \<open>Cc\<close>
  and \<open>Cf\<close> and decimal printing; \<open>Utf8\<close> the encoder, the replacing and the fatal decoder; \<open>Json\<close> and
  \<open>JsonParse\<close> the values of JSON with \<open>JSON.stringify\<close> and \<open>JSON.parse\<close> (round trip \<open>parse_stringify\<close>,
  injectivity \<open>stringify_inj\<close>), \<open>Printed\<close> the well-formedness of printed text; \<open>JsMap\<close> insertion-ordered
  maps with a locale of bounded tables; \<open>Base64\<close>, \<open>Digest\<close>, \<open>Ascii\<close> the rest.  A number is an integer or
  a double given by its printed text; how a text is read as a double is the parameter \<open>cv\<close>.

  \<^bold>\<open>State and persistence.\<close>  \<open>Dedup\<close> and \<open>Conversation\<close> (\<^verbatim>\<open>router/dedup.ts\<close>, \<^verbatim>\<open>router/conversation.ts\<close>) are pure;
  \<open>DedupSpec\<close> shows that the deduplication list refines a table of remembered messages.  \<open>SessionStore\<close>
  and \<open>RouterStore\<close> are \<^verbatim>\<open>router/session-store.ts\<close>: the state as records, every schema as a predicate, every
  operation as a transition inside \<open>mutate\<close>, whose result may also be that the file was not written.
  \<open>StoreProofs\<close> has the invariant, \<open>RouterTheorems\<close> the properties.  \<open>AtomicJson\<close> is \<^verbatim>\<open>config/atomic-json.ts\<close>
  over the outcomes of the file system calls.

  \<^bold>\<open>The local server.\<close>  \<open>Tickets\<close> and \<open>BrowserSessions\<close> are \<^verbatim>\<open>http/tickets.ts\<close> and \<^verbatim>\<open>http/security.ts\<close>, each
  an instance of the locale \<open>state_machine\<close> of \<open>Prelude\<close>; random bytes and clock readings are inputs, the
  digest is a parameter of which only the length of its result is used.

  \<^bold>\<open>The bridge client.\<close>  \<open>Sse\<close> is the event stream parser \<^verbatim>\<open>go/sse.ts\<close>, byte by byte; \<open>RecoveringTask\<close> is
  \<^verbatim>\<open>go/recovering-task.ts\<close>, with the calls it makes as a trace.

  \<^bold>\<open>Messages.\<close>  \<open>Passive\<close> is the snapshot of a foreign value, given by its property descriptors, so that
  accessors, holes and proxies are cases of the model; \<open>Messages\<close> is the rest of \<^verbatim>\<open>protocol/messages.ts\<close>,
  \<open>PassiveProofs\<close> and \<open>MessageTheorems\<close> its properties.  \<open>ChatStream\<close> is \<^verbatim>\<open>protocol/chat-stream.ts\<close>: the
  events of a streamed reply and their frames.

  \<^bold>\<open>Cards.\<close>  \<open>CardMarkers\<close> and \<open>MarkerTheorems\<close> are \<^verbatim>\<open>cardkit/parse-marker.ts\<close>, the cards embedded in a
  text; \<open>ObjOrder\<close> the order in which a JavaScript object lists its properties; \<open>Cards\<close> the validator
  \<^verbatim>\<open>cardkit/validate.ts\<close>, one definition per kind of section, \<open>CardProofs\<close> that every part of it leaves its
  own results unchanged; \<open>CardActions\<close> the routing of \<^verbatim>\<open>cardkit/action-router.ts\<close> and the envelopes of
  \<^verbatim>\<open>cardkit/builders.ts\<close>; \<open>CardTheorems\<close> the properties.

  \<^bold>\<open>The output of a task.\<close>  \<open>TaskOutput\<close> and \<open>TaskOutputProofs\<close> are the part of \<^verbatim>\<open>router/message-router.ts\<close> that
  collects the text of the agent within its limit, revises it by the completed reply and builds the
  events and cards of the terminal flush.  \<open>OutputBuffer\<close> sends them: what the worker refuses for the moment
  goes to a bounded buffer of the binding, which a drain empties when the binding is online; every stretch
  of code between two awaits is an event of a step function, so that all interleavings are covered.
  \<open>OutputBufferProofs\<close> has its invariant, over a log of what was sent; \<open>OutputCapacity\<close> shows that every
  answer fits, \<open>OutputDelivery\<close> that it is delivered or kept.  \<open>Lanes\<close> and \<open>LaneProofs\<close> are the queues that run the
  operations of a conversation one after the other.

  \<^bold>\<open>Commands.\<close>  \<open>Acts\<close> has handlers as acts over a world, given the answers of everything they await, with a
  calculus of preconditions and predicates on the order of events.  \<open>CommandRouter\<close> is the part of
  \<^verbatim>\<open>router/message-router.ts\<close> that carries out slash commands, card actions, local protocol messages and
  invitations, each handler whole; \<open>CommandProofs\<close> follows their logs of effects, \<open>CommandTheorems\<close> has the
  properties.  \<open>PlainRouter\<close> and \<open>PlainProofs\<close> are the handling of a message that is a task for the agent, from
  the claim to the start of the task and its admission.

  \<^bold>\<open>A running task.\<close>  \<open>TaskRun\<close> is what goes on while the agent works: the reader of its events (\<^verbatim>\<open>consume\<close>), the
  queue of output operations, the flush timer, the watchdog and the disposal, as the steps of one state.
  \<open>TaskRunProofs\<close> has the invariant of the life of a task and splits the steps into those that send and those
  that do not; \<open>TaskRunTold\<close> has the order of what is told, \<open>TaskRunEnd\<close> how often the end is told,
  \<open>TaskRunTheorems\<close> the properties, that every state leads to the end, and the run \<open>ends_told_twice\<close>, in
  which the watchdog fires while the session of the last event is stored.

  \<^bold>\<open>Discussions.\<close>  \<open>DiscussionWire\<close>, \<open>WireProofs\<close>, \<open>WireRoundtrip\<close>, \<open>WireTheorems\<close> are the chunked wire
  \<^verbatim>\<open>protocol/discussion-wire.ts\<close>.  \<open>Checks\<close>, \<open>DiscussionV2\<close>, \<open>V2Messages\<close>, \<open>V2Theorems\<close> are the validators and
  builders of \<^verbatim>\<open>protocol/discussion-v2.ts\<close>; \<open>DiscussionGuard\<close>, \<open>GuardProofs\<close>, \<open>GuardTheorems\<close> its guard
  against repeated and cancelled work.  \<open>DiscussionV1\<close>, \<open>DiscussionV3\<close>, \<open>V3Prompt\<close>, \<open>DiscussionPrompt\<close> are the
  other protocol modules.  \<open>V3Router\<close> is \<^verbatim>\<open>router/discussion-v3-router.ts\<close>: its handlers are actions over a
  world of the store, the messages sent and the answers of everything awaited; between two awaits any
  operation of others may run, given from outside.  \<open>V3RouterProofs\<close>, \<open>V3RouterTheorems\<close> show what is
  recorded before it is announced.

  \<^bold>\<open>Properties.\<close>  The lemmas named C1 to C40 are the properties; each one with hypotheses has a lemma whose
  name ends in \<open>_witness\<close> that applies it at concrete inputs.

  \<^bold>\<open>Bounds and fuel.\<close>  Loops are structural or have a termination proof.  \<open>parse_value\<close> takes fuel; it is
  called with twice the length of the text plus two, which \<open>parse_value_enough\<close> shows to be enough.  The
  loops over draws of random bytes are bounded by eight in the source as in the model.

  \<^bold>\<open>Not modelled.\<close>  The handlers of the discussions of the first and second protocol in the message router and its dispatch, the service, the command line, the processes of bridge and worker,
  the HTTP clients and routes, the configuration store and the log are not modelled:
  they are mostly input and output around the modelled parts.  The applications and their packages (\<^verbatim>\<open>src/apps\<close>, \<^verbatim>\<open>src/packages/views\<close>, \<^verbatim>\<open>core\<close>, \<^verbatim>\<open>ui\<close>) are the
  product this repository is derived from, without logic of the bridge, and the server is written in Go.
  Of the libraries used, zod schemas are predicates; SHA-256, HMAC, NFKC and locale comparison are parameters.
\<close>

end
